(* ===== verification/Prelude.thy ===== *)
theory Prelude
  imports Main "HOL-Library.Word"
begin

unbundle bit_operations_syntax

text \<open>
  What every component of the development shares: the result type of fallible C code, the machine
  widths, and the list and option lemmas the components use.

  A C function that may not return normally is modelled with the sum type \<open>hbs_error + 'a\<close>.
  \<open>Inl\<close> carries one of four outcomes:
  \<^item> \<open>Throw t msg\<close>: the code called \<open>handlebars_throw(ctx, t, msg)\<close>, which \<open>longjmp\<close>s to the
    caller's handler (src/handlebars.c); \<open>msg\<close> is the message (its format string when the
    arguments are not modelled);
  \<^item> \<open>Assert_fail\<close>: an \<open>assert\<close> of the source is false;
  \<^item> \<open>Mem_error\<close>: the next access is outside the object (undefined behaviour in C);
  \<^item> \<open>Out_of_fuel\<close>: a recursion of the model that is bounded by fuel ran out of it. No run of the
    code corresponds to it; the components prove that it does not happen.
  Allocation failures (\<open>HANDLEBARS_NOMEM\<close>) are not modelled: every \<open>talloc\<close> call succeeds.
\<close>

section \<open>Outcomes of C functions\<close>

datatype handlebars_error_type =
    HANDLEBARS_SUCCESS
  | HANDLEBARS_ERROR
  | HANDLEBARS_NOMEM
  | HANDLEBARS_NULLARG
  | HANDLEBARS_PARSEERR
  | HANDLEBARS_UNKNOWN_HELPER
  | HANDLEBARS_UNSUPPORTED_PARTIAL_ARGS
  | HANDLEBARS_STACK_OVERFLOW
  | HANDELBARS_EXTERNAL_ERROR

datatype hbs_error =
    Throw handlebars_error_type string
  | Assert_fail
  | Mem_error
  | Out_of_fuel

text \<open>Sequencing: the first error ends the computation, as \<open>longjmp\<close> does.\<close>

fun ebind :: "hbs_error + 'a \<Rightarrow> ('a \<Rightarrow> hbs_error + 'b) \<Rightarrow> hbs_error + 'b" where
  "ebind (Inl e) f = Inl e"
| "ebind (Inr x) f = f x"

lemma ebind_cong [fundef_cong]:
  "m = m' \<Longrightarrow> (\<And>x. m' = Inr x \<Longrightarrow> f x = f' x) \<Longrightarrow> ebind m f = ebind m' f'"
  by (cases m') auto

lemma ebind_eq_Inr [simp]: "ebind m f = Inr y \<longleftrightarrow> (\<exists>x. m = Inr x \<and> f x = Inr y)"
  by (cases m) auto

lemma ebind_eq_Inl: "ebind m f = Inl e \<longleftrightarrow> m = Inl e \<or> (\<exists>x. m = Inr x \<and> f x = Inl e)"
  by (cases m) auto

lemma ebind_assoc: "ebind (ebind m f) g = ebind m (\<lambda>x. ebind (f x) g)"
  by (cases m) auto

lemma ebind_Inr_right [simp]: "ebind m Inr = m"
  by (cases m) auto

text \<open>A loop over a list whose body may fail.\<close>

fun efold :: "('a \<Rightarrow> 's \<Rightarrow> hbs_error + 's) \<Rightarrow> 'a list \<Rightarrow> 's \<Rightarrow> hbs_error + 's" where
  "efold f [] s = Inr s"
| "efold f (x # xs) s = ebind (f x s) (efold f xs)"

lemma efold_cong [fundef_cong]:
  "xs = ys \<Longrightarrow> s = t \<Longrightarrow> (\<And>x u. x \<in> set ys \<Longrightarrow> f x u = g x u) \<Longrightarrow> efold f xs s = efold g ys t"
proof (induction ys arbitrary: xs s t)
  case Nil
  then show ?case by simp
next
  case (Cons y ys)
  then show ?case by (auto cong: ebind_cong)
qed

lemma efold_append: "efold f (xs @ ys) s = ebind (efold f xs s) (efold f ys)"
  by (induction xs arbitrary: s) (auto simp: ebind_assoc cong: ebind_cong)

lemma efold_invariant:
  assumes "efold f xs s = Inr t" and "P s"
    and "\<And>x s s'. x \<in> set xs \<Longrightarrow> P s \<Longrightarrow> f x s = Inr s' \<Longrightarrow> P s'"
  shows "P t"
  using assms
proof (induction xs arbitrary: s)
  case Nil
  then show ?case by simp
next
  case (Cons x xs)
  from Cons.prems(1) obtain u where u: "f x s = Inr u" and t: "efold f xs u = Inr t"
    by auto
  have "P u" by (rule Cons.prems(3) [OF _ Cons.prems(2) u]) simp
  then show ?case using Cons.IH [OF t] Cons.prems(3) by (meson list.set_intros(2))
qed

lemma efold_Inr_fold: "(\<And>x s. x \<in> set xs \<Longrightarrow> f x s = Inr (g x s)) \<Longrightarrow> efold f xs s = Inr (fold g xs s)"
  by (induction xs arbitrary: s) auto

text \<open>\<open>returns m P\<close>: \<open>m\<close> does not fail, and its result satisfies \<open>P\<close>.\<close>

definition returns :: "hbs_error + 'a \<Rightarrow> ('a \<Rightarrow> bool) \<Rightarrow> bool" where
  "returns m P \<longleftrightarrow> (\<exists>x. m = Inr x \<and> P x)"

lemma returns_Inr [simp]: "returns (Inr x) P \<longleftrightarrow> P x"
  by (simp add: returns_def)

lemma returns_Inl [simp]: "\<not> returns (Inl e) P"
  by (simp add: returns_def)

lemma returns_bind: "returns m P \<Longrightarrow> (\<And>x. P x \<Longrightarrow> returns (f x) Q) \<Longrightarrow> returns (ebind m f) Q"
  by (auto simp: returns_def)

lemma returns_mono: "returns m P \<Longrightarrow> (\<And>x. P x \<Longrightarrow> Q x) \<Longrightarrow> returns m Q"
  by (auto simp: returns_def)

lemma returns_if: "(b \<Longrightarrow> returns m P) \<Longrightarrow> (\<not> b \<Longrightarrow> returns n P) \<Longrightarrow> returns (if b then m else n) P"
  by simp

lemma returns_efold:
  assumes "P s" "\<And>x s. x \<in> set xs \<Longrightarrow> P s \<Longrightarrow> returns (f x s) P"
  shows "returns (efold f xs s) P"
  using assms
proof (induction xs arbitrary: s)
  case (Cons x xs)
  have "returns (f x s) P" using Cons.prems by simp
  moreover have "returns (efold f xs t) P" if "P t" for t
    by (rule Cons.IH [OF that]) (use Cons.prems(2) in simp)
  ultimately show ?case by (auto intro: returns_bind)
qed simp

section \<open>Machine widths\<close>

type_synonym u8 = "8 word"
type_synonym u32 = "32 word"
type_synonym u64 = "64 word"

text \<open>
  \<open>size_t\<close> counts of objects in memory are modelled as \<open>nat\<close>; where the code's arithmetic on them
  can wrap, the model says so at the place. \<open>handlebars_align_size\<close> of src/handlebars_private.h:
\<close>

definition handlebars_align_size :: "nat \<Rightarrow> nat \<Rightarrow> nat" where
  "handlebars_align_size sz alignment =
     (let rem = sz mod alignment
      in if rem = 0 then sz else sz + alignment - rem)"

lemma align_size_ge:
  assumes "0 < a"
  shows "n \<le> handlebars_align_size n a"
proof -
  have "n mod a < a" using assms by simp
  then have "n \<le> n + a - n mod a" by linarith
  then show ?thesis by (simp add: handlebars_align_size_def Let_def)
qed

lemma align_size_dvd: "0 < a \<Longrightarrow> a dvd handlebars_align_size n a"
proof -
  assume a: "0 < a"
  have "n + a - n mod a = n div a * a + a"
    using div_mult_mod_eq [of n a] mod_less_divisor [OF a, of n] by linarith
  then show ?thesis
    by (auto simp: handlebars_align_size_def Let_def)
qed

lemma align_size_less: "0 < a \<Longrightarrow> handlebars_align_size n a < n + a"
  by (auto simp: handlebars_align_size_def Let_def)

lemma align_size_id [simp]: "a dvd n \<Longrightarrow> handlebars_align_size n a = n"
  by (simp add: handlebars_align_size_def)

text \<open>Both growable vectors of the program round a capacity with \<open>| 3\<close>.\<close>

lemma or3: "n OR 3 = n div 4 * 4 + (3::nat)"
proof -
  have "n OR 3 = 1 + 2 * ((n div 2) OR 1)"
    by (subst or_rec) simp
  also have "(n div 2) OR 1 = 1 + 2 * (n div 4)"
    by (subst or_rec) (simp flip: div_mult2_eq)
  finally show ?thesis by simp
qed

lemma or3_ge: "n \<le> n OR (3::nat)" "3 \<le> n OR (3::nat)"
  unfolding or3 by presburger+

section \<open>Lists\<close>

lemma takeWhile_id: "(\<And>x. x \<in> set xs \<Longrightarrow> P x) \<Longrightarrow> takeWhile P xs = xs"
  by (simp add: takeWhile_eq_all_conv)

lemma length_takeWhile_stop: "x \<in> set xs \<Longrightarrow> \<not> P x \<Longrightarrow> length (takeWhile P xs) < length xs"
  by (induction xs) auto

lemma list_update_take_drop:
  "i < length xs \<Longrightarrow> xs[i := x] = take i xs @ x # drop (Suc i) xs"
  by (rule upd_conv_take_nth_drop)

end
