(* ===== verification/HString.thy ===== *)
theory HString
  imports Prelude
begin

unbundle bit_operations_syntax

text \<open>
  The counted strings of src/handlebars_string.c. A C \<open>char\<close> is an Isabelle \<open>char\<close> (a byte), so a
  string's bytes are a \<open>string\<close> (a list of bytes, NUL allowed). \<open>struct handlebars_string\<close> is the
  record \<open>hstr\<close>: the reference count, the bytes \<open>val[0..len-1]\<close> (so \<open>len\<close> is the list's length;
  \<open>val[len]\<close> is the NUL terminator), the cached hash (0 = not computed yet) and the number of bytes
  allocated for \<open>val\<close>, terminator included (\<open>talloc_get_size\<close> less \<open>HANDLEBARS_STRING_SIZE\<close>).

  An operation that writes into a string returns the string it wrote. Writing past the allocation
  is \<open>Inl Mem_error\<close>. The 32-bit content hash (xxHash, a vendored library) is the parameter \<open>H\<close> of the
  definitions that use it. Aliasing, the effect of copy-on-write on the other holders of a string,
  is the subject of the theory StringStore.
\<close>

section \<open>The string object\<close>

record hstr =
  src :: u8
  sval :: string
  shash :: u32
  salloc :: nat

abbreviation NUL :: char where "NUL \<equiv> CHR 0x00"
abbreviation newline :: char where "newline \<equiv> CHR 0x0A"
abbreviation backslash :: char where "backslash \<equiv> CHR 0x5C"

text \<open>\<open>handlebars_string_init(ctx, length)\<close>: an empty string with room for \<open>length\<close> bytes.\<close>

definition handlebars_string_init :: "nat \<Rightarrow> hstr" where
  "handlebars_string_init l = \<lparr>src = 0, sval = [], shash = 0, salloc = l + 1\<rparr>"

definition handlebars_string_ctor_ex :: "string \<Rightarrow> u32 \<Rightarrow> hstr" where
  "handlebars_string_ctor_ex str h =
     (handlebars_string_init (length str + 1))\<lparr>sval := str, shash := h\<rparr>"

definition handlebars_string_ctor :: "string \<Rightarrow> hstr" where
  "handlebars_string_ctor str = handlebars_string_ctor_ex str 0"

definition handlebars_string_copy_ctor :: "hstr \<Rightarrow> hstr" where
  "handlebars_string_copy_ctor s = s\<lparr>src := 0, salloc := length (sval s) + 1\<rparr>"

definition hbs_str_len :: "hstr \<Rightarrow> nat" where
  "hbs_str_len s = length (sval s)"

text \<open>The hash is computed on demand and cached in the object.\<close>

definition hbs_str_hash :: "(string \<Rightarrow> u32) \<Rightarrow> hstr \<Rightarrow> u32 \<times> hstr" where
  "hbs_str_hash H s =
     (if shash s = 0 then (H (sval s), s\<lparr>shash := H (sval s)\<rparr>) else (shash s, s))"

abbreviation hash_of :: "(string \<Rightarrow> u32) \<Rightarrow> hstr \<Rightarrow> u32" where
  "hash_of H s \<equiv> fst (hbs_str_hash H s)"

text \<open>The DJBX33A hash the file carries beside xxHash: it stops at a NUL byte.\<close>

fun djbx33a_loop :: "u32 \<Rightarrow> string \<Rightarrow> u32" where
  "djbx33a_loop h [] = h"
| "djbx33a_loop h (c # cs) =
     (if c = NUL then h else djbx33a_loop ((push_bit 5 h + h) + of_char c) cs)"

definition handlebars_hash_djbx33a :: "string \<Rightarrow> u32" where
  "handlebars_hash_djbx33a str = djbx33a_loop 5381 str"

text \<open>
  Copy on write: a string held more than once is copied before it is written. The copy has been
  referenced once (\<open>handlebars_string_addref\<close>) because the original had a holder.
\<close>

definition separate_string :: "hstr \<Rightarrow> hstr" where
  "separate_string s =
     (if 1 < src s then (handlebars_string_copy_ctor s)\<lparr>src := 1\<rparr> else s)"

section \<open>Appending\<close>

text \<open>\<open>extend\<close> makes room for \<open>l\<close> bytes and the terminator.\<close>

definition handlebars_string_extend :: "hstr \<Rightarrow> nat \<Rightarrow> hstr" where
  "handlebars_string_extend s l =
     (if l + 1 > salloc s then (separate_string s)\<lparr>salloc := l + 1\<rparr> else s)"

definition handlebars_string_append_unsafe :: "hstr \<Rightarrow> string \<Rightarrow> hbs_error + hstr" where
  "handlebars_string_append_unsafe s str =
     (if length (sval s) + length str + 1 > salloc s then Inl Mem_error
      else Inr (s\<lparr>sval := sval s @ str, shash := 0\<rparr>))"

definition handlebars_string_append :: "hstr \<Rightarrow> string \<Rightarrow> hbs_error + hstr" where
  "handlebars_string_append s str =
     (let s1 = separate_string s;
          s2 = handlebars_string_extend s1 (length (sval s1) + length str)
      in handlebars_string_append_unsafe s2 str)"

definition handlebars_string_append_str :: "hstr \<Rightarrow> hstr \<Rightarrow> hbs_error + hstr" where
  "handlebars_string_append_str s s2 = handlebars_string_append s (sval s2)"

definition handlebars_string_compact :: "hstr \<Rightarrow> hstr" where
  "handlebars_string_compact s =
     (let sz = length (sval s) + 1
      in if salloc s > sz then (separate_string s)\<lparr>salloc := sz\<rparr> else s)"

text \<open>
  The \<open>printf\<close> family: \<open>out\<close> is the text \<open>vsnprintf\<close> produces for the format and arguments.
\<close>

definition handlebars_string_vasprintf_append :: "hstr \<Rightarrow> string \<Rightarrow> hbs_error + hstr" where
  "handlebars_string_vasprintf_append s out =
     (let slen = length (sval s); s1 = separate_string s
      in if out = [] then Inr s1
         else let s2 = handlebars_string_extend s1 (slen + length out)
              in if slen + length out + 1 > salloc s2 then Inl Mem_error
                 else Inr (s2\<lparr>sval := sval s2 @ out, shash := 0\<rparr>))"

section \<open>Comparing and searching\<close>

text \<open>Equality compares the lengths and the hashes, never the bytes.\<close>

definition handlebars_string_eq :: "(string \<Rightarrow> u32) \<Rightarrow> hstr \<Rightarrow> hstr \<Rightarrow> bool" where
  "handlebars_string_eq H s1 s2 =
     (if length (sval s1) \<noteq> length (sval s2) then False
      else hash_of H s1 = hash_of H s2)"

text \<open>\<open>strncmp(a, b, n) == 0\<close> on NUL-terminated bytes: it stops at a NUL both have in common.\<close>

fun strncmp_eq :: "nat \<Rightarrow> string \<Rightarrow> string \<Rightarrow> bool" where
  "strncmp_eq 0 a b = True"
| "strncmp_eq (Suc n) [] b = (case b of [] \<Rightarrow> True | y # _ \<Rightarrow> y = NUL)"
| "strncmp_eq (Suc n) (x # xs) b =
     (case b of
        [] \<Rightarrow> x = NUL
      | y # ys \<Rightarrow> if x \<noteq> y then False else if x = NUL then True else strncmp_eq n xs ys)"

definition hbs_str_eq_strl :: "hstr \<Rightarrow> string \<Rightarrow> bool" where
  "hbs_str_eq_strl s str2 =
     (if length (sval s) \<noteq> length str2 then False
      else strncmp_eq (length str2) (sval s) str2)"

text \<open>\<open>handlebars_strnstr\<close>: the offset of the first occurrence, \<open>None\<close> for the null pointer.\<close>

fun strnstr_loop :: "nat \<Rightarrow> string \<Rightarrow> string \<Rightarrow> nat option" where
  "strnstr_loop i h needle =
     (if length h < length needle then None
      else case h of
             [] \<Rightarrow> None
           | c # cs \<Rightarrow>
               if c = hd needle \<and> strncmp_eq (length needle) h needle then Some i
               else strnstr_loop (Suc i) cs needle)"

declare strnstr_loop.simps [simp del]

definition handlebars_strnstr :: "string \<Rightarrow> string \<Rightarrow> nat option" where
  "handlebars_strnstr haystack needle =
     (if needle = [] \<or> haystack = [] then None else strnstr_loop 0 haystack needle)"

section \<open>Truncating and trimming\<close>

text \<open>\<open>truncate(s, start, end)\<close>; with \<open>start\<close> beyond the length the \<open>memmove\<close> count wraps.\<close>

definition handlebars_string_truncate :: "hstr \<Rightarrow> nat \<Rightarrow> nat \<Rightarrow> hbs_error + hstr" where
  "handlebars_string_truncate s start en =
     (let s1 = separate_string s;
          v = (if en < length (sval s1) then take en (sval s1) else sval s1)
      in if start > 0 \<and> start > length v then Inl Mem_error
         else Inr (s1\<lparr>sval := drop start v, shash := 0\<rparr>))"

text \<open>
  The trims cut bytes of the mask \<open>what\<close>; \<open>ltrim\<close> also stops at a NUL. Neither resets the cached
  hash.
\<close>

definition handlebars_string_ltrim :: "hstr \<Rightarrow> string \<Rightarrow> hstr" where
  "handlebars_string_ltrim s what =
     (if sval s = [] then s
      else let s1 = separate_string s
           in s1\<lparr>sval := dropWhile (\<lambda>c. c \<noteq> NUL \<and> c \<in> set what) (sval s1)\<rparr>)"

definition handlebars_string_rtrim :: "hstr \<Rightarrow> string \<Rightarrow> hstr" where
  "handlebars_string_rtrim s what =
     (if sval s = [] then s
      else let s1 = separate_string s
           in s1\<lparr>sval := rev (dropWhile (\<lambda>c. c \<in> set what) (rev (sval s1)))\<rparr>)"

section \<open>Well-formedness\<close>

text \<open>
  \<open>str_ok\<close>: the allocation holds the bytes and the terminator. \<open>hash_ok\<close>: the cached hash, when
  there is one, is the hash of the bytes.
\<close>

definition str_ok :: "hstr \<Rightarrow> bool" where
  "str_ok s \<longleftrightarrow> length (sval s) < salloc s"

definition hash_ok :: "(string \<Rightarrow> u32) \<Rightarrow> hstr \<Rightarrow> bool" where
  "hash_ok H s \<longleftrightarrow> shash s = 0 \<or> shash s = H (sval s)"

named_theorems str_defs \<open>unfolds the constructors and the small writers of a string\<close>

lemmas str_ctor_defs [str_defs] =
  handlebars_string_init_def handlebars_string_ctor_def handlebars_string_ctor_ex_def
  handlebars_string_copy_ctor_def

lemma sval_init [simp]: "sval (handlebars_string_init l) = []"
  by (simp add: str_defs)

lemma sval_ctor [simp]: "sval (handlebars_string_ctor str) = str"
  by (simp add: str_defs)

lemma sval_copy_ctor [simp]: "sval (handlebars_string_copy_ctor s) = sval s"
  by (simp add: str_defs)

lemma sval_separate [simp]: "sval (separate_string s) = sval s"
  by (simp add: separate_string_def)

lemma shash_separate [simp]: "shash (separate_string s) = shash s"
  by (simp add: separate_string_def handlebars_string_copy_ctor_def)

lemma src_separate: "src (separate_string s) \<le> 1"
  by (auto simp: separate_string_def not_less)

lemma sval_extend [simp]: "sval (handlebars_string_extend s l) = sval s"
  by (simp add: handlebars_string_extend_def)

lemma sval_compact [simp]: "sval (handlebars_string_compact s) = sval s"
  by (simp add: handlebars_string_compact_def Let_def)

lemma shash_compact [simp]: "shash (handlebars_string_compact s) = shash s"
  by (simp add: handlebars_string_compact_def Let_def)

lemma str_ok_ctor [simp]:
  "str_ok (handlebars_string_init l)" "str_ok (handlebars_string_ctor str)"
  "str_ok (handlebars_string_copy_ctor s)"
  by (simp_all add: str_ok_def str_defs)

lemma str_ok_separate [simp]: "str_ok s \<Longrightarrow> str_ok (separate_string s)"
  by (simp add: separate_string_def str_ok_def str_defs)

lemma str_ok_extend [simp]: "str_ok s \<Longrightarrow> str_ok (handlebars_string_extend s l)"
  by (auto simp: handlebars_string_extend_def str_ok_def)

lemma salloc_extend: "l < salloc (handlebars_string_extend s l)"
  by (simp add: handlebars_string_extend_def)

lemma str_ok_compact [simp]: "str_ok s \<Longrightarrow> str_ok (handlebars_string_compact s)"
  by (simp add: handlebars_string_compact_def str_ok_def Let_def)

lemma str_ok_shash [simp]: "str_ok (s\<lparr>shash := h\<rparr>) = str_ok s"
  by (simp add: str_ok_def)

lemma hash_ok_simps [simp]:
  "hash_ok H (handlebars_string_init l)" "hash_ok H (handlebars_string_ctor str)"
  "hash_ok H (handlebars_string_copy_ctor s) = hash_ok H s"
  "hash_ok H (separate_string s) = hash_ok H s"
  "hash_ok H (handlebars_string_compact s) = hash_ok H s"
  by (simp_all add: hash_ok_def str_defs)

lemma hash_ok_hash: "hash_ok H s \<Longrightarrow> hash_of H s = H (sval s)"
  by (auto simp: hash_ok_def hbs_str_hash_def)

text \<open>Caching the hash is not observable: a second call returns the same number.\<close>

lemma hash_of_cached [simp]: "hash_of H (snd (hbs_str_hash H s)) = hash_of H s"
  by (simp add: hbs_str_hash_def)

lemma strncmp_eq_iff:
  "NUL \<notin> set needle \<Longrightarrow> length needle \<le> length h \<Longrightarrow>
     strncmp_eq (length needle) h needle \<longleftrightarrow> take (length needle) h = needle"
proof (induction needle arbitrary: h)
  case Nil
  then show ?case by simp
next
  case (Cons y ys)
  then obtain x xs where "h = x # xs" by (cases h) auto
  with Cons show ?case by auto
qed

lemma strncmp_take: "NUL \<notin> set d \<Longrightarrow> length d \<le> length s \<Longrightarrow> strncmp_eq (length d) s d \<Longrightarrow> s = d @ drop (length d) s"
  using strncmp_eq_iff [of d s] by (metis append_take_drop_id)

lemma strncmp_prefix: "NUL \<notin> set d \<Longrightarrow> strncmp_eq (length d) (d @ s) d"
  using strncmp_eq_iff [of d "d @ s"] by simp

section \<open>Appending, abstractly\<close>

text \<open>
  The interface the rest of the library uses to build its output: a buffer with a content, and an
  operation that appends an encoding of its argument and cannot fail. Whatever is built by a loop over pieces is then the
  concatenation of the pieces.
\<close>

locale string_buffer =
  fixes content :: "'b \<Rightarrow> string"
    and ok :: "'b \<Rightarrow> bool"
    and enc :: "string \<Rightarrow> string"
    and app :: "'b \<Rightarrow> string \<Rightarrow> hbs_error + 'b"
  assumes app_ok: "ok b \<Longrightarrow> \<exists>b'. app b str = Inr b' \<and> ok b' \<and> content b' = content b @ enc str"
begin

lemma app_total:
  assumes "ok b"
  obtains b' where "app b str = Inr b'" "ok b'" "content b' = content b @ enc str"
  using app_ok [OF assms] by blast

lemma app_content: "ok b \<Longrightarrow> app b str = Inr b' \<Longrightarrow> ok b' \<and> content b' = content b @ enc str"
  using app_ok [of b str] by auto

text \<open>A loop whose body appends a piece for each element appends the concatenation of the pieces.\<close>

lemma efold_body:
  assumes "\<And>x b. x \<in> set xs \<Longrightarrow> ok b \<Longrightarrow>
      \<exists>b'. f x b = Inr b' \<and> ok b' \<and> content b' = content b @ piece x"
    and "ok b"
  shows "\<exists>b'. efold f xs b = Inr b' \<and> ok b' \<and> content b' = content b @ concat (map piece xs)"
  using assms
proof (induction xs arbitrary: b)
  case Nil
  then show ?case by simp
next
  case (Cons x xs)
  obtain c where c: "f x b = Inr c" "ok c" "content c = content b @ piece x"
    using Cons.prems(1) [of x b] Cons.prems(2) by auto
  have "\<exists>b'. efold f xs c = Inr b' \<and> ok b' \<and> content b' = content c @ concat (map piece xs)"
    using Cons.prems(1) c(2) by (intro Cons.IH) auto
  with c show ?case by auto
qed

lemma efold_app:
  "ok b \<Longrightarrow> \<exists>b'. efold (\<lambda>x b. app b (piece x)) xs b = Inr b' \<and> ok b' \<and>
     content b' = content b @ concat (map (\<lambda>x. enc (piece x)) xs)"
  by (rule efold_body) (use app_ok in auto)

lemma app_app:
  "ok b \<Longrightarrow> \<exists>b'. ebind (app b s1) (\<lambda>c. app c s2) = Inr b' \<and> ok b' \<and> content b' = content b @ enc s1 @ enc s2"
  using app_ok by (metis append_assoc ebind.simps(2))

end

lemma append_unsafe_ok:
  "length (sval s) + length str < salloc s \<Longrightarrow>
     handlebars_string_append_unsafe s str = Inr (s\<lparr>sval := sval s @ str, shash := 0\<rparr>)"
  by (simp add: handlebars_string_append_unsafe_def)

lemma append_total:
  "\<exists>t. handlebars_string_append s str = Inr t \<and> str_ok t \<and> sval t = sval s @ str \<and> shash t = 0"
proof -
  let ?s2 = "handlebars_string_extend (separate_string s) (length (sval s) + length str)"
  have "length (sval ?s2) + length str < salloc ?s2"
    using salloc_extend [of "length (sval s) + length str"] by simp
  from append_unsafe_ok [OF this] this show ?thesis
    by (simp add: handlebars_string_append_def Let_def str_ok_def)
qed

interpretation str_buf: string_buffer sval str_ok "\<lambda>x. x" handlebars_string_append
  by unfold_locales (use append_total in blast)

interpretation str_buf_str: string_buffer sval str_ok "\<lambda>x. x" "\<lambda>b x. handlebars_string_append_str b (handlebars_string_ctor x)"
  by unfold_locales (use append_total in \<open>auto simp: handlebars_string_append_str_def\<close>)

interpretation printf_buf: string_buffer sval str_ok "\<lambda>x. x" handlebars_string_vasprintf_append
proof unfold_locales
  fix s :: hstr and str assume "str_ok s"
  then show "\<exists>t. handlebars_string_vasprintf_append s str = Inr t \<and> str_ok t \<and> sval t = sval s @ str"
    using salloc_extend [of "length (sval s) + length str" "separate_string s"] str_ok_separate [of s]
    by (cases "str = []") (auto simp: handlebars_string_vasprintf_append_def Let_def str_ok_def)
qed

text \<open>
  The same as a judgement: \<open>m\<close>, started on \<open>s\<close>, succeeds, leaves a well-formed string and appends
  \<open>str\<close>. The printers are proved by composing it along their \<open>ebind\<close>s and loops.
\<close>

definition appends :: "hbs_error + hstr \<Rightarrow> hstr \<Rightarrow> string \<Rightarrow> bool" where
  "appends m s str \<longleftrightarrow> (\<exists>t. m = Inr t \<and> str_ok t \<and> sval t = sval s @ str)"

lemma appends_append [intro]: "appends (handlebars_string_append s str) s str"
  using append_total by (auto simp: appends_def)

lemma appends_printf [intro]: "str_ok s \<Longrightarrow> appends (handlebars_string_vasprintf_append s str) s str"
  using printf_buf.app_ok by (auto simp: appends_def)

lemma appends_nothing [intro]: "str_ok s \<Longrightarrow> appends (Inr s) s []"
  by (simp add: appends_def)

lemma appends_bind:
  "appends m s a \<Longrightarrow> (\<And>t. str_ok t \<Longrightarrow> appends (f t) t b) \<Longrightarrow> appends (ebind m f) s (a @ b)"
  unfolding appends_def by (metis append_assoc ebind.simps(2))

lemma appends_efold:
  assumes "\<And>x t. x \<in> set xs \<Longrightarrow> str_ok t \<Longrightarrow> appends (f x t) t (piece x)" and "str_ok s"
  shows "appends (efold f xs s) s (concat (map piece xs))"
  using str_buf.efold_body [where f = f and piece = piece and xs = xs and b = s] assms
  by (simp add: appends_def)

section \<open>Properties\<close>

text \<open>Appending never writes outside the allocation: it makes room, keeps the bytes, adds the new ones and
  drops the cached hash.\<close>
theorem string_append_correct:
  "\<exists>t. handlebars_string_append s str = Inr t \<and> length (sval t) < salloc t \<and> sval t = sval s @ str \<and>
     hash_ok H t \<and> src t \<le> 1"
proof -
  obtain t where t: "handlebars_string_append s str = Inr t" "str_ok t" "sval t = sval s @ str" "shash t = 0"
    using append_total by blast
  have "src (handlebars_string_extend s1 l) \<le> 1" if "src s1 \<le> 1" for s1 l
    using that src_separate [of s1] by (simp add: handlebars_string_extend_def)
  then have "src t \<le> 1"
    using t(1) src_separate [of s]
    by (auto simp: handlebars_string_append_def handlebars_string_append_unsafe_def Let_def split: if_splits)
  with t show ?thesis by (auto simp: str_ok_def hash_ok_def)
qed

text \<open>The pigeonhole principle for strings of five bytes and 32-bit hashes.\<close>

lemma collision: "\<exists>a b :: string. a \<noteq> b \<and> length a = length b \<and> (f a :: u32) = f b"
proof -
  let ?S = "{s :: string. length s = 5}"
  have eq: "?S = {s. set s \<subseteq> (UNIV :: char set) \<and> length s = 5}" by simp
  have "card ?S = CARD(char) ^ 5"
    unfolding eq by (rule card_lists_length_eq) simp
  then have card: "card ?S = 256 ^ 5" by (simp add: card_UNIV_char)
  have "card (f ` ?S) \<le> CARD(u32)" by (rule card_mono) auto
  also have "\<dots> = 2 ^ 32" by (simp add: card_word)
  also have "\<dots> < card ?S" by (simp add: card)
  finally have "\<not> inj_on f ?S" by (rule pigeonhole)
  then obtain a b where "length a = 5" "length b = 5" "f a = f b" "a \<noteq> b"
    unfolding inj_on_def by auto
  then show ?thesis by (intro exI [of _ a] exI [of _ b]) simp
qed

text \<open>Equality of strings is equality of the bytes exactly when the hash separates them: whatever 32-bit
  hash is used, there are different strings of the same length that compare equal.\<close>
theorem string_eq_collides:
  "\<exists>s t. sval s \<noteq> sval t \<and> hash_ok H s \<and> hash_ok H t \<and> handlebars_string_eq H s t"
proof -
  obtain a b where ab: "a \<noteq> b" "length a = length b" "H a = H b" using collision by blast
  then have "handlebars_string_eq H (handlebars_string_ctor a) (handlebars_string_ctor b)"
    by (simp add: handlebars_string_eq_def hash_ok_hash)
  with ab show ?thesis
    by (intro exI [of _ "handlebars_string_ctor a"] exI [of _ "handlebars_string_ctor b"]) simp
qed

text \<open>When the hash separates the two strings and no stale hash is cached, equality compares the bytes.\<close>
theorem string_eq_sound:
  assumes "hash_ok H s" "hash_ok H t" "H (sval s) = H (sval t) \<longrightarrow> sval s = sval t"
  shows "handlebars_string_eq H s t \<longleftrightarrow> sval s = sval t"
  using assms by (auto simp: handlebars_string_eq_def hash_ok_hash)

theorem string_eq_sound_witness:
  "handlebars_string_eq (\<lambda>s. of_nat (length s)) (handlebars_string_ctor ''ab'') (handlebars_string_ctor ''ab'') \<longleftrightarrow>
     sval (handlebars_string_ctor ''ab'') = ''ab''"
  using string_eq_sound [of "\<lambda>s. of_nat (length s)" "handlebars_string_ctor ''ab''" "handlebars_string_ctor ''ab''"]
  by simp

text \<open>Trimming does not reset the cached hash: a string whose hash has been computed and which is then
  trimmed keeps the hash of the untrimmed text, and compares different from its own text unless the two
  hashes happen to agree.\<close>
theorem trim_keeps_stale_hash:
  assumes "handlebars_string_rtrim (snd (hbs_str_hash H s)) what = t" "shash s = 0" "sval s \<noteq> []"
  shows "shash t = H (sval s) \<and>
     (H (sval s) \<noteq> 0 \<and> H (sval s) \<noteq> H (sval t) \<longrightarrow>
        \<not> handlebars_string_eq H t (handlebars_string_ctor (sval t)))"
proof -
  have "shash t = H (sval s)"
    using assms by (auto simp: handlebars_string_rtrim_def hbs_str_hash_def)
  moreover have "hash_of H (handlebars_string_ctor (sval t)) = H (sval t)"
    by (simp add: hash_ok_hash)
  ultimately show ?thesis by (auto simp: handlebars_string_eq_def hbs_str_hash_def)
qed

theorem trim_keeps_stale_hash_witness:
  "\<not> handlebars_string_eq (\<lambda>s. of_nat (length s))
      (handlebars_string_rtrim (snd (hbs_str_hash (\<lambda>s. of_nat (length s)) (handlebars_string_ctor ''ab ''))) '' '')
      (handlebars_string_ctor ''ab'')"
proof -
  let ?t = "handlebars_string_rtrim (snd (hbs_str_hash (\<lambda>s. of_nat (length s)) (handlebars_string_ctor ''ab ''))) '' ''"
  have "sval ?t = ''ab''"
    by (simp add: handlebars_string_rtrim_def hbs_str_hash_def str_defs separate_string_def)
  moreover have "shash (handlebars_string_ctor ''ab '') = 0" by (simp add: str_defs)
  ultimately show ?thesis
    using trim_keeps_stale_hash [OF refl, of "handlebars_string_ctor ''ab ''" "\<lambda>s. of_nat (length s)" "'' ''"]
    by simp
qed

end
