(* ===== verification/HMap.thy ===== *)
theory HMap
  imports HString
begin

text \<open>
  The ordered hash map of src/handlebars_map.c: a vector of entries in insertion order and an
  open-addressing table of pointers into it, in one allocation. The table is a list of slots
  (\<open>Empty\<close> is the null pointer, \<open>Tomb\<close> the tombstone, \<open>Slot j\<close> a pointer to \<open>vec[j]\<close>); the vector is a
  list as long as its capacity, \<open>None\<close> being a zeroed or not yet written entry. The values are a type
  parameter: copying a value into an entry (\<open>handlebars_value_value\<close>) is the identity here.

  This theory has the model. The invariant and the refinement to an association list in insertion
  order are in HMapProofs, the compaction of the vector in HMapCompact.
\<close>

section \<open>State\<close>

record 'v hentry =
  ekey :: hstr
  evalue :: 'v
  toff :: nat

datatype slot = Empty | Tomb | Slot nat

record 'v hmap =
  mrc :: u8
  mcnt :: nat
  table :: "slot list"
  vec :: "'v hentry option list"
  vec_offset :: nat
  is_in_iteration :: bool

abbreviation table_capacity :: "'v hmap \<Rightarrow> nat" where "table_capacity m \<equiv> length (table m)"
abbreviation vec_capacity :: "'v hmap \<Rightarrow> nat" where "vec_capacity m \<equiv> length (vec m)"

abbreviation HANDLEBARS_MAP_MIN_LOAD_FACTOR :: nat where "HANDLEBARS_MAP_MIN_LOAD_FACTOR \<equiv> 10"
abbreviation HANDLEBARS_MAP_MAX_LOAD_FACTOR :: nat where "HANDLEBARS_MAP_MAX_LOAD_FACTOR \<equiv> 60"

definition HANDLEBARS_MAP_CAPACITY_TABLE :: "nat list" where
  "HANDLEBARS_MAP_CAPACITY_TABLE =
     [5, 11, 23, 53, 97, 193, 389, 769, 1543, 3079, 6151, 12289, 24593, 49157, 98317, 196613,
      393241, 786433, 1572869, 3145739, 6291469, 12582917, 25165843, 50331653, 100663319,
      201326611, 402653189, 805306457, 1610612741]"

section \<open>Capacities\<close>

text \<open>The number of bits of \<open>capacity | 3\<close>.\<close>

fun cap_log2_loop :: "nat \<Rightarrow> nat" where
  "cap_log2_loop i = (if i > 0 then Suc (cap_log2_loop (i div 2)) else 0)"

declare cap_log2_loop.simps [simp del]

definition map_choose_vec_capacity_log2 :: "nat \<Rightarrow> nat" where
  "map_choose_vec_capacity_log2 capacity = cap_log2_loop (capacity OR 3)"

text \<open>
  The scan of the capacity table is bounded by the size of the table in bytes, not by its number of
  elements: when no element is large enough it reads past the end.
\<close>

fun choose_loop :: "nat list \<Rightarrow> nat \<Rightarrow> hbs_error + nat" where
  "choose_loop [] target = Inl Mem_error"
| "choose_loop (c # cs) target = (if c \<ge> target then Inr c else choose_loop cs target)"

definition ht_choose_table_capacity :: "nat \<Rightarrow> hbs_error + nat" where
  "ht_choose_table_capacity elements =
     choose_loop HANDLEBARS_MAP_CAPACITY_TABLE (elements * 100 div HANDLEBARS_MAP_MAX_LOAD_FACTOR)"

text \<open>The size in bytes of a map; the three \<open>sizeof\<close> numbers are parameters.\<close>

definition handlebars_map_size_of :: "nat \<Rightarrow> nat \<Rightarrow> nat \<Rightarrow> nat \<Rightarrow> hbs_error + nat" where
  "handlebars_map_size_of sz_map sz_entry sz_ptr capacity =
     ebind (ht_choose_table_capacity capacity)
       (\<lambda>tc. Inr (sz_map + (capacity * sz_entry + tc * sz_ptr)))"

section \<open>Finding a slot\<close>

record find_result =
  empty_found :: bool
  entry_found :: bool
  empty_offset :: nat
  entry_offset :: nat
  fentry :: "nat option"
  tombstones :: nat

definition find_result0 :: find_result where
  "find_result0 = \<lparr>empty_found = False, entry_found = False, empty_offset = 0, entry_offset = 0,
     fentry = None, tombstones = 0\<rparr>"

text \<open>
  The probe loop, over the positions it visits. A tombstone records its position but does not set
  \<open>empty_found\<close> (the source assigns \<open>empty_offset\<close> twice). A pointer to a zeroed entry has a null key.
\<close>

fun find_entry_loop :: "(string \<Rightarrow> u32) \<Rightarrow> 'v hmap \<Rightarrow> hstr \<Rightarrow> nat list \<Rightarrow> find_result \<Rightarrow> hbs_error + find_result" where
  "find_entry_loop H m key [] ret = Inr ret"
| "find_entry_loop H m key (pos # ps) ret =
     (case table m ! pos of
        Empty \<Rightarrow> Inr (ret\<lparr>empty_found := True, empty_offset := pos\<rparr>)
      | Tomb \<Rightarrow>
          find_entry_loop H m key ps
            (ret\<lparr>tombstones := tombstones ret + 1,
                 empty_offset := (if \<not> empty_found ret then pos else empty_offset ret)\<rparr>)
      | Slot j \<Rightarrow>
          (case vec m ! j of
             None \<Rightarrow> Inl Mem_error
           | Some e \<Rightarrow>
               if handlebars_string_eq H (ekey e) key
               then Inr (ret\<lparr>entry_found := True, entry_offset := pos, fentry := Some j\<rparr>)
               else find_entry_loop H m key ps ret))"

definition probe :: "(string \<Rightarrow> u32) \<Rightarrow> 'v hmap \<Rightarrow> hstr \<Rightarrow> nat \<Rightarrow> nat" where
  "probe H m key i = (unat (hash_of H key) mod table_capacity m + i) mod table_capacity m"

definition map_find_entry :: "(string \<Rightarrow> u32) \<Rightarrow> 'v hmap \<Rightarrow> hstr \<Rightarrow> hbs_error + find_result" where
  "map_find_entry H m key =
     find_entry_loop H m key (map (probe H m key) [0..<table_capacity m]) find_result0"

definition map_add_at_table_offset :: "'v hmap \<Rightarrow> hstr \<Rightarrow> 'v \<Rightarrow> nat \<Rightarrow> hbs_error + 'v hmap" where
  "map_add_at_table_offset m key v offset =
     (if \<not> vec_offset m < vec_capacity m then Inl Assert_fail
      else if \<not> (table m ! offset = Empty \<or> table m ! offset = Tomb) then Inl Assert_fail
      else Inr (m\<lparr>vec := (vec m)[vec_offset m := Some \<lparr>ekey = key, evalue = v, toff = offset\<rparr>],
                  table := (table m)[offset := Slot (vec_offset m)],
                  mcnt := mcnt m + 1,
                  vec_offset := vec_offset m + 1\<rparr>))"

section \<open>Construction, rehashing and the operations\<close>

definition handlebars_map_ctor :: "nat \<Rightarrow> hbs_error + 'v hmap" where
  "handlebars_map_ctor capacity =
     ebind (ht_choose_table_capacity capacity) (\<lambda>tc.
       Inr \<lparr>mrc = 0, mcnt = 0, table = replicate tc Empty, vec = replicate capacity None,
            vec_offset = 0, is_in_iteration = False\<rparr>)"

definition handlebars_map_count :: "'v hmap \<Rightarrow> nat" where
  "handlebars_map_count m = mcnt m"

definition handlebars_map_load_factor :: "'v hmap \<Rightarrow> nat" where
  "handlebars_map_load_factor m = mcnt m * 100 mod 2 ^ 32 div table_capacity m"

definition handlebars_map_is_sparse :: "'v hmap \<Rightarrow> bool" where
  "handlebars_map_is_sparse m = (vec_offset m \<noteq> mcnt m)"

definition handlebars_map_get_kv_at_index :: "'v hmap \<Rightarrow> nat \<Rightarrow> hbs_error + (hstr \<times> 'v) option" where
  "handlebars_map_get_kv_at_index m index =
     (if index \<ge> vec_offset m then Inl (Throw HANDLEBARS_ERROR ''Out of bounds'')
      else Inr (map_option (\<lambda>e. (ekey e, evalue e)) (vec m ! index)))"

definition handlebars_map_get_key_at_index :: "'v hmap \<Rightarrow> nat \<Rightarrow> hbs_error + hstr option" where
  "handlebars_map_get_key_at_index m index =
     (if index \<ge> vec_offset m then Inl (Throw HANDLEBARS_ERROR ''Out of bounds'')
      else Inr (map_option ekey (vec m ! index)))"

text \<open>The macro \<open>handlebars_map_foreach\<close>: the body runs on the non-null entries, in order.\<close>

definition handlebars_map_foreach :: "'v hmap \<Rightarrow> (hstr \<Rightarrow> 'v \<Rightarrow> 's \<Rightarrow> hbs_error + 's) \<Rightarrow> 's \<Rightarrow> hbs_error + 's" where
  "handlebars_map_foreach m body =
     efold (\<lambda>index s.
        ebind (handlebars_map_get_kv_at_index m index) (\<lambda>kv.
          case kv of None \<Rightarrow> Inr s | Some (k, v) \<Rightarrow> body k v s)) [0..<vec_offset m]"

text \<open>
  \<open>rehash\<close>, \<open>copy_ctor\<close> and \<open>add\<close> call each other: a rehash copies the map, the copy adds the entries
  one by one, and each add first rehashes the copy. \<open>add_with\<close> and \<open>copy_ctor_with\<close> take the rehash
  they call as an argument; \<open>rehash_fuel\<close> bounds the depth of the recursion.
\<close>

definition add_with ::
    "('v hmap \<Rightarrow> hbs_error + 'v hmap) \<Rightarrow> (string \<Rightarrow> u32) \<Rightarrow> 'v hmap \<Rightarrow> hstr \<Rightarrow> 'v \<Rightarrow> hbs_error + 'v hmap" where
  "add_with rehash H m key v =
     ebind (rehash m) (\<lambda>m1.
     ebind (map_find_entry H m1 key) (\<lambda>o1.
       if entry_found o1 \<or> \<not> empty_found o1
       then Inl (Throw HANDLEBARS_ERROR ''Failed to add to hash table'')
       else map_add_at_table_offset m1 key v (empty_offset o1)))"

definition copy_ctor_with ::
    "('v hmap \<Rightarrow> hbs_error + 'v hmap) \<Rightarrow> (string \<Rightarrow> u32) \<Rightarrow> 'v hmap \<Rightarrow> nat \<Rightarrow> hbs_error + 'v hmap" where
  "copy_ctor_with rehash H prev_map new_capacity =
     ebind (handlebars_map_ctor (if new_capacity < vec_capacity prev_map then vec_capacity prev_map else new_capacity))
       (handlebars_map_foreach prev_map (\<lambda>k v m. add_with rehash H m k v))"

fun rehash_fuel :: "nat \<Rightarrow> (string \<Rightarrow> u32) \<Rightarrow> bool \<Rightarrow> 'v hmap \<Rightarrow> hbs_error + 'v hmap" where
  "rehash_fuel 0 H force m = Inl Out_of_fuel"
| "rehash_fuel (Suc n) H force m =
     (if is_in_iteration m then Inr m
      else
        let force' = (force \<or> mrc m > 1)
        in if force' \<or> vec_offset m = vec_capacity m
             \<or> handlebars_map_load_factor m > HANDLEBARS_MAP_MAX_LOAD_FACTOR
           then
             let cap = 2 ^ map_choose_vec_capacity_log2 (mcnt m + 1)
             in ebind (copy_ctor_with (rehash_fuel n H False) H m cap) (\<lambda>new.
                  Inr (if mrc m \<ge> 1 then new\<lparr>mrc := 1\<rparr> else new))
           else Inr m)"

definition handlebars_map_rehash :: "(string \<Rightarrow> u32) \<Rightarrow> bool \<Rightarrow> 'v hmap \<Rightarrow> hbs_error + 'v hmap" where
  "handlebars_map_rehash H force m = rehash_fuel 2 H force m"

definition handlebars_map_copy_ctor :: "(string \<Rightarrow> u32) \<Rightarrow> 'v hmap \<Rightarrow> nat \<Rightarrow> hbs_error + 'v hmap" where
  "handlebars_map_copy_ctor H m cap = copy_ctor_with (handlebars_map_rehash H False) H m cap"

definition handlebars_map_add :: "(string \<Rightarrow> u32) \<Rightarrow> 'v hmap \<Rightarrow> hstr \<Rightarrow> 'v \<Rightarrow> hbs_error + 'v hmap" where
  "handlebars_map_add H m key v = add_with (handlebars_map_rehash H False) H m key v"

definition handlebars_map_remove :: "(string \<Rightarrow> u32) \<Rightarrow> 'v hmap \<Rightarrow> hstr \<Rightarrow> hbs_error + 'v hmap" where
  "handlebars_map_remove H m key =
     ebind (handlebars_map_rehash H (handlebars_map_load_factor m < HANDLEBARS_MAP_MIN_LOAD_FACTOR) m) (\<lambda>m1.
     ebind (map_find_entry H m1 key) (\<lambda>o1.
       case fentry o1 of
         None \<Rightarrow> Inr m1
       | Some j \<Rightarrow>
           Inr (m1\<lparr>table := (table m1)[entry_offset o1 := Tomb],
                   vec := (vec m1)[j := None],
                   mcnt := mcnt m1 - 1\<rparr>)))"

definition handlebars_map_find :: "(string \<Rightarrow> u32) \<Rightarrow> 'v hmap \<Rightarrow> hstr \<Rightarrow> hbs_error + 'v option" where
  "handlebars_map_find H m key =
     ebind (map_find_entry H m key) (\<lambda>o1.
       Inr (case fentry o1 of None \<Rightarrow> None | Some j \<Rightarrow> map_option evalue (vec m ! j)))"

definition handlebars_map_update :: "(string \<Rightarrow> u32) \<Rightarrow> 'v hmap \<Rightarrow> hstr \<Rightarrow> 'v \<Rightarrow> hbs_error + 'v hmap" where
  "handlebars_map_update H m key v =
     ebind (handlebars_map_rehash H False m) (\<lambda>m1.
     ebind (map_find_entry H m1 key) (\<lambda>o1.
       case fentry o1 of
         Some j \<Rightarrow>
           Inr (m1\<lparr>vec := (vec m1)[j := map_option (\<lambda>e. e\<lparr>evalue := v\<rparr>) (vec m1 ! j)]\<rparr>)
       | None \<Rightarrow>
           if \<not> empty_found o1 then Inl (Throw HANDLEBARS_ERROR ''Failed to update to hash table'')
           else map_add_at_table_offset m1 key v (empty_offset o1)))"

definition handlebars_map_set_is_in_iteration :: "'v hmap \<Rightarrow> bool \<Rightarrow> bool \<times> 'v hmap" where
  "handlebars_map_set_is_in_iteration m b = (is_in_iteration m, m\<lparr>is_in_iteration := b\<rparr>)"

definition handlebars_map_sparse_array_count :: "'v hmap \<Rightarrow> nat" where
  "handlebars_map_sparse_array_count m = vec_offset m"

section \<open>Compaction and sorting\<close>

text \<open>
  The compaction: the first loop stops behind the first tombstone, but it advances the write offset
  only once, whatever the index of that tombstone.
\<close>

fun compact_scan :: "'v hmap \<Rightarrow> nat list \<Rightarrow> nat \<times> nat" where
  "compact_scan m [] = (vec_offset m, 0)"
| "compact_scan m (i # is) = (if vec m ! i = None then (i + 1, 1) else compact_scan m is)"

fun compact_step :: "nat \<Rightarrow> 'v hmap \<times> nat \<Rightarrow> 'v hmap \<times> nat" where
  "compact_step i (m, off) =
     (case vec m ! i of
        None \<Rightarrow> (m, off)
      | Some e \<Rightarrow> (m\<lparr>vec := (vec m)[off := Some e], table := (table m)[toff e := Slot off]\<rparr>, off + 1))"

definition handlebars_map_sparse_array_compact :: "'v hmap \<Rightarrow> 'v hmap" where
  "handlebars_map_sparse_array_compact m =
     (if mcnt m = vec_offset m then m
      else
        let (i, off) = compact_scan m [0..<vec_offset m];
            (m', off') = fold compact_step [i..<vec_offset m] (m, off)
        in m'\<lparr>vec_offset := off'\<rparr>)"

definition map_rebuild_references :: "'v hmap \<Rightarrow> hbs_error + 'v hmap" where
  "map_rebuild_references m =
     (if vec_offset m \<noteq> mcnt m then Inl Assert_fail
      else efold (\<lambda>i m. case vec m ! i of
                     None \<Rightarrow> Inl Mem_error
                   | Some e \<Rightarrow> Inr (m\<lparr>table := (table m)[toff e := Slot i]\<rparr>))
             [0..<vec_offset m] m)"

text \<open>
  Sorting hands the first \<open>i\<close> entries of the vector to \<open>sort_r\<close>, a vendored routine: a parameter that
  maps a comparison (an int, as \<open>qsort\<close>'s) and a list of entries to a list.
\<close>

type_synonym 'v sort_fun = "('v hentry \<Rightarrow> 'v hentry \<Rightarrow> int) \<Rightarrow> 'v hentry list \<Rightarrow> 'v hentry list"

definition map_entry_compare :: "(hstr \<times> 'v \<Rightarrow> hstr \<times> 'v \<Rightarrow> int) \<Rightarrow> 'v hentry \<Rightarrow> 'v hentry \<Rightarrow> int" where
  "map_entry_compare compare e1 e2 = compare (ekey e1, evalue e1) (ekey e2, evalue e2)"

definition handlebars_map_sort ::
    "'v sort_fun \<Rightarrow> (string \<Rightarrow> u32) \<Rightarrow> (hstr \<times> 'v \<Rightarrow> hstr \<times> 'v \<Rightarrow> int) \<Rightarrow> 'v hmap \<Rightarrow> hbs_error + 'v hmap" where
  "handlebars_map_sort sort_r H compare m =
     ebind (handlebars_map_rehash H (handlebars_map_is_sparse m) m) (\<lambda>m1.
       if None \<in> set (take (mcnt m1) (vec m1)) then Inl Assert_fail
       else map_rebuild_references
              (m1\<lparr>vec := map Some (sort_r (map_entry_compare compare) (map the (take (mcnt m1) (vec m1))))
                          @ drop (mcnt m1) (vec m1)\<rparr>))"

definition map_entry_compare_r :: "(hstr \<times> 'v \<Rightarrow> hstr \<times> 'v \<Rightarrow> 'a \<Rightarrow> int) \<Rightarrow> 'a \<Rightarrow> 'v hentry \<Rightarrow> 'v hentry \<Rightarrow> int" where
  "map_entry_compare_r compare arg e1 e2 = compare (ekey e1, evalue e1) (ekey e2, evalue e2) arg"

definition handlebars_map_sort_r ::
    "'v sort_fun \<Rightarrow> (string \<Rightarrow> u32) \<Rightarrow> (hstr \<times> 'v \<Rightarrow> hstr \<times> 'v \<Rightarrow> 'a \<Rightarrow> int) \<Rightarrow> 'a \<Rightarrow> 'v hmap \<Rightarrow> hbs_error + 'v hmap" where
  "handlebars_map_sort_r sort_r H compare arg m =
     ebind (handlebars_map_rehash H (handlebars_map_is_sparse m) m) (\<lambda>m1.
       if None \<in> set (take (mcnt m1) (vec m1)) then Inl Assert_fail
       else map_rebuild_references
              (m1\<lparr>vec := map Some (sort_r (map_entry_compare_r compare arg) (map the (take (mcnt m1) (vec m1))))
                          @ drop (mcnt m1) (vec m1)\<rparr>))"

definition handlebars_map_str_find :: "(string \<Rightarrow> u32) \<Rightarrow> 'v hmap \<Rightarrow> string \<Rightarrow> hbs_error + 'v option" where
  "handlebars_map_str_find H m key = handlebars_map_find H m ((handlebars_string_ctor key)\<lparr>src := 1\<rparr>)"

definition handlebars_map_str_add :: "(string \<Rightarrow> u32) \<Rightarrow> 'v hmap \<Rightarrow> string \<Rightarrow> 'v \<Rightarrow> hbs_error + 'v hmap" where
  "handlebars_map_str_add H m key v = handlebars_map_add H m ((handlebars_string_ctor key)\<lparr>src := 1\<rparr>) v"

definition handlebars_map_str_update :: "(string \<Rightarrow> u32) \<Rightarrow> 'v hmap \<Rightarrow> string \<Rightarrow> 'v \<Rightarrow> hbs_error + 'v hmap" where
  "handlebars_map_str_update H m key v = handlebars_map_update H m ((handlebars_string_ctor key)\<lparr>src := 1\<rparr>) v"

definition handlebars_map_str_remove :: "(string \<Rightarrow> u32) \<Rightarrow> 'v hmap \<Rightarrow> string \<Rightarrow> hbs_error + 'v hmap" where
  "handlebars_map_str_remove H m key = handlebars_map_remove H m ((handlebars_string_ctor key)\<lparr>src := 1\<rparr>)"

end
