(* ===== verification/HMapProofs.thy ===== *)
theory HMapProofs
  imports HMap
begin

text \<open>
  The hash map against its contract: an association list in insertion order, compared by the
  identity the code uses for keys (length and hash). The invariant \<open>hmap_ok\<close> links the table and the
  vector; every operation preserves it, the recursion of \<open>rehash\<close> ends at depth two, and no operation
  on a map that satisfies it reads outside the map or fails an assertion. The compaction, which does
  not preserve the invariant, is treated in HMapCompact.
\<close>

declare rehash_fuel.simps [simp del]

section \<open>Keys, entries, invariant\<close>

definition kid :: "(string \<Rightarrow> u32) \<Rightarrow> hstr \<Rightarrow> nat \<times> u32" where
  "kid H k = (length (sval k), hash_of H k)"

lemma string_eq_kid: "handlebars_string_eq H a b \<longleftrightarrow> kid H a = kid H b"
  by (auto simp: handlebars_string_eq_def kid_def)

definition live :: "'a option list \<Rightarrow> 'a list" where
  "live xs = map the (filter (\<lambda>x. x \<noteq> None) xs)"

lemma live_simps [simp]:
  "live [] = []" "live (None # xs) = live xs" "live (Some x # xs) = x # live xs"
  "live (xs @ ys) = live xs @ live ys" "live (replicate n None) = []"
  by (simp_all add: live_def)

lemma live_map_Some [simp]: "live (map Some xs) = xs"
  by (induction xs) auto

lemma length_live: "length (live xs) \<le> length xs"
  by (simp add: live_def)

lemma length_live_eq: "length (live xs) = length xs \<longleftrightarrow> None \<notin> set xs"
proof (induction xs)
  case (Cons x xs)
  with length_live [of xs] show ?case by (cases x) auto
qed simp

lemma in_live_iff: "e \<in> set (live xs) \<longleftrightarrow> (\<exists>j < length xs. xs ! j = Some e)"
  by (force simp: live_def in_set_conv_nth)

definition hm_items :: "'v hmap \<Rightarrow> (hstr \<times> 'v) list" where
  "hm_items m = map (\<lambda>e. (ekey e, evalue e)) (live (take (vec_offset m) (vec m)))"

definition chain_ok :: "(string \<Rightarrow> u32) \<Rightarrow> 'v hmap \<Rightarrow> 'v hentry \<Rightarrow> bool" where
  "chain_ok H m e \<longleftrightarrow>
     (\<exists>d < table_capacity m. probe H m (ekey e) d = toff e \<and>
        (\<forall>i < d. table m ! probe H m (ekey e) i \<noteq> Empty))"

definition table_links :: "'v hmap \<Rightarrow> bool" where
  "table_links m \<longleftrightarrow>
     (\<forall>p < table_capacity m. \<forall>j. table m ! p = Slot j \<longrightarrow>
        j < vec_offset m \<and> (\<exists>e. vec m ! j = Some e \<and> toff e = p))"

definition vec_links :: "(string \<Rightarrow> u32) \<Rightarrow> 'v hmap \<Rightarrow> bool" where
  "vec_links H m \<longleftrightarrow>
     (\<forall>j < vec_offset m. \<forall>e. vec m ! j = Some e \<longrightarrow>
        toff e < table_capacity m \<and> table m ! toff e = Slot j \<and> chain_ok H m e)"

definition keys_distinct :: "(string \<Rightarrow> u32) \<Rightarrow> 'v hmap \<Rightarrow> bool" where
  "keys_distinct H m \<longleftrightarrow>
     (\<forall>i < vec_offset m. \<forall>j < vec_offset m. \<forall>e f. vec m ! i = Some e \<longrightarrow> vec m ! j = Some f \<longrightarrow>
        kid H (ekey e) = kid H (ekey f) \<longrightarrow> i = j)"

definition used_slots :: "'v hmap \<Rightarrow> nat" where
  "used_slots m = length (filter (\<lambda>s. s \<noteq> Empty) (table m))"

definition hmap_ok :: "(string \<Rightarrow> u32) \<Rightarrow> 'v hmap \<Rightarrow> bool" where
  "hmap_ok H m \<longleftrightarrow>
     ht_choose_table_capacity (vec_capacity m) = Inr (table_capacity m) \<and>
     vec_offset m \<le> vec_capacity m \<and>
     mcnt m = length (hm_items m) \<and>
     table_links m \<and> vec_links H m \<and> keys_distinct H m \<and>
     used_slots m \<le> vec_offset m"

section \<open>Capacities\<close>

lemma choose_loop_ge: "choose_loop cs t = Inr c \<Longrightarrow> t \<le> c \<and> c \<in> set cs"
  by (induction cs) (auto split: if_splits)

lemma choose_ge:
  assumes "ht_choose_table_capacity n = Inr c"
  shows "n * 100 div 60 \<le> c" "5 \<le> c"
  using choose_loop_ge [OF assms [unfolded ht_choose_table_capacity_def]]
  by (auto simp: HANDLEBARS_MAP_CAPACITY_TABLE_def)

lemma choose_gt: "ht_choose_table_capacity n = Inr c \<Longrightarrow> n < c"
  using choose_ge [of n c] by linarith

text \<open>The table of capacities covers every vector of up to 2^29 entries.\<close>

lemma choose_loop_total: "\<exists>c \<in> set cs. t \<le> c \<Longrightarrow> \<exists>c. choose_loop cs t = Inr c"
  by (induction cs) auto

lemma choose_total: "n \<le> 2 ^ 29 \<Longrightarrow> \<exists>c. ht_choose_table_capacity n = Inr c"
  unfolding ht_choose_table_capacity_def
  by (rule choose_loop_total, rule bexI [of _ 1610612741])
    (auto simp: HANDLEBARS_MAP_CAPACITY_TABLE_def)

lemma cap_log2_gt: "i < 2 ^ cap_log2_loop i"
proof (induction i rule: cap_log2_loop.induct)
  case (1 i)
  show ?case
  proof (cases "0 < i")
    case True
    from 1 [OF True] have "i < 2 * 2 ^ cap_log2_loop (i div 2)" by linarith
    with True show ?thesis by (subst cap_log2_loop.simps) simp
  qed simp
qed

lemma cap_log2_le: "i < 2 ^ n \<Longrightarrow> cap_log2_loop i \<le> n"
proof (induction i arbitrary: n rule: cap_log2_loop.induct)
  case (1 i)
  show ?case
  proof (cases "0 < i")
    case True
    with 1(2) obtain k where "n = Suc k" by (cases n) auto
    with 1 True show ?thesis
      by (subst cap_log2_loop.simps) (auto simp: less_mult_imp_div_less mult.commute)
  qed (subst cap_log2_loop.simps, simp)
qed

lemma vec_capacity_gt: "n < 2 ^ map_choose_vec_capacity_log2 n"
proof -
  show ?thesis
    using or3_ge(1) [of n] cap_log2_gt [of "n OR 3"] by (simp add: map_choose_vec_capacity_log2_def)
qed

lemma vec_capacity_le: "n < 2 ^ 29 \<Longrightarrow> (2::nat) ^ map_choose_vec_capacity_log2 n \<le> 2 ^ 29"
proof -
  assume "n < 2 ^ 29"
  then have "n OR 3 < 2 ^ 29" unfolding or3 by simp presburger
  then have "map_choose_vec_capacity_log2 n \<le> 29"
    unfolding map_choose_vec_capacity_log2_def by (rule cap_log2_le)
  then show ?thesis by (intro power_increasing) auto
qed

section \<open>Probing\<close>

lemma probe_less: "d < table_capacity m \<Longrightarrow> probe H m k i < table_capacity m"
  by (cases "table m") (auto simp: probe_def)

lemma probe_cong:
  "table_capacity m' = table_capacity m \<Longrightarrow> kid H k' = kid H k \<Longrightarrow> probe H m' k' = probe H m k"
  by (auto simp: probe_def kid_def)

lemma mod_add_inj:
  assumes "i < n" "j < n" "(s + i) mod n = (s + j) mod (n::nat)"
  shows "i = j"
  using assms
proof (induction i j rule: linorder_wlog)
  case (le i j)
  then have "n dvd j - i" using mod_eq_dvd_iff_nat [of "s + i" "s + j" n] by simp
  with le show ?case by (auto dest: dvd_imp_le)
qed simp

lemma probe_inj:
  "i < table_capacity m \<Longrightarrow> j < table_capacity m \<Longrightarrow> probe H m k i = probe H m k j \<Longrightarrow> i = j"
  unfolding probe_def by (rule mod_add_inj)

lemma probe_surj:
  assumes "p < table_capacity m"
  shows "\<exists>i < table_capacity m. probe H m k i = p"
proof -
  have "inj_on (probe H m k) {..<table_capacity m}"
    by (intro inj_onI) (auto intro: probe_inj)
  moreover have "probe H m k ` {..<table_capacity m} \<subseteq> {..<table_capacity m}"
    using assms by (auto intro!: probe_less)
  ultimately have "probe H m k ` {..<table_capacity m} = {..<table_capacity m}"
    by (intro endo_inj_surj) auto
  with assms show ?thesis by (metis imageE lessThan_iff)
qed

text \<open>Positions the probe loop passes over without stopping.\<close>

definition passes :: "(string \<Rightarrow> u32) \<Rightarrow> 'v hmap \<Rightarrow> hstr \<Rightarrow> nat \<Rightarrow> bool" where
  "passes H m key p \<longleftrightarrow> table m ! p = Tomb \<or>
     (\<exists>j e. table m ! p = Slot j \<and> vec m ! j = Some e \<and> kid H (ekey e) \<noteq> kid H key)"

lemma find_loop_passes:
  "\<forall>p \<in> set ps. passes H m key p \<Longrightarrow>
     \<exists>r'. find_entry_loop H m key (ps @ qs) r = find_entry_loop H m key qs r' \<and>
       empty_found r' = empty_found r \<and> entry_found r' = entry_found r \<and> fentry r' = fentry r"
proof (induction ps arbitrary: r)
  case Nil
  then show ?case by auto
next
  case (Cons p ps)
  let ?r = "r\<lparr>tombstones := tombstones r + 1,
    empty_offset := (if \<not> empty_found r then p else empty_offset r)\<rparr>"
  from Cons.prems have "passes H m key p" by simp
  then show ?case
    using Cons.IH [of r] Cons.IH [of ?r] Cons.prems
    by (auto simp: passes_def string_eq_kid)
qed

lemma upt_split: "d < n \<Longrightarrow> [0..<n] = [0..<d] @ d # [Suc d..<n]"
  by (metis less_imp_add_positive upt_add_eq_append upt_conv_Cons zero_le le_add1 less_add_same_cancel1)

lemma map_find_entry_at:
  assumes "d < table_capacity m" "\<forall>i < d. passes H m key (probe H m key i)"
  shows "\<exists>r'. map_find_entry H m key =
      find_entry_loop H m key (probe H m key d # map (probe H m key) [Suc d..<table_capacity m]) r' \<and>
      \<not> empty_found r' \<and> \<not> entry_found r' \<and> fentry r' = None"
proof -
  have "\<forall>p \<in> set (map (probe H m key) [0..<d]). passes H m key p" using assms(2) by auto
  from find_loop_passes [OF this, of "probe H m key d # map (probe H m key) [Suc d..<table_capacity m]" find_result0]
  show ?thesis using upt_split [OF assms(1)]
    by (auto simp: map_find_entry_def find_result0_def)
qed

section \<open>Finding an entry\<close>

lemma hmap_ok_capacity: "hmap_ok H m \<Longrightarrow> vec_capacity m < table_capacity m"
  by (auto simp: hmap_ok_def dest: choose_gt)

lemma nonempty_passes:
  assumes ok: "table_links m" and p: "p < table_capacity m" "table m ! p \<noteq> Empty"
    and nm: "\<And>j e. table m ! p = Slot j \<Longrightarrow> vec m ! j = Some e \<Longrightarrow> kid H (ekey e) \<noteq> kid H key"
  shows "passes H m key p"
proof (cases "table m ! p")
  case (Slot j)
  with ok p obtain e where "vec m ! j = Some e" by (auto simp: table_links_def)
  with Slot nm show ?thesis by (auto simp: passes_def)
qed (use p in \<open>auto simp: passes_def\<close>)

lemma find_present:
  assumes ok: "hmap_ok H m" and j: "j < vec_offset m" "vec m ! j = Some e" "kid H (ekey e) = kid H key"
  shows "\<exists>r. map_find_entry H m key = Inr r \<and> entry_found r \<and> fentry r = Some j \<and> entry_offset r = toff e"
proof -
  from ok have tl: "table_links m" and vl: "vec_links H m" and kd: "keys_distinct H m"
    by (auto simp: hmap_ok_def)
  from vl j have te: "table m ! toff e = Slot j" and "chain_ok H m e" by (auto simp: vec_links_def)
  moreover have "probe H m (ekey e) = probe H m key"
    using j(3) by (intro probe_cong refl)
  ultimately obtain d where d: "d < table_capacity m" "probe H m key d = toff e"
      "\<forall>i < d. table m ! probe H m key i \<noteq> Empty"
    by (auto simp: chain_ok_def)
  have "passes H m key (probe H m key i)" if i: "i < d" for i
  proof (rule nonempty_passes [OF tl])
    show "probe H m key i < table_capacity m" using d(1) by (intro probe_less) auto
    show "table m ! probe H m key i \<noteq> Empty" using d(3) i by simp
    fix j' e' assume s: "table m ! probe H m key i = Slot j'" "vec m ! j' = Some e'"
    show "kid H (ekey e') \<noteq> kid H key"
    proof
      assume "kid H (ekey e') = kid H key"
      moreover have "j' < vec_offset m" "toff e' = probe H m key i"
        using tl s d(1) probe_less [of d m H key i] by (auto simp: table_links_def)
      ultimately have "j' = j" using kd j s(2) unfolding keys_distinct_def by metis
      with s(2) j(2) \<open>toff e' = probe H m key i\<close> have "probe H m key i = probe H m key d" using d(2) by simp
      with i d(1) show False using probe_inj [of i m d H key] by auto
    qed
  qed
  then have "\<forall>i < d. passes H m key (probe H m key i)" by blast
  from map_find_entry_at [OF d(1) this] show ?thesis
    using d(2) te j by (auto simp: string_eq_kid)
qed

lemma find_absent:
  assumes ok: "hmap_ok H m"
    and nk: "\<And>j e. j < vec_offset m \<Longrightarrow> vec m ! j = Some e \<Longrightarrow> kid H (ekey e) \<noteq> kid H key"
  shows "\<exists>r d. map_find_entry H m key = Inr r \<and> \<not> entry_found r \<and> fentry r = None \<and> empty_found r \<and>
      d < table_capacity m \<and> empty_offset r = probe H m key d \<and> table m ! probe H m key d = Empty \<and>
      (\<forall>i < d. table m ! probe H m key i \<noteq> Empty)"
proof -
  from ok have tl: "table_links m" and us: "used_slots m \<le> vec_offset m" "vec_offset m \<le> vec_capacity m"
    by (auto simp: hmap_ok_def)
  have "used_slots m < table_capacity m" using us hmap_ok_capacity [OF ok] by simp
  then obtain p where p: "p < table_capacity m" "table m ! p = Empty"
    unfolding used_slots_def by (metis (mono_tags, lifting) filter_True in_set_conv_nth nat_neq_iff)
  from probe_surj [OF p(1)] obtain i0 where "i0 < table_capacity m" "probe H m key i0 = p" by blast
  then have ex: "table m ! probe H m key i0 = Empty" using p by simp
  define d where "d = (LEAST i. table m ! probe H m key i = Empty)"
  have d: "table m ! probe H m key d = Empty" "d \<le> i0"
    unfolding d_def using ex by (auto intro: LeastI Least_le)
  have ne: "\<forall>i < d. table m ! probe H m key i \<noteq> Empty"
    unfolding d_def using not_less_Least by blast
  have dl: "d < table_capacity m" using d(2) \<open>i0 < table_capacity m\<close> by simp
  have "passes H m key (probe H m key i)" if i: "i < d" for i
  proof (rule nonempty_passes [OF tl])
    show "probe H m key i < table_capacity m" using dl by (intro probe_less) auto
    then show "\<And>j e. table m ! probe H m key i = Slot j \<Longrightarrow> vec m ! j = Some e \<Longrightarrow> kid H (ekey e) \<noteq> kid H key"
      using tl nk by (auto simp: table_links_def)
    show "table m ! probe H m key i \<noteq> Empty" using ne i by simp
  qed
  then have "\<forall>i < d. passes H m key (probe H m key i)" by blast
  from map_find_entry_at [OF dl this] show ?thesis
    using d(1) ne dl by auto
qed

text \<open>Items and entries.\<close>

lemma hmap_ok_vec: "hmap_ok H m \<Longrightarrow> j < vec_offset m \<Longrightarrow> j < vec_capacity m"
  by (simp add: hmap_ok_def)

lemma in_items_iff:
  assumes "hmap_ok H m"
  shows "(k, v) \<in> set (hm_items m) \<longleftrightarrow>
    (\<exists>j e. j < vec_offset m \<and> vec m ! j = Some e \<and> ekey e = k \<and> evalue e = v)"
  using assms by (force simp: hm_items_def image_iff in_live_iff hmap_ok_def)

definition item_is :: "(string \<Rightarrow> u32) \<Rightarrow> hstr \<Rightarrow> hstr \<times> 'v \<Rightarrow> bool" where
  "item_is H key kv \<longleftrightarrow> handlebars_string_eq H (fst kv) key"

lemma absent_items:
  assumes "hmap_ok H m" "\<not> (\<exists>kv \<in> set (hm_items m). item_is H key kv)"
    and "j < vec_offset m" "vec m ! j = Some e"
  shows "kid H (ekey e) \<noteq> kid H key"
  using assms in_items_iff [OF assms(1), of "ekey e" "evalue e"]
  by (auto simp: item_is_def string_eq_kid)

lemma find_absent_items:
  assumes "hmap_ok H m" "\<not> (\<exists>kv \<in> set (hm_items m). item_is H key kv)"
  shows "\<exists>r d. map_find_entry H m key = Inr r \<and> \<not> entry_found r \<and> fentry r = None \<and> empty_found r \<and>
      d < table_capacity m \<and> empty_offset r = probe H m key d \<and> table m ! probe H m key d = Empty \<and>
      (\<forall>i < d. table m ! probe H m key i \<noteq> Empty)"
  by (rule find_absent [OF assms(1)]) (rule absent_items [OF assms])

lemma present_items:
  assumes "hmap_ok H m" "kv \<in> set (hm_items m)" "item_is H key kv"
  obtains j e where "j < vec_offset m" "vec m ! j = Some e" "kid H (ekey e) = kid H key"
  using assms in_items_iff [OF assms(1), of "fst kv" "snd kv"]
  by (auto simp: item_is_def string_eq_kid)

lemma take_split: "j < n \<Longrightarrow> n \<le> length xs \<Longrightarrow>
    take n xs = take j xs @ xs ! j # take (n - Suc j) (drop (Suc j) xs)"
  using id_take_nth_drop [of j "take n xs"] by (simp add: drop_take min_def)

lemma take_update_split: "j < n \<Longrightarrow> n \<le> length xs \<Longrightarrow>
    take n (xs[j := x]) = take j xs @ x # take (n - Suc j) (drop (Suc j) xs)"
  by (subst take_split [of j n]) auto

text \<open>The entry with the key sought splits the items.\<close>

lemma items_split:
  assumes ok: "hmap_ok H m" and j: "j < vec_offset m" "vec m ! j = Some e" "kid H (ekey e) = kid H key"
  shows "\<exists>xs ys. hm_items m = xs @ (ekey e, evalue e) # ys \<and>
     (\<forall>kv \<in> set (xs @ ys). \<not> item_is H key kv) \<and>
     (\<forall>e'. hm_items (m\<lparr>vec := (vec m)[j := Some e']\<rparr>) = xs @ (ekey e', evalue e') # ys) \<and>
     (\<forall>t c. hm_items (m\<lparr>vec := (vec m)[j := None], table := t, mcnt := c\<rparr>) = xs @ ys)"
proof -
  let ?n = "vec_offset m"
  let ?it = "\<lambda>xs. map (\<lambda>e. (ekey e, evalue e)) (live xs)"
  let ?xs = "?it (take j (vec m))" and ?ys = "?it (take (?n - Suc j) (drop (Suc j) (vec m)))"
  have n: "?n \<le> vec_capacity m" using ok by (simp add: hmap_ok_def)
  note sp = take_split [OF j(1) n]
  have "\<not> item_is H key kv" if kv: "kv \<in> set (?xs @ ?ys)" for kv
  proof
    assume it: "item_is H key kv"
    from kv obtain f i where f: "kv = (ekey f, evalue f)" "i \<noteq> j" "i < ?n" "vec m ! i = Some f"
    proof -
      from kv consider e' i' where "kv = (ekey e', evalue e')" "i' < j" "vec m ! i' = Some e'"
        | e' i' where "kv = (ekey e', evalue e')" "i' < ?n - Suc j" "vec m ! (Suc j + i') = Some e'"
        by (auto simp: in_live_iff)
      then show thesis
      proof cases
        case (1 e' i')
        with j(1) that [of e' i'] show thesis by auto
      next
        case (2 e' i')
        with j(1) that [of e' "Suc j + i'"] show thesis by auto
      qed
    qed
    with it have "kid H (ekey f) = kid H (ekey e)" using j(3) by (simp add: item_is_def string_eq_kid)
    moreover have "keys_distinct H m" using ok by (simp add: hmap_ok_def)
    ultimately have "i = j" using f j unfolding keys_distinct_def by blast
    with f show False by simp
  qed
  moreover have "hm_items m = ?xs @ (ekey e, evalue e) # ?ys"
    using j(2) by (simp add: hm_items_def sp)
  ultimately show ?thesis
    using take_update_split [OF j(1) n]
    by (intro exI [of _ ?xs] exI [of _ ?ys]) (simp add: hm_items_def)
qed

section \<open>Writing an entry\<close>

lemma length_filter_update:
  "p < length xs \<Longrightarrow> \<not> P (xs ! p) \<Longrightarrow> P x \<Longrightarrow> length (filter P (xs[p := x])) = Suc (length (filter P xs))"
  by (induction xs arbitrary: p) (auto simp: nth_Cons split: nat.splits)

lemma length_filter_update_same:
  "p < length xs \<Longrightarrow> P (xs ! p) = P x \<Longrightarrow> length (filter P (xs[p := x])) = length (filter P xs)"
  by (induction xs arbitrary: p) (auto simp: nth_Cons split: nat.splits)

lemma chain_ok_mono:
  assumes "chain_ok H m e" "table_capacity m' = table_capacity m"
    and "\<And>p. p < table_capacity m \<Longrightarrow> table m ! p \<noteq> Empty \<Longrightarrow> table m' ! p \<noteq> Empty"
  shows "chain_ok H m' e"
proof -
  from assms(1) obtain d where d: "d < table_capacity m" "probe H m (ekey e) d = toff e"
      "\<forall>i < d. table m ! probe H m (ekey e) i \<noteq> Empty" by (auto simp: chain_ok_def)
  have "probe H m' (ekey e) = probe H m (ekey e)" by (rule probe_cong [OF assms(2) refl])
  with d assms(2,3) probe_less [OF d(1)] show ?thesis by (auto simp: chain_ok_def)
qed

lemma add_at_ok:
  assumes ok: "hmap_ok H m" and room: "vec_offset m < vec_capacity m"
    and nk: "\<not> (\<exists>kv \<in> set (hm_items m). item_is H key kv)"
    and d: "d < table_capacity m" "table m ! probe H m key d = Empty"
      "\<forall>i < d. table m ! probe H m key i \<noteq> Empty"
  shows "\<exists>m'. map_add_at_table_offset m key v (probe H m key d) = Inr m' \<and> hmap_ok H m' \<and>
     hm_items m' = hm_items m @ [(key, v)] \<and> mrc m' = mrc m \<and>
     is_in_iteration m' = is_in_iteration m \<and> vec_capacity m' = vec_capacity m \<and>
     vec_offset m' = Suc (vec_offset m)"
proof -
  let ?p = "probe H m key d" and ?n = "vec_offset m"
  define e where "e = \<lparr>ekey = key, evalue = v, toff = ?p\<rparr>"
  define m' where "m' = m\<lparr>vec := (vec m)[?n := Some e], table := (table m)[?p := Slot ?n],
    mcnt := mcnt m + 1, vec_offset := ?n + 1\<rparr>"
  have p: "?p < table_capacity m" using d(1) by (intro probe_less) auto
  have add: "map_add_at_table_offset m key v ?p = Inr m'"
    using room d(2) by (simp add: map_add_at_table_offset_def m'_def e_def)
  have items: "hm_items m' = hm_items m @ [(key, v)]"
    using room by (simp add: hm_items_def m'_def e_def take_Suc_conv_app_nth)
  from ok have tl: "table_links m" and vl: "vec_links H m" and kd: "keys_distinct H m"
    by (auto simp: hmap_ok_def)
  have vec': "vec m' ! j = (if j = ?n then Some e else vec m ! j)" for j
    using room by (simp add: m'_def nth_list_update)
  have table': "table m' ! q = (if q = ?p then Slot ?n else table m ! q)" for q
    using p by (simp add: m'_def nth_list_update)
  have cap: "table_capacity m' = table_capacity m" by (simp add: m'_def)
  have off: "vec_offset m' = Suc ?n" by (simp add: m'_def)
  have pr: "probe H m' k = probe H m k" for k using cap by (rule probe_cong) simp
  have "table_links m'"
    unfolding table_links_def
  proof (intro allI impI)
    fix q j assume q: "q < table_capacity m'" "table m' ! q = Slot j"
    show "j < vec_offset m' \<and> (\<exists>e. vec m' ! j = Some e \<and> toff e = q)"
    proof (cases "q = ?p")
      case True
      with q show ?thesis by (simp add: table' vec' off e_def)
    next
      case False
      with q tl have "j < ?n \<and> (\<exists>e. vec m ! j = Some e \<and> toff e = q)"
        by (simp add: table_links_def table' cap)
      then show ?thesis by (auto simp: vec' off)
    qed
  qed
  moreover have "vec_links H m'"
    unfolding vec_links_def
  proof (intro allI impI)
    fix j f assume j: "j < vec_offset m'" "vec m' ! j = Some f"
    show "toff f < table_capacity m' \<and> table m' ! toff f = Slot j \<and> chain_ok H m' f"
    proof (cases "j = ?n")
      case True
      with j have f: "f = e" by (simp add: vec')
      have "chain_ok H m' e"
        using d by (auto simp: chain_ok_def cap pr table' e_def)
      with f True p show ?thesis by (simp add: e_def table' cap)
    next
      case False
      with j have "j < ?n" "vec m ! j = Some f" by (auto simp: vec' off)
      with vl have o: "toff f < table_capacity m" "table m ! toff f = Slot j" "chain_ok H m f"
        by (auto simp: vec_links_def)
      moreover have "toff f \<noteq> ?p" using o(2) d(2) by auto
      ultimately show ?thesis
        using chain_ok_mono [OF o(3) cap] by (simp add: cap table')
    qed
  qed
  moreover have "keys_distinct H m'"
    using kd absent_items [OF ok nk]
    by (auto simp: keys_distinct_def vec' off e_def less_Suc_eq split: if_splits) metis+
  moreover have "used_slots m' = Suc (used_slots m)"
    unfolding used_slots_def m'_def using p d(2) by (simp add: length_filter_update)
  ultimately have "hmap_ok H m'"
    using ok room items by (simp add: hmap_ok_def m'_def)
  with add items show ?thesis by (auto simp: m'_def)
qed

section \<open>Construction and copying\<close>

lemma hm_items_empty: "vec_offset m = 0 \<Longrightarrow> hm_items m = []"
  by (simp add: hm_items_def)

lemma ctor_ok:
  assumes "ht_choose_table_capacity n = Inr tc"
  shows "\<exists>m. handlebars_map_ctor n = Inr m \<and> hmap_ok H m \<and> hm_items m = [] \<and> mrc m = 0 \<and>
     \<not> is_in_iteration m \<and> vec_capacity m = n \<and> vec_offset m = 0"
  using assms
  by (simp add: handlebars_map_ctor_def hmap_ok_def hm_items_empty table_links_def vec_links_def
      keys_distinct_def used_slots_def)

text \<open>Below capacity the load factor is below its maximum, so an idle rehash does nothing.\<close>

lemma load_factor_le:
  assumes "hmap_ok H m" "mcnt m < vec_capacity m"
  shows "handlebars_map_load_factor m \<le> 60"
proof -
  from assms(1) have "vec_capacity m * 100 div 60 \<le> table_capacity m" "5 \<le> table_capacity m"
    unfolding hmap_ok_def using choose_ge by blast+
  then have "mcnt m * 100 < 61 * table_capacity m" using assms(2) by linarith
  then have "mcnt m * 100 mod 2 ^ 32 < 61 * table_capacity m" by (meson le_less_trans mod_less_eq_dividend)
  then have "handlebars_map_load_factor m < 61"
    unfolding handlebars_map_load_factor_def by (rule less_mult_imp_div_less)
  then show ?thesis by simp
qed

lemma hm_count: "hmap_ok H m \<Longrightarrow> handlebars_map_count m = length (hm_items m)"
  by (simp add: handlebars_map_count_def hmap_ok_def)

lemma mcnt_le: "hmap_ok H m \<Longrightarrow> mcnt m \<le> vec_offset m"
  using length_live [of "take (vec_offset m) (vec m)"] by (simp add: hmap_ok_def hm_items_def)

lemma rehash_idle:
  assumes "hmap_ok H m" "vec_offset m < vec_capacity m" "mrc m \<le> 1"
  shows "rehash_fuel (Suc n) H False m = Inr m"
proof -
  have "\<not> 1 < mrc m" using assms(3) by (simp add: not_less)
  then show ?thesis
    using load_factor_le [OF assms(1)] mcnt_le [OF assms(1)] assms(2)
    by (simp add: Let_def rehash_fuel.simps)
qed

lemma add_absent:
  assumes "hmap_ok H m" "\<not> (\<exists>kv \<in> set (hm_items m). item_is H key kv)"
    "vec_offset m < vec_capacity m" "rehash m = Inr m"
  shows "\<exists>m'. add_with rehash H m key v = Inr m' \<and> hmap_ok H m' \<and>
     hm_items m' = hm_items m @ [(key, v)] \<and> mrc m' = mrc m \<and>
     is_in_iteration m' = is_in_iteration m \<and> vec_capacity m' = vec_capacity m \<and>
     vec_offset m' = Suc (vec_offset m)"
proof -
  obtain r d where r: "map_find_entry H m key = Inr r" "\<not> entry_found r" "empty_found r"
      "d < table_capacity m" "empty_offset r = probe H m key d" "table m ! probe H m key d = Empty"
      "\<forall>i < d. table m ! probe H m key i \<noteq> Empty"
    using find_absent_items [OF assms(1,2)] by blast
  with add_at_ok [OF assms(1,3,2) r(4,6,7), of v] assms(4) show ?thesis
    by (auto simp: add_with_def)
qed

lemma efold_live:
  "n \<le> length xs \<Longrightarrow>
     efold (\<lambda>i s. case xs ! i of None \<Rightarrow> Inr s | Some e \<Rightarrow> g e s) [0..<n] s = efold g (live (take n xs)) s"
proof (induction n arbitrary: s)
  case (Suc n)
  then show ?case
    by (cases "xs ! n") (auto simp: efold_append take_Suc_conv_app_nth cong: ebind_cong)
qed simp

lemma efold_map: "efold f (map g xs) s = efold (\<lambda>x. f (g x)) xs s"
  by (induction xs arbitrary: s) (auto cong: ebind_cong)

lemma foreach_items:
  assumes "vec_offset m \<le> vec_capacity m"
  shows "handlebars_map_foreach m body s = efold (\<lambda>kv. body (fst kv) (snd kv)) (hm_items m) s"
proof -
  have "handlebars_map_foreach m body s =
      efold (\<lambda>i s. case vec m ! i of None \<Rightarrow> Inr s | Some e \<Rightarrow> body (ekey e) (evalue e) s) [0..<vec_offset m] s"
    unfolding handlebars_map_foreach_def
    by (intro efold_cong refl) (auto simp: handlebars_map_get_kv_at_index_def split: option.splits)
  then show ?thesis using assms by (simp add: efold_live hm_items_def efold_map)
qed

lemma live_take_distinct:
  assumes "n \<le> length xs"
    and "\<And>i j e f. i < n \<Longrightarrow> j < n \<Longrightarrow> xs ! i = Some e \<Longrightarrow> xs ! j = Some f \<Longrightarrow> g e = g f \<Longrightarrow> i = j"
  shows "distinct (map g (live (take n xs)))"
  using assms
proof (induction n)
  case (Suc n)
  have IH: "distinct (map g (live (take n xs)))"
    by (rule Suc.IH) (use Suc.prems in \<open>auto intro: less_SucI\<close>)
  show ?case
  proof (cases "xs ! n")
    case None
    with IH Suc.prems(1) show ?thesis by (simp add: take_Suc_conv_app_nth)
  next
    case (Some e)
    have "g e \<notin> set (map g (live (take n xs)))"
    proof
      assume "g e \<in> set (map g (live (take n xs)))"
      then obtain i f where "i < n" "xs ! i = Some f" "g e = g f"
        using Suc.prems(1) by (auto simp: in_live_iff)
      with Suc.prems(2) [of n i e f] Some show False by simp
    qed
    with IH Some Suc.prems(1) show ?thesis by (simp add: take_Suc_conv_app_nth)
  qed
qed simp

lemma items_distinct: "hmap_ok H m \<Longrightarrow> distinct (map (\<lambda>kv. kid H (fst kv)) (hm_items m))"
  using live_take_distinct [of "vec_offset m" "vec m" "\<lambda>e. kid H (ekey e)"]
  by (auto simp: hm_items_def o_def hmap_ok_def keys_distinct_def)

lemma copy_loop:
  assumes "hmap_ok H m" "mrc m = 0" "vec_offset m + length kvs \<le> vec_capacity m"
    "distinct (map (\<lambda>kv. kid H (fst kv)) (hm_items m @ kvs))"
  shows "\<exists>m'. efold (\<lambda>kv m. add_with (rehash_fuel (Suc n) H False) H m (fst kv) (snd kv)) kvs m = Inr m' \<and>
     hmap_ok H m' \<and> hm_items m' = hm_items m @ kvs \<and> mrc m' = 0 \<and>
     is_in_iteration m' = is_in_iteration m \<and> vec_capacity m' = vec_capacity m \<and>
     vec_offset m' = vec_offset m + length kvs"
  using assms
proof (induction kvs arbitrary: m)
  case (Cons kv kvs)
  have room: "vec_offset m < vec_capacity m" using Cons.prems(3) by simp
  have "\<not> (\<exists>x \<in> set (hm_items m). item_is H (fst kv) x)"
  proof
    assume "\<exists>x \<in> set (hm_items m). item_is H (fst kv) x"
    then obtain x where "x \<in> set (hm_items m)" "kid H (fst x) = kid H (fst kv)"
      by (auto simp: item_is_def string_eq_kid)
    then have "kid H (fst kv) \<in> set (map (\<lambda>kv. kid H (fst kv)) (hm_items m))"
      by (metis (no_types, lifting) image_eqI list.set_map)
    with Cons.prems(4) show False by simp
  qed
  moreover have "rehash_fuel (Suc n) H False m = Inr m"
    by (rule rehash_idle [OF Cons.prems(1) room]) (simp add: Cons.prems(2))
  ultimately obtain m1 where m1: "add_with (rehash_fuel (Suc n) H False) H m (fst kv) (snd kv) = Inr m1"
      "hmap_ok H m1" "hm_items m1 = hm_items m @ [kv]" "mrc m1 = 0"
      "is_in_iteration m1 = is_in_iteration m" "vec_capacity m1 = vec_capacity m"
      "vec_offset m1 = Suc (vec_offset m)"
    using add_absent [where rehash = "rehash_fuel (Suc n) H False" and key = "fst kv" and v = "snd kv",
        OF Cons.prems(1) _ room] Cons.prems(2) by auto
  with Cons.IH [of m1] Cons.prems show ?case by auto
qed auto

section \<open>Rehash\<close>

definition hm_bounded :: "'v hmap \<Rightarrow> bool" where
  "hm_bounded m \<longleftrightarrow> mcnt m + 1 < 2 ^ 29"

lemma copy_ok:
  assumes ok: "hmap_ok H m" and cap: "mcnt m \<le> cap" "cap \<le> 2 ^ 29"
  shows "\<exists>m'. copy_ctor_with (rehash_fuel (Suc n) H False) H m cap = Inr m' \<and> hmap_ok H m' \<and>
     hm_items m' = hm_items m \<and> mrc m' = 0 \<and> \<not> is_in_iteration m' \<and>
     vec_capacity m' = max cap (vec_capacity m) \<and> vec_offset m' = mcnt m"
proof -
  define c where "c = (if cap < vec_capacity m then vec_capacity m else cap)"
  have cmax: "c = max cap (vec_capacity m)" by (simp add: c_def)
  obtain tc where "ht_choose_table_capacity c = Inr tc"
    using ok choose_total [OF cap(2)] by (cases "cap < vec_capacity m") (auto simp: hmap_ok_def c_def)
  from ctor_ok [OF this, of H] obtain m0 :: "'a hmap" where m0: "handlebars_map_ctor c = Inr m0"
      "hmap_ok H m0" "hm_items m0 = []" "mrc m0 = 0" "\<not> is_in_iteration m0" "vec_capacity m0 = c"
      "vec_offset m0 = 0" by blast
  have len: "length (hm_items m) = mcnt m" using ok by (simp add: hmap_ok_def)
  then have "vec_offset m0 + length (hm_items m) \<le> vec_capacity m0" using m0 cap by (simp add: cmax)
  moreover have "distinct (map (\<lambda>kv. kid H (fst kv)) (hm_items m0 @ hm_items m))"
    using items_distinct [OF ok] m0 by simp
  ultimately have "\<exists>m'. efold (\<lambda>kv m. add_with (rehash_fuel (Suc n) H False) H m (fst kv) (snd kv))
      (hm_items m) m0 = Inr m' \<and> hmap_ok H m' \<and> hm_items m' = hm_items m \<and> mrc m' = 0 \<and>
      \<not> is_in_iteration m' \<and> vec_capacity m' = c \<and> vec_offset m' = mcnt m"
    using copy_loop [OF m0(2,4), of "hm_items m" n] m0(3,5,6,7) len by simp
  moreover have "vec_offset m \<le> vec_capacity m" using ok by (simp add: hmap_ok_def)
  ultimately show ?thesis
    using m0(1) by (simp add: copy_ctor_with_def foreach_items cmax [symmetric] c_def [symmetric])
qed

lemma hmap_ok_mrc [simp]: "hmap_ok H (m\<lparr>mrc := r\<rparr>) = hmap_ok H m"
  by (simp add: hmap_ok_def hm_items_def table_links_def vec_links_def keys_distinct_def
      used_slots_def chain_ok_def probe_def)

lemma hm_items_mrc [simp]: "hm_items (m\<lparr>mrc := r\<rparr>) = hm_items m"
  by (simp add: hm_items_def)

lemma rehash_ok:
  assumes ok: "hmap_ok H m" and b: "hm_bounded m"
  shows "\<exists>m'. handlebars_map_rehash H f m = Inr m' \<and> hmap_ok H m' \<and> hm_items m' = hm_items m \<and>
     is_in_iteration m' = is_in_iteration m \<and>
     (is_in_iteration m \<longrightarrow> m' = m) \<and>
     (\<not> is_in_iteration m \<longrightarrow> vec_offset m' < vec_capacity m' \<and> mrc m' \<le> 1 \<and>
        (f \<or> vec_offset m = mcnt m \<longrightarrow> vec_offset m' = mcnt m'))"
proof (cases "is_in_iteration m")
  case True
  then show ?thesis using ok by (simp add: handlebars_map_rehash_def numeral_2_eq_2 rehash_fuel.simps)
next
  case False
  let ?cap = "2 ^ map_choose_vec_capacity_log2 (mcnt m + 1)"
  have cap: "mcnt m < ?cap" "?cap \<le> (2::nat) ^ 29"
    using vec_capacity_gt [of "mcnt m + 1"] vec_capacity_le [of "mcnt m + 1"] b
    by (auto simp: hm_bounded_def)
  obtain m' where m': "copy_ctor_with (rehash_fuel (Suc 0) H False) H m ?cap = Inr m'" "hmap_ok H m'"
      "hm_items m' = hm_items m" "mrc m' = 0" "\<not> is_in_iteration m'"
      "vec_capacity m' = max ?cap (vec_capacity m)" "vec_offset m' = mcnt m"
    using copy_ok [OF ok less_imp_le [OF cap(1)] cap(2), of 0] by blast
  have c: "mcnt m' = mcnt m" using m' ok by (simp add: hmap_ok_def)
  show ?thesis
  proof (cases "(f \<or> mrc m > 1) \<or> vec_offset m = vec_capacity m \<or> handlebars_map_load_factor m > 60")
    case True
    with m' c cap False show ?thesis
      by (auto simp: handlebars_map_rehash_def numeral_2_eq_2 rehash_fuel.simps Let_def)
  next
    case nr: False
    with False have "handlebars_map_rehash H f m = Inr m"
      by (simp add: handlebars_map_rehash_def numeral_2_eq_2 rehash_fuel.simps Let_def)
    moreover have "vec_offset m < vec_capacity m" using nr ok by (auto simp: hmap_ok_def)
    ultimately show ?thesis using ok False nr by (auto simp: not_less)
  qed
qed

end
