(* ===== verification/HMapOps.thy ===== *)
theory HMapOps
  imports HMapProofs "HOL-Library.Multiset"
begin

text \<open>
  The operations of the hash map as operations on its items, the association list in insertion
  order; the interface \<open>ordered_map\<close> that the clients of the map use, with its interpretation; and the
  properties of the map.
\<close>

section \<open>Operations on the items\<close>

definition lookup_item :: "(string \<Rightarrow> u32) \<Rightarrow> hstr \<Rightarrow> (hstr \<times> 'v) list \<Rightarrow> 'v option" where
  "lookup_item H key kvs = map_option snd (find (item_is H key) kvs)"

definition update_item :: "(string \<Rightarrow> u32) \<Rightarrow> hstr \<Rightarrow> 'v \<Rightarrow> (hstr \<times> 'v) list \<Rightarrow> (hstr \<times> 'v) list" where
  "update_item H key v kvs =
     (if \<exists>kv \<in> set kvs. item_is H key kv
      then map (\<lambda>kv. if item_is H key kv then (fst kv, v) else kv) kvs
      else kvs @ [(key, v)])"

definition remove_item :: "(string \<Rightarrow> u32) \<Rightarrow> hstr \<Rightarrow> (hstr \<times> 'v) list \<Rightarrow> (hstr \<times> 'v) list" where
  "remove_item H key kvs = filter (\<lambda>kv. \<not> item_is H key kv) kvs"

lemma lookup_item_absent: "\<not> (\<exists>kv \<in> set kvs. item_is H key kv) \<Longrightarrow> lookup_item H key kvs = None"
  by (simp add: lookup_item_def find_None_iff)

lemma lookup_item_split:
  "\<forall>kv \<in> set xs. \<not> item_is H key kv \<Longrightarrow> item_is H key kv \<Longrightarrow>
     lookup_item H key (xs @ kv # ys) = Some (snd kv)"
  by (induction xs) (auto simp: lookup_item_def)

lemma update_item_split:
  "\<forall>kv \<in> set (xs @ ys). \<not> item_is H key kv \<Longrightarrow> item_is H key kv \<Longrightarrow>
     update_item H key v (xs @ kv # ys) = xs @ (fst kv, v) # ys"
  by (auto simp: update_item_def map_idI)

lemma remove_item_split:
  "\<forall>kv \<in> set (xs @ ys). \<not> item_is H key kv \<Longrightarrow> item_is H key kv \<Longrightarrow>
     remove_item H key (xs @ kv # ys) = xs @ ys"
  by (auto simp: remove_item_def filter_id_conv)

lemma remove_item_absent: "\<not> (\<exists>kv \<in> set kvs. item_is H key kv) \<Longrightarrow> remove_item H key kvs = kvs"
  by (auto simp: remove_item_def filter_id_conv)

lemma item_is_self [simp]: "item_is H key (key, v)"
  by (simp add: item_is_def string_eq_kid)

lemma lookup_item_append:
  "lookup_item H key (xs @ ys) = (case lookup_item H key xs of None \<Rightarrow> lookup_item H key ys | Some v \<Rightarrow> Some v)"
  by (induction xs) (auto simp: lookup_item_def)

lemma lookup_item_single [simp]:
  "lookup_item H key [(k, v)] = (if handlebars_string_eq H k key then Some v else None)"
  by (simp add: lookup_item_def item_is_def)

lemma lookup_update_item: "lookup_item H key (update_item H key v kvs) = Some v"
proof (cases "\<exists>kv \<in> set kvs. item_is H key kv")
  case True
  then obtain xs kv ys where s: "kvs = xs @ kv # ys" "item_is H key kv" "\<forall>x \<in> set xs. \<not> item_is H key x"
    by (rule split_list_first_propE) blast
  have "map (\<lambda>kv. if item_is H key kv then (fst kv, v) else kv) xs = xs"
    using s(3) by (intro map_idI) auto
  then have "update_item H key v kvs =
      xs @ (fst kv, v) # map (\<lambda>kv. if item_is H key kv then (fst kv, v) else kv) ys"
    using True s by (simp add: update_item_def)
  moreover have "item_is H key (fst kv, v)" using s(2) by (simp add: item_is_def)
  ultimately show ?thesis using lookup_item_split [OF s(3)] by simp
next
  case False
  then show ?thesis by (simp add: update_item_def lookup_item_append lookup_item_absent)
      (simp add: string_eq_kid)
qed

section \<open>The operations refine them\<close>

lemma find_ok:
  assumes "hmap_ok H m"
  shows "handlebars_map_find H m key = Inr (lookup_item H key (hm_items m))"
proof (cases "\<exists>kv \<in> set (hm_items m). item_is H key kv")
  case True
  then obtain j e where j: "j < vec_offset m" "vec m ! j = Some e" "kid H (ekey e) = kid H key"
    using present_items [OF assms] by blast
  then have "item_is H key (ekey e, evalue e)" by (simp add: item_is_def string_eq_kid)
  with find_present [OF assms j] items_split [OF assms j] j(2) lookup_item_split show ?thesis
    by (fastforce simp: handlebars_map_find_def)
next
  case False
  with find_absent_items [OF assms False] show ?thesis
    by (auto simp: handlebars_map_find_def lookup_item_absent)
qed

definition hm_room :: "'v hmap \<Rightarrow> bool" where
  "hm_room m \<longleftrightarrow> hm_bounded m \<and> (is_in_iteration m \<longrightarrow> vec_offset m < vec_capacity m)"

lemma rehash_roomy:
  assumes "hmap_ok H m" "hm_room m"
  obtains m1 where "handlebars_map_rehash H f m = Inr m1" "hmap_ok H m1" "hm_items m1 = hm_items m"
    "is_in_iteration m1 = is_in_iteration m" "vec_offset m1 < vec_capacity m1"
  using assms rehash_ok [OF assms(1), of f] by (auto simp: hm_room_def)

lemma add_ok:
  assumes "hmap_ok H m" "hm_room m" "\<not> (\<exists>kv \<in> set (hm_items m). item_is H key kv)"
  shows "\<exists>m'. handlebars_map_add H m key v = Inr m' \<and> hmap_ok H m' \<and>
     hm_items m' = hm_items m @ [(key, v)] \<and> is_in_iteration m' = is_in_iteration m"
proof -
  obtain m1 where m1: "handlebars_map_rehash H False m = Inr m1" "hmap_ok H m1" "hm_items m1 = hm_items m"
      "is_in_iteration m1 = is_in_iteration m" "vec_offset m1 < vec_capacity m1"
    using assms(1,2) by (rule rehash_roomy)
  then have "handlebars_map_add H m key v = add_with (\<lambda>_. Inr m1) H m1 key v"
    by (simp add: handlebars_map_add_def add_with_def)
  moreover have "\<not> (\<exists>kv \<in> set (hm_items m1). item_is H key kv)" using assms(3) m1(3) by simp
  ultimately show ?thesis
    using add_absent [OF m1(2) _ m1(5), where rehash = "\<lambda>_. Inr m1" and key = key and v = v] m1(3,4)
    by auto
qed

lemma add_present:
  assumes "hmap_ok H m" "hm_bounded m" "\<exists>kv \<in> set (hm_items m). item_is H key kv"
  shows "handlebars_map_add H m key v = Inl (Throw HANDLEBARS_ERROR ''Failed to add to hash table'')"
proof -
  obtain m1 where m1: "handlebars_map_rehash H False m = Inr m1" "hmap_ok H m1" "hm_items m1 = hm_items m"
    using rehash_ok [OF assms(1,2), of False] by auto
  from assms(3) obtain j e where "j < vec_offset m1" "vec m1 ! j = Some e" "kid H (ekey e) = kid H key"
    using present_items [OF m1(2)] m1(3) by metis
  from find_present [OF m1(2) this] m1(1) show ?thesis
    by (auto simp: handlebars_map_add_def add_with_def)
qed

text \<open>Replacing the value of an entry and zeroing an entry keep the invariant.\<close>

lemma set_value_ok:
  assumes ok: "hmap_ok H m" and j: "j < vec_offset m" "vec m ! j = Some e"
  shows "hmap_ok H (m\<lparr>vec := (vec m)[j := Some (e\<lparr>evalue := v\<rparr>)]\<rparr>)" (is "hmap_ok H ?m")
proof -
  have jc: "j < vec_capacity m" by (rule hmap_ok_vec [OF ok j(1)])
  have vec': "vec ?m ! i = (if i = j then Some (e\<lparr>evalue := v\<rparr>) else vec m ! i)" for i
    using jc by (simp add: nth_list_update)
  have same: "\<exists>f'. vec m ! i = Some f' \<and> toff f' = toff f \<and> ekey f' = ekey f" if "vec ?m ! i = Some f" for i f
    using that j(2) jc by (auto simp: nth_list_update split: if_splits)
  obtain xs ys where "hm_items m = xs @ (ekey e, evalue e) # ys" "hm_items ?m = xs @ (ekey e, v) # ys"
    using items_split [OF ok j refl] by force
  then have len: "length (hm_items ?m) = length (hm_items m)" by simp
  from ok have l: "table_links m" "vec_links H m" "keys_distinct H m" by (auto simp: hmap_ok_def)
  have "table_links ?m"
    using l(1) j jc by (fastforce simp: table_links_def nth_list_update)
  moreover have "vec_links H ?m"
    unfolding vec_links_def
  proof (intro allI impI)
    fix i f assume "i < vec_offset ?m" "vec ?m ! i = Some f"
    with same obtain f' where f': "i < vec_offset m" "vec m ! i = Some f'" "toff f' = toff f" "ekey f' = ekey f"
      by auto
    with l(2) have "toff f' < table_capacity m" "table m ! toff f' = Slot i" "chain_ok H m f'"
      by (auto simp: vec_links_def)
    with f' show "toff f < table_capacity ?m \<and> table ?m ! toff f = Slot i \<and> chain_ok H ?m f"
      by (auto simp: chain_ok_def probe_def)
  qed
  moreover have "keys_distinct H ?m"
    unfolding keys_distinct_def
  proof (intro allI impI)
    fix a b f g assume "a < vec_offset ?m" "b < vec_offset ?m" "vec ?m ! a = Some f" "vec ?m ! b = Some g"
      "kid H (ekey f) = kid H (ekey g)"
    moreover from this same obtain f' g' where "vec m ! a = Some f'" "ekey f' = ekey f"
        "vec m ! b = Some g'" "ekey g' = ekey g" by metis
    ultimately show "a = b" using l(3) by (auto simp: keys_distinct_def)
  qed
  ultimately show ?thesis using ok len by (simp add: hmap_ok_def used_slots_def)
qed

lemma remove_entry_ok:
  assumes ok: "hmap_ok H m" and j: "j < vec_offset m" "vec m ! j = Some e"
  shows "hmap_ok H (m\<lparr>table := (table m)[toff e := Tomb], vec := (vec m)[j := None], mcnt := mcnt m - 1\<rparr>)"
    (is "hmap_ok H ?m")
proof -
  have jc: "j < vec_capacity m" by (rule hmap_ok_vec [OF ok j(1)])
  from ok have tl: "table_links m" and vl: "vec_links H m" and kd: "keys_distinct H m"
    by (auto simp: hmap_ok_def)
  from vl j have t: "toff e < table_capacity m" "table m ! toff e = Slot j" by (auto simp: vec_links_def)
  have vec': "vec ?m ! i = (if i = j then None else vec m ! i)" for i
    using jc by (simp add: nth_list_update)
  have table': "table ?m ! q = (if q = toff e then Tomb else table m ! q)" for q
    using t(1) by (simp add: nth_list_update)
  have cap: "table_capacity ?m = table_capacity m" "vec_offset ?m = vec_offset m" by simp_all
  have "table_links ?m"
    unfolding table_links_def
  proof (intro allI impI)
    fix p i assume p: "p < table_capacity ?m" "table ?m ! p = Slot i"
    then have "p \<noteq> toff e" "table m ! p = Slot i" using t(1) by (auto simp: nth_list_update split: if_splits)
    with p(1) tl have "i < vec_offset m" "\<exists>f. vec m ! i = Some f \<and> toff f = p"
      by (auto simp: table_links_def)
    moreover from this \<open>p \<noteq> toff e\<close> j(2) have "i \<noteq> j" by auto
    ultimately show "i < vec_offset ?m \<and> (\<exists>f. vec ?m ! i = Some f \<and> toff f = p)"
      unfolding vec' cap by simp
  qed
  moreover have "vec_links H ?m"
    unfolding vec_links_def
  proof (intro allI impI)
    fix i f assume i: "i < vec_offset ?m" "vec ?m ! i = Some f"
    then have "i \<noteq> j" "vec m ! i = Some f" using jc by (auto simp: nth_list_update split: if_splits)
    with i(1) vl have f: "toff f < table_capacity m" "table m ! toff f = Slot i" "chain_ok H m f"
      by (auto simp: vec_links_def)
    then have "toff f \<noteq> toff e" using t(2) \<open>i \<noteq> j\<close> by auto
    moreover have "chain_ok H ?m f"
      by (rule chain_ok_mono [OF f(3)]) (simp_all add: nth_list_update t(1))
    ultimately show "toff f < table_capacity ?m \<and> table ?m ! toff f = Slot i \<and> chain_ok H ?m f"
      using f unfolding table' cap by simp
  qed
  moreover have "keys_distinct H ?m"
    using kd unfolding keys_distinct_def vec' cap by auto
  moreover have "used_slots ?m = used_slots m"
    unfolding used_slots_def using t by (simp add: length_filter_update_same)
  moreover have "mcnt ?m = length (hm_items ?m)"
  proof -
    obtain xs ys where "hm_items m = xs @ (ekey e, evalue e) # ys" "hm_items ?m = xs @ ys"
    proof -
      have "hm_items ?m = hm_items (m\<lparr>vec := (vec m)[j := None], table := (table m)[toff e := Tomb], mcnt := mcnt m - 1\<rparr>)"
        by (simp add: hm_items_def)
      then show thesis using items_split [OF ok j refl] that by metis
    qed
    then show ?thesis using ok by (simp add: hmap_ok_def)
  qed
  ultimately show ?thesis using ok by (simp add: hmap_ok_def)
qed

lemma update_ok:
  assumes "hmap_ok H m" "hm_room m"
  shows "\<exists>m'. handlebars_map_update H m key v = Inr m' \<and> hmap_ok H m' \<and>
     hm_items m' = update_item H key v (hm_items m) \<and> is_in_iteration m' = is_in_iteration m"
proof -
  obtain m1 where m1: "handlebars_map_rehash H False m = Inr m1" "hmap_ok H m1" "hm_items m1 = hm_items m"
      "is_in_iteration m1 = is_in_iteration m" "vec_offset m1 < vec_capacity m1"
    using assms by (rule rehash_roomy)
  show ?thesis
  proof (cases "\<exists>kv \<in> set (hm_items m1). item_is H key kv")
    case True
    then obtain j e where j: "j < vec_offset m1" "vec m1 ! j = Some e" "kid H (ekey e) = kid H key"
      using present_items [OF m1(2)] by blast
    let ?m = "m1\<lparr>vec := (vec m1)[j := Some (e\<lparr>evalue := v\<rparr>)]\<rparr>"
    obtain xs ys where xy: "hm_items m1 = xs @ (ekey e, evalue e) # ys"
        "\<forall>kv \<in> set (xs @ ys). \<not> item_is H key kv" "hm_items ?m = xs @ (ekey e, v) # ys"
      using items_split [OF m1(2) j] by force
    have "item_is H key (ekey e, evalue e)" using j(3) by (simp add: item_is_def string_eq_kid)
    then have "hm_items ?m = update_item H key v (hm_items m1)"
      using xy update_item_split [OF xy(2)] by simp
    moreover have "handlebars_map_update H m key v = Inr ?m"
      using m1(1) find_present [OF m1(2) j] j(2) by (auto simp: handlebars_map_update_def)
    ultimately show ?thesis using set_value_ok [OF m1(2) j(1,2), of v] m1 by auto
  next
    case False
    from find_absent_items [OF m1(2) False] obtain r d where
      r: "map_find_entry H m1 key = Inr r" "fentry r = None" "empty_found r"
      "empty_offset r = probe H m1 key d"
      "d < table_capacity m1" "table m1 ! probe H m1 key d = Empty"
      "\<forall>i < d. table m1 ! probe H m1 key i \<noteq> Empty" by blast
    from add_at_ok [OF m1(2,5) False r(5,6,7), of v] m1 r(1-4) False show ?thesis
      by (auto simp: handlebars_map_update_def update_item_def)
  qed
qed

lemma remove_ok:
  assumes "hmap_ok H m" "hm_bounded m"
  shows "\<exists>m'. handlebars_map_remove H m key = Inr m' \<and> hmap_ok H m' \<and>
     hm_items m' = remove_item H key (hm_items m) \<and> is_in_iteration m' = is_in_iteration m"
proof -
  let ?f = "handlebars_map_load_factor m < HANDLEBARS_MAP_MIN_LOAD_FACTOR"
  obtain m1 where m1: "handlebars_map_rehash H ?f m = Inr m1" "hmap_ok H m1" "hm_items m1 = hm_items m"
      "is_in_iteration m1 = is_in_iteration m"
    using rehash_ok [OF assms, of ?f] by auto
  show ?thesis
  proof (cases "\<exists>kv \<in> set (hm_items m1). item_is H key kv")
    case True
    then obtain j e where j: "j < vec_offset m1" "vec m1 ! j = Some e" "kid H (ekey e) = kid H key"
      using present_items [OF m1(2)] by blast
    let ?m = "m1\<lparr>table := (table m1)[toff e := Tomb], vec := (vec m1)[j := None], mcnt := mcnt m1 - 1\<rparr>"
    have eq: "hm_items ?m = hm_items (m1\<lparr>vec := (vec m1)[j := None], table := (table m1)[toff e := Tomb], mcnt := mcnt m1 - 1\<rparr>)"
      by (simp add: hm_items_def)
    obtain xs ys where xy: "hm_items m1 = xs @ (ekey e, evalue e) # ys"
        "\<forall>kv \<in> set (xs @ ys). \<not> item_is H key kv" "hm_items ?m = xs @ ys"
      unfolding eq using items_split [OF m1(2) j] by metis
    have "item_is H key (ekey e, evalue e)" using j(3) by (simp add: item_is_def string_eq_kid)
    then have "hm_items ?m = remove_item H key (hm_items m1)"
      using xy remove_item_split [OF xy(2)] by simp
    moreover have "handlebars_map_remove H m key = Inr ?m"
      using m1(1) find_present [OF m1(2) j] by (auto simp: handlebars_map_remove_def)
    ultimately show ?thesis using remove_entry_ok [OF m1(2) j(1,2)] m1 by auto
  next
    case False
    with m1 find_absent_items [OF m1(2) False] remove_item_absent [OF False] show ?thesis
      by (auto simp: handlebars_map_remove_def)
  qed
qed

section \<open>The interface\<close>

text \<open>
  What the clients of the map rely on: a container with a list of items in insertion order and the
  five operations. \<open>room\<close> is what an operation that may grow the map needs.
\<close>

locale ordered_map =
  fixes ok :: "'m \<Rightarrow> bool"
    and room :: "'m \<Rightarrow> bool"
    and items :: "'m \<Rightarrow> (hstr \<times> 'v) list"
    and hash :: "string \<Rightarrow> u32"
    and find :: "'m \<Rightarrow> hstr \<Rightarrow> hbs_error + 'v option"
    and add :: "'m \<Rightarrow> hstr \<Rightarrow> 'v \<Rightarrow> hbs_error + 'm"
    and update :: "'m \<Rightarrow> hstr \<Rightarrow> 'v \<Rightarrow> hbs_error + 'm"
    and remove :: "'m \<Rightarrow> hstr \<Rightarrow> hbs_error + 'm"
  assumes find_law: "ok m \<Longrightarrow> find m k = Inr (lookup_item hash k (items m))"
    and add_law: "ok m \<Longrightarrow> room m \<Longrightarrow> lookup_item hash k (items m) = None \<Longrightarrow>
        \<exists>m'. add m k v = Inr m' \<and> ok m' \<and> items m' = items m @ [(k, v)]"
    and add_dup_law: "ok m \<Longrightarrow> room m \<Longrightarrow> lookup_item hash k (items m) \<noteq> None \<Longrightarrow>
        \<exists>t msg. add m k v = Inl (Throw t msg)"
    and update_law: "ok m \<Longrightarrow> room m \<Longrightarrow>
        \<exists>m'. update m k v = Inr m' \<and> ok m' \<and> items m' = update_item hash k v (items m)"
    and remove_law: "ok m \<Longrightarrow> room m \<Longrightarrow>
        \<exists>m'. remove m k = Inr m' \<and> ok m' \<and> items m' = remove_item hash k (items m)"
begin

lemma find_after_add:
  "ok m \<Longrightarrow> room m \<Longrightarrow> add m k v = Inr m' \<Longrightarrow> find m' k' =
     (if handlebars_string_eq hash k k' then Inr (Some v) else find m k')"
proof -
  assume a: "ok m" "room m" "add m k v = Inr m'"
  have none: "lookup_item hash k (items m) = None"
    using add_dup_law [OF a(1,2), of k v] a(3) by fastforce
  have m': "ok m'" "items m' = items m @ [(k, v)]"
    using add_law [OF a(1,2) none, of v] a(3) by auto
  have "lookup_item hash k' (items m) = None" if "handlebars_string_eq hash k k'"
    using none that by (auto simp: lookup_item_def find_None_iff item_is_def string_eq_kid)
  then show ?thesis
    using a m' by (auto simp: find_law lookup_item_append split: option.splits)
qed

lemma find_after_update: "ok m \<Longrightarrow> room m \<Longrightarrow> update m k v = Inr m' \<Longrightarrow> find m' k = Inr (Some v)"
  using update_law [of m k v] by (auto simp: find_law lookup_update_item)

lemma find_after_remove: "ok m \<Longrightarrow> room m \<Longrightarrow> remove m k = Inr m' \<Longrightarrow> find m' k = Inr None"
  using remove_law [of m k] by (auto simp: find_law lookup_item_absent remove_item_def)

end

lemma lookup_item_None: "lookup_item H key kvs = None \<longleftrightarrow> \<not> (\<exists>kv \<in> set kvs. item_is H key kv)"
  by (auto simp: lookup_item_def find_None_iff)

interpretation hmap: ordered_map "hmap_ok H" hm_room hm_items H
  "handlebars_map_find H" "handlebars_map_add H" "handlebars_map_update H" "handlebars_map_remove H"
proof unfold_locales
  fix m :: "'v hmap" and k v assume a: "hmap_ok H m" "hm_room m"
  then have b: "hm_bounded m" by (simp add: hm_room_def)
  show "\<exists>m'. handlebars_map_update H m k v = Inr m' \<and> hmap_ok H m' \<and>
      hm_items m' = update_item H k v (hm_items m)"
    using update_ok [OF a] by blast
  show "\<exists>m'. handlebars_map_remove H m k = Inr m' \<and> hmap_ok H m' \<and>
      hm_items m' = remove_item H k (hm_items m)"
    using remove_ok [OF a(1) b] by blast
  show "\<exists>t msg. handlebars_map_add H m k v = Inl (Throw t msg)" if "lookup_item H k (hm_items m) \<noteq> None"
    using add_present [OF a(1) b] that by (auto simp: lookup_item_None)
  show "\<exists>m'. handlebars_map_add H m k v = Inr m' \<and> hmap_ok H m' \<and> hm_items m' = hm_items m @ [(k, v)]"
    if "lookup_item H k (hm_items m) = None"
    using add_ok [OF a, of k v] that by (auto simp: lookup_item_None)
qed (rule find_ok)

section \<open>Sorting\<close>

text \<open>
  What is assumed of \<open>sort_r\<close>, the vendored sorting routine: it permutes its input, and when the
  comparison is a total preorder the output is ordered by it.
\<close>

definition sorts :: "'v sort_fun \<Rightarrow> bool" where
  "sorts sort_r \<longleftrightarrow> (\<forall>cmp xs. mset (sort_r cmp xs) = mset xs \<and>
     ((\<forall>a b. cmp a b \<le> 0 \<or> cmp b a \<le> 0) \<longrightarrow> (\<forall>a b c. cmp a b \<le> 0 \<longrightarrow> cmp b c \<le> 0 \<longrightarrow> cmp a c \<le> 0) \<longrightarrow>
      sorted_wrt (\<lambda>a b. cmp a b \<le> 0) (sort_r cmp xs)))"

text \<open>The loop of \<open>map_rebuild_references\<close> over the first \<open>n\<close> entries.\<close>

lemma rebuild_loop:
  assumes "\<forall>i < n. \<exists>e. vec m ! i = Some e"
  shows "efold (\<lambda>i m. case vec m ! i of None \<Rightarrow> Inl Mem_error
                   | Some e \<Rightarrow> Inr (m\<lparr>table := (table m)[toff e := Slot i]\<rparr>)) [0..<n] m
     = Inr (m\<lparr>table := fold (\<lambda>i t. t[toff (the (vec m ! i)) := Slot i]) [0..<n] (table m)\<rparr>)"
  using assms
proof (induction n)
  case (Suc n)
  from Suc.prems obtain e where "vec m ! n = Some e" by auto
  with Suc show ?case by (simp add: efold_append)
qed simp

lemma fold_update_length [simp]: "length (fold (\<lambda>i t. t[g i := h i]) is t) = length t"
  by (induction "is" arbitrary: t) auto

lemma fold_update_nth:
  assumes "\<forall>i < n. \<forall>j < n. g i = g j \<longrightarrow> i = j" "\<forall>i < n. g i < length t" "p < length t"
  shows "fold (\<lambda>i t. t[g i := Slot i]) [0..<n] t ! p =
     (if \<exists>i < n. g i = p then Slot (THE i. i < n \<and> g i = p) else t ! p)"
  using assms
proof (induction n)
  case (Suc n)
  have IH: "fold (\<lambda>i t. t[g i := Slot i]) [0..<n] t ! p =
     (if \<exists>i < n. g i = p then Slot (THE i. i < n \<and> g i = p) else t ! p)"
    by (rule Suc.IH) (use Suc.prems in auto)
  show ?case
  proof (cases "g n = p")
    case True
    then have "(THE i. i < Suc n \<and> g i = p) = n"
      using Suc.prems(1) by (intro the_equality) auto
    with True Suc.prems show ?thesis by (auto simp: nth_list_update)
  next
    case False
    then have "(\<lambda>i. i < Suc n \<and> g i = p) = (\<lambda>i. i < n \<and> g i = p)"
      by (auto simp: less_Suc_eq)
    with False IH show ?thesis by (auto simp: less_Suc_eq)
  qed
qed simp

lemma the_nth: "distinct (map g xs) \<Longrightarrow> i < length xs \<Longrightarrow> (THE k. k < length xs \<and> g (xs ! k) = g (xs ! i)) = i"
  by (rule the_equality) (auto simp: distinct_conv_nth)

lemma length_filter_cong_nth:
  assumes "length xs = length ys" "\<And>p. p < length xs \<Longrightarrow> P (xs ! p) = P (ys ! p)"
  shows "length (filter P xs) = length (filter P ys)"
proof -
  have "map P xs = map P ys" using assms by (auto intro: nth_equalityI)
  then have "length (filter id (map P xs)) = length (filter id (map P ys))" by simp
  then show ?thesis by (simp add: filter_map o_def)
qed

text \<open>Permuting the entries of a dense vector and rebuilding the references keeps the invariant.\<close>

lemma permute_ok:
  assumes ok: "hmap_ok H m" and dense: "vec_offset m = mcnt m" and n: "n = vec_offset m"
    and perm: "mset ss = mset (live (take n (vec m)))"
  shows "\<exists>m'. map_rebuild_references (m\<lparr>vec := map Some ss @ drop n (vec m)\<rparr>) = Inr m' \<and> hmap_ok H m' \<and>
     hm_items m' = map (\<lambda>e. (ekey e, evalue e)) ss \<and> is_in_iteration m' = is_in_iteration m"
proof -
  define es where "es = live (take n (vec m))"
  define t' where "t' = fold (\<lambda>i t. t[toff (ss ! i) := Slot i]) [0..<n] (table m)"
  define m' where "m' = m\<lparr>vec := map Some ss @ drop n (vec m), table := t'\<rparr>"
  from ok have tl: "table_links m" and vl: "vec_links H m" and kd: "keys_distinct H m"
    and nv: "n \<le> vec_capacity m" by (auto simp: hmap_ok_def n)
  have len: "length ss = n"
    using mset_eq_length [OF perm] ok dense n by (simp add: hmap_ok_def hm_items_def)
  have set: "set ss = set es" using mset_eq_setD [OF perm] by (simp add: es_def)
  have entry: "\<exists>j < n. vec m ! j = Some e" if "e \<in> set ss" for e
    using that nv unfolding set by (auto simp: es_def in_live_iff)
  have toff: "toff e < table_capacity m" "\<exists>j. table m ! toff e = Slot j" "chain_ok H m e" if "e \<in> set ss" for e
    using entry [OF that] vl by (auto simp: vec_links_def n)
  have "distinct (map toff es)" unfolding es_def
    by (rule live_take_distinct [OF nv]) (metis vl [unfolded vec_links_def] n slot.inject)
  then have dt: "distinct (map toff ss)"
    using perm by (metis es_def mset_eq_imp_distinct_iff mset_map)
  have "distinct (map (\<lambda>e. kid H (ekey e)) es)" unfolding es_def
    by (rule live_take_distinct [OF nv]) (use kd in \<open>auto simp: keys_distinct_def n\<close>)
  then have dk: "distinct (map (\<lambda>e. kid H (ekey e)) ss)"
    using perm by (metis es_def mset_eq_imp_distinct_iff mset_map)
  have vec': "vec m' ! i = Some (ss ! i)" if "i < n" for i
    using that len by (simp add: m'_def nth_append)
  have inj: "\<forall>i < n. \<forall>j < n. toff (ss ! i) = toff (ss ! j) \<longrightarrow> i = j"
    using dt len by (auto simp: distinct_conv_nth)
  have lt: "\<forall>i < n. toff (ss ! i) < table_capacity m" using toff(1) len by simp
  have tab: "t' ! p = (if \<exists>i < n. toff (ss ! i) = p then Slot (THE i. i < n \<and> toff (ss ! i) = p) else table m ! p)"
    if "p < table_capacity m" for p
    unfolding t'_def using fold_update_nth [OF inj lt that] .
  have tab_at: "t' ! toff (ss ! i) = Slot i" if "i < n" for i
    using tab [of "toff (ss ! i)"] that lt the_nth [OF dt, of i] len by auto
  have cap: "length t' = table_capacity m" by (simp add: t'_def)
  have empty: "t' ! p = Empty \<longleftrightarrow> table m ! p = Empty" if "p < table_capacity m" for p
  proof (cases "\<exists>i < n. toff (ss ! i) = p")
    case True
    then obtain i where "i < n" "toff (ss ! i) = p" by blast
    with tab_at toff(2) [of "ss ! i"] len show ?thesis by auto
  next
    case False
    have "t' ! p = table m ! p"
      by (rule trans [OF tab [OF that] if_not_P [OF False]])
    then show ?thesis by simp
  qed
  have "map_rebuild_references (m\<lparr>vec := map Some ss @ drop n (vec m)\<rparr>) = Inr m'"
  proof -
    let ?m = "m\<lparr>vec := map Some ss @ drop n (vec m)\<rparr>"
    have "\<forall>i < n. vec ?m ! i = Some (ss ! i)" using len by (simp add: nth_append)
    moreover from this have "fold (\<lambda>i t. t[toff (the (vec ?m ! i)) := Slot i]) [0..<n] (table ?m) = t'"
      unfolding t'_def by (intro fold_cong) auto
    ultimately show ?thesis
      using rebuild_loop [of n ?m] dense n by (simp add: map_rebuild_references_def m'_def)
  qed
  moreover have items: "hm_items m' = map (\<lambda>e. (ekey e, evalue e)) ss"
    using len n by (simp add: hm_items_def m'_def)
  moreover have "hmap_ok H m'"
  proof -
    have "table_links m'"
      unfolding table_links_def
    proof (intro allI impI)
      fix p j assume p: "p < table_capacity m'" "table m' ! p = Slot j"
      then have pc: "p < table_capacity m" by (simp add: m'_def cap)
      show "j < vec_offset m' \<and> (\<exists>e. vec m' ! j = Some e \<and> toff e = p)"
      proof (cases "\<exists>i < n. toff (ss ! i) = p")
        case True
        then obtain i where i: "i < n" "toff (ss ! i) = p" by blast
        with tab_at [OF i(1)] p(2) have "j = i" by (simp add: m'_def)
        with i vec' show ?thesis by (simp add: n) (simp add: m'_def)
      next
        case False
        then have "t' ! p = table m ! p"
          by (rule trans [OF tab [OF pc] if_not_P])
        then have "table m ! p = Slot j" using p(2) by (simp add: m'_def)
        with tl pc obtain e where "j < n" "vec m ! j = Some e" "toff e = p"
          by (auto simp: table_links_def n)
        then have "e \<in> set ss" using nv unfolding set by (auto simp: es_def in_live_iff)
        with False \<open>toff e = p\<close> len show ?thesis by (auto simp: in_set_conv_nth)
      qed
    qed
    moreover have "vec_links H m'"
      unfolding vec_links_def
    proof (intro allI impI)
      fix i f assume i: "i < vec_offset m'" "vec m' ! i = Some f"
      then have "i < n" by (simp add: m'_def n)
      with i vec' have f: "f = ss ! i" "f \<in> set ss" using len by auto
      have "chain_ok H m' f"
        by (rule chain_ok_mono [OF toff(3) [OF f(2)]]) (auto simp: m'_def cap empty)
      with f toff(1) [OF f(2)] tab_at [OF \<open>i < n\<close>]
      show "toff f < table_capacity m' \<and> table m' ! toff f = Slot i \<and> chain_ok H m' f"
        by (simp add: m'_def cap)
    qed
    moreover have "keys_distinct H m'"
      unfolding keys_distinct_def
      using dk len vec' by (auto simp: distinct_conv_nth m'_def n)
    moreover have "used_slots m' = used_slots m"
      unfolding used_slots_def
      by (rule length_filter_cong_nth) (auto simp: m'_def cap empty)
    ultimately show ?thesis
      using ok items len nv dense n cap by (simp add: hmap_ok_def m'_def)
  qed
  moreover have "is_in_iteration m' = is_in_iteration m" by (simp add: m'_def)
  ultimately show ?thesis by blast
qed

lemma sort_ok:
  assumes "hmap_ok H m" "hm_bounded m" "\<not> is_in_iteration m" "sorts sort_r"
  shows "\<exists>m'. handlebars_map_sort sort_r H compare m = Inr m' \<and> hmap_ok H m' \<and>
     mset (hm_items m') = mset (hm_items m) \<and>
     ((\<forall>a b. compare a b \<le> 0 \<or> compare b a \<le> 0) \<longrightarrow> (\<forall>a b c. compare a b \<le> 0 \<longrightarrow> compare b c \<le> 0 \<longrightarrow> compare a c \<le> 0) \<longrightarrow>
      sorted_wrt (\<lambda>a b. compare a b \<le> 0) (hm_items m')) \<and> \<not> is_in_iteration m'"
proof -
  obtain m1 where m1: "handlebars_map_rehash H (handlebars_map_is_sparse m) m = Inr m1" "hmap_ok H m1"
      "hm_items m1 = hm_items m" "vec_offset m1 = mcnt m1" "\<not> is_in_iteration m1"
    using rehash_ok [OF assms(1,2), of "handlebars_map_is_sparse m"] assms(3)
    by (auto simp: handlebars_map_is_sparse_def)
  have dense: "vec_offset m1 = mcnt m1"
    using m1(4) .
  let ?n = "mcnt m1"
  let ?cmp = "map_entry_compare compare"
  define ss where "ss = sort_r ?cmp (live (take ?n (vec m1)))"
  have perm: "mset ss = mset (live (take ?n (vec m1)))"
    using assms(4) by (simp add: ss_def sorts_def)
  have nn: "None \<notin> set (take ?n (vec m1))"
    using length_live_eq [of "take ?n (vec m1)"] m1(2) dense by (simp add: hmap_ok_def hm_items_def)
  then have "map the (take ?n (vec m1)) = live (take ?n (vec m1))"
    by (auto simp: live_def intro!: arg_cong [where f = "map the"] filter_True [symmetric])
      (metis not_Some_eq)
  then have eq: "handlebars_map_sort sort_r H compare m =
      map_rebuild_references (m1\<lparr>vec := map Some ss @ drop ?n (vec m1)\<rparr>)"
    using m1(1) nn by (simp add: handlebars_map_sort_def ss_def)
  obtain m' where m': "handlebars_map_sort sort_r H compare m = Inr m'" "hmap_ok H m'"
      "hm_items m' = map (\<lambda>e. (ekey e, evalue e)) ss" "\<not> is_in_iteration m'"
    using permute_ok [OF m1(2) dense dense [symmetric] perm] eq m1(5) by auto
  have "mset (hm_items m') = mset (hm_items m)"
    using m'(3) perm dense by (simp add: hm_items_def [of m1] flip: m1(3))
  moreover have "sorted_wrt (\<lambda>a b. compare a b \<le> 0) (hm_items m')"
    if "\<forall>a b. compare a b \<le> 0 \<or> compare b a \<le> 0" "\<forall>a b c. compare a b \<le> 0 \<longrightarrow> compare b c \<le> 0 \<longrightarrow> compare a c \<le> 0"
  proof -
    have total: "\<forall>a b. ?cmp a b \<le> 0 \<or> ?cmp b a \<le> 0"
      unfolding map_entry_compare_def using that(1) by (intro allI) (rule that(1) [THEN spec, THEN spec])
    have trans: "\<forall>a b c. ?cmp a b \<le> 0 \<longrightarrow> ?cmp b c \<le> 0 \<longrightarrow> ?cmp a c \<le> 0"
      unfolding map_entry_compare_def by (intro allI) (rule that(2) [THEN spec, THEN spec, THEN spec])
    have "sorted_wrt (\<lambda>a b. ?cmp a b \<le> 0) ss"
      unfolding ss_def
      by (rule assms(4) [unfolded sorts_def, THEN spec, THEN spec, THEN conjunct2, THEN mp, THEN mp, OF total trans])
    then show ?thesis
      unfolding m'(3) sorted_wrt_map map_entry_compare_def by (simp only:)
  qed
  ultimately show ?thesis using m' by blast
qed

section \<open>A sample map\<close>

text \<open>
  A map of three entries with a tombstone, for the concrete instances below: the keys are \<open>a\<close>, \<open>aa\<close>
  and \<open>aaaa\<close>, hashed to their lengths; \<open>aaa\<close> has been removed.
\<close>

definition sample_hash :: "string \<Rightarrow> u32" where "sample_hash s = of_nat (length s)"
definition sample_entry :: "nat \<Rightarrow> nat \<Rightarrow> nat hentry" where
  "sample_entry n v = \<lparr>ekey = handlebars_string_ctor (replicate n CHR ''a''), evalue = v, toff = n\<rparr>"
definition sample_map :: "nat hmap" where
  "sample_map = \<lparr>mrc = 1, mcnt = 3,
     table = [Empty, Slot 0, Slot 1, Tomb, Slot 3, Empty, Empty, Empty, Empty, Empty, Empty],
     vec = [Some (sample_entry 1 10), Some (sample_entry 2 20), None, Some (sample_entry 4 40)],
     vec_offset = 4, is_in_iteration = False\<rparr>"
lemma all_less_upt: "(\<forall>p<n. P p) = list_all P [0..<n]" by (auto simp: list_all_iff)
lemma ex_less_upt: "(\<exists>p<n. P p) = list_ex P [0..<n]" by (auto simp: list_ex_iff)

lemma sample_probe: "probe sample_hash sample_map (ekey (sample_entry n v)) i = (n mod 2^32 mod 11 + i) mod 11"
 by (simp add: probe_def sample_map_def sample_hash_def sample_entry_def hbs_str_hash_def str_defs unat_of_nat)

lemma sample_map_ok: "hmap_ok sample_hash sample_map"
  unfolding hmap_ok_def
proof (intro conjI)
  show "ht_choose_table_capacity (vec_capacity sample_map) = Inr (table_capacity sample_map)"
    by (simp add: sample_map_def ht_choose_table_capacity_def HANDLEBARS_MAP_CAPACITY_TABLE_def)
  show "table_links sample_map"
    by (simp add: table_links_def all_less_upt upt_rec sample_map_def sample_entry_def)
  have "chain_ok sample_hash sample_map (sample_entry n v)" if "n < 11" for n v
    unfolding chain_ok_def sample_probe using that by (intro exI [of _ 0]) (simp add: sample_entry_def sample_map_def)
  then show vl: "vec_links sample_hash sample_map"
    by (simp add: vec_links_def all_less_upt sample_map_def upt_rec)
      (simp add: sample_map_def sample_entry_def)
  have "\<forall>j < 4. \<forall>e. vec sample_map ! j = Some e \<longrightarrow> length (sval (ekey e)) = toff e"
    by (simp add: all_less_upt upt_rec sample_map_def sample_entry_def)
  then have "toff e = toff f" if "i < 4" "j < 4" "vec sample_map ! i = Some e" "vec sample_map ! j = Some f"
      "kid sample_hash (ekey e) = kid sample_hash (ekey f)" for i j e f
    using that by (simp add: kid_def)
  moreover have "vec_offset sample_map = 4" by (simp add: sample_map_def)
  ultimately show "keys_distinct sample_hash sample_map"
    using vl unfolding keys_distinct_def vec_links_def by (metis slot.inject)
qed (simp_all add: sample_map_def hm_items_def used_slots_def)

lemma sample_items:
  "hm_items sample_map = [(ekey (sample_entry 1 10), 10), (ekey (sample_entry 2 20), 20), (ekey (sample_entry 4 40), 40)]"
  by (simp add: hm_items_def sample_map_def sample_entry_def)

lemma sample_item_is: "item_is sample_hash k (ekey (sample_entry n v), w) \<longleftrightarrow> kid sample_hash (ekey (sample_entry n v)) = kid sample_hash k"
  by (simp add: item_is_def string_eq_kid)

lemma sample_kid: "kid sample_hash (ekey (sample_entry n v)) = (n, of_nat n)"
  by (auto simp: kid_def hbs_str_hash_def sample_hash_def sample_entry_def str_defs)

lemma sample_room: "hm_room sample_map" "hm_bounded sample_map"
  by (simp_all add: hm_room_def hm_bounded_def sample_map_def)

section \<open>Properties\<close>

text \<open>C3. A lookup returns the value of the entry with the key's identity, and the null pointer when there
  is none; it never reads outside the map or through a dangling slot.\<close>
theorem map_find_refines:
  assumes "hmap_ok H m"
  shows "handlebars_map_find H m key = Inr (lookup_item H key (hm_items m))"
  by (rule hmap.find_law [OF assms])

theorem map_find_refines_witness:
  "handlebars_map_find sample_hash sample_map (ekey (sample_entry 2 0)) = Inr (Some 20) \<and>
   handlebars_map_find sample_hash sample_map (ekey (sample_entry 3 0)) = Inr None"
  by (simp add: map_find_refines [OF sample_map_ok] lookup_item_def sample_items sample_item_is sample_kid)

text \<open>C2. Adding a key appends it to the items of the map, whatever rehashing happens on the way; adding a key
  that is present throws and changes nothing.\<close>
theorem map_add_refines:
  assumes "hmap_ok H m" "hm_room m"
  shows "if \<exists>kv \<in> set (hm_items m). item_is H key kv
     then handlebars_map_add H m key v = Inl (Throw HANDLEBARS_ERROR ''Failed to add to hash table'')
     else \<exists>m'. handlebars_map_add H m key v = Inr m' \<and> hmap_ok H m' \<and> hm_items m' = hm_items m @ [(key, v)]"
  using add_ok [OF assms, of key v] add_present [OF assms(1), of key v] assms(2)
  by (auto simp: hm_room_def)

theorem map_add_refines_witness:
  "\<exists>m'. handlebars_map_add sample_hash sample_map (ekey (sample_entry 3 0)) 30 = Inr m' \<and>
     map snd (hm_items m') = [10, 20, 40, 30]"
  using map_add_refines [OF sample_map_ok sample_room(1), of "ekey (sample_entry 3 0)" 30]
  by (auto simp: sample_items sample_item_is sample_kid)

text \<open>C5. Updating a key replaces the value of its entry in place when it is present and appends it
  otherwise.\<close>
theorem map_update_refines:
  assumes "hmap_ok H m" "hm_room m"
  shows "\<exists>m'. handlebars_map_update H m key v = Inr m' \<and> hmap_ok H m' \<and>
     hm_items m' = update_item H key v (hm_items m)"
  by (rule hmap.update_law [OF assms])

theorem map_update_refines_witness:
  "\<exists>m'. handlebars_map_update sample_hash sample_map (ekey (sample_entry 2 0)) 21 = Inr m' \<and>
     map snd (hm_items m') = [10, 21, 40]"
  using map_update_refines [OF sample_map_ok sample_room(1), of "ekey (sample_entry 2 0)" 21]
  by (auto simp: update_item_def sample_items sample_item_is sample_kid)

text \<open>C4. Removing a key removes its entry and keeps the order of the others.\<close>
theorem map_remove_refines:
  assumes "hmap_ok H m" "hm_bounded m"
  shows "\<exists>m'. handlebars_map_remove H m key = Inr m' \<and> hmap_ok H m' \<and>
     hm_items m' = remove_item H key (hm_items m)"
  using remove_ok [OF assms, of key] by blast

theorem map_remove_refines_witness:
  "\<exists>m'. handlebars_map_remove sample_hash sample_map (ekey (sample_entry 2 0)) = Inr m' \<and>
     map snd (hm_items m') = [10, 40]"
  using map_remove_refines [OF sample_map_ok sample_room(2), of "ekey (sample_entry 2 0)"]
  by (auto simp: remove_item_def sample_items sample_item_is sample_kid)

text \<open>C7. Rehashing ends (the mutual recursion of rehash, copy and add is two levels deep), keeps the items in
  order, leaves room for one more entry and an unshared map, and a forced rehash drops the tombstones.\<close>
theorem map_rehash_preserves:
  assumes "hmap_ok H m" "hm_bounded m" "\<not> is_in_iteration m"
  shows "\<exists>m'. handlebars_map_rehash H force m = Inr m' \<and> hmap_ok H m' \<and> hm_items m' = hm_items m \<and>
     vec_offset m' < vec_capacity m' \<and> mrc m' \<le> 1 \<and> (force \<longrightarrow> \<not> handlebars_map_is_sparse m')"
  using rehash_ok [OF assms(1,2), of force] assms(3) by (auto simp: handlebars_map_is_sparse_def)

theorem map_rehash_preserves_witness:
  "\<exists>m'. handlebars_map_rehash sample_hash True sample_map = Inr m' \<and>
     map snd (hm_items m') = [10, 20, 40] \<and> \<not> handlebars_map_is_sparse m'"
proof -
  have "\<not> is_in_iteration sample_map" by (simp add: sample_map_def)
  from map_rehash_preserves [OF sample_map_ok sample_room(2) this, of True]
  show ?thesis by (auto simp: sample_items)
qed

text \<open>C8. Sorting a map that is not being iterated over yields a permutation of its items, ordered by the
  comparison when that is a total preorder, and keeps every key findable.\<close>
theorem map_sort_correct:
  assumes "hmap_ok H m" "hm_bounded m" "\<not> is_in_iteration m" "sorts sort_r"
  shows "\<exists>m'. handlebars_map_sort sort_r H compare m = Inr m' \<and> hmap_ok H m' \<and>
     mset (hm_items m') = mset (hm_items m) \<and>
     ((\<forall>a b. compare a b \<le> 0 \<or> compare b a \<le> 0) \<longrightarrow>
      (\<forall>a b c. compare a b \<le> 0 \<longrightarrow> compare b c \<le> 0 \<longrightarrow> compare a c \<le> 0) \<longrightarrow>
      sorted_wrt (\<lambda>a b. compare a b \<le> 0) (hm_items m'))"
  using sort_ok [OF assms] by blast

text \<open>An insertion sort is a sorting routine in this sense.\<close>

fun insort_cmp :: "('a \<Rightarrow> 'a \<Rightarrow> int) \<Rightarrow> 'a \<Rightarrow> 'a list \<Rightarrow> 'a list" where
  "insort_cmp cmp x [] = [x]"
| "insort_cmp cmp x (y # ys) = (if cmp x y \<le> 0 then x # y # ys else y # insort_cmp cmp x ys)"

definition insertion_sort :: "'v sort_fun" where
  "insertion_sort cmp xs = foldr (insort_cmp cmp) xs []"

lemma insort_cmp_set: "set (insort_cmp cmp x ys) = insert x (set ys)"
  by (induction ys) auto

lemma insort_cmp_sorted:
  assumes total: "\<forall>a b. cmp a b \<le> 0 \<or> cmp b a \<le> 0"
    and trans: "\<forall>a b c. cmp a b \<le> 0 \<longrightarrow> cmp b c \<le> 0 \<longrightarrow> cmp a c \<le> 0"
  shows "sorted_wrt (\<lambda>a b. cmp a b \<le> 0) ys \<Longrightarrow> sorted_wrt (\<lambda>a b. cmp a b \<le> 0) (insort_cmp cmp x ys)"
proof (induction ys)
  case (Cons y ys)
  show ?case
  proof (cases "cmp x y \<le> 0")
    case True
    then show ?thesis using Cons.prems trans by auto
  next
    case False
    then have "cmp y x \<le> 0" using total by blast
    with False Cons show ?thesis by (auto simp: insort_cmp_set)
  qed
qed simp

lemma insertion_sort_sorts: "sorts (insertion_sort :: 'v sort_fun)"
  unfolding sorts_def
proof (intro allI conjI impI)
  fix cmp :: "'v hentry \<Rightarrow> 'v hentry \<Rightarrow> int" and xs
  have "mset (insort_cmp cmp x ys) = add_mset x (mset ys)" for x ys by (induction ys) auto
  then show "mset (insertion_sort cmp xs) = mset xs"
    by (induction xs) (auto simp: insertion_sort_def)
  assume "\<forall>a b. cmp a b \<le> 0 \<or> cmp b a \<le> 0" "\<forall>a b c. cmp a b \<le> 0 \<longrightarrow> cmp b c \<le> 0 \<longrightarrow> cmp a c \<le> 0"
  then show "sorted_wrt (\<lambda>a b. cmp a b \<le> 0) (insertion_sort cmp xs)"
    by (induction xs) (auto simp: insertion_sort_def insort_cmp_sorted)
qed

theorem map_sort_correct_witness:
  "\<exists>m'. handlebars_map_sort insertion_sort sample_hash (\<lambda>a b. int (snd b) - int (snd a)) sample_map = Inr m' \<and>
     set (map snd (hm_items m')) = {10, 20, 40} \<and>
     sorted_wrt (\<lambda>a b. int (snd b) - int (snd a) \<le> 0) (hm_items m')"
proof -
  have "\<not> is_in_iteration sample_map" by (simp add: sample_map_def)
  from map_sort_correct [OF sample_map_ok sample_room(2) this insertion_sort_sorts,
      of "\<lambda>a b. int (snd b) - int (snd a)"]
  obtain m' where m': "handlebars_map_sort insertion_sort sample_hash (\<lambda>a b. int (snd b) - int (snd a)) sample_map = Inr m'"
      "mset (hm_items m') = mset (hm_items sample_map)"
      "sorted_wrt (\<lambda>a b. int (snd b) - int (snd a) \<le> 0) (hm_items m')"
    by fastforce
  from mset_eq_setD [OF m'(2)] have "set (map snd (hm_items m')) = {10, 20, 40}"
    by (simp add: sample_items)
  with m' show ?thesis by blast
qed

end
