(* ===== verification/HMapCompact.thy ===== *)
theory HMapCompact
  imports HMapOps "HOL-Library.Code_Target_Nat"
begin

text \<open>
  \<open>handlebars_map_sparse_array_compact\<close>: what it does to the vector, exactly. The write offset starts at
  1 behind the first tombstone, so of the entries before that tombstone only the first survives; when the
  first tombstone is at index 0 it stays. Iterating over a map compacts it first
  (\<open>handlebars_value_iterator_init\<close>), so a loop over a map can lose entries.
\<close>

text \<open>The entries the compaction leaves in the vector: the first slot and the live entries behind
  the first tombstone.\<close>

definition compact_spec :: "'a option list \<Rightarrow> 'a option list" where
  "compact_spec xs =
     (let k = length (takeWhile (\<lambda>x. x \<noteq> None) xs)
      in take 1 xs @ map Some (live (drop (Suc k) xs)))"

lemma compact_scan_eq:
  "a \<le> b \<Longrightarrow> None \<in> set (drop a (take b (vec m))) \<Longrightarrow> b \<le> vec_capacity m \<Longrightarrow>
     compact_scan m [a..<b] = (a + length (takeWhile (\<lambda>x. x \<noteq> None) (drop a (take b (vec m)))) + 1, 1)"
proof (induction "b - a" arbitrary: a)
  case 0
  then show ?case by simp
next
  case (Suc n)
  then have ab: "a < b" by simp
  then have d: "drop a (take b (vec m)) = vec m ! a # drop (Suc a) (take b (vec m))"
    using Suc.prems(3) by (subst Cons_nth_drop_Suc [symmetric]) auto
  show ?case
  proof (cases "vec m ! a = None")
    case True
    with ab d show ?thesis by (simp add: upt_conv_Cons)
  next
    case False
    with Suc ab d show ?thesis by (simp add: upt_conv_Cons)
  qed
qed

text \<open>The copy loop moves the live entries at or behind \<open>i\<close> down to \<open>off\<close>.\<close>

lemma compact_loop:
  assumes "off \<le> i" "i \<le> n" "n \<le> vec_capacity m"
  shows "\<exists>m'. fold compact_step [i..<n] (m, off) = (m', off + length (live (drop i (take n (vec m))))) \<and>
     take (off + length (live (drop i (take n (vec m))))) (vec m') =
       take off (vec m) @ map Some (live (drop i (take n (vec m)))) \<and>
     vec_capacity m' = vec_capacity m \<and> mcnt m' = mcnt m \<and> vec_offset m' = vec_offset m"
  using assms
proof (induction "n - i" arbitrary: i off m)
  case 0
  then show ?case by (simp add: upt_rec)
next
  case (Suc k)
  then have i: "i < n" by simp
  have d: "drop i (take n (vec m)) = vec m ! i # drop (Suc i) (take n (vec m))"
    using Suc.prems i by (subst Cons_nth_drop_Suc [symmetric]) auto
  show ?case
  proof (cases "vec m ! i")
    case None
    with Suc.hyps(1) [of "Suc i" off m] Suc.hyps(2) Suc.prems i d show ?thesis
      by (simp add: upt_conv_Cons)
  next
    case (Some e)
    let ?m = "m\<lparr>vec := (vec m)[off := Some e], table := (table m)[toff e := Slot off]\<rparr>"
    have same: "drop (Suc i) (take n ((vec m)[off := Some e])) = drop (Suc i) (take n (vec m))"
      using Suc.prems(1) i by (simp add: take_update_swap)
    have tk: "take (Suc off) ((vec m)[off := Some e]) = take off (vec m) @ [Some e]"
      using Suc.prems i by (simp add: take_Suc_conv_app_nth)
    from Suc.hyps(1) [of "Suc i" "Suc off" ?m] Suc.hyps(2) Suc.prems i same tk
    show ?thesis using Some d by (simp add: upt_conv_Cons)
  qed
qed

lemma compact_vec:
  assumes "mcnt m \<noteq> vec_offset m" "None \<in> set (take (vec_offset m) (vec m))"
    "vec_offset m \<le> vec_capacity m"
  shows "take (vec_offset (handlebars_map_sparse_array_compact m)) (vec (handlebars_map_sparse_array_compact m))
      = compact_spec (take (vec_offset m) (vec m))"
proof -
  let ?n = "vec_offset m" and ?xs = "take (vec_offset m) (vec m)"
  let ?k = "length (takeWhile (\<lambda>x. x \<noteq> None) ?xs)"
  have scan: "compact_scan m [0..<?n] = (Suc ?k, 1)"
    using compact_scan_eq [of 0 ?n m] assms(2,3) by simp
  have "?k < length ?xs"
    using assms(2) by (rule length_takeWhile_stop) simp
  then have k: "Suc ?k \<le> ?n" using assms(3) by simp
  obtain m' where m': "fold compact_step [Suc ?k..<?n] (m, 1) = (m', 1 + length (live (drop (Suc ?k) ?xs)))"
      "take (1 + length (live (drop (Suc ?k) ?xs))) (vec m') = take 1 (vec m) @ map Some (live (drop (Suc ?k) ?xs))"
    using compact_loop [of 1 "Suc ?k" ?n m] k assms(3) by auto
  have "take 1 ?xs = take 1 (vec m)" using k by (simp add: min_def)
  with m' scan assms(1) show ?thesis
    by (simp add: handlebars_map_sparse_array_compact_def compact_spec_def Let_def)
qed

text \<open>
  The entries between the first and the first tombstone are lost; so none is lost exactly when at most
  one entry precedes the first tombstone.
\<close>

lemma compact_spec_split:
  assumes "\<forall>x \<in> set pre. x \<noteq> None"
  shows "compact_spec (pre @ None # post) = take 1 (pre @ [None]) @ map Some (live post)"
proof -
  have "takeWhile (\<lambda>x. x \<noteq> None) (pre @ None # post) = pre"
    using assms by (simp add: takeWhile_append)
  moreover have "take 1 (pre @ None # post) = take 1 (pre @ [None])"
    by (cases pre) auto
  ultimately show ?thesis unfolding compact_spec_def Let_def by simp
qed

lemma live_pre: "\<forall>x \<in> set pre. x \<noteq> None \<Longrightarrow> length (live pre) = length pre"
  by (auto simp: length_live_eq)

lemma compact_spec_lost:
  assumes "None \<in> set xs"
  shows "length (live xs) = length (live (compact_spec xs)) + (length (takeWhile (\<lambda>x. x \<noteq> None) xs) - 1)"
proof -
  obtain pre post where xs: "xs = pre @ None # post" "\<forall>x \<in> set pre. x \<noteq> None"
    using split_list_first [OF assms] by metis
  then have tw: "takeWhile (\<lambda>x. x \<noteq> None) xs = pre" by (simp add: takeWhile_append)
  show ?thesis
  proof (cases pre)
    case Nil
    then show ?thesis using xs compact_spec_split [of pre post] by (simp add: live_def)
  next
    case (Cons p ps)
    then obtain a where "p = Some a" using xs(2) by auto
    with Cons show ?thesis
      using compact_spec_split [OF xs(2), of post] live_pre [OF xs(2)] tw xs(1) by simp
  qed
qed

lemma compact_spec_live:
  assumes "None \<in> set xs"
  shows "live (compact_spec xs) = live xs \<longleftrightarrow> length (takeWhile (\<lambda>x. x \<noteq> None) xs) \<le> 1"
proof
  assume "live (compact_spec xs) = live xs"
  then show "length (takeWhile (\<lambda>x. x \<noteq> None) xs) \<le> 1" using compact_spec_lost [OF assms] by simp
next
  assume le: "length (takeWhile (\<lambda>x. x \<noteq> None) xs) \<le> 1"
  obtain pre post where xs: "xs = pre @ None # post" "\<forall>x \<in> set pre. x \<noteq> None"
    using split_list_first [OF assms] by metis
  then have "length pre \<le> 1" using le by (simp add: takeWhile_append)
  then have "take 1 (pre @ [None]) = (if pre = [] then [None] else pre)" by (cases pre) auto
  then show "live (compact_spec xs) = live xs"
    using compact_spec_split [OF xs(2), of post] xs(1) by auto
qed

lemma sparse_has_tombstone:
  assumes "hmap_ok H m"
  shows "handlebars_map_is_sparse m \<longleftrightarrow> None \<in> set (take (vec_offset m) (vec m))"
  using assms length_live_eq [of "take (vec_offset m) (vec m)"]
  by (auto simp: handlebars_map_is_sparse_def hmap_ok_def hm_items_def)

section \<open>Properties\<close>

text \<open>Compaction of a sparse map keeps exactly the entries in the first slot and behind the first
  tombstone: with k entries before the first tombstone the vector loses k - 1 of them, and none if and
  only if k is at most 1.\<close>
theorem compact_loses_entries:
  assumes "hmap_ok H m" "handlebars_map_is_sparse m"
    and "xs = take (vec_offset m) (vec m)" "m' = handlebars_map_sparse_array_compact m"
  shows "length (hm_items m) = length (hm_items m') + (length (takeWhile (\<lambda>x. x \<noteq> None) xs) - 1) \<and>
     (hm_items m' = hm_items m \<longleftrightarrow> length (takeWhile (\<lambda>x. x \<noteq> None) xs) \<le> 1)"
proof -
  have none: "None \<in> set xs" using assms sparse_has_tombstone by blast
  have "take (vec_offset m') (vec m') = compact_spec xs"
    using assms none compact_vec [of m] by (auto simp: handlebars_map_is_sparse_def hmap_ok_def)
  then have items: "hm_items m' = map (\<lambda>e. (ekey e, evalue e)) (live (compact_spec xs))"
    "hm_items m = map (\<lambda>e. (ekey e, evalue e)) (live xs)"
    using assms(3) by (simp_all add: hm_items_def)
  have lost: "length (hm_items m) = length (hm_items m') + (length (takeWhile (\<lambda>x. x \<noteq> None) xs) - 1)"
    using compact_spec_lost [OF none] by (simp add: items)
  have "hm_items m' = hm_items m" if "length (takeWhile (\<lambda>x. x \<noteq> None) xs) \<le> 1"
    using compact_spec_live [OF none] that by (simp add: items)
  with lost show ?thesis by auto
qed

theorem compact_loses_entries_witness:
  "length (hm_items sample_map) = 3 \<and>
   length (hm_items (handlebars_map_sparse_array_compact sample_map)) = 2 \<and>
   hm_items (handlebars_map_sparse_array_compact sample_map) \<noteq> hm_items sample_map"
proof -
  have sp: "handlebars_map_is_sparse sample_map" by (simp add: handlebars_map_is_sparse_def sample_map_def)
  have "length (takeWhile (\<lambda>x. x \<noteq> None) (take (vec_offset sample_map) (vec sample_map))) = 2"
    by (simp add: sample_map_def)
  then show ?thesis
    using compact_loses_entries [OF sample_map_ok sp refl refl] sample_items by auto
qed

text \<open>The slots of removed entries are never used again: once no slot of the table is empty, adding an
  absent key throws, however many of the slots are tombstones and though the vector has room.\<close>
theorem tombstones_not_reused:
  assumes "table_links m" "\<forall>p < table_capacity m. table m ! p \<noteq> Empty" "0 < table_capacity m"
    and "\<forall>j < vec_offset m. \<forall>e. vec m ! j = Some e \<longrightarrow> \<not> handlebars_string_eq H (ekey e) key"
    and "mrc m \<le> 1" "vec_offset m < vec_capacity m" "handlebars_map_load_factor m \<le> 60"
  shows "handlebars_map_add H m key v = Inl (Throw HANDLEBARS_ERROR ''Failed to add to hash table'')"
proof -
  let ?ps = "map (probe H m key) [0..<table_capacity m]"
  have "passes H m key p" if "p \<in> set ?ps" for p
  proof (rule nonempty_passes [OF assms(1)])
    show p: "p < table_capacity m" using that probe_less [OF assms(3), of H key] by auto
    show "table m ! p \<noteq> Empty" using assms(2) p by simp
    show "kid H (ekey e) \<noteq> kid H key" if "table m ! p = Slot j" "vec m ! j = Some e" for j e
      using that p assms(1,4) by (auto simp: table_links_def string_eq_kid)
  qed
  then obtain r where "map_find_entry H m key = Inr r" "\<not> empty_found r" "fentry r = None"
    using find_loop_passes [of ?ps H m key "[]" find_result0]
    by (auto simp: map_find_entry_def find_result0_def)
  moreover have "\<not> 1 < mrc m" using assms(5) by (simp add: not_less)
  then have "handlebars_map_rehash H False m = Inr m"
    using assms(6,7) by (simp add: handlebars_map_rehash_def numeral_2_eq_2 rehash_fuel.simps Let_def)
  ultimately show ?thesis by (simp add: handlebars_map_add_def add_with_def)
qed

text \<open>
  Such a table is reached by a map that keeps one entry while others come and go, with a compaction (an
  iteration) in between.
\<close>

definition churn :: "nat \<Rightarrow> nat hmap \<Rightarrow> hbs_error + nat hmap" where
  "churn n m =
     ebind (handlebars_map_add sample_hash m (ekey (sample_entry n n)) n) (\<lambda>m1.
     ebind (handlebars_map_remove sample_hash m1 (ekey (sample_entry n n))) (\<lambda>m2.
       Inr (handlebars_map_sparse_array_compact m2)))"

definition churned :: "nat \<Rightarrow> hbs_error + nat hmap" where
  "churned n =
     ebind (handlebars_map_ctor 2) (\<lambda>m0.
     ebind (handlebars_map_add sample_hash m0 (ekey (sample_entry 1 1)) 1) (efold churn [2..<n]))"

definition full_map :: "nat hmap" where
  "full_map = \<lparr>mrc = 0, mcnt = 1, table = Tomb # Slot 0 # replicate 9 Tomb,
     vec = Some (sample_entry 1 1) # replicate 3 None, vec_offset = 1, is_in_iteration = False\<rparr>"

lemma churned_full: "churned 12 = Inr full_map"
  by code_simp

theorem tombstones_not_reused_witness:
  "ebind (churned 12) (\<lambda>m. handlebars_map_add sample_hash m (ekey (sample_entry 12 0)) 5)
     = Inl (Throw HANDLEBARS_ERROR ''Failed to add to hash table'')"
proof -
  have "table_links full_map"
    by (simp add: table_links_def all_less_upt full_map_def sample_entry_def upt_rec nth_Cons')
  moreover have "\<forall>p < table_capacity full_map. table full_map ! p \<noteq> Empty"
    by (simp add: full_map_def nth_Cons')
  moreover have "\<forall>j < vec_offset full_map. \<forall>e. vec full_map ! j = Some e \<longrightarrow>
      \<not> handlebars_string_eq sample_hash (ekey e) (ekey (sample_entry 12 0))"
    by (simp add: full_map_def string_eq_kid sample_kid)
  moreover have "mrc full_map \<le> 1" "vec_offset full_map < vec_capacity full_map" "0 < table_capacity full_map"
    "handlebars_map_load_factor full_map \<le> 60"
    by (simp_all add: full_map_def handlebars_map_load_factor_def)
  ultimately show ?thesis
    using tombstones_not_reused [of full_map sample_hash "ekey (sample_entry 12 0)" 5]
    by (simp add: churned_full)
qed

end
