(* ===== verification/VStack.thy ===== *)
theory VStack
  imports Prelude
begin

unbundle bit_operations_syntax

text \<open>
  The value stack of src/handlebars_stack.c. The record has the fields of \<open>struct handlebars_stack\<close>: the
  reference count, the elements \<open>v[0..i-1]\<close> as a list (so \<open>i\<close> is its length), the capacity, the flag that
  tells a heap stack (which may grow) from one in the caller's frame (which may not), and the number of
  elements protected from popping and setting. Values are a type parameter; copying a value is the
  identity.
\<close>

section \<open>State and operations\<close>

record 'v vstack =
  krc :: u8
  kv :: "'v list"
  kcap :: nat
  ktalloc :: bool
  kprotect :: nat

definition handlebars_stack_size :: "nat \<Rightarrow> nat \<Rightarrow> nat \<Rightarrow> nat" where
  "handlebars_stack_size sz_stack sz_value capacity = sz_stack + sz_value * (capacity + 1)"

definition handlebars_stack_init :: "nat \<Rightarrow> 'v vstack" where
  "handlebars_stack_init elem = \<lparr>krc = 0, kv = [], kcap = elem, ktalloc = False, kprotect = 0\<rparr>"

definition handlebars_stack_ctor :: "nat \<Rightarrow> 'v vstack" where
  "handlebars_stack_ctor capacity = \<lparr>krc = 0, kv = [], kcap = capacity, ktalloc = True, kprotect = 0\<rparr>"

text \<open>The copy has the elements, but neither the protection nor the references of the original.\<close>

definition handlebars_stack_copy_ctor :: "'v vstack \<Rightarrow> nat \<Rightarrow> 'v vstack" where
  "handlebars_stack_copy_ctor prev new_capacity =
     (let cap = (if new_capacity < length (kv prev) then length (kv prev) else new_capacity)
      in (handlebars_stack_ctor cap)\<lparr>kv := kv prev\<rparr>)"

definition stack_separate :: "'v vstack \<Rightarrow> hbs_error + 'v vstack" where
  "stack_separate s =
     (if krc s > 1 then
        if \<not> ktalloc s then Inl (Throw HANDLEBARS_STACK_OVERFLOW ''Stack overflow'')
        else Inr ((handlebars_stack_copy_ctor s (kcap s))\<lparr>krc := 1\<rparr>)
      else Inr s)"

definition handlebars_stack_count :: "'v vstack \<Rightarrow> nat" where
  "handlebars_stack_count s = length (kv s)"

text \<open>
  A push writes \<open>v[i]\<close>; the allocation holds \<open>capacity + 1\<close> elements.
\<close>

definition handlebars_stack_push :: "'v vstack \<Rightarrow> 'v \<Rightarrow> hbs_error + 'v vstack" where
  "handlebars_stack_push s value =
     ebind (if kcap s > length (kv s) then stack_separate s
            else if \<not> ktalloc s then Inl (Throw HANDLEBARS_STACK_OVERFLOW ''Stack overflow'')
            else Inr ((handlebars_stack_copy_ctor s ((kcap s OR 3) * 3 div 2))\<lparr>krc := 1\<rparr>))
       (\<lambda>s1. if length (kv s1) > kcap s1 then Inl Mem_error
             else Inr (s1\<lparr>kv := kv s1 @ [value]\<rparr>))"

definition handlebars_stack_pop :: "'v vstack \<Rightarrow> hbs_error + 'v option \<times> 'v vstack" where
  "handlebars_stack_pop s =
     (if kv s = [] then Inr (None, s)
      else if krc s > 1 then
        Inl (Throw HANDLEBARS_ERROR ''Attempting to pop protected stack with refcount > 1'')
      else if length (kv s) < kprotect s then
        Inl (Throw HANDLEBARS_STACK_OVERFLOW ''Attempting to pop protected stack segment'')
      else Inr (Some (last (kv s)), s\<lparr>kv := butlast (kv s)\<rparr>))"

definition handlebars_stack_top :: "'v vstack \<Rightarrow> 'v option" where
  "handlebars_stack_top s = (if kv s = [] then None else Some (kv s ! (length (kv s) - 1)))"

definition handlebars_stack_get :: "'v vstack \<Rightarrow> nat \<Rightarrow> 'v option" where
  "handlebars_stack_get s offset = (if offset \<ge> length (kv s) then None else Some (kv s ! offset))"

text \<open>The case of a value that is the element itself is the write of the same value.\<close>

definition handlebars_stack_set :: "'v vstack \<Rightarrow> nat \<Rightarrow> 'v \<Rightarrow> hbs_error + 'v vstack" where
  "handlebars_stack_set s offset value =
     (if offset = length (kv s) then handlebars_stack_push s value
      else
        ebind (stack_separate s) (\<lambda>s1.
          if offset \<ge> length (kv s1) then Inl (Throw HANDLEBARS_STACK_OVERFLOW ''Out-of-bounds'')
          else if offset < kprotect s1 then
            Inl (Throw HANDLEBARS_STACK_OVERFLOW ''Attempting to set protected stack segment'')
          else Inr (s1\<lparr>kv := (kv s1)[offset := value]\<rparr>)))"

definition handlebars_stack_protect :: "'v vstack \<Rightarrow> nat \<Rightarrow> nat \<times> 'v vstack" where
  "handlebars_stack_protect s num = (kprotect s, s\<lparr>kprotect := num\<rparr>)"

function handlebars_stack_truncate :: "'v vstack \<Rightarrow> nat \<Rightarrow> hbs_error + 'v vstack" where
  "handlebars_stack_truncate s num =
     (if handlebars_stack_count s > num
      then ebind (handlebars_stack_pop s) (\<lambda>p. handlebars_stack_truncate (snd p) num)
      else Inr s)"
  by pat_completeness auto

termination
  by (relation "measure (\<lambda>(s, num). length (kv s))")
    (auto simp: handlebars_stack_count_def handlebars_stack_pop_def split: if_splits)

declare handlebars_stack_truncate.simps [simp del]

record handlebars_stack_save_buf =
  bcount :: nat
  bprotect :: nat

definition handlebars_stack_save :: "'v vstack \<Rightarrow> handlebars_stack_save_buf \<times> 'v vstack" where
  "handlebars_stack_save s =
     (let c = handlebars_stack_count s; (p, s1) = handlebars_stack_protect s c
      in (\<lparr>bcount = c, bprotect = p\<rparr>, s1))"

definition handlebars_stack_restore :: "'v vstack \<Rightarrow> handlebars_stack_save_buf \<Rightarrow> hbs_error + 'v vstack" where
  "handlebars_stack_restore s buf =
     handlebars_stack_truncate (snd (handlebars_stack_protect s (bprotect buf))) (bcount buf)"

section \<open>The stack interface\<close>

text \<open>
  What the compiler and the VM use: a container with a list of elements; \<open>ok\<close> is its invariant, \<open>grows\<close>
  says that a push has room or can make it.
\<close>

locale lifo =
  fixes elems :: "'s \<Rightarrow> 'v list"
    and ok :: "'s \<Rightarrow> bool"
    and grows :: "'s \<Rightarrow> bool"
    and push :: "'s \<Rightarrow> 'v \<Rightarrow> hbs_error + 's"
    and pop :: "'s \<Rightarrow> hbs_error + 'v option \<times> 's"
  assumes push_law: "ok s \<Longrightarrow> grows s \<Longrightarrow> \<exists>t. push s x = Inr t \<and> ok t \<and> elems t = elems s @ [x]"
    and push_grows: "ok s \<Longrightarrow> grows s \<Longrightarrow> push s x = Inr t \<Longrightarrow> grows t"
    and pop_pushed: "ok s \<Longrightarrow> grows s \<Longrightarrow> push s x = Inr t \<Longrightarrow>
        \<exists>u. pop t = Inr (Some x, u) \<and> ok u \<and> elems u = elems s"
begin

lemma push_total:
  assumes "ok s" "grows s"
  obtains t where "push s x = Inr t" "ok t" "grows t" "elems t = elems s @ [x]"
  using push_law [OF assms] push_grows [OF assms] by blast

lemma push_many:
  "ok s \<Longrightarrow> grows s \<Longrightarrow> \<exists>t. efold (\<lambda>x s. push s x) xs s = Inr t \<and> ok t \<and> grows t \<and> elems t = elems s @ xs"
proof (induction xs arbitrary: s)
  case (Cons x xs)
  obtain t where "push s x = Inr t" "ok t" "grows t" "elems t = elems s @ [x]"
    using Cons.prems by (rule push_total)
  with Cons.IH [of t] show ?case by auto
qed simp

end

definition vstack_ok :: "'v vstack \<Rightarrow> bool" where
  "vstack_ok s \<longleftrightarrow> length (kv s) \<le> kcap s \<and> kprotect s \<le> length (kv s)"

definition vstack_grows :: "'v vstack \<Rightarrow> bool" where
  "vstack_grows s \<longleftrightarrow> ktalloc s"

lemma grown_capacity: "n < (n OR 3) * 3 div (2::nat)"
  using or3_ge [of n] by linarith

lemma push_ok:
  assumes "vstack_ok s" "ktalloc s \<or> krc s \<le> 1 \<and> length (kv s) < kcap s"
  shows "\<exists>t. handlebars_stack_push s x = Inr t \<and> vstack_ok t \<and> kv t = kv s @ [x] \<and> krc t \<le> 1 \<and>
     ktalloc t = ktalloc s \<and> kprotect t \<le> length (kv s)"
proof (cases "kcap s > length (kv s)")
  case True
  show ?thesis
  proof (cases "krc s > 1")
    case shared: True
    then have "\<not> krc s \<le> 1" by simp
    then show ?thesis
      using True shared assms
      by (auto simp: handlebars_stack_push_def stack_separate_def handlebars_stack_copy_ctor_def
          handlebars_stack_ctor_def vstack_ok_def Let_def)
  next
    case False
    then show ?thesis
      using True assms by (auto simp: handlebars_stack_push_def stack_separate_def vstack_ok_def not_less)
  qed
next
  case False
  then have "ktalloc s" using assms by auto
  then show ?thesis
    using False assms grown_capacity [of "kcap s"]
    by (auto simp: handlebars_stack_push_def handlebars_stack_copy_ctor_def handlebars_stack_ctor_def
        vstack_ok_def Let_def)
qed

interpretation vstack: lifo kv vstack_ok vstack_grows handlebars_stack_push handlebars_stack_pop
proof unfold_locales
  fix s :: "'v vstack" and x assume a: "vstack_ok s" "vstack_grows s"
  then obtain t where t: "handlebars_stack_push s x = Inr t" "vstack_ok t" "kv t = kv s @ [x]" "krc t \<le> 1"
      "ktalloc t" "kprotect t \<le> length (kv s)"
    using push_ok [of s x] by (auto simp: vstack_grows_def)
  then show "\<exists>t. handlebars_stack_push s x = Inr t \<and> vstack_ok t \<and> kv t = kv s @ [x]" by blast
  fix t' assume "handlebars_stack_push s x = Inr t'"
  with t have t': "t' = t" by simp
  with t show "vstack_grows t'" by (simp add: vstack_grows_def)
  have "\<not> krc t > 1" using t(4) by (simp add: not_less)
  then show "\<exists>u. handlebars_stack_pop t' = Inr (Some x, u) \<and> vstack_ok u \<and> kv u = kv s"
    using t t' by (auto simp: handlebars_stack_pop_def vstack_ok_def)
qed

section \<open>Truncation and nested use\<close>

lemma truncate_ok:
  "\<not> krc s > 1 \<Longrightarrow> kprotect s \<le> num + 1 \<Longrightarrow>
     handlebars_stack_truncate s num = Inr (s\<lparr>kv := take num (kv s)\<rparr>)"
proof (induction "length (kv s)" arbitrary: s)
  case 0
  then show ?case by (subst handlebars_stack_truncate.simps) (simp add: handlebars_stack_count_def)
next
  case (Suc n)
  show ?case
  proof (cases "length (kv s) > num")
    case True
    let ?s = "s\<lparr>kv := butlast (kv s)\<rparr>"
    have "handlebars_stack_pop s = Inr (Some (last (kv s)), ?s)"
      using Suc.hyps(2) Suc.prems True by (auto simp: handlebars_stack_pop_def)
    moreover have "handlebars_stack_truncate ?s num = Inr (?s\<lparr>kv := take num (kv ?s)\<rparr>)"
      by (rule Suc.hyps(1)) (use Suc.hyps(2) Suc.prems in auto)
    moreover have "take num (butlast (kv s)) = take num (kv s)"
      using True by (simp add: take_butlast)
    ultimately show ?thesis
      using True by (subst handlebars_stack_truncate.simps) (simp add: handlebars_stack_count_def)
  next
    case False
    then show ?thesis by (subst handlebars_stack_truncate.simps) (simp add: handlebars_stack_count_def)
  qed
qed

text \<open>
  The uses of a stack while a program runs (\<open>handlebars_vm_execute_program_ex\<close> and the opcodes it executes): a push, a
  pop, and a nested program between its own save and restore.
\<close>

datatype 'v stack_use = Use_push 'v | Use_pop | Use_nested "'v stack_use list"

fun use_stack :: "'v stack_use list \<Rightarrow> 'v vstack \<Rightarrow> hbs_error + 'v vstack" where
  "use_stack [] s = Inr s"
| "use_stack (Use_push x # us) s = ebind (handlebars_stack_push s x) (use_stack us)"
| "use_stack (Use_pop # us) s = ebind (handlebars_stack_pop s) (\<lambda>p. use_stack us (snd p))"
| "use_stack (Use_nested vs # us) s =
     (let (buf, s1) = handlebars_stack_save s
      in ebind (use_stack vs s1) (\<lambda>t. ebind (handlebars_stack_restore t buf) (use_stack us)))"

text \<open>No pop takes what was on the stack before; \<open>d\<close> counts the elements above that mark.\<close>

fun balanced :: "nat \<Rightarrow> 'v stack_use list \<Rightarrow> bool" where
  "balanced d [] \<longleftrightarrow> True"
| "balanced d (Use_push x # us) \<longleftrightarrow> balanced (Suc d) us"
| "balanced d (Use_pop # us) \<longleftrightarrow> 0 < d \<and> balanced (d - 1) us"
| "balanced d (Use_nested vs # us) \<longleftrightarrow> balanced 0 vs \<and> balanced d us"

text \<open>The state above a mark, and what uses may end with.\<close>

definition above_mark :: "'v list \<Rightarrow> bool \<Rightarrow> 'v vstack \<Rightarrow> bool" where
  "above_mark vs heap s \<longleftrightarrow> vstack_ok s \<and> krc s \<le> 1 \<and> ktalloc s = heap \<and> kprotect s \<le> length vs \<and>
     length vs \<le> length (kv s) \<and> take (length vs) (kv s) = vs"

definition used :: "'v list \<Rightarrow> bool \<Rightarrow> hbs_error + 'v vstack \<Rightarrow> bool" where
  "used vs heap r \<longleftrightarrow>
     (case r of Inl e \<Rightarrow> \<not> heap \<and> e = Throw HANDLEBARS_STACK_OVERFLOW ''Stack overflow'' | Inr t \<Rightarrow> above_mark vs heap t)"

lemma used_bind:
  "used vs heap r \<Longrightarrow> (\<And>t. r = Inr t \<Longrightarrow> above_mark vs heap t \<Longrightarrow> used ws heap (f t)) \<Longrightarrow> used ws heap (ebind r f)"
  by (cases r) (auto simp: used_def)

lemma push_used:
  assumes "above_mark vs heap s"
  shows "used vs heap (handlebars_stack_push s x) \<and> (\<forall>t. handlebars_stack_push s x = Inr t \<longrightarrow> kv t = kv s @ [x])"
proof (cases "ktalloc s \<or> krc s \<le> 1 \<and> length (kv s) < kcap s")
  case True
  obtain t where "handlebars_stack_push s x = Inr t" "vstack_ok t" "kv t = kv s @ [x]" "krc t \<le> 1"
      "ktalloc t = ktalloc s" "kprotect t \<le> length (kv s)" "kprotect t \<le> kprotect s"
    using push_ok [of s x] True assms
    by (fastforce simp: above_mark_def handlebars_stack_push_def stack_separate_def handlebars_stack_copy_ctor_def
        handlebars_stack_ctor_def Let_def split: if_splits)
  then show ?thesis using assms by (auto simp: used_def above_mark_def)
next
  case False
  then have "handlebars_stack_push s x = Inl (Throw HANDLEBARS_STACK_OVERFLOW ''Stack overflow'')"
    using assms by (auto simp: handlebars_stack_push_def above_mark_def)
  then show ?thesis using False assms by (simp add: used_def above_mark_def)
qed

lemma pop_above:
  assumes "above_mark vs heap s" "length vs < length (kv s)"
  shows "\<exists>x t. handlebars_stack_pop s = Inr (x, t) \<and> above_mark vs heap t \<and> kv t = butlast (kv s)"
  using assms
  by (auto simp: above_mark_def handlebars_stack_pop_def vstack_ok_def take_butlast not_less)

lemma save_ok:
  "vstack_ok s \<Longrightarrow> krc s \<le> 1 \<Longrightarrow> handlebars_stack_save s = (buf, s1) \<Longrightarrow> above_mark (kv s) (ktalloc s) s1 \<and> kv s1 = kv s"
  by (auto simp: handlebars_stack_save_def handlebars_stack_protect_def handlebars_stack_count_def vstack_ok_def
      above_mark_def Let_def)

lemma restore_ok:
  assumes "vstack_ok s" "handlebars_stack_save s = (buf, s1)" "above_mark (kv s) heap t"
  shows "\<exists>u. handlebars_stack_restore t buf = Inr u \<and> kv u = kv s \<and> kprotect u = kprotect s \<and> vstack_ok u \<and>
    krc u \<le> 1 \<and> ktalloc u = heap"
proof -
  have buf: "bcount buf = length (kv s)" "bprotect buf = kprotect s"
    using assms(2) by (auto simp: handlebars_stack_save_def handlebars_stack_protect_def handlebars_stack_count_def Let_def)
  have t: "\<not> krc (t\<lparr>kprotect := kprotect s\<rparr>) > 1" "kprotect s \<le> length (kv s)"
    using assms(1,3) by (auto simp: above_mark_def vstack_ok_def not_less)
  then have "handlebars_stack_restore t buf = Inr (t\<lparr>kprotect := kprotect s, kv := kv s\<rparr>)"
    using truncate_ok [of "t\<lparr>kprotect := kprotect s\<rparr>" "length (kv s)"] assms(3)
    by (simp add: handlebars_stack_restore_def handlebars_stack_protect_def buf above_mark_def)
  then show ?thesis using assms(3) t by (auto simp: above_mark_def vstack_ok_def)
qed

lemma use_stack_ok:
  "balanced (length (kv s) - length vs) us \<Longrightarrow> above_mark vs heap s \<Longrightarrow> used vs heap (use_stack us s)"
proof (induction us s arbitrary: vs rule: use_stack.induct)
  case (2 x us s)
  have len: "length (kv s) - length vs + 1 = length (kv s @ [x]) - length vs" using 2(3) by (auto simp: above_mark_def)
  show ?case
    using push_used [OF 2(3), of x] 2(1,2) len by (auto intro!: used_bind)
next
  case (3 us s)
  have "length vs < length (kv s)" using 3(2) by simp
  from pop_above [OF 3(3) this] show ?case using 3(1,2) by (auto simp: diff_right_commute)
next
  case (4 ws us s)
  obtain buf s1 where sv: "handlebars_stack_save s = (buf, s1)" by fastforce
  have ok: "vstack_ok s" "krc s \<le> 1" "ktalloc s = heap" using 4(4) by (auto simp: above_mark_def)
  have s1: "above_mark (kv s) heap s1" "kv s1 = kv s" using save_ok [OF ok(1,2) sv] ok(3) by auto
  have "used (kv s) heap (use_stack ws s1)" using 4(1) [OF sv [symmetric] refl, of "kv s"] s1 4(3) by simp
  then have "used vs heap (ebind (use_stack ws s1) (\<lambda>t. ebind (handlebars_stack_restore t buf) (use_stack us)))"
  proof (rule used_bind)
    fix t assume t: "use_stack ws s1 = Inr t" "above_mark (kv s) heap t"
    obtain u where u: "handlebars_stack_restore t buf = Inr u" "kv u = kv s" "kprotect u = kprotect s" "vstack_ok u"
        "krc u \<le> 1" "ktalloc u = heap"
      using restore_ok [OF ok(1) sv t(2)] by blast
    have "above_mark vs heap u" using 4(4) u(2-) by (simp add: above_mark_def)
    then show "used vs heap (ebind (handlebars_stack_restore t buf) (use_stack us))"
      using 4(2) [OF sv [symmetric] refl, of t u vs] 4(3) t(1) u(1,2) by simp
  qed
  then show ?case by (simp add: sv)
qed (simp_all add: used_def)

section \<open>Properties\<close>

text \<open>Pushing onto a heap stack always succeeds, growing or separating the stack as needed, and popping gives
  back the value and the elements below it; on a stack in the caller's frame a push throws exactly when the
  stack is full or shared.\<close>
theorem stack_push_pop:
  assumes "vstack_ok s"
  shows "if ktalloc s \<or> krc s \<le> 1 \<and> length (kv s) < kcap s
     then \<exists>t u. handlebars_stack_push s x = Inr t \<and> kv t = kv s @ [x] \<and> vstack_ok t \<and>
            handlebars_stack_pop t = Inr (Some x, u) \<and> kv u = kv s
     else handlebars_stack_push s x = Inl (Throw HANDLEBARS_STACK_OVERFLOW ''Stack overflow'')"
proof (cases "ktalloc s \<or> krc s \<le> 1 \<and> length (kv s) < kcap s")
  case True
  obtain t where t: "handlebars_stack_push s x = Inr t" "vstack_ok t" "kv t = kv s @ [x]" "krc t \<le> 1"
    using push_ok [OF assms True] by blast
  then have "\<not> krc t > 1" by (simp add: not_less)
  with t True show ?thesis by (auto simp: handlebars_stack_pop_def vstack_ok_def)
next
  case False
  then show ?thesis
    by (auto simp: handlebars_stack_push_def stack_separate_def not_le)
qed

theorem stack_push_pop_witness:
  "\<exists>t u. handlebars_stack_push ((handlebars_stack_ctor 1)\<lparr>kv := [4::nat], krc := 3\<rparr>) 5 = Inr t \<and> kv t = [4, 5] \<and>
     handlebars_stack_pop t = Inr (Some 5, u) \<and> kv u = [4]"
  using stack_push_pop [of "(handlebars_stack_ctor 1)\<lparr>kv := [4::nat], krc := 3\<rparr>" 5]
  by (auto simp: handlebars_stack_ctor_def vstack_ok_def)

text \<open>C36. What the VM does with a stack while a program runs: pushes, pops of what was pushed since the save, and
  nested programs with their own save and restore. If nothing throws, the restore gives back the elements at the
  time of the save and the protection then in force; only a stack in the caller's frame throws, when it is full.
  (That the pops stay above the mark is a hypothesis: the protection does not enforce it, see
  \<open>stack_protection_leaks\<close>.)\<close>
theorem stack_save_restore:
  assumes "vstack_ok s" "krc s \<le> 1" "handlebars_stack_save s = (buf, s1)" "balanced 0 us"
  shows "case use_stack us s1 of
       Inl e \<Rightarrow> \<not> ktalloc s \<and> e = Throw HANDLEBARS_STACK_OVERFLOW ''Stack overflow''
     | Inr t \<Rightarrow> take (length (kv s)) (kv t) = kv s \<and>
         (\<exists>u. handlebars_stack_restore t buf = Inr u \<and> kv u = kv s \<and> kprotect u = kprotect s \<and> vstack_ok u)"
proof -
  have "used (kv s) (ktalloc s) (use_stack us s1)"
    using use_stack_ok [of s1 "kv s" us] save_ok [OF assms(1-3)] assms(4) by simp
  then show ?thesis
    using restore_ok [OF assms(1,3)] by (cases "use_stack us s1") (fastforce simp: used_def above_mark_def)+
qed

text \<open>A stack of four in the caller's frame: it holds the uses, and overflows at a fifth element.\<close>

definition stack_sample :: "nat vstack" where
  "stack_sample = (handlebars_stack_init 4)\<lparr>kv := [4, 5]\<rparr>"

theorem stack_save_restore_witness:
  "\<exists>buf s1 t u. handlebars_stack_save stack_sample = (buf, s1) \<and>
     use_stack [Use_push 6, Use_nested [Use_push 7, Use_pop], Use_push 8, Use_pop] s1 = Inr t \<and> kv t = [4, 5, 6] \<and>
     handlebars_stack_restore t buf = Inr u \<and> kv u = [4, 5] \<and>
     use_stack [Use_push 6, Use_push 7, Use_push 8] s1 = Inl (Throw HANDLEBARS_STACK_OVERFLOW ''Stack overflow'')"
proof -
  let ?us = "[Use_push 6, Use_nested [Use_push 7, Use_pop], Use_push 8, Use_pop]"
  have ok: "vstack_ok stack_sample" "krc stack_sample \<le> 1"
    by (simp_all add: stack_sample_def handlebars_stack_init_def vstack_ok_def)
  obtain buf s1 where sv: "handlebars_stack_save stack_sample = (buf, s1)" by fastforce
  then have s1: "s1 = stack_sample\<lparr>kprotect := 2\<rparr>"
    by (auto simp: handlebars_stack_save_def handlebars_stack_protect_def handlebars_stack_count_def
        handlebars_stack_init_def stack_sample_def Let_def)
  note ops = handlebars_stack_push_def handlebars_stack_pop_def stack_separate_def handlebars_stack_init_def stack_sample_def
  obtain t where run: "use_stack ?us s1 = Inr t" "kv t = [4, 5, 6]"
    by (simp add: s1 ops handlebars_stack_save_def handlebars_stack_restore_def handlebars_stack_protect_def
        handlebars_stack_count_def handlebars_stack_truncate.simps Let_def)
  have full: "use_stack [Use_push 6, Use_push 7, Use_push 8] s1 = Inl (Throw HANDLEBARS_STACK_OVERFLOW ''Stack overflow'')"
    by (simp add: s1 ops)
  have "balanced 0 ?us" by simp
  from stack_save_restore [OF ok sv this] run(1) obtain u where "handlebars_stack_restore t buf = Inr u" "kv u = [4, 5]"
    by (auto simp: stack_sample_def)
  then show ?thesis using sv run full by blast
qed

text \<open>The protection of a stack is off by one and does not survive growth: with exactly the protected
  elements on the stack a pop removes one of them, and a push that makes the stack grow yields a stack
  without protection.\<close>
theorem stack_protection_leaks:
  assumes "vstack_ok s" "ktalloc s" "krc s \<le> 1" "kv s \<noteq> []" "kprotect s = length (kv s)" "kcap s = length (kv s)"
  shows "handlebars_stack_pop s = Inr (Some (last (kv s)), s\<lparr>kv := butlast (kv s)\<rparr>) \<and>
     (\<exists>t. handlebars_stack_push s x = Inr t \<and> kprotect t = 0)"
proof -
  have "\<not> krc s > 1" using assms(3) by (simp add: not_less)
  then show ?thesis
    using assms grown_capacity [of "kcap s"]
    by (auto simp: handlebars_stack_pop_def handlebars_stack_push_def handlebars_stack_copy_ctor_def
        handlebars_stack_ctor_def Let_def)
qed

theorem stack_protection_leaks_witness:
  "\<exists>u. handlebars_stack_pop ((handlebars_stack_ctor 1)\<lparr>kv := [4::nat], kprotect := 1\<rparr>) = Inr (Some 4, u) \<and> kv u = []"
  using stack_protection_leaks [of "(handlebars_stack_ctor 1)\<lparr>kv := [4::nat], kprotect := 1\<rparr>" 0]
  by (auto simp: handlebars_stack_ctor_def vstack_ok_def)

end
