(* ===== verification/AstList.thy ===== *)
theory AstList
  imports Prelude
begin

text \<open>
  The doubly linked list of src/handlebars_ast_list.c, which holds the children of an AST node. The list
  items live in an explicit heap: an address is a \<open>nat\<close>, a pointer an \<open>nat option\<close> (\<open>None\<close> is the null
  pointer), and a read or write through an address without an item is \<open>Inl Mem_error\<close>. The node an item
  points to (\<open>data\<close>) is compared by pointer only and is a type parameter.

  The lemmas show that the operations keep the list doubly linked and act on the sequence of its nodes as
  the list functions do.
\<close>

section \<open>State and operations\<close>

record 'n ast_list_item =
  inext :: "nat option"
  iprev :: "nat option"
  idata :: 'n

record 'n ast_list =
  lheap :: "nat \<Rightarrow> 'n ast_list_item option"
  lfirst :: "nat option"
  llast :: "nat option"
  lcount :: nat
  lfresh :: nat

definition handlebars_ast_list_ctor :: "'n ast_list" where
  "handlebars_ast_list_ctor =
     \<lparr>lheap = (\<lambda>_. None), lfirst = None, llast = None, lcount = 0, lfresh = 0\<rparr>"

definition cell :: "'n ast_list \<Rightarrow> nat \<Rightarrow> hbs_error + 'n ast_list_item" where
  "cell l a = (case lheap l a of None \<Rightarrow> Inl Mem_error | Some it \<Rightarrow> Inr it)"

definition upd :: "'n ast_list \<Rightarrow> nat \<Rightarrow> ('n ast_list_item \<Rightarrow> 'n ast_list_item) \<Rightarrow> hbs_error + 'n ast_list" where
  "upd l a f =
     (case lheap l a of None \<Rightarrow> Inl Mem_error | Some it \<Rightarrow> Inr (l\<lparr>lheap := (lheap l)(a \<mapsto> f it)\<rparr>))"

text \<open>A new zeroed item with its data (\<open>handlebars_talloc_zero\<close>).\<close>

definition new_item :: "'n ast_list \<Rightarrow> 'n \<Rightarrow> nat \<times> 'n ast_list" where
  "new_item l d =
     (lfresh l, l\<lparr>lheap := (lheap l)(lfresh l \<mapsto> \<lparr>inext = None, iprev = None, idata = d\<rparr>),
                  lfresh := lfresh l + 1\<rparr>)"

definition handlebars_ast_list_insert_after :: "'n ast_list \<Rightarrow> nat \<Rightarrow> nat \<Rightarrow> hbs_error + 'n ast_list" where
  "handlebars_ast_list_insert_after l item new =
     ebind (upd l new (\<lambda>n. n\<lparr>iprev := Some item\<rparr>)) (\<lambda>l1.
     ebind (cell l1 item) (\<lambda>it.
     ebind (upd l1 new (\<lambda>n. n\<lparr>inext := inext it\<rparr>)) (\<lambda>l2.
     ebind (case inext it of
              None \<Rightarrow> Inr (l2\<lparr>llast := Some new\<rparr>)
            | Some nx \<Rightarrow> upd l2 nx (\<lambda>n. n\<lparr>iprev := Some new\<rparr>)) (\<lambda>l3.
     upd l3 item (\<lambda>n. n\<lparr>inext := Some new\<rparr>)))))"

definition handlebars_ast_list_insert_before :: "'n ast_list \<Rightarrow> nat \<Rightarrow> nat \<Rightarrow> hbs_error + 'n ast_list" where
  "handlebars_ast_list_insert_before l item new =
     ebind (cell l item) (\<lambda>it.
     ebind (upd l new (\<lambda>n. n\<lparr>iprev := iprev it\<rparr>)) (\<lambda>l1.
     ebind (upd l1 new (\<lambda>n. n\<lparr>inext := Some item\<rparr>)) (\<lambda>l2.
     ebind (case iprev it of
              None \<Rightarrow> Inr (l2\<lparr>lfirst := Some new\<rparr>)
            | Some pv \<Rightarrow> upd l2 pv (\<lambda>n. n\<lparr>inext := Some new\<rparr>)) (\<lambda>l3.
     upd l3 item (\<lambda>n. n\<lparr>iprev := Some new\<rparr>)))))"

definition handlebars_ast_list_append :: "'n ast_list \<Rightarrow> 'n \<Rightarrow> hbs_error + 'n ast_list" where
  "handlebars_ast_list_append l d =
     (let (a, l1) = new_item l d
      in ebind (case llast l1 of
                  None \<Rightarrow> Inr (l1\<lparr>lfirst := Some a, llast := Some a\<rparr>)
                | Some z \<Rightarrow> handlebars_ast_list_insert_after l1 z a)
           (\<lambda>l2. Inr (l2\<lparr>lcount := lcount l2 + 1\<rparr>)))"

definition handlebars_ast_list_prepend :: "'n ast_list \<Rightarrow> 'n \<Rightarrow> hbs_error + 'n ast_list" where
  "handlebars_ast_list_prepend l d =
     (let (a, l1) = new_item l d
      in ebind (case lfirst l1 of
                  None \<Rightarrow> Inr (l1\<lparr>lfirst := Some a, llast := Some a\<rparr>)
                | Some f \<Rightarrow> handlebars_ast_list_insert_before l1 f a)
           (\<lambda>l2. Inr (l2\<lparr>lcount := lcount l2 + 1\<rparr>)))"

text \<open>A null list has no elements.\<close>

definition handlebars_ast_list_count :: "'n ast_list option \<Rightarrow> nat" where
  "handlebars_ast_list_count l = (case l of None \<Rightarrow> 0 | Some l \<Rightarrow> lcount l)"

text \<open>
  The loop \<open>handlebars_ast_list_foreach\<close> of a search. A damaged list could be cyclic, so the walk has fuel;
  a list with fewer than \<open>lfresh\<close> items needs no more than \<open>lfresh + 1\<close>.
\<close>

fun walk_find :: "nat \<Rightarrow> 'n ast_list \<Rightarrow> nat option \<Rightarrow> 'n \<Rightarrow> hbs_error + nat option" where
  "walk_find 0 l p d = Inl Out_of_fuel"
| "walk_find (Suc n) l None d = Inr None"
| "walk_find (Suc n) l (Some a) d =
     ebind (cell l a) (\<lambda>it. if idata it = d then Inr (Some a) else walk_find n l (inext it) d)"

definition handlebars_ast_list_find :: "'n ast_list \<Rightarrow> 'n \<Rightarrow> hbs_error + nat option" where
  "handlebars_ast_list_find l d = walk_find (lfresh l + 1) l (lfirst l) d"

text \<open>Taking an item out of the chain: the part of \<open>remove\<close> between the search and the release.\<close>

definition unlink :: "'n ast_list \<Rightarrow> 'n ast_list_item \<Rightarrow> hbs_error + 'n ast_list" where
  "unlink l found =
     ebind (case iprev found of
              None \<Rightarrow> Inr (l\<lparr>lfirst := inext found\<rparr>)
            | Some pv \<Rightarrow> upd l pv (\<lambda>n. n\<lparr>inext := inext found\<rparr>)) (\<lambda>l1.
     case inext found of
       None \<Rightarrow> Inr (l1\<lparr>llast := iprev found\<rparr>)
     | Some nx \<Rightarrow> upd l1 nx (\<lambda>n. n\<lparr>iprev := iprev found\<rparr>))"

definition handlebars_ast_list_remove :: "'n ast_list \<Rightarrow> 'n \<Rightarrow> hbs_error + bool \<times> 'n ast_list" where
  "handlebars_ast_list_remove l d =
     (if lfirst l = None \<or> llast l = None then Inr (False, l)
      else
        ebind (walk_find (lfresh l + 1) l (lfirst l) d) (\<lambda>found.
          case found of
            None \<Rightarrow> Inr (False, l)
          | Some a \<Rightarrow>
              ebind (cell l a) (\<lambda>it.
              ebind (unlink l it) (\<lambda>l2.
                Inr (True, l2\<lparr>lcount := lcount l2 - 1, lheap := (lheap l2)(a := None)\<rparr>)))))"

section \<open>Doubly linked segments\<close>

definition first_of :: "nat list \<Rightarrow> nat option \<Rightarrow> nat option" where
  "first_of xs nx = (case xs of [] \<Rightarrow> nx | x # _ \<Rightarrow> Some x)"

definition last_of :: "nat option \<Rightarrow> nat list \<Rightarrow> nat option" where
  "last_of p xs = (if xs = [] then p else Some (last xs))"

lemma first_last_simps [simp]:
  "first_of [] nx = nx" "first_of (x # xs) nx = Some x"
  "last_of p [] = p" "last_of p (xs @ [x]) = Some x"
  "first_of (xs @ ys) nx = first_of xs (first_of ys nx)"
  "last_of p (xs @ ys) = last_of (last_of p xs) ys"
  by (auto simp: first_of_def last_of_def split: list.splits)

lemma last_of_Cons [simp]: "last_of p (x # xs) = last_of (Some x) xs"
  by (simp add: last_of_def)

text \<open>The items at \<open>xs\<close> hold the nodes \<open>ds\<close>, are linked both ways, and the segment hangs between \<open>p\<close> and \<open>nx\<close>.\<close>

fun dll :: "(nat \<Rightarrow> 'n ast_list_item option) \<Rightarrow> nat option \<Rightarrow> nat list \<Rightarrow> 'n list \<Rightarrow> nat option \<Rightarrow> bool" where
  "dll h p [] ds nx = (ds = [])"
| "dll h p (x # xs) ds nx =
     (\<exists>d es. ds = d # es \<and> h x = Some \<lparr>inext = first_of xs nx, iprev = p, idata = d\<rparr> \<and> dll h (Some x) xs es nx)"

lemma dll_length: "dll h p xs ds nx \<Longrightarrow> length xs = length ds"
  by (induction xs arbitrary: p ds) auto

lemma dll_append:
  "dll h p (xs @ ys) ds nx \<longleftrightarrow>
     (\<exists>es fs. ds = es @ fs \<and> dll h p xs es (first_of ys nx) \<and> dll h (last_of p xs) ys fs nx)"
proof (induction xs arbitrary: p ds)
  case (Cons x xs)
  then show ?case by (auto simp: Cons_eq_append_conv) blast+
qed auto

lemma dll_frame: "(\<And>x. x \<in> set xs \<Longrightarrow> h' x = h x) \<Longrightarrow> dll h' p xs ds nx = dll h p xs ds nx"
  by (induction xs arbitrary: p ds) auto

lemma dll_cong_update [simp]: "a \<notin> set xs \<Longrightarrow> dll (h(a := v)) p xs ds nx = dll h p xs ds nx"
  by (rule dll_frame) auto

definition list_ok :: "'n ast_list \<Rightarrow> nat list \<Rightarrow> 'n list \<Rightarrow> bool" where
  "list_ok l xs ds \<longleftrightarrow>
     dll (lheap l) None xs ds None \<and> distinct xs \<and> lfirst l = first_of xs None \<and> llast l = last_of None xs \<and>
     lcount l = length ds \<and> (\<forall>x \<in> set xs. x < lfresh l)"

text \<open>Changing the outer links of a segment.\<close>

lemma dll_set_last:
  assumes "dll h p (xs @ [a]) ds nx" "a \<notin> set xs"
  shows "dll (h(a \<mapsto> (the (h a))\<lparr>inext := nx'\<rparr>)) p (xs @ [a]) ds nx'"
  using assms by (auto simp: dll_append)

lemma dll_set_first:
  assumes "dll h p (a # xs) ds nx" "a \<notin> set xs"
  shows "dll (h(a \<mapsto> (the (h a))\<lparr>iprev := p'\<rparr>)) p' (a # xs) ds nx"
  using assms by auto

lemma dll_appendI:
  "dll h p xs es (first_of ys nx) \<Longrightarrow> dll h (last_of p xs) ys fs nx \<Longrightarrow> dll h p (xs @ ys) (es @ fs) nx"
  by (auto simp: dll_append)

lemma dll_cell:
  assumes "dll h p (xs @ a # ys) (es @ e # fs) nx" "length es = length xs"
  shows "dll h p xs es (Some a)" "dll h (Some a) ys fs nx"
    "h a = Some \<lparr>inext = first_of ys nx, iprev = last_of p xs, idata = e\<rparr>"
proof -
  from assms(1) obtain es' d fs' where s: "es @ e # fs = es' @ d # fs'" "dll h p xs es' (Some a)"
      "h a = Some \<lparr>inext = first_of ys nx, iprev = last_of p xs, idata = d\<rparr>" "dll h (Some a) ys fs' nx"
    by (auto simp: dll_append)
  then have "es' = es" "d = e" "fs' = fs" using assms(2) dll_length [OF s(2)] by auto
  with s show "dll h p xs es (Some a)" "dll h (Some a) ys fs nx"
    "h a = Some \<lparr>inext = first_of ys nx, iprev = last_of p xs, idata = e\<rparr>" by auto
qed

section \<open>The operations on well-formed lists\<close>

lemma insert_after_ok:
  assumes l: "dll (lheap l) None (xs @ a # ys) (es @ e # fs) None" "length es = length xs"
    and d: "distinct (xs @ a # ys)" "n \<notin> set (xs @ a # ys)"
    and n: "lheap l n = Some \<lparr>inext = i0, iprev = p0, idata = d\<rparr>"
  shows "\<exists>l'. handlebars_ast_list_insert_after l a n = Inr l' \<and>
     dll (lheap l') None (xs @ a # n # ys) (es @ e # d # fs) None \<and>
     lfirst l' = lfirst l \<and> llast l' = (if ys = [] then Some n else llast l) \<and>
     lcount l' = lcount l \<and> lfresh l' = lfresh l"
proof -
  note seg = dll_cell [OF l]
  show ?thesis
  proof (cases ys)
    case Nil
    with seg d n show ?thesis
      by (auto simp: handlebars_ast_list_insert_after_def upd_def cell_def intro!: dll_appendI)
  next
    case (Cons y zs)
    with seg d n show ?thesis
      by (auto simp: handlebars_ast_list_insert_after_def upd_def cell_def intro!: dll_appendI)
  qed
qed

lemma insert_before_ok:
  assumes l: "dll (lheap l) None (xs @ a # ys) (es @ e # fs) None" "length es = length xs"
    and d: "distinct (xs @ a # ys)" "n \<notin> set (xs @ a # ys)"
    and n: "lheap l n = Some \<lparr>inext = i0, iprev = p0, idata = d\<rparr>"
  shows "\<exists>l'. handlebars_ast_list_insert_before l a n = Inr l' \<and>
     dll (lheap l') None (xs @ n # a # ys) (es @ d # e # fs) None \<and>
     lfirst l' = (if xs = [] then Some n else lfirst l) \<and> llast l' = llast l \<and>
     lcount l' = lcount l \<and> lfresh l' = lfresh l"
proof -
  note seg = dll_cell [OF l]
  show ?thesis
  proof (cases xs rule: rev_cases)
    case Nil
    with seg d n show ?thesis
      by (auto simp: handlebars_ast_list_insert_before_def upd_def cell_def)
  next
    case (snoc ws w)
    with seg(1) obtain gs g where g: "es = gs @ [g]" "dll (lheap l) None ws gs (Some w)"
        "lheap l w = Some \<lparr>inext = Some a, iprev = last_of None ws, idata = g\<rparr>"
      by (auto simp: dll_append)
    with snoc seg d n show ?thesis
      by (auto simp: handlebars_ast_list_insert_before_def upd_def cell_def intro!: dll_appendI)
  qed
qed

lemma append_ok:
  assumes "list_ok l xs ds"
  shows "\<exists>x l'. handlebars_ast_list_append l d = Inr l' \<and> list_ok l' (xs @ [x]) (ds @ [d])"
proof (cases xs rule: rev_cases)
  case Nil
  with assms show ?thesis
    by (intro exI [of _ "lfresh l"]) (auto simp: handlebars_ast_list_append_def new_item_def list_ok_def)
next
  case (snoc ws w)
  let ?n = "lfresh l" and ?l = "snd (new_item l d)"
  have ok: "dll (lheap l) None xs ds None" "distinct xs" "?n \<notin> set xs" "lcount l = length ds"
    "\<forall>x \<in> set xs. x < ?n" "lfirst l = first_of xs None" "llast l = last_of None xs"
    using assms by (auto simp: list_ok_def)
  then obtain es e where ds: "ds = es @ [e]" "length es = length ws"
    using snoc dll_length [OF ok(1)] by (cases ds rule: rev_cases) auto
  have "dll (lheap ?l) None (ws @ w # []) (es @ e # []) None"
    using ok(1,3) snoc ds by (simp add: new_item_def del: dll.simps)
  from insert_after_ok [OF this ds(2), of ?n None None d] ok snoc
  obtain l' where l': "handlebars_ast_list_insert_after ?l w ?n = Inr l'"
      "dll (lheap l') None (xs @ [?n]) (ds @ [d]) None" "lfirst l' = lfirst l" "llast l' = Some ?n"
      "lcount l' = lcount l" "lfresh l' = ?n + 1"
    by (auto simp: new_item_def ds)
  have "handlebars_ast_list_append l d = Inr (l'\<lparr>lcount := lcount l' + 1\<rparr>)"
    using l'(1) ok(7) snoc by (simp add: handlebars_ast_list_append_def new_item_def)
  moreover have "list_ok (l'\<lparr>lcount := lcount l' + 1\<rparr>) (xs @ [?n]) (ds @ [d])"
    using l' ok snoc by (auto simp: list_ok_def)
  ultimately show ?thesis by blast
qed

lemma prepend_ok:
  assumes "list_ok l xs ds"
  shows "\<exists>x l'. handlebars_ast_list_prepend l d = Inr l' \<and> list_ok l' (x # xs) (d # ds)"
proof (cases xs)
  case Nil
  with assms show ?thesis
    by (intro exI [of _ "lfresh l"]) (auto simp: handlebars_ast_list_prepend_def new_item_def list_ok_def)
next
  case (Cons w ws)
  let ?n = "lfresh l" and ?l = "snd (new_item l d)"
  have ok: "dll (lheap l) None xs ds None" "distinct xs" "?n \<notin> set xs" "lcount l = length ds"
    "\<forall>x \<in> set xs. x < ?n" "lfirst l = first_of xs None" "llast l = last_of None xs"
    using assms by (auto simp: list_ok_def)
  then obtain e es where ds: "ds = e # es" using Cons by auto
  have "dll (lheap ?l) None ([] @ w # ws) ([] @ e # es) None"
    using ok(1,3) Cons ds by (simp add: new_item_def)
  from insert_before_ok [OF this _ , of ?n None None d] ok Cons
  obtain l' where l': "handlebars_ast_list_insert_before ?l w ?n = Inr l'"
      "dll (lheap l') None (?n # xs) (d # ds) None" "lfirst l' = Some ?n" "llast l' = llast l"
      "lcount l' = lcount l" "lfresh l' = ?n + 1"
    by (auto simp: new_item_def ds simp del: dll.simps)
  have "handlebars_ast_list_prepend l d = Inr (l'\<lparr>lcount := lcount l' + 1\<rparr>)"
    using l'(1) ok(6) Cons by (simp add: handlebars_ast_list_prepend_def new_item_def)
  moreover have "list_ok (l'\<lparr>lcount := lcount l' + 1\<rparr>) (?n # xs) (d # ds)"
    using l' ok Cons by (auto simp: list_ok_def simp del: dll.simps)
  ultimately show ?thesis by blast
qed

text \<open>The search stops at the first item with the node; it never runs out of fuel.\<close>

lemma walk_find_eq:
  "dll (lheap l) p xs ds None \<Longrightarrow> length xs < n \<Longrightarrow>
     walk_find n l (first_of xs None) d =
       Inr (map_option fst (find (\<lambda>(x, e). e = d) (zip xs ds)))"
proof (induction xs arbitrary: p ds n)
  case Nil
  then obtain m where "n = Suc m" by (cases n) auto
  then show ?case by simp
next
  case (Cons x xs)
  then obtain m where m: "n = Suc m" by (cases n) auto
  from Cons.prems obtain e es where "ds = e # es"
      "lheap l x = Some \<lparr>inext = first_of xs None, iprev = p, idata = e\<rparr>" "dll (lheap l) (Some x) xs es None"
    by auto
  with Cons.IH [of "Some x" es m] Cons.prems m show ?case by (simp add: cell_def)
qed

lemma list_ok_size: "list_ok l xs ds \<Longrightarrow> length xs \<le> lfresh l"
proof -
  assume ok: "list_ok l xs ds"
  then have "card (set xs) \<le> card {..<lfresh l}"
    by (intro card_mono) (auto simp: list_ok_def)
  then show ?thesis using ok by (simp add: list_ok_def distinct_card)
qed

lemma list_find_ok:
  assumes "list_ok l xs ds"
  shows "handlebars_ast_list_find l d = Inr (map_option fst (find (\<lambda>(x, e). e = d) (zip xs ds)))"
  using assms walk_find_eq [of l None xs ds "lfresh l + 1" d] list_ok_size [OF assms]
  by (simp add: handlebars_ast_list_find_def list_ok_def)

lemma find_zip_split:
  assumes "length xs = length ds" "d \<in> set ds"
  shows "\<exists>ys y zs es fs. xs = ys @ y # zs \<and> ds = es @ d # fs \<and> length ys = length es \<and> d \<notin> set es \<and>
     find (\<lambda>(x, e). e = d) (zip xs ds) = Some (y, d) \<and> remove1 d ds = es @ fs"
  using assms
proof (induction xs ds rule: list_induct2)
  case (Cons x xs e ds)
  show ?case
  proof (cases "e = d")
    case True
    then show ?thesis
      by (intro exI [of _ "[]"] exI [of _ x] exI [of _ xs] exI [of _ "[]"] exI [of _ ds]) auto
  next
    case False
    with Cons obtain ys y zs es fs where "xs = ys @ y # zs" "ds = es @ d # fs" "length ys = length es"
        "d \<notin> set es" "find (\<lambda>(x, e). e = d) (zip xs ds) = Some (y, d)" "remove1 d ds = es @ fs"
      by auto
    with False show ?thesis
      by (intro exI [of _ "x # ys"] exI [of _ y] exI [of _ zs] exI [of _ "e # es"] exI [of _ fs]) auto
  qed
qed simp

lemma find_zip_iff:
  assumes "length xs = length ds"
  shows "find (\<lambda>(x, e). e = d) (zip xs ds) \<noteq> None \<longleftrightarrow> d \<in> set ds"
proof (cases "d \<in> set ds")
  case True
  from find_zip_split [OF assms this] obtain y where "find (\<lambda>(x, e). e = d) (zip xs ds) = Some (y, d)"
    by blast
  with True show ?thesis by simp
next
  case False
  then have "find (\<lambda>(x, e). e = d) (zip xs ds) = None"
    by (auto simp: find_None_iff dest: set_zip_rightD)
  with False show ?thesis by simp
qed

lemma unlink_ok:
  assumes l: "dll (lheap l) None (ys @ a # zs) (es @ d # fs) None" "length es = length ys"
    and d: "distinct (ys @ a # zs)"
  shows "\<exists>l2. unlink l \<lparr>inext = first_of zs None, iprev = last_of None ys, idata = d\<rparr> = Inr l2 \<and>
     dll ((lheap l2)(a := None)) None (ys @ zs) (es @ fs) None \<and>
     lfirst l2 = (if ys = [] then first_of zs None else lfirst l) \<and>
     llast l2 = (if zs = [] then last_of None ys else llast l) \<and>
     lcount l2 = lcount l \<and> lfresh l2 = lfresh l"
proof -
  note seg = dll_cell [OF l]
  show ?thesis
  proof (cases ys rule: rev_cases)
    case Nil
    then show ?thesis
      using seg d l(2) by (cases zs) (auto simp: unlink_def upd_def)
  next
    case (snoc ws w)
    with seg(1) obtain gs g where g: "es = gs @ [g]" "dll (lheap l) None ws gs (Some w)"
        "lheap l w = Some \<lparr>inext = Some a, iprev = last_of None ws, idata = g\<rparr>"
      by (auto simp: dll_append)
    show ?thesis
    proof (cases zs)
      case Nil
      with snoc g seg d show ?thesis by (auto simp: unlink_def upd_def intro!: dll_appendI)
    next
      case (Cons z zs')
      with snoc g seg d show ?thesis by (auto simp: unlink_def upd_def intro!: dll_appendI)
    qed
  qed
qed

lemma list_remove_ok:
  assumes ok: "list_ok l xs ds"
  shows "\<exists>xs' l'. handlebars_ast_list_remove l d = Inr (d \<in> set ds, l') \<and> list_ok l' xs' (remove1 d ds) \<and>
     set xs' \<subseteq> set xs"
proof -
  have dl: "dll (lheap l) None xs ds None" "distinct xs" and lf: "lfirst l = first_of xs None"
    and ll: "llast l = last_of None xs"
    using ok by (auto simp: list_ok_def)
  have len: "length xs = length ds" by (rule dll_length [OF dl(1)])
  have walk: "walk_find (Suc (lfresh l)) l (lfirst l) d = Inr (map_option fst (find (\<lambda>(x, e). e = d) (zip xs ds)))"
    using walk_find_eq [OF dl(1), of "Suc (lfresh l)" d] list_ok_size [OF ok] lf by simp
  show ?thesis
  proof (cases "d \<in> set ds")
    case False
    then have "find (\<lambda>(x, e). e = d) (zip xs ds) = None"
      using find_zip_iff [OF len, of d] by blast
    then have "handlebars_ast_list_remove l d = Inr (False, l)"
      using walk by (simp add: handlebars_ast_list_remove_def)
    with False ok show ?thesis by (auto simp: remove1_idem)
  next
    case True
    from find_zip_split [OF len this] obtain ys a zs es fs where
      sp: "xs = ys @ a # zs" "ds = es @ d # fs" "length ys = length es" "remove1 d ds = es @ fs"
        "find (\<lambda>(x, e). e = d) (zip xs ds) = Some (a, d)" by blast
    note seg = dll_cell [OF dl(1) [unfolded sp(1,2)] sp(3) [symmetric]]
    from unlink_ok [OF dl(1) [unfolded sp(1,2)] sp(3) [symmetric]] dl(2) sp(1)
    obtain l2 where l2: "unlink l \<lparr>inext = first_of zs None, iprev = last_of None ys, idata = d\<rparr> = Inr l2"
      "dll ((lheap l2)(a := None)) None (ys @ zs) (es @ fs) None"
      "lfirst l2 = (if ys = [] then first_of zs None else lfirst l)"
      "llast l2 = (if zs = [] then last_of None ys else llast l)"
      "lcount l2 = lcount l" "lfresh l2 = lfresh l" by blast
    let ?l = "l2\<lparr>lcount := lcount l2 - 1, lheap := (lheap l2)(a := None)\<rparr>"
    have "lfirst l \<noteq> None" "llast l \<noteq> None"
      using lf ll sp(1) by (auto simp: first_of_def last_of_def split: list.splits)
    moreover have "cell l a = Inr \<lparr>inext = first_of zs None, iprev = last_of None ys, idata = d\<rparr>"
      using seg(3) by (simp add: cell_def)
    ultimately have "handlebars_ast_list_remove l d = Inr (True, ?l)"
      using walk sp(5) l2(1) by (simp add: handlebars_ast_list_remove_def)
    moreover have "list_ok ?l (ys @ zs) (es @ fs)"
      using l2 ok sp(1,2) lf ll unfolding list_ok_def
      by (auto simp: first_of_def last_of_def split: list.splits)
    ultimately show ?thesis using sp True by auto
  qed
qed

section \<open>The sequence interface\<close>

text \<open>
  What the parser and the whitespace pass rely on: a container with a sequence of nodes that can be
  extended at both ends. The invariant hides the addresses of the items.
\<close>

locale node_sequence =
  fixes is_seq :: "'l \<Rightarrow> 'n list \<Rightarrow> bool"
    and empty :: 'l
    and append :: "'l \<Rightarrow> 'n \<Rightarrow> hbs_error + 'l"
    and prepend :: "'l \<Rightarrow> 'n \<Rightarrow> hbs_error + 'l"
    and remove :: "'l \<Rightarrow> 'n \<Rightarrow> hbs_error + bool \<times> 'l"
    and count :: "'l \<Rightarrow> nat"
  assumes empty_law: "is_seq empty []"
    and append_law: "is_seq l ds \<Longrightarrow> \<exists>l'. append l d = Inr l' \<and> is_seq l' (ds @ [d])"
    and prepend_law: "is_seq l ds \<Longrightarrow> \<exists>l'. prepend l d = Inr l' \<and> is_seq l' (d # ds)"
    and remove_law: "is_seq l ds \<Longrightarrow> \<exists>l'. remove l d = Inr (d \<in> set ds, l') \<and> is_seq l' (remove1 d ds)"
    and count_law: "is_seq l ds \<Longrightarrow> count l = length ds"
begin

lemma append_many:
  "is_seq l ds \<Longrightarrow> \<exists>l'. efold (\<lambda>d l. append l d) es l = Inr l' \<and> is_seq l' (ds @ es)"
proof (induction es arbitrary: l ds)
  case (Cons e es)
  obtain l1 where "append l e = Inr l1" "is_seq l1 (ds @ [e])"
    using append_law [OF Cons.prems] by blast
  with Cons.IH [of l1 "ds @ [e]"] show ?case by auto
qed simp

lemma build: "\<exists>l. efold (\<lambda>d l. append l d) ds empty = Inr l \<and> is_seq l ds \<and> count l = length ds"
  using append_many [OF empty_law, of ds] count_law by auto

end

definition is_ast_list :: "'n ast_list \<Rightarrow> 'n list \<Rightarrow> bool" where
  "is_ast_list l ds \<longleftrightarrow> (\<exists>xs. list_ok l xs ds)"

interpretation ast_seq: node_sequence is_ast_list handlebars_ast_list_ctor handlebars_ast_list_append
  handlebars_ast_list_prepend handlebars_ast_list_remove "\<lambda>l. handlebars_ast_list_count (Some l)"
proof unfold_locales
  show "is_ast_list handlebars_ast_list_ctor []"
    by (auto simp: is_ast_list_def list_ok_def handlebars_ast_list_ctor_def intro!: exI [of _ "[]"])
  fix l :: "'n ast_list" and ds d assume "is_ast_list l ds"
  then obtain xs where ok: "list_ok l xs ds" by (auto simp: is_ast_list_def)
  show "\<exists>l'. handlebars_ast_list_append l d = Inr l' \<and> is_ast_list l' (ds @ [d])"
    using append_ok [OF ok] unfolding is_ast_list_def by blast
  show "\<exists>l'. handlebars_ast_list_prepend l d = Inr l' \<and> is_ast_list l' (d # ds)"
    using prepend_ok [OF ok] unfolding is_ast_list_def by blast
  show "\<exists>l'. handlebars_ast_list_remove l d = Inr (d \<in> set ds, l') \<and> is_ast_list l' (remove1 d ds)"
    using list_remove_ok [OF ok] unfolding is_ast_list_def by blast
  show "handlebars_ast_list_count (Some l) = length ds"
    using ok by (simp add: handlebars_ast_list_count_def list_ok_def)
qed

section \<open>Properties\<close>

text \<open>C33. Appending, prepending and removing keep the list doubly linked and act on its nodes as the list
  functions do; no operation follows a dangling or null pointer, and a search ends.\<close>
theorem ast_list_refines:
  assumes "list_ok l xs ds"
  shows "(\<exists>x l'. handlebars_ast_list_append l d = Inr l' \<and> list_ok l' (xs @ [x]) (ds @ [d])) \<and>
     (\<exists>x l'. handlebars_ast_list_prepend l d = Inr l' \<and> list_ok l' (x # xs) (d # ds)) \<and>
     (\<exists>xs' l'. handlebars_ast_list_remove l d = Inr (d \<in> set ds, l') \<and> list_ok l' xs' (remove1 d ds)) \<and>
     (\<exists>p. handlebars_ast_list_find l d = Inr p \<and> (p \<noteq> None \<longleftrightarrow> d \<in> set ds))"
proof (intro conjI)
  show "\<exists>xs' l'. handlebars_ast_list_remove l d = Inr (d \<in> set ds, l') \<and> list_ok l' xs' (remove1 d ds)"
    using list_remove_ok [OF assms] by blast
  have "length xs = length ds" using assms by (auto simp: list_ok_def dest: dll_length)
  then have "find (\<lambda>(x, e). e = d) (zip xs ds) \<noteq> None \<longleftrightarrow> d \<in> set ds"
    by (rule find_zip_iff)
  then show "\<exists>p. handlebars_ast_list_find l d = Inr p \<and> (p \<noteq> None \<longleftrightarrow> d \<in> set ds)"
    using list_find_ok [OF assms] by auto
  show "\<exists>x l'. handlebars_ast_list_append l d = Inr l' \<and> list_ok l' (xs @ [x]) (ds @ [d])"
    by (rule append_ok [OF assms])
  show "\<exists>x l'. handlebars_ast_list_prepend l d = Inr l' \<and> list_ok l' (x # xs) (d # ds)"
    by (rule prepend_ok [OF assms])
qed

theorem ast_list_refines_witness:
  "\<exists>x l'. handlebars_ast_list_append (handlebars_ast_list_ctor :: nat ast_list) 5 = Inr l' \<and> list_ok l' [x] [5]"
proof -
  have "list_ok (handlebars_ast_list_ctor :: nat ast_list) [] []"
    by (simp add: list_ok_def handlebars_ast_list_ctor_def)
  from ast_list_refines [OF this, of 5] show ?thesis by simp
qed

text \<open>Inserting behind an item that is in the list links the new item between it and its successor and
  updates the end of the list; the element count stays with the caller.\<close>
theorem ast_list_insert_after_correct:
  assumes "list_ok l (xs @ a # ys) (es @ e # fs)" "length es = length xs"
    and "new_item l d = (n, l1)"
  shows "\<exists>l2. handlebars_ast_list_insert_after l1 a n = Inr l2 \<and>
     list_ok (l2\<lparr>lcount := lcount l2 + 1\<rparr>) (xs @ a # n # ys) (es @ e # d # fs)"
proof -
  have ok: "dll (lheap l) None (xs @ a # ys) (es @ e # fs) None" "distinct (xs @ a # ys)"
    "lfresh l \<notin> set (xs @ a # ys)" "lcount l = length (es @ e # fs)"
    "\<forall>x \<in> set (xs @ a # ys). x < lfresh l"
    "lfirst l = first_of (xs @ a # ys) None" "llast l = last_of None (xs @ a # ys)"
    using assms(1) by (auto simp: list_ok_def)
  have l1: "n = lfresh l" "lheap l1 = (lheap l)(n \<mapsto> \<lparr>inext = None, iprev = None, idata = d\<rparr>)"
    "lfirst l1 = lfirst l" "llast l1 = llast l" "lcount l1 = lcount l" "lfresh l1 = n + 1"
    using assms(3) by (auto simp: new_item_def)
  have "dll (lheap l1) None (xs @ a # ys) (es @ e # fs) None"
    unfolding l1(2) using ok(1,3) l1(1) by (simp only: dll_cong_update not_False_eq_True)
  from insert_after_ok [OF this assms(2) ok(2), of n None None d] ok(3) l1
  obtain l2 where l2: "handlebars_ast_list_insert_after l1 a n = Inr l2"
    "dll (lheap l2) None (xs @ a # n # ys) (es @ e # d # fs) None" "lfirst l2 = lfirst l"
    "llast l2 = (if ys = [] then Some n else llast l)" "lcount l2 = lcount l" "lfresh l2 = n + 1"
    by auto
  have "distinct (xs @ a # n # ys)" "\<forall>x \<in> set (xs @ a # n # ys). x < n + 1"
    using ok(2,3,5) l1(1) by (auto simp: less_Suc_eq)
  moreover have "lfirst l2 = first_of (xs @ a # n # ys) None" using l2(3) ok(6) by simp
  moreover have "llast l2 = last_of None (xs @ a # n # ys)"
    using l2(4) ok(7) by (cases "ys = []") (simp_all add: last_of_def)
  moreover have "lcount l2 + 1 = length (es @ e # d # fs)" using l2(5) ok(4) by simp
  ultimately have "list_ok (l2\<lparr>lcount := lcount l2 + 1\<rparr>) (xs @ a # n # ys) (es @ e # d # fs)"
    using l2(2,6) unfolding list_ok_def by (simp del: dll.simps first_last_simps last_of_Cons)
  with l2(1) show ?thesis by blast
qed

theorem ast_list_insert_after_correct_witness:
  "\<exists>l l1 l2. handlebars_ast_list_append handlebars_ast_list_ctor (7::nat) = Inr l \<and> new_item l 8 = (1, l1) \<and>
     handlebars_ast_list_insert_after l1 0 1 = Inr l2 \<and> list_ok (l2\<lparr>lcount := lcount l2 + 1\<rparr>) [0, 1] [7, 8]"
proof -
  obtain l where l: "handlebars_ast_list_append handlebars_ast_list_ctor (7::nat) = Inr l" "list_ok l [0] [7]"
      "lfresh l = 1"
    by (auto simp: handlebars_ast_list_append_def handlebars_ast_list_ctor_def new_item_def list_ok_def)
  then obtain l1 where l1: "new_item l 8 = (1, l1)" by (simp add: new_item_def)
  from ast_list_insert_after_correct [of l "[]" 0 "[]" "[]" 7 "[]" 8 1 l1] l l1 show ?thesis by auto
qed

end
