(* ===== verification/Scanners.thy ===== *)
theory Scanners
  imports HString
begin

text \<open>
  The whitespace scanners of src/handlebars_scanners.c (generated by re2c from handlebars_scanners.re): is the
  text up to the next line end blank, and is the text since the last line end blank? The input is a
  NUL-terminated byte string; a read at the end of the list reads the terminator. The automaton decodes
  UTF-8: the lead byte determines the ranges of the continuation bytes, and a byte that fits no code point
  ends the scan like a NUL.

  The lemmas show that on the UTF-8 encoding of a text the scanners answer by its code points: the first, or the
  last, one that is not a blank decides.
\<close>

section \<open>The automaton\<close>

datatype scan_class = Stop | Other | Blank | Newline

definition next_byte :: "string \<Rightarrow> nat" where
  "next_byte s = (case s of [] \<Rightarrow> 0 | c # _ \<Rightarrow> of_char c)"

text \<open>The states \<open>yy11\<close> to \<open>yy16\<close>: the ranges of the bytes that must follow a lead byte.\<close>

definition continuation :: "nat \<Rightarrow> (nat \<times> nat) list option" where
  "continuation b =
     (if 0xC2 \<le> b \<and> b \<le> 0xDF then Some [(0x80, 0xBF)]
      else if b = 0xE0 then Some [(0xA0, 0xBF), (0x80, 0xBF)]
      else if 0xE1 \<le> b \<and> b \<le> 0xEF then Some [(0x80, 0xBF), (0x80, 0xBF)]
      else if b = 0xF0 then Some [(0x90, 0xBF), (0x80, 0xBF), (0x80, 0xBF)]
      else if 0xF1 \<le> b \<and> b \<le> 0xF3 then Some [(0x80, 0xBF), (0x80, 0xBF), (0x80, 0xBF)]
      else if b = 0xF4 then Some [(0x80, 0x8F), (0x80, 0xBF), (0x80, 0xBF)]
      else None)"

fun follow :: "(nat \<times> nat) list \<Rightarrow> string \<Rightarrow> string option" where
  "follow [] s = Some s"
| "follow ((lo, hi) # rs) s = (if lo \<le> next_byte s \<and> next_byte s \<le> hi then follow rs (tl s) else None)"

text \<open>One round of the loop: the class of the next character and the text behind it.\<close>

definition scan_char :: "string \<Rightarrow> scan_class \<times> string" where
  "scan_char s =
     (let b = next_byte s
      in if b = 0 then (Stop, tl s)
         else if b \<le> 0x20 then
           (if b = 0x0A then (Newline, tl s)
            else if b = 0x09 \<or> b = 0x0B \<or> b = 0x0D \<or> b = 0x20 then (Blank, tl s)
            else (Other, tl s))
         else if b \<le> 0x7F then (Other, tl s)
         else (case continuation b of
                 None \<Rightarrow> (Stop, tl s)
               | Some rs \<Rightarrow> (case follow rs (tl s) of None \<Rightarrow> (Stop, tl s) | Some rest \<Rightarrow> (Other, rest))))"

lemma follow_length: "follow rs s = Some r \<Longrightarrow> length r \<le> length s"
  by (induction rs s rule: follow.induct) (auto split: if_splits)

lemma scan_char_length:
  assumes "fst (scan_char s) \<noteq> Stop"
  shows "length (snd (scan_char s)) < length s"
proof -
  from assms have "s \<noteq> []" by (auto simp: scan_char_def next_byte_def)
  then show ?thesis
    using assms follow_length [of _ "tl s"]
    by (cases s) (auto simp: scan_char_def Let_def le_imp_less_Suc split: option.splits if_splits)
qed

function handlebars_scanner_next_whitespace :: "string \<Rightarrow> bool \<Rightarrow> bool" where
  "handlebars_scanner_next_whitespace s def =
     (case fst (scan_char s) of
        Stop \<Rightarrow> def
      | Blank \<Rightarrow> handlebars_scanner_next_whitespace (snd (scan_char s)) def
      | Newline \<Rightarrow> True
      | Other \<Rightarrow> False)"
  by pat_completeness auto

termination
  by (relation "measure (\<lambda>(s, def). length s)") (auto intro: scan_char_length)

function prev_whitespace_loop :: "string \<Rightarrow> bool \<Rightarrow> bool" where
  "prev_whitespace_loop s mtch =
     (case fst (scan_char s) of
        Stop \<Rightarrow> mtch
      | Blank \<Rightarrow> prev_whitespace_loop (snd (scan_char s)) mtch
      | Newline \<Rightarrow> prev_whitespace_loop (snd (scan_char s)) True
      | Other \<Rightarrow> prev_whitespace_loop (snd (scan_char s)) False)"
  by pat_completeness auto

termination
  by (relation "measure (\<lambda>(s, m). length s)") (auto intro: scan_char_length)

definition handlebars_scanner_prev_whitespace :: "string \<Rightarrow> bool \<Rightarrow> bool" where
  "handlebars_scanner_prev_whitespace s def = prev_whitespace_loop s def"

declare handlebars_scanner_next_whitespace.simps [simp del] prev_whitespace_loop.simps [simp del]

section \<open>Code points\<close>

lemma div_le_mono': "m \<le> n \<Longrightarrow> m div k \<le> n div (k::nat)"
  by (rule div_le_mono)


definition utf8 :: "nat \<Rightarrow> string" where
  "utf8 cp =
     (if cp < 0x80 then [char_of cp]
      else if cp < 0x800 then [char_of (0xC0 + cp div 64), char_of (0x80 + cp mod 64)]
      else if cp < 0x10000 then
        [char_of (0xE0 + cp div 4096), char_of (0x80 + cp div 64 mod 64), char_of (0x80 + cp mod 64)]
      else
        [char_of (0xF0 + cp div 262144), char_of (0x80 + cp div 4096 mod 64),
         char_of (0x80 + cp div 64 mod 64), char_of (0x80 + cp mod 64)])"

definition utf8s :: "nat list \<Rightarrow> string" where
  "utf8s cps = concat (map utf8 cps)"

definition code_point :: "nat \<Rightarrow> bool" where
  "code_point cp \<longleftrightarrow> 0 < cp \<and> cp < 0x110000"

definition class_of :: "nat \<Rightarrow> scan_class" where
  "class_of cp =
     (if cp = 0x0A then Newline else if cp = 0x09 \<or> cp = 0x0B \<or> cp = 0x0D \<or> cp = 0x20 then Blank else Other)"

lemma next_byte_char: "n < 256 \<Longrightarrow> next_byte (char_of n # s) = n"
  by (simp add: next_byte_def of_char_of)

lemma cont_byte: "lo \<le> k \<Longrightarrow> k \<le> hi \<Longrightarrow> k < 256 \<Longrightarrow> follow ((lo, hi) # rs) (char_of k # s) = follow rs s"
  by (simp add: next_byte_char)

declare follow.simps(2) [simp del]

text \<open>The scanner reads one code point at a time.\<close>

lemma scan_utf8:
  assumes "code_point cp"
  shows "scan_char (utf8 cp @ s) = (class_of cp, s)"
proof -
  let ?d = "cp div 64 mod 64" and ?m = "cp mod 64"
  have cb: "0x80 + k \<le> 0xBF" if "k < 64" for k :: nat using that by simp
  have m: "?m < 64" "?d < 64" "cp div 4096 mod 64 < 64" by simp_all
  consider (1) "cp < 0x80" | (2) "0x80 \<le> cp" "cp < 0x800" | (3) "0x800 \<le> cp" "cp < 0x1000"
    | (4) "0x1000 \<le> cp" "cp < 0x10000" | (5) "0x10000 \<le> cp" "cp < 0x40000"
    | (6) "0x40000 \<le> cp" "cp < 0x100000" | (7) "0x100000 \<le> cp" "cp < 0x110000"
    using assms unfolding code_point_def by (meson not_less)
  then show ?thesis
  proof cases
    case 1
    then show ?thesis using assms
      by (auto simp: utf8_def scan_char_def next_byte_char class_of_def code_point_def Let_def)
  next
    case 2
    then have "0xC2 \<le> 0xC0 + cp div 64" "0xC0 + cp div 64 \<le> 0xDF"
      using div_le_mono' [of "0x80" cp 64] div_le_mono' [of cp "0x7FF" 64] by simp_all
    with 2 m show ?thesis
      by (simp add: utf8_def scan_char_def next_byte_char class_of_def continuation_def Let_def cont_byte)
  next
    case 3
    then have "cp div 4096 = 0" "32 \<le> cp div 64" "cp div 64 < 64"
      using div_le_mono' [of "0x800" cp 64] div_le_mono' [of cp "0xFFF" 64] by simp_all
    then have "cp div 4096 = 0" "0xA0 \<le> 0x80 + ?d" by simp_all
    with 3 m show ?thesis
      by (simp add: utf8_def scan_char_def next_byte_char class_of_def continuation_def Let_def cont_byte)
  next
    case 4
    then have "0xE1 \<le> 0xE0 + cp div 4096" "0xE0 + cp div 4096 \<le> 0xEF"
      using div_le_mono' [of "0x1000" cp 4096] div_le_mono' [of cp "0xFFFF" 4096] by simp_all
    with 4 m show ?thesis
      by (simp add: utf8_def scan_char_def next_byte_char class_of_def continuation_def Let_def cont_byte)
  next
    case 5
    then have "cp div 262144 = 0" "16 \<le> cp div 4096" "cp div 4096 < 64"
      using div_le_mono' [of "0x10000" cp 4096] div_le_mono' [of cp "0x3FFFF" 4096] by simp_all
    then have "cp div 262144 = 0" "0x90 \<le> 0x80 + cp div 4096 mod 64" by simp_all
    with 5 m show ?thesis
      by (simp add: utf8_def scan_char_def next_byte_char class_of_def continuation_def Let_def cont_byte)
  next
    case 6
    then have "0xF1 \<le> 0xF0 + cp div 262144" "0xF0 + cp div 262144 \<le> 0xF3"
      using div_le_mono' [of "0x40000" cp 262144] div_le_mono' [of cp "0xFFFFF" 262144] by simp_all
    with 6 m show ?thesis
      by (simp add: utf8_def scan_char_def next_byte_char class_of_def continuation_def Let_def cont_byte)
  next
    case 7
    then have "cp div 262144 = 4" "256 \<le> cp div 4096" "cp div 4096 \<le> 271"
      using div_le_mono' [of "0x100000" cp 262144] div_le_mono' [of cp "0x10FFFF" 262144]
        div_le_mono' [of "0x100000" cp 4096] div_le_mono' [of cp "0x10FFFF" 4096] by simp_all
    moreover from this obtain r where r: "cp div 4096 = 256 + r" by (metis le_Suc_ex)
    moreover have "(256 + r) mod 64 = r mod 64" using mod_mult_self3 [of 4 64 r] by simp
    ultimately have "cp div 262144 = 4" "0x80 + cp div 4096 mod 64 \<le> 0x8F"
      by (simp_all only: r)
    with 7 m show ?thesis
      by (simp add: utf8_def scan_char_def next_byte_char class_of_def continuation_def Let_def cont_byte)
  qed
qed

lemma scan_end: "fst (scan_char []) = Stop"
  by (simp add: scan_char_def next_byte_def)

text \<open>The answer of the scanners in terms of code points.\<close>

definition decides :: "bool \<Rightarrow> nat list \<Rightarrow> bool" where
  "decides def cps =
     (case dropWhile (\<lambda>cp. class_of cp = Blank) cps of [] \<Rightarrow> def | cp # _ \<Rightarrow> class_of cp = Newline)"

lemma class_of_not_Stop [simp]: "class_of cp \<noteq> Stop"
  by (simp add: class_of_def)

lemma next_whitespace_utf8:
  "\<forall>cp \<in> set cps. code_point cp \<Longrightarrow> handlebars_scanner_next_whitespace (utf8s cps) def = decides def cps"
proof (induction cps)
  case Nil
  then show ?case
    by (subst handlebars_scanner_next_whitespace.simps) (simp add: utf8s_def scan_end decides_def)
next
  case (Cons cp cps)
  then have "scan_char (utf8s (cp # cps)) = (class_of cp, utf8s cps)"
    by (simp add: utf8s_def scan_utf8)
  with Cons show ?case
    by (subst handlebars_scanner_next_whitespace.simps)
      (cases "class_of cp"; simp add: decides_def)
qed

lemma decides_snoc:
  "decides (decides def [cp]) (rev cps) = decides def (rev (cp # cps))"
proof -
  have "decides d (xs @ [x]) = decides (decides d [x]) xs" for d xs x
    by (induction xs) (auto simp: decides_def)
  then show ?thesis by simp
qed

lemma prev_loop_utf8:
  "\<forall>cp \<in> set cps. code_point cp \<Longrightarrow> prev_whitespace_loop (utf8s cps) def = decides def (rev cps)"
proof (induction cps arbitrary: def)
  case Nil
  then show ?case
    by (subst prev_whitespace_loop.simps) (simp add: utf8s_def scan_end decides_def)
next
  case (Cons cp cps)
  then have "scan_char (utf8s (cp # cps)) = (class_of cp, utf8s cps)"
    by (simp add: utf8s_def scan_utf8)
  then have "prev_whitespace_loop (utf8s (cp # cps)) def
      = prev_whitespace_loop (utf8s cps) (decides def [cp])"
    by (subst prev_whitespace_loop.simps) (cases "class_of cp"; simp add: decides_def)
  with Cons show ?case by (simp add: decides_snoc del: rev.simps)
qed

section \<open>Properties\<close>

text \<open>C40. On UTF-8 text the scan forward answers by the first code point that is not a blank, and the scan back,
  which reads the same bytes from the left, by the last one; a text of blanks gives the default.\<close>
theorem scanners_decode_utf8:
  assumes "\<forall>cp \<in> set cps. code_point cp"
  shows "handlebars_scanner_next_whitespace (utf8s cps) def = decides def cps \<and>
     handlebars_scanner_prev_whitespace (utf8s cps) def = decides def (rev cps)"
  using next_whitespace_utf8 [OF assms] prev_loop_utf8 [OF assms]
  by (simp add: handlebars_scanner_prev_whitespace_def)

theorem scanners_decode_utf8_witness:
  "handlebars_scanner_next_whitespace (utf8s [0x20, 0x09, 0x0A, 0x20AC]) False \<and>
   \<not> handlebars_scanner_prev_whitespace (utf8s [0x20, 0x09, 0x0A, 0x20AC]) False"
  using scanners_decode_utf8 [of "[0x20, 0x09, 0x0A, 0x20AC]" False]
  by (simp add: code_point_def decides_def class_of_def)

text \<open>A byte that belongs to no code point ends both scans: the scan back then does not see the text behind
  it, and answers for the part in front of it, although only the text since the last line end matters.\<close>
theorem scan_back_stops_at_invalid_byte:
  assumes "\<forall>cp \<in> set cps. code_point cp" "0x80 \<le> (of_char c :: nat)" "continuation (of_char c) = None"
  shows "handlebars_scanner_prev_whitespace (utf8s cps @ c # rest) def = decides def (rev cps)"
  using assms(1) unfolding handlebars_scanner_prev_whitespace_def
proof (induction cps arbitrary: def)
  case Nil
  have "fst (scan_char (c # rest)) = Stop"
    using assms(2,3) by (simp add: scan_char_def next_byte_def Let_def)
  then show ?case by (subst prev_whitespace_loop.simps) (simp add: utf8s_def decides_def)
next
  case (Cons cp cps)
  then have "scan_char (utf8s (cp # cps) @ c # rest) = (class_of cp, utf8s cps @ c # rest)"
    by (simp add: utf8s_def scan_utf8)
  then have "prev_whitespace_loop (utf8s (cp # cps) @ c # rest) def
      = prev_whitespace_loop (utf8s cps @ c # rest) (decides def [cp])"
    by (subst prev_whitespace_loop.simps) (cases "class_of cp"; simp add: decides_def)
  with Cons show ?case by (simp add: decides_snoc del: rev.simps)
qed

theorem scan_back_stops_at_invalid_byte_witness:
  "handlebars_scanner_prev_whitespace (utf8s [0x0A] @ CHR 0xFF # ''text'') False"
  using scan_back_stops_at_invalid_byte [of "[0x0A]" "CHR 0xFF" "''text''" False]
  by (simp add: code_point_def decides_def class_of_def continuation_def)

end
