(* ===== verification/StringEscape.thy ===== *)
theory StringEscape
  imports HString
begin

text \<open>
  The escaping operations of src/handlebars_string.c: \<open>addcslashes\<close> and \<open>stripcslashes\<close> (C escapes)
  and \<open>htmlspecialchars\<close>. The lemmas show that the sizes the code computes in advance are right, that
  the C escapes can be undone, and that escaped text holds none of the HTML special characters.
\<close>

section \<open>C escapes\<close>

abbreviation code :: "char \<Rightarrow> nat" where "code c \<equiv> of_char c"

text \<open>\<open>sprintf(target, "%03o", c)\<close>.\<close>

definition oct3 :: "char \<Rightarrow> string" where
  "oct3 c = [char_of (48 + code c div 64), char_of (48 + code c div 8 mod 8), char_of (48 + code c mod 8)]"

definition control_letter :: "char \<Rightarrow> char option" where
  "control_letter c =
     (if c = CHR 0x0A then Some (CHR ''n'') else if c = CHR 0x09 then Some (CHR ''t'')
      else if c = CHR 0x0D then Some (CHR ''r'') else if c = CHR 0x07 then Some (CHR ''a'')
      else if c = CHR 0x0B then Some (CHR ''v'') else if c = CHR 0x08 then Some (CHR ''b'')
      else if c = CHR 0x0C then Some (CHR ''f'') else None)"

definition addcslashes_char :: "string \<Rightarrow> char \<Rightarrow> string" where
  "addcslashes_char what c =
     (if c \<in> set what then
        if code c < 32 \<or> code c > 126 then
          (case control_letter c of Some l \<Rightarrow> [backslash, l] | None \<Rightarrow> backslash # oct3 c)
        else [backslash, c]
      else [c])"

definition handlebars_string_addcslashes :: "hstr \<Rightarrow> string \<Rightarrow> hbs_error + hstr" where
  "handlebars_string_addcslashes s what =
     (let new = handlebars_string_init (length (sval s) * 4 + 1);
          out = concat (map (addcslashes_char what) (sval s))
      in if length out + 1 > salloc new then Inl Mem_error
         else Inr (handlebars_string_compact (new\<lparr>sval := out, shash := 0\<rparr>)))"

definition escape_letter :: "char \<Rightarrow> char option" where
  "escape_letter c =
     (if c = CHR ''n'' then Some (CHR 0x0A) else if c = CHR ''r'' then Some (CHR 0x0D)
      else if c = CHR ''a'' then Some (CHR 0x07) else if c = CHR ''t'' then Some (CHR 0x09)
      else if c = CHR ''v'' then Some (CHR 0x0B) else if c = CHR ''b'' then Some (CHR 0x08)
      else if c = CHR ''f'' then Some (CHR 0x0C) else if c = backslash then Some backslash
      else None)"

definition isoct :: "char \<Rightarrow> bool" where
  "isoct c \<longleftrightarrow> 48 \<le> code c \<and> code c \<le> 55"

definition isxdigit :: "char \<Rightarrow> bool" where
  "isxdigit c \<longleftrightarrow> (48 \<le> code c \<and> code c \<le> 57) \<or> (97 \<le> code c \<and> code c \<le> 102) \<or> (65 \<le> code c \<and> code c \<le> 70)"

definition xdigit_val :: "char \<Rightarrow> nat" where
  "xdigit_val c = (if code c \<le> 57 then code c - 48 else if code c \<ge> 97 then code c - 87 else code c - 55)"

text \<open>\<open>strtol(numtmp, NULL, base)\<close> on a string of digits.\<close>

definition strtol :: "nat \<Rightarrow> string \<Rightarrow> nat" where
  "strtol base ds = fold (\<lambda>d n. n * base + xdigit_val d) ds 0"

text \<open>
  The loop: the bytes written through \<open>target\<close> and the total by which \<open>nlen\<close> is decremented.
\<close>

definition emit :: "char \<Rightarrow> nat \<Rightarrow> string \<times> nat \<Rightarrow> string \<times> nat" where
  "emit c n r = (c # fst r, n + snd r)"

lemma emit_simps [simp]: "fst (emit c n r) = c # fst r" "snd (emit c n r) = n + snd r"
  by (simp_all add: emit_def)

fun strip_loop :: "string \<Rightarrow> string \<times> nat" where
  "strip_loop [] = ([], 0)"
| "strip_loop [c] = ([c], 0)"
| "strip_loop (c # d # rest) =
     (if c \<noteq> backslash then emit c 0 (strip_loop (d # rest))
      else case escape_letter d of
        Some x \<Rightarrow> emit x 1 (strip_loop rest)
      | None \<Rightarrow>
          if d = CHR ''x'' \<and> rest \<noteq> [] \<and> isxdigit (hd rest) then
            if tl rest \<noteq> [] \<and> isxdigit (hd (tl rest))
            then emit (char_of (strtol 16 [hd rest, hd (tl rest)])) 3 (strip_loop (drop 2 rest))
            else emit (char_of (strtol 16 [hd rest])) 2 (strip_loop (tl rest))
          else
            let ds = takeWhile isoct (take 3 (d # rest))
            in if ds \<noteq> []
               then emit (char_of (strtol 8 ds)) (length ds) (strip_loop (drop (length ds - 1) rest))
               else emit d 1 (strip_loop rest))"

text \<open>
  \<open>stripcslashes\<close> takes its pointers before it separates the string. Of an unshared string it
  rewrites the bytes in place. Of a shared one it returns a copy of the unprocessed bytes, cut to the
  new length, and rewrites the bytes of the object the other holders keep (second component).
\<close>

definition strip_written :: "string \<Rightarrow> string \<Rightarrow> string" where
  "strip_written v out = (if length out < length v then out @ NUL # drop (Suc (length out)) v else out)"

definition handlebars_string_stripcslashes :: "hstr \<Rightarrow> hstr \<times> hstr option" where
  "handlebars_string_stripcslashes s =
     (let (out, dec) = strip_loop (sval s);
          nlen = length (sval s) - dec;
          bytes = strip_written (sval s) out
      in if 1 < src s
         then (handlebars_string_compact ((separate_string s)\<lparr>sval := take nlen (sval s), shash := 0\<rparr>),
               Some (s\<lparr>src := src s - 1, sval := bytes\<rparr>))
         else (handlebars_string_compact (s\<lparr>sval := take nlen bytes, shash := 0\<rparr>), None))"

section \<open>HTML escaping\<close>

definition htmlspecialchars_pair :: "char \<Rightarrow> string" where
  "htmlspecialchars_pair c =
     (if c = CHR ''&'' then ''&amp;'' else if c = CHR 0x22 then ''&quot;''
      else if c = CHR 0x27 then ''&#x27;'' else if c = CHR ''<'' then ''&lt;''
      else if c = CHR ''>'' then ''&gt;'' else if c = CHR 0x60 then ''&#x60;'' else [])"

definition htmlspecialchars_len :: "string \<Rightarrow> nat" where
  "htmlspecialchars_len str =
     fold (\<lambda>c n. if htmlspecialchars_pair c \<noteq> [] then n + (length (htmlspecialchars_pair c) - 1) else n)
       (rev str) (length str)"

definition handlebars_string_htmlspecialchars_append :: "hstr \<Rightarrow> string \<Rightarrow> hbs_error + hstr" where
  "handlebars_string_htmlspecialchars_append s str =
     (if str = [] then Inr s
      else
        let s1 = separate_string s;
            new_len = htmlspecialchars_len str
        in if new_len = length str then handlebars_string_append s1 str
           else
             efold (\<lambda>c t. if htmlspecialchars_pair c \<noteq> []
                         then handlebars_string_append_unsafe t (htmlspecialchars_pair c)
                         else handlebars_string_append_unsafe t [c])
               str (handlebars_string_extend s1 (length (sval s1) + new_len)))"

definition handlebars_string_htmlspecialchars :: "string \<Rightarrow> hbs_error + hstr" where
  "handlebars_string_htmlspecialchars str =
     ebind (handlebars_string_htmlspecialchars_append (handlebars_string_init (length str * 4)) str)
       (\<lambda>s. Inr (handlebars_string_compact s))"

section \<open>The C escapes are undone by the strip\<close>

lemma oct3_length [simp]: "length (oct3 c) = 3"
  by (simp add: oct3_def)

lemma addcslashes_char_length: "length (addcslashes_char what c) \<le> 4"
  by (simp add: addcslashes_char_def split: option.splits)

lemma addcslashes_length: "length (concat (map (addcslashes_char what) v)) \<le> 4 * length v"
  by (induction v) (use addcslashes_char_length in \<open>auto simp: add_mono\<close>)

lemma addcslashes_eq:
  "\<exists>t. handlebars_string_addcslashes s what = Inr t \<and> str_ok t \<and>
     sval t = concat (map (addcslashes_char what) (sval s))"
proof -
  have "length (concat (map (addcslashes_char what) (sval s))) < length (sval s) * 4 + 2"
    using addcslashes_length [of what "sval s"] by simp
  moreover from this have "str_ok (handlebars_string_compact
      \<lparr>src = 0, sval = concat (map (addcslashes_char what) (sval s)), shash = 0,
       salloc = Suc (Suc (length (sval s) * 4))\<rparr>)"
    by (intro str_ok_compact) (simp add: str_ok_def)
  ultimately show ?thesis
    by (auto simp: handlebars_string_addcslashes_def Let_def handlebars_string_init_def)
qed

lemma addcslashes_src: "handlebars_string_addcslashes s what = Inr t \<Longrightarrow> src t = 0"
  by (auto simp: handlebars_string_addcslashes_def Let_def handlebars_string_init_def handlebars_string_compact_def separate_string_def
      split: if_splits)

text \<open>The length the loop keeps in \<open>nlen\<close> is the number of bytes it wrote.\<close>

lemma strip_len: "length (fst (strip_loop v)) + snd (strip_loop v) = length v"
proof (induction v rule: strip_loop.induct)
  case (3 c d rest)
  let ?ds = "takeWhile isoct (take 3 (d # rest))"
  have ds: "?ds \<noteq> [] \<Longrightarrow> length ?ds - 1 \<le> length rest"
    using length_takeWhile_le [of isoct "take 3 (d # rest)"] by simp
  show ?case
  proof (cases "c \<noteq> backslash")
    case True
    with 3(1) show ?thesis by simp
  next
    case False
    show ?thesis
    proof (cases "escape_letter d")
      case (Some x)
      with 3(6) [OF False Some] False show ?thesis by simp
    next
      case None
      let ?hex = "d = CHR ''x'' \<and> rest \<noteq> [] \<and> isxdigit (hd rest)"
      show ?thesis
      proof (cases ?hex)
        case True
        with 3(2,3) None False show ?thesis
          by (cases rest; cases "tl rest") auto
      next
        case nh: False
        show ?thesis
        proof (cases "?ds = []")
          case True
          with 3(5) None False nh show ?thesis by (auto simp: Let_def)
        next
          case nds: False
          then have "0 < length ?ds" by blast
          with 3(4) None False nh nds ds [OF nds] show ?thesis by (auto simp: Let_def)
        qed
      qed
    qed
  qed
qed auto

text \<open>A strip undoes one escaped character, whatever follows it.\<close>

lemma code_less: "code c < 256"
  by (simp add: of_char_def)

text \<open>
  The masks for which the escapes can be undone: they hold none of the characters that have a meaning of their own
  behind a backslash. The masks of the source are of that kind.
\<close>

definition strippable :: "string \<Rightarrow> bool" where
  "strippable what \<longleftrightarrow> (\<forall>c \<in> set what. (c \<noteq> backslash \<longrightarrow> escape_letter c = None) \<and> c \<noteq> CHR ''x'' \<and> \<not> isoct c)"

text \<open>The masks of the token printer, the opcode printer, the delimiter preprocessor and the tree printer.\<close>

definition source_masks :: "string list" where
  "source_masks = [[CHR 0x0D, newline, CHR 0x09, CHR 0x0B], [CHR 0x0D, newline, CHR 0x09], [CHR 0x22], [CHR 0x27]]"

lemma source_masks_strippable: "\<forall>what \<in> set source_masks. strippable what"
  by code_simp

lemma control_letter_escape:
  "control_letter c = Some l \<Longrightarrow> escape_letter l = Some c"
  by (auto simp: control_letter_def escape_letter_def split: if_splits)

lemma oct3_isoct: "d \<in> set (oct3 c) \<Longrightarrow> isoct d"
proof -
  have "code c div 64 < (4::nat)" using code_less [of c] by (simp add: less_mult_imp_div_less)
  moreover assume "d \<in> set (oct3 c)"
  ultimately show "isoct d"
    by (auto simp: oct3_def isoct_def of_char_of le_Suc_eq less_Suc_eq_le [symmetric])
qed

lemma isoct_letters [simp]:
  "\<not> isoct (CHR ''n'')" "\<not> isoct (CHR ''r'')" "\<not> isoct (CHR ''a'')" "\<not> isoct (CHR ''t'')"
  "\<not> isoct (CHR ''v'')" "\<not> isoct (CHR ''b'')" "\<not> isoct (CHR ''f'')" "\<not> isoct (CHR ''x'')"
  "\<not> isoct backslash"
  by (simp_all add: isoct_def)

lemma isoct_neq: "isoct c \<Longrightarrow> \<not> isoct d \<Longrightarrow> c \<noteq> d"
  by blast

lemma isoct_not_letter: "isoct c \<Longrightarrow> escape_letter c = None" "isoct c \<Longrightarrow> c \<noteq> CHR ''x''"
  by (simp_all add: escape_letter_def isoct_neq)

lemma octal_digits: "n = (n div 64 * 8 + n div 8 mod 8) * 8 + n mod (8::nat)"
proof -
  have "n div 8 div 8 = n div 64" by (simp flip: div_mult2_eq)
  then have "n div 8 = n div 64 * 8 + n div 8 mod 8" by (metis div_mult_mod_eq)
  then show ?thesis by (metis div_mult_mod_eq)
qed

lemma xdigit_val_digit: "k < 10 \<Longrightarrow> xdigit_val (char_of (48 + k)) = k"
  by (simp add: xdigit_val_def of_char_of)

lemma strtol_oct3: "char_of (strtol 8 (oct3 c)) = c"
proof -
  let ?n = "code c :: nat"
  have "?n div 64 < 10" using less_mult_imp_div_less [of ?n 10 64] code_less [of c] by simp
  moreover have "?n div 8 mod 8 < 10" "?n mod 8 < 10" by (simp_all add: less_le_trans [OF mod_less_divisor])
  ultimately have "strtol 8 (oct3 c) = (?n div 64 * 8 + ?n div 8 mod 8) * 8 + ?n mod 8"
    unfolding strtol_def oct3_def by (simp only: fold.simps comp_def id_def mult_zero_left add_0 xdigit_val_digit)
  then have "strtol 8 (oct3 c) = ?n" by (simp only: octal_digits [of ?n, symmetric])
  then show ?thesis by simp
qed

lemma strip_control:
  "control_letter c = Some l \<Longrightarrow> fst (strip_loop (backslash # l # rest)) = c # fst (strip_loop rest)"
  by (simp add: control_letter_escape)

lemma strip_oct3: "fst (strip_loop (backslash # oct3 c @ rest)) = c # fst (strip_loop rest)"
proof -
  obtain d1 d2 d3 where o: "oct3 c = [d1, d2, d3]"
    by (simp add: oct3_def)
  then have i: "isoct d1" "isoct d2" "isoct d3" using oct3_isoct [of _ c] by auto
  then have n: "escape_letter d1 = None" "d1 \<noteq> CHR ''x''"
    using isoct_not_letter [of d1] by auto
  have ds: "takeWhile isoct (take 3 (d1 # d2 # d3 # rest)) = oct3 c"
    using i o by (simp add: numeral_3_eq_3)
  show ?thesis using n ds strtol_oct3 [of c] by (simp add: o Let_def)
qed

lemma strip_escaped_char:
  assumes "strippable what" "c \<in> set what \<or> c \<noteq> backslash"
  shows "fst (strip_loop (addcslashes_char what c @ rest)) = c # fst (strip_loop rest)"
proof (cases "c \<in> set what")
  case False
  with assms have "c \<noteq> backslash" by blast
  with False show ?thesis by (cases rest) (auto simp: addcslashes_char_def)
next
  case True
  show ?thesis
  proof (cases "code c < (32::nat) \<or> code c > (126::nat)")
    case ctl: True
    with True show ?thesis
      using strip_control strip_oct3
      by (cases "control_letter c") (auto simp: addcslashes_char_def)
  next
    case False
    then have ac: "addcslashes_char what c = [backslash, c]" using True by (auto simp: addcslashes_char_def)
    show ?thesis
    proof (cases "c = backslash")
      case c: True
      then have "escape_letter c = Some backslash" by (simp add: escape_letter_def)
      then show ?thesis using ac c by simp
    next
      case nb: False
      then have "escape_letter c = None" "c \<noteq> CHR ''x''" "\<not> isoct c"
        using assms True by (auto simp: strippable_def)
      then show ?thesis using ac by (auto simp: Let_def)
    qed
  qed
qed

lemma strip_addcslashes:
  "strippable what \<Longrightarrow> backslash \<in> set what \<or> backslash \<notin> set v \<Longrightarrow> fst (strip_loop (concat (map (addcslashes_char what) v))) = v"
proof (induction v)
  case Nil
  then show ?case by simp
next
  case (Cons c v)
  then have "c \<in> set what \<or> c \<noteq> backslash" by auto
  from strip_escaped_char [OF Cons.prems(1) this] Cons show ?case by auto
qed

lemma stripcslashes_unshared:
  assumes "src s \<le> 1"
  shows "sval (fst (handlebars_string_stripcslashes s)) = fst (strip_loop (sval s))"
proof -
  obtain out dec where r: "strip_loop (sval s) = (out, dec)" by fastforce
  then have "length out + dec = length (sval s)" using strip_len [of "sval s"] by simp
  then have "length (sval s) - dec = length out" by simp
  moreover have "\<not> 1 < src s" using assms by (simp add: not_less)
  ultimately show ?thesis
    using r by (simp add: handlebars_string_stripcslashes_def strip_written_def Let_def)
qed

section \<open>HTML escaping, against the pieces\<close>

definition html_escape_char :: "char \<Rightarrow> string" where
  "html_escape_char c = (if htmlspecialchars_pair c \<noteq> [] then htmlspecialchars_pair c else [c])"

definition html_escape :: "string \<Rightarrow> string" where
  "html_escape str = concat (map html_escape_char str)"

text \<open>The size computed before the copy is the size of the result.\<close>

lemma htmlspecialchars_len_fold:
  "fold (\<lambda>c n. if htmlspecialchars_pair c \<noteq> [] then n + (length (htmlspecialchars_pair c) - 1) else n)
     str n + length str = n + length (concat (map html_escape_char str))"
proof (induction str arbitrary: n)
  case Nil
  then show ?case by simp
next
  case (Cons c str)
  have "htmlspecialchars_pair c \<noteq> [] \<Longrightarrow> 0 < length (htmlspecialchars_pair c)" by simp
  with Cons.IH [of n] Cons.IH [of "n + (length (htmlspecialchars_pair c) - 1)"] show ?case
    by (cases "htmlspecialchars_pair c = []") (auto simp: html_escape_char_def)
qed

lemma htmlspecialchars_len: "htmlspecialchars_len str = length (html_escape str)"
proof -
  have "length (concat (map html_escape_char (rev str))) = length (html_escape str)"
    by (simp add: html_escape_def length_concat o_def sum_list_rev flip: rev_map)
  with htmlspecialchars_len_fold [of "rev str" "length str"] show ?thesis
    by (simp add: htmlspecialchars_len_def)
qed

lemma html_escape_id:
  "length (html_escape str) = length str \<Longrightarrow> html_escape str = str"
proof -
  have le: "length str \<le> length (html_escape str)" for str
  proof (induction str)
    case (Cons c str)
    have "0 < length (html_escape_char c)" by (simp add: html_escape_char_def)
    with Cons show ?case by (simp add: html_escape_def del: length_greater_0_conv)
  qed simp
  have gt: "htmlspecialchars_pair c \<noteq> [] \<Longrightarrow> 1 < length (htmlspecialchars_pair c)" for c
    by (simp add: htmlspecialchars_pair_def split: if_splits)
  show "length (html_escape str) = length str \<Longrightarrow> html_escape str = str"
  proof (induction str)
    case Nil
    then show ?case by (simp add: html_escape_def)
  next
    case (Cons c str)
    from Cons.prems le [of str] gt [of c] have "htmlspecialchars_pair c = []"
      by (intro ccontr [of "htmlspecialchars_pair c = []"]) (simp add: html_escape_def html_escape_char_def)
    with Cons show ?case by (simp add: html_escape_def html_escape_char_def)
  qed
qed

lemma escape_loop:
  "length (sval s) + length (html_escape str) < salloc s \<Longrightarrow>
     \<exists>t. efold (\<lambda>c t. if htmlspecialchars_pair c \<noteq> []
                     then handlebars_string_append_unsafe t (htmlspecialchars_pair c)
                     else handlebars_string_append_unsafe t [c]) str s = Inr t
       \<and> str_ok t \<and> sval t = sval s @ html_escape str"
proof (induction str arbitrary: s)
  case Nil
  then show ?case by (simp add: html_escape_def str_ok_def)
next
  case (Cons c str)
  let ?s = "s\<lparr>sval := sval s @ html_escape_char c, shash := 0\<rparr>"
  from Cons.prems have "length (sval ?s) + length (html_escape str) < salloc ?s"
    by (simp add: html_escape_def)
  from Cons.IH [OF this] Cons.prems show ?case
    by (auto simp: append_unsafe_ok html_escape_def html_escape_char_def split: if_splits)
qed

lemma htmlspecialchars_append_total:
  assumes "str_ok s"
  shows "\<exists>t. handlebars_string_htmlspecialchars_append s str = Inr t \<and> str_ok t \<and>
     sval t = sval s @ html_escape str"
proof (cases "str = [] \<or> htmlspecialchars_len str = length str")
  case True
  then show ?thesis
    using assms append_total [of "separate_string s" str] html_escape_id [of str]
    by (auto simp: handlebars_string_htmlspecialchars_append_def Let_def htmlspecialchars_len html_escape_def)
next
  case False
  let ?e = "handlebars_string_extend (separate_string s) (length (sval s) + length (html_escape str))"
  have "length (sval ?e) + length (html_escape str) < salloc ?e"
    using salloc_extend [of "length (sval s) + length (html_escape str)" "separate_string s"] by simp
  from escape_loop [OF this] False show ?thesis
    by (auto simp: handlebars_string_htmlspecialchars_append_def Let_def htmlspecialchars_len)
qed

text \<open>Escaping is one more append of the string buffer interface.\<close>

interpretation escaped_buf: string_buffer sval str_ok html_escape handlebars_string_htmlspecialchars_append
  by unfold_locales (rule htmlspecialchars_append_total)

section \<open>Escaped text is inert and decodable\<close>

text \<open>The entity decoder a browser applies, for the entities the table has.\<close>

definition html_entities :: "(string \<times> char) list" where
  "html_entities = [(''&amp;'', CHR ''&''), (''&quot;'', CHR 0x22), (''&#x27;'', CHR 0x27),
     (''&lt;'', CHR ''<''), (''&gt;'', CHR ''>''), (''&#x60;'', CHR 0x60)]"

fun html_decode :: "nat \<Rightarrow> string \<Rightarrow> string" where
  "html_decode 0 s = s"
| "html_decode (Suc n) [] = []"
| "html_decode (Suc n) (c # cs) =
     (case find (\<lambda>(e, _). take (length e) (c # cs) = e) html_entities of
        Some (e, d) \<Rightarrow> d # html_decode n (drop (length e) (c # cs))
      | None \<Rightarrow> c # html_decode n cs)"

lemma decode_escaped_char:
  "html_decode (Suc n) (html_escape_char c @ rest) = c # html_decode n rest"
  by (simp add: html_escape_char_def htmlspecialchars_pair_def html_entities_def)

lemma html_decode_escape: "length s \<le> n \<Longrightarrow> html_decode n (html_escape s) = s"
proof (induction s arbitrary: n)
  case Nil
  then show ?case by (cases n) (auto simp: html_escape_def)
next
  case (Cons c s)
  then obtain m where "n = Suc m" by (cases n) auto
  with Cons show ?case
    by (simp add: html_escape_def decode_escaped_char)
qed

definition html_special :: "char \<Rightarrow> bool" where
  "html_special c \<longleftrightarrow> c \<in> {CHR 0x22, CHR 0x27, CHR ''<'', CHR ''>'', CHR 0x60}"

lemma html_escape_char_inert: "d \<in> set (html_escape_char c) \<Longrightarrow> \<not> html_special d"
  by (auto simp: html_escape_char_def htmlspecialchars_pair_def html_special_def split: if_splits)

lemma html_escape_inert: "d \<in> set (html_escape s) \<Longrightarrow> \<not> html_special d"
  by (auto simp: html_escape_def html_escape_char_inert)

section \<open>Properties\<close>

text \<open>C38. Stripping undoes escaping for every mask without a letter or digit that has a meaning of its own behind
  a backslash, the masks of the source among them, when the mask holds the backslash or the text does not (a text
  with a backslash of its own is not undone under the masks of the source); the buffer sized for the escaped
  text is large enough.\<close>
theorem addcslashes_stripcslashes:
  assumes "strippable what" "backslash \<in> set what \<or> backslash \<notin> set (sval s)"
  shows "\<exists>t. handlebars_string_addcslashes s what = Inr t \<and> str_ok t \<and>
     sval (fst (handlebars_string_stripcslashes t)) = sval s"
proof -
  obtain t where t: "handlebars_string_addcslashes s what = Inr t" "str_ok t"
      "sval t = concat (map (addcslashes_char what) (sval s))"
    using addcslashes_eq [of s what] by auto
  have "src t \<le> 1" using addcslashes_src [OF t(1)] by simp
  have "sval (fst (handlebars_string_stripcslashes t)) = sval s"
    unfolding stripcslashes_unshared [OF \<open>src t \<le> 1\<close>] t(3) by (rule strip_addcslashes [OF assms])
  with t(1,2) show ?thesis by blast
qed

text \<open>The mask of the opcode printer, and one with the backslash and a byte that needs octal digits.\<close>

theorem addcslashes_stripcslashes_witness:
  "(\<exists>t. handlebars_string_addcslashes (handlebars_string_ctor [CHR ''a'', newline, CHR 0x09]) [CHR 0x0D, newline, CHR 0x09] = Inr t \<and>
     sval t = [CHR ''a'', backslash, CHR ''n'', backslash, CHR ''t''] \<and>
     sval (fst (handlebars_string_stripcslashes t)) = [CHR ''a'', newline, CHR 0x09]) \<and>
   (\<exists>t. handlebars_string_addcslashes (handlebars_string_ctor [backslash, CHR 0xC3]) [backslash, CHR 0xC3] = Inr t \<and>
     sval (fst (handlebars_string_stripcslashes t)) = [backslash, CHR 0xC3])"
proof -
  let ?s = "handlebars_string_ctor [CHR ''a'', newline, CHR 0x09]"
  let ?m = "[CHR 0x0D, newline, CHR 0x09]"
  have m: "strippable ?m" "backslash \<in> set ?m \<or> backslash \<notin> set (sval ?s)"
    using source_masks_strippable by (simp_all add: source_masks_def)
  obtain t where t: "handlebars_string_addcslashes ?s ?m = Inr t" "sval (fst (handlebars_string_stripcslashes t)) = sval ?s"
    using addcslashes_stripcslashes [OF m] by blast
  have "sval t = [CHR ''a'', backslash, CHR ''n'', backslash, CHR ''t'']"
    using addcslashes_eq [of ?s ?m] t(1) by (auto simp: addcslashes_char_def control_letter_def)
  moreover have "strippable [backslash, CHR 0xC3]" by (simp add: strippable_def escape_letter_def isoct_def)
  ultimately show ?thesis
    using t addcslashes_stripcslashes [of "[backslash, CHR 0xC3]" "handlebars_string_ctor [backslash, CHR 0xC3]"] by auto
qed

text \<open>Stripping a shared string does not strip the string it returns: the bytes come from the copy, cut to
  the new length, while the object the other holders keep is rewritten.\<close>
theorem stripcslashes_shared:
  assumes "1 < src s" "strip_loop (sval s) = (out, dec)"
  shows "sval (fst (handlebars_string_stripcslashes s)) = take (length out) (sval s) \<and>
     (\<exists>orig. snd (handlebars_string_stripcslashes s) = Some orig \<and> take (length out) (sval orig) = out)"
proof -
  have "length (sval s) - dec = length out"
    using strip_len [of "sval s"] assms(2) by simp
  then show ?thesis
    using assms by (simp add: handlebars_string_stripcslashes_def strip_written_def Let_def)
qed

theorem stripcslashes_shared_witness:
  "sval (fst (handlebars_string_stripcslashes ((handlebars_string_ctor [CHR 0x5C, CHR ''t'', CHR ''b''])\<lparr>src := 2\<rparr>)))
     = [CHR 0x5C, CHR ''t'']"
proof -
  have "strip_loop (sval ((handlebars_string_ctor [CHR 0x5C, CHR ''t'', CHR ''b''])\<lparr>src := 2\<rparr>)) = ([CHR 0x09, CHR ''b''], 1)"
    by (simp add: str_defs escape_letter_def emit_def)
  from stripcslashes_shared [OF _ this] show ?thesis by (simp add: str_defs)
qed

text \<open>C39. HTML escaping never writes outside the buffer it sizes in advance; what it appends holds no character
  that can open a tag or end an attribute, and decoding the entities gives the text back.\<close>
theorem htmlspecialchars_correct:
  assumes "str_ok s"
  shows "\<exists>t out. handlebars_string_htmlspecialchars_append s str = Inr t \<and> str_ok t \<and> sval t = sval s @ out \<and>
     (\<forall>c \<in> set out. \<not> html_special c) \<and> html_decode (length str) out = str"
  using htmlspecialchars_append_total [OF assms, of str] html_escape_inert [of _ str]
    html_decode_escape [of str "length str"] by blast

theorem htmlspecialchars_correct_witness:
  "\<exists>t out. handlebars_string_htmlspecialchars_append (handlebars_string_ctor ''x'') ''<b>'' = Inr t \<and> str_ok t \<and>
     sval t = ''x'' @ out \<and> (\<forall>c \<in> set out. \<not> html_special c) \<and> html_decode 3 out = ''<b>''"
  using htmlspecialchars_correct [OF str_ok_ctor(2), of "''x''" "''<b>''"]
  by (simp add: numeral_3_eq_3)

end
