(* ===== verification/Delimiters.thy ===== *)
theory Delimiters
  imports StringEscape
begin

text \<open>
  The delimiter preprocessor of src/handlebars_delimiters.c: it rewrites a template with custom delimiters
  (set by a tag such as \<open>{{=<% %>=}}\<close>) to one with the standard delimiters, and leaves a
  \<open>hbsc_set_delimiters\<close> tag at each change.

  The C loop keeps a pointer \<open>p\<close> and a count \<open>i\<close> of the bytes left; here both are the list of the bytes left
  (\<open>*p\<close> on the empty list is the NUL terminator). The checks of \<open>move_forward\<close> never fire, because each
  call is behind a test of \<open>i\<close>, so they have no branch. The labels \<open>state0\<close> and \<open>state2\<close> are the two values of
  \<open>pp_state\<close>; the code at \<open>state1\<close> runs once per delimiter change and is \<open>delimiter_switch\<close>.
\<close>

section \<open>The preprocessor\<close>

datatype pp_state = S_default | S_tag

record delims =
  dopen :: string
  dclose :: string
  starts_with_bracket :: bool

definition open_bracket :: "string \<Rightarrow> bool" where
  "open_bracket s = (s \<noteq> [] \<and> hd s = CHR ''{'')"

definition space :: char where "space = CHR '' ''"

text \<open>
  The tag at \<open>state1\<close>, in the order of the scans. The new opening delimiter runs up to a blank.
\<close>

definition scan_new_open :: "string \<Rightarrow> hbs_error + string \<times> string" where
  "scan_new_open s =
     (let po = dropWhile (\<lambda>c. c = space) s;
          p = dropWhile (\<lambda>c. c \<noteq> space) po
      in if p = [] then Inl (Throw HANDLEBARS_ERROR ''Delimiter change must contain a space'')
         else Inr (takeWhile (\<lambda>c. c \<noteq> space) po, p))"

text \<open>
  The new closing delimiter runs up to the second equals sign, less the blanks in front of that. With
  nothing between the blanks and the sign the scan back leaves the token, and the length of the new
  closing delimiter wraps.
\<close>

definition scan_new_close :: "string \<Rightarrow> hbs_error + string \<times> string" where
  "scan_new_close s =
     (let pc = dropWhile (\<lambda>c. c = space) s;
          token = takeWhile (\<lambda>c. c \<noteq> CHR ''='') pc;
          p = dropWhile (\<lambda>c. c \<noteq> CHR ''='') pc
      in if p = [] then Inl (Throw HANDLEBARS_ERROR ''Delimiter change must contain two equals'')
         else if token = [] then Inl Mem_error
         else Inr (rev (dropWhile (\<lambda>c. c = space) (rev token)), tl p))"

text \<open>The new delimiters and the text behind the tag.\<close>

definition delimiter_switch :: "delims \<Rightarrow> string \<Rightarrow> hbs_error + string \<times> string \<times> string" where
  "delimiter_switch d rest =
     ebind (scan_new_open (drop (length (dopen d) + 1) rest)) (\<lambda>(new_open, p1).
     ebind (scan_new_close p1) (\<lambda>(new_close, p3).
       if length p3 < length (dclose d) \<or> \<not> strncmp_eq (length (dclose d)) p3 (dclose d)
       then Inl (Throw HANDLEBARS_ERROR ''Delimiter change must end with an equals'')
       else Inr (new_open, new_close, drop (length (dclose d)) p3)))"

text \<open>The tag that stands for the change in the output.\<close>

definition append_set_delimiters :: "hstr \<Rightarrow> string \<Rightarrow> string \<Rightarrow> hbs_error + hstr" where
  "append_set_delimiters new op cl =
     ebind (handlebars_string_addcslashes (handlebars_string_ctor op) [CHR 0x22]) (\<lambda>open_escaped.
     ebind (handlebars_string_addcslashes (handlebars_string_ctor cl) [CHR 0x22]) (\<lambda>close_escaped.
     ebind (handlebars_string_append new (''{{hbsc_set_delimiters '' @ [CHR 0x22])) (\<lambda>new1.
     ebind (handlebars_string_append_str new1 open_escaped) (\<lambda>new2.
     ebind (handlebars_string_append new2 [CHR 0x22, CHR '' '', CHR 0x22]) (\<lambda>new3.
     ebind (handlebars_string_append_str new3 close_escaped) (\<lambda>new4.
     handlebars_string_append new4 (CHR 0x22 # ''}}'')))))))"

definition at_switch :: "delims \<Rightarrow> string \<Rightarrow> bool" where
  "at_switch d rest \<longleftrightarrow>
     length rest \<ge> length (dopen d) + length (dclose d) + 4 \<and>
     strncmp_eq (length (dopen d)) rest (dopen d) \<and> rest ! length (dopen d) = CHR ''=''"

definition at_open :: "delims \<Rightarrow> string \<Rightarrow> bool" where
  "at_open d rest \<longleftrightarrow>
     length rest \<ge> length (dopen d) + length (dclose d) + 1 \<and>
     strncmp_eq (length (dopen d)) rest (dopen d)"

definition at_close :: "delims \<Rightarrow> string \<Rightarrow> bool" where
  "at_close d rest \<longleftrightarrow>
     length rest \<ge> length (dclose d) \<and> strncmp_eq (length (dclose d)) rest (dclose d)"

fun pp_loop :: "nat \<Rightarrow> pp_state \<Rightarrow> delims \<Rightarrow> string \<Rightarrow> hstr \<Rightarrow> hbs_error + hstr" where
  "pp_loop 0 st d rest new = Inl Out_of_fuel"
| "pp_loop (Suc n) st d [] new = Inr new"
| "pp_loop (Suc n) S_default d (c # cs) new =
     (if c = backslash then
        ebind (handlebars_string_append new [c]) (\<lambda>new1.
        ebind (handlebars_string_append new1 [case cs of [] \<Rightarrow> NUL | e # _ \<Rightarrow> e]) (\<lambda>new2.
          pp_loop n S_default d (tl cs) new2))
      else if at_switch d (c # cs) then
        ebind (delimiter_switch d (c # cs)) (\<lambda>(op, cl, rest).
        ebind (append_set_delimiters new op cl) (\<lambda>new1.
          pp_loop n S_default \<lparr>dopen = op, dclose = cl, starts_with_bracket = open_bracket op\<rparr> rest new1))
      else if at_open d (c # cs) then
        ebind (handlebars_string_append new ''{{'') (\<lambda>new1.
          pp_loop n S_tag d (drop (length (dopen d)) (c # cs)) new1)
      else
        ebind (if length (c # cs) \<ge> 2 \<and> c = CHR ''{'' \<and> hd cs = CHR ''{'' \<and> \<not> starts_with_bracket d
               then handlebars_string_append new [backslash] else Inr new) (\<lambda>new1.
        ebind (handlebars_string_append new1 [c]) (\<lambda>new2.
          pp_loop n S_default d cs new2)))"
| "pp_loop (Suc n) S_tag d (c # cs) new =
     (if at_close d (c # cs) then
        ebind (handlebars_string_append new ''}}'') (\<lambda>new1.
          pp_loop n S_default d (drop (length (dclose d)) (c # cs)) new1)
      else
        ebind (handlebars_string_append new [c]) (\<lambda>new1. pp_loop n S_tag d cs new1))"

text \<open>Two rounds per byte are enough: an opening delimiter takes two rounds before it is behind.\<close>

definition handlebars_preprocess_delimiters :: "string \<Rightarrow> string option \<Rightarrow> string option \<Rightarrow> hbs_error + hstr" where
  "handlebars_preprocess_delimiters tmpl op cl =
     pp_loop (2 * length tmpl + 2) S_default
       \<lparr>dopen = (case op of None \<Rightarrow> ''{{'' | Some s \<Rightarrow> s),
        dclose = (case cl of None \<Rightarrow> ''}}'' | Some s \<Rightarrow> s),
        starts_with_bracket = (case op of None \<Rightarrow> False | Some s \<Rightarrow> open_bracket s)\<rparr>
       tmpl (handlebars_string_init (length tmpl))"

section \<open>The specification\<close>

text \<open>The same translation on byte lists, without buffers and fuel.\<close>

definition set_delimiters_tag :: "string \<Rightarrow> string \<Rightarrow> string" where
  "set_delimiters_tag op cl =
     ''{{hbsc_set_delimiters '' @ [CHR 0x22] @ concat (map (addcslashes_char [CHR 0x22]) op) @
     [CHR 0x22, CHR '' '', CHR 0x22] @ concat (map (addcslashes_char [CHR 0x22]) cl) @ CHR 0x22 # ''}}''"

definition pp_fuel :: "pp_state \<Rightarrow> string \<Rightarrow> nat" where
  "pp_fuel st rest = 2 * length rest + (case st of S_default \<Rightarrow> 0 | S_tag \<Rightarrow> 1)"

lemma append_set_delimiters_ok:
  assumes "str_ok new"
  shows "\<exists>t. append_set_delimiters new op cl = Inr t \<and> str_ok t \<and> sval t = sval new @ set_delimiters_tag op cl"
proof -
  obtain eo where eo: "handlebars_string_addcslashes (handlebars_string_ctor op) [CHR 0x22] = Inr eo"
      "sval eo = concat (map (addcslashes_char [CHR 0x22]) op)"
    using addcslashes_eq [of "handlebars_string_ctor op"] by auto
  obtain ec where ec: "handlebars_string_addcslashes (handlebars_string_ctor cl) [CHR 0x22] = Inr ec"
      "sval ec = concat (map (addcslashes_char [CHR 0x22]) cl)"
    using addcslashes_eq [of "handlebars_string_ctor cl"] by auto
  obtain n1 where n1: "handlebars_string_append new (''{{hbsc_set_delimiters '' @ [CHR 0x22]) = Inr n1" "str_ok n1"
      "sval n1 = sval new @ ''{{hbsc_set_delimiters '' @ [CHR 0x22]"
    using assms by (rule str_buf.app_total)
  obtain n2 where n2: "handlebars_string_append n1 (sval eo) = Inr n2" "str_ok n2" "sval n2 = sval n1 @ sval eo"
    using n1(2) by (rule str_buf.app_total)
  obtain n3 where n3: "handlebars_string_append n2 [CHR 0x22, CHR '' '', CHR 0x22] = Inr n3" "str_ok n3"
      "sval n3 = sval n2 @ [CHR 0x22, CHR '' '', CHR 0x22]"
    using n2(2) by (rule str_buf.app_total)
  obtain n4 where n4: "handlebars_string_append n3 (sval ec) = Inr n4" "str_ok n4" "sval n4 = sval n3 @ sval ec"
    using n3(2) by (rule str_buf.app_total)
  obtain n5 where n5: "handlebars_string_append n4 (CHR 0x22 # ''}}'') = Inr n5" "str_ok n5"
      "sval n5 = sval n4 @ CHR 0x22 # ''}}''"
    using n4(2) by (rule str_buf.app_total)
  show ?thesis
    using n1 n2 n3 n4 n5 eo ec
    by (simp add: append_set_delimiters_def handlebars_string_append_str_def set_delimiters_tag_def)
qed

lemma scan_new_open_Inr:
  assumes "scan_new_open s = Inr (op, p)"
  shows "op \<noteq> []" "length p \<le> length s"
proof -
  define po where "po = dropWhile (\<lambda>c. c = space) s"
  from assms have r: "dropWhile (\<lambda>c. c \<noteq> space) po \<noteq> []" "op = takeWhile (\<lambda>c. c \<noteq> space) po"
    "p = dropWhile (\<lambda>c. c \<noteq> space) po"
    unfolding scan_new_open_def Let_def po_def [symmetric] by (simp_all split: if_splits)
  have "po \<noteq> []" using r(1) by auto
  then have "hd po \<noteq> space" unfolding po_def by (rule hd_dropWhile)
  then show "op \<noteq> []" using r(2) \<open>po \<noteq> []\<close> by (cases po) auto
  have "length p \<le> length po" unfolding r(3) by (rule length_dropWhile_le)
  also have "\<dots> \<le> length s" unfolding po_def by (rule length_dropWhile_le)
  finally show "length p \<le> length s" .
qed

lemma scan_new_close_Inr:
  assumes "scan_new_close s = Inr (cl, p)"
  shows "cl \<noteq> []" "length p < length s"
proof -
  define pc where "pc = dropWhile (\<lambda>c. c = space) s"
  define token where "token = takeWhile (\<lambda>c. c \<noteq> CHR ''='') pc"
  define p2 where "p2 = dropWhile (\<lambda>c. c \<noteq> CHR ''='') pc"
  from assms have r: "p2 \<noteq> []" "token \<noteq> []" "cl = rev (dropWhile (\<lambda>c. c = space) (rev token))" "p = tl p2"
    unfolding scan_new_close_def Let_def pc_def [symmetric] token_def [symmetric] p2_def [symmetric]
    by (simp_all split: if_splits)
  have "pc \<noteq> []" using r(1) by (auto simp: p2_def)
  then have "hd pc \<noteq> space" unfolding pc_def by (rule hd_dropWhile)
  moreover have "hd token = hd pc" using r(2) by (cases pc) (auto simp: token_def split: if_splits)
  ultimately have "\<exists>x \<in> set (rev token). x \<noteq> space" using r(2) by (metis hd_in_set set_rev)
  then have "dropWhile (\<lambda>c. c = space) (rev token) \<noteq> []" by (simp add: dropWhile_eq_Nil_conv)
  then show "cl \<noteq> []" using r(3) by simp
  have "length p2 \<le> length pc" unfolding p2_def by (rule length_dropWhile_le)
  also have "\<dots> \<le> length s" unfolding pc_def by (rule length_dropWhile_le)
  finally show "length p < length s" using r(1,4) by (cases p2) auto
qed

text \<open>A delimiter change consumes its tag, and the new delimiters are not empty.\<close>

lemma delimiter_switch_shorter:
  assumes "delimiter_switch d rest = Inr (op, cl, rest')"
  shows "length rest' < length rest" "op \<noteq> []" "cl \<noteq> []"
proof -
  from assms obtain p1 p3 where p: "scan_new_open (drop (length (dopen d) + 1) rest) = Inr (op, p1)"
      "scan_new_close p1 = Inr (cl, p3)" "rest' = drop (length (dclose d)) p3"
    by (auto simp: delimiter_switch_def split: if_splits)
  with scan_new_open_Inr [OF p(1)] scan_new_close_Inr [OF p(2)]
  show "length rest' < length rest" "op \<noteq> []" "cl \<noteq> []" by auto
qed

section \<open>Termination and safety\<close>

text \<open>
  What can be wrong with a change tag, from the equals sign behind the opening delimiter on: no blank behind the new
  opening delimiter, no second equals sign, nothing between the blanks and that sign (the undefined run), or no
  closing delimiter behind it.
\<close>

definition change_error :: "delims \<Rightarrow> string \<Rightarrow> hbs_error \<Rightarrow> bool" where
  "change_error d s e \<longleftrightarrow>
     (let po = dropWhile (\<lambda>c. c = space) (drop (length (dopen d) + 1) s);
          pc = dropWhile (\<lambda>c. c = space) (dropWhile (\<lambda>c. c \<noteq> space) po);
          p3 = tl (dropWhile (\<lambda>c. c \<noteq> CHR ''='') pc)
      in if space \<notin> set po then e = Throw HANDLEBARS_ERROR ''Delimiter change must contain a space''
         else if CHR ''='' \<notin> set pc then e = Throw HANDLEBARS_ERROR ''Delimiter change must contain two equals''
         else if hd pc = CHR ''='' then e = Mem_error
         else e = Throw HANDLEBARS_ERROR ''Delimiter change must end with an equals'' \<and>
           (length p3 < length (dclose d) \<or> \<not> strncmp_eq (length (dclose d)) p3 (dclose d)))"

lemma delimiter_switch_errors:
  assumes "delimiter_switch d s = Inl e"
  shows "change_error d s e"
proof -
  define po where "po = dropWhile (\<lambda>c. c = space) (drop (length (dopen d) + 1) s)"
  define p1 where "p1 = dropWhile (\<lambda>c. c \<noteq> space) po"
  define pc where "pc = dropWhile (\<lambda>c. c = space) p1"
  define p2 where "p2 = dropWhile (\<lambda>c. c \<noteq> CHR ''='') pc"
  define token where "token = takeWhile (\<lambda>c. c \<noteq> CHR ''='') pc"
  have nil: "p1 = [] \<longleftrightarrow> space \<notin> set po" "p2 = [] \<longleftrightarrow> CHR ''='' \<notin> set pc"
    by (auto simp: p1_def p2_def dropWhile_eq_Nil_conv)
  have token: "token = [] \<longleftrightarrow> hd pc = CHR ''=''" if "p2 \<noteq> []"
    using that by (cases pc) (simp_all add: token_def p2_def)
  have op: "scan_new_open (drop (length (dopen d) + 1) s) =
      (if p1 = [] then Inl (Throw HANDLEBARS_ERROR ''Delimiter change must contain a space'')
       else Inr (takeWhile (\<lambda>c. c \<noteq> space) po, p1))"
    unfolding scan_new_open_def Let_def po_def p1_def ..
  have cl: "scan_new_close p1 =
      (if p2 = [] then Inl (Throw HANDLEBARS_ERROR ''Delimiter change must contain two equals'')
       else if token = [] then Inl Mem_error
       else Inr (rev (dropWhile (\<lambda>c. c = space) (rev token)), tl p2))"
    unfolding scan_new_close_def Let_def pc_def p2_def token_def ..
  have goal: "change_error d s e \<longleftrightarrow>
      (if space \<notin> set po then e = Throw HANDLEBARS_ERROR ''Delimiter change must contain a space''
         else if CHR ''='' \<notin> set pc then e = Throw HANDLEBARS_ERROR ''Delimiter change must contain two equals''
         else if hd pc = CHR ''='' then e = Mem_error
         else e = Throw HANDLEBARS_ERROR ''Delimiter change must end with an equals'' \<and>
           (length (tl p2) < length (dclose d) \<or> \<not> strncmp_eq (length (dclose d)) (tl p2) (dclose d)))"
    unfolding change_error_def Let_def po_def p1_def pc_def p2_def ..
  show ?thesis
    using assms token
    unfolding goal delimiter_switch_def op nil(1) [symmetric] nil(2) [symmetric]
    by (cases "p1 = []"; cases "p2 = []"; cases "token = []") (simp_all add: cl split: if_split_asm)
qed

definition behind :: "string \<Rightarrow> string \<Rightarrow> bool" where
  "behind r s \<longleftrightarrow> (\<exists>k. r = drop k s)"

lemma behind_steps:
  "behind (drop k s) s" "behind r s \<Longrightarrow> behind (drop k r) s" "behind r s \<Longrightarrow> behind (tl r) s"
  "behind r s \<Longrightarrow> behind (dropWhile P r) s"
proof -
  have d: "behind (drop k r) s" if "behind r s" for k r using that by (auto simp: behind_def)
  show "behind (drop k s) s" by (auto simp: behind_def)
  assume r: "behind r s"
  show "behind (drop k r) s" "behind (tl r) s" "behind (dropWhile P r) s"
    using d [OF r, of k] d [OF r, of 1] d [OF r, of "length (takeWhile P r)"]
    by (simp_all add: drop_Suc dropWhile_eq_drop)
qed

lemma scan_behind:
  "scan_new_open r = Inr (op, r') \<Longrightarrow> behind r s \<Longrightarrow> behind r' s"
  "scan_new_close r = Inr (op, r') \<Longrightarrow> behind r s \<Longrightarrow> behind r' s"
proof -
  assume r: "behind r s"
  show "scan_new_open r = Inr (op, r') \<Longrightarrow> behind r' s"
    using behind_steps(4) [OF behind_steps(4) [OF r]] unfolding scan_new_open_def Let_def by (metis Inl_Inr_False Inr_inject prod.inject)
  show "scan_new_close r = Inr (op, r') \<Longrightarrow> behind r' s"
    using behind_steps(3) [OF behind_steps(4) [OF behind_steps(4) [OF r]]] unfolding scan_new_close_def Let_def
    by (metis Inl_Inr_False Inr_inject prod.inject)
qed

lemma delimiter_switch_behind:
  assumes "delimiter_switch d s = Inr (op, cl, s')"
  shows "behind s' s"
proof -
  from assms obtain p1 p3 where p: "scan_new_open (drop (length (dopen d) + 1) s) = Inr (op, p1)"
      "scan_new_close p1 = Inr (cl, p3)" "s' = drop (length (dclose d)) p3"
    by (auto simp: delimiter_switch_def split: if_splits)
  show ?thesis unfolding p(3) by (intro behind_steps(2) scan_behind(2) [OF p(2)] scan_behind(1) [OF p(1)] behind_steps(1))
qed

text \<open>The delimiters that can be in force in a template: those it starts with, and those of the change tags in it.\<close>

inductive in_force :: "string \<Rightarrow> delims \<Rightarrow> delims \<Rightarrow> bool" for tmpl :: string and d0 :: delims where
  initial: "in_force tmpl d0 d0"
| change: "in_force tmpl d0 d \<Longrightarrow> at_switch d (drop k tmpl) \<Longrightarrow> delimiter_switch d (drop k tmpl) = Inr (op, cl, rest) \<Longrightarrow>
    in_force tmpl d0 \<lparr>dopen = op, dclose = cl, starts_with_bracket = open_bracket op\<rparr>"

definition pp_outcome :: "string \<Rightarrow> delims \<Rightarrow> hbs_error + hstr \<Rightarrow> bool" where
  "pp_outcome tmpl d0 r =
     (case r of
        Inr t \<Rightarrow> str_ok t
      | Inl e \<Rightarrow> \<exists>d k. in_force tmpl d0 d \<and> at_switch d (drop k tmpl) \<and> change_error d (drop k tmpl) e)"

lemma pp_outcome_bind:
  "(\<exists>t. m = Inr t \<and> str_ok t) \<Longrightarrow> (\<And>t. str_ok t \<Longrightarrow> pp_outcome tmpl d0 (f t)) \<Longrightarrow> pp_outcome tmpl d0 (ebind m f)"
  by auto

lemma append_Inr: "\<exists>t. handlebars_string_append b x = Inr t \<and> str_ok t"
  using append_total [of b x] by auto

text \<open>With a non-empty opening delimiter the loop ends within its fuel.\<close>

lemma pp_terminates:
  "dopen d \<noteq> [] \<Longrightarrow> str_ok new \<Longrightarrow> pp_fuel st rest < n \<Longrightarrow> in_force tmpl d0 d \<Longrightarrow> \<exists>k. rest = drop k tmpl \<Longrightarrow>
     pp_outcome tmpl d0 (pp_loop n st d rest new)"
proof (induction n arbitrary: st d rest new)
  case (Suc n)
  show ?case
  proof (cases rest)
    case Nil
    with Suc.prems show ?thesis by (simp add: pp_outcome_def)
  next
    case (Cons c cs)
    have fuel: "pp_fuel st' r < n" if "length r < length rest" for r st'
      using Suc.prems(3) that by (auto simp: pp_fuel_def split: pp_state.splits)
    obtain k where k: "rest = drop k tmpl" using Suc.prems(5) by blast
    have IH: "pp_outcome tmpl d0 (pp_loop n st' d (drop j rest) b)" if "str_ok b" "pp_fuel st' (drop j rest) < n" for st' j b
      by (rule Suc.IH [OF Suc.prems(1)]) (use that Suc.prems(4) k in auto)
    have parts: "drop 1 rest = cs" "drop 2 rest = tl cs" using Cons by (simp_all add: drop_Suc numeral_2_eq_2)
    show ?thesis
    proof (cases st)
      case S_default
      consider "c = backslash" | "c \<noteq> backslash" "at_switch d rest"
        | "c \<noteq> backslash" "\<not> at_switch d rest" "at_open d rest"
        | "c \<noteq> backslash" "\<not> at_switch d rest" "\<not> at_open d rest" by blast
      then show ?thesis
      proof cases
        case 1
        have "length (drop 2 rest) < length rest" using Cons by simp
        then have "pp_outcome tmpl d0 (ebind (handlebars_string_append new [c]) (\<lambda>new1.
            ebind (handlebars_string_append new1 [case cs of [] \<Rightarrow> NUL | e # _ \<Rightarrow> e]) (\<lambda>new2.
              pp_loop n S_default d (drop 2 rest) new2)))"
          by (intro pp_outcome_bind append_Inr IH fuel)
        with 1 S_default Cons show ?thesis unfolding parts(2) by simp
      next
        case 2
        show ?thesis
        proof (cases "delimiter_switch d rest")
          case (Inl e)
          then have "pp_loop (Suc n) st d rest new = Inl e" using 2 S_default Cons by simp
          moreover have "change_error d (drop k tmpl) e" "at_switch d (drop k tmpl)"
            using delimiter_switch_errors [OF Inl] 2(2) k by simp_all
          ultimately show ?thesis using Suc.prems(4) by (auto simp: pp_outcome_def)
        next
          case (Inr r)
          obtain op cl rest' where r: "r = (op, cl, rest')" by (cases r)
          note sh = delimiter_switch_shorter [OF Inr [unfolded r]]
          obtain t where t: "append_set_delimiters new op cl = Inr t" "str_ok t"
            using append_set_delimiters_ok [OF Suc.prems(2)] by blast
          have "pp_outcome tmpl d0 (pp_loop n S_default \<lparr>dopen = op, dclose = cl, starts_with_bracket = open_bracket op\<rparr> rest' t)"
          proof (rule Suc.IH)
            show "in_force tmpl d0 \<lparr>dopen = op, dclose = cl, starts_with_bracket = open_bracket op\<rparr>"
              using in_force.change [OF Suc.prems(4), of k op cl rest'] 2(2) Inr unfolding r k by blast
            show "\<exists>j. rest' = drop j tmpl"
              using delimiter_switch_behind [OF Inr [unfolded r]] unfolding behind_def k by auto
            show "pp_fuel S_default rest' < n" by (rule fuel [OF sh(1)])
          qed (simp_all add: sh(2) t(2))
          with Inr r t 2 S_default Cons show ?thesis by simp
        qed
      next
        case 3
        have "length (drop (length (dopen d)) rest) < length rest"
          using Suc.prems(1) Cons by (cases "dopen d") auto
        then have "pp_outcome tmpl d0 (ebind (handlebars_string_append new ''{{'')
            (\<lambda>new1. pp_loop n S_tag d (drop (length (dopen d)) rest) new1))"
          by (intro pp_outcome_bind append_Inr IH fuel)
        with 3 S_default Cons show ?thesis by simp
      next
        case 4
        have "length (drop 1 rest) < length rest" using Cons by simp
        then have "pp_outcome tmpl d0 (ebind m (\<lambda>new1. ebind (handlebars_string_append new1 [c]) (\<lambda>new2.
            pp_loop n S_default d (drop 1 rest) new2)))" if "\<exists>t. m = Inr t \<and> str_ok t" for m
          using that by (intro pp_outcome_bind append_Inr IH fuel)
        then show ?thesis
          unfolding parts(1) using 4 S_default Cons append_Inr [of new "[backslash]"] Suc.prems(2) by simp
      qed
    next
      case S_tag
      show ?thesis
      proof (cases "at_close d rest")
        case True
        have "pp_fuel S_default (drop (length (dclose d)) rest) < n"
          using Suc.prems(3) S_tag by (simp add: pp_fuel_def)
        then have "pp_outcome tmpl d0 (ebind (handlebars_string_append new ''}}'')
            (\<lambda>new1. pp_loop n S_default d (drop (length (dclose d)) rest) new1))"
          by (intro pp_outcome_bind append_Inr IH)
        with True S_tag Cons show ?thesis by simp
      next
        case False
        have "length (drop 1 rest) < length rest" using Cons by simp
        then have "pp_outcome tmpl d0 (ebind (handlebars_string_append new [c]) (\<lambda>new1. pp_loop n S_tag d (drop 1 rest) new1))"
          by (intro pp_outcome_bind append_Inr IH fuel)
        with False S_tag Cons show ?thesis unfolding parts(1) by simp
      qed
    qed
  qed
qed simp

section \<open>The standard delimiters\<close>

definition standard :: delims where
  "standard = \<lparr>dopen = ''{{'', dclose = ''}}'', starts_with_bracket = True\<rparr>"

definition no_switch :: "string \<Rightarrow> bool" where
  "no_switch s \<longleftrightarrow> (\<forall>k. take 3 (drop k s) \<noteq> ''{{='')"

lemma no_switch_drop: "no_switch s \<Longrightarrow> no_switch (drop k s)"
  by (simp add: no_switch_def)

lemma no_switch_tl: "no_switch (c # cs) \<Longrightarrow> no_switch cs"
  using no_switch_drop [of "c # cs" 1] by simp

lemma not_at_switch: "no_switch s \<Longrightarrow> \<not> at_switch standard s"
proof
  assume ns: "no_switch s" and sw: "at_switch standard s"
  then have s: "strncmp_eq (length ''{{'') s ''{{''" "8 \<le> length s" "s ! 2 = CHR ''=''"
    by (simp_all add: at_switch_def standard_def numeral_2_eq_2)
  then have "s = ''{{'' @ drop 2 s"
    using strncmp_take [of "''{{''" s] by (simp add: numeral_2_eq_2)
  moreover have "drop 2 s = s ! 2 # drop 3 s"
    using s(2) Cons_nth_drop_Suc [of 2 s] by simp
  ultimately have "take 3 s = ''{{=''"
    using s(3) by (metis append_Cons append_Nil append_eq_conv_conj length_Cons list.size(3) numeral_3_eq_3)
  then have "take 3 (drop 0 s) = ''{{=''" by simp
  with ns show False unfolding no_switch_def by blast
qed

lemma str_buf_append: "\<exists>t. handlebars_string_append b x = Inr t \<and> str_ok t \<and> sval t = sval b @ x"
  using append_total [of b x] by auto

lemma at_open_standard: "at_open standard s \<Longrightarrow> s = ''{{'' @ drop 2 s"
  using strncmp_take [of "''{{''" s] by (simp add: at_open_def standard_def numeral_2_eq_2)

lemma at_close_standard: "at_close standard s \<Longrightarrow> s = ''}}'' @ drop 2 s"
  using strncmp_take [of "''}}''" s] by (simp add: at_close_def standard_def numeral_2_eq_2)

lemma last_drop_not: "(s = [] \<or> last s \<noteq> c) \<Longrightarrow> (drop k s = [] \<or> last (drop k s) \<noteq> c)"
  by (cases "k < length s") (auto simp: last_drop)

text \<open>With the standard delimiters and no delimiter change the loop copies its input.\<close>

lemma pp_identity:
  "no_switch rest \<Longrightarrow> rest = [] \<or> last rest \<noteq> backslash \<Longrightarrow> pp_fuel st rest < n \<Longrightarrow> str_ok new \<Longrightarrow>
     \<exists>t. pp_loop n st standard rest new = Inr t \<and> sval t = sval new @ rest"
proof (induction n arbitrary: st rest new)
  case (Suc n)
  show ?case
  proof (cases rest)
    case Nil
    then show ?thesis by simp
  next
    case (Cons c cs)
    have fuel: "pp_fuel st' r < n" if "length r < length rest" for r st'
      using Suc.prems(3) that by (auto simp: pp_fuel_def split: pp_state.splits)
    have IH: "\<exists>t. pp_loop n st' standard (drop k rest) b = Inr t \<and> sval t = sval b @ drop k rest"
      if "pp_fuel st' (drop k rest) < n" "str_ok b" for st' k b
      using Suc.IH [OF no_switch_drop [OF Suc.prems(1)] last_drop_not [OF Suc.prems(2)]] that by blast
    have d1: "drop 1 rest = cs" "length (drop (Suc k) rest) < length rest" for k using Cons by auto
    obtain b1 where b1: "handlebars_string_append new [c] = Inr b1" "str_ok b1" "sval b1 = sval new @ [c]"
      using str_buf_append by blast
    show ?thesis
    proof (cases st)
      case S_default
      consider "c = backslash" | "c \<noteq> backslash" "at_open standard rest"
        | "c \<noteq> backslash" "\<not> at_open standard rest" by blast
      then show ?thesis
      proof cases
        case 1
        then obtain e es where cs: "cs = e # es" using Suc.prems(2) Cons by (cases cs) auto
        obtain b2 where b2: "handlebars_string_append b1 [e] = Inr b2" "str_ok b2" "sval b2 = sval b1 @ [e]"
          using str_buf_append by blast
        have "drop (Suc 1) rest = es" using Cons cs by simp
        with IH [OF fuel [OF d1(2)] b2(2), of S_default 1] obtain t where
          t: "pp_loop n S_default standard es b2 = Inr t" "sval t = sval b2 @ es" by auto
        have "pp_loop (Suc n) S_default standard rest new = Inr t"
          using b1(1) b2(1) t(1) 1 by (simp add: Cons cs)
        moreover have "sval t = sval new @ rest" using t(2) b1(3) b2(3) Cons cs by simp
        ultimately show ?thesis unfolding S_default by blast
      next
        case 2
        have r: "rest = ''{{'' @ drop 2 rest" by (rule at_open_standard [OF 2(2)])
        obtain b2 where b2: "handlebars_string_append new ''{{'' = Inr b2" "str_ok b2" "sval b2 = sval new @ ''{{''"
          using str_buf_append by blast
        have "length (drop 2 rest) < length rest" using Cons by simp
        from IH [OF fuel [OF this] b2(2), of S_tag] obtain t where
          "pp_loop n S_tag standard (drop 2 rest) b2 = Inr t" "sval t = sval new @ rest"
          using b2(3) r by (metis append_assoc)
        moreover have "drop (length (dopen standard)) rest = drop 2 rest" by (simp add: standard_def numeral_2_eq_2)
        ultimately show ?thesis
          using b2(1) 2 S_default Cons not_at_switch [OF Suc.prems(1)] by auto
      next
        case 3
        from IH [OF fuel [OF d1(2)] b1(2), of S_default 0] d1(1) b1
        show ?thesis
          using 3 S_default Cons not_at_switch [OF Suc.prems(1)] by (auto simp: standard_def)
      qed
    next
      case S_tag
      show ?thesis
      proof (cases "at_close standard rest")
        case True
        have r: "rest = ''}}'' @ drop 2 rest" by (rule at_close_standard [OF True])
        obtain b2 where b2: "handlebars_string_append new ''}}'' = Inr b2" "str_ok b2" "sval b2 = sval new @ ''}}''"
          using str_buf_append by blast
        have "length (drop 2 rest) < length rest" using Cons by simp
        from IH [OF fuel [OF this] b2(2), of S_default] obtain t where
          "pp_loop n S_default standard (drop 2 rest) b2 = Inr t" "sval t = sval new @ rest"
          using b2(3) r by (metis append_assoc)
        moreover have "drop (length (dclose standard)) rest = drop 2 rest" by (simp add: standard_def numeral_2_eq_2)
        ultimately show ?thesis using b2(1) True S_tag Cons by auto
      next
        case False
        from IH [OF fuel [OF d1(2)] b1(2), of S_tag 0] d1(1) b1 show ?thesis
          using False S_tag Cons by auto
      qed
    qed
  qed
qed simp

section \<open>A delimiter change\<close>

lemma takeWhile_stop: "\<forall>x \<in> set xs. P x \<Longrightarrow> \<not> P y \<Longrightarrow> takeWhile P (xs @ y # ys) = xs"
  "\<forall>x \<in> set xs. P x \<Longrightarrow> \<not> P y \<Longrightarrow> dropWhile P (xs @ y # ys) = y # ys"
  by (induction xs) auto

lemma scan_new_open_ok:
  assumes "op \<noteq> []" "space \<notin> set op"
  shows "scan_new_open (op @ space # s) = Inr (op, space # s)"
proof -
  have "dropWhile (\<lambda>c. c = space) (op @ space # s) = op @ space # s"
    using assms by (cases op) auto
  moreover have "\<forall>x \<in> set op. x \<noteq> space" using assms(2) by blast
  ultimately show ?thesis
    using takeWhile_stop [of op "\<lambda>c. c \<noteq> space" space s] by (simp add: scan_new_open_def Let_def)
qed

lemma scan_new_close_ok:
  assumes "cl \<noteq> []" "CHR ''='' \<notin> set cl" "hd cl \<noteq> space" "last cl \<noteq> space"
  shows "scan_new_close (space # cl @ CHR ''='' # s) = Inr (cl, s)"
proof -
  have 1: "dropWhile (\<lambda>c. c = space) (space # cl @ CHR ''='' # s) = cl @ CHR ''='' # s"
    using assms(1,3) by (cases cl) auto
  have 2: "\<forall>x \<in> set cl. x \<noteq> CHR ''=''" using assms(2) by blast
  have 3: "dropWhile (\<lambda>c. c = space) (rev cl) = rev cl"
    using assms(1,4) by (cases cl rule: rev_cases) auto
  show ?thesis
    unfolding scan_new_close_def Let_def 1
    using takeWhile_stop [OF 2, of "CHR ''=''" s] 3 assms(1) by simp
qed

lemma delimiter_switch_ok:
  assumes "op \<noteq> []" "space \<notin> set op" "cl \<noteq> []" "CHR ''='' \<notin> set cl" "hd cl \<noteq> space" "last cl \<noteq> space"
    and "NUL \<notin> set (dclose d)"
  shows "delimiter_switch d (dopen d @ CHR ''='' # op @ space # cl @ CHR ''='' # dclose d @ rest) = Inr (op, cl, rest)"
  using scan_new_open_ok [OF assms(1,2), of "cl @ CHR ''='' # dclose d @ rest"]
    scan_new_close_ok [OF assms(3-6), of "dclose d @ rest"] strncmp_prefix [OF assms(7), of rest]
  by (simp add: delimiter_switch_def)

section \<open>Properties\<close>

text \<open>C30. With a non-empty opening delimiter the preprocessor ends and never writes outside its buffer. It fails only at a
  change tag in the template, read with delimiters in force there, with the error for what that tag lacks: the
  blank, the second equals sign, or the closing delimiter behind it. (The one undefined run, a memory error, is a
  tag without a new closing delimiter.)\<close>
theorem preprocess_terminates:
  assumes "op \<noteq> Some []"
  shows "case handlebars_preprocess_delimiters tmpl op cl of
     Inr t \<Rightarrow> str_ok t
   | Inl e \<Rightarrow> \<exists>d k. in_force tmpl \<lparr>dopen = (case op of None \<Rightarrow> ''{{'' | Some s \<Rightarrow> s),
          dclose = (case cl of None \<Rightarrow> ''}}'' | Some s \<Rightarrow> s),
          starts_with_bracket = (case op of None \<Rightarrow> False | Some s \<Rightarrow> open_bracket s)\<rparr> d \<and>
        at_switch d (drop k tmpl) \<and> change_error d (drop k tmpl) e"
proof -
  let ?d = "\<lparr>dopen = (case op of None \<Rightarrow> ''{{'' | Some s \<Rightarrow> s),
        dclose = (case cl of None \<Rightarrow> ''}}'' | Some s \<Rightarrow> s),
        starts_with_bracket = (case op of None \<Rightarrow> False | Some s \<Rightarrow> open_bracket s)\<rparr>"
  have "dopen ?d \<noteq> []" using assms by (cases op) auto
  then have "pp_outcome tmpl ?d (handlebars_preprocess_delimiters tmpl op cl)"
    unfolding handlebars_preprocess_delimiters_def
    by (rule pp_terminates) (auto simp: pp_fuel_def intro: in_force.initial exI [of _ 0])
  then show ?thesis by (simp add: pp_outcome_def)
qed

text \<open>A change with a tag behind it, and a change that lacks its second equals sign.\<close>

theorem preprocess_terminates_witness:
  "(\<exists>t. handlebars_preprocess_delimiters ''{{=<% %>=}}<%a%>'' None None = Inr t \<and> str_ok t \<and>
     sval t = set_delimiters_tag ''<%'' ''%>'' @ ''{{a}}'') \<and>
   (\<exists>d k. at_switch d (drop k ''a{{=<% %>}}'') \<and>
      change_error d (drop k ''a{{=<% %>}}'') (Throw HANDLEBARS_ERROR ''Delimiter change must contain two equals''))"
proof
  have "map_sum id sval (handlebars_preprocess_delimiters ''{{=<% %>=}}<%a%>'' None None) =
      Inr (set_delimiters_tag ''<%'' ''%>'' @ ''{{a}}'')"
    by code_simp
  then obtain t where t: "handlebars_preprocess_delimiters ''{{=<% %>=}}<%a%>'' None None = Inr t"
      "sval t = set_delimiters_tag ''<%'' ''%>'' @ ''{{a}}''"
    by (cases "handlebars_preprocess_delimiters ''{{=<% %>=}}<%a%>'' None None") auto
  then show "\<exists>t. handlebars_preprocess_delimiters ''{{=<% %>=}}<%a%>'' None None = Inr t \<and> str_ok t \<and>
     sval t = set_delimiters_tag ''<%'' ''%>'' @ ''{{a}}''"
    using preprocess_terminates [of None "''{{=<% %>=}}<%a%>''" None] by auto
  have "map_sum id sval (handlebars_preprocess_delimiters ''a{{=<% %>}}'' None None) =
      Inl (Throw HANDLEBARS_ERROR ''Delimiter change must contain two equals'')"
    by code_simp
  then have "handlebars_preprocess_delimiters ''a{{=<% %>}}'' None None =
      Inl (Throw HANDLEBARS_ERROR ''Delimiter change must contain two equals'')"
    by (cases "handlebars_preprocess_delimiters ''a{{=<% %>}}'' None None") auto
  then show "\<exists>d k. at_switch d (drop k ''a{{=<% %>}}'') \<and>
      change_error d (drop k ''a{{=<% %>}}'') (Throw HANDLEBARS_ERROR ''Delimiter change must contain two equals'')"
    using preprocess_terminates [of None "''a{{=<% %>}}''" None] by auto
qed

text \<open>With the standard delimiters named explicitly, a template without a delimiter change that does not end
  in a backslash comes out unchanged.\<close>
theorem preprocess_standard_identity:
  assumes "\<forall>k. take 3 (drop k tmpl) \<noteq> ''{{=''" "tmpl = [] \<or> last tmpl \<noteq> backslash"
  shows "\<exists>t. handlebars_preprocess_delimiters tmpl (Some ''{{'') (Some ''}}'') = Inr t \<and> sval t = tmpl"
proof -
  have "no_switch tmpl" using assms(1) by (simp add: no_switch_def)
  from pp_identity [OF this assms(2), of S_default "2 * length tmpl + 2" "handlebars_string_init (length tmpl)"]
  show ?thesis by (simp add: handlebars_preprocess_delimiters_def pp_fuel_def standard_def open_bracket_def)
qed

theorem preprocess_standard_identity_witness:
  "\<exists>t. handlebars_preprocess_delimiters ''{{a}}'' (Some ''{{'') (Some ''}}'') = Inr t \<and> sval t = ''{{a}}''"
proof (rule preprocess_standard_identity)
  show "\<forall>k. take 3 (drop k ''{{a}}'') \<noteq> ''{{=''"
  proof
    fix k
    have "CHR ''='' \<notin> set (take 3 (drop k ''{{a}}''))"
      by (auto dest!: in_set_takeD in_set_dropD)
    then show "take 3 (drop k ''{{a}}'') \<noteq> ''{{=''" by auto
  qed
qed simp

text \<open>C31. A well-formed change tag is replaced by a \<open>hbsc_set_delimiters\<close> tag with the quotes of its arguments
  escaped, and the text behind it is read with the new delimiters.\<close>
theorem preprocess_delimiter_change:
  assumes "op \<noteq> []" "space \<notin> set op" "cl \<noteq> []" "CHR ''='' \<notin> set cl" "hd cl \<noteq> space" "last cl \<noteq> space"
    and "dopen d \<noteq> []" "hd (dopen d) \<noteq> backslash" "NUL \<notin> set (dopen d)" "NUL \<notin> set (dclose d)" "str_ok new"
  shows "\<exists>t. str_ok t \<and> sval t = sval new @ set_delimiters_tag op cl \<and>
     pp_loop (Suc n) S_default d (dopen d @ CHR ''='' # op @ space # cl @ CHR ''='' # dclose d @ rest) new =
     pp_loop n S_default \<lparr>dopen = op, dclose = cl, starts_with_bracket = open_bracket op\<rparr> rest t"
proof -
  let ?r = "dopen d @ CHR ''='' # op @ space # cl @ CHR ''='' # dclose d @ rest"
  obtain c cs where r: "?r = c # cs" "c = hd (dopen d)" using assms(7) by (cases "dopen d") auto
  have "0 < length op" "0 < length cl" using assms(1,3) by auto
  then have "length ?r \<ge> length (dopen d) + length (dclose d) + 4"
    by (simp del: length_greater_0_conv)
  then have sw: "at_switch d ?r"
    using strncmp_prefix [OF assms(9)] by (auto simp: at_switch_def nth_append)
  obtain t where t: "append_set_delimiters new op cl = Inr t" "str_ok t" "sval t = sval new @ set_delimiters_tag op cl"
    using append_set_delimiters_ok [OF assms(11)] by blast
  have "pp_loop (Suc n) S_default d (c # cs) new =
     pp_loop n S_default \<lparr>dopen = op, dclose = cl, starts_with_bracket = open_bracket op\<rparr> rest t"
    using sw t(1) r(2) assms(8) delimiter_switch_ok [OF assms(1-6) assms(10), of rest]
    unfolding r(1) by simp
  with t(2,3) show ?thesis unfolding r(1) by blast
qed

theorem preprocess_delimiter_change_witness:
  "\<exists>t. sval t = set_delimiters_tag ''<%'' ''%>'' \<and>
     pp_loop (Suc (Suc 0)) S_default \<lparr>dopen = ''{{'', dclose = ''}}'', starts_with_bracket = False\<rparr>
       (''{{'' @ CHR ''='' # ''<%'' @ space # ''%>'' @ CHR ''='' # ''}}'' @ []) (handlebars_string_init 11) = Inr t"
proof -
  let ?d = "\<lparr>dopen = ''{{'', dclose = ''}}'', starts_with_bracket = False\<rparr>"
  have "\<exists>t. str_ok t \<and> sval t = sval (handlebars_string_init 11) @ set_delimiters_tag ''<%'' ''%>'' \<and>
     pp_loop (Suc (Suc 0)) S_default ?d (dopen ?d @ CHR ''='' # ''<%'' @ space # ''%>'' @ CHR ''='' # dclose ?d @ [])
       (handlebars_string_init 11) =
     pp_loop (Suc 0) S_default \<lparr>dopen = ''<%'', dclose = ''%>'', starts_with_bracket = open_bracket ''<%''\<rparr> [] t"
    by (rule preprocess_delimiter_change) (simp_all add: space_def)
  then show ?thesis
    unfolding pp_loop.simps(2) delims.simps sval_init append.simps(1) by blast
qed

text \<open>A trailing backslash makes the preprocessor copy the terminator of the template into its output, and
  with the default delimiters (none named) an empty tag is taken for text and escaped.\<close>
theorem preprocess_edge_cases:
  "map_sum id sval (handlebars_preprocess_delimiters [CHR ''a'', backslash] None None)
     = Inr [CHR ''a'', backslash, NUL] \<and>
   map_sum id sval (handlebars_preprocess_delimiters ''{{}}'' None None) = Inr (backslash # ''{{}}'') \<and>
   map_sum id sval (handlebars_preprocess_delimiters ''{{}}'' (Some ''{{'') (Some ''}}'')) = Inr ''{{}}''"
  by code_simp

end
