(* ===== verification/StringEdit.thy ===== *)
theory StringEdit
  imports HString
begin

text \<open>
  The editing operations of src/handlebars_string.c: search and replace (\<open>handlebars_str_reduce\<close> in
  place, \<open>handlebars_str_replace\<close> into a new string), \<open>handlebars_string_implode\<close> and the
  indentation of partials. Each is proved equal to a reference function on byte lists.
\<close>

section \<open>Search and replace\<close>

lemma strnstr_loop_Some:
  "strnstr_loop i h needle = Some j \<Longrightarrow> needle \<noteq> [] \<Longrightarrow> i \<le> j \<and> j + length needle \<le> i + length h"
proof (induction i h needle arbitrary: j rule: strnstr_loop.induct)
  case (1 i h needle)
  show ?case
  proof (cases h)
    case Nil
    with 1 show ?thesis by (subst (asm) (2) strnstr_loop.simps) (auto split: if_splits)
  next
    case (Cons c cs)
    with 1 show ?thesis
      by (subst (asm) (2) strnstr_loop.simps) (force split: if_splits)
  qed
qed

lemma strnstr_Some:
  assumes "handlebars_strnstr h needle = Some k"
  shows "needle \<noteq> []" "h \<noteq> []" "k + length needle \<le> length h"
  using assms strnstr_loop_Some [of 0 h needle k]
  by (auto simp: handlebars_strnstr_def split: if_splits)

lemma strnstr_drop:
  assumes "handlebars_strnstr (drop tok v) needle = Some k"
  shows "(\<exists>m. length needle = Suc m) \<and> tok + k + length needle \<le> length v"
  using strnstr_Some [OF assms] by (cases needle) auto

text \<open>
  \<open>tok\<close> is the offset of the C pointer in the string. The pointer is taken before the string is
  separated, so for a shared string it points into the object the other holders keep; the pointer
  differences that follow are then undefined.
\<close>

function reduce_loop :: "string \<Rightarrow> string \<Rightarrow> string \<Rightarrow> nat \<Rightarrow> string" where
  "reduce_loop search rep v tok =
     (case handlebars_strnstr (drop tok v) search of
        None \<Rightarrow> v
      | Some k \<Rightarrow>
          let t = tok + k;
              v' = take t v @ rep @ drop (t + length search) v;
              tok' = t + length rep
          in if tok' \<ge> length v' then v' else reduce_loop search rep v' tok')"
  by pat_completeness auto

termination
  by (relation "measure (\<lambda>(search, rep, v, tok). length v - tok)")
    (auto dest!: strnstr_drop)

declare reduce_loop.simps [simp del]

definition handlebars_str_reduce :: "hstr \<Rightarrow> string \<Rightarrow> string \<Rightarrow> hbs_error + hstr" where
  "handlebars_str_reduce s search rep =
     (if length rep > length search \<or> search = [] \<or> sval s = [] then Inr s
      else if 1 < src s then Inl Mem_error
      else Inr (s\<lparr>sval := reduce_loop search rep (sval s) 0, shash := 0\<rparr>))"

text \<open>\<open>last_tok\<close> is the offset after the previous match, up to which the output is complete.\<close>

function replace_loop :: "string \<Rightarrow> string \<Rightarrow> string \<Rightarrow> nat \<Rightarrow> nat \<Rightarrow> hstr \<Rightarrow> hbs_error + hstr \<times> nat" where
  "replace_loop search rep v tok last_tok new =
     (case handlebars_strnstr (drop tok v) search of
        None \<Rightarrow> Inr (new, last_tok)
      | Some k \<Rightarrow>
          let t = tok + k in
          ebind (handlebars_string_append new (take (t - last_tok) (drop last_tok v))) (\<lambda>new1.
          ebind (handlebars_string_append new1 rep) (\<lambda>new2.
            let tok' = t + length search
            in if tok' \<ge> length v then Inr (new2, tok')
               else replace_loop search rep v tok' tok' new2)))"
  by pat_completeness auto

termination
  by (relation "measure (\<lambda>(search, rep, v, tok, last_tok, new). length v - tok)")
    (auto dest!: strnstr_drop)

declare replace_loop.simps [simp del]

definition handlebars_str_replace :: "hstr \<Rightarrow> string \<Rightarrow> string \<Rightarrow> hbs_error + hstr" where
  "handlebars_str_replace s search rep =
     (if search = [] \<or> sval s = [] then Inr s
      else
        ebind (replace_loop search rep (sval s) 0 0 (handlebars_string_init (length (sval s) * 4 + 1)))
          (\<lambda>(new, last_tok).
        ebind (handlebars_string_append new (drop last_tok (sval s))) (\<lambda>new1.
          Inr (handlebars_string_compact (new1\<lparr>shash := 0\<rparr>)))))"

section \<open>Implode and indent\<close>

definition implode_len :: "string \<Rightarrow> hstr list \<Rightarrow> nat" where
  "implode_len sep parts = fold (\<lambda>p l. l + (length (sval p) + length sep)) parts 0"

definition handlebars_string_implode :: "string \<Rightarrow> hstr list \<Rightarrow> hbs_error + hstr" where
  "handlebars_string_implode sep parts =
     (let len = implode_len sep parts
      in case parts of
           [] \<Rightarrow> Inr (handlebars_string_init 0)
         | p # ps \<Rightarrow>
             if len > 0 then
               ebind (handlebars_string_append_unsafe (handlebars_string_init (len - length sep)) (sval p))
                 (efold (\<lambda>q s. ebind (handlebars_string_append_unsafe s sep)
                                (\<lambda>s1. handlebars_string_append_unsafe s1 (sval q))) ps)
             else Inr (handlebars_string_init 0))"

text \<open>
  \<open>indent_append\<close> looks at the last byte of the input first; on an empty input that is \<open>val[-1]\<close>.
  It releases its input at the end, which the store model covers.
\<close>

definition handlebars_string_indent_append :: "hstr \<Rightarrow> hstr \<Rightarrow> hstr \<Rightarrow> hbs_error + hstr" where
  "handlebars_string_indent_append app inp ind =
     (if sval inp = [] then Inl Mem_error
      else
        let ends = (last (sval inp) = newline);
            body = (if ends then butlast (sval inp) else sval inp)
        in ebind (handlebars_string_append_str app ind) (\<lambda>a1.
           ebind (efold (\<lambda>c a.
                    if c = newline then
                      ebind (handlebars_string_append a [newline]) (\<lambda>b. handlebars_string_append_str b ind)
                    else handlebars_string_append a [c]) body a1) (\<lambda>a2.
             if ends then handlebars_string_append a2 [newline] else Inr a2)))"

definition handlebars_string_indent :: "hstr \<Rightarrow> hstr \<Rightarrow> hbs_error + hstr" where
  "handlebars_string_indent s ind =
     (let new = handlebars_string_init (length (sval s));
          new1 = (if 0 < src s then new\<lparr>src := 1\<rparr> else new)
      in handlebars_string_indent_append new1 s ind)"

section \<open>References\<close>

text \<open>All non-overlapping occurrences, from the left.\<close>

fun replace_all :: "string \<Rightarrow> string \<Rightarrow> string \<Rightarrow> string" where
  "replace_all search rep [] = []"
| "replace_all search rep (c # cs) =
     (if search \<noteq> [] \<and> take (length search) (c # cs) = search
      then rep @ replace_all search rep (drop (length search - 1) cs)
      else c # replace_all search rep cs)"

fun split_on :: "char \<Rightarrow> string \<Rightarrow> string list" where
  "split_on d [] = [[]]"
| "split_on d (c # cs) =
     (if c = d then [] # split_on d cs
      else case split_on d cs of [] \<Rightarrow> [[c]] | l # ls \<Rightarrow> (c # l) # ls)"

fun join :: "string \<Rightarrow> string list \<Rightarrow> string" where
  "join sep [] = []"
| "join sep [x] = x"
| "join sep (x # y # ys) = x @ sep @ join sep (y # ys)"

lemma split_on_not_Nil [simp]: "split_on d s \<noteq> []"
  by (induction s) (auto split: list.splits)

lemma join_split_on: "join [d] (split_on d s) = s"
proof (induction s)
  case Nil
  then show ?case by simp
next
  case (Cons c s)
  show ?case
  proof (cases "split_on d s")
    case Nil
    then show ?thesis by simp
  next
    case (Cons l ls)
    with Cons.IH show ?thesis by (cases ls) auto
  qed
qed

text \<open>What \<open>strnstr\<close> finds is the first occurrence.\<close>

lemma strnstr_loop_replace_all:
  "search \<noteq> [] \<Longrightarrow> NUL \<notin> set search \<Longrightarrow>
     (case strnstr_loop i h search of
        None \<Rightarrow> replace_all search rep h = h
      | Some j \<Rightarrow> replace_all search rep h =
          take (j - i) h @ rep @ replace_all search rep (drop (j - i + length search) h))"
proof (induction i h search rule: strnstr_loop.induct)
  case (1 i h search)
  show ?case
  proof (cases "length h < length search")
    case True
    then have "replace_all search rep h = h"
    proof (induction h)
      case (Cons c h)
      then have "take (length search) (c # h) \<noteq> search"
        by (metis length_take min_less_iff_conj not_less_iff_gr_or_eq min.absorb2 less_imp_le)
      with Cons show ?case by auto
    qed simp
    with True show ?thesis by (subst strnstr_loop.simps) simp
  next
    case False
    with 1 obtain c cs where h: "h = c # cs" by (cases h) auto
    let ?m = "c = hd search \<and> strncmp_eq (length search) h search"
    have m: "?m \<longleftrightarrow> take (length search) h = search"
      using strncmp_eq_iff [of search h] 1(2,3) False h by (cases search) auto
    show ?thesis
    proof (cases "c = hd search \<and> strncmp_eq (length search) h search")
      case True
      then have "strnstr_loop i h search = Some i"
        using False True by (subst strnstr_loop.simps) (simp add: h)
      moreover have "replace_all search rep h = rep @ replace_all search rep (drop (length search) h)"
        using True m h 1(2) by (cases search) auto
      ultimately show ?thesis by simp
    next
      case nm: False
      have eq: "strnstr_loop i h search = strnstr_loop (Suc i) cs search"
        using False h nm by (subst strnstr_loop.simps) (auto simp: h)
      have r: "replace_all search rep h = c # replace_all search rep cs"
        using nm m h by auto
      show ?thesis
      proof (cases "strnstr_loop (Suc i) cs search")
        case None
        with 1(1) [OF False h nm 1(2,3)] eq r h show ?thesis by simp
      next
        case (Some j)
        with 1(2) have "Suc i \<le> j" using strnstr_loop_Some by blast
        then obtain d where "j - i = Suc d" "j - Suc i = d" by (metis Suc_diff_Suc Suc_le_lessD)
        with 1(1) [OF False h nm 1(2,3)] eq r h Some show ?thesis by simp
      qed
    qed
  qed
qed

lemma strnstr_replace_all:
  assumes "search \<noteq> []" "NUL \<notin> set search"
  shows "case handlebars_strnstr h search of
        None \<Rightarrow> replace_all search rep h = h
      | Some k \<Rightarrow> replace_all search rep h =
          take k h @ rep @ replace_all search rep (drop (k + length search) h)"
  using strnstr_loop_replace_all [OF assms, where i = 0 and h = h and rep = rep] assms(1)
  by (auto simp: handlebars_strnstr_def split: option.splits)

lemma reduce_loop_eq:
  "search \<noteq> [] \<Longrightarrow> NUL \<notin> set search \<Longrightarrow>
     reduce_loop search rep v tok = take tok v @ replace_all search rep (drop tok v)"
proof (induction search rep v tok rule: reduce_loop.induct)
  case (1 search rep v tok)
  note found = strnstr_replace_all [OF 1(2,3), where h = "drop tok v" and rep = rep]
  show ?case
  proof (cases "handlebars_strnstr (drop tok v) search")
    case None
    with found show ?thesis by (subst reduce_loop.simps) simp
  next
    case (Some k)
    define v' where "v' = take (tok + k) v @ rep @ drop (tok + k + length search) v"
    have le: "tok + k + length search \<le> length v" using strnstr_drop [OF Some] by simp
    have split: "take tok v @ take k (drop tok v) = take (tok + k) v"
      by (simp add: take_add)
    have parts: "take (tok + k + length rep) v' = take (tok + k) v @ rep"
      "drop (tok + k + length rep) v' = drop (tok + k + length search) v"
      using le by (auto simp: v'_def)
    have goal: "take tok v @ replace_all search rep (drop tok v)
        = take (tok + k) v @ rep @ replace_all search rep (drop (tok + k + length search) v)"
      using found Some by (simp add: split add_ac flip: append_assoc)
    have step: "reduce_loop search rep v tok =
        (if tok + k + length rep \<ge> length v' then v'
         else reduce_loop search rep v' (tok + k + length rep))"
      using Some by (subst reduce_loop.simps) (simp add: v'_def Let_def)
    show ?thesis
    proof (cases "tok + k + length rep \<ge> length v'")
      case True
      then have "drop (tok + k + length search) v = []"
        using parts(2) by (metis drop_all)
      with True goal step show ?thesis by (simp add: v'_def)
    next
      case False
      from 1(1) [OF Some refl refl refl False [unfolded v'_def] 1(2,3)] parts goal False step
      show ?thesis by (simp add: v'_def)
    qed
  qed
qed

text \<open>The replace loop has completed the output up to the offset it returns.\<close>

lemma replace_loop_eq:
  "search \<noteq> [] \<Longrightarrow> NUL \<notin> set search \<Longrightarrow> last_tok = tok \<Longrightarrow> str_ok new \<Longrightarrow>
     \<exists>new' l. replace_loop search rep v tok last_tok new = Inr (new', l) \<and> str_ok new' \<and>
       sval new' @ drop l v = sval new @ replace_all search rep (drop tok v)"
proof (induction search rep v tok last_tok new rule: replace_loop.induct)
  case (1 search rep v tok last_tok new)
  note found = strnstr_replace_all [OF 1(2,3), where h = "drop tok v" and rep = rep]
  show ?case
  proof (cases "handlebars_strnstr (drop tok v) search")
    case None
    with found 1(4,5) show ?thesis by (subst replace_loop.simps) simp
  next
    case (Some k)
    obtain new1 where n1: "handlebars_string_append new (take (tok + k - last_tok) (drop last_tok v)) = Inr new1"
        "str_ok new1" "sval new1 = sval new @ take k (drop tok v)"
      using str_buf.app_total [OF 1(5)] 1(4) by (metis add_diff_cancel_left')
    obtain new2 where n2: "handlebars_string_append new1 rep = Inr new2" "str_ok new2"
        "sval new2 = sval new @ take k (drop tok v) @ rep"
      using str_buf.app_total [OF n1(2), of rep] n1(3) by (metis append_assoc)
    show ?thesis
    proof (cases "tok + k + length search \<ge> length v")
      case True
      with Some n1(1) n2 found show ?thesis
        by (subst replace_loop.simps) (simp add: Let_def add_ac)
    next
      case False
      from 1(1) [OF Some refl n1(1) n2(1) refl False 1(2,3) refl n2(2)] n2(3) found Some False n1(1) n2(1)
      show ?thesis by (subst replace_loop.simps) (auto simp: Let_def add_ac)
    qed
  qed
qed

lemma str_replace_eq:
  assumes "search \<noteq> []" "NUL \<notin> set search" "str_ok s"
  shows "\<exists>t. handlebars_str_replace s search rep = Inr t \<and> str_ok t \<and> sval t = replace_all search rep (sval s)"
proof (cases "sval s = []")
  case True
  with assms show ?thesis by (auto simp: handlebars_str_replace_def)
next
  case False
  let ?i = "handlebars_string_init (length (sval s) * 4 + 1)"
  obtain new l where n: "replace_loop search rep (sval s) 0 0 ?i = Inr (new, l)" "str_ok new"
      "sval new @ drop l (sval s) = replace_all search rep (sval s)"
    using replace_loop_eq [OF assms(1,2) refl, of ?i rep "sval s" 0] by auto
  obtain new1 where "handlebars_string_append new (drop l (sval s)) = Inr new1" "str_ok new1"
      "sval new1 = sval new @ drop l (sval s)"
    using n(2) by (rule str_buf.app_total)
  with n False assms show ?thesis
    by (auto simp: handlebars_str_replace_def)
qed

lemma str_reduce_eq:
  assumes "length rep \<le> length search" "search \<noteq> []" "NUL \<notin> set search" "src s \<le> 1"
  shows "\<exists>t. handlebars_str_reduce s search rep = Inr t \<and> sval t = replace_all search rep (sval s)"
  using assms reduce_loop_eq [OF assms(2,3), of rep "sval s" 0]
  by (auto simp: handlebars_str_reduce_def not_less)

section \<open>Implode and indent, against the references\<close>

lemma implode_len_fold:
  "fold (\<lambda>p l. l + (length (sval p) + length sep)) parts l
     = l + (\<Sum>p\<leftarrow>parts. length (sval p) + length sep)"
  by (induction parts arbitrary: l) auto

lemma implode_len_eq: "implode_len sep parts = (\<Sum>p\<leftarrow>parts. length (sval p) + length sep)"
  by (simp add: implode_len_def implode_len_fold)

lemma join_Cons: "join sep (x # xs) = x @ concat (map (\<lambda>y. sep @ y) xs)"
  by (induction xs arbitrary: x) auto

lemma implode_loop:
  "length (sval s) + (\<Sum>p\<leftarrow>ps. length (sval p) + length sep) < salloc s \<Longrightarrow>
     \<exists>t. efold (\<lambda>q s. ebind (handlebars_string_append_unsafe s sep)
                       (\<lambda>s1. handlebars_string_append_unsafe s1 (sval q))) ps s = Inr t
       \<and> str_ok t \<and> sval t = sval s @ concat (map (\<lambda>p. sep @ sval p) ps)"
proof (induction ps arbitrary: s)
  case Nil
  then show ?case by (simp add: str_ok_def)
next
  case (Cons p ps)
  let ?s = "s\<lparr>sval := sval s @ sep @ sval p, shash := 0\<rparr>"
  from Cons.prems have "length (sval ?s) + (\<Sum>p\<leftarrow>ps. length (sval p) + length sep) < salloc ?s"
    by simp
  from Cons.IH [OF this] Cons.prems show ?case
    by (auto simp: append_unsafe_ok)
qed

lemma implode_eq:
  "\<exists>t. handlebars_string_implode sep parts = Inr t \<and> str_ok t \<and> sval t = join sep (map sval parts)"
proof (cases parts)
  case Nil
  then show ?thesis by (simp add: handlebars_string_implode_def Let_def)
next
  case (Cons p ps)
  show ?thesis
  proof (cases "0 < implode_len sep parts")
    case False
    then have "\<forall>q \<in> set (p # ps). sval q = []" "sep = []"
      using Cons by (auto simp: implode_len_eq)
    then have "join sep (map sval (p # ps)) = []"
      by (auto simp: join_Cons)
    with False Cons show ?thesis by (simp add: handlebars_string_implode_def Let_def)
  next
    case True
    let ?s = "(handlebars_string_init (implode_len sep parts - length sep))\<lparr>sval := sval p, shash := 0\<rparr>"
    have "length (sval ?s) + (\<Sum>p\<leftarrow>ps. length (sval p) + length sep) < salloc ?s"
      using Cons by (simp add: implode_len_eq handlebars_string_init_def)
    moreover have "handlebars_string_append_unsafe (handlebars_string_init (implode_len sep parts - length sep))
        (sval p) = Inr ?s"
      by (subst append_unsafe_ok)
        (use Cons in \<open>auto simp: implode_len_eq handlebars_string_init_def\<close>)
    ultimately show ?thesis
      using implode_loop [of ?s sep ps] True Cons
      by (auto simp: handlebars_string_implode_def Let_def join_Cons o_def)
  qed
qed

text \<open>The indented text: every line but the one after a final newline gets the indentation.\<close>

definition indent_spec :: "string \<Rightarrow> string \<Rightarrow> string" where
  "indent_spec ind s =
     (if s \<noteq> [] \<and> last s = newline
      then join [newline] (map (\<lambda>l. ind @ l) (split_on newline (butlast s))) @ [newline]
      else join [newline] (map (\<lambda>l. ind @ l) (split_on newline s)))"

lemma indent_pieces:
  "ind @ concat (map (\<lambda>c. if c = newline then newline # ind else [c]) s)
     = join [newline] (map (\<lambda>l. ind @ l) (split_on newline s))"
proof (induction s arbitrary: ind)
  case Nil
  then show ?case by simp
next
  case (Cons c s)
  obtain l ls where sp: "split_on newline s = l # ls" by (cases "split_on newline s") auto
  with Cons.IH [of ind] show ?case by (auto simp: join_Cons)
qed

lemma indent_append_eq:
  assumes "sval inp \<noteq> []"
  shows "\<exists>t. handlebars_string_indent_append app inp ind = Inr t \<and> str_ok t \<and>
     sval t = sval app @ indent_spec (sval ind) (sval inp)"
proof -
  let ?ends = "last (sval inp) = newline"
  let ?body = "if ?ends then butlast (sval inp) else sval inp"
  let ?piece = "\<lambda>c. if c = newline then newline # sval ind else [c]"
  obtain a1 where a1: "handlebars_string_append_str app ind = Inr a1" "str_ok a1" "sval a1 = sval app @ sval ind"
    using append_total [of app "sval ind"] by (auto simp: handlebars_string_append_str_def)
  let ?f = "\<lambda>c a. if c = newline then
      ebind (handlebars_string_append a [newline]) (\<lambda>b. handlebars_string_append_str b ind)
    else handlebars_string_append a [c]"
  have "\<exists>b'. ?f c b = Inr b' \<and> str_ok b' \<and> sval b' = sval b @ ?piece c" if "str_ok b" for c b
    using str_buf.app_app [OF that, of "[newline]" "sval ind"] append_total [of b "[c]"]
    by (auto simp del: ebind_eq_Inr simp: handlebars_string_append_str_def)
  from str_buf.efold_body [of ?body ?f ?piece, OF this a1(2)] obtain a2 where
    a2: "efold ?f ?body a1 = Inr a2" "str_ok a2" "sval a2 = sval a1 @ concat (map ?piece ?body)"
    by blast
  show ?thesis
  proof (cases ?ends)
    case True
    then show ?thesis
      using assms a1 a2 append_total [of a2 "[newline]"] indent_pieces [of "sval ind" "butlast (sval inp)"]
      by (auto simp: handlebars_string_indent_append_def indent_spec_def Let_def)
  next
    case False
    then show ?thesis
      using assms a1 a2 indent_pieces [of "sval ind" "sval inp"]
      by (auto simp: handlebars_string_indent_append_def indent_spec_def Let_def)
  qed
qed

section \<open>Properties\<close>

text \<open>Replacing in a new string and reducing in place compute the same text, every non-overlapping
  occurrence from the left replaced; the loops end and never leave the string. (The in-place version
  needs a replacement that is not longer and a string that is not shared.)\<close>
theorem replace_and_reduce_agree:
  assumes "search \<noteq> []" "NUL \<notin> set search" "str_ok s" "length rep \<le> length search" "src s \<le> 1"
  shows "\<exists>t u. handlebars_str_replace s search rep = Inr t \<and> sval t = replace_all search rep (sval s) \<and>
     handlebars_str_reduce s search rep = Inr u \<and> sval u = replace_all search rep (sval s)"
  using str_replace_eq [OF assms(1-3), of rep] str_reduce_eq [OF assms(4,1,2,5)] by blast

theorem replace_and_reduce_agree_witness:
  "\<exists>t u. handlebars_str_replace (handlebars_string_ctor ''a--b-c'') ''--'' ''+'' = Inr t \<and> sval t = ''a+b-c'' \<and>
     handlebars_str_reduce (handlebars_string_ctor ''a--b-c'') ''--'' ''+'' = Inr u \<and> sval u = ''a+b-c''"
  using replace_and_reduce_agree [of "''--''" "handlebars_string_ctor ''a--b-c''" "''+''"]
  by (simp add: str_defs str_ok_def)

text \<open>Implode joins the parts with the separator; the size it computes in advance is enough for the
  unchecked appends.\<close>
theorem implode_correct:
  "\<exists>t. handlebars_string_implode sep parts = Inr t \<and> length (sval t) < salloc t \<and>
     sval t = join sep (map sval parts)"
  using implode_eq [of sep parts] by (simp add: str_ok_def)

text \<open>Indenting appends the input with the indentation in front of every line, a final newline opening no
  line of its own; on an empty input it reads the byte before the string.\<close>
theorem indent_append_correct:
  "if sval inp = [] then handlebars_string_indent_append app inp ind = Inl Mem_error
   else \<exists>t. handlebars_string_indent_append app inp ind = Inr t \<and>
     sval t = sval app @ indent_spec (sval ind) (sval inp)"
  using indent_append_eq [of inp app ind] by (auto simp: handlebars_string_indent_append_def)

end
