(* ===== verification/Token.thy ===== *)
theory Token
  imports StringEscape
begin

text \<open>
  The tokens of the lexer (src/handlebars_token.c): a token is the number of its kind (\<open>enum
  yytokentype\<close> of src/handlebars.tab.h) and its text. The kind is an \<open>int\<close> in the C record, so every
  function here takes any integer. The lemmas show which names the two name tables undo and that a
  printed token is one line.
\<close>

section \<open>Kinds\<close>

datatype yytokentype =
    END | BOOLEAN | CLOSE | CLOSE_RAW_BLOCK | CLOSE_SEXPR | CLOSE_UNESCAPED
  | COMMENT | CONTENT | DATA | END_RAW_BLOCK | EQUALS | ID
  | INVALID | INVERSE | NUMBER | OPEN | OPEN_BLOCK | OPEN_ENDBLOCK
  | OPEN_INVERSE | OPEN_PARTIAL | OPEN_RAW_BLOCK | OPEN_SEXPR | OPEN_UNESCAPED | SEP
  | STRING | CLOSE_BLOCK_PARAMS | NUL_TOKEN | OPEN_BLOCK_PARAMS | OPEN_INVERSE_CHAIN | UNDEFINED
  | OPEN_PARTIAL_BLOCK | LONG_COMMENT | SINGLE_STRING

definition yytokentype_num :: "(yytokentype \<times> int) list" where
  "yytokentype_num =
    [(END, 0), (BOOLEAN, 258), (CLOSE, 259), (CLOSE_RAW_BLOCK, 260), (CLOSE_SEXPR, 261),
     (CLOSE_UNESCAPED, 262), (COMMENT, 263), (CONTENT, 264), (DATA, 265), (END_RAW_BLOCK, 266),
     (EQUALS, 267), (ID, 268), (INVALID, 269), (INVERSE, 270), (NUMBER, 271),
     (OPEN, 272), (OPEN_BLOCK, 273), (OPEN_ENDBLOCK, 274), (OPEN_INVERSE, 275), (OPEN_PARTIAL, 276),
     (OPEN_RAW_BLOCK, 277), (OPEN_SEXPR, 278), (OPEN_UNESCAPED, 279), (SEP, 280), (STRING, 281),
     (CLOSE_BLOCK_PARAMS, 282), (NUL_TOKEN, 283), (OPEN_BLOCK_PARAMS, 284), (OPEN_INVERSE_CHAIN, 285), (UNDEFINED, 286),
     (OPEN_PARTIAL_BLOCK, 287), (LONG_COMMENT, 288), (SINGLE_STRING, 289)]"

definition token_int :: "yytokentype \<Rightarrow> int" where
  "token_int t = the (map_of yytokentype_num t)"

definition token_of_int :: "int \<Rightarrow> yytokentype option" where
  "token_of_int i = map_of (map prod.swap yytokentype_num) i"

text \<open>The cases of \<open>handlebars_token_readable_type\<close>, in the order of the switch.\<close>

fun token_name :: "yytokentype \<Rightarrow> string" where
  "token_name BOOLEAN = ''BOOLEAN''"
| "token_name CLOSE = ''CLOSE''"
| "token_name CLOSE_RAW_BLOCK = ''CLOSE_RAW_BLOCK''"
| "token_name CLOSE_SEXPR = ''CLOSE_SEXPR''"
| "token_name CLOSE_UNESCAPED = ''CLOSE_UNESCAPED''"
| "token_name COMMENT = ''COMMENT''"
| "token_name CONTENT = ''CONTENT''"
| "token_name DATA = ''DATA''"
| "token_name END = ''END''"
| "token_name END_RAW_BLOCK = ''END_RAW_BLOCK''"
| "token_name EQUALS = ''EQUALS''"
| "token_name ID = ''ID''"
| "token_name INVALID = ''INVALID''"
| "token_name INVERSE = ''INVERSE''"
| "token_name NUMBER = ''NUMBER''"
| "token_name OPEN = ''OPEN''"
| "token_name OPEN_BLOCK = ''OPEN_BLOCK''"
| "token_name OPEN_ENDBLOCK = ''OPEN_ENDBLOCK''"
| "token_name OPEN_INVERSE = ''OPEN_INVERSE''"
| "token_name OPEN_PARTIAL = ''OPEN_PARTIAL''"
| "token_name OPEN_RAW_BLOCK = ''OPEN_RAW_BLOCK''"
| "token_name OPEN_SEXPR = ''OPEN_SEXPR''"
| "token_name OPEN_UNESCAPED = ''OPEN_UNESCAPED''"
| "token_name SEP = ''SEP''"
| "token_name STRING = ''STRING''"
| "token_name CLOSE_BLOCK_PARAMS = ''CLOSE_BLOCK_PARAMS''"
| "token_name OPEN_BLOCK_PARAMS = ''OPEN_BLOCK_PARAMS''"
| "token_name OPEN_INVERSE_CHAIN = ''OPEN_INVERSE_CHAIN''"
| "token_name UNDEFINED = ''UNDEFINED''"
| "token_name OPEN_PARTIAL_BLOCK = ''OPEN_PARTIAL_BLOCK''"
| "token_name LONG_COMMENT = ''COMMENT''"
| "token_name SINGLE_STRING = ''STRING''"
| "token_name NUL_TOKEN = ''NULL''"

definition handlebars_token_readable_type :: "int \<Rightarrow> string" where
  "handlebars_token_readable_type i =
     (case token_of_int i of Some t \<Rightarrow> token_name t | None \<Rightarrow> ''UNKNOWN'')"

text \<open>
  The way back: a switch on the first byte (of the terminator when the string is empty), then one
  \<open>strcmp\<close> after the other. An unexpected first byte is an assertion failure, an unexpected name
  returns \<open>-1\<close>.
\<close>

definition token_reverse_case :: "char \<Rightarrow> (string \<times> yytokentype) list option" where
  "token_reverse_case c =
    (if c = CHR ''B'' then Some
       [(''BOOLEAN'', BOOLEAN)]
     else if c = CHR ''C'' then Some
       [(''CLOSE'', CLOSE), (''CLOSE_RAW_BLOCK'', CLOSE_RAW_BLOCK), (''CLOSE_SEXPR'', CLOSE_SEXPR),
        (''CLOSE_UNESCAPED'', CLOSE_UNESCAPED), (''COMMENT'', COMMENT), (''CONTENT'', CONTENT),
        (''CLOSE_BLOCK_PARAMS'', CLOSE_BLOCK_PARAMS)]
     else if c = CHR ''D'' then Some
       [(''DATA'', DATA)]
     else if c = CHR ''E'' then Some
       [(''END'', END), (''END_RAW_BLOCK'', END_RAW_BLOCK), (''EQUALS'', EQUALS)]
     else if c = CHR ''I'' then Some
       [(''ID'', ID), (''INVALID'', INVALID), (''INVERSE'', INVERSE)]
     else if c = CHR ''L'' then Some
       [(''LONG_COMMENT'', COMMENT)]
     else if c = CHR ''N'' then Some
       [(''NUMBER'', NUMBER), (''NULL'', NUL_TOKEN)]
     else if c = CHR ''O'' then Some
       [(''OPEN'', OPEN), (''OPEN_BLOCK'', OPEN_BLOCK), (''OPEN_ENDBLOCK'', OPEN_ENDBLOCK),
        (''OPEN_INVERSE'', OPEN_INVERSE), (''OPEN_PARTIAL'', OPEN_PARTIAL), (''OPEN_RAW_BLOCK'', OPEN_RAW_BLOCK),
        (''OPEN_SEXPR'', OPEN_SEXPR), (''OPEN_UNESCAPED'', OPEN_UNESCAPED), (''OPEN_INVERSE_CHAIN'', OPEN_INVERSE_CHAIN),
        (''OPEN_BLOCK_PARAMS'', OPEN_BLOCK_PARAMS), (''OPEN_PARTIAL_BLOCK'', OPEN_PARTIAL_BLOCK)]
     else if c = CHR ''S'' then Some
       [(''SEP'', SEP), (''STRING'', STRING), (''SINGLE_STRING'', STRING)]
     else if c = CHR ''U'' then Some
       [(''UNDEFINED'', UNDEFINED)]
     else None)"

definition first_byte :: "string \<Rightarrow> char" where
  "first_byte s = (case s of [] \<Rightarrow> NUL | c # _ \<Rightarrow> c)"

definition handlebars_token_reverse_readable_type :: "string \<Rightarrow> hbs_error + int" where
  "handlebars_token_reverse_readable_type s =
     (case token_reverse_case (first_byte s) of
        None \<Rightarrow> Inl Assert_fail
      | Some names \<Rightarrow> (case map_of names s of Some t \<Rightarrow> Inr (token_int t) | None \<Rightarrow> Inr (- 1)))"

section \<open>Tokens\<close>

record handlebars_token =
  token :: int
  tstring :: hstr

definition handlebars_token_ctor :: "int \<Rightarrow> hstr \<Rightarrow> handlebars_token" where
  "handlebars_token_ctor i s = \<lparr>token = i, tstring = s\<rparr>"

definition handlebars_token_get_type :: "handlebars_token \<Rightarrow> int" where
  "handlebars_token_get_type t = token t"

definition handlebars_token_get_text :: "handlebars_token \<Rightarrow> hstr" where
  "handlebars_token_get_text t = tstring t"

text \<open>\<open>newlines\<close> is \<open>flags & handlebars_token_print_flag_newlines\<close>.\<close>

definition token_escape_set :: string where
  "token_escape_set = [CHR 0x0D, CHR 0x0A, CHR 0x09, CHR 0x0B]"

definition handlebars_token_print_append :: "hstr \<Rightarrow> handlebars_token \<Rightarrow> bool \<Rightarrow> hbs_error + hstr" where
  "handlebars_token_print_append s t newlines =
     ebind (handlebars_string_addcslashes (tstring t) token_escape_set) (\<lambda>text.
     ebind (handlebars_string_append s (handlebars_token_readable_type (token t))) (\<lambda>s1.
     ebind (handlebars_string_append s1 '' ['') (\<lambda>s2.
     ebind (handlebars_string_append_str s2 text) (\<lambda>s3.
     ebind (handlebars_string_append s3 '']'') (\<lambda>s4.
       handlebars_string_append s4 (if newlines then [CHR 0x0A] else '' ''))))))"

definition handlebars_token_print :: "handlebars_token \<Rightarrow> bool \<Rightarrow> hbs_error + hstr" where
  "handlebars_token_print t newlines = handlebars_token_print_append (handlebars_string_init 128) t newlines"

section \<open>The name tables\<close>

text \<open>The kind a printed name comes back as.\<close>

fun token_canonical :: "yytokentype \<Rightarrow> yytokentype" where
  "token_canonical LONG_COMMENT = COMMENT"
| "token_canonical SINGLE_STRING = STRING"
| "token_canonical t = t"

lemma token_of_token_int: "token_of_int (token_int t) = Some t"
  by (cases t) (simp_all add: token_of_int_def token_int_def yytokentype_num_def)

lemma token_int_of: "token_of_int i = Some t \<Longrightarrow> i = token_int t"
  by (auto simp: token_of_int_def token_int_def yytokentype_num_def split: if_splits)

lemma token_reverse_name:
  "handlebars_token_reverse_readable_type (token_name t) = Inr (token_int (token_canonical t))"
  by (cases t) (simp_all add: handlebars_token_reverse_readable_type_def first_byte_def token_reverse_case_def)

lemma token_canonical_int:
  "token_int (token_canonical t) =
     (if token_int t = token_int LONG_COMMENT then token_int COMMENT
      else if token_int t = token_int SINGLE_STRING then token_int STRING else token_int t)"
  by (cases t) (simp_all add: token_int_def yytokentype_num_def)

lemma token_reverse_unknown: "handlebars_token_reverse_readable_type ''UNKNOWN'' = Inr (- 1)"
  by (simp add: handlebars_token_reverse_readable_type_def first_byte_def token_reverse_case_def)

lemma token_int_nonneg: "0 \<le> token_int t"
  by (cases t) (simp_all add: token_int_def yytokentype_num_def)

lemma token_reverse_table:
  assumes "token_reverse_case c = Some names" "map_of names s = Some t"
  shows "token_name t = s \<or> s \<in> {''LONG_COMMENT'', ''SINGLE_STRING''}"
  using assms by (auto simp: token_reverse_case_def split: if_splits)

section \<open>Printing\<close>

definition token_line :: "handlebars_token \<Rightarrow> string" where
  "token_line t = handlebars_token_readable_type (token t) @ '' ['' @
     concat (map (addcslashes_char token_escape_set) (sval (tstring t))) @ '']''"

lemma print_append_eq:
  "\<exists>r. handlebars_token_print_append s t nl = Inr r \<and> str_ok r \<and>
     sval r = sval s @ token_line t @ (if nl then [CHR 0x0A] else '' '')"
proof -
  obtain esc where esc: "handlebars_string_addcslashes (tstring t) token_escape_set = Inr esc"
      "sval esc = concat (map (addcslashes_char token_escape_set) (sval (tstring t)))"
    using addcslashes_eq by blast
  obtain s1 where s1: "handlebars_string_append s (handlebars_token_readable_type (token t)) = Inr s1"
      "sval s1 = sval s @ handlebars_token_readable_type (token t)"
    using append_total by blast
  obtain s2 where s2: "handlebars_string_append s1 '' ['' = Inr s2" "sval s2 = sval s1 @ '' [''"
    using append_total by blast
  obtain s3 where s3: "handlebars_string_append_str s2 esc = Inr s3" "sval s3 = sval s2 @ sval esc"
    using append_total unfolding handlebars_string_append_str_def by blast
  obtain s4 where s4: "handlebars_string_append s3 '']'' = Inr s4" "sval s4 = sval s3 @ '']''"
    using append_total by blast
  obtain r where r: "handlebars_string_append s4 (if nl then [CHR 0x0A] else '' '') = Inr r" "str_ok r"
      "sval r = sval s4 @ (if nl then [CHR 0x0A] else '' '')"
    using append_total by blast
  have "handlebars_token_print_append s t nl = Inr r"
    unfolding handlebars_token_print_append_def esc(1) ebind.simps s1(1) s2(1) s3(1) s4(1) r(1) ..
  then show ?thesis
    using r(2,3) by (simp add: s4 s3 s2 s1 esc token_line_def)
qed

lemma token_name_no_newline: "CHR 0x0A \<notin> set (handlebars_token_readable_type i)"
proof -
  have "CHR 0x0A \<notin> set (token_name t)" for t by (cases t) simp_all
  then show ?thesis by (simp add: handlebars_token_readable_type_def split: option.splits)
qed

lemma escaped_char_no_newline: "CHR 0x0A \<notin> set (addcslashes_char token_escape_set c)"
  by (auto simp: addcslashes_char_def token_escape_set_def control_letter_def)

lemma token_line_no_newline: "CHR 0x0A \<notin> set (token_line t)"
  using token_name_no_newline escaped_char_no_newline by (auto simp: token_line_def)

section \<open>Properties\<close>

text \<open>Reading the name of a token's kind gives the kind back, except that \<open>LONG_COMMENT\<close> comes back as
  \<open>COMMENT\<close> and \<open>SINGLE_STRING\<close> as \<open>STRING\<close>; a number that is no kind comes back as \<open>-1\<close>. No name of
  a kind reaches the assertion of the reverse table.\<close>
theorem token_type_roundtrip:
  "handlebars_token_reverse_readable_type (handlebars_token_readable_type i) =
     Inr (case token_of_int i of
            Some t \<Rightarrow> if i = token_int LONG_COMMENT then token_int COMMENT
                      else if i = token_int SINGLE_STRING then token_int STRING else i
          | None \<Rightarrow> - 1)"
proof (cases "token_of_int i")
  case None
  then show ?thesis by (simp add: handlebars_token_readable_type_def token_reverse_unknown)
next
  case (Some t)
  from Some have "i = token_int t" by (rule token_int_of)
  then show ?thesis
    by (simp add: token_of_token_int handlebars_token_readable_type_def token_reverse_name token_canonical_int)
qed

text \<open>Printing a token with the newline flag appends exactly one line: the printed text is the name and
  the text in brackets, and holds no newline except the one at its end, whatever the token's text is.\<close>
theorem token_print_line:
  "\<exists>r line. handlebars_token_print_append s t True = Inr r \<and> sval r = sval s @ line @ [CHR 0x0A] \<and>
     CHR 0x0A \<notin> set line \<and> (\<exists>body. line = handlebars_token_readable_type (token t) @ '' ['' @ body @ '']'')"
  using print_append_eq [of s t True] token_line_no_newline [of t]
  by (auto simp: token_line_def)

end
