(* ===== verification/Opcodes.thy ===== *)
theory Opcodes
  imports Token
begin

text \<open>
  The opcodes the compiler emits and the VM runs (src/handlebars_opcodes.h, src/handlebars_opcodes.c).
  An operand is a tagged union. The model is polymorphic in what the two pointer members point to:
  \<open>'s\<close> is a string and \<open>'a\<close> an array of strings; in a program they are the objects (\<open>hstr\<close>,
  \<open>hstr list\<close>), in a serialized module they are addresses. A null operand keeps the byte the union
  starts with (\<open>data.boolval\<close>), because the serializer uses it.
\<close>

section \<open>Opcode types\<close>

datatype handlebars_opcode_type =
    handlebars_opcode_type_invalid | handlebars_opcode_type_nil
  | handlebars_opcode_type_ambiguous_block_value | handlebars_opcode_type_append
  | handlebars_opcode_type_append_escaped | handlebars_opcode_type_empty_hash
  | handlebars_opcode_type_pop_hash | handlebars_opcode_type_push_context
  | handlebars_opcode_type_push_hash | handlebars_opcode_type_resolve_possible_lambda
  | handlebars_opcode_type_get_context | handlebars_opcode_type_push_program
  | handlebars_opcode_type_append_content | handlebars_opcode_type_assign_to_hash
  | handlebars_opcode_type_block_value | handlebars_opcode_type_push
  | handlebars_opcode_type_push_literal | handlebars_opcode_type_push_string
  | handlebars_opcode_type_invoke_partial | handlebars_opcode_type_push_id
  | handlebars_opcode_type_push_string_param | handlebars_opcode_type_invoke_ambiguous
  | handlebars_opcode_type_invoke_known_helper | handlebars_opcode_type_invoke_helper
  | handlebars_opcode_type_lookup_on_context | handlebars_opcode_type_lookup_data
  | handlebars_opcode_type_lookup_block_param | handlebars_opcode_type_register_decorator
  | handlebars_opcode_type_return

fun handlebars_opcode_readable_type :: "handlebars_opcode_type \<Rightarrow> string" where
  "handlebars_opcode_readable_type handlebars_opcode_type_nil = ''nil''"
| "handlebars_opcode_readable_type handlebars_opcode_type_ambiguous_block_value = ''ambiguousBlockValue''"
| "handlebars_opcode_readable_type handlebars_opcode_type_append = ''append''"
| "handlebars_opcode_readable_type handlebars_opcode_type_append_escaped = ''appendEscaped''"
| "handlebars_opcode_readable_type handlebars_opcode_type_empty_hash = ''emptyHash''"
| "handlebars_opcode_readable_type handlebars_opcode_type_pop_hash = ''popHash''"
| "handlebars_opcode_readable_type handlebars_opcode_type_push_context = ''pushContext''"
| "handlebars_opcode_readable_type handlebars_opcode_type_push_hash = ''pushHash''"
| "handlebars_opcode_readable_type handlebars_opcode_type_resolve_possible_lambda = ''resolvePossibleLambda''"
| "handlebars_opcode_readable_type handlebars_opcode_type_get_context = ''getContext''"
| "handlebars_opcode_readable_type handlebars_opcode_type_push_program = ''pushProgram''"
| "handlebars_opcode_readable_type handlebars_opcode_type_append_content = ''appendContent''"
| "handlebars_opcode_readable_type handlebars_opcode_type_assign_to_hash = ''assignToHash''"
| "handlebars_opcode_readable_type handlebars_opcode_type_block_value = ''blockValue''"
| "handlebars_opcode_readable_type handlebars_opcode_type_push = ''push''"
| "handlebars_opcode_readable_type handlebars_opcode_type_push_literal = ''pushLiteral''"
| "handlebars_opcode_readable_type handlebars_opcode_type_push_string = ''pushString''"
| "handlebars_opcode_readable_type handlebars_opcode_type_invoke_partial = ''invokePartial''"
| "handlebars_opcode_readable_type handlebars_opcode_type_push_id = ''pushId''"
| "handlebars_opcode_readable_type handlebars_opcode_type_push_string_param = ''pushStringParam''"
| "handlebars_opcode_readable_type handlebars_opcode_type_invoke_ambiguous = ''invokeAmbiguous''"
| "handlebars_opcode_readable_type handlebars_opcode_type_invoke_known_helper = ''invokeKnownHelper''"
| "handlebars_opcode_readable_type handlebars_opcode_type_invoke_helper = ''invokeHelper''"
| "handlebars_opcode_readable_type handlebars_opcode_type_lookup_on_context = ''lookupOnContext''"
| "handlebars_opcode_readable_type handlebars_opcode_type_lookup_data = ''lookupData''"
| "handlebars_opcode_readable_type handlebars_opcode_type_invalid = ''invalid''"
| "handlebars_opcode_readable_type handlebars_opcode_type_lookup_block_param = ''lookupBlockParam''"
| "handlebars_opcode_readable_type handlebars_opcode_type_register_decorator = ''registerDecorator''"
| "handlebars_opcode_readable_type handlebars_opcode_type_return = ''return''"

text \<open>\<open>-1\<close>, what the function returns for an unknown name, is \<open>handlebars_opcode_type_invalid\<close>.\<close>

definition opcode_reverse_case :: "char \<Rightarrow> (string \<times> handlebars_opcode_type) list option" where
  "opcode_reverse_case c =
    (if c = CHR ''a'' then Some
       [(''ambiguousBlockValue'', handlebars_opcode_type_ambiguous_block_value),
        (''append'', handlebars_opcode_type_append),
        (''appendEscaped'', handlebars_opcode_type_append_escaped),
        (''appendContent'', handlebars_opcode_type_append_content),
        (''assignToHash'', handlebars_opcode_type_assign_to_hash)]
     else if c = CHR ''b'' then Some
       [(''blockValue'', handlebars_opcode_type_block_value)]
     else if c = CHR ''e'' then Some
       [(''emptyHash'', handlebars_opcode_type_empty_hash)]
     else if c = CHR ''g'' then Some
       [(''getContext'', handlebars_opcode_type_get_context)]
     else if c = CHR ''i'' then Some
       [(''invokePartial'', handlebars_opcode_type_invoke_partial),
        (''invokeAmbiguous'', handlebars_opcode_type_invoke_ambiguous),
        (''invokeKnownHelper'', handlebars_opcode_type_invoke_known_helper),
        (''invokeHelper'', handlebars_opcode_type_invoke_helper),
        (''invalid'', handlebars_opcode_type_invalid)]
     else if c = CHR ''l'' then Some
       [(''lookupBlockParam'', handlebars_opcode_type_lookup_block_param),
        (''lookupOnContext'', handlebars_opcode_type_lookup_on_context),
        (''lookupData'', handlebars_opcode_type_lookup_data)]
     else if c = CHR ''n'' then Some
       [(''nil'', handlebars_opcode_type_nil)]
     else if c = CHR ''p'' then Some
       [(''popHash'', handlebars_opcode_type_pop_hash),
        (''pushContext'', handlebars_opcode_type_push_context),
        (''pushHash'', handlebars_opcode_type_push_hash),
        (''pushProgram'', handlebars_opcode_type_push_program),
        (''push'', handlebars_opcode_type_push),
        (''pushLiteral'', handlebars_opcode_type_push_literal),
        (''pushString'', handlebars_opcode_type_push_string),
        (''pushId'', handlebars_opcode_type_push_id),
        (''pushStringParam'', handlebars_opcode_type_push_string_param)]
     else if c = CHR ''r'' then Some
       [(''resolvePossibleLambda'', handlebars_opcode_type_resolve_possible_lambda),
        (''registerDecorator'', handlebars_opcode_type_register_decorator)]
     else None)"

definition handlebars_opcode_reverse_readable_type :: "string \<Rightarrow> hbs_error + handlebars_opcode_type" where
  "handlebars_opcode_reverse_readable_type s =
     (case opcode_reverse_case (first_byte s) of
        None \<Rightarrow> Inl Assert_fail
      | Some names \<Rightarrow>
          (case map_of names s of Some t \<Rightarrow> Inr t | None \<Rightarrow> Inr handlebars_opcode_type_invalid))"

definition handlebars_opcode_num_operands :: "handlebars_opcode_type \<Rightarrow> nat" where
  "handlebars_opcode_num_operands type =
     (if type \<in> {handlebars_opcode_type_get_context, handlebars_opcode_type_push_program,
        handlebars_opcode_type_append_content, handlebars_opcode_type_assign_to_hash,
        handlebars_opcode_type_block_value, handlebars_opcode_type_push,
        handlebars_opcode_type_push_literal, handlebars_opcode_type_push_string,
        handlebars_opcode_type_empty_hash} then 1
      else if type \<in> {handlebars_opcode_type_push_string_param, handlebars_opcode_type_invoke_known_helper,
        handlebars_opcode_type_lookup_block_param, handlebars_opcode_type_register_decorator} then 2
      else if type \<in> {handlebars_opcode_type_invoke_ambiguous, handlebars_opcode_type_invoke_helper,
        handlebars_opcode_type_invoke_partial, handlebars_opcode_type_push_id,
        handlebars_opcode_type_lookup_data} then 3
      else if type \<in> {handlebars_opcode_type_lookup_on_context} then 4
      else 0)"

section \<open>Operands and opcodes\<close>

datatype ('s, 'a) handlebars_operand =
    operand_null bool
  | operand_boolean bool
  | operand_long u64
  | operand_string 's
  | operand_array 'a

record handlebars_locinfo =
  first_line :: int
  first_column :: int
  last_line :: int
  last_column :: int

record ('s, 'a) handlebars_opcode =
  otype :: handlebars_opcode_type
  op1 :: "('s, 'a) handlebars_operand"
  op2 :: "('s, 'a) handlebars_operand"
  op3 :: "('s, 'a) handlebars_operand"
  op4 :: "('s, 'a) handlebars_operand"
  oloc :: handlebars_locinfo

type_synonym operand = "(hstr, hstr list) handlebars_operand"
type_synonym opcode = "(hstr, hstr list) handlebars_opcode"

definition no_loc :: handlebars_locinfo where
  "no_loc = \<lparr>first_line = 0, first_column = 0, last_line = 0, last_column = 0\<rparr>"

definition handlebars_opcode_ctor :: "handlebars_opcode_type \<Rightarrow> ('s, 'a) handlebars_opcode" where
  "handlebars_opcode_ctor type =
     \<lparr>otype = type, op1 = operand_null False, op2 = operand_null False, op3 = operand_null False,
      op4 = operand_null False, oloc = no_loc\<rparr>"

definition handlebars_opcode_set_loc :: "('s, 'a) handlebars_opcode \<Rightarrow> handlebars_locinfo \<Rightarrow> ('s, 'a) handlebars_opcode" where
  "handlebars_opcode_set_loc opc loc = opc\<lparr>oloc := loc\<rparr>"

text \<open>The setters return the operand they write.\<close>

definition handlebars_operand_set_null :: operand where
  "handlebars_operand_set_null = operand_null False"

definition handlebars_operand_set_boolval :: "bool \<Rightarrow> operand" where
  "handlebars_operand_set_boolval b = operand_boolean b"

definition handlebars_operand_set_longval :: "u64 \<Rightarrow> operand" where
  "handlebars_operand_set_longval n = operand_long n"

definition handlebars_operand_set_stringval :: "hstr \<Rightarrow> operand" where
  "handlebars_operand_set_stringval s = operand_string s"

text \<open>The array arguments are NULL-terminated: the count is the length of the list.\<close>

definition handlebars_operand_set_arrayval :: "string list \<Rightarrow> operand" where
  "handlebars_operand_set_arrayval arg = operand_array (map handlebars_string_ctor arg)"

definition handlebars_operand_set_arrayval_string :: "hstr list \<Rightarrow> operand" where
  "handlebars_operand_set_arrayval_string arg = operand_array (map handlebars_string_copy_ctor arg)"

definition operand_type_null :: "('s, 'a) handlebars_operand \<Rightarrow> bool" where
  "operand_type_null p = (case p of operand_null _ \<Rightarrow> True | _ \<Rightarrow> False)"

text \<open>
  An opcode uses only the operands its type has: what the printer asserts.
\<close>

definition opcode_operands_ok :: "('s, 'a) handlebars_opcode \<Rightarrow> bool" where
  "opcode_operands_ok opc \<longleftrightarrow>
     (let n = handlebars_opcode_num_operands (otype opc)
      in (n < 1 \<longrightarrow> operand_type_null (op1 opc)) \<and> (n < 2 \<longrightarrow> operand_type_null (op2 opc)) \<and>
         (n < 3 \<longrightarrow> operand_type_null (op3 opc)) \<and> (n < 4 \<longrightarrow> operand_type_null (op4 opc)))"

lemma opcode_ctor_simps [simp]:
  "otype (handlebars_opcode_ctor t) = t"
  "op1 (handlebars_opcode_ctor t) = operand_null False" "op2 (handlebars_opcode_ctor t) = operand_null False"
  "op3 (handlebars_opcode_ctor t) = operand_null False" "op4 (handlebars_opcode_ctor t) = operand_null False"
  by (simp_all add: handlebars_opcode_ctor_def)

section \<open>Programs\<close>

text \<open>
  \<open>struct handlebars_program\<close> (src/handlebars_compiler.h), the compiler's output: a tree through
  \<open>children\<close> and \<open>decorators\<close>. \<open>main\<close>, \<open>programs\<close> and the vector sizes are the compiler's bookkeeping.
\<close>

datatype handlebars_program =
  handlebars_program (guid: int) (flags: u64) (result_flags: u32) (block_params: nat)
    (opcodes: "opcode list") (children: "handlebars_program list") (decorators: "handlebars_program list")

section \<open>Properties\<close>

text \<open>The name of an opcode type reads back as the type, with one exception: \<open>return\<close> has no entry in the
  reverse table and reads back as \<open>invalid\<close>. A name that is read as a type other than \<open>invalid\<close> is the
  name of that type.\<close>
theorem opcode_type_roundtrip:
  "handlebars_opcode_reverse_readable_type (handlebars_opcode_readable_type t) =
     Inr (if t = handlebars_opcode_type_return then handlebars_opcode_type_invalid else t) \<and>
   (handlebars_opcode_reverse_readable_type s = Inr u \<longrightarrow>
      u = handlebars_opcode_type_invalid \<or> handlebars_opcode_readable_type u = s)"
proof
  show "handlebars_opcode_reverse_readable_type (handlebars_opcode_readable_type t) =
     Inr (if t = handlebars_opcode_type_return then handlebars_opcode_type_invalid else t)"
    by (cases t)
      (simp_all add: handlebars_opcode_reverse_readable_type_def first_byte_def opcode_reverse_case_def)
  show "handlebars_opcode_reverse_readable_type s = Inr u \<longrightarrow>
      u = handlebars_opcode_type_invalid \<or> handlebars_opcode_readable_type u = s"
  proof
    assume "handlebars_opcode_reverse_readable_type s = Inr u"
    then show "u = handlebars_opcode_type_invalid \<or> handlebars_opcode_readable_type u = s"
      by (simp add: handlebars_opcode_reverse_readable_type_def opcode_reverse_case_def split: if_splits)
  qed
qed

text \<open>The second part of the property at a concrete name.\<close>
theorem opcode_type_roundtrip_witness:
  "handlebars_opcode_reverse_readable_type ''pushId'' = Inr handlebars_opcode_type_push_id \<and>
   handlebars_opcode_readable_type handlebars_opcode_type_push_id = ''pushId''"
proof -
  have r: "handlebars_opcode_reverse_readable_type ''pushId'' = Inr handlebars_opcode_type_push_id"
    by (simp add: handlebars_opcode_reverse_readable_type_def first_byte_def opcode_reverse_case_def)
  with opcode_type_roundtrip [of handlebars_opcode_type_nil "''pushId''" handlebars_opcode_type_push_id]
  show ?thesis by simp
qed

end
