(* ===== verification/Serializer.thy ===== *)
theory Serializer
  imports Opcodes
begin

text \<open>
  Serialized modules (src/handlebars_opcode_serializer.c): one block of memory that holds a header, the
  table of programs, the array of opcodes and a data area with the strings and string arrays the
  operands point to.

  An address is an \<open>int\<close>: the code only forms differences and sums of addresses inside one block. The
  header and the two arrays are fields of the record; \<open>mdata\<close> maps the offset of an object in the data
  area to the object. The block itself lies at an address \<open>loc\<close> that is an argument of the operations
  that follow pointers; \<open>maddr\<close> is the address stored in the header, for which the pointers are valid.
  A pointer is followed by \<open>mderef\<close>, which fails if no object starts there. Memory that was allocated and
  not yet written reads as zeros. The sizes are those of the LP64 ABI.
\<close>

section \<open>Sizes\<close>

definition HANDLEBARS_STRING_SIZE :: nat where "HANDLEBARS_STRING_SIZE = 24"
definition HANDLEBARS_MODULE_SIZE :: nat where "HANDLEBARS_MODULE_SIZE = 96"
definition HANDLEBARS_MODULE_TABLE_ENTRY_SIZE :: nat where "HANDLEBARS_MODULE_TABLE_ENTRY_SIZE = 24"
definition HANDLEBARS_OPCODE_SIZE :: nat where "HANDLEBARS_OPCODE_SIZE = 120"
definition POINTER_SIZE :: nat where "POINTER_SIZE = 8"

definition HBS_STR_SIZE :: "nat \<Rightarrow> nat" where
  "HBS_STR_SIZE len = HANDLEBARS_STRING_SIZE + len + 1"

abbreviation align_size :: "nat \<Rightarrow> nat" where
  "align_size n \<equiv> handlebars_align_size n POINTER_SIZE"

section \<open>The module\<close>

record handlebars_module_table_entry =
  entry_guid :: nat
  entry_opcode_count :: nat
  entry_opcode_offset :: nat

type_synonym moperand = "(int, nat \<times> int) handlebars_operand"
type_synonym mopcode = "(int, nat \<times> int) handlebars_opcode"

datatype mobject = Obj_string hstr | Obj_array "int list"

record handlebars_module =
  mhash :: u64
  mversion :: int
  maddr :: int
  msize :: nat
  mts :: int
  mflags :: u64
  mprogram_count :: nat
  mprograms_ptr :: int
  mopcode_count :: nat
  mopcodes_ptr :: int
  mdata_offset :: nat
  mprograms :: "handlebars_module_table_entry list"
  mopcodes :: "mopcode list"
  mdata :: "nat \<Rightarrow> mobject option"

definition data_address :: "int \<Rightarrow> nat \<Rightarrow> int" where
  "data_address loc off = loc + int HANDLEBARS_MODULE_SIZE + int off"

definition data_index :: "int \<Rightarrow> int \<Rightarrow> nat option" where
  "data_index loc a =
     (if loc + int HANDLEBARS_MODULE_SIZE \<le> a then Some (nat (a - loc - int HANDLEBARS_MODULE_SIZE)) else None)"

definition mderef :: "int \<Rightarrow> handlebars_module \<Rightarrow> int \<Rightarrow> mobject option" where
  "mderef loc m a = Option.bind (data_index loc a) (mdata m)"

section \<open>The size of a module\<close>

fun calculate_size_operand :: "operand \<Rightarrow> nat" where
  "calculate_size_operand (operand_string s) = align_size (HBS_STR_SIZE (hbs_str_len s))"
| "calculate_size_operand (operand_array arr) =
     fold (\<lambda>s size. size + align_size (HBS_STR_SIZE (hbs_str_len s))) arr (align_size (POINTER_SIZE * length arr))"
| "calculate_size_operand _ = 0"

text \<open>Each call also counts an opcode.\<close>

definition calculate_size_opcode :: "opcode \<Rightarrow> nat" where
  "calculate_size_opcode opc =
     HANDLEBARS_OPCODE_SIZE + calculate_size_operand (op1 opc) + calculate_size_operand (op2 opc) +
     calculate_size_operand (op3 opc) + calculate_size_operand (op4 opc)"

text \<open>The size, and what the call adds to \<open>program_count\<close> and to \<open>opcode_count\<close>.\<close>

fun calculate_size_program :: "handlebars_program \<Rightarrow> nat \<times> nat \<times> nat" where
  "calculate_size_program (handlebars_program g fl rf bp opcs kids decs) =
     (let cs = map calculate_size_program kids;
          size = HANDLEBARS_MODULE_TABLE_ENTRY_SIZE + sum_list (map fst cs) +
                 sum_list (map calculate_size_opcode opcs) +
                 calculate_size_opcode (handlebars_opcode_ctor handlebars_opcode_type_return)
      in (size, 1 + sum_list (map (fst \<circ> snd) cs), length opcs + 1 + sum_list (map (snd \<circ> snd) cs)))"

section \<open>Writing\<close>

text \<open>
  \<open>append\<close>: copy an object of \<open>size\<close> bytes to the end of the data area; the result is its address. An
  object of no bytes (an empty array) shares its address with the next one and is not recorded.
\<close>

definition mappend :: "mobject \<Rightarrow> nat \<Rightarrow> handlebars_module \<Rightarrow> hbs_error + int \<times> handlebars_module" where
  "mappend obj sz m =
     (let aligned_size = align_size sz in
      if HANDLEBARS_MODULE_SIZE + mdata_offset m + aligned_size > msize m then Inl Mem_error
      else Inr (data_address (maddr m) (mdata_offset m),
                m\<lparr>mdata := (if sz = 0 then mdata m else (mdata m)(mdata_offset m \<mapsto> obj)),
                  mdata_offset := mdata_offset m + aligned_size\<rparr>))"

text \<open>
  A string is copied with its hash computed, as long as its bytes and the terminator, and the copy is
  made immortal (\<open>handlebars_string_immortalize\<close>: a reference count of 255).
\<close>

definition serialize_string :: "(string \<Rightarrow> u32) \<Rightarrow> hstr \<Rightarrow> handlebars_module \<Rightarrow> hbs_error + int \<times> handlebars_module" where
  "serialize_string H s m =
     (let (_, s') = hbs_str_hash H s
      in mappend (Obj_string (s'\<lparr>salloc := hbs_str_len s' + 1, src := 255\<rparr>)) (HBS_STR_SIZE (hbs_str_len s')) m)"

text \<open>
  The array is copied first (its elements still point to the program's strings, which is the address 0
  here), then each element is copied and overwritten.
\<close>

definition set_array_element :: "nat \<Rightarrow> nat \<Rightarrow> int \<Rightarrow> handlebars_module \<Rightarrow> hbs_error + handlebars_module" where
  "set_array_element off i a m =
     (case mdata m off of
        Some (Obj_array xs) \<Rightarrow>
          if i < length xs then Inr (m\<lparr>mdata := (mdata m)(off \<mapsto> Obj_array (xs[i := a]))\<rparr>) else Inl Mem_error
      | _ \<Rightarrow> Inl Mem_error)"

definition serialize_operand :: "(string \<Rightarrow> u32) \<Rightarrow> operand \<Rightarrow> handlebars_module \<Rightarrow> hbs_error + moperand \<times> handlebars_module" where
  "serialize_operand H p m =
     (case p of
        operand_string s \<Rightarrow> ebind (serialize_string H s m) (\<lambda>(a, m'). Inr (operand_string a, m'))
      | operand_array arr \<Rightarrow>
          ebind (mappend (Obj_array (replicate (length arr) 0)) (POINTER_SIZE * length arr) m) (\<lambda>(a, m1).
          ebind (efold (\<lambda>(i, s) m'. ebind (serialize_string H s m')
                                     (\<lambda>(b, m''). set_array_element (mdata_offset m) i b m''))
                  (enumerate 0 arr) m1) (\<lambda>m2. Inr (operand_array (length arr, a), m2)))
      | operand_null b \<Rightarrow> Inr (operand_null b, m)
      | operand_boolean b \<Rightarrow> Inr (operand_boolean b, m)
      | operand_long n \<Rightarrow> Inr (operand_long n, m))"

text \<open>
  \<open>data.boolval\<close> is the first byte of the union, whatever the tag is: of a number or of the pointer the
  least significant byte, of an array that of its count.
\<close>

fun data_boolval :: "moperand \<Rightarrow> bool" where
  "data_boolval (operand_null b) = b"
| "data_boolval (operand_boolean b) = b"
| "data_boolval (operand_long n) = (n AND 255 \<noteq> 0)"
| "data_boolval (operand_string a) = (a mod 256 \<noteq> 0)"
| "data_boolval (operand_array (n, a)) = (n mod 256 \<noteq> 0)"

text \<open>\<open>data.boolval = 1\<close> where it was 0.\<close>

fun set_data_boolval :: "moperand \<Rightarrow> moperand" where
  "set_data_boolval (operand_null b) = operand_null True"
| "set_data_boolval (operand_boolean b) = operand_boolean True"
| "set_data_boolval (operand_long n) = operand_long (n + 1)"
| "set_data_boolval (operand_string a) = operand_string (a + 1)"
| "set_data_boolval (operand_array (n, a)) = operand_array (n + 1, a)"

text \<open>
  \<open>pushProgram\<close> holds the index of a child; it is replaced by the number of the child's table entry, and
  \<open>op4\<close> marks the opcode as done. \<open>table\<close> holds pointers to the children's entries: their indices here.
\<close>

definition patch_push_program :: "handlebars_module \<Rightarrow> nat list \<Rightarrow> mopcode \<Rightarrow> hbs_error + mopcode" where
  "patch_push_program m table opc =
     (if otype opc = handlebars_opcode_type_push_program then
        (case op1 opc of
           operand_long n \<Rightarrow>
             if data_boolval (op4 opc) then Inr opc
             else if 0 \<le> sint n \<and> nat (sint n) < length table then
               Inr (opc\<lparr>op1 := operand_long (of_nat (entry_guid (mprograms m ! (table ! nat (sint n))))),
                        op4 := set_data_boolval (op4 opc)\<rparr>)
             else Inl Mem_error
         | _ \<Rightarrow> Inr opc)
      else Inr opc)"

definition serialize_opcode :: "(string \<Rightarrow> u32) \<Rightarrow> nat list \<Rightarrow> opcode \<Rightarrow> handlebars_module \<Rightarrow> hbs_error + handlebars_module" where
  "serialize_opcode H table opc m =
     (let guid = mopcode_count m;
          m0 = m\<lparr>mopcode_count := guid + 1\<rparr>
      in if guid \<ge> length (mopcodes m) then Inl Mem_error
         else
           ebind (serialize_operand H (op1 opc) m0) (\<lambda>(p1, m1).
           ebind (serialize_operand H (op2 opc) m1) (\<lambda>(p2, m2).
           ebind (serialize_operand H (op3 opc) m2) (\<lambda>(p3, m3).
           ebind (serialize_operand H (op4 opc) m3) (\<lambda>(p4, m4).
           ebind (patch_push_program m4 table
                    \<lparr>otype = otype opc, op1 = p1, op2 = p2, op3 = p3, op4 = p4, oloc = oloc opc\<rparr>) (\<lambda>opc'.
             Inr (m4\<lparr>mopcodes := (mopcodes m4)[guid := opc']\<rparr>)))))))"

text \<open>The result is the index of the new table entry.\<close>

definition serialize_program_shallow :: "handlebars_module \<Rightarrow> hbs_error + nat \<times> handlebars_module" where
  "serialize_program_shallow m =
     (let guid = mprogram_count m in
      if guid \<ge> length (mprograms m) then Inl Mem_error
      else Inr (guid, m\<lparr>mprogram_count := guid + 1,
                       mprograms := (mprograms m)[guid := (mprograms m ! guid)\<lparr>entry_guid := guid\<rparr>]\<rparr>))"

fun serialize_shallow_children :: "nat \<Rightarrow> handlebars_module \<Rightarrow> hbs_error + nat list \<times> handlebars_module" where
  "serialize_shallow_children 0 m = Inr ([], m)"
| "serialize_shallow_children (Suc n) m =
     ebind (serialize_program_shallow m) (\<lambda>(c, m1).
     ebind (serialize_shallow_children n m1) (\<lambda>(cs, m2). Inr (c # cs, m2)))"

definition set_entry :: "nat \<Rightarrow> nat \<Rightarrow> nat \<Rightarrow> handlebars_module \<Rightarrow> handlebars_module" where
  "set_entry idx count offset m =
     m\<lparr>mprograms := (mprograms m)[idx := (mprograms m ! idx)\<lparr>entry_opcode_count := count, entry_opcode_offset := offset\<rparr>]\<rparr>"

definition incr_entry_opcode_count :: "nat \<Rightarrow> handlebars_module \<Rightarrow> handlebars_module" where
  "incr_entry_opcode_count idx m =
     m\<lparr>mprograms := (mprograms m)[idx := (mprograms m ! idx)
        \<lparr>entry_opcode_count := entry_opcode_count (mprograms m ! idx) + 1\<rparr>]\<rparr>"

lemma zip_size_estimation [termination_simp]:
  "(k, c) \<in> set (zip ks cs) \<Longrightarrow> size k \<le> size_list size ks"
  by (meson order_refl set_zip_leftD size_list_estimation')

fun serialize_program2 :: "(string \<Rightarrow> u32) \<Rightarrow> handlebars_program \<Rightarrow> nat \<Rightarrow> handlebars_module \<Rightarrow> hbs_error + handlebars_module" where
  "serialize_program2 H (handlebars_program g fl rf bp opcs kids decs) entry m =
     ebind (serialize_shallow_children (length kids) m) (\<lambda>(table, m1).
     ebind (efold (serialize_opcode H table) opcs (set_entry entry (length opcs) (mopcode_count m1) m1)) (\<lambda>m2.
     ebind (serialize_opcode H table (handlebars_opcode_ctor handlebars_opcode_type_return) m2) (\<lambda>m3.
       efold (\<lambda>(k, c) m. serialize_program2 H k c m) (zip kids table) (incr_entry_opcode_count entry m3))))"

definition serialize_program :: "(string \<Rightarrow> u32) \<Rightarrow> handlebars_program \<Rightarrow> handlebars_module \<Rightarrow> hbs_error + handlebars_module" where
  "serialize_program H p m =
     ebind (serialize_program_shallow m) (\<lambda>(entry, m1). serialize_program2 H p entry m1)"

definition zero_entry :: handlebars_module_table_entry where
  "zero_entry = \<lparr>entry_guid = 0, entry_opcode_count = 0, entry_opcode_offset = 0\<rparr>"

text \<open>
  The module before its data are copied: allocated at \<open>loc\<close>, with the sizes of the first pass. \<open>version\<close> is
  \<open>handlebars_version()\<close> and \<open>ts\<close> the time of the call.
\<close>

definition module_init :: "int \<Rightarrow> int \<Rightarrow> int \<Rightarrow> handlebars_program \<Rightarrow> handlebars_module" where
  "module_init version ts loc p =
     (let (size, programs, ops) = calculate_size_program p;
          offset1 = HANDLEBARS_MODULE_TABLE_ENTRY_SIZE * programs;
          offset2 = offset1 + HANDLEBARS_OPCODE_SIZE * ops
      in \<lparr>mhash = 0, mversion = version, maddr = loc, msize = HANDLEBARS_MODULE_SIZE + size, mts = ts,
          mflags = flags p, mprogram_count = 0, mprograms_ptr = data_address loc 0, mopcode_count = 0,
          mopcodes_ptr = data_address loc offset1, mdata_offset = offset2,
          mprograms = replicate programs zero_entry,
          mopcodes = replicate ops (handlebars_opcode_ctor handlebars_opcode_type_nil),
          mdata = Map.empty\<rparr>)"

definition handlebars_program_serialize ::
    "(string \<Rightarrow> u32) \<Rightarrow> int \<Rightarrow> int \<Rightarrow> int \<Rightarrow> handlebars_program \<Rightarrow> hbs_error + handlebars_module" where
  "handlebars_program_serialize H version ts loc p =
     (let (size, programs, ops) = calculate_size_program p in
      ebind (serialize_program H p (module_init version ts loc p)) (\<lambda>m.
        if mprogram_count m = programs \<and> mopcode_count m = ops \<and>
           mdata_offset m + HANDLEBARS_MODULE_SIZE = msize m
        then Inr m else Inl Assert_fail))"

section \<open>Moving a module\<close>

definition PATCH :: "handlebars_module \<Rightarrow> int \<Rightarrow> int \<Rightarrow> int" where
  "PATCH m baseaddr ptr = ptr - maddr m + baseaddr"

text \<open>The loop over the elements of the array at the address \<open>a\<close>, for a module that lies at \<open>loc\<close>.\<close>

definition patch_array_elements :: "int \<Rightarrow> int \<Rightarrow> nat \<Rightarrow> int \<Rightarrow> handlebars_module \<Rightarrow> hbs_error + handlebars_module" where
  "patch_array_elements loc baseaddr count a m =
     (if count = 0 then Inr m else case data_index loc a of
        Some off \<Rightarrow>
          (case mdata m off of
             Some (Obj_array xs) \<Rightarrow>
               if count \<le> length xs
               then Inr (m\<lparr>mdata := (mdata m)(off \<mapsto> Obj_array (map (PATCH m baseaddr) (take count xs) @ drop count xs))\<rparr>)
               else Inl Mem_error
           | _ \<Rightarrow> Inl Mem_error)
      | None \<Rightarrow> Inl Mem_error)"

text \<open>
  \<open>normalize_operand\<close> follows the array pointer before it changes it (the module lies at \<open>loc\<close>),
  \<open>patch_operand\<close> after it (the module lies at \<open>baseaddr\<close>).
\<close>

definition normalize_operand :: "int \<Rightarrow> int \<Rightarrow> moperand \<Rightarrow> handlebars_module \<Rightarrow> hbs_error + moperand \<times> handlebars_module" where
  "normalize_operand loc baseaddr p m =
     (case p of
        operand_string a \<Rightarrow> Inr (operand_string (PATCH m baseaddr a), m)
      | operand_array (n, a) \<Rightarrow>
          ebind (patch_array_elements loc baseaddr n a m) (\<lambda>m'. Inr (operand_array (n, PATCH m baseaddr a), m'))
      | _ \<Rightarrow> Inr (p, m))"

definition patch_operand :: "int \<Rightarrow> moperand \<Rightarrow> handlebars_module \<Rightarrow> hbs_error + moperand \<times> handlebars_module" where
  "patch_operand baseaddr p m =
     (case p of
        operand_string a \<Rightarrow> Inr (operand_string (PATCH m baseaddr a), m)
      | operand_array (n, a) \<Rightarrow>
          ebind (patch_array_elements baseaddr baseaddr n (PATCH m baseaddr a) m) (\<lambda>m'.
            Inr (operand_array (n, PATCH m baseaddr a), m'))
      | _ \<Rightarrow> Inr (p, m))"

text \<open>One round of either loop, on the opcode with number \<open>i\<close>.\<close>

definition relocate_opcode ::
    "(moperand \<Rightarrow> handlebars_module \<Rightarrow> hbs_error + moperand \<times> handlebars_module) \<Rightarrow> nat \<Rightarrow>
     handlebars_module \<Rightarrow> hbs_error + handlebars_module" where
  "relocate_opcode f i m =
     (if i \<ge> length (mopcodes m) then Inl Mem_error
      else let opc = mopcodes m ! i in
        ebind (f (op1 opc) m) (\<lambda>(p1, m1).
        ebind (f (op2 opc) m1) (\<lambda>(p2, m2).
        ebind (f (op3 opc) m2) (\<lambda>(p3, m3).
        ebind (f (op4 opc) m3) (\<lambda>(p4, m4).
          Inr (m4\<lparr>mopcodes := (mopcodes m4)[i := opc\<lparr>op1 := p1, op2 := p2, op3 := p3, op4 := p4\<rparr>]\<rparr>))))))"

text \<open>The opcodes are reached through \<open>module->opcodes\<close>, which must point to them.\<close>

definition opcodes_reachable :: "int \<Rightarrow> handlebars_module \<Rightarrow> bool" where
  "opcodes_reachable loc m \<longleftrightarrow>
     mopcodes_ptr m = data_address loc (HANDLEBARS_MODULE_TABLE_ENTRY_SIZE * length (mprograms m))"

definition patch_table_pointers :: "int \<Rightarrow> handlebars_module \<Rightarrow> handlebars_module" where
  "patch_table_pointers baseaddr m =
     m\<lparr>mprograms_ptr := PATCH m baseaddr (mprograms_ptr m), mopcodes_ptr := PATCH m baseaddr (mopcodes_ptr m)\<rparr>"

definition handlebars_module_normalize_pointers :: "int \<Rightarrow> int \<Rightarrow> handlebars_module \<Rightarrow> hbs_error + handlebars_module" where
  "handlebars_module_normalize_pointers loc baseaddr m =
     (if maddr m = baseaddr then Inr m
      else if mopcode_count m > 0 \<and> \<not> opcodes_reachable loc m then Inl Mem_error
      else ebind (efold (relocate_opcode (normalize_operand loc baseaddr)) [0..<mopcode_count m] m) (\<lambda>m.
        Inr ((patch_table_pointers baseaddr m)\<lparr>maddr := baseaddr\<rparr>)))"

definition handlebars_module_patch_pointers :: "int \<Rightarrow> handlebars_module \<Rightarrow> hbs_error + handlebars_module" where
  "handlebars_module_patch_pointers loc m =
     (if maddr m = loc then Inr m
      else let m1 = patch_table_pointers loc m in
        if mopcode_count m > 0 \<and> \<not> opcodes_reachable loc m1 then Inl Mem_error
        else ebind (efold (relocate_opcode (patch_operand loc)) [0..<mopcode_count m1] m1) (\<lambda>m.
          Inr (m\<lparr>maddr := loc\<rparr>)))"

section \<open>Header fields and the hash\<close>

definition handlebars_module_get_size :: "handlebars_module \<Rightarrow> nat" where
  "handlebars_module_get_size m = msize m"

definition handlebars_module_get_version :: "handlebars_module \<Rightarrow> int" where
  "handlebars_module_get_version m = mversion m"

definition handlebars_module_get_ts :: "handlebars_module \<Rightarrow> int" where
  "handlebars_module_get_ts m = mts m"

definition handlebars_module_get_flags :: "handlebars_module \<Rightarrow> u64" where
  "handlebars_module_get_flags m = mflags m"

definition handlebars_module_get_hash :: "handlebars_module \<Rightarrow> u64" where
  "handlebars_module_get_hash m = mhash m"

text \<open>
  The hash covers every byte from \<open>version\<close> to the end of the block, that is the module without its
  \<open>hash\<close> field. \<open>X\<close> is XXH3 (a vendored library) of those bytes.
\<close>

definition calculate_hash :: "(handlebars_module \<Rightarrow> u64) \<Rightarrow> handlebars_module \<Rightarrow> u64" where
  "calculate_hash X m = X (m\<lparr>mhash := 0\<rparr>)"

definition handlebars_module_generate_hash :: "(handlebars_module \<Rightarrow> u64) \<Rightarrow> handlebars_module \<Rightarrow> handlebars_module" where
  "handlebars_module_generate_hash X m = m\<lparr>mhash := calculate_hash X m\<rparr>"

text \<open>With a context (\<open>throws\<close>) the first mismatch is an exception, without one the result is false.\<close>

definition handlebars_module_verify :: "(handlebars_module \<Rightarrow> u64) \<Rightarrow> int \<Rightarrow> handlebars_module \<Rightarrow> bool \<Rightarrow> hbs_error + bool" where
  "handlebars_module_verify X version m throws =
     (if calculate_hash X m \<noteq> mhash m \<and> throws
      then Inl (Throw HANDLEBARS_ERROR ''Invalid module hash expected=%llu actual=%llu'')
      else if version \<noteq> mversion m \<and> throws
      then Inl (Throw HANDLEBARS_ERROR ''Invalid module version expected=%llu actual=%llu'')
      else Inr (calculate_hash X m = mhash m \<and> version = mversion m))"

end
