(* ===== verification/SerializerProofs.thy ===== *)
theory SerializerProofs
  imports Serializer
begin

text \<open>
  Reading a module back, and what one pass of the serializer writes: the sizes of the first pass are those
  the second pass uses, every append is inside the block, and what has been written is not changed by
  what is written later (\<open>ext\<close>).
\<close>

section \<open>Reading a module\<close>

text \<open>
  The value of an operand: the same operand with the strings in place of the pointers. A pointer to a
  string that is not immortal, or a wrong count, is not readable.
\<close>

type_synonym operand_val = "(string, string list) handlebars_operand"
type_synonym opcode_val = "(string, string list) handlebars_opcode"

definition read_string :: "int \<Rightarrow> handlebars_module \<Rightarrow> int \<Rightarrow> string option" where
  "read_string loc m a =
     (case mderef loc m a of
        Some (Obj_string s) \<Rightarrow> if src s = 255 \<and> str_ok s then Some (sval s) else None
      | _ \<Rightarrow> None)"

fun read_operand :: "int \<Rightarrow> handlebars_module \<Rightarrow> moperand \<Rightarrow> operand_val option" where
  "read_operand loc m (operand_null b) = Some (operand_null b)"
| "read_operand loc m (operand_boolean b) = Some (operand_boolean b)"
| "read_operand loc m (operand_long n) = Some (operand_long n)"
| "read_operand loc m (operand_string a) = map_option operand_string (read_string loc m a)"
| "read_operand loc m (operand_array (n, a)) =
     (if n = 0 then Some (operand_array [])
      else case mderef loc m a of
        Some (Obj_array xs) \<Rightarrow>
          if length xs = n then map_option operand_array (those (map (read_string loc m) xs)) else None
      | _ \<Rightarrow> None)"

definition read_opcode :: "int \<Rightarrow> handlebars_module \<Rightarrow> mopcode \<Rightarrow> opcode_val option" where
  "read_opcode loc m opc =
     (case (read_operand loc m (op1 opc), read_operand loc m (op2 opc),
            read_operand loc m (op3 opc), read_operand loc m (op4 opc)) of
        (Some p1, Some p2, Some p3, Some p4) \<Rightarrow>
          Some \<lparr>otype = otype opc, op1 = p1, op2 = p2, op3 = p3, op4 = p4, oloc = oloc opc\<rparr>
      | _ \<Rightarrow> None)"

abbreviation operand_value :: "operand \<Rightarrow> operand_val" where
  "operand_value \<equiv> map_handlebars_operand sval (map sval)"

definition opcode_value :: "opcode \<Rightarrow> opcode_val" where
  "opcode_value opc =
     \<lparr>otype = otype opc, op1 = operand_value (op1 opc), op2 = operand_value (op2 opc),
      op3 = operand_value (op3 opc), op4 = operand_value (op4 opc), oloc = oloc opc\<rparr>"

text \<open>
  What \<open>pushProgram\<close> looks like after serialization: the number of the child's table entry in place of the
  child's index.
\<close>

definition globalise :: "nat list \<Rightarrow> opcode_val \<Rightarrow> opcode_val" where
  "globalise table opc =
     (case (otype opc, op1 opc, op4 opc) of
        (handlebars_opcode_type_push_program, operand_long n, operand_null False) \<Rightarrow>
          opc\<lparr>op1 := operand_long (of_nat (table ! nat (sint n))), op4 := operand_null True\<rparr>
      | _ \<Rightarrow> opc)"

text \<open>What the compiler guarantees of a program: \<open>pushProgram\<close> refers to a child.\<close>

definition wf_opcode :: "nat \<Rightarrow> opcode \<Rightarrow> bool" where
  "wf_opcode n_kids opc \<longleftrightarrow>
     (otype opc = handlebars_opcode_type_push_program \<longrightarrow>
        operand_type_null (op4 opc) \<and>
        (case op1 opc of operand_long n \<Rightarrow> 0 \<le> sint n \<and> nat (sint n) < n_kids | _ \<Rightarrow> True))"

fun wf_program :: "handlebars_program \<Rightarrow> bool" where
  "wf_program (handlebars_program g fl rf bp opcs kids decs) \<longleftrightarrow>
     (\<forall>opc \<in> set opcs. wf_opcode (length kids) opc) \<and> (\<forall>k \<in> set kids. wf_program k)"

section \<open>Sizes\<close>

definition opcode_data :: "opcode \<Rightarrow> nat" where
  "opcode_data opc = calculate_size_operand (op1 opc) + calculate_size_operand (op2 opc) +
     calculate_size_operand (op3 opc) + calculate_size_operand (op4 opc)"

fun program_total :: "handlebars_program \<Rightarrow> nat" where
  "program_total (handlebars_program g fl rf bp opcs kids decs) = 1 + sum_list (map program_total kids)"

fun opcode_total :: "handlebars_program \<Rightarrow> nat" where
  "opcode_total (handlebars_program g fl rf bp opcs kids decs) =
     length opcs + 1 + sum_list (map opcode_total kids)"

fun data_total :: "handlebars_program \<Rightarrow> nat" where
  "data_total (handlebars_program g fl rf bp opcs kids decs) =
     sum_list (map opcode_data opcs) + sum_list (map data_total kids)"

lemma opcode_data_ctor [simp]: "opcode_data (handlebars_opcode_ctor t) = 0"
  by (simp add: opcode_data_def)

lemma sum_list_opcode_sizes:
  "sum_list (map calculate_size_opcode opcs) = HANDLEBARS_OPCODE_SIZE * length opcs + sum_list (map opcode_data opcs)"
  by (induction opcs) (simp_all add: calculate_size_opcode_def opcode_data_def)

lemma sum_list_sizes:
  "(\<And>k. k \<in> set kids \<Longrightarrow> f k = A * g k + B * h k + (i k :: nat)) \<Longrightarrow>
     sum_list (map f kids) = A * sum_list (map g kids) + B * sum_list (map h kids) + sum_list (map i kids)"
  by (induction kids) (simp_all add: algebra_simps)

lemma calculate_size_program_eq:
  "calculate_size_program p =
     (HANDLEBARS_MODULE_TABLE_ENTRY_SIZE * program_total p + HANDLEBARS_OPCODE_SIZE * opcode_total p + data_total p,
      program_total p, opcode_total p)"
proof (induction p)
  case (handlebars_program g fl rf bp opcs kids decs)
  have sizes: "sum_list (map (fst \<circ> calculate_size_program) kids) =
      HANDLEBARS_MODULE_TABLE_ENTRY_SIZE * sum_list (map program_total kids) +
      HANDLEBARS_OPCODE_SIZE * sum_list (map opcode_total kids) + sum_list (map data_total kids)"
    by (rule sum_list_sizes) (simp add: handlebars_program.IH)
  have counts: "map (\<lambda>k. fst (snd (calculate_size_program k))) kids = map program_total kids"
    "map (\<lambda>k. snd (snd (calculate_size_program k))) kids = map opcode_total kids"
    by (simp_all add: handlebars_program.IH)
  have ret: "calculate_size_opcode (handlebars_opcode_ctor handlebars_opcode_type_return) = HANDLEBARS_OPCODE_SIZE"
    by (simp add: calculate_size_opcode_def)
  show ?case
    unfolding calculate_size_program.simps Let_def map_map sizes ret sum_list_opcode_sizes
    by (simp add: o_def counts algebra_simps)
qed

lemma array_size_fold:
  "fold (\<lambda>s size. size + f s) arr n = n + sum_list (map f arr)"
  for n :: nat
  by (induction arr arbitrary: n) simp_all

section \<open>Addresses\<close>

lemma data_index_address [simp]: "data_index loc (data_address loc off) = Some off"
  by (simp add: data_index_def data_address_def)

lemma data_index_SomeD: "data_index loc a = Some off \<Longrightarrow> a = data_address loc off"
  by (auto simp: data_index_def data_address_def split: if_splits)

lemma data_address_inj [simp]: "data_address loc i = data_address loc j \<longleftrightarrow> i = j"
  by (simp add: data_address_def)

lemma mderef_address [simp]: "mderef loc m (data_address loc off) = mdata m off"
  by (simp add: mderef_def)

lemma mderef_SomeD: "mderef loc m a = Some x \<Longrightarrow> \<exists>off. a = data_address loc off \<and> mdata m off = Some x"
  by (auto simp: mderef_def dest: data_index_SomeD split: bind_splits)

section \<open>Reading depends on the data written so far\<close>

lemma mderef_mono: "mdata m \<subseteq>\<^sub>m mdata m' \<Longrightarrow> mderef loc m a = Some x \<Longrightarrow> mderef loc m' a = Some x"
  by (auto dest!: mderef_SomeD simp: map_le_def dom_def)

lemma read_string_mono:
  "mdata m \<subseteq>\<^sub>m mdata m' \<Longrightarrow> read_string loc m a = Some s \<Longrightarrow> read_string loc m' a = Some s"
  by (auto simp: read_string_def mderef_mono split: option.splits mobject.splits if_splits)

lemma those_mono:
  "(\<And>x y. x \<in> set xs \<Longrightarrow> f x = Some y \<Longrightarrow> g x = Some y) \<Longrightarrow> those (map f xs) = Some ys \<Longrightarrow> those (map g xs) = Some ys"
proof (induction xs arbitrary: ys)
  case Nil
  then show ?case by simp
next
  case (Cons x xs)
  from Cons.prems(2) obtain y zs where "f x = Some y" "those (map f xs) = Some zs" "ys = y # zs"
    by (auto split: option.splits)
  with Cons show ?case by simp
qed

lemma read_operand_mono:
  assumes "mdata m \<subseteq>\<^sub>m mdata m'" "read_operand loc m p = Some v"
  shows "read_operand loc m' p = Some v"
proof (cases p)
  case (operand_string a)
  with assms show ?thesis by (auto simp: read_string_mono)
next
  case (operand_array na)
  obtain n a where na: "na = (n, a)" by (cases na)
  show ?thesis
  proof (cases "n = 0")
    case False
    with assms(2) operand_array na obtain xs ss where xs: "mderef loc m a = Some (Obj_array xs)" "length xs = n"
        and ss: "those (map (read_string loc m) xs) = Some ss" "v = operand_array ss"
      by (auto split: option.splits mobject.splits if_splits)
    have "those (map (read_string loc m') xs) = Some ss"
      by (rule those_mono [OF read_string_mono [OF assms(1)] ss(1)])
    with False operand_array na xs ss(2) mderef_mono [OF assms(1) xs(1)] show ?thesis by simp
  qed (use assms(2) operand_array na in simp)
qed (use assms in auto)

lemma read_opcode_mono:
  "mdata m \<subseteq>\<^sub>m mdata m' \<Longrightarrow> read_opcode loc m opc = Some v \<Longrightarrow> read_opcode loc m' opc = Some v"
  by (auto simp: read_opcode_def read_operand_mono split: option.splits)

lemma read_operand_null: "read_operand loc m p = Some (operand_null b) \<longleftrightarrow> p = operand_null b"
  by (cases p) (auto split: option.splits mobject.splits if_splits)

lemma read_operand_long: "read_operand loc m p = Some (operand_long n) \<longleftrightarrow> p = operand_long n"
  by (cases p) (auto split: option.splits mobject.splits if_splits)

section \<open>Writing\<close>

definition data_ok :: "handlebars_module \<Rightarrow> bool" where
  "data_ok m \<longleftrightarrow> dom (mdata m) \<subseteq> {..<mdata_offset m}"

abbreviation fits :: "nat \<Rightarrow> handlebars_module \<Rightarrow> bool" where
  "fits n m \<equiv> HANDLEBARS_MODULE_SIZE + mdata_offset m + n \<le> msize m"

text \<open>\<open>m'\<close> is \<open>m\<close> with \<open>n\<close> more bytes of data.\<close>

definition grows :: "handlebars_module \<Rightarrow> nat \<Rightarrow> handlebars_module \<Rightarrow> bool" where
  "grows m n m' \<longleftrightarrow> m' = m\<lparr>mdata := mdata m', mdata_offset := mdata_offset m + n\<rparr>"

lemma grows_refl [simp]: "grows m 0 m"
  by (cases m) (simp add: grows_def)

lemma grows_trans: "grows m a m1 \<Longrightarrow> grows m1 b m2 \<Longrightarrow> grows m (a + b) m2"
  by (cases m; cases m1; cases m2) (simp add: grows_def)

lemma grows_update: "grows m a m1 \<Longrightarrow> grows m a (m1\<lparr>mdata := D\<rparr>)"
  by (cases m; cases m1) (simp add: grows_def)

lemma grows_simps:
  assumes "grows m n m'"
  shows "maddr m' = maddr m" "msize m' = msize m" "mprograms m' = mprograms m" "mopcodes m' = mopcodes m"
    "mprogram_count m' = mprogram_count m" "mopcode_count m' = mopcode_count m"
    "mdata_offset m' = mdata_offset m + n"
  using assms by (cases m; cases m'; simp add: grows_def)+

definition writes :: "handlebars_module \<Rightarrow> nat \<Rightarrow> handlebars_module \<Rightarrow> bool" where
  "writes m n m' \<longleftrightarrow> grows m n m' \<and> mdata m \<subseteq>\<^sub>m mdata m' \<and> data_ok m'"

lemma writes_refl [simp]: "data_ok m \<Longrightarrow> writes m 0 m"
  by (auto simp: writes_def)

lemma writes_trans: "writes m a m1 \<Longrightarrow> writes m1 b m2 \<Longrightarrow> writes m (a + b) m2"
  by (auto simp: writes_def intro: map_le_trans grows_trans)

lemma writes_simps:
  assumes "writes m n m'"
  shows "maddr m' = maddr m" "msize m' = msize m" "mprograms m' = mprograms m" "mopcodes m' = mopcodes m"
    "mprogram_count m' = mprogram_count m" "mopcode_count m' = mopcode_count m"
    "mdata_offset m' = mdata_offset m + n" "mdata m \<subseteq>\<^sub>m mdata m'" "data_ok m'"
  using assms grows_simps [of m n m'] by (auto simp: writes_def)

lemma align_pos: "0 < n \<Longrightarrow> 0 < align_size n"
  using align_size_ge [of POINTER_SIZE n] by (simp add: POINTER_SIZE_def)

lemma mappend_writes:
  assumes "data_ok m" "fits (align_size sz) m"
  shows "\<exists>m'. mappend obj sz m = Inr (data_address (maddr m) (mdata_offset m), m') \<and>
     writes m (align_size sz) m' \<and> (0 < sz \<longrightarrow> mdata m' (mdata_offset m) = Some obj)"
proof -
  have "mdata m (mdata_offset m) = None"
    using assms(1) by (auto simp: data_ok_def dom_def)
  then have le: "mdata m \<subseteq>\<^sub>m (mdata m)(mdata_offset m \<mapsto> obj)"
    by (auto simp: map_le_def dom_def)
  have "data_ok (m\<lparr>mdata := (mdata m)(mdata_offset m \<mapsto> obj), mdata_offset := mdata_offset m + align_size sz\<rparr>)"
    if "0 < sz"
    using assms(1) align_pos [OF that] by (auto simp: data_ok_def subset_iff)
  moreover have "data_ok (m\<lparr>mdata_offset := mdata_offset m + align_size sz\<rparr>)"
    using assms(1) by (auto simp: data_ok_def)
  ultimately show ?thesis
    using assms(2) le
    by (cases "sz = 0") (auto simp: mappend_def Let_def writes_def grows_def [of m "align_size sz"])
qed

text \<open>The copy of a string.\<close>

definition string_copy :: "(string \<Rightarrow> u32) \<Rightarrow> hstr \<Rightarrow> hstr" where
  "string_copy H s = (snd (hbs_str_hash H s))\<lparr>salloc := length (sval s) + 1, src := 255\<rparr>"

lemma string_copy_simps [simp]: "sval (string_copy H s) = sval s" "src (string_copy H s) = 255" "str_ok (string_copy H s)"
  by (simp_all add: string_copy_def hbs_str_hash_def str_ok_def)

abbreviation string_size :: "hstr \<Rightarrow> nat" where
  "string_size s \<equiv> align_size (HBS_STR_SIZE (hbs_str_len s))"

lemma serialize_string_writes:
  assumes "data_ok m" "fits (string_size s) m"
  shows "\<exists>m'. serialize_string H s m = Inr (data_address (maddr m) (mdata_offset m), m') \<and>
     writes m (string_size s) m' \<and> mdata m' (mdata_offset m) = Some (Obj_string (string_copy H s))"
proof -
  have eq: "serialize_string H s m = mappend (Obj_string (string_copy H s)) (HBS_STR_SIZE (hbs_str_len s)) m"
    by (simp add: serialize_string_def string_copy_def hbs_str_hash_def hbs_str_len_def)
  have "0 < HBS_STR_SIZE (hbs_str_len s)" by (simp add: HBS_STR_SIZE_def)
  then show ?thesis unfolding eq using mappend_writes [OF assms] by blast
qed

lemma read_string_at: "mdata m off = Some (Obj_string (string_copy H s)) \<Longrightarrow> read_string loc m (data_address loc off) = Some (sval s)"
  by (simp add: read_string_def)

text \<open>Overwriting an array does not change what strings read as.\<close>

lemma read_string_update_array:
  assumes "mdata m off = Some (Obj_array xs)" "read_string loc m a = Some s"
  shows "read_string loc (m\<lparr>mdata := (mdata m)(off \<mapsto> Obj_array ys)\<rparr>) a = Some s"
proof -
  from assms(2) obtain i where i: "a = data_address loc i" "mdata m i \<noteq> None"
    by (auto simp: read_string_def split: option.splits dest!: mderef_SomeD)
  with assms have "i \<noteq> off" by (auto simp: read_string_def)
  with assms(2) i show ?thesis by (simp add: read_string_def)
qed

definition array_loop :: "(string \<Rightarrow> u32) \<Rightarrow> nat \<Rightarrow> nat \<times> hstr \<Rightarrow> handlebars_module \<Rightarrow> hbs_error + handlebars_module" where
  "array_loop H off = (\<lambda>(i, s) m'. ebind (serialize_string H s m') (\<lambda>(b, m''). set_array_element off i b m''))"

lemma array_loop_step:
  assumes "data_ok m" "fits (string_size s) m" "mdata m off = Some (Obj_array xs)" "k < length xs"
  shows "\<exists>m'. array_loop H off (k, s) m = Inr m' \<and>
     grows m (string_size s) m' \<and> data_ok m' \<and>
     mdata m' off = Some (Obj_array (xs[k := data_address (maddr m) (mdata_offset m)])) \<and>
     (\<forall>x \<in> dom (mdata m) - {off}. mdata m' x = mdata m x) \<and>
     (\<forall>loc a t. read_string loc m a = Some t \<longrightarrow> read_string loc m' a = Some t) \<and>
     read_string (maddr m) m' (data_address (maddr m) (mdata_offset m)) = Some (sval s)"
proof -
  let ?a = "data_address (maddr m) (mdata_offset m)"
  obtain m1 where m1: "serialize_string H s m = Inr (?a, m1)" "writes m (string_size s) m1"
      "mdata m1 (mdata_offset m) = Some (Obj_string (string_copy H s))"
    using serialize_string_writes [OF assms(1,2)] by blast
  have le: "mdata m \<subseteq>\<^sub>m mdata m1" and ok1: "data_ok m1" using writes_simps [OF m1(2)] by blast+
  have off: "mdata m1 off = Some (Obj_array xs)"
    using le assms(3) by (auto simp: map_le_def dom_def) 
  let ?m' = "m1\<lparr>mdata := (mdata m1)(off \<mapsto> Obj_array (xs[k := ?a]))\<rparr>"
  have "array_loop H off (k, s) m = Inr ?m'"
    using m1(1) off assms(4) by (simp add: array_loop_def set_array_element_def)
  moreover have "grows m (string_size s) ?m'"
    using m1(2) by (simp add: writes_def grows_update)
  moreover have "data_ok ?m'" using ok1 off by (auto simp: data_ok_def dom_def)
  moreover have "\<forall>x \<in> dom (mdata m) - {off}. mdata ?m' x = mdata m x"
    using le by (auto simp: map_le_def)
  moreover have "read_string loc ?m' a = Some t" if "read_string loc m a = Some t" for loc a t
    using read_string_update_array [OF off read_string_mono [OF le that]] .
  moreover have "read_string (maddr m) ?m' ?a = Some (sval s)"
    by (rule read_string_update_array [OF off read_string_at [OF m1(3)]])
  ultimately show ?thesis by (intro exI [of _ ?m'] conjI) auto
qed

lemma array_loop_writes:
  assumes "data_ok m" "fits (sum_list (map string_size arr)) m" "mdata m off = Some (Obj_array xs)"
    "length xs = k + length arr"
  shows "\<exists>m' as. efold (array_loop H off) (enumerate k arr) m = Inr m' \<and>
     grows m (sum_list (map string_size arr)) m' \<and> data_ok m' \<and>
     mdata m' off = Some (Obj_array (take k xs @ as)) \<and> length as = length arr \<and>
     (\<forall>x \<in> dom (mdata m) - {off}. mdata m' x = mdata m x) \<and>
     (\<forall>loc a t. read_string loc m a = Some t \<longrightarrow> read_string loc m' a = Some t) \<and>
     map (read_string (maddr m) m') as = map (Some \<circ> sval) arr"
  using assms
proof (induction arr arbitrary: m xs k)
  case Nil
  then have "efold (array_loop H off) (enumerate k []) m = Inr m \<and> grows m (sum_list (map string_size [])) m \<and> data_ok m \<and>
      mdata m off = Some (Obj_array (take k xs @ [])) \<and> map (read_string (maddr m) m) [] = map (Some \<circ> sval) []"
    by simp
  then show ?case by fastforce
next
  case (Cons s arr)
  let ?a = "data_address (maddr m) (mdata_offset m)"
  have "fits (string_size s) m" "k < length xs" using Cons.prems(2,4) by simp_all
  from array_loop_step [OF Cons.prems(1) this(1) Cons.prems(3) this(2), of H] obtain m1 where
    m1: "array_loop H off (k, s) m = Inr m1" "grows m (string_size s) m1"
      "data_ok m1" "mdata m1 off = Some (Obj_array (xs[k := ?a]))"
      "\<forall>x \<in> dom (mdata m) - {off}. mdata m1 x = mdata m x"
      "\<And>loc a t. read_string loc m a = Some t \<Longrightarrow> read_string loc m1 a = Some t"
      "read_string (maddr m) m1 ?a = Some (sval s)" by blast
  have g: "maddr m1 = maddr m" "msize m1 = msize m" "mdata_offset m1 = mdata_offset m + string_size s"
    using grows_simps [OF m1(2)] by blast+
  have "fits (sum_list (map string_size arr)) m1" using Cons.prems(2) g by simp
  from Cons.IH [OF m1(3) this m1(4), of "Suc k"] Cons.prems(4) obtain m' as where
    m': "efold (array_loop H off) (enumerate (Suc k) arr) m1 = Inr m'"
      "grows m1 (sum_list (map string_size arr)) m'"
      "data_ok m'" "mdata m' off = Some (Obj_array (take (Suc k) (xs[k := ?a]) @ as))" "length as = length arr"
      "\<forall>x \<in> dom (mdata m1) - {off}. mdata m' x = mdata m1 x"
      "\<And>loc a t. read_string loc m1 a = Some t \<Longrightarrow> read_string loc m' a = Some t"
      "map (read_string (maddr m1) m') as = map (Some \<circ> sval) arr" by auto
  have t: "take (Suc k) (xs[k := ?a]) @ as = take k xs @ ?a # as"
    using Cons.prems(4) by (simp add: take_Suc_conv_app_nth)
  have old: "mdata m' x = mdata m x" if "x \<in> dom (mdata m) - {off}" for x
  proof -
    have "mdata m1 x = mdata m x" using m1(5) that by blast
    moreover from this that have "x \<in> dom (mdata m1) - {off}" by auto
    ultimately show ?thesis using m'(6) by auto
  qed
  have "efold (array_loop H off) (enumerate k (s # arr)) m = Inr m'" using m1(1) m'(1) by simp
  moreover have "grows m (sum_list (map string_size (s # arr))) m'" using grows_trans [OF m1(2) m'(2)] by simp
  moreover have "map (read_string (maddr m) m') (?a # as) = map (Some \<circ> sval) (s # arr)"
    using m'(7) [OF m1(7)] m'(8) g(1) by simp
  ultimately show ?case
    using m'(3-5) m1(6) m'(7) old t by (intro exI [of _ m'] exI [of _ "?a # as"]) auto
qed

section \<open>Operands\<close>

text \<open>The addresses of the arrays that have elements.\<close>

fun operand_arrays :: "moperand \<Rightarrow> int list" where
  "operand_arrays (operand_array (n, a)) = (if n = 0 then [] else [a])"
| "operand_arrays _ = []"

definition opcode_arrays :: "mopcode \<Rightarrow> int list" where
  "opcode_arrays opc = operand_arrays (op1 opc) @ operand_arrays (op2 opc) @ operand_arrays (op3 opc) @ operand_arrays (op4 opc)"

text \<open>The addresses lie in the part of the data area from \<open>lo\<close> to \<open>hi\<close>, in increasing order.\<close>

definition between :: "int \<Rightarrow> nat \<Rightarrow> nat \<Rightarrow> int list \<Rightarrow> bool" where
  "between loc lo hi as \<longleftrightarrow> sorted_wrt (<) as \<and> (\<forall>a \<in> set as. data_address loc lo \<le> a \<and> a < data_address loc hi)"

lemma between_append:
  "between loc lo mid as \<Longrightarrow> between loc mid hi bs \<Longrightarrow> lo \<le> mid \<Longrightarrow> mid \<le> hi \<Longrightarrow> between loc lo hi (as @ bs)"
  unfolding between_def sorted_wrt_append data_address_def by fastforce

lemma between_Nil [simp]: "between loc lo hi []"
  by (simp add: between_def)

lemma between_distinct: "between loc lo hi as \<Longrightarrow> distinct as"
  unfolding between_def by (metis strict_sorted_iff)

lemma those_Some: "map f xs = map (Some \<circ> g) ys \<Longrightarrow> those (map f xs) = Some (map g ys)"
proof (induction ys arbitrary: xs)
  case Nil
  then show ?case by simp
next
  case (Cons y ys)
  then show ?case by (cases xs) auto
qed

lemma serialize_operand_writes:
  assumes "data_ok m" "fits (calculate_size_operand p) m"
  shows "\<exists>p' m'. serialize_operand H p m = Inr (p', m') \<and> writes m (calculate_size_operand p) m' \<and>
     read_operand (maddr m) m' p' = Some (operand_value p) \<and>
     between (maddr m) (mdata_offset m) (mdata_offset m + calculate_size_operand p) (operand_arrays p')"
proof (cases p)
  case (operand_string s)
  then obtain m' where m': "serialize_string H s m = Inr (data_address (maddr m) (mdata_offset m), m')"
     "writes m (string_size s) m'" "mdata m' (mdata_offset m) = Some (Obj_string (string_copy H s))"
    using serialize_string_writes [of m s H] assms by auto
  have "read_string (maddr m) m' (data_address (maddr m) (mdata_offset m)) = Some (sval s)"
    by (rule read_string_at [OF m'(3)])
  with m' operand_string show ?thesis
    by (intro exI [of _ "operand_string (data_address (maddr m) (mdata_offset m))"] exI [of _ m'])
      (simp add: serialize_operand_def)
next
  case (operand_array arr)
  let ?off = "mdata_offset m" and ?n = "align_size (POINTER_SIZE * length arr)" and ?a = "data_address (maddr m) (mdata_offset m)"
  let ?sum = "sum_list (map string_size arr)"
  have sz: "calculate_size_operand p = ?n + ?sum"
    by (simp add: operand_array array_size_fold)
  have "fits ?n m" using assms(2) sz by simp
  then obtain m1 where m1: "mappend (Obj_array (replicate (length arr) 0)) (POINTER_SIZE * length arr) m = Inr (?a, m1)"
      "writes m ?n m1" "0 < length arr \<Longrightarrow> mdata m1 ?off = Some (Obj_array (replicate (length arr) 0))"
    using mappend_writes [OF assms(1), of "POINTER_SIZE * length arr" "Obj_array (replicate (length arr) 0)"]
    by (auto simp: POINTER_SIZE_def)
  note g = writes_simps [OF m1(2)]
  have eq: "serialize_operand H p m =
      ebind (efold (array_loop H ?off) (enumerate 0 arr) m1) (\<lambda>m2. Inr (operand_array (length arr, ?a), m2))"
    by (simp add: operand_array serialize_operand_def m1(1) array_loop_def)
  show ?thesis
  proof (cases "arr = []")
    case True
    with m1(2) show ?thesis
      by (intro exI [of _ "operand_array (0, ?a)"] exI [of _ m1]) (simp add: eq sz, simp add: operand_array)
  next
    case False
    then have x: "mdata m1 ?off = Some (Obj_array (replicate (length arr) 0))" using m1(3) by simp
    have "fits ?sum m1" using assms(2) sz g by simp
    from array_loop_writes [where k = 0 and H = H, OF g(9) this x] obtain m' as where
      m': "efold (array_loop H ?off) (enumerate 0 arr) m1 = Inr m'" "grows m1 ?sum m'" "data_ok m'"
        "mdata m' ?off = Some (Obj_array as)" "length as = length arr"
        "\<forall>x \<in> dom (mdata m1) - {?off}. mdata m' x = mdata m1 x"
        "map (read_string (maddr m1) m') as = map (Some \<circ> sval) arr" by auto
    have "?off \<notin> dom (mdata m)" using assms(1) by (auto simp: data_ok_def)
    then have "mdata m \<subseteq>\<^sub>m mdata m'" using m'(6) g(8) by (force simp: map_le_def)
    moreover have "grows m (?n + ?sum) m'" using m1(2) m'(2) grows_trans by (auto simp: writes_def)
    ultimately have "writes m (calculate_size_operand p) m'" using m'(3) by (simp add: writes_def sz)
    moreover have "read_operand (maddr m) m' (operand_array (length arr, ?a)) = Some (operand_value p)"
      using those_Some [OF m'(7)] m'(4,5) False by (simp add: operand_array g)
    moreover have "0 < ?n" using False by (intro align_pos) (simp add: POINTER_SIZE_def)
    then have "between (maddr m) ?off (?off + calculate_size_operand p) (operand_arrays (operand_array (length arr, ?a)))"
      using False by (simp add: between_def sz data_address_def POINTER_SIZE_def add_pos_nonneg)
    ultimately show ?thesis
      by (intro exI [of _ "operand_array (length arr, ?a)"] exI [of _ m']) (simp add: eq m'(1))
  qed
qed (use assms in \<open>auto simp: serialize_operand_def\<close>)

section \<open>Opcodes\<close>

text \<open>
  \<open>m'\<close> comes after \<open>m\<close>: the header and the sizes of the arrays are the same, nothing written before is
  changed except the table entries in \<open>F\<close>.
\<close>

definition ext :: "nat set \<Rightarrow> handlebars_module \<Rightarrow> handlebars_module \<Rightarrow> bool" where
  "ext F m m' \<longleftrightarrow>
     maddr m' = maddr m \<and> msize m' = msize m \<and> length (mprograms m') = length (mprograms m) \<and>
     length (mopcodes m') = length (mopcodes m) \<and>
     mprogram_count m \<le> mprogram_count m' \<and> mopcode_count m \<le> mopcode_count m' \<and>
     mdata m \<subseteq>\<^sub>m mdata m' \<and>
     (\<forall>i < mopcode_count m. mopcodes m' ! i = mopcodes m ! i) \<and>
     (\<forall>i < mprogram_count m. entry_guid (mprograms m' ! i) = entry_guid (mprograms m ! i)) \<and>
     (\<forall>i < mprogram_count m. i \<notin> F \<longrightarrow> mprograms m' ! i = mprograms m ! i) \<and>
     mprograms_ptr m' = mprograms_ptr m \<and> mopcodes_ptr m' = mopcodes_ptr m \<and> mflags m' = mflags m \<and>
     mversion m' = mversion m \<and> mts m' = mts m"

lemma ext_refl [simp]: "ext F m m"
  by (simp add: ext_def)

lemma ext_trans: "ext F m m1 \<Longrightarrow> ext G m1 m2 \<Longrightarrow> F \<subseteq> K \<Longrightarrow> G \<inter> {..<mprogram_count m} \<subseteq> K \<Longrightarrow> ext K m m2"
proof -
  assume a: "ext F m m1" "ext G m1 m2" "F \<subseteq> K" "G \<inter> {..<mprogram_count m} \<subseteq> K"
  have "mprograms m2 ! i = mprograms m ! i" if "i < mprogram_count m" "i \<notin> K" for i
  proof -
    have "i < mprogram_count m1" using a(1) that(1) by (simp add: ext_def)
    moreover have "i \<notin> F" "i \<notin> G" using a(3,4) that by auto
    ultimately show ?thesis using a(1,2) that(1) by (simp add: ext_def)
  qed
  moreover have "mdata m \<subseteq>\<^sub>m mdata m2" using a(1,2) by (auto simp: ext_def intro: map_le_trans)
  ultimately show ?thesis using a(1,2) by (simp add: ext_def)
qed

lemma grows_fields:
  assumes "grows m n m'"
  shows "mprograms_ptr m' = mprograms_ptr m" "mopcodes_ptr m' = mopcodes_ptr m" "mflags m' = mflags m"
    "mversion m' = mversion m" "mts m' = mts m"
  using assms by (cases m; cases m'; simp add: grows_def)+

lemma writes_ext:
  assumes "writes m n m'"
  shows "ext F m m'"
proof -
  have "grows m n m'" using assms by (simp add: writes_def)
  then show ?thesis unfolding ext_def
    by (simp only: grows_fields [OF \<open>grows m n m'\<close>] writes_simps [OF assms]) simp
qed

text \<open>The arrays of the opcodes written so far.\<close>

definition module_arrays :: "handlebars_module \<Rightarrow> int list" where
  "module_arrays m = concat (map opcode_arrays (take (mopcode_count m) (mopcodes m)))"

text \<open>Every opcode written so far can be read.\<close>

definition readable :: "handlebars_module \<Rightarrow> bool" where
  "readable m \<longleftrightarrow> (\<forall>i < mopcode_count m. \<exists>v. read_opcode (maddr m) m (mopcodes m ! i) = Some v)"

definition minv :: "handlebars_module \<Rightarrow> bool" where
  "minv m \<longleftrightarrow> data_ok m \<and> readable m \<and> between (maddr m) 0 (mdata_offset m) (module_arrays m) \<and>
     mopcode_count m \<le> length (mopcodes m) \<and> mprogram_count m \<le> length (mprograms m)"

lemma globalise_id:
  "otype v \<noteq> handlebars_opcode_type_push_program \<Longrightarrow> globalise table v = v"
  by (simp add: globalise_def split: handlebars_opcode_type.splits)

lemma globalise_value:
  assumes "wf_opcode (length table) opc" "\<And>c. c \<in> set table \<Longrightarrow> entry_guid (mprograms m ! c) = c"
    and "otype o1 = otype opc" "oloc o1 = oloc opc"
    and "read_operand loc m' (op1 o1) = Some (operand_value (op1 opc))"
    and "read_operand loc m' (op2 o1) = Some (operand_value (op2 opc))"
    and "read_operand loc m' (op3 o1) = Some (operand_value (op3 opc))"
    and "read_operand loc m' (op4 o1) = Some (operand_value (op4 opc))"
  shows "\<exists>o2. patch_push_program m table o1 = Inr o2 \<and>
     read_opcode loc m' o2 = Some (globalise table (opcode_value opc)) \<and> opcode_arrays o2 = opcode_arrays o1"
proof -
  have plain: "read_opcode loc m' o1 = Some (opcode_value opc)"
    using assms(3-8) by (simp add: read_opcode_def opcode_value_def)
  show ?thesis
  proof (cases "otype opc = handlebars_opcode_type_push_program")
    case False
    then have "globalise table (opcode_value opc) = opcode_value opc"
      by (intro globalise_id) (simp add: opcode_value_def)
    with False plain show ?thesis by (simp add: patch_push_program_def assms(3))
  next
    case push: True
    then obtain b where b: "op4 opc = operand_null b"
      using assms(1) by (auto simp: wf_opcode_def operand_type_null_def split: handlebars_operand.splits)
    then have b': "op4 o1 = operand_null b" using assms(8) by (simp add: read_operand_null)
    show ?thesis
    proof (cases "\<exists>n. op1 opc = operand_long n \<and> \<not> b")
      case True
      then obtain n where n: "op1 opc = operand_long n" "\<not> b" by blast
      then have n': "op1 o1 = operand_long n" using assms(5) by (simp add: read_operand_long)
      have range: "0 \<le> sint n" "nat (sint n) < length table"
        using assms(1) push n(1) by (simp_all add: wf_opcode_def)
      then have guid: "entry_guid (mprograms m ! (table ! nat (sint n))) = table ! nat (sint n)"
        by (simp add: assms(2))
      have "patch_push_program m table o1 =
          Inr (o1\<lparr>op1 := operand_long (of_nat (table ! nat (sint n))), op4 := operand_null True\<rparr>)"
        using range n(2) by (simp add: patch_push_program_def assms(3) push n' b' guid)
      moreover have "globalise table (opcode_value opc) =
          (opcode_value opc)\<lparr>op1 := operand_long (of_nat (table ! nat (sint n))), op4 := operand_null True\<rparr>"
        using push n b by (simp add: globalise_def opcode_value_def)
      ultimately show ?thesis
        using assms(3-8) by (simp add: read_opcode_def opcode_value_def opcode_arrays_def n' b')
    next
      case False
      then have "globalise table (opcode_value opc) = opcode_value opc"
        using push b by (cases "op1 opc") (auto simp: globalise_def opcode_value_def)
      moreover have "patch_push_program m table o1 = Inr o1"
      proof (cases "op1 opc")
        case (operand_long n)
        then have "op1 o1 = operand_long n" using assms(5) by (simp add: read_operand_long)
        with False operand_long b' push show ?thesis by (simp add: patch_push_program_def assms(3))
      next
        case (operand_string s)
        then show ?thesis using assms(5) push
          by (cases "op1 o1") (auto simp: patch_push_program_def assms(3))
      next
        case (operand_array s)
        then show ?thesis using assms(5) push
          by (cases "op1 o1") (auto simp: patch_push_program_def assms(3))
      next
        case (operand_null c)
        then show ?thesis using assms(5) push by (simp add: patch_push_program_def assms(3) read_operand_null)
      next
        case (operand_boolean c)
        then show ?thesis using assms(5) push
          by (cases "op1 o1") (auto simp: patch_push_program_def assms(3) split: option.splits mobject.splits if_splits)
      qed
      ultimately show ?thesis using plain by simp
    qed
  qed
qed

lemma serialize_operands4:
  assumes "data_ok m" "fits (opcode_data opc) m"
  shows "\<exists>p1 m1 p2 m2 p3 m3 p4 m4.
     serialize_operand H (op1 opc) m = Inr (p1, m1) \<and> serialize_operand H (op2 opc) m1 = Inr (p2, m2) \<and>
     serialize_operand H (op3 opc) m2 = Inr (p3, m3) \<and> serialize_operand H (op4 opc) m3 = Inr (p4, m4) \<and>
     writes m (opcode_data opc) m4 \<and>
     read_operand (maddr m) m4 p1 = Some (operand_value (op1 opc)) \<and>
     read_operand (maddr m) m4 p2 = Some (operand_value (op2 opc)) \<and>
     read_operand (maddr m) m4 p3 = Some (operand_value (op3 opc)) \<and>
     read_operand (maddr m) m4 p4 = Some (operand_value (op4 opc)) \<and>
     between (maddr m) (mdata_offset m) (mdata_offset m + opcode_data opc)
       (operand_arrays p1 @ operand_arrays p2 @ operand_arrays p3 @ operand_arrays p4)"
proof -
  let ?s = calculate_size_operand
  have f1: "fits (?s (op1 opc)) m" using assms(2) by (simp add: opcode_data_def)
  from serialize_operand_writes [OF assms(1) f1, of H] obtain p1 m1 where
    1: "serialize_operand H (op1 opc) m = Inr (p1, m1)" "writes m (?s (op1 opc)) m1"
      "read_operand (maddr m) m1 p1 = Some (operand_value (op1 opc))"
      "between (maddr m) (mdata_offset m) (mdata_offset m + ?s (op1 opc)) (operand_arrays p1)" by blast
  note w1 = writes_simps [OF 1(2)]
  have f2: "fits (?s (op2 opc)) m1" using assms(2) w1 by (simp add: opcode_data_def)
  from serialize_operand_writes [OF w1(9) f2, of H] obtain p2 m2 where
    2: "serialize_operand H (op2 opc) m1 = Inr (p2, m2)" "writes m1 (?s (op2 opc)) m2"
      "read_operand (maddr m) m2 p2 = Some (operand_value (op2 opc))"
      "between (maddr m) (mdata_offset m1) (mdata_offset m1 + ?s (op2 opc)) (operand_arrays p2)" unfolding w1(1) by blast
  note w2 = writes_simps [OF 2(2)]
  have f3: "fits (?s (op3 opc)) m2" using assms(2) w1 w2 by (simp add: opcode_data_def)
  from serialize_operand_writes [OF w2(9) f3, of H] obtain p3 m3 where
    3: "serialize_operand H (op3 opc) m2 = Inr (p3, m3)" "writes m2 (?s (op3 opc)) m3"
      "read_operand (maddr m) m3 p3 = Some (operand_value (op3 opc))"
      "between (maddr m) (mdata_offset m2) (mdata_offset m2 + ?s (op3 opc)) (operand_arrays p3)" unfolding w2(1) w1(1) by blast
  note w3 = writes_simps [OF 3(2)]
  have f4: "fits (?s (op4 opc)) m3" using assms(2) w1 w2 w3 by (simp add: opcode_data_def)
  from serialize_operand_writes [OF w3(9) f4, of H] obtain p4 m4 where
    4: "serialize_operand H (op4 opc) m3 = Inr (p4, m4)" "writes m3 (?s (op4 opc)) m4"
      "read_operand (maddr m) m4 p4 = Some (operand_value (op4 opc))"
      "between (maddr m) (mdata_offset m3) (mdata_offset m3 + ?s (op4 opc)) (operand_arrays p4)" unfolding w3(1) w2(1) w1(1) by blast
  note w4 = writes_simps [OF 4(2)]
  have le3: "mdata m3 \<subseteq>\<^sub>m mdata m4" and le2: "mdata m2 \<subseteq>\<^sub>m mdata m4" and le1: "mdata m1 \<subseteq>\<^sub>m mdata m4"
    using w2(8) w3(8) w4(8) by (blast intro: map_le_trans)+
  have "writes m (opcode_data opc) m4"
    using writes_trans [OF writes_trans [OF writes_trans [OF 1(2) 2(2)] 3(2)] 4(2)] by (simp add: opcode_data_def)
  moreover have "between (maddr m) (mdata_offset m) (mdata_offset m + opcode_data opc)
       (operand_arrays p1 @ operand_arrays p2 @ operand_arrays p3 @ operand_arrays p4)"
    using 1(4) 2(4) 3(4) 4(4) w1(7) w2(7) w3(7)
    by (intro between_append [where mid = "mdata_offset m1"] between_append [where mid = "mdata_offset m2"]
        between_append [where mid = "mdata_offset m3"]) (auto simp: opcode_data_def add.assoc)
  ultimately show ?thesis
    using 1(1) 2(1) 3(1) 4(1) read_operand_mono [OF le1 1(3)] read_operand_mono [OF le2 2(3)]
      read_operand_mono [OF le3 3(3)] 4(3) by blast
qed

lemma read_opcode_cong: "mdata m = mdata m' \<Longrightarrow> read_opcode loc m o1 = Some v \<Longrightarrow> read_opcode loc m' o1 = Some v"
  by (rule read_opcode_mono) simp_all

lemma readable_cong:
  assumes "readable m" "mdata m' = mdata m" "maddr m' = maddr m" "mopcodes m' = mopcodes m" "mopcode_count m' = mopcode_count m"
  shows "readable m'"
  using assms read_opcode_cong [of m m'] unfolding readable_def by metis

lemma readable_ext:
  assumes "readable m" "ext F m m'" "mopcode_count m' = Suc (mopcode_count m)"
    "read_opcode (maddr m') m' (mopcodes m' ! mopcode_count m) = Some v"
  shows "readable m'"
  unfolding readable_def
proof (intro allI impI)
  fix i assume i: "i < mopcode_count m'"
  show "\<exists>v. read_opcode (maddr m') m' (mopcodes m' ! i) = Some v"
  proof (cases "i = mopcode_count m")
    case True
    with assms(4) show ?thesis by blast
  next
    case False
    with i assms(3) have "i < mopcode_count m" by simp
    moreover from this obtain w where "read_opcode (maddr m) m (mopcodes m ! i) = Some w"
      using assms(1) by (auto simp: readable_def)
    moreover have "mdata m \<subseteq>\<^sub>m mdata m'" using assms(2) by (simp add: ext_def)
    ultimately show ?thesis
      using assms(2) read_opcode_mono [of m m' "maddr m" "mopcodes m ! i" w] by (auto simp: ext_def)
  qed
qed

lemma take_Suc_update: "i < length xs \<Longrightarrow> take (Suc i) (xs[i := x]) = take i xs @ [x]"
  by (simp add: take_Suc_conv_app_nth)

text \<open>The table \<open>table\<close> refers to entries that have their number.\<close>

definition table_ok :: "nat list \<Rightarrow> handlebars_module \<Rightarrow> bool" where
  "table_ok table m \<longleftrightarrow> (\<forall>c \<in> set table. entry_guid (mprograms m ! c) = c)"

lemma serialize_opcode_ok:
  assumes "minv m" "mopcode_count m < length (mopcodes m)" "fits (opcode_data opc) m"
    and "wf_opcode (length table) opc" "table_ok table m"
  shows "\<exists>m'. serialize_opcode H table opc m = Inr m' \<and> minv m' \<and> ext {} m m' \<and>
     mopcode_count m' = Suc (mopcode_count m) \<and> mprogram_count m' = mprogram_count m \<and>
     mprograms m' = mprograms m \<and> mdata_offset m' = mdata_offset m + opcode_data opc \<and>
     read_opcode (maddr m) m' (mopcodes m' ! mopcode_count m) = Some (globalise table (opcode_value opc))"
proof -
  let ?g = "mopcode_count m" and ?m0 = "m\<lparr>mopcode_count := mopcode_count m + 1\<rparr>"
  have "data_ok ?m0" "fits (opcode_data opc) ?m0" using assms(1,3) by (simp_all add: minv_def data_ok_def)
  from serialize_operands4 [OF this, of H] obtain p1 m1 p2 m2 p3 m3 p4 m4 where
    ops: "serialize_operand H (op1 opc) ?m0 = Inr (p1, m1)" "serialize_operand H (op2 opc) m1 = Inr (p2, m2)"
      "serialize_operand H (op3 opc) m2 = Inr (p3, m3)" "serialize_operand H (op4 opc) m3 = Inr (p4, m4)"
    and w: "writes ?m0 (opcode_data opc) m4"
    and r: "read_operand (maddr m) m4 p1 = Some (operand_value (op1 opc))"
      "read_operand (maddr m) m4 p2 = Some (operand_value (op2 opc))"
      "read_operand (maddr m) m4 p3 = Some (operand_value (op3 opc))"
      "read_operand (maddr m) m4 p4 = Some (operand_value (op4 opc))"
    and btw: "between (maddr m) (mdata_offset m) (mdata_offset m + opcode_data opc)
       (operand_arrays p1 @ operand_arrays p2 @ operand_arrays p3 @ operand_arrays p4)" by auto
  note ws = writes_simps [OF w, simplified]
  let ?o1 = "\<lparr>otype = otype opc, op1 = p1, op2 = p2, op3 = p3, op4 = p4, oloc = oloc opc\<rparr> :: mopcode"
  have "\<And>c. c \<in> set table \<Longrightarrow> entry_guid (mprograms m4 ! c) = c"
    using assms(5) ws(3) by (simp add: table_ok_def)
  from globalise_value [OF assms(4) this, of ?o1 "maddr m" m4] r obtain o2 where
    o2: "patch_push_program m4 table ?o1 = Inr o2" "read_opcode (maddr m) m4 o2 = Some (globalise table (opcode_value opc))"
      "opcode_arrays o2 = opcode_arrays ?o1" by auto
  let ?m' = "m4\<lparr>mopcodes := (mopcodes m4)[?g := o2]\<rparr>"
  have run: "serialize_opcode H table opc m = Inr ?m'"
    using assms(2) ops o2(1) by (simp add: serialize_opcode_def Let_def)
  have e: "ext {} ?m0 m4" by (rule writes_ext [OF w])
  have ext: "ext {} m ?m'"
    using e ws by (auto simp: ext_def)
  have read: "read_opcode (maddr m) ?m' (mopcodes ?m' ! ?g) = Some (globalise table (opcode_value opc))"
    using read_opcode_cong [OF _ o2(2), of ?m'] assms(2) ws by simp
  have "readable ?m'"
    by (rule readable_ext [OF _ ext]) (use assms(1) ws read in \<open>simp_all add: minv_def\<close>)
  have "minv ?m'"
  proof -
    have "between (maddr m) 0 (mdata_offset m) (module_arrays m)" using assms(1) by (simp add: minv_def)
    moreover have "opcode_arrays o2 = operand_arrays p1 @ operand_arrays p2 @ operand_arrays p3 @ operand_arrays p4"
      unfolding o2(3) by (simp add: opcode_arrays_def)
    ultimately have "between (maddr m) 0 (mdata_offset m + opcode_data opc) (module_arrays m @ opcode_arrays o2)"
      using between_append [OF _ btw, of 0 "module_arrays m"] by simp
    then have "between (maddr ?m') 0 (mdata_offset ?m') (module_arrays ?m')"
      using assms(2) ws by (simp add: module_arrays_def take_Suc_update)
    then show ?thesis
      using assms(1,2) ws \<open>readable ?m'\<close> by (simp add: minv_def data_ok_def)
  qed
  then show ?thesis using run ws ext read by (intro exI [of _ ?m']) simp
qed

text \<open>The loop over the opcodes of a program.\<close>

lemma serialize_opcodes_ok:
  assumes "minv m" "mopcode_count m + length opcs \<le> length (mopcodes m)" "fits (sum_list (map opcode_data opcs)) m"
    and "\<forall>opc \<in> set opcs. wf_opcode (length table) opc" "table_ok table m"
  shows "\<exists>m'. efold (serialize_opcode H table) opcs m = Inr m' \<and> minv m' \<and> ext {} m m' \<and>
     mopcode_count m' = mopcode_count m + length opcs \<and> mprogram_count m' = mprogram_count m \<and>
     mprograms m' = mprograms m \<and> mdata_offset m' = mdata_offset m + sum_list (map opcode_data opcs) \<and>
     (\<forall>j < length opcs. read_opcode (maddr m) m' (mopcodes m' ! (mopcode_count m + j)) =
        Some (globalise table (opcode_value (opcs ! j))))"
  using assms
proof (induction opcs arbitrary: m)
  case Nil
  then show ?case by simp
next
  case (Cons opc opcs)
  have "mopcode_count m < length (mopcodes m)" "fits (opcode_data opc) m" "wf_opcode (length table) opc"
    using Cons.prems(2-4) by simp_all
  from serialize_opcode_ok [OF Cons.prems(1) this Cons.prems(5), of H] obtain m1 where
    m1: "serialize_opcode H table opc m = Inr m1" "minv m1" "ext {} m m1"
      "mopcode_count m1 = Suc (mopcode_count m)" "mprogram_count m1 = mprogram_count m"
      "mprograms m1 = mprograms m" "mdata_offset m1 = mdata_offset m + opcode_data opc"
      "read_opcode (maddr m) m1 (mopcodes m1 ! mopcode_count m) = Some (globalise table (opcode_value opc))" by blast
  have e: "maddr m1 = maddr m" "msize m1 = msize m" "length (mopcodes m1) = length (mopcodes m)"
    using m1(3) by (simp_all add: ext_def)
  have "table_ok table m1" using Cons.prems(5) m1(6) by (simp add: table_ok_def)
  then have "\<exists>m'. efold (serialize_opcode H table) opcs m1 = Inr m' \<and> minv m' \<and> ext {} m1 m' \<and>
     mopcode_count m' = mopcode_count m1 + length opcs \<and> mprogram_count m' = mprogram_count m1 \<and>
     mprograms m' = mprograms m1 \<and> mdata_offset m' = mdata_offset m1 + sum_list (map opcode_data opcs) \<and>
     (\<forall>j < length opcs. read_opcode (maddr m1) m' (mopcodes m' ! (mopcode_count m1 + j)) =
        Some (globalise table (opcode_value (opcs ! j))))"
    using Cons.prems(2-4) m1 e by (intro Cons.IH) auto
  then obtain m' where m': "efold (serialize_opcode H table) opcs m1 = Inr m'" "minv m'" "ext {} m1 m'"
      "mopcode_count m' = mopcode_count m1 + length opcs" "mprogram_count m' = mprogram_count m1"
      "mprograms m' = mprograms m1" "mdata_offset m' = mdata_offset m1 + sum_list (map opcode_data opcs)"
      "\<forall>j < length opcs. read_opcode (maddr m1) m' (mopcodes m' ! (mopcode_count m1 + j)) =
        Some (globalise table (opcode_value (opcs ! j)))" by blast
  have le: "mdata m1 \<subseteq>\<^sub>m mdata m'" and same: "mopcodes m' ! mopcode_count m = mopcodes m1 ! mopcode_count m"
    using m'(3) m1(4) by (simp_all add: ext_def)
  have "read_opcode (maddr m) m' (mopcodes m' ! (mopcode_count m + j)) =
      Some (globalise table (opcode_value ((opc # opcs) ! j)))" if "j < length (opc # opcs)" for j
  proof (cases j)
    case 0
    then show ?thesis using read_opcode_mono [OF le m1(8)] same by simp
  next
    case (Suc i)
    then show ?thesis using m'(8) that e m1(4) by simp
  qed
  moreover have "ext {} m m'" by (rule ext_trans [OF m1(3) m'(3)]) simp_all
  ultimately show ?case using m1 m' by (intro exI [of _ m']) simp
qed

end
