(* ===== verification/SerializerRep.thy ===== *)
theory SerializerRep
  imports SerializerProofs
begin

text \<open>
  The module that the serializer returns represents the program: from the table entry 0 the tree of programs
  can be read back. The numbers of the table entries form a tree (\<open>itree\<close>) of the same shape.
\<close>

section \<open>The representation\<close>

datatype itree = INode (root: nat) (subtrees: "itree list")

fun ids :: "itree \<Rightarrow> nat set" where
  "ids (INode i ts) = insert i (\<Union>t \<in> set ts. ids t)"

definition return_opcode :: opcode_val where
  "return_opcode = opcode_value (handlebars_opcode_ctor handlebars_opcode_type_return)"

text \<open>The table entry \<open>i\<close> describes the opcodes \<open>opcs\<close>, which refer to the entries \<open>kids\<close>, and the final return.\<close>

definition entry_represents :: "int \<Rightarrow> handlebars_module \<Rightarrow> nat \<Rightarrow> nat list \<Rightarrow> opcode list \<Rightarrow> bool" where
  "entry_represents loc m i kids opcs \<longleftrightarrow>
     (let e = mprograms m ! i; off = entry_opcode_offset e in
      i < mprogram_count m \<and> entry_guid e = i \<and> entry_opcode_count e = length opcs + 1 \<and>
      off + length opcs < mopcode_count m \<and>
      (\<forall>j < length opcs. read_opcode loc m (mopcodes m ! (off + j)) = Some (globalise kids (opcode_value (opcs ! j)))) \<and>
      read_opcode loc m (mopcodes m ! (off + length opcs)) = Some return_opcode)"

fun represents :: "int \<Rightarrow> handlebars_module \<Rightarrow> itree \<Rightarrow> handlebars_program \<Rightarrow> bool" where
  "represents loc m (INode i ts) (handlebars_program g fl rf bp opcs kids decs) \<longleftrightarrow>
     entry_represents loc m i (map root ts) opcs \<and> length ts = length kids \<and>
     (\<forall>(t, k) \<in> set (zip ts kids). represents loc m t k)"

lemma entry_represents_ext:
  assumes "entry_represents loc m i kids opcs" "ext F m m'" "i \<notin> F"
  shows "entry_represents loc m' i kids opcs"
proof -
  have i: "i < mprogram_count m" "mprograms m' ! i = mprograms m ! i"
    using assms by (simp_all add: entry_represents_def ext_def Let_def)
  let ?off = "entry_opcode_offset (mprograms m ! i)"
  have "mopcodes m' ! (?off + j) = mopcodes m ! (?off + j)" if "j \<le> length opcs" for j
    using assms(1,2) that by (simp add: entry_represents_def ext_def Let_def)
  moreover have "mdata m \<subseteq>\<^sub>m mdata m'" using assms(2) by (simp add: ext_def)
  ultimately show ?thesis
    using assms(1,2) i by (auto simp: entry_represents_def ext_def Let_def read_opcode_mono)
qed

lemma represents_ext:
  "represents loc m t p \<Longrightarrow> ext F m m' \<Longrightarrow> ids t \<inter> F = {} \<Longrightarrow> represents loc m' t p"
proof (induction loc m t p rule: represents.induct)
  case (1 loc m i ts g fl rf bp opcs kids decs)
  have "represents loc m' t k" if "(t, k) \<in> set (zip ts kids)" for t k
  proof (rule "1.IH" [OF that refl _ "1.prems"(2)])
    show "represents loc m t k" using "1.prems"(1) that by auto
    have "t \<in> set ts" by (rule set_zip_leftD [OF that])
    then show "ids t \<inter> F = {}" using "1.prems"(3) by auto
  qed
  moreover have "entry_represents loc m' i (map root ts) opcs"
    using "1.prems" by (intro entry_represents_ext [of loc m i _ opcs F m']) auto
  ultimately show ?case using "1.prems"(1) by auto
qed

section \<open>Table entries\<close>

lemma shallow_children_ok:
  assumes "minv m" "mprogram_count m + n \<le> length (mprograms m)"
  shows "\<exists>m'. serialize_shallow_children n m = Inr ([mprogram_count m..<mprogram_count m + n], m') \<and> minv m' \<and>
     ext {} m m' \<and> mprogram_count m' = mprogram_count m + n \<and> mopcode_count m' = mopcode_count m \<and>
     mdata_offset m' = mdata_offset m \<and> table_ok [mprogram_count m..<mprogram_count m + n] m'"
  using assms
proof (induction n arbitrary: m)
  case 0
  then show ?case by (simp add: table_ok_def)
next
  case (Suc n)
  let ?g = "mprogram_count m"
  let ?m1 = "m\<lparr>mprogram_count := ?g + 1, mprograms := (mprograms m)[?g := (mprograms m ! ?g)\<lparr>entry_guid := ?g\<rparr>]\<rparr>"
  have run: "serialize_program_shallow m = Inr (?g, ?m1)"
    using Suc.prems(2) by (simp add: serialize_program_shallow_def Let_def)
  have "readable ?m1" by (rule readable_cong [of m]) (use Suc.prems(1) in \<open>simp_all add: minv_def\<close>)
  then have inv: "minv ?m1" using Suc.prems by (simp add: minv_def data_ok_def module_arrays_def)
  moreover have "mprogram_count ?m1 + n \<le> length (mprograms ?m1)" using Suc.prems(2) by simp
  ultimately obtain m' where m': "serialize_shallow_children n ?m1 = Inr ([Suc ?g..<Suc ?g + n], m')" "minv m'"
      "ext {} ?m1 m'" "mprogram_count m' = Suc ?g + n" "mopcode_count m' = mopcode_count m"
      "mdata_offset m' = mdata_offset m" "table_ok [Suc ?g..<Suc ?g + n] m'"
    using Suc.IH [of ?m1] by auto
  have "ext {} m ?m1" using Suc.prems(2) by (auto simp: ext_def nth_list_update)
  then have e: "ext {} m m'" by (rule ext_trans [OF _ m'(3)]) simp_all
  have "entry_guid (mprograms m' ! ?g) = entry_guid (mprograms ?m1 ! ?g)" using m'(3) by (simp add: ext_def)
  then have "entry_guid (mprograms m' ! ?g) = ?g" using Suc.prems(2) by simp
  moreover have "[?g..<?g + Suc n] = ?g # [Suc ?g..<Suc ?g + n]" by (simp add: upt_conv_Cons)
  ultimately have "table_ok [?g..<?g + Suc n] m'"
    using m'(7) by (simp only: table_ok_def list.set ball_simps)
  then show ?case using run m' e by (simp add: upt_conv_Cons)
qed

lemma set_entry_ok:
  assumes "minv m" "i < mprogram_count m"
  shows "minv (set_entry i c off m)" "ext {i} m (set_entry i c off m)"
    "mprograms (set_entry i c off m) ! i = (mprograms m ! i)\<lparr>entry_opcode_count := c, entry_opcode_offset := off\<rparr>"
    "mprogram_count (set_entry i c off m) = mprogram_count m" "mopcode_count (set_entry i c off m) = mopcode_count m"
    "mdata_offset (set_entry i c off m) = mdata_offset m"
    "table_ok table m \<Longrightarrow> table_ok table (set_entry i c off m)"
proof -
  have i: "i < length (mprograms m)" using assms by (simp add: minv_def)
  have "readable (set_entry i c off m)"
    by (rule readable_cong [of m]) (use assms(1) in \<open>simp_all add: minv_def set_entry_def\<close>)
  then show "minv (set_entry i c off m)"
    using assms by (simp add: minv_def set_entry_def data_ok_def module_arrays_def)
  show "ext {i} m (set_entry i c off m)"
    using i by (auto simp: ext_def set_entry_def nth_list_update)
  show "mprograms (set_entry i c off m) ! i = (mprograms m ! i)\<lparr>entry_opcode_count := c, entry_opcode_offset := off\<rparr>"
    using i by (simp add: set_entry_def)
  show "table_ok table m \<Longrightarrow> table_ok table (set_entry i c off m)"
    using i by (auto simp: table_ok_def set_entry_def nth_list_update)
qed (simp_all add: set_entry_def)

lemma incr_entry_is_set_entry:
  "incr_entry_opcode_count i m =
     set_entry i (entry_opcode_count (mprograms m ! i) + 1) (entry_opcode_offset (mprograms m ! i)) m"
  by (simp add: incr_entry_opcode_count_def set_entry_def)

section \<open>Programs\<close>

definition room :: "nat \<Rightarrow> nat \<Rightarrow> nat \<Rightarrow> handlebars_module \<Rightarrow> bool" where
  "room programs opcs bytes m \<longleftrightarrow>
     mprogram_count m + programs \<le> length (mprograms m) \<and> mopcode_count m + opcs \<le> length (mopcodes m) \<and> fits bytes m"

text \<open>\<open>m'\<close> comes after \<open>m\<close> with so many table entries, opcodes and bytes more.\<close>

definition after :: "nat set \<Rightarrow> nat \<Rightarrow> nat \<Rightarrow> nat \<Rightarrow> handlebars_module \<Rightarrow> handlebars_module \<Rightarrow> bool" where
  "after F programs opcs bytes m m' \<longleftrightarrow>
     minv m' \<and> ext F m m' \<and> mprogram_count m' = mprogram_count m + programs \<and>
     mopcode_count m' = mopcode_count m + opcs \<and> mdata_offset m' = mdata_offset m + bytes"

lemma after_trans:
  "after F a b c m m1 \<Longrightarrow> after G a' b' c' m1 m2 \<Longrightarrow> F \<subseteq> K \<Longrightarrow> G \<inter> {..<mprogram_count m} \<subseteq> K \<Longrightarrow>
     after K (a + a') (b + b') (c + c') m m2"
  by (auto simp: after_def intro: ext_trans)

lemma room_after:
  "room (a + a') (b + b') (c + c') m \<Longrightarrow> after F a b c m m1 \<Longrightarrow> room a' b' c' m1"
  by (auto simp: room_def after_def ext_def)

abbreviation kid_programs :: "handlebars_program \<Rightarrow> nat" where
  "kid_programs k \<equiv> program_total k - 1"

lemma program_total_pos: "0 < program_total k"
  by (cases k) simp

lemma sum_program_total: "sum_list (map program_total ks) = length ks + sum_list (map kid_programs ks)"
  by (induction ks) (use program_total_pos in \<open>auto simp: Suc_leI\<close>)

text \<open>What is proved of one program, as a predicate for the induction.\<close>

definition serializes :: "(string \<Rightarrow> u32) \<Rightarrow> handlebars_program \<Rightarrow> bool" where
  "serializes H k \<longleftrightarrow>
     (\<forall>m c. minv m \<and> c < mprogram_count m \<and> entry_guid (mprograms m ! c) = c \<and>
        room (kid_programs k) (opcode_total k) (data_total k) m \<longrightarrow>
        (\<exists>m' t. serialize_program2 H k c m = Inr m' \<and>
           after {c} (kid_programs k) (opcode_total k) (data_total k) m m' \<and>
           root t = c \<and> ids t \<subseteq> insert c {mprogram_count m..<mprogram_count m'} \<and> represents (maddr m) m' t k))"

lemma serializesD:
  assumes "serializes H k" "minv m" "c < mprogram_count m" "entry_guid (mprograms m ! c) = c"
    "room (kid_programs k) (opcode_total k) (data_total k) m"
  obtains m' t where "serialize_program2 H k c m = Inr m'"
    "after {c} (kid_programs k) (opcode_total k) (data_total k) m m'"
    "root t = c" "ids t \<subseteq> insert c {mprogram_count m..<mprogram_count m'}" "represents (maddr m) m' t k"
  using assms unfolding serializes_def by blast

lemma serialize_children_ok:
  assumes "\<forall>k \<in> set kids. serializes H k" and "minv m" and "length cs = length kids" and "distinct cs"
    and "\<forall>c \<in> set cs. c < mprogram_count m" and "table_ok cs m"
    and "room (sum_list (map kid_programs kids)) (sum_list (map opcode_total kids)) (sum_list (map data_total kids)) m"
  shows "\<exists>m' ts. efold (\<lambda>(k, c) m. serialize_program2 H k c m) (zip kids cs) m = Inr m' \<and>
     after (set cs) (sum_list (map kid_programs kids)) (sum_list (map opcode_total kids)) (sum_list (map data_total kids)) m m' \<and>
     map root ts = cs \<and> (\<forall>(t, k) \<in> set (zip ts kids). represents (maddr m) m' t k) \<and>
     (\<forall>t \<in> set ts. ids t \<subseteq> set cs \<union> {mprogram_count m..<mprogram_count m'})"
  using assms
proof (induction kids arbitrary: cs m)
  case Nil
  then have "after {} 0 0 0 m m" by (simp add: after_def)
  with Nil show ?case by simp
next
  case (Cons k kids)
  from Cons.prems(3) obtain c cs' where cs: "cs = c # cs'" by (cases cs) auto
  note room = Cons.prems(7)
  have k: "room (kid_programs k) (opcode_total k) (data_total k) m" "serializes H k"
    using room Cons.prems(1) by (simp_all add: room_def)
  have c: "c < mprogram_count m" "entry_guid (mprograms m ! c) = c"
    using Cons.prems(5,6) by (simp_all add: cs table_ok_def)
  obtain m1 t where
    m1: "serialize_program2 H k c m = Inr m1" "after {c} (kid_programs k) (opcode_total k) (data_total k) m m1"
      "root t = c" "ids t \<subseteq> insert c {mprogram_count m..<mprogram_count m1}" "represents (maddr m) m1 t k"
    using serializesD [OF k(2) Cons.prems(2) c k(1)] by blast
  have e1: "ext {c} m m1" and inv1: "minv m1" using m1(2) by (simp_all add: after_def)
  have addr: "maddr m1 = maddr m" using e1 by (simp add: ext_def)
  have tab: "table_ok cs' m1"
    using Cons.prems(5,6) e1 by (auto simp: cs table_ok_def ext_def)
  have low: "\<forall>c \<in> set cs'. c < mprogram_count m1"
    using Cons.prems(5) e1 by (auto simp: cs ext_def)
  have room1: "room (sum_list (map kid_programs kids)) (sum_list (map opcode_total kids)) (sum_list (map data_total kids)) m1"
    using room_after [OF _ m1(2)] room by simp
  have rest: "length cs' = length kids" "distinct cs'" "\<forall>k \<in> set kids. serializes H k"
    using Cons.prems(1,3,4) by (simp_all add: cs)
  obtain m' ts where
    m': "efold (\<lambda>(k, c) m. serialize_program2 H k c m) (zip kids cs') m1 = Inr m'"
      "after (set cs') (sum_list (map kid_programs kids)) (sum_list (map opcode_total kids)) (sum_list (map data_total kids)) m1 m'"
      "map root ts = cs'" "\<forall>(t, k) \<in> set (zip ts kids). represents (maddr m) m' t k"
      "\<forall>t \<in> set ts. ids t \<subseteq> set cs' \<union> {mprogram_count m1..<mprogram_count m'}"
    using Cons.IH [OF rest(3) inv1 rest(1,2) low tab room1] unfolding addr by blast
  have e2: "ext (set cs') m1 m'" using m'(2) by (simp add: after_def)
  have le: "mprogram_count m \<le> mprogram_count m1" "mprogram_count m1 \<le> mprogram_count m'"
    using e1 e2 by (simp_all add: ext_def)
  have "c \<notin> set cs'" "\<forall>x \<in> set cs'. x < mprogram_count m" using Cons.prems(4,5) by (simp_all add: cs)
  then have "ids t \<inter> set cs' = {}" using m1(4) by fastforce
  then have "represents (maddr m) m' t k" by (rule represents_ext [OF m1(5) e2])
  moreover have "after (set cs) (sum_list (map kid_programs (k # kids))) (sum_list (map opcode_total (k # kids)))
      (sum_list (map data_total (k # kids))) m m'"
    using after_trans [OF m1(2) m'(2), of "set cs"] by (auto simp: cs)
  moreover have "ids t \<subseteq> set cs \<union> {mprogram_count m..<mprogram_count m'}"
    using m1(4) le by (fastforce simp: cs)
  moreover have "\<forall>t \<in> set ts. ids t \<subseteq> set cs \<union> {mprogram_count m..<mprogram_count m'}"
    using m'(5) le by (fastforce simp: cs)
  ultimately show ?case
    using m1(1,3) m'(1,3,4) by (intro exI [of _ m'] exI [of _ "t # ts"]) (auto simp: cs)
qed

text \<open>The opcodes of a program and the return behind them.\<close>

abbreviation return_op :: opcode where
  "return_op \<equiv> handlebars_opcode_ctor handlebars_opcode_type_return"

lemma opcodes_and_return_ok:
  assumes "minv m" and "room 0 (length opcs + 1) (sum_list (map opcode_data opcs)) m"
    and "\<forall>opc \<in> set opcs. wf_opcode (length table) opc" "table_ok table m"
  shows "\<exists>m'. ebind (efold (serialize_opcode H table) opcs m) (serialize_opcode H table return_op) = Inr m' \<and>
     after {} 0 (length opcs + 1) (sum_list (map opcode_data opcs)) m m' \<and> mprograms m' = mprograms m \<and>
     (\<forall>j < length opcs. read_opcode (maddr m) m' (mopcodes m' ! (mopcode_count m + j)) =
        Some (globalise table (opcode_value (opcs ! j)))) \<and>
     read_opcode (maddr m) m' (mopcodes m' ! (mopcode_count m + length opcs)) = Some return_opcode"
proof -
  have "mopcode_count m + length opcs \<le> length (mopcodes m)" "fits (sum_list (map opcode_data opcs)) m"
    using assms(2) by (simp_all add: room_def)
  from serialize_opcodes_ok [OF assms(1) this assms(3,4), of H] obtain m1 where
    run1: "efold (serialize_opcode H table) opcs m = Inr m1" and
    a1: "after {} 0 (length opcs) (sum_list (map opcode_data opcs)) m m1" and p1: "mprograms m1 = mprograms m" and
    r1: "\<And>j. j < length opcs \<Longrightarrow> read_opcode (maddr m) m1 (mopcodes m1 ! (mopcode_count m + j)) =
        Some (globalise table (opcode_value (opcs ! j)))"
    by (auto simp: after_def)
  have inv1: "minv m1" and t1: "table_ok table m1" and addr: "maddr m1 = maddr m"
    and c1: "mopcode_count m1 = mopcode_count m + length opcs"
    using a1 assms(4) p1 by (simp_all add: after_def table_ok_def ext_def)
  have "room 0 1 0 m1" using room_after [OF _ a1] assms(2) by simp
  then have "mopcode_count m1 < length (mopcodes m1)" "fits (opcode_data return_op) m1" "wf_opcode (length table) return_op"
    by (simp_all add: room_def wf_opcode_def)
  from serialize_opcode_ok [OF inv1 this t1, of H] obtain m2 where
    run2: "serialize_opcode H table return_op m1 = Inr m2" and a2: "after {} 0 1 0 m1 m2" and p2: "mprograms m2 = mprograms m1" and
    r2: "read_opcode (maddr m1) m2 (mopcodes m2 ! mopcode_count m1) = Some (globalise table (opcode_value return_op))"
    by (auto simp: after_def)
  have le: "mdata m1 \<subseteq>\<^sub>m mdata m2" and old: "\<forall>i < mopcode_count m1. mopcodes m2 ! i = mopcodes m1 ! i"
    using a2 by (simp_all add: after_def ext_def)
  have "read_opcode (maddr m) m2 (mopcodes m2 ! (mopcode_count m + j)) = Some (globalise table (opcode_value (opcs ! j)))"
    if "j < length opcs" for j
    using read_opcode_mono [OF le r1 [OF that]] old c1 that by simp
  moreover have "globalise table (opcode_value return_op) = return_opcode"
    unfolding return_opcode_def by (rule globalise_id) (simp add: opcode_value_def)
  moreover have "after {} 0 (length opcs + 1) (sum_list (map opcode_data opcs)) m m2"
    using after_trans [OF a1 a2, of "{}"] by simp
  ultimately show ?thesis
    using run1 run2 r2 c1 addr p1 p2 by (intro exI [of _ m2]) simp
qed

text \<open>What one call does before it turns to the children.\<close>

lemma program_head_ok:
  assumes inv: "minv m" and c: "c < mprogram_count m" and guid: "entry_guid (mprograms m ! c) = c"
    and room: "room (length kids) (length opcs + 1) (sum_list (map opcode_data opcs)) m"
    and wf: "\<forall>opc \<in> set opcs. wf_opcode (length kids) opc"
  defines "table \<equiv> [mprogram_count m..<mprogram_count m + length kids]"
  shows "\<exists>m'. serialize_program2 H (handlebars_program g fl rf bp opcs kids decs) c m =
       efold (\<lambda>(k, c) m. serialize_program2 H k c m) (zip kids table) m' \<and>
     after {c} (length kids) (length opcs + 1) (sum_list (map opcode_data opcs)) m m' \<and>
     table_ok table m' \<and> entry_represents (maddr m) m' c table opcs"
proof -
  let ?n = "length kids" and ?k = "handlebars_program g fl rf bp opcs kids decs"
  have "mprogram_count m + ?n \<le> length (mprograms m)" using room by (simp add: room_def)
  from shallow_children_ok [OF inv this] obtain m1 where
    run1: "serialize_shallow_children ?n m = Inr (table, m1)" and a1: "after {} ?n 0 0 m m1" and t1: "table_ok table m1"
    by (auto simp: after_def table_def)
  have inv1: "minv m1" and c1: "c < mprogram_count m1" and guid1: "entry_guid (mprograms m1 ! c) = c"
    using a1 c guid by (auto simp: after_def ext_def)
  let ?off = "mopcode_count m1"
  define m2 where "m2 = set_entry c (length opcs) ?off m1"
  note s2 = set_entry_ok [where c = "length opcs" and off = ?off, OF inv1 c1, folded m2_def]
  have a2: "after {c} 0 0 0 m1 m2" using s2 by (simp add: after_def)
  have a12: "after {c} ?n 0 0 m m2" using after_trans [OF a1 a2, of "{c}"] by simp
  have "room 0 (length opcs + 1) (sum_list (map opcode_data opcs)) m2"
    using room_after [OF _ a12] room by simp
  moreover have "\<forall>opc \<in> set opcs. wf_opcode (length table) opc" using wf by (simp add: table_def)
  ultimately obtain m3 where
    run3: "ebind (efold (serialize_opcode H table) opcs m2) (serialize_opcode H table return_op) = Inr m3" and
    a3: "after {} 0 (length opcs + 1) (sum_list (map opcode_data opcs)) m2 m3" and p3: "mprograms m3 = mprograms m2" and
    r3: "\<And>j. j < length opcs \<Longrightarrow> read_opcode (maddr m2) m3 (mopcodes m3 ! (mopcode_count m2 + j)) =
        Some (globalise table (opcode_value (opcs ! j)))"
      "read_opcode (maddr m2) m3 (mopcodes m3 ! (mopcode_count m2 + length opcs)) = Some return_opcode"
    using opcodes_and_return_ok [OF s2(1) _ _ s2(7) [OF t1], of opcs H] by blast
  have inv3: "minv m3" and c3: "c < mprogram_count m3" using a2 a3 c1 by (auto simp: after_def)
  have entry3: "mprograms m3 ! c = (mprograms m1 ! c)\<lparr>entry_opcode_count := length opcs, entry_opcode_offset := ?off\<rparr>"
    by (simp add: p3 s2(3))
  define m4 where "m4 = incr_entry_opcode_count c m3"
  have m4: "m4 = set_entry c (length opcs + 1) ?off m3"
    by (simp add: m4_def incr_entry_is_set_entry entry3)
  note s4 = set_entry_ok [where c = "length opcs + 1" and off = ?off, OF inv3 c3, folded m4]
  have a4: "after {c} 0 0 0 m3 m4" using s4 by (simp add: after_def)
  have "table_ok table m3" using s2(7) [OF t1] p3 by (simp add: table_ok_def)
  then have t4: "table_ok table m4" by (rule s4(7))
  have "after {c} ?n (length opcs + 1) (sum_list (map opcode_data opcs)) m m4"
    using after_trans [OF a12 after_trans [OF a3 a4, of "{c}"], of "{c}"] by simp
  moreover have "serialize_program2 H ?k c m = efold (\<lambda>(k, c) m. serialize_program2 H k c m) (zip kids table) m4"
    by (simp add: run1 run3 m2_def [symmetric] m4_def [symmetric] ebind_assoc [symmetric] del: ebind_eq_Inr)
  moreover have "entry_represents (maddr m) m4 c table opcs"
  proof -
    have off: "mopcode_count m2 = ?off" "mopcode_count m4 = ?off + length opcs + 1" "maddr m2 = maddr m"
      using a2 a3 a4 a12 by (simp_all add: after_def ext_def)
    have "mopcodes m4 = mopcodes m3" "mdata m4 = mdata m3" by (simp_all add: m4 set_entry_def)
    then have "read_opcode (maddr m) m4 (mopcodes m4 ! (?off + j)) = Some v"
      if "read_opcode (maddr m2) m3 (mopcodes m3 ! (mopcode_count m2 + j)) = Some v" for j v
      using that read_opcode_cong [of m3 m4] off by simp
    with r3 have "\<forall>j < length opcs. read_opcode (maddr m) m4 (mopcodes m4 ! (?off + j)) =
        Some (globalise table (opcode_value (opcs ! j)))"
      "read_opcode (maddr m) m4 (mopcodes m4 ! (?off + length opcs)) = Some return_opcode" by blast+
    moreover have "entry_guid (mprograms m4 ! c) = c" "entry_opcode_count (mprograms m4 ! c) = length opcs + 1"
        "entry_opcode_offset (mprograms m4 ! c) = ?off"
      using s4(3) entry3 guid1 by simp_all
    ultimately show ?thesis using off(2) c3 s4(4) by (simp add: entry_represents_def Let_def)
  qed
  ultimately show ?thesis using t4 by blast
qed

lemma serializes_program: "wf_program k \<Longrightarrow> serializes H k"
proof (induction k)
  case (handlebars_program g fl rf bp opcs kids decs)
  let ?k = "handlebars_program g fl rf bp opcs kids decs" and ?n = "length kids"
  have wf: "\<forall>opc \<in> set opcs. wf_opcode (length kids) opc" and kids: "\<forall>k \<in> set kids. serializes H k"
    using handlebars_program by auto
  have total: "kid_programs ?k = ?n + sum_list (map kid_programs kids)"
    by (simp add: sum_program_total)
  show ?case unfolding serializes_def
  proof (intro allI impI, elim conjE)
    fix m c
    assume inv: "minv m" and c: "c < mprogram_count m" and guid: "entry_guid (mprograms m ! c) = c"
      and room: "room (kid_programs ?k) (opcode_total ?k) (data_total ?k) m"
    let ?table = "[mprogram_count m..<mprogram_count m + ?n]"
    have "room ?n (length opcs + 1) (sum_list (map opcode_data opcs)) m"
      using room unfolding total by (simp add: room_def)
    from program_head_ok [OF inv c guid this wf, of H g fl rf bp decs] obtain m1 where
      run1: "serialize_program2 H ?k c m = efold (\<lambda>(k, c) m. serialize_program2 H k c m) (zip kids ?table) m1" and
      a1: "after {c} ?n (length opcs + 1) (sum_list (map opcode_data opcs)) m m1" and
      t1: "table_ok ?table m1" and er1: "entry_represents (maddr m) m1 c ?table opcs" by blast
    have inv1: "minv m1" and addr: "maddr m1 = maddr m" using a1 by (simp_all add: after_def ext_def)
    have cs: "\<forall>x \<in> set ?table. x < mprogram_count m1" using a1 by (simp add: after_def)
    have "room (sum_list (map kid_programs kids)) (sum_list (map opcode_total kids)) (sum_list (map data_total kids)) m1"
      using room_after [OF _ a1] room unfolding total by simp
    from serialize_children_ok [OF kids inv1 _ distinct_upt cs t1 this] obtain m2 ts where
      run2: "efold (\<lambda>(k, c) m. serialize_program2 H k c m) (zip kids ?table) m1 = Inr m2" and
      a2: "after (set ?table) (sum_list (map kid_programs kids)) (sum_list (map opcode_total kids)) (sum_list (map data_total kids)) m1 m2" and
      ts: "map root ts = ?table" "\<forall>(t, k) \<in> set (zip ts kids). represents (maddr m) m2 t k"
        "\<forall>t \<in> set ts. ids t \<subseteq> set ?table \<union> {mprogram_count m1..<mprogram_count m2}"
      by (auto simp: addr)
    have "set ?table \<inter> {..<mprogram_count m} \<subseteq> {c}" by auto
    from after_trans [OF a1 a2 subset_refl this] have a: "after {c} (kid_programs ?k) (opcode_total ?k) (data_total ?k) m m2"
      unfolding total by simp
    have e2: "ext (set ?table) m1 m2" using a2 by (simp add: after_def)
    have "c \<notin> set ?table" using c by simp
    from entry_represents_ext [OF er1 e2 this] have "entry_represents (maddr m) m2 c (map root ts) opcs"
      by (simp only: ts(1))
    moreover have "length ts = ?n" using arg_cong [OF ts(1), of length] by simp
    ultimately have "represents (maddr m) m2 (INode c ts) ?k" using ts(2) by simp
    moreover have "ids (INode c ts) \<subseteq> insert c {mprogram_count m..<mprogram_count m2}"
    proof -
      have "set ?table \<subseteq> {mprogram_count m..<mprogram_count m2}"
        "{mprogram_count m1..<mprogram_count m2} \<subseteq> {mprogram_count m..<mprogram_count m2}"
        using a1 a2 by (auto simp: after_def)
      with ts(3) show ?thesis by (simp only: ids.simps) blast
    qed
    ultimately show "\<exists>m' t. serialize_program2 H ?k c m = Inr m' \<and>
        after {c} (kid_programs ?k) (opcode_total ?k) (data_total ?k) m m' \<and> root t = c \<and>
        ids t \<subseteq> insert c {mprogram_count m..<mprogram_count m'} \<and> represents (maddr m) m' t ?k"
      using run1 run2 a by (intro exI [of _ m2] exI [of _ "INode c ts"]) simp
  qed
qed

section \<open>The whole module\<close>

definition program_size :: "handlebars_program \<Rightarrow> nat" where
  "program_size p =
     HANDLEBARS_MODULE_TABLE_ENTRY_SIZE * program_total p + HANDLEBARS_OPCODE_SIZE * opcode_total p + data_total p"

lemma module_init_simps:
  "mprogram_count (module_init v ts loc p) = 0" "mopcode_count (module_init v ts loc p) = 0"
  "maddr (module_init v ts loc p) = loc" "msize (module_init v ts loc p) = HANDLEBARS_MODULE_SIZE + program_size p"
  "mdata_offset (module_init v ts loc p) =
     HANDLEBARS_MODULE_TABLE_ENTRY_SIZE * program_total p + HANDLEBARS_OPCODE_SIZE * opcode_total p"
  "mprograms (module_init v ts loc p) = replicate (program_total p) zero_entry"
  "length (mopcodes (module_init v ts loc p)) = opcode_total p"
  "mdata (module_init v ts loc p) = Map.empty"
  "mprograms_ptr (module_init v ts loc p) = data_address loc 0"
  "mopcodes_ptr (module_init v ts loc p) = data_address loc (HANDLEBARS_MODULE_TABLE_ENTRY_SIZE * program_total p)"
  "mversion (module_init v ts loc p) = v" "mts (module_init v ts loc p) = ts" "mflags (module_init v ts loc p) = flags p"
  by (simp_all add: module_init_def calculate_size_program_eq program_size_def Let_def)

text \<open>Everything that later operations rely on.\<close>

definition module_ok :: "int \<Rightarrow> handlebars_module \<Rightarrow> bool" where
  "module_ok loc m \<longleftrightarrow>
     maddr m = loc \<and> mprograms_ptr m = data_address loc 0 \<and> opcodes_reachable loc m \<and>
     mopcode_count m = length (mopcodes m) \<and> mprogram_count m = length (mprograms m) \<and>
     readable m \<and> between loc 0 (mdata_offset m) (module_arrays m) \<and> mdata_offset m + HANDLEBARS_MODULE_SIZE = msize m"

lemma program_serialize_ok:
  assumes "wf_program p"
  shows "\<exists>m t. handlebars_program_serialize H v ts loc p = Inr m \<and> module_ok loc m \<and>
     root t = 0 \<and> ids t \<subseteq> {..<program_total p} \<and> represents loc m t p \<and>
     mprogram_count m = program_total p \<and> mopcode_count m = opcode_total p \<and>
     msize m = HANDLEBARS_MODULE_SIZE + program_size p \<and> mversion m = v \<and> mts m = ts \<and> mflags m = flags p"
proof -
  let ?m0 = "module_init v ts loc p"
  note i = module_init_simps [of v ts loc p]
  have inv0: "minv ?m0" by (simp add: minv_def data_ok_def readable_def module_arrays_def i)
  have len: "0 + 1 \<le> length (mprograms ?m0)" using program_total_pos [of p] by (simp add: i)
  obtain m1 where m1: "serialize_program_shallow ?m0 = Inr (0, m1)" "after {} 1 0 0 ?m0 m1" "table_ok [0] m1"
  proof -
    from shallow_children_ok [of ?m0 1, OF inv0] len obtain m1 where
      "serialize_shallow_children 1 ?m0 = Inr ([0], m1)" "after {} 1 0 0 ?m0 m1" "table_ok [0] m1"
      by (auto simp: after_def i)
    then show ?thesis using that by (auto simp: ebind_eq_Inr)
  qed
  have "minv m1" "0 < mprogram_count m1" "entry_guid (mprograms m1 ! 0) = 0"
    using m1(2,3) by (simp_all add: after_def table_ok_def)
  moreover have "room (1 + kid_programs p) (0 + opcode_total p) (0 + data_total p) ?m0"
    using program_total_pos [of p] by (simp add: room_def i program_size_def)
  then have "room (kid_programs p) (opcode_total p) (data_total p) m1" by (rule room_after [OF _ m1(2)])
  ultimately obtain m t where
    m: "serialize_program2 H p 0 m1 = Inr m" "after {0} (kid_programs p) (opcode_total p) (data_total p) m1 m"
      "root t = 0" "ids t \<subseteq> insert 0 {mprogram_count m1..<mprogram_count m}" "represents (maddr m1) m t p"
    using serializesD [OF serializes_program [OF assms]] by metis
  have a: "after {0} (1 + kid_programs p) (opcode_total p) (data_total p) ?m0 m"
    using after_trans [OF m1(2) m(2), of "{0}"] by simp
  then have e: "ext {0} ?m0 m" and inv: "minv m" by (simp_all add: after_def)
  have counts: "mprogram_count m = program_total p" "mopcode_count m = opcode_total p"
      "mdata_offset m + HANDLEBARS_MODULE_SIZE = msize m" "msize m = HANDLEBARS_MODULE_SIZE + program_size p"
    using a program_total_pos [of p] by (auto simp: after_def ext_def i program_size_def)
  have "handlebars_program_serialize H v ts loc p = Inr m"
    using m1(1) m(1) counts
    by (simp add: handlebars_program_serialize_def calculate_size_program_eq serialize_program_def)
  moreover have "module_ok loc m"
    using e inv counts
    by (simp add: module_ok_def ext_def i minv_def opcodes_reachable_def)
  moreover have "maddr m1 = loc" using m1(2) by (simp add: after_def ext_def i)
  moreover have "ids t \<subseteq> {..<program_total p}"
    using m(4) counts program_total_pos [of p] by auto
  ultimately show ?thesis
    using m(3,5) counts e by (auto simp: ext_def i)
qed

end
