(* ===== verification/SerializerMove.thy ===== *)
theory SerializerMove
  imports SerializerRep
begin

text \<open>
  Moving a module: \<open>normalize_pointers\<close> and \<open>patch_pointers\<close> add one difference to every pointer of the
  module, those in the string arrays included, each once. So a module that is normalized, copied to another
  address and patched there represents the same program.
\<close>

section \<open>The effect on one module\<close>

fun shift_operand :: "int \<Rightarrow> moperand \<Rightarrow> moperand" where
  "shift_operand d (operand_string a) = operand_string (a + d)"
| "shift_operand d (operand_array (n, a)) = operand_array (n, a + d)"
| "shift_operand d p = p"

definition shift_opcode :: "int \<Rightarrow> mopcode \<Rightarrow> mopcode" where
  "shift_opcode d opc =
     opc\<lparr>op1 := shift_operand d (op1 opc), op2 := shift_operand d (op2 opc),
         op3 := shift_operand d (op3 opc), op4 := shift_operand d (op4 opc)\<rparr>"

text \<open>The data with the elements of the arrays at the addresses \<open>A\<close> (of a module at \<open>loc\<close>) shifted.\<close>

definition shift_data :: "int \<Rightarrow> int \<Rightarrow> int set \<Rightarrow> (nat \<Rightarrow> mobject option) \<Rightarrow> nat \<Rightarrow> mobject option" where
  "shift_data d loc A D off =
     (case D off of
        Some (Obj_array xs) \<Rightarrow> Some (Obj_array (if data_address loc off \<in> A then map (\<lambda>x. x + d) xs else xs))
      | x \<Rightarrow> x)"

abbreviation smod :: "int \<Rightarrow> int \<Rightarrow> int set \<Rightarrow> handlebars_module \<Rightarrow> handlebars_module" where
  "smod d loc A m \<equiv> m\<lparr>mdata := shift_data d loc A (mdata m)\<rparr>"

lemma shift_data_empty [simp]: "shift_data d loc {} D = D"
  by (rule ext) (simp add: shift_data_def split: option.splits mobject.splits)

lemma shift_data_insert:
  assumes "D off = Some (Obj_array xs)" "data_address loc off \<notin> A"
  shows "(shift_data d loc A D)(off \<mapsto> Obj_array (map (\<lambda>x. x + d) xs)) =
     shift_data d loc (insert (data_address loc off) A) D"
  by (rule ext) (use assms in \<open>auto simp: shift_data_def split: option.splits mobject.splits\<close>)

text \<open>One operand of a readable opcode, through either function.\<close>

lemma patch_array_elements_shift:
  assumes "read_operand loc m (operand_array (n, a)) = Some v" "set (operand_arrays (operand_array (n, a))) \<inter> A = {}"
    and "maddr m = loc" "data_index l b = data_index loc a"
  shows "patch_array_elements l (loc + d) n b (smod d loc A m) =
     Inr (smod d loc (A \<union> set (operand_arrays (operand_array (n, a)))) m)"
proof (cases "n = 0")
  case True
  then show ?thesis by (simp add: patch_array_elements_def)
next
  case False
  with assms(1) obtain xs where xs: "mderef loc m a = Some (Obj_array xs)" "length xs = n"
    by (auto split: option.splits mobject.splits if_splits)
  then obtain off where off: "a = data_address loc off" "mdata m off = Some (Obj_array xs)"
    by (blast dest: mderef_SomeD)
  have new: "data_address loc off \<notin> A" using assms(2) False by (simp add: off(1))
  then have "shift_data d loc A (mdata m) off = Some (Obj_array xs)" using off(2) by (simp add: shift_data_def)
  moreover have "data_index l b = Some off" using assms(4) by (simp add: off(1))
  moreover have "PATCH (smod d loc A m) (loc + d) = (\<lambda>x. x + d)" using assms(3) by (simp add: PATCH_def fun_eq_iff)
  moreover have "(shift_data d loc A (mdata m))(off \<mapsto> Obj_array (map (\<lambda>x. x + d) xs)) =
      shift_data d loc (insert a A) (mdata m)"
    using shift_data_insert [where D = "mdata m", OF off(2) new] by (simp add: off(1))
  ultimately show ?thesis
    using False xs(2) by (simp add: patch_array_elements_def)
qed

lemma data_index_shift: "data_index (loc + d) (a + d) = data_index loc a"
  by (auto simp: data_index_def)

definition shifts :: "(moperand \<Rightarrow> handlebars_module \<Rightarrow> hbs_error + moperand \<times> handlebars_module) \<Rightarrow> int \<Rightarrow> int \<Rightarrow> bool" where
  "shifts f loc d \<longleftrightarrow>
     (\<forall>m p v A. maddr m = loc \<and> read_operand loc m p = Some v \<and> set (operand_arrays p) \<inter> A = {} \<longrightarrow>
        f p (smod d loc A m) = Inr (shift_operand d p, smod d loc (A \<union> set (operand_arrays p)) m))"

lemma normalize_shifts: "shifts (normalize_operand loc (loc + d)) loc d"
  unfolding shifts_def
proof (intro allI impI, elim conjE)
  fix m p v A
  assume a: "maddr m = loc" "read_operand loc m p = Some v" "set (operand_arrays p) \<inter> A = {}"
  show "normalize_operand loc (loc + d) p (smod d loc A m) =
      Inr (shift_operand d p, smod d loc (A \<union> set (operand_arrays p)) m)"
  proof (cases p)
    case (operand_array na)
    obtain n b where na: "na = (n, b)" by (cases na)
    show ?thesis
      using patch_array_elements_shift [of loc m n b v A loc b d] a
      by (simp add: normalize_operand_def PATCH_def operand_array na)
  qed (use a(1) in \<open>simp_all add: normalize_operand_def PATCH_def\<close>)
qed

lemma patch_shifts: "shifts (patch_operand (loc + d)) loc d"
  unfolding shifts_def
proof (intro allI impI, elim conjE)
  fix m p v A
  assume a: "maddr m = loc" "read_operand loc m p = Some v" "set (operand_arrays p) \<inter> A = {}"
  show "patch_operand (loc + d) p (smod d loc A m) =
      Inr (shift_operand d p, smod d loc (A \<union> set (operand_arrays p)) m)"
  proof (cases p)
    case (operand_array na)
    obtain n b where na: "na = (n, b)" by (cases na)
    show ?thesis
      using patch_array_elements_shift [of loc m n b v A "loc + d" "b + d" d] a
      by (simp add: patch_operand_def PATCH_def operand_array na data_index_shift)
  qed (use a(1) in \<open>simp_all add: patch_operand_def PATCH_def\<close>)
qed

section \<open>The loops over the opcodes\<close>

lemma relocate_opcode_shift:
  assumes "shifts f loc d" "maddr m = loc" "i < length (mopcodes m)"
    and "read_opcode loc m (mopcodes m ! i) = Some v"
    and "distinct (opcode_arrays (mopcodes m ! i))" "set (opcode_arrays (mopcodes m ! i)) \<inter> A = {}"
  shows "relocate_opcode f i (smod d loc A m) =
     Inr (smod d loc (A \<union> set (opcode_arrays (mopcodes m ! i)))
            (m\<lparr>mopcodes := (mopcodes m)[i := shift_opcode d (mopcodes m ! i)]\<rparr>))"
proof -
  let ?o = "mopcodes m ! i"
  obtain v1 v2 v3 v4 where r: "read_operand loc m (op1 ?o) = Some v1" "read_operand loc m (op2 ?o) = Some v2"
      "read_operand loc m (op3 ?o) = Some v3" "read_operand loc m (op4 ?o) = Some v4"
    using assms(4) by (auto simp: read_opcode_def split: option.splits)
  have f: "f p (smod d loc B m) = Inr (shift_operand d p, smod d loc (B \<union> set (operand_arrays p)) m)"
    if "read_operand loc m p = Some w" "set (operand_arrays p) \<inter> B = {}" for p w B
    using assms(1,2) that unfolding shifts_def by blast
  let ?A = "\<lambda>p. set (operand_arrays p)"
  have "f (op1 ?o) (smod d loc A m) = Inr (shift_operand d (op1 ?o), smod d loc (A \<union> ?A (op1 ?o)) m)"
    using assms(5,6) by (intro f [OF r(1)]) (auto simp: opcode_arrays_def)
  moreover have "f (op2 ?o) (smod d loc (A \<union> ?A (op1 ?o)) m) =
      Inr (shift_operand d (op2 ?o), smod d loc (A \<union> ?A (op1 ?o) \<union> ?A (op2 ?o)) m)"
    using assms(5,6) by (intro f [OF r(2)]) (auto simp: opcode_arrays_def)
  moreover have "f (op3 ?o) (smod d loc (A \<union> ?A (op1 ?o) \<union> ?A (op2 ?o)) m) =
      Inr (shift_operand d (op3 ?o), smod d loc (A \<union> ?A (op1 ?o) \<union> ?A (op2 ?o) \<union> ?A (op3 ?o)) m)"
    using assms(5,6) by (intro f [OF r(3)]) (auto simp: opcode_arrays_def)
  moreover have "f (op4 ?o) (smod d loc (A \<union> ?A (op1 ?o) \<union> ?A (op2 ?o) \<union> ?A (op3 ?o)) m) =
      Inr (shift_operand d (op4 ?o), smod d loc (A \<union> ?A (op1 ?o) \<union> ?A (op2 ?o) \<union> ?A (op3 ?o) \<union> ?A (op4 ?o)) m)"
    using assms(5,6) by (intro f [OF r(4)]) (auto simp: opcode_arrays_def)
  moreover have "A \<union> ?A (op1 ?o) \<union> ?A (op2 ?o) \<union> ?A (op3 ?o) \<union> ?A (op4 ?o) = A \<union> set (opcode_arrays ?o)"
    by (auto simp: opcode_arrays_def)
  ultimately show ?thesis
    using assms(3) by (simp add: relocate_opcode_def shift_opcode_def Un_assoc Let_def)
qed

definition arrays_upto :: "nat \<Rightarrow> handlebars_module \<Rightarrow> int list" where
  "arrays_upto n m = concat (map opcode_arrays (take n (mopcodes m)))"

lemma relocate_loop:
  assumes "shifts f loc d" "maddr m = loc" "n \<le> length (mopcodes m)"
    and "\<forall>i < n. \<exists>v. read_opcode loc m (mopcodes m ! i) = Some v" "distinct (arrays_upto n m)"
  shows "efold (relocate_opcode f) [0..<n] m =
     Inr (smod d loc (set (arrays_upto n m))
            (m\<lparr>mopcodes := map (shift_opcode d) (take n (mopcodes m)) @ drop n (mopcodes m)\<rparr>))"
  using assms(3-5)
proof (induction n)
  case 0
  then show ?case by (simp add: arrays_upto_def)
next
  case (Suc n)
  let ?o = "mopcodes m ! n"
  let ?m = "m\<lparr>mopcodes := map (shift_opcode d) (take n (mopcodes m)) @ drop n (mopcodes m)\<rparr>"
  have arr: "arrays_upto (Suc n) m = arrays_upto n m @ opcode_arrays ?o"
    using Suc.prems(1) by (simp add: arrays_upto_def take_Suc_conv_app_nth)
  have IH: "efold (relocate_opcode f) [0..<n] m = Inr (smod d loc (set (arrays_upto n m)) ?m)"
    using Suc arr by simp
  have o: "mopcodes ?m ! n = ?o" using Suc.prems(1) by (simp add: nth_append)
  obtain v where "read_opcode loc m ?o = Some v" using Suc.prems(2) by blast
  then have v: "read_opcode loc ?m (mopcodes ?m ! n) = Some v"
    unfolding o by (rule read_opcode_cong [of m ?m, rotated]) simp
  have "relocate_opcode f n (smod d loc (set (arrays_upto n m)) ?m) =
     Inr (smod d loc (set (arrays_upto n m) \<union> set (opcode_arrays ?o))
            (?m\<lparr>mopcodes := (mopcodes ?m)[n := shift_opcode d ?o]\<rparr>))"
    using relocate_opcode_shift [OF assms(1) _ _ v, of "set (arrays_upto n m)"] Suc.prems(1,3) assms(2) arr
    unfolding o by auto
  moreover have "(mopcodes ?m)[n := shift_opcode d ?o] =
      map (shift_opcode d) (take (Suc n) (mopcodes m)) @ drop (Suc n) (mopcodes m)"
    using Suc.prems(1) by (simp add: list_update_append take_Suc_conv_app_nth Cons_nth_drop_Suc [symmetric])
  ultimately show ?case
    unfolding upt_Suc_append [OF le0] efold_append IH arr by simp
qed

section \<open>A whole module\<close>

definition moved :: "int \<Rightarrow> handlebars_module \<Rightarrow> handlebars_module" where
  "moved d m =
     m\<lparr>maddr := maddr m + d, mprograms_ptr := mprograms_ptr m + d, mopcodes_ptr := mopcodes_ptr m + d,
       mopcodes := map (shift_opcode d) (mopcodes m),
       mdata := shift_data d (maddr m) (set (module_arrays m)) (mdata m)\<rparr>"

lemma module_ok_arrays:
  "module_ok loc m \<Longrightarrow> arrays_upto (mopcode_count m) m = module_arrays m"
  "module_ok loc m \<Longrightarrow> distinct (module_arrays m)"
  by (auto simp: module_ok_def arrays_upto_def module_arrays_def dest: between_distinct)

lemma normalize_pointers_moved:
  assumes "module_ok loc m"
  shows "handlebars_module_normalize_pointers loc base m = Inr (if base = loc then m else moved (base - loc) m)"
proof (cases "base = loc")
  case True
  with assms show ?thesis by (simp add: handlebars_module_normalize_pointers_def module_ok_def)
next
  case False
  let ?d = "base - loc" and ?n = "mopcode_count m"
  have m: "maddr m = loc" "?n = length (mopcodes m)" "opcodes_reachable loc m"
      "\<forall>i < ?n. \<exists>v. read_opcode loc m (mopcodes m ! i) = Some v"
    using assms by (auto simp: module_ok_def readable_def)
  have d: "distinct (arrays_upto ?n m)" using module_ok_arrays [OF assms] by simp
  have f: "shifts (normalize_operand loc base) loc ?d" using normalize_shifts [of loc ?d] by simp
  have "efold (relocate_opcode (normalize_operand loc base)) [0..<?n] m =
      Inr (smod ?d loc (set (module_arrays m)) (m\<lparr>mopcodes := map (shift_opcode ?d) (mopcodes m)\<rparr>))"
    using relocate_loop [OF f m(1) _ m(4) d] m(2) module_ok_arrays(1) [OF assms] by simp
  then show ?thesis
    using False m(1,3) by (simp add: handlebars_module_normalize_pointers_def patch_table_pointers_def PATCH_def moved_def
        algebra_simps)
qed

lemma patch_pointers_moved:
  assumes "module_ok loc m"
  shows "handlebars_module_patch_pointers new m = Inr (if new = loc then m else moved (new - loc) m)"
proof (cases "new = loc")
  case True
  with assms show ?thesis by (simp add: handlebars_module_patch_pointers_def module_ok_def)
next
  case False
  let ?d = "new - loc" and ?n = "mopcode_count m" and ?m = "patch_table_pointers new m"
  have m: "maddr m = loc" "?n = length (mopcodes m)" "opcodes_reachable loc m"
      "\<And>i. i < ?n \<Longrightarrow> \<exists>v. read_opcode loc m (mopcodes m ! i) = Some v"
    using assms by (auto simp: module_ok_def readable_def)
  have p: "maddr ?m = loc" "mopcode_count ?m = ?n" "mopcodes ?m = mopcodes m" "mdata ?m = mdata m"
    using m(1) by (simp_all add: patch_table_pointers_def)
  have r: "\<forall>i < ?n. \<exists>v. read_opcode loc ?m (mopcodes ?m ! i) = Some v"
    using m(4) read_opcode_cong [of m ?m] p(3,4) by metis
  have am: "arrays_upto ?n ?m = module_arrays m"
    by (simp add: arrays_upto_def module_arrays_def p(3))
  have d: "distinct (arrays_upto ?n ?m)" using module_ok_arrays [OF assms] by (simp add: am)
  have f: "shifts (patch_operand new) loc ?d" using patch_shifts [of loc ?d] by simp
  have loop: "efold (relocate_opcode (patch_operand new)) [0..<?n] ?m =
      Inr (smod ?d loc (set (module_arrays m)) (?m\<lparr>mopcodes := map (shift_opcode ?d) (mopcodes m)\<rparr>))"
  proof -
    have n: "?n \<le> length (mopcodes ?m)" using m(2) by (simp add: p(3))
    show ?thesis using relocate_loop [OF f p(1) n r d] unfolding am p(3) using m(2) by simp
  qed
  have "opcodes_reachable new ?m"
    using m(1,3) by (simp add: opcodes_reachable_def patch_table_pointers_def PATCH_def data_address_def)
  then show ?thesis
    using False m(1) loop
    by (simp add: handlebars_module_patch_pointers_def p(2), simp add: patch_table_pointers_def PATCH_def moved_def algebra_simps)
qed

section \<open>The moved module reads the same\<close>

lemma data_address_shift: "data_address (loc + d) off = data_address loc off + d"
  by (simp add: data_address_def)

lemma mdata_moved: "mdata (moved d m) = shift_data d (maddr m) (set (module_arrays m)) (mdata m)"
  by (simp add: moved_def)

lemma read_string_moved:
  assumes "maddr m = loc" "read_string loc m a = Some s"
  shows "read_string (loc + d) (moved d m) (a + d) = Some s"
proof -
  obtain off x where x: "a = data_address loc off" "mdata m off = Some (Obj_string x)"
      and s: "(if src x = 255 \<and> str_ok x then Some (sval x) else None) = Some s"
    using assms(2) by (auto simp: read_string_def split: option.splits mobject.splits dest!: mderef_SomeD)
  have "mdata (moved d m) off = Some (Obj_string x)"
    using x(2) by (simp add: mdata_moved shift_data_def)
  then show ?thesis
    using s by (simp add: read_string_def x(1) data_address_shift [symmetric])
qed

lemma read_operand_moved:
  assumes "maddr m = loc" "read_operand loc m p = Some v" "set (operand_arrays p) \<subseteq> set (module_arrays m)"
  shows "read_operand (loc + d) (moved d m) (shift_operand d p) = Some v"
proof (cases p)
  case (operand_string a)
  with assms(2) read_string_moved [OF assms(1)] show ?thesis by auto
next
  case (operand_array na)
  obtain n a where na: "na = (n, a)" by (cases na)
  show ?thesis
  proof (cases "n = 0")
    case False
    with assms(2) operand_array na obtain xs ss where xs: "mderef loc m a = Some (Obj_array xs)" "length xs = n"
        and ss: "those (map (read_string loc m) xs) = Some ss" "v = operand_array ss"
      by (auto split: option.splits mobject.splits if_splits)
    obtain off where off: "a = data_address loc off" "mdata m off = Some (Obj_array xs)"
      using xs(1) by (blast dest: mderef_SomeD)
    have "a \<in> set (module_arrays m)" using assms(3) operand_array na False by simp
    then have "mdata (moved d m) off = Some (Obj_array (map (\<lambda>x. x + d) xs))"
      using off assms(1) by (simp add: mdata_moved shift_data_def)
    then have "mderef (loc + d) (moved d m) (a + d) = Some (Obj_array (map (\<lambda>x. x + d) xs))"
      by (simp add: off(1) data_address_shift [symmetric])
    moreover have "those (map (\<lambda>x. read_string (loc + d) (moved d m) (x + d)) xs) = Some ss"
      by (rule those_mono [OF read_string_moved [OF assms(1)] ss(1)])
    ultimately show ?thesis
      using False operand_array na xs(2) ss(2) by (simp add: o_def)
  qed (use assms(2) operand_array na in simp)
qed (use assms in auto)

lemma read_opcode_moved:
  assumes "maddr m = loc" "read_opcode loc m opc = Some v" "set (opcode_arrays opc) \<subseteq> set (module_arrays m)"
  shows "read_opcode (loc + d) (moved d m) (shift_opcode d opc) = Some v"
proof -
  have sub: "set (operand_arrays (op1 opc)) \<subseteq> set (module_arrays m)" "set (operand_arrays (op2 opc)) \<subseteq> set (module_arrays m)"
    "set (operand_arrays (op3 opc)) \<subseteq> set (module_arrays m)" "set (operand_arrays (op4 opc)) \<subseteq> set (module_arrays m)"
    using assms(3) by (auto simp: opcode_arrays_def)
  show ?thesis
    using assms(2) read_operand_moved [OF assms(1) _ sub(1)] read_operand_moved [OF assms(1) _ sub(2)]
      read_operand_moved [OF assms(1) _ sub(3)] read_operand_moved [OF assms(1) _ sub(4)]
    by (auto simp: read_opcode_def shift_opcode_def split: option.splits)
qed

lemma module_arrays_sub:
  "i < mopcode_count m \<Longrightarrow> i < length (mopcodes m) \<Longrightarrow> set (opcode_arrays (mopcodes m ! i)) \<subseteq> set (module_arrays m)"
  by (fastforce simp: module_arrays_def in_set_conv_nth)

lemma operand_arrays_shift: "operand_arrays (shift_operand d p) = map (\<lambda>a. a + d) (operand_arrays p)"
  by (induction p rule: operand_arrays.induct) auto

lemma opcode_arrays_shift: "opcode_arrays (shift_opcode d opc) = map (\<lambda>a. a + d) (opcode_arrays opc)"
  by (simp add: opcode_arrays_def shift_opcode_def operand_arrays_shift)

lemma module_arrays_moved: "module_arrays (moved d m) = map (\<lambda>a. a + d) (module_arrays m)"
  by (simp add: module_arrays_def moved_def take_map opcode_arrays_shift map_concat o_def)

lemma moved_read:
  assumes "module_ok loc m" "i < mopcode_count m" "read_opcode loc m (mopcodes m ! i) = Some v"
  shows "read_opcode (loc + d) (moved d m) (mopcodes (moved d m) ! i) = Some v"
proof -
  have "maddr m = loc" "i < length (mopcodes m)" using assms(1,2) by (simp_all add: module_ok_def)
  with read_opcode_moved [OF this(1) assms(3) module_arrays_sub] assms(2) show ?thesis by (simp add: moved_def)
qed

lemma moved_ok:
  assumes "module_ok loc m"
  shows "module_ok (loc + d) (moved d m)"
proof -
  have b: "between loc 0 (mdata_offset m) (module_arrays m)" using assms by (simp add: module_ok_def)
  have "between (loc + d) 0 (mdata_offset (moved d m)) (module_arrays (moved d m))"
    unfolding module_arrays_moved using b by (auto simp: between_def sorted_wrt_map data_address_def moved_def)
  moreover have "readable (moved d m)"
    unfolding readable_def
  proof (intro allI impI)
    fix i assume "i < mopcode_count (moved d m)"
    then have i: "i < mopcode_count m" by (simp add: moved_def)
    then obtain v where "read_opcode loc m (mopcodes m ! i) = Some v"
      using assms by (auto simp: module_ok_def readable_def)
    from moved_read [OF assms i this] show "\<exists>v. read_opcode (maddr (moved d m)) (moved d m) (mopcodes (moved d m) ! i) = Some v"
      using assms by (auto simp: moved_def module_ok_def)
  qed
  ultimately show ?thesis
    using assms by (simp add: module_ok_def moved_def opcodes_reachable_def data_address_def algebra_simps)
qed

lemma moved_simps:
  "mprograms (moved d m) = mprograms m" "mprogram_count (moved d m) = mprogram_count m"
  "mopcode_count (moved d m) = mopcode_count m" "maddr (moved d m) = maddr m + d"
  by (simp_all add: moved_def)

lemma moved_represents:
  assumes "module_ok loc m"
  shows "represents loc m t p \<Longrightarrow> represents (loc + d) (moved d m) t p"
  using assms
proof (induction loc m t p rule: represents.induct)
  case (1 loc m i ts g fl rf bp opcs kids decs)
  have "entry_represents loc m i (map root ts) opcs" using "1.prems"(1) by simp
  then have "entry_represents (loc + d) (moved d m) i (map root ts) opcs"
    using moved_read [OF "1.prems"(2)] by (simp add: entry_represents_def Let_def moved_simps)
  moreover have "represents (loc + d) (moved d m) t k" if "(t, k) \<in> set (zip ts kids)" for t k
    using "1.IH" [OF that refl _ "1.prems"(2)] "1.prems"(1) that by auto
  ultimately show ?case using "1.prems"(1) by auto
qed

lemma shift_operand_back: "shift_operand (- d) (shift_operand d p) = p"
  by (induction d p rule: shift_operand.induct) auto

lemma shift_opcode_back: "shift_opcode (- d) (shift_opcode d opc) = opc"
  by (simp add: shift_opcode_def shift_operand_back)

lemma moved_back: "moved (- d) (moved d m) = m"
proof -
  have "shift_data (- d) (maddr m + d) ((\<lambda>a. a + d) ` set (module_arrays m))
      (shift_data d (maddr m) (set (module_arrays m)) (mdata m)) = mdata m"
    by (rule ext)
      (auto simp: shift_data_def data_address_shift inj_image_mem_iff [of "\<lambda>a. a + d"] inj_def o_def
        split: option.splits mobject.splits)
  moreover have "map (shift_opcode (- d)) (map (shift_opcode d) (mopcodes m)) = mopcodes m"
    by (simp add: o_def shift_opcode_back)
  moreover have "set (module_arrays (moved d m)) = (\<lambda>a. a + d) ` set (module_arrays m)"
    by (simp add: module_arrays_moved)
  ultimately show ?thesis
    by (cases m) (simp add: moved_def [of "- d"] mdata_moved moved_simps, simp add: moved_def)
qed

text \<open>A module at \<open>loc\<close>, normalized to \<open>base\<close>, copied and patched at \<open>new\<close>.\<close>

lemma relocated:
  assumes "module_ok loc m" "represents loc m t p"
  shows "\<exists>m1 m2. handlebars_module_normalize_pointers loc base m = Inr m1 \<and>
     handlebars_module_patch_pointers new m1 = Inr m2 \<and> maddr m2 = new \<and> represents new m2 t p"
proof -
  define m1 where "m1 = (if base = loc then m else moved (base - loc) m)"
  have m1: "handlebars_module_normalize_pointers loc base m = Inr m1" "module_ok base m1" "represents base m1 t p"
    using normalize_pointers_moved [OF assms(1)] moved_ok [OF assms(1), of "base - loc"]
      moved_represents [OF assms, of "base - loc"] assms
    by (auto simp: m1_def)
  define m2 where "m2 = (if new = base then m1 else moved (new - base) m1)"
  have "handlebars_module_patch_pointers new m1 = Inr m2" "module_ok new m2" "represents new m2 t p"
    using patch_pointers_moved [OF m1(2)] moved_ok [OF m1(2), of "new - base"] moved_represents [OF m1(2,3), of "new - base"] m1(2,3)
    by (auto simp: m2_def)
  then show ?thesis using m1(1) by (auto simp: module_ok_def)
qed

section \<open>Properties\<close>

text \<open>A program with two children, each with strings.\<close>

definition sample_program :: handlebars_program where
  "sample_program =
     handlebars_program 0 0 0 0
       [(handlebars_opcode_ctor handlebars_opcode_type_push_program)\<lparr>op1 := operand_long 1\<rparr>,
        (handlebars_opcode_ctor handlebars_opcode_type_push_id)
          \<lparr>op1 := handlebars_operand_set_stringval (handlebars_string_ctor ''foo''),
           op2 := handlebars_operand_set_arrayval [''a'', ''bc'']\<rparr>]
       [handlebars_program 1 0 0 0 [] [handlebars_program 2 0 0 0 [] [] []] [],
        handlebars_program 3 0 0 0 [(handlebars_opcode_ctor handlebars_opcode_type_append)] [] []]
       []"

lemma sample_wf: "wf_program sample_program"
  by (simp add: sample_program_def wf_opcode_def operand_type_null_def)

text \<open>C12. Serializing a program never writes outside the block that the first pass measures, fills it exactly, and
  yields a module from which the program can be read back: every program has a table entry with its own
  opcodes, the strings are immortal copies, and \<open>pushProgram\<close> names the table entry of the child.\<close>
theorem serialize_represents:
  assumes "wf_program p"
  shows "\<exists>m t. handlebars_program_serialize H v ts loc p = Inr m \<and> root t = 0 \<and> represents loc m t p \<and>
     msize m = HANDLEBARS_MODULE_SIZE + fst (calculate_size_program p) \<and>
     mdata_offset m + HANDLEBARS_MODULE_SIZE = msize m"
  using program_serialize_ok [OF assms, of H v ts loc]
  by (auto simp: calculate_size_program_eq program_size_def module_ok_def)

text \<open>The property for the sample program.\<close>
theorem serialize_represents_witness:
  "\<exists>m t. handlebars_program_serialize (\<lambda>_. 1) 1000 0 4096 sample_program = Inr m \<and> root t = 0 \<and>
     represents 4096 m t sample_program \<and> msize m = 96 + 1048"
proof -
  have "fst (calculate_size_program sample_program) = 1048"
    by (simp add: sample_program_def calculate_size_opcode_def HANDLEBARS_OPCODE_SIZE_def
        HANDLEBARS_MODULE_TABLE_ENTRY_SIZE_def HBS_STR_SIZE_def HANDLEBARS_STRING_SIZE_def POINTER_SIZE_def
        hbs_str_len_def handlebars_align_size_def handlebars_operand_set_stringval_def handlebars_operand_set_arrayval_def)
  then show ?thesis
    using serialize_represents [OF sample_wf, of "\<lambda>_. 1" 1000 0 4096] by (auto simp: HANDLEBARS_MODULE_SIZE_def)
qed

text \<open>C13. A serialized module that is normalized to any base address, copied to any other address and patched
  there represents the program it was made from: every pointer is adjusted exactly once.\<close>
theorem module_relocation:
  assumes "wf_program p"
  shows "\<exists>m m1 m2 t. handlebars_program_serialize H v ts loc p = Inr m \<and>
     handlebars_module_normalize_pointers loc base m = Inr m1 \<and>
     handlebars_module_patch_pointers new m1 = Inr m2 \<and> maddr m2 = new \<and> root t = 0 \<and> represents new m2 t p"
proof -
  obtain m t where m: "handlebars_program_serialize H v ts loc p = Inr m" "module_ok loc m" "root t = 0" "represents loc m t p"
    using program_serialize_ok [OF assms] by blast
  then show ?thesis using relocated [OF m(2,4), of base new] by blast
qed

text \<open>The property for the sample program, normalized to the address 0.\<close>
theorem module_relocation_witness:
  "\<exists>m m1 m2 t. handlebars_program_serialize (\<lambda>_. 1) 1000 0 4096 sample_program = Inr m \<and>
     handlebars_module_normalize_pointers 4096 0 m = Inr m1 \<and>
     handlebars_module_patch_pointers 65536 m1 = Inr m2 \<and> maddr m2 = 65536 \<and> root t = 0 \<and>
     represents 65536 m2 t sample_program"
  by (rule module_relocation [OF sample_wf])

text \<open>C37. Patching undoes normalizing: at the address it came from the module is the one it was, field by field.\<close>
theorem normalize_patch_roundtrip:
  assumes "module_ok loc m"
  shows "\<exists>m1. handlebars_module_normalize_pointers loc base m = Inr m1 \<and> handlebars_module_patch_pointers loc m1 = Inr m"
proof (cases "base = loc")
  case True
  then show ?thesis
    using normalize_pointers_moved [OF assms] patch_pointers_moved [OF assms] by simp
next
  case False
  have "module_ok base (moved (base - loc) m)" using moved_ok [OF assms, of "base - loc"] by simp
  from patch_pointers_moved [OF this, of loc] False
  have "handlebars_module_patch_pointers loc (moved (base - loc) m) = Inr m"
    using moved_back [of "base - loc" m] by simp
  with normalize_pointers_moved [OF assms, of base] False show ?thesis by simp
qed

text \<open>The property at the module of the sample program.\<close>
theorem normalize_patch_roundtrip_witness:
  "\<exists>m m1. handlebars_program_serialize (\<lambda>_. 1) 1000 0 4096 sample_program = Inr m \<and>
     handlebars_module_normalize_pointers 4096 0 m = Inr m1 \<and> handlebars_module_patch_pointers 4096 m1 = Inr m"
  using program_serialize_ok [OF sample_wf, of "\<lambda>_. 1" 1000 0 4096] normalize_patch_roundtrip [of 4096 _ 0] by blast

text \<open>A module passes verification after its hash was generated, under the version it was made with; a module
  that differs from it in anything but the hash field fails, unless the hash function collides, by an
  exception if a context is given and by \<open>false\<close> otherwise.\<close>
theorem module_verify_correct:
  assumes "m' \<noteq> handlebars_module_generate_hash X m" "mhash m' = calculate_hash X m"
    and "X (m'\<lparr>mhash := 0\<rparr>) = X (m\<lparr>mhash := 0\<rparr>) \<longrightarrow> m'\<lparr>mhash := 0\<rparr> = m\<lparr>mhash := 0\<rparr>"
  shows "handlebars_module_verify X (mversion m) (handlebars_module_generate_hash X m) throws = Inr True \<and>
     handlebars_module_verify X v m' False = Inr False \<and>
     (\<exists>msg. handlebars_module_verify X v m' True = Inl (Throw HANDLEBARS_ERROR msg))"
proof -
  have "calculate_hash X m' \<noteq> mhash m'"
  proof
    assume "calculate_hash X m' = mhash m'"
    then have "m'\<lparr>mhash := 0\<rparr> = m\<lparr>mhash := 0\<rparr>" using assms(2,3) by (simp add: calculate_hash_def)
    then have "m'\<lparr>mhash := 0, mhash := mhash m'\<rparr> = m\<lparr>mhash := 0, mhash := mhash m'\<rparr>" by simp
    moreover have "m'\<lparr>mhash := 0, mhash := mhash m'\<rparr> = m'" by (cases m') simp
    ultimately show False using assms(1,2) by (simp add: handlebars_module_generate_hash_def)
  qed
  then show ?thesis
    by (simp add: handlebars_module_verify_def handlebars_module_generate_hash_def calculate_hash_def)
qed

text \<open>The property at an empty module and one with another time stamp.\<close>
theorem module_verify_correct_witness:
  "\<exists>m m'. handlebars_module_verify (\<lambda>m. of_int (mts m)) (mversion m) m True = Inr True \<and>
     handlebars_module_verify (\<lambda>m. of_int (mts m)) (mversion m) m' False = Inr False"
proof -
  let ?X = "\<lambda>m. of_int (mts m) :: u64" and ?m = "module_init 1000 1 4096 sample_program"
  let ?m' = "?m\<lparr>mts := 2, mhash := 1\<rparr>"
  have "mts ?m' \<noteq> mts (handlebars_module_generate_hash ?X ?m)"
    by (simp add: handlebars_module_generate_hash_def module_init_simps)
  then have "?m' \<noteq> handlebars_module_generate_hash ?X ?m" by metis
  moreover have "mhash ?m' = calculate_hash ?X ?m" "?X (?m'\<lparr>mhash := 0\<rparr>) \<noteq> ?X (?m\<lparr>mhash := 0\<rparr>)"
    by (simp_all add: calculate_hash_def module_init_simps)
  ultimately have "handlebars_module_verify ?X (mversion ?m) (handlebars_module_generate_hash ?X ?m) True = Inr True \<and>
      handlebars_module_verify ?X (mversion ?m) ?m' False = Inr False"
    using module_verify_correct [of ?m' ?X ?m True "mversion ?m"] by blast
  moreover have "mversion (handlebars_module_generate_hash ?X ?m) = mversion ?m"
    by (simp add: handlebars_module_generate_hash_def)
  ultimately show ?thesis by metis
qed

end
