(* ===== verification/CNumbers.thy ===== *)
theory CNumbers
  imports Prelude
begin

text \<open>
  The conversions of the C library between numbers and text, in the C locale: \<open>%ld\<close> and \<open>%zu\<close> of \<open>printf\<close>,
  \<open>strtol\<close> in base 10, \<open>sscanf\<close> with \<open>%10ld\<close>, and what the code asks of \<open>strtod\<close>: whether the double it
  returns equals a \<open>long\<close>. An argument is the bytes before the terminator.
\<close>

section \<open>Printing\<close>

fun show_nat :: "nat \<Rightarrow> string" where
  "show_nat n = (if n < 10 then [char_of (48 + n)] else show_nat (n div 10) @ [char_of (48 + n mod 10)])"

declare show_nat.simps [simp del]

definition show_int :: "int \<Rightarrow> string" where
  "show_int i = (if i < 0 then CHR ''-'' # show_nat (nat (- i)) else show_nat (nat i))"

section \<open>Reading integers\<close>

definition c_isspace :: "char \<Rightarrow> bool" where
  "c_isspace c \<longleftrightarrow> (let n = of_char c :: nat in (9 \<le> n \<and> n \<le> 13) \<or> n = 32)"

definition c_isdigit :: "char \<Rightarrow> bool" where
  "c_isdigit c \<longleftrightarrow> (let n = of_char c :: nat in 48 \<le> n \<and> n \<le> 57)"

definition digits_value :: "string \<Rightarrow> nat" where
  "digits_value ds = fold (\<lambda>c a. a * 10 + (of_char c - 48)) ds 0"

definition split_sign :: "string \<Rightarrow> bool \<times> string" where
  "split_sign s =
     (case s of [] \<Rightarrow> (False, [])
      | c # cs \<Rightarrow> if c = CHR ''-'' then (True, cs) else if c = CHR ''+'' then (False, cs) else (False, s))"

text \<open>A value out of range is clamped.\<close>

definition strtol10 :: "string \<Rightarrow> int" where
  "strtol10 s =
     (let (neg, t) = split_sign (dropWhile c_isspace s);
          v = int (digits_value (takeWhile c_isdigit t))
      in if neg then max (- (2 ^ 63)) (- v) else min (2 ^ 63 - 1) v)"

text \<open>\<open>None\<close>: no conversion, the variable keeps its value.\<close>

definition sscanf_10ld :: "string \<Rightarrow> int option" where
  "sscanf_10ld s =
     (let u = take 10 (dropWhile c_isspace s); (neg, t) = split_sign u
      in if takeWhile c_isdigit t = [] then None else Some (strtol10 u))"

section \<open>Reading doubles\<close>

text \<open>
  The number a text of digits, fraction and exponent denotes: its sign, numerator and denominator.
\<close>

definition exponent_of :: "string \<Rightarrow> int" where
  "exponent_of s =
     (case s of [] \<Rightarrow> 0
      | c # cs \<Rightarrow>
          if c = CHR ''e'' \<or> c = CHR ''E''
          then (let (neg, t) = split_sign cs; v = int (digits_value (takeWhile c_isdigit t)) in if neg then - v else v)
          else 0)"

definition decimal_value :: "string \<Rightarrow> bool \<times> nat \<times> nat" where
  "decimal_value s =
     (let (neg, t) = split_sign (dropWhile c_isspace s);
          ip = takeWhile c_isdigit t; r = dropWhile c_isdigit t;
          (fp, r') = (case r of [] \<Rightarrow> ([], [])
             | c # cs \<Rightarrow> if c = CHR ''.'' then (takeWhile c_isdigit cs, dropWhile c_isdigit cs) else ([], r));
          e = exponent_of r' - int (length fp); m = digits_value (ip @ fp)
      in if e \<ge> 0 then (neg, m * 10 ^ nat e, 1) else (neg, m, 10 ^ nat (- e)))"

text \<open>
  The binary64 nearest to \<open>n / d \<ge> 1\<close>, ties to even, as its 53-bit significand and the number of bits before
  the point.
\<close>

fun bit_length :: "nat \<Rightarrow> nat" where
  "bit_length n = (if n = 0 then 0 else Suc (bit_length (n div 2)))"

declare bit_length.simps [simp del]

definition round_half_even :: "nat \<Rightarrow> nat \<Rightarrow> nat" where
  "round_half_even a b =
     (let q = a div b; r = a mod b in if 2 * r > b \<or> (2 * r = b \<and> odd q) then q + 1 else q)"

definition double_parts :: "nat \<Rightarrow> nat \<Rightarrow> nat \<times> nat" where
  "double_parts n d =
     (let b = bit_length (n div d);
          m = (if b \<le> 53 then round_half_even (n * 2 ^ (53 - b)) d else round_half_even n (d * 2 ^ (b - 53)))
      in if m = 2 ^ 53 then (2 ^ 52, b + 1) else (m, b))"

text \<open>
  \<open>fv \<noteq> 0 \<and> lv \<noteq> 0 \<and> fv = (double) lv\<close> for \<open>fv = strtod(s)\<close> and \<open>lv = strtol(s)\<close>. When \<open>lv \<noteq> 0\<close> the text begins
  with decimal digits, so \<open>strtod\<close> reads no hexadecimal number, infinity or NaN.
\<close>

definition number_is_long :: "string \<Rightarrow> bool" where
  "number_is_long s =
     (let lv = strtol10 s; (neg, n, d) = decimal_value s
      in lv \<noteq> 0 \<and> (lv < 0) = neg \<and> n \<ge> d \<and> double_parts n d = double_parts (nat \<bar>lv\<bar>) 1)"

end
