(* ===== verification/OpcodePrinter.thy ===== *)
theory OpcodePrinter
  imports Opcodes CNumbers
begin

text \<open>
  The textual form of opcodes and programs (src/handlebars_opcode_printer.c). The printer appends to a
  growing string, so every function here is the code's sequence of appends; the texts they produce are
  the functions \<open>operand_text\<close>, \<open>opcode_text\<close> and \<open>program_text\<close>, and the lemmas say when the code
  produces exactly them.
\<close>

section \<open>Decimal conversions\<close>

text \<open>\<open>%03zu\<close>.\<close>

definition show_nat3 :: "nat \<Rightarrow> string" where
  "show_nat3 n = replicate (3 - length (show_nat n)) (CHR ''0'') @ show_nat n"

lemma strtol_show_nat: "strtol 10 (show_nat n) = n"
proof (induction n rule: show_nat.induct)
  case (1 n)
  have "strtol 10 (show_nat n) = n" if "n < 10"
    using that by (subst show_nat.simps) (simp add: strtol_def xdigit_val_digit)
  moreover have "strtol 10 (show_nat n) = n" if "\<not> n < 10"
  proof -
    have "strtol 10 (show_nat n) = strtol 10 (show_nat (n div 10)) * 10 + n mod 10"
      using that by (subst show_nat.simps) (simp add: strtol_def xdigit_val_digit)
    with 1 that show ?thesis by simp
  qed
  ultimately show ?case by blast
qed

section \<open>Operands and opcodes\<close>

definition operand_escape_set :: string where
  "operand_escape_set = [CHR 0x0D, CHR 0x0A, CHR 0x09]"

text \<open>The loop over an array: a comma before every element but the first.\<close>

definition operand_print_array :: "hstr list \<Rightarrow> hstr \<Rightarrow> hbs_error + hstr" where
  "operand_print_array arr s =
     efold (\<lambda>(i, x) s.
              ebind (if i > 0 then handlebars_string_append s '','' else Inr s)
                (\<lambda>s. handlebars_string_append s (sval x)))
            (enumerate (0::nat) arr) s"

text \<open>The precision in \<open>%.*s\<close> is the length, but the conversion also stops at a NUL byte.\<close>

definition handlebars_operand_print_append :: "hstr \<Rightarrow> operand \<Rightarrow> hbs_error + hstr" where
  "handlebars_operand_print_append s p =
     (case p of
        operand_null _ \<Rightarrow> handlebars_string_append s ''[NULL]''
      | operand_boolean b \<Rightarrow>
          handlebars_string_vasprintf_append s (''[BOOLEAN:'' @ (if b then ''1'' else ''0'') @ '']'')
      | operand_long n \<Rightarrow>
          handlebars_string_vasprintf_append s (''[LONG:'' @ show_int (sint n) @ '']'')
      | operand_string x \<Rightarrow>
          ebind (handlebars_string_addcslashes x operand_escape_set) (\<lambda>tmp.
            handlebars_string_vasprintf_append s
              (''[STRING:'' @ takeWhile (\<lambda>c. c \<noteq> NUL) (sval tmp) @ '']''))
      | operand_array arr \<Rightarrow>
          ebind (handlebars_string_append s ''[ARRAY:'') (\<lambda>s1.
          ebind (operand_print_array arr s1) (\<lambda>s2. handlebars_string_append s2 '']'')))"

definition handlebars_operand_print :: "operand \<Rightarrow> hbs_error + hstr" where
  "handlebars_operand_print p = handlebars_operand_print_append (handlebars_string_init 64) p"

definition print_operand_or_assert :: "bool \<Rightarrow> operand \<Rightarrow> hstr \<Rightarrow> hbs_error + hstr" where
  "print_operand_or_assert used p s =
     (if used then handlebars_operand_print_append s p
      else if operand_type_null p then Inr s else Inl Assert_fail)"

definition locinfo_text :: "handlebars_locinfo \<Rightarrow> string" where
  "locinfo_text l = '' ['' @ show_int (first_line l) @ '':'' @ show_int (first_column l) @ ''-'' @
     show_int (last_line l) @ '':'' @ show_int (last_column l) @ '']''"

text \<open>\<open>locations\<close> is \<open>flags & handlebars_opcode_printer_flag_locations\<close>.\<close>

definition handlebars_opcode_print_append :: "hstr \<Rightarrow> opcode \<Rightarrow> bool \<Rightarrow> hbs_error + hstr" where
  "handlebars_opcode_print_append s opc locations =
     (let name = handlebars_opcode_readable_type (otype opc);
          num = handlebars_opcode_num_operands (otype opc)
      in ebind (handlebars_string_append s name) (\<lambda>s0.
         ebind (print_operand_or_assert (num \<ge> 1) (op1 opc) s0) (\<lambda>s1.
         ebind (print_operand_or_assert (num \<ge> 2) (op2 opc) s1) (\<lambda>s2.
         ebind (if num \<ge> 3 \<and> otype opc = handlebars_opcode_type_invoke_ambiguous \<and> operand_type_null (op3 opc)
                then Inr s2
                else print_operand_or_assert (num \<ge> 3) (op3 opc) s2) (\<lambda>s3.
         ebind (print_operand_or_assert (num \<ge> 4) (op4 opc) s3) (\<lambda>s4.
           if locations then handlebars_string_vasprintf_append s4 (locinfo_text (oloc opc))
           else Inr s4))))))"

definition handlebars_opcode_print :: "opcode \<Rightarrow> bool \<Rightarrow> hbs_error + hstr" where
  "handlebars_opcode_print opc locations =
     handlebars_opcode_print_append (handlebars_string_init 64) opc locations"

section \<open>Programs\<close>

text \<open>
  The indentation is written into \<open>char tmp[256]\<close>: \<open>2 * num\<close> blanks and the terminator. A larger
  \<open>num\<close> writes past the array.
\<close>

definition append_indent :: "nat \<Rightarrow> hstr \<Rightarrow> hbs_error + hstr" where
  "append_indent num s =
     (if 2 * num + 1 > 256 then Inl Mem_error
      else handlebars_string_append s (replicate (2 * num) (CHR '' '')))"

definition handlebars_opcode_printer_array_print :: "nat \<Rightarrow> bool \<Rightarrow> opcode list \<Rightarrow> hstr \<Rightarrow> hbs_error + hstr" where
  "handlebars_opcode_printer_array_print indent locations opcs s =
     ebind (efold (\<lambda>opc s.
              ebind (append_indent indent s) (\<lambda>s.
              ebind (handlebars_opcode_print_append s opc locations) (\<lambda>s.
                handlebars_string_append s [newline]))) opcs s) (\<lambda>s.
     ebind (append_indent indent s) (\<lambda>s.
       handlebars_string_append s (''-----'' @ [newline])))"

text \<open>\<open>indent\<close> is \<open>printer->indent\<close>: incremented before the decorators and the children, restored after.\<close>

fun handlebars_opcode_printer_print :: "nat \<Rightarrow> bool \<Rightarrow> handlebars_program \<Rightarrow> hstr \<Rightarrow> hbs_error + hstr" where
  "handlebars_opcode_printer_print indent locations (handlebars_program g fl rf bp opcs kids decs) s =
     ebind (handlebars_opcode_printer_array_print indent locations opcs s) (\<lambda>s.
     ebind (efold (\<lambda>d s.
              ebind (append_indent (indent + 1) s) (\<lambda>s.
              ebind (handlebars_string_append s (''DECORATOR'' @ [newline])) (\<lambda>s.
                handlebars_opcode_printer_print (indent + 1) locations d s))) decs s) (\<lambda>s.
       efold (\<lambda>k s. handlebars_opcode_printer_print (indent + 1) locations k s) kids s))"

definition handlebars_program_print :: "handlebars_program \<Rightarrow> bool \<Rightarrow> hbs_error + hstr" where
  "handlebars_program_print p locations =
     handlebars_opcode_printer_print 0 locations p (handlebars_string_init 128)"

section \<open>The text\<close>

fun join_commas :: "string list \<Rightarrow> string" where
  "join_commas [] = []"
| "join_commas [x] = x"
| "join_commas (x # xs) = x @ '','' @ join_commas xs"

fun operand_text :: "operand \<Rightarrow> string" where
  "operand_text (operand_null _) = ''[NULL]''"
| "operand_text (operand_boolean b) = ''[BOOLEAN:'' @ (if b then ''1'' else ''0'') @ '']''"
| "operand_text (operand_long n) = ''[LONG:'' @ show_int (sint n) @ '']''"
| "operand_text (operand_string x) = ''[STRING:'' @
     takeWhile (\<lambda>c. c \<noteq> NUL) (concat (map (addcslashes_char operand_escape_set) (sval x))) @ '']''"
| "operand_text (operand_array arr) = ''[ARRAY:'' @ join_commas (map sval arr) @ '']''"

definition opcode_text :: "bool \<Rightarrow> opcode \<Rightarrow> string" where
  "opcode_text locations opc =
     (let num = handlebars_opcode_num_operands (otype opc);
          ops = take num [op1 opc, op2 opc, op3 opc, op4 opc];
          shown = (if otype opc = handlebars_opcode_type_invoke_ambiguous \<and> operand_type_null (op3 opc)
                   then take 2 ops else ops)
      in handlebars_opcode_readable_type (otype opc) @ concat (map operand_text shown) @
         (if locations then locinfo_text (oloc opc) else []))"

abbreviation blanks :: "nat \<Rightarrow> string" where
  "blanks indent \<equiv> replicate (2 * indent) (CHR '' '')"

definition array_text :: "nat \<Rightarrow> bool \<Rightarrow> opcode list \<Rightarrow> string" where
  "array_text indent locations opcs =
     concat (map (\<lambda>opc. blanks indent @ opcode_text locations opc @ [newline]) opcs) @
     blanks indent @ ''-----'' @ [newline]"

fun program_text :: "nat \<Rightarrow> bool \<Rightarrow> handlebars_program \<Rightarrow> string" where
  "program_text indent locations (handlebars_program g fl rf bp opcs kids decs) =
     array_text indent locations opcs @
     concat (map (\<lambda>d. blanks (indent + 1) @ ''DECORATOR'' @ [newline] @ program_text (indent + 1) locations d) decs) @
     concat (map (program_text (indent + 1) locations) kids)"

text \<open>The depth of the tree of programs, and the opcodes of all of them.\<close>

fun program_depth :: "handlebars_program \<Rightarrow> nat" where
  "program_depth (handlebars_program g fl rf bp opcs kids decs) =
     (if kids = [] \<and> decs = [] then 0 else Suc (fold max (map program_depth (decs @ kids)) 0))"

fun program_ok :: "handlebars_program \<Rightarrow> bool" where
  "program_ok (handlebars_program g fl rf bp opcs kids decs) \<longleftrightarrow>
     (\<forall>opc \<in> set opcs. opcode_operands_ok opc) \<and> (\<forall>p \<in> set decs. program_ok p) \<and> (\<forall>p \<in> set kids. program_ok p)"

section \<open>The code produces the text\<close>

lemma array_piece: "concat (map (\<lambda>(i, x). (if i > 0 then '','' else []) @ sval x) (enumerate (Suc n) arr)) =
    concat (map (\<lambda>x. '','' @ sval x) arr)"
  by (induction arr arbitrary: n) auto

lemma join_commas_Cons: "join_commas (x # xs) = x @ concat (map (\<lambda>y. '','' @ y) xs)"
  by (induction xs arbitrary: x) auto

lemma appends_print_array:
  assumes "str_ok s"
  shows "appends (operand_print_array arr s) s (join_commas (map sval arr))"
proof -
  have "appends (operand_print_array arr s) s
      (concat (map (\<lambda>(i, x). (if i > 0 then '','' else []) @ sval x) (enumerate 0 arr)))"
    unfolding operand_print_array_def
  proof (rule appends_efold [OF _ assms])
    fix p t assume "str_ok t"
    then show "appends (case_prod (\<lambda>i x s. ebind (if 0 < i then handlebars_string_append s '','' else Inr s)
             (\<lambda>s. handlebars_string_append s (sval x))) p t)
          t (case_prod (\<lambda>i x. (if 0 < i then '','' else []) @ sval x) p)"
      unfolding prod.case_eq_if
      by (intro appends_bind appends_append) (auto intro: appends_nothing)
  qed
  moreover have "concat (map (\<lambda>(i, x). (if i > 0 then '','' else []) @ sval x) (enumerate (0::nat) arr)) =
      join_commas (map sval arr)"
    using array_piece [of 0] by (cases arr) (simp_all add: join_commas_Cons o_def)
  ultimately show ?thesis by simp
qed

lemma appends_operand:
  assumes "str_ok s"
  shows "appends (handlebars_operand_print_append s p) s (operand_text p)"
proof (cases p)
  case (operand_string x)
  obtain t where "handlebars_string_addcslashes x operand_escape_set = Inr t"
      "sval t = concat (map (addcslashes_char operand_escape_set) (sval x))"
    using addcslashes_eq by blast
  then show ?thesis
    using assms operand_string by (auto simp: handlebars_operand_print_append_def)
next
  case (operand_array arr)
  have "appends (handlebars_operand_print_append s p) s (''[ARRAY:'' @ join_commas (map sval arr) @ '']'')"
    unfolding handlebars_operand_print_append_def operand_array handlebars_operand.case
    by (intro appends_bind appends_append appends_print_array)
  then show ?thesis by (simp add: operand_array)
qed (use assms in \<open>auto simp: handlebars_operand_print_append_def\<close>)

lemma appends_used:
  assumes "str_ok s" "\<not> used \<longrightarrow> operand_type_null p"
  shows "appends (print_operand_or_assert used p s) s (if used then operand_text p else [])"
  using assms appends_operand by (auto simp: print_operand_or_assert_def)

lemma take4: "take n [a, b, c, d] =
    (if n \<ge> 1 then [a] else []) @ (if n \<ge> 2 then [b] else []) @ (if n \<ge> 3 then [c] else []) @ (if n \<ge> 4 then [d] else [])"
  by (auto simp: take_Cons' numeral_eq_Suc)

lemma num_operands_invoke_ambiguous:
  "handlebars_opcode_num_operands handlebars_opcode_type_invoke_ambiguous = 3"
  by (simp add: handlebars_opcode_num_operands_def)

lemma appends_opcode:
  assumes "str_ok s" "opcode_operands_ok opc"
  shows "appends (handlebars_opcode_print_append s opc l) s (opcode_text l opc)"
proof -
  let ?n = "handlebars_opcode_num_operands (otype opc)"
  let ?amb = "otype opc = handlebars_opcode_type_invoke_ambiguous \<and> operand_type_null (op3 opc)"
  let ?o = "\<lambda>k p. if k \<le> ?n then operand_text p else []"
  have third: "appends (if ?n \<ge> 3 \<and> ?amb then Inr t else print_operand_or_assert (?n \<ge> 3) (op3 opc) t) t
      (if ?amb then [] else ?o 3 (op3 opc))" if "str_ok t" for t
    using that assms(2) appends_used [OF that, of "3 \<le> ?n" "op3 opc"]
    by (auto simp: opcode_operands_ok_def Let_def num_operands_invoke_ambiguous not_le)
  have fourth: "?amb \<Longrightarrow> ?o 4 (op4 opc) = []"
    by (simp add: num_operands_invoke_ambiguous)
  have "appends (handlebars_opcode_print_append s opc l) s
     (handlebars_opcode_readable_type (otype opc) @ ?o 1 (op1 opc) @ ?o 2 (op2 opc) @
      (if ?amb then [] else ?o 3 (op3 opc)) @ ?o 4 (op4 opc) @ (if l then locinfo_text (oloc opc) else []))"
    unfolding handlebars_opcode_print_append_def Let_def conj_assoc
    using assms(2)
    by (intro appends_bind appends_append appends_used third)
      (auto simp: opcode_operands_ok_def Let_def)
  also have "handlebars_opcode_readable_type (otype opc) @ ?o 1 (op1 opc) @ ?o 2 (op2 opc) @
      (if ?amb then [] else ?o 3 (op3 opc)) @ ?o 4 (op4 opc) @ (if l then locinfo_text (oloc opc) else []) =
      opcode_text l opc"
    using fourth unfolding opcode_text_def Let_def take4
    by (auto simp: num_operands_invoke_ambiguous)
  finally show ?thesis .
qed

section \<open>Programs\<close>

text \<open>A loop in which each element either appends its text or fails.\<close>

lemma efold_appends_or_fails:
  assumes "\<And>x t. x \<in> set xs \<Longrightarrow> str_ok t \<Longrightarrow>
      (if good x then appends (f x t) t (piece x) else f x t = Inl e)" and "str_ok s"
  shows "if \<forall>x \<in> set xs. good x then appends (efold f xs s) s (concat (map piece xs))
         else efold f xs s = Inl e"
  using assms
proof (induction xs arbitrary: s)
  case Nil
  then show ?case by auto
next
  case (Cons x xs)
  show ?case
  proof (cases "good x")
    case False
    with Cons.prems(1) [of x s] Cons.prems(2) show ?thesis by auto
  next
    case True
    with Cons.prems(1) [of x s] Cons.prems(2) have "appends (f x s) s (piece x)" by simp
    then obtain t where t: "f x s = Inr t" "str_ok t" "sval t = sval s @ piece x"
      by (auto simp: appends_def)
    have "if \<forall>x \<in> set xs. good x then appends (efold f xs t) t (concat (map piece xs)) else efold f xs t = Inl e"
      using Cons.prems(1) by (intro Cons.IH t(2)) auto
    with t True show ?thesis by (auto simp: appends_def)
  qed
qed

lemma bind_appends_or_fails:
  assumes "appends m s a" and "\<And>t. str_ok t \<Longrightarrow> (if c then appends (f t) t b else f t = Inl e)"
  shows "if c then appends (ebind m f) s (a @ b) else ebind m f = Inl e"
proof (cases c)
  case True
  then show ?thesis using appends_bind [of m s a f b] assms by simp
next
  case False
  then show ?thesis using assms by (auto simp: appends_def)
qed

lemma bind_two:
  assumes "if c then appends m s a else m = Inl e"
    and "\<And>t. str_ok t \<Longrightarrow> (if d then appends (f t) t b else f t = Inl e)"
  shows "if c \<and> d then appends (ebind m f) s (a @ b) else ebind m f = Inl e"
proof (cases c)
  case True
  then show ?thesis using bind_appends_or_fails [of m s a d f b e] assms by simp
next
  case False
  with assms(1) show ?thesis by simp
qed

lemma appends_indent: "n \<le> 127 \<Longrightarrow> appends (append_indent n s) s (blanks n)"
  by (auto simp: append_indent_def)

lemma indent_fails: "127 < n \<Longrightarrow> append_indent n s = Inl Mem_error"
  by (simp add: append_indent_def)

lemma appends_array_print:
  assumes "str_ok s" "\<forall>opc \<in> set opcs. opcode_operands_ok opc" "n \<le> 127"
  shows "appends (handlebars_opcode_printer_array_print n l opcs s) s (array_text n l opcs)"
  unfolding handlebars_opcode_printer_array_print_def array_text_def using assms
  by (intro appends_bind appends_efold appends_indent appends_opcode appends_append) auto

lemma array_print_fails:
  "127 < n \<Longrightarrow> handlebars_opcode_printer_array_print n l opcs s = Inl Mem_error"
  by (cases opcs) (simp_all add: handlebars_opcode_printer_array_print_def indent_fails)

lemma fold_max_le: "fold max xs m \<le> k \<longleftrightarrow> m \<le> k \<and> (\<forall>x \<in> set xs. x \<le> (k::nat))"
  by (induction xs arbitrary: m) auto

lemma depth_fits:
  "n + program_depth (handlebars_program g fl rf bp opcs kids decs) \<le> k \<longleftrightarrow>
     n \<le> k \<and> (\<forall>d \<in> set decs. n + 1 + program_depth d \<le> k) \<and> (\<forall>c \<in> set kids. n + 1 + program_depth c \<le> k)"
proof (cases "kids = [] \<and> decs = []")
  case True
  then show ?thesis by simp
next
  case False
  have "Suc (n + fold max (map program_depth (decs @ kids)) 0) \<le> k \<longleftrightarrow>
      Suc n \<le> k \<and> fold max (map program_depth (decs @ kids)) 0 \<le> k - Suc n"
    by linarith
  also have "\<dots> \<longleftrightarrow> Suc n \<le> k \<and> (\<forall>x \<in> set decs \<union> set kids. program_depth x \<le> k - Suc n)"
    by (auto simp: fold_max_le)
  also have "\<dots> \<longleftrightarrow> n \<le> k \<and> (\<forall>d \<in> set decs. n + 1 + program_depth d \<le> k) \<and> (\<forall>c \<in> set kids. n + 1 + program_depth c \<le> k)"
  proof (cases "Suc n \<le> k")
    case True
    then have "program_depth x \<le> k - Suc n \<longleftrightarrow> n + 1 + program_depth x \<le> k" for x by linarith
    with True show ?thesis by auto
  next
    case less: False
    from False obtain x where "x \<in> set decs \<union> set kids" by (metis UnI1 UnI2 last_in_set)
    moreover from less have "\<not> n + 1 + program_depth x \<le> k" by linarith
    ultimately show ?thesis using less by blast
  qed
  finally show ?thesis using False by simp
qed

lemma printer_print_cases:
  assumes "str_ok s" "program_ok p"
  shows "if n + program_depth p \<le> 127
         then appends (handlebars_opcode_printer_print n l p s) s (program_text n l p)
         else handlebars_opcode_printer_print n l p s = Inl Mem_error"
  using assms
proof (induction p arbitrary: n s)
  case (handlebars_program g fl rf bp opcs kids decs)
  let ?fits = "\<lambda>x. n + 1 + program_depth x \<le> 127"
  show ?case
  proof (cases "n \<le> 127")
    case False
    then show ?thesis using depth_fits [of n g fl rf bp opcs kids decs 127] array_print_fails [of n]
      by simp
  next
    case True
    have dec: "if ?fits d then appends (ebind (append_indent (n + 1) t) (\<lambda>s.
              ebind (handlebars_string_append s (''DECORATOR'' @ [newline])) (\<lambda>s.
                handlebars_opcode_printer_print (n + 1) l d s))) t
            (blanks (n + 1) @ (''DECORATOR'' @ [newline]) @ program_text (n + 1) l d)
        else ebind (append_indent (n + 1) t) (\<lambda>s.
              ebind (handlebars_string_append s (''DECORATOR'' @ [newline])) (\<lambda>s.
                handlebars_opcode_printer_print (n + 1) l d s)) = Inl Mem_error"
      if d: "d \<in> set decs" and t: "str_ok t" for d t
    proof (cases "n + 1 \<le> 127")
      case False
      then show ?thesis by (simp add: indent_fails)
    next
      case fits: True
      have IH: "if ?fits d then appends (handlebars_opcode_printer_print (n + 1) l d u) u (program_text (n + 1) l d)
          else handlebars_opcode_printer_print (n + 1) l d u = Inl Mem_error" if "str_ok u" for u
        using handlebars_program.IH(2) [OF d that] handlebars_program.prems(2) d by auto
      show ?thesis
        by (intro bind_appends_or_fails appends_indent appends_append fits IH)
    qed
    have kid: "if ?fits c then appends (handlebars_opcode_printer_print (n + 1) l c t) t (program_text (n + 1) l c)
        else handlebars_opcode_printer_print (n + 1) l c t = Inl Mem_error"
      if "c \<in> set kids" "str_ok t" for c t
      using handlebars_program.IH(1) [OF that] handlebars_program.prems(2) that(1) by auto
    have "if (\<forall>d \<in> set decs. ?fits d) \<and> (\<forall>c \<in> set kids. ?fits c)
       then appends (handlebars_opcode_printer_print n l (handlebars_program g fl rf bp opcs kids decs) s) s
         (array_text n l opcs @
          concat (map (\<lambda>d. blanks (n + 1) @ (''DECORATOR'' @ [newline]) @ program_text (n + 1) l d) decs) @
          concat (map (program_text (n + 1) l) kids))
       else handlebars_opcode_printer_print n l (handlebars_program g fl rf bp opcs kids decs) s = Inl Mem_error"
      unfolding handlebars_opcode_printer_print.simps using handlebars_program.prems True
      by (intro bind_appends_or_fails bind_two efold_appends_or_fails appends_array_print dec kid) auto
    moreover have "n + program_depth (handlebars_program g fl rf bp opcs kids decs) \<le> 127 \<longleftrightarrow>
        (\<forall>d \<in> set decs. ?fits d) \<and> (\<forall>c \<in> set kids. ?fits c)"
      unfolding depth_fits using True by simp
    ultimately show ?thesis
      by (simp only: program_text.simps append_assoc)
  qed
qed

section \<open>Properties\<close>

text \<open>Printing an opcode appends its name, the operands its type has (the third of \<open>invokeAmbiguous\<close> only
  when it is set) and the location when asked for; no assertion fails when the operands its type does
  not have are null.\<close>
theorem opcode_print_correct:
  assumes "str_ok s" "opcode_operands_ok opc"
  shows "\<exists>t. handlebars_opcode_print_append s opc l = Inr t \<and> str_ok t \<and> sval t = sval s @ opcode_text l opc"
  using appends_opcode [OF assms] by (simp add: appends_def)

text \<open>The property for \<open>lookupBlockParam\<close>.\<close>
theorem opcode_print_correct_witness:
  "\<exists>t. handlebars_opcode_print_append (handlebars_string_init 64)
      ((handlebars_opcode_ctor handlebars_opcode_type_push_id)
        \<lparr>op1 := handlebars_operand_set_stringval (handlebars_string_ctor ''foo''),
         op2 := handlebars_operand_set_arrayval [''a'', ''b'']\<rparr>) False = Inr t \<and> str_ok t \<and>
    sval t = ''pushId[STRING:foo][ARRAY:a,b][NULL]''"
proof -
  let ?o = "(handlebars_opcode_ctor handlebars_opcode_type_push_id)
        \<lparr>op1 := handlebars_operand_set_stringval (handlebars_string_ctor ''foo''),
         op2 := handlebars_operand_set_arrayval [''a'', ''b'']\<rparr>"
  have ok: "opcode_operands_ok ?o"
    by (simp add: opcode_operands_ok_def handlebars_opcode_num_operands_def operand_type_null_def)
  have t: "opcode_text False ?o = ''pushId[STRING:foo][ARRAY:a,b][NULL]''"
    by (simp add: opcode_text_def handlebars_opcode_num_operands_def handlebars_operand_set_stringval_def
        handlebars_operand_set_arrayval_def addcslashes_char_def operand_escape_set_def)
  show ?thesis using opcode_print_correct [OF _ ok, of "handlebars_string_init 64" False] by (simp add: t)
qed

text \<open>C32. Printing a program of which every opcode has only the operands of its type produces the text of the
  whole tree, if no program is nested deeper than 127; a deeper tree overruns the 256 bytes in which the
  indentation is built.\<close>
theorem program_print_correct:
  assumes "program_ok p"
  shows "if program_depth p \<le> 127
         then \<exists>t. handlebars_program_print p l = Inr t \<and> sval t = program_text 0 l p
         else handlebars_program_print p l = Inl Mem_error"
  using printer_print_cases [of "handlebars_string_init 128" p 0 l] assms
  by (auto simp: handlebars_program_print_def appends_def split: if_splits)

text \<open>The property at a chain of 130 programs and at a program with a child and a decorator.\<close>

fun chain :: "nat \<Rightarrow> handlebars_program" where
  "chain 0 = handlebars_program 0 0 0 0 [] [] []"
| "chain (Suc n) = handlebars_program 0 0 0 0 [] [chain n] []"

lemma chain_simps: "program_ok (chain n)" "program_depth (chain n) = n"
  by (induction n) simp_all

theorem program_print_correct_witness:
  "(\<exists>t. handlebars_program_print (chain 1) False = Inr t \<and>
      sval t = ''-----'' @ [newline] @ ''  -----'' @ [newline]) \<and>
   handlebars_program_print (chain 128) False = Inl Mem_error"
proof
  have "\<exists>t. handlebars_program_print (chain 1) False = Inr t \<and> sval t = program_text 0 False (chain 1)"
    using program_print_correct [of "chain 1" False] by (simp only: chain_simps if_True)
  then show "\<exists>t. handlebars_program_print (chain 1) False = Inr t \<and>
      sval t = ''-----'' @ [newline] @ ''  -----'' @ [newline]"
    by (simp add: array_text_def numeral_eq_Suc)
  have "\<not> program_depth (chain 128) \<le> 127" by (simp only: chain_simps)
  with program_print_correct [of "chain 128" False] show "handlebars_program_print (chain 128) False = Inl Mem_error"
    by (simp only: chain_simps if_False)
qed

end
