(* ===== verification/ModulePrinter.thy ===== *)
theory ModulePrinter
  imports SerializerMove OpcodePrinter "HOL-Library.Code_Target_Nat"
begin

text \<open>
  The textual dump of a serialized module (src/handlebars_module_printer.c). \<open>ctime\<close> and the conversion
  \<open>%p\<close> are parameters: both are implementation-defined.
\<close>

text \<open>
  The opcode printer follows the operands' pointers; here it is given the opcode with the strings in
  their place. An opcode that cannot be read is a memory error.
\<close>

definition opcode_of_module :: "int \<Rightarrow> handlebars_module \<Rightarrow> mopcode \<Rightarrow> hbs_error + opcode" where
  "opcode_of_module loc m opc =
     (case read_opcode loc m opc of
        None \<Rightarrow> Inl Mem_error
      | Some v \<Rightarrow>
          let obj = map_handlebars_operand handlebars_string_ctor (map handlebars_string_ctor)
          in Inr \<lparr>otype = otype v, op1 = obj (op1 v), op2 = obj (op2 v), op3 = obj (op3 v), op4 = obj (op4 v),
                  oloc = oloc v\<rparr>)"

definition module_header_text :: "(int \<Rightarrow> string) \<Rightarrow> (int \<Rightarrow> string) \<Rightarrow> handlebars_module \<Rightarrow> string" where
  "module_header_text ptr ctime m =
     ''HASH: '' @ show_nat (unat (mhash m)) @ [newline] @
     ''VERSION: '' @ show_int (mversion m) @ [newline] @
     ''ADDR: '' @ ptr (maddr m) @ [newline] @
     ''SIZE: '' @ show_nat (msize m) @ [newline] @
     ''DATA OFFSET: '' @ show_nat (mdata_offset m) @ [newline] @
     ''TS: '' @ ctime (mts m) @
     ''FLAGS: '' @ show_nat (unat (mflags m)) @ [newline] @
     ''PROGRAMS: '' @ show_nat (mprogram_count m) @ [newline] @
     ''OPCODES: '' @ show_nat (mopcode_count m) @ [newline, newline]"

definition table_entry_text :: "handlebars_module_table_entry \<Rightarrow> string" where
  "table_entry_text e =
     ''PROGRAM: '' @ show_nat (entry_guid e) @ [newline] @
     ''OPCODE_COUNT: '' @ show_nat (entry_opcode_count e) @ [newline] @
     ''OPCODE_OFFSET: '' @ show_nat (entry_opcode_offset e) @ [newline, newline]"

text \<open>
  The loop over the opcodes; its state is the buffer, \<open>program_guid\<close> and \<open>local_opcode_id\<close>. It assumes that the
  programs' opcodes come in the order of the table entries, and asserts it.
\<close>

definition print_module_opcode ::
    "int \<Rightarrow> handlebars_module \<Rightarrow> nat \<Rightarrow> hstr \<times> nat \<times> nat \<Rightarrow> hbs_error + hstr \<times> nat \<times> nat" where
  "print_module_opcode loc m i = (\<lambda>(buffer, program_guid, local_id).
     if program_guid \<ge> length (mprograms m) then Inl Mem_error
     else let e = mprograms m ! program_guid in
       if \<not> (i \<ge> entry_opcode_offset e \<and> i < entry_opcode_offset e + entry_opcode_count e) then Inl Assert_fail
       else
         ebind (handlebars_string_vasprintf_append buffer (''OP['' @ show_nat3 local_id @ '','' @ show_nat3 i @ '']: '')) (\<lambda>b1.
         ebind (opcode_of_module loc m (mopcodes m ! i)) (\<lambda>opc.
         ebind (handlebars_opcode_print_append b1 opc False) (\<lambda>b2.
         ebind (handlebars_string_vasprintf_append b2 [newline]) (\<lambda>b3.
           if otype (mopcodes m ! i) = handlebars_opcode_type_return
           then ebind (if program_guid + 1 < mprogram_count m
                       then handlebars_string_vasprintf_append b3
                              (newline # ''PROGRAM: '' @ show_nat (program_guid + 1) @ [newline])
                       else Inr b3)
                  (\<lambda>b4. Inr (b4, program_guid + 1, 0))
           else Inr (b3, program_guid, local_id + 1))))))"

definition handlebars_module_print ::
    "(int \<Rightarrow> string) \<Rightarrow> (int \<Rightarrow> string) \<Rightarrow> int \<Rightarrow> handlebars_module \<Rightarrow> hbs_error + hstr" where
  "handlebars_module_print ptr ctime loc m =
     ebind (handlebars_string_vasprintf_append (handlebars_string_init 1024) (module_header_text ptr ctime m)) (\<lambda>b1.
     ebind (efold (\<lambda>i b. handlebars_string_vasprintf_append b (table_entry_text (mprograms m ! i)))
              [0..<mprogram_count m] b1) (\<lambda>b2.
     ebind (handlebars_string_vasprintf_append b2 (''PROGRAM: '' @ show_nat 0 @ [newline])) (\<lambda>b3.
     ebind (efold (print_module_opcode loc m) [0..<mopcode_count m] (b3, 0, 0)) (\<lambda>(b4, program_guid, _).
       if program_guid = mprogram_count m then Inr b4 else Inl Assert_fail))))"

definition serialize_and_print :: "handlebars_program \<Rightarrow> hbs_error + hstr" where
  "serialize_and_print p =
     ebind (handlebars_program_serialize (\<lambda>_. 1) 1000 0 4096 p) (handlebars_module_print (\<lambda>_. []) (\<lambda>_. [newline]) 4096)"

text \<open>An example. The dump assumes that the opcodes of the programs follow each other in the order of the table entries. The
  serializer numbers the children of a program before it descends, but writes the opcodes depth first. The sample, whose
  first child has a child and which has a second child, serializes, and its dump fails the assertion (without assertions
  it attributes opcodes to the wrong program). The first child by itself, with its single child, is dumped.\<close>

theorem module_print_order:
  "serialize_and_print sample_program = Inl Assert_fail \<and>
   map_sum id (\<lambda>s. drop (length (sval s) - 63) (sval s)) (serialize_and_print (children sample_program ! 0)) =
     Inr (''PROGRAM: 0'' @ [newline] @ ''OP[000,000]: return'' @ [newline, newline] @
          ''PROGRAM: 1'' @ [newline] @ ''OP[000,001]: return'' @ [newline])"
proof
  show "serialize_and_print sample_program = Inl Assert_fail"
    by code_simp
  show "map_sum id (\<lambda>s. drop (length (sval s) - 63) (sval s)) (serialize_and_print (children sample_program ! 0)) =
     Inr (''PROGRAM: 0'' @ [newline] @ ''OP[000,000]: return'' @ [newline, newline] @
          ''PROGRAM: 1'' @ [newline] @ ''OP[000,001]: return'' @ [newline])"
    by code_simp
qed

end
