(* ===== verification/CacheSimple.thy ===== *)
theory CacheSimple
  imports HMapOps Serializer
begin

text \<open>
  The in-memory cache of compiled modules (src/handlebars_cache_simple.c), a client of the hash map. The map
  holds addresses of modules; \<open>cmods\<close> is the memory they lie in, because a lookup writes the time into the
  module it finds. \<open>time()\<close> is the argument \<open>now\<close>, \<open>qsort_r\<close> the argument \<open>sort_r\<close>. \<open>max_age\<close> is a
  \<open>double\<close> that is only compared with a difference of two times; a fractional value acts like the next
  integer, so it is an \<open>int\<close> here. Counters are \<open>size_t\<close>: they wrap.
\<close>

section \<open>The cache\<close>

record handlebars_cache_stat =
  current_entries :: nat
  current_size :: nat
  hits :: nat
  misses :: nat

record handlebars_cache =
  cmap :: "nat hmap"
  cmods :: "nat \<Rightarrow> handlebars_module option"
  cstat :: handlebars_cache_stat
  max_age :: int
  max_entries :: nat
  max_size :: nat

definition size_add :: "nat \<Rightarrow> nat \<Rightarrow> nat" where
  "size_add a b = (a + b) mod 2 ^ 64"

definition size_sub :: "nat \<Rightarrow> nat \<Rightarrow> nat" where
  "size_sub a b = (a + 2 ^ 64 - b mod 2 ^ 64) mod 2 ^ 64"

definition empty_stat :: handlebars_cache_stat where
  "empty_stat = \<lparr>current_entries = 0, current_size = 0, hits = 0, misses = 0\<rparr>"

definition handlebars_cache_simple_ctor :: "(nat \<Rightarrow> handlebars_module option) \<Rightarrow> hbs_error + handlebars_cache" where
  "handlebars_cache_simple_ctor mods =
     ebind (handlebars_map_ctor 32) (\<lambda>m.
       Inr \<lparr>cmap = m, cmods = mods, cstat = empty_stat, max_age = - 1, max_entries = 0, max_size = 0\<rparr>)"

definition should_gc :: "handlebars_cache \<Rightarrow> bool" where
  "should_gc c \<longleftrightarrow>
     (max_size c > 0 \<and> current_size (cstat c) > max_size c) \<or>
     (max_entries c > 0 \<and> current_entries (cstat c) > max_entries c)"

definition should_gc_entry :: "handlebars_cache \<Rightarrow> handlebars_module \<Rightarrow> int \<Rightarrow> bool" where
  "should_gc_entry c md now \<longleftrightarrow> (max_age c \<ge> 0 \<and> now - mts md \<ge> max_age c) \<or> should_gc c"

text \<open>The comparison follows the pointers of both values; all addresses in the map are valid ones.\<close>

definition ts_at :: "(nat \<Rightarrow> handlebars_module option) \<Rightarrow> nat \<Rightarrow> int" where
  "ts_at mods a = (case mods a of None \<Rightarrow> 0 | Some md \<Rightarrow> mts md)"

definition cache_compare :: "(nat \<Rightarrow> handlebars_module option) \<Rightarrow> hstr \<times> nat \<Rightarrow> hstr \<times> nat \<Rightarrow> int" where
  "cache_compare mods pair1 pair2 =
     (let delta = ts_at mods (snd pair1) - ts_at mods (snd pair2)
      in (if delta > 0 then 1 else 0) - (if delta < 0 then 1 else 0))"

text \<open>
  The loop of the collection over the sorted map: it collects keys until the first entry that can stay. Each
  collected entry is subtracted from the statistics at once, which the next test uses.
\<close>

definition discount :: "handlebars_module \<Rightarrow> handlebars_cache \<Rightarrow> handlebars_cache" where
  "discount md c =
     c\<lparr>cstat := (cstat c)\<lparr>current_entries := size_sub (current_entries (cstat c)) 1,
                        current_size := size_sub (current_size (cstat c)) (msize md)\<rparr>\<rparr>"

fun gc_scan :: "int \<Rightarrow> nat hmap \<Rightarrow> nat list \<Rightarrow> handlebars_cache \<Rightarrow> hstr list \<Rightarrow> hbs_error + handlebars_cache \<times> hstr list" where
  "gc_scan now m [] c keys = Inr (c, keys)"
| "gc_scan now m (i # is) c keys =
     ebind (handlebars_map_get_kv_at_index m i) (\<lambda>kv.
       case kv of
         None \<Rightarrow> gc_scan now m is c keys
       | Some (k, a) \<Rightarrow>
           (case cmods c a of
              None \<Rightarrow> Inl Mem_error
            | Some md \<Rightarrow>
                if should_gc_entry c md now then gc_scan now m is (discount md c) (keys @ [k])
                else Inr (c, keys)))"

definition cache_gc ::
    "nat sort_fun \<Rightarrow> (string \<Rightarrow> u32) \<Rightarrow> int \<Rightarrow> handlebars_cache \<Rightarrow> hbs_error + nat \<times> handlebars_cache" where
  "cache_gc sort_r H now c =
     ebind (handlebars_map_sort sort_r H (cache_compare (cmods c)) (cmap c)) (\<lambda>m.
       let (old, m1) = handlebars_map_set_is_in_iteration m True in
       ebind (gc_scan now m1 [0..<handlebars_map_sparse_array_count m1] c []) (\<lambda>(c1, keys).
         let (_, m2) = handlebars_map_set_is_in_iteration m1 old in
         ebind (efold (\<lambda>k m. handlebars_map_remove H m k) keys m2) (\<lambda>m3.
         ebind (handlebars_map_rehash H False m3) (\<lambda>m4.
           Inr (length keys, c1\<lparr>cmap := m4\<rparr>)))))"

text \<open>A lookup returns the address of the module.\<close>

definition cache_find ::
    "(string \<Rightarrow> u32) \<Rightarrow> int \<Rightarrow> handlebars_cache \<Rightarrow> hstr \<Rightarrow> hbs_error + nat option \<times> handlebars_cache" where
  "cache_find H now c tmpl =
     ebind (handlebars_map_find H (cmap c) tmpl) (\<lambda>value.
       case value of
         None \<Rightarrow> Inr (None, c\<lparr>cstat := (cstat c)\<lparr>misses := misses (cstat c) + 1\<rparr>\<rparr>)
       | Some a \<Rightarrow>
           (case cmods c a of
              None \<Rightarrow> Inl Mem_error
            | Some md \<Rightarrow> Inr (Some a, c\<lparr>cmods := (cmods c)(a \<mapsto> md\<lparr>mts := now\<rparr>),
                                       cstat := (cstat c)\<lparr>hits := hits (cstat c) + 1\<rparr>\<rparr>)))"

definition cache_add ::
    "nat sort_fun \<Rightarrow> (string \<Rightarrow> u32) \<Rightarrow> int \<Rightarrow> handlebars_cache \<Rightarrow> hstr \<Rightarrow> nat \<Rightarrow> hbs_error + handlebars_cache" where
  "cache_add sort_r H now c tmpl a =
     ebind (if should_gc c then ebind (cache_gc sort_r H now c) (\<lambda>(_, c'). Inr c') else Inr c) (\<lambda>c1.
       case cmods c1 a of
         None \<Rightarrow> Inl Mem_error
       | Some md \<Rightarrow>
           ebind (handlebars_map_add H (cmap c1) tmpl a) (\<lambda>m.
             Inr (c1\<lparr>cmap := m, cmods := (cmods c1)(a \<mapsto> md\<lparr>mts := now\<rparr>),
                     cstat := (cstat c1)\<lparr>current_entries := size_add (current_entries (cstat c1)) 1,
                                        current_size := size_add (current_size (cstat c1)) (msize md)\<rparr>\<rparr>)))"

definition cache_release :: "handlebars_cache \<Rightarrow> hstr \<Rightarrow> nat \<Rightarrow> handlebars_cache" where
  "cache_release c tmpl a = c"

definition cache_reset :: "handlebars_cache \<Rightarrow> hbs_error + handlebars_cache" where
  "cache_reset c = ebind (handlebars_map_ctor 32) (\<lambda>m. Inr (c\<lparr>cmap := m, cstat := empty_stat\<rparr>))"

text \<open>The report: a name and the size of the allocations, which is the argument \<open>allocated\<close>, beside the counters.\<close>

definition cache_stat :: "nat \<Rightarrow> handlebars_cache \<Rightarrow> string \<times> nat \<times> handlebars_cache_stat" where
  "cache_stat allocated c = (''simple'', allocated, cstat c)"

section \<open>The invariant\<close>

abbreviation citems :: "handlebars_cache \<Rightarrow> (hstr \<times> nat) list" where
  "citems c \<equiv> hm_items (cmap c)"

definition size_at :: "(nat \<Rightarrow> handlebars_module option) \<Rightarrow> nat \<Rightarrow> nat" where
  "size_at mods a = (case mods a of None \<Rightarrow> 0 | Some md \<Rightarrow> msize md)"

definition total_size :: "(nat \<Rightarrow> handlebars_module option) \<Rightarrow> (hstr \<times> nat) list \<Rightarrow> nat" where
  "total_size mods kvs = sum_list (map (\<lambda>kv. size_at mods (snd kv)) kvs)"

text \<open>The statistics describe these items, and these are the items' modules.\<close>

definition stat_ok :: "handlebars_cache \<Rightarrow> (hstr \<times> nat) list \<Rightarrow> bool" where
  "stat_ok c kvs \<longleftrightarrow>
     current_entries (cstat c) = length kvs \<and> length kvs < 2 ^ 64 \<and>
     current_size (cstat c) = total_size (cmods c) kvs \<and> total_size (cmods c) kvs < 2 ^ 64 \<and>
     (\<forall>kv \<in> set kvs. cmods c (snd kv) \<noteq> None)"

definition cache_ok :: "(string \<Rightarrow> u32) \<Rightarrow> handlebars_cache \<Rightarrow> bool" where
  "cache_ok H c \<longleftrightarrow> hmap_ok H (cmap c) \<and> hm_bounded (cmap c) \<and> \<not> is_in_iteration (cmap c) \<and> stat_ok c (citems c)"

lemma size_sub_exact: "b \<le> a \<Longrightarrow> a < 2 ^ 64 \<Longrightarrow> size_sub a b = a - b"
proof -
  assume "b \<le> a" "a < 2 ^ 64"
  then have "a + 2 ^ 64 - b mod 2 ^ 64 = (a - b) + 2 ^ 64" by simp
  then show ?thesis using \<open>a < 2 ^ 64\<close> by (simp add: size_sub_def less_imp_diff_less)
qed

lemma size_add_exact: "a + b < 2 ^ 64 \<Longrightarrow> size_add a b = a + b"
  by (simp add: size_add_def)

lemma total_size_simps [simp]:
  "total_size mods [] = 0" "total_size mods (kv # kvs) = size_at mods (snd kv) + total_size mods kvs"
  "total_size mods (xs @ ys) = total_size mods xs + total_size mods ys"
  by (simp_all add: total_size_def)

lemma discount_ok:
  assumes "stat_ok c (kv # kvs)" "cmods c (snd kv) = Some md"
  shows "stat_ok (discount md c) kvs"
  using assms by (auto simp: stat_ok_def discount_def size_sub_exact size_at_def)

section \<open>The collection on the items\<close>

fun gc_items :: "int \<Rightarrow> handlebars_cache \<Rightarrow> (hstr \<times> nat) list \<Rightarrow> nat \<times> handlebars_cache" where
  "gc_items now c [] = (0, c)"
| "gc_items now c (kv # kvs) =
     (let md = the (cmods c (snd kv)) in
      if should_gc_entry c md now then (let (n, c') = gc_items now (discount md c) kvs in (Suc n, c'))
      else (0, c))"

lemma discount_simps [simp]:
  "cmods (discount md c) = cmods c" "cmap (discount md c) = cmap c" "max_age (discount md c) = max_age c"
  "max_entries (discount md c) = max_entries c" "max_size (discount md c) = max_size c"
  by (simp_all add: discount_def)

lemma gc_items_simps [simp]:
  "cmods (snd (gc_items now c kvs)) = cmods c" "cmap (snd (gc_items now c kvs)) = cmap c"
  "max_age (snd (gc_items now c kvs)) = max_age c" "max_entries (snd (gc_items now c kvs)) = max_entries c"
  "max_size (snd (gc_items now c kvs)) = max_size c"
  by (induction now c kvs rule: gc_items.induct) (auto simp: Let_def split: prod.splits)

lemma gc_items_stat: "stat_ok c kvs \<Longrightarrow> stat_ok (snd (gc_items now c kvs)) (drop (fst (gc_items now c kvs)) kvs)"
proof (induction now c kvs rule: gc_items.induct)
  case (2 now c kv kvs)
  obtain md where md: "cmods c (snd kv) = Some md" using 2(2) by (auto simp: stat_ok_def)
  show ?case
    using 2 md discount_ok [OF 2(2) md] by (auto simp: Let_def split: prod.splits)
qed simp

lemma gc_items_stop:
  "drop (fst (gc_items now c kvs)) kvs = kv # rest \<Longrightarrow>
     \<not> should_gc_entry (snd (gc_items now c kvs)) (the (cmods c (snd kv))) now"
  by (induction now c kvs rule: gc_items.induct) (auto simp: Let_def split: prod.splits if_splits)

lemma gc_items_le: "fst (gc_items now c kvs) \<le> length kvs"
  by (induction now c kvs rule: gc_items.induct) (auto simp: Let_def split: prod.splits)

text \<open>The loop over the indices of the vector is the recursion over the items.\<close>

lemma gc_scan_items:
  assumes "\<forall>i \<in> set is. i < vec_offset m"
    and "\<forall>kv \<in> set (map (\<lambda>e. (ekey e, evalue e)) (live (map ((!) (vec m)) is))). cmods c (snd kv) \<noteq> None"
  shows "gc_scan now m is c keys =
     (let kvs = map (\<lambda>e. (ekey e, evalue e)) (live (map ((!) (vec m)) is)); (n, c') = gc_items now c kvs
      in Inr (c', keys @ map fst (take n kvs)))"
  using assms
proof (induction "is" arbitrary: c keys)
  case Nil
  then show ?case by (simp add: live_def)
next
  case (Cons i "is")
  have i: "i < vec_offset m" using Cons.prems(1) by simp
  show ?case
  proof (cases "vec m ! i")
    case None
    then show ?thesis
      using Cons i by (simp add: handlebars_map_get_kv_at_index_def live_def)
  next
    case (Some e)
    obtain md where "cmods c (evalue e) = Some md" using Cons.prems(2) Some by (auto simp: live_def)
    then show ?thesis
      using Some i Cons.prems Cons.IH [of "discount md c" "keys @ [ekey e]"]
      by (auto simp: handlebars_map_get_kv_at_index_def live_def Let_def split: prod.splits)
  qed
qed

section \<open>Removing the collected keys\<close>

lemma bounded_items: "hmap_ok H m \<Longrightarrow> hm_bounded m \<longleftrightarrow> length (hm_items m) + 1 < 2 ^ 29"
  by (simp add: hmap_ok_def hm_bounded_def)

lemma remove_first:
  assumes "hmap_ok H m" "hm_items m = kv # kvs"
  shows "remove_item H (fst kv) (hm_items m) = kvs"
proof -
  have "kid H (fst kv) \<notin> (\<lambda>kv. kid H (fst kv)) ` set kvs" using items_distinct [OF assms(1)] assms(2) by simp
  then have "\<forall>x \<in> set ([] @ kvs). \<not> item_is H (fst kv) x"
    by (metis append_Nil image_eqI item_is_def prod.collapse string_eq_kid)
  moreover have "item_is H (fst kv) kv" by (metis item_is_self prod.collapse)
  ultimately show ?thesis using remove_item_split [of "[]" kvs H "fst kv" kv] assms(2) by simp
qed

lemma remove_prefix:
  assumes "hmap_ok H m" "hm_bounded m" "n \<le> length (hm_items m)"
  shows "\<exists>m'. efold (\<lambda>k m. handlebars_map_remove H m k) (map fst (take n (hm_items m))) m = Inr m' \<and>
     hmap_ok H m' \<and> hm_items m' = drop n (hm_items m) \<and> is_in_iteration m' = is_in_iteration m"
  using assms
proof (induction n arbitrary: m)
  case (Suc n)
  obtain kv kvs where kv: "hm_items m = kv # kvs" using Suc.prems(3) by (cases "hm_items m") auto
  obtain m1 where m1: "handlebars_map_remove H m (fst kv) = Inr m1" "hmap_ok H m1" "hm_items m1 = kvs"
      "is_in_iteration m1 = is_in_iteration m"
    using remove_ok [OF Suc.prems(1,2), of "fst kv"] remove_first [OF Suc.prems(1) kv] by auto
  have "hm_bounded m1" using m1 kv Suc.prems(1,2) by (simp add: bounded_items)
  from Suc.IH [OF m1(2) this] Suc.prems(3) m1 kv show ?case by auto
qed simp

section \<open>The collection\<close>

abbreviation older :: "(nat \<Rightarrow> handlebars_module option) \<Rightarrow> hstr \<times> nat \<Rightarrow> hstr \<times> nat \<Rightarrow> bool" where
  "older mods a b \<equiv> ts_at mods (snd a) \<le> ts_at mods (snd b)"

lemma cache_compare_le: "cache_compare mods a b \<le> 0 \<longleftrightarrow> older mods a b"
  by (simp add: cache_compare_def Let_def)

lemma stat_ok_cong:
  "cstat c' = cstat c \<Longrightarrow> cmods c' = cmods c \<Longrightarrow> mset kvs = mset kvs' \<Longrightarrow> stat_ok c kvs \<Longrightarrow> stat_ok c' kvs'"
proof -
  assume a: "cstat c' = cstat c" "cmods c' = cmods c" "mset kvs = mset kvs'" "stat_ok c kvs"
  have "total_size mods kvs = total_size mods kvs'" for mods
    unfolding total_size_def using arg_cong [OF a(3), of "\<lambda>M. sum_mset (image_mset (\<lambda>kv. size_at mods (snd kv)) M)"]
    by (simp add: sum_mset_sum_list [symmetric] del: sum_mset_sum_list)
  with a mset_eq_length [OF a(3)] mset_eq_setD [OF a(3)] show ?thesis by (simp add: stat_ok_def)
qed

lemma cache_sort_ok:
  assumes "cache_ok H c" "sorts sort_r"
  obtains m where "handlebars_map_sort sort_r H (cache_compare (cmods c)) (cmap c) = Inr m" "hmap_ok H m"
    "mset (hm_items m) = mset (citems c)" "sorted_wrt (older (cmods c)) (hm_items m)" "\<not> is_in_iteration m"
    "stat_ok c (hm_items m)" "hm_bounded m"
proof -
  have c: "hmap_ok H (cmap c)" "hm_bounded (cmap c)" "\<not> is_in_iteration (cmap c)" "stat_ok c (citems c)"
    using assms(1) by (auto simp: cache_ok_def)
  obtain m where m: "handlebars_map_sort sort_r H (cache_compare (cmods c)) (cmap c) = Inr m" "hmap_ok H m"
      "mset (hm_items m) = mset (citems c)" "\<not> is_in_iteration m"
      "(\<forall>a b. cache_compare (cmods c) a b \<le> 0 \<or> cache_compare (cmods c) b a \<le> 0) \<longrightarrow>
       (\<forall>a b d. cache_compare (cmods c) a b \<le> 0 \<longrightarrow> cache_compare (cmods c) b d \<le> 0 \<longrightarrow> cache_compare (cmods c) a d \<le> 0) \<longrightarrow>
       sorted_wrt (\<lambda>a b. cache_compare (cmods c) a b \<le> 0) (hm_items m)"
    using sort_ok [OF c(1-3) assms(2), of "cache_compare (cmods c)"] by blast
  have "sorted_wrt (older (cmods c)) (hm_items m)"
    using m(5) unfolding cache_compare_le by auto
  moreover have "hm_bounded m"
    using m(2) c(1,2) mset_eq_length [OF m(3)] by (simp add: bounded_items)
  ultimately show ?thesis using that m(1-4) stat_ok_cong [OF refl refl m(3) [symmetric] c(4)] by blast
qed

lemma items_of_vector: "map (\<lambda>e. (ekey e, evalue e)) (live (map ((!) (vec m)) [0..<vec_offset m])) = hm_items m"
  if "vec_offset m \<le> vec_capacity m"
proof -
  have "map ((!) (vec m)) [0..<vec_offset m] = take (vec_offset m) (vec m)"
    using that by (intro nth_equalityI) auto
  then show ?thesis by (simp add: hm_items_def)
qed

lemma gc_ok:
  assumes "cache_ok H c" "sorts sort_r"
  obtains kvs n c1 c' where "cache_gc sort_r H now c = Inr (n, c')"
    "mset kvs = mset (citems c)" "sorted_wrt (older (cmods c)) kvs" "(n, c1) = gc_items now c kvs" "n \<le> length kvs"
    "citems c' = drop n kvs" "c' = c1\<lparr>cmap := cmap c'\<rparr>" "cache_ok H c'"
proof -
  obtain m where m: "handlebars_map_sort sort_r H (cache_compare (cmods c)) (cmap c) = Inr m" "hmap_ok H m"
      "mset (hm_items m) = mset (citems c)" "sorted_wrt (older (cmods c)) (hm_items m)" "\<not> is_in_iteration m"
      "stat_ok c (hm_items m)" "hm_bounded m"
    by (rule cache_sort_ok [OF assms])
  let ?kvs = "hm_items m" and ?m1 = "m\<lparr>is_in_iteration := True\<rparr>"
  obtain n c1 where n: "gc_items now c ?kvs = (n, c1)" by (cases "gc_items now c ?kvs")
  have le: "n \<le> length ?kvs" using gc_items_le [of now c ?kvs] n by simp
  have vo: "vec_offset m \<le> vec_capacity m" using m(2) by (simp add: hmap_ok_def)
  have it: "map (\<lambda>e. (ekey e, evalue e)) (live (map ((!) (vec ?m1)) [0..<vec_offset m])) = ?kvs"
    using items_of_vector [OF vo] by simp
  have scan: "gc_scan now ?m1 [0..<vec_offset m] c [] = Inr (c1, map fst (take n ?kvs))"
    using gc_scan_items [of "[0..<vec_offset m]" ?m1 c now "[]"] m(6) n unfolding it by (auto simp: stat_ok_def)
  obtain m3 where m3: "efold (\<lambda>k m. handlebars_map_remove H m k) (map fst (take n ?kvs)) m = Inr m3" "hmap_ok H m3"
      "hm_items m3 = drop n ?kvs" "is_in_iteration m3 = is_in_iteration m"
    using remove_prefix [OF m(2,7) le] by blast
  have b3: "hm_bounded m3" using m(2,7) m3(2,3) by (auto simp: bounded_items)
  obtain m4 where m4: "handlebars_map_rehash H False m3 = Inr m4" "hmap_ok H m4" "hm_items m4 = hm_items m3"
      "is_in_iteration m4 = is_in_iteration m3"
    using rehash_ok [OF m3(2) b3, of False] by blast
  have m2: "?m1\<lparr>is_in_iteration := is_in_iteration m\<rparr> = m" by simp
  have "cache_gc sort_r H now c = Inr (n, c1\<lparr>cmap := m4\<rparr>)"
    using m(1) scan m3(1) m4(1) le
    by (simp add: cache_gc_def handlebars_map_set_is_in_iteration_def handlebars_map_sparse_array_count_def min_absorb2)
  moreover have "stat_ok c1 (drop n ?kvs)" using gc_items_stat [OF m(6), of now] n by simp
  then have "cache_ok H (c1\<lparr>cmap := m4\<rparr>)"
    using m4 m3 m(5) b3 by (simp add: cache_ok_def bounded_items stat_ok_def)
  ultimately show ?thesis using that [OF _ m(3,4) n [symmetric] le] m4(3) m3(3) by simp
qed

section \<open>Properties\<close>

text \<open>When an entry of the sorted items may be collected after those before it are gone.\<close>

definition collectable :: "int \<Rightarrow> handlebars_cache \<Rightarrow> (hstr \<times> nat) list \<Rightarrow> bool" where
  "collectable now c kvs \<longleftrightarrow>
     (max_age c \<ge> 0 \<and> now - ts_at (cmods c) (snd (hd kvs)) \<ge> max_age c) \<or>
     (max_entries c > 0 \<and> length kvs > max_entries c) \<or>
     (max_size c > 0 \<and> total_size (cmods c) kvs > max_size c)"

lemma gc_items_collects:
  "stat_ok c kvs \<Longrightarrow> k < fst (gc_items now c kvs) \<Longrightarrow> collectable now c (drop k kvs)"
proof (induction now c kvs arbitrary: k rule: gc_items.induct)
  case (2 now c kv kvs)
  obtain md where md: "cmods c (snd kv) = Some md" using 2(2) by (auto simp: stat_ok_def)
  then have sg: "should_gc_entry c md now" using 2(3) by (auto simp: Let_def split: if_splits)
  show ?case
  proof (cases k)
    case 0
    then show ?thesis using sg 2(2) md
      by (auto simp: collectable_def should_gc_entry_def should_gc_def stat_ok_def ts_at_def)
  next
    case (Suc j)
    have "collectable now (discount md c) (drop j kvs)"
      using 2(1) [OF refl] md sg discount_ok [OF 2(2) md] 2(3) Suc by (auto simp: Let_def split: prod.splits)
    then show ?thesis by (simp add: collectable_def Suc)
  qed
qed simp

text \<open>C28. Collecting in the cache removes the oldest entries: it sorts the entries by their time of last use,
  removes a prefix of them and keeps the statistics exact. It stops as soon as the next entry can stay, so
  unless it empties the cache, the limits on number and size hold afterwards, and no entry left has reached
  the maximal age; and every entry it removes was expired or above a limit at that point. The age limit is in force
  from 0 on: a maximal age of 0, which the comment at the field documents as no limit, empties the cache of
  everything used up to now; only a negative one switches the limit off.\<close>
theorem cache_gc_correct:
  assumes "cache_ok H c" "sorts sort_r"
  shows "\<exists>kvs n c'. cache_gc sort_r H now c = Inr (n, c') \<and> cache_ok H c' \<and> cmods c' = cmods c \<and>
     mset kvs = mset (citems c) \<and> sorted_wrt (older (cmods c)) kvs \<and> n \<le> length kvs \<and> citems c' = drop n kvs \<and>
     (citems c' \<noteq> [] \<longrightarrow> \<not> should_gc c') \<and>
     (max_age c \<ge> 0 \<longrightarrow> (\<forall>kv \<in> set (citems c'). now - ts_at (cmods c) (snd kv) < max_age c)) \<and>
     (max_age c = 0 \<and> (\<forall>kv \<in> set (citems c). ts_at (cmods c) (snd kv) \<le> now) \<longrightarrow> citems c' = []) \<and>
     (\<forall>k < n. collectable now c (drop k kvs))"
proof -
  obtain kvs n c1 c' where g: "cache_gc sort_r H now c = Inr (n, c')" "mset kvs = mset (citems c)"
      "sorted_wrt (older (cmods c)) kvs" "(n, c1) = gc_items now c kvs" "n \<le> length kvs"
      "citems c' = drop n kvs" "c' = c1\<lparr>cmap := cmap c'\<rparr>" "cache_ok H c'"
    by (rule gc_ok [OF assms])
  have c1: "cmods c1 = cmods c" "max_age c1 = max_age c" "max_size c1 = max_size c" "max_entries c1 = max_entries c"
    using gc_items_simps [of now c kvs] g(4) by (metis snd_conv)+
  have c': "cmods c' = cmods c" "max_age c' = max_age c" using c1 arg_cong [OF g(7), of cmods] arg_cong [OF g(7), of max_age] by simp_all
  have st: "stat_ok c kvs" using stat_ok_cong [OF refl refl g(2) [symmetric]] assms(1) by (simp add: cache_ok_def)
  have sg: "should_gc c' = should_gc c1" by (subst g(7)) (simp add: should_gc_def)
  have mod: "\<exists>md. cmods c (snd kv) = Some md \<and> mts md = ts_at (cmods c) (snd kv)" if "kv \<in> set kvs" for kv
    using assms(1) that mset_eq_setD [OF g(2)] by (fastforce simp: cache_ok_def stat_ok_def ts_at_def)
  have stop: "\<not> should_gc c' \<and> (max_age c \<ge> 0 \<longrightarrow> now - ts_at (cmods c) (snd kv) < max_age c)"
    if d: "drop n kvs = kv # rest" for kv rest
  proof -
    have "kv \<in> set kvs" using d by (metis in_set_dropD list.set_intros(1))
    then obtain md where md: "cmods c (snd kv) = Some md" "mts md = ts_at (cmods c) (snd kv)" using mod by blast
    have "\<not> should_gc_entry c1 md now"
      using gc_items_stop [of now c kvs kv rest] d md(1) by (simp add: g(4) [symmetric])
    then show ?thesis using md(2) c1(2) sg by (auto simp: should_gc_entry_def)
  qed
  have young: "\<forall>kv \<in> set (drop n kvs). now - ts_at (cmods c) (snd kv) < max_age c" if age: "max_age c \<ge> 0"
  proof (cases "drop n kvs")
    case (Cons kv rest)
    have "sorted_wrt (older (cmods c)) (kv # rest)" using sorted_wrt_drop [OF g(3), of n] Cons by simp
    with stop [OF Cons] age show ?thesis by (fastforce simp: Cons)
  qed simp
  have "\<forall>k < n. collectable now c (drop k kvs)"
    using gc_items_collects [of c kvs _ now] st by (simp add: g(4) [symmetric])
  moreover have "drop n kvs \<noteq> [] \<longrightarrow> \<not> should_gc c'" using stop by (cases "drop n kvs") auto
  moreover have "drop n kvs = []" if "max_age c = 0" "\<forall>kv \<in> set (citems c). ts_at (cmods c) (snd kv) \<le> now"
  proof (cases "drop n kvs")
    case (Cons kv rest)
    have "kv \<in> set (drop n kvs)" by (simp add: Cons)
    moreover from this have "kv \<in> set (citems c)" using mset_eq_setD [OF g(2)] by (auto dest: in_set_dropD)
    ultimately show ?thesis using young that by fastforce
  qed
  ultimately show ?thesis
    using g(1,2,3,5,8) c'(1) young unfolding g(6) [symmetric]
    by (intro exI [of _ kvs] exI [of _ n] exI [of _ c'] conjI impI) (assumption | blast | simp add: g(6))+
qed

lemma cache_ok_after_write:
  "cmods c a = Some md \<Longrightarrow> total_size ((cmods c)(a \<mapsto> md\<lparr>mts := now\<rparr>)) kvs = total_size (cmods c) kvs"
  unfolding total_size_def by (intro arg_cong [of _ _ sum_list] map_cong) (auto simp: size_at_def)

lemma subset_lookup: "mset kvs = mset kvs' \<Longrightarrow> lookup_item H k kvs' = None \<Longrightarrow> lookup_item H k (drop n kvs) = None"
  using mset_eq_setD [of kvs kvs'] by (auto simp: lookup_item_None dest: in_set_dropD)

lemma total_drop:
  "mset kvs = mset kvs' \<Longrightarrow> total_size mods (drop n kvs) \<le> total_size mods kvs'"
proof -
  assume "mset kvs = mset kvs'"
  then have "total_size mods kvs' = total_size mods kvs"
    unfolding total_size_def using arg_cong [of "mset kvs" _ "\<lambda>M. sum_mset (image_mset (\<lambda>kv. size_at mods (snd kv)) M)"]
    by (simp add: sum_mset_sum_list [symmetric] del: sum_mset_sum_list)
  also have "\<dots> = total_size mods (take n kvs) + total_size mods (drop n kvs)"
    using total_size_simps(3) [of mods "take n kvs" "drop n kvs"] by simp
  finally show ?thesis by simp
qed

lemma before_add:
  assumes "cache_ok H c" "sorts sort_r"
  obtains c1 kvs n where "(if should_gc c then ebind (cache_gc sort_r H now c) (\<lambda>(_, c'). Inr c') else Inr c) = Inr c1"
    "cache_ok H c1" "mset kvs = mset (citems c)" "citems c1 = drop n kvs" "cmods c1 = cmods c"
proof (cases "should_gc c")
  case True
  obtain kvs n c1 c' where "cache_gc sort_r H now c = Inr (n, c')" "mset kvs = mset (citems c)"
      "(n, c1) = gc_items now c kvs" "citems c' = drop n kvs" "c' = c1\<lparr>cmap := cmap c'\<rparr>" "cache_ok H c'"
    by (rule gc_ok [OF assms])
  moreover from this have "cmods c' = cmods c"
    using gc_items_simps(1) [of now c kvs] by (metis handlebars_cache.select_convs(2) handlebars_cache.surjective handlebars_cache.update_convs(1) snd_conv)
  ultimately show ?thesis using that True by simp
next
  case False
  then show ?thesis using that [of c "citems c" 0] assms(1) by simp
qed

text \<open>C29. A module added under a new key is found under it: the cache makes room first, the statistics count
  the new entry, and the lookup returns the module's address, counts a hit and renews the module's time,
  whatever was collected in between.\<close>
theorem cache_add_find:
  assumes "cache_ok H c" "sorts sort_r" "lookup_item H tmpl (citems c) = None" "cmods c a = Some md"
    and "length (citems c) + 2 < 2 ^ 29" "total_size (cmods c) (citems c) + msize md < 2 ^ 64"
  shows "\<exists>c1 c2. cache_add sort_r H now c tmpl a = Inr c1 \<and> cache_ok H c1 \<and>
     (\<exists>kvs. citems c1 = kvs @ [(tmpl, a)] \<and> set kvs \<subseteq> set (citems c)) \<and>
     cache_find H now' c1 tmpl = Inr (Some a, c2) \<and> cmods c2 a = Some (md\<lparr>mts := now'\<rparr>) \<and>
     hits (cstat c2) = hits (cstat c1) + 1"
proof -
  obtain c0 kvs n where c0: "(if should_gc c then ebind (cache_gc sort_r H now c) (\<lambda>(_, c'). Inr c') else Inr c) = Inr c0"
      "cache_ok H c0" "mset kvs = mset (citems c)" "citems c0 = drop n kvs" "cmods c0 = cmods c"
    by (rule before_add [OF assms(1,2)])
  have len: "length (citems c0) \<le> length (citems c)" using mset_eq_length [OF c0(3)] c0(4) by simp
  have c0': "hmap_ok H (cmap c0)" "hm_bounded (cmap c0)" "\<not> is_in_iteration (cmap c0)" "stat_ok c0 (citems c0)"
    using c0(2) by (auto simp: cache_ok_def)
  have absent: "\<not> (\<exists>kv \<in> set (citems c0). item_is H tmpl kv)"
    using subset_lookup [OF c0(3) assms(3), of n] c0(4) by (simp add: lookup_item_None)
  obtain m where m: "handlebars_map_add H (cmap c0) tmpl a = Inr m" "hmap_ok H m" "hm_items m = citems c0 @ [(tmpl, a)]"
      "is_in_iteration m = is_in_iteration (cmap c0)"
    using add_ok [OF c0'(1) _ absent, of a] c0'(2,3) by (auto simp: hm_room_def)
  have bm: "hm_bounded m" using m(2,3) len assms(5) by (simp add: bounded_items)
  let ?mods = "(cmods c)(a \<mapsto> md\<lparr>mts := now\<rparr>)"
  let ?st = "(cstat c0)\<lparr>current_entries := size_add (current_entries (cstat c0)) 1,
                        current_size := size_add (current_size (cstat c0)) (msize md)\<rparr>"
  define c1 where "c1 = c0\<lparr>cmap := m, cmods := ?mods, cstat := ?st\<rparr>"
  have add: "cache_add sort_r H now c tmpl a = Inr c1"
    using c0(1,5) m(1) assms(4) by (simp add: cache_add_def c1_def)
  have tot: "total_size (cmods c) (citems c0) + msize md < 2 ^ 64"
    using total_drop [OF c0(3), of "cmods c" n] assms(6) c0(4) by simp
  have "total_size ?mods (hm_items m) = total_size (cmods c) (citems c0) + msize md"
    using cache_ok_after_write [OF assms(4)] m(3) by (simp add: size_at_def)
  then have "stat_ok c1 (hm_items m)"
    using c0'(4) m(3) tot len assms(5) c0(5) by (auto simp: stat_ok_def c1_def size_add_exact)
  then have ok1: "cache_ok H c1" using m bm c0'(3) by (simp add: cache_ok_def c1_def)
  have "lookup_item H tmpl (hm_items m) = Some a"
    using absent m(3) by (simp add: lookup_item_append lookup_item_None [THEN iffD2] string_eq_kid)
  then have "handlebars_map_find H (cmap c1) tmpl = Inr (Some a)"
    using find_ok [OF m(2)] by (simp add: c1_def)
  then have "cache_find H now' c1 tmpl = Inr (Some a, c1\<lparr>cmods := (cmods c1)(a \<mapsto> md\<lparr>mts := now'\<rparr>),
      cstat := (cstat c1)\<lparr>hits := hits (cstat c1) + 1\<rparr>\<rparr>)"
    by (simp add: cache_find_def c1_def)
  moreover have "citems c1 = citems c0 @ [(tmpl, a)]" "set (citems c0) \<subseteq> set (citems c)"
    using m(3) c0(4) mset_eq_setD [OF c0(3)] by (auto simp: c1_def dest: in_set_dropD)
  ultimately show ?thesis using add ok1 by auto
qed

section \<open>A cache with three entries\<close>

definition sample_module :: "int \<Rightarrow> handlebars_module" where
  "sample_module t = \<lparr>mhash = 0, mversion = 0, maddr = 0, msize = 100, mts = t, mflags = 0, mprogram_count = 0,
     mprograms_ptr = 0, mopcode_count = 0, mopcodes_ptr = 0, mdata_offset = 0, mprograms = [], mopcodes = [],
     mdata = (\<lambda>_. None)\<rparr>"

definition sample_cache :: "int \<Rightarrow> handlebars_cache" where
  "sample_cache age = \<lparr>cmap = sample_map, cmods = (\<lambda>a. if a \<in> {10, 20, 30, 40} then Some (sample_module (int a)) else None),
     cstat = \<lparr>current_entries = 3, current_size = 300, hits = 0, misses = 0\<rparr>,
     max_age = age, max_entries = 2, max_size = 0\<rparr>"

lemma sample_cache_ok: "cache_ok sample_hash (sample_cache age)"
  using sample_map_ok sample_room
  by (simp add: cache_ok_def sample_cache_def stat_ok_def sample_items size_at_def sample_module_def) (simp add: sample_map_def)

lemma sample_age: "max_age (sample_cache age) = age"
  by (simp add: sample_cache_def)

theorem cache_gc_correct_witness:
  "\<exists>n c'. cache_gc insertion_sort sample_hash 45 (sample_cache 20) = Inr (n, c') \<and> set (map snd (citems c')) \<subseteq> {40} \<and>
     \<not> should_gc c' \<and> (\<exists>k d. cache_gc insertion_sort sample_hash 45 (sample_cache 0) = Inr (k, d) \<and> citems d = [])"
proof -
  obtain kvs n c' where g: "cache_gc insertion_sort sample_hash 45 (sample_cache 20) = Inr (n, c')"
      "cache_ok sample_hash c'" "mset kvs = mset (citems (sample_cache 20))" "citems c' = drop n kvs"
      "citems c' \<noteq> [] \<longrightarrow> \<not> should_gc c'"
      "\<forall>kv \<in> set (citems c'). 45 - ts_at (cmods (sample_cache 20)) (snd kv) < 20"
    using cache_gc_correct [OF sample_cache_ok insertion_sort_sorts, of 45 20] by (force simp: sample_age)
  have "set (citems c') \<subseteq> set (hm_items sample_map)"
    using mset_eq_setD [OF g(3)] by (auto simp: g(4) sample_cache_def dest: in_set_dropD)
  moreover have "snd kv \<in> {10, 20, 40} \<Longrightarrow> 45 - ts_at (cmods (sample_cache 20)) (snd kv) < 20 \<Longrightarrow> snd kv = 40"
    for kv :: "hstr \<times> nat"
    by (auto simp: sample_cache_def ts_at_def sample_module_def)
  ultimately have "set (map snd (citems c')) \<subseteq> {40}"
    using g(6) by (fastforce simp: sample_items)
  moreover have "\<not> should_gc c'" if "citems c' = []"
    using g(2) that by (simp add: should_gc_def cache_ok_def stat_ok_def)
  moreover have "\<forall>kv \<in> set (citems (sample_cache 0)). ts_at (cmods (sample_cache 0)) (snd kv) \<le> 45"
    by (simp add: sample_cache_def sample_items ts_at_def sample_module_def)
  then have "\<exists>k d. cache_gc insertion_sort sample_hash 45 (sample_cache 0) = Inr (k, d) \<and> citems d = []"
    using cache_gc_correct [OF sample_cache_ok insertion_sort_sorts, of 45 0] by (force simp: sample_age)
  ultimately show ?thesis using g(1,5) by blast
qed

theorem cache_add_find_witness:
  "\<exists>c1 c2. cache_add insertion_sort sample_hash 50 (sample_cache 20) (ekey (sample_entry 3 0)) 30 = Inr c1 \<and>
     cache_find sample_hash 60 c1 (ekey (sample_entry 3 0)) = Inr (Some 30, c2)"
  using cache_add_find [OF sample_cache_ok insertion_sort_sorts, of "ekey (sample_entry 3 0)" 20 30 "sample_module 30" 50 60]
  by (auto simp: sample_cache_def lookup_item_def sample_items sample_item_is sample_kid size_at_def sample_module_def)

end
