(* ===== verification/Ast.thy ===== *)
theory Ast
  imports HString Opcodes
begin

text \<open>
  The syntax tree (src/handlebars_ast.h, src/handlebars_ast.c). A node has its strip flags, its location and
  a tagged union. The structures of the union are polymorphic in the type of the nodes they point to, and
  \<open>handlebars_ast_node\<close> ties the knot. Every pointer of a structure is an option (\<open>None\<close> is NULL), because the
  constructor zeroes the memory and the parser leaves fields unset. A list of nodes is a list of the nodes'
  values: the tree owns its nodes and no node is in two places. An operation that writes into a node returns
  the node.
\<close>

section \<open>Nodes\<close>

datatype handlebars_ast_node_type =
    HANDLEBARS_AST_NODE_NIL | HANDLEBARS_AST_NODE_BLOCK | HANDLEBARS_AST_NODE_BOOLEAN | HANDLEBARS_AST_NODE_COMMENT
  | HANDLEBARS_AST_NODE_CONTENT | HANDLEBARS_AST_NODE_HASH | HANDLEBARS_AST_NODE_HASH_PAIR
  | HANDLEBARS_AST_NODE_INTERMEDIATE | HANDLEBARS_AST_NODE_INVERSE | HANDLEBARS_AST_NODE_MUSTACHE
  | HANDLEBARS_AST_NODE_NUL | HANDLEBARS_AST_NODE_NUMBER | HANDLEBARS_AST_NODE_PARTIAL
  | HANDLEBARS_AST_NODE_PARTIAL_BLOCK | HANDLEBARS_AST_NODE_PATH | HANDLEBARS_AST_NODE_PATH_SEGMENT
  | HANDLEBARS_AST_NODE_PROGRAM | HANDLEBARS_AST_NODE_RAW_BLOCK | HANDLEBARS_AST_NODE_SEXPR
  | HANDLEBARS_AST_NODE_STRING | HANDLEBARS_AST_NODE_UNDEFINED

fun handlebars_ast_node_readable_type :: "handlebars_ast_node_type \<Rightarrow> string" where
  "handlebars_ast_node_readable_type HANDLEBARS_AST_NODE_NIL = ''NIL''"
| "handlebars_ast_node_readable_type HANDLEBARS_AST_NODE_BLOCK = ''block''"
| "handlebars_ast_node_readable_type HANDLEBARS_AST_NODE_BOOLEAN = ''BooleanLiteral''"
| "handlebars_ast_node_readable_type HANDLEBARS_AST_NODE_COMMENT = ''comment''"
| "handlebars_ast_node_readable_type HANDLEBARS_AST_NODE_CONTENT = ''content''"
| "handlebars_ast_node_readable_type HANDLEBARS_AST_NODE_HASH = ''hash''"
| "handlebars_ast_node_readable_type HANDLEBARS_AST_NODE_HASH_PAIR = ''HASH_PAIR''"
| "handlebars_ast_node_readable_type HANDLEBARS_AST_NODE_INTERMEDIATE = ''INTERMEDIATE''"
| "handlebars_ast_node_readable_type HANDLEBARS_AST_NODE_INVERSE = ''INVERSE''"
| "handlebars_ast_node_readable_type HANDLEBARS_AST_NODE_MUSTACHE = ''mustache''"
| "handlebars_ast_node_readable_type HANDLEBARS_AST_NODE_NUMBER = ''NumberLiteral''"
| "handlebars_ast_node_readable_type HANDLEBARS_AST_NODE_PARTIAL = ''partial''"
| "handlebars_ast_node_readable_type HANDLEBARS_AST_NODE_PARTIAL_BLOCK = ''PartialBlockStatement''"
| "handlebars_ast_node_readable_type HANDLEBARS_AST_NODE_PATH = ''PathExpression''"
| "handlebars_ast_node_readable_type HANDLEBARS_AST_NODE_PATH_SEGMENT = ''PATH_SEGMENT''"
| "handlebars_ast_node_readable_type HANDLEBARS_AST_NODE_PROGRAM = ''program''"
| "handlebars_ast_node_readable_type HANDLEBARS_AST_NODE_RAW_BLOCK = ''raw_block''"
| "handlebars_ast_node_readable_type HANDLEBARS_AST_NODE_SEXPR = ''SubExpression''"
| "handlebars_ast_node_readable_type HANDLEBARS_AST_NODE_STRING = ''StringLiteral''"
| "handlebars_ast_node_readable_type HANDLEBARS_AST_NODE_UNDEFINED = ''UNDEFINED''"
| "handlebars_ast_node_readable_type HANDLEBARS_AST_NODE_NUL = ''NULL''"

datatype 'n handlebars_ast_node_block =
  ast_block (block_path: "'n option") (block_args: "'n list option") (block_hash: "'n option")
    (block_program: "'n option") (block_inverse: "'n option") (open_strip: u32) (inverse_strip: u32)
    (close_strip: u32) (block_is_decorator: bool)

datatype handlebars_ast_node_literal =
  ast_literal (lit_value: "hstr option") (lit_original: "hstr option") (is_single_quoted: bool)

datatype 'n handlebars_ast_node_intermediate =
  ast_intermediate (inter_path: "'n option") (inter_args: "'n list option") (inter_hash: "'n option")
    (inter_block_param1: "hstr option") (inter_block_param2: "hstr option") (inter_open: "hstr option")

datatype 'n handlebars_ast_node_mustache =
  ast_mustache (must_path: "'n option") (must_args: "'n list option") (must_hash: "'n option")
    (unescaped: u8) (must_is_decorator: bool)

datatype 'n handlebars_ast_node_partial =
  ast_partial (part_name: "'n option") (part_args: "'n list option") (part_hash: "'n option")
    (part_indent: "hstr option")

datatype 'n handlebars_ast_node_path =
  ast_path (path_original: "hstr option") (path_parts: "'n list option") (path_depth: u32) (path_data: bool)
    (path_falsy: bool) (path_strict: bool)

datatype 'n handlebars_ast_node_program =
  ast_program (prog_statements: "'n list option") (prog_block_param1: "hstr option")
    (prog_block_param2: "hstr option") (prog_chained: bool)

datatype 'n handlebars_ast_node_sexpr =
  ast_sexpr (sexpr_path: "'n option") (sexpr_args: "'n list option") (sexpr_hash: "'n option")

datatype 'n handlebars_ast_internals =
    NODE_NIL
  | NODE_BLOCK "'n handlebars_ast_node_block"
  | NODE_BOOLEAN handlebars_ast_node_literal
  | NODE_COMMENT "hstr option" bool
  | NODE_CONTENT handlebars_ast_node_literal
  | NODE_HASH "'n list option"
  | NODE_HASH_PAIR "hstr option" "'n option"
  | NODE_INTERMEDIATE "'n handlebars_ast_node_intermediate"
  | NODE_INVERSE "'n option" bool
  | NODE_MUSTACHE "'n handlebars_ast_node_mustache"
  | NODE_NUL handlebars_ast_node_literal
  | NODE_NUMBER handlebars_ast_node_literal
  | NODE_PARTIAL "'n handlebars_ast_node_partial"
  | NODE_PARTIAL_BLOCK "'n handlebars_ast_node_block"
  | NODE_PATH "'n handlebars_ast_node_path"
  | NODE_PATH_SEGMENT "hstr option" "hstr option" "hstr option"
  | NODE_PROGRAM "'n handlebars_ast_node_program"
  | NODE_RAW_BLOCK "'n handlebars_ast_node_block"
  | NODE_SEXPR "'n handlebars_ast_node_sexpr"
  | NODE_STRING handlebars_ast_node_literal
  | NODE_UNDEFINED handlebars_ast_node_literal

datatype handlebars_ast_node =
  ast_node (nstrip: u32) (nloc: handlebars_locinfo) (nbody: "handlebars_ast_node handlebars_ast_internals")

type_synonym node = handlebars_ast_node

fun ast_type :: "node \<Rightarrow> handlebars_ast_node_type" where
  "ast_type (ast_node _ _ body) =
     (case body of
        NODE_NIL \<Rightarrow> HANDLEBARS_AST_NODE_NIL
      | NODE_BLOCK _ \<Rightarrow> HANDLEBARS_AST_NODE_BLOCK
      | NODE_BOOLEAN _ \<Rightarrow> HANDLEBARS_AST_NODE_BOOLEAN
      | NODE_COMMENT _ _ \<Rightarrow> HANDLEBARS_AST_NODE_COMMENT
      | NODE_CONTENT _ \<Rightarrow> HANDLEBARS_AST_NODE_CONTENT
      | NODE_HASH _ \<Rightarrow> HANDLEBARS_AST_NODE_HASH
      | NODE_HASH_PAIR _ _ \<Rightarrow> HANDLEBARS_AST_NODE_HASH_PAIR
      | NODE_INTERMEDIATE _ \<Rightarrow> HANDLEBARS_AST_NODE_INTERMEDIATE
      | NODE_INVERSE _ _ \<Rightarrow> HANDLEBARS_AST_NODE_INVERSE
      | NODE_MUSTACHE _ \<Rightarrow> HANDLEBARS_AST_NODE_MUSTACHE
      | NODE_NUL _ \<Rightarrow> HANDLEBARS_AST_NODE_NUL
      | NODE_NUMBER _ \<Rightarrow> HANDLEBARS_AST_NODE_NUMBER
      | NODE_PARTIAL _ \<Rightarrow> HANDLEBARS_AST_NODE_PARTIAL
      | NODE_PARTIAL_BLOCK _ \<Rightarrow> HANDLEBARS_AST_NODE_PARTIAL_BLOCK
      | NODE_PATH _ \<Rightarrow> HANDLEBARS_AST_NODE_PATH
      | NODE_PATH_SEGMENT _ _ _ \<Rightarrow> HANDLEBARS_AST_NODE_PATH_SEGMENT
      | NODE_PROGRAM _ \<Rightarrow> HANDLEBARS_AST_NODE_PROGRAM
      | NODE_RAW_BLOCK _ \<Rightarrow> HANDLEBARS_AST_NODE_RAW_BLOCK
      | NODE_SEXPR _ \<Rightarrow> HANDLEBARS_AST_NODE_SEXPR
      | NODE_STRING _ \<Rightarrow> HANDLEBARS_AST_NODE_STRING
      | NODE_UNDEFINED _ \<Rightarrow> HANDLEBARS_AST_NODE_UNDEFINED)"

abbreviation null_literal :: handlebars_ast_node_literal where
  "null_literal \<equiv> ast_literal None None False"

abbreviation null_block :: "node handlebars_ast_node_block" where
  "null_block \<equiv> ast_block None None None None None 0 0 0 False"

text \<open>The memory of a new node is zero apart from its type.\<close>

fun handlebars_ast_node_ctor :: "handlebars_ast_node_type \<Rightarrow> node" where
  "handlebars_ast_node_ctor type = ast_node 0 no_loc
     (case type of
        HANDLEBARS_AST_NODE_NIL \<Rightarrow> NODE_NIL
      | HANDLEBARS_AST_NODE_BLOCK \<Rightarrow> NODE_BLOCK null_block
      | HANDLEBARS_AST_NODE_BOOLEAN \<Rightarrow> NODE_BOOLEAN null_literal
      | HANDLEBARS_AST_NODE_COMMENT \<Rightarrow> NODE_COMMENT None False
      | HANDLEBARS_AST_NODE_CONTENT \<Rightarrow> NODE_CONTENT null_literal
      | HANDLEBARS_AST_NODE_HASH \<Rightarrow> NODE_HASH None
      | HANDLEBARS_AST_NODE_HASH_PAIR \<Rightarrow> NODE_HASH_PAIR None None
      | HANDLEBARS_AST_NODE_INTERMEDIATE \<Rightarrow> NODE_INTERMEDIATE (ast_intermediate None None None None None None)
      | HANDLEBARS_AST_NODE_INVERSE \<Rightarrow> NODE_INVERSE None False
      | HANDLEBARS_AST_NODE_MUSTACHE \<Rightarrow> NODE_MUSTACHE (ast_mustache None None None 0 False)
      | HANDLEBARS_AST_NODE_NUL \<Rightarrow> NODE_NUL null_literal
      | HANDLEBARS_AST_NODE_NUMBER \<Rightarrow> NODE_NUMBER null_literal
      | HANDLEBARS_AST_NODE_PARTIAL \<Rightarrow> NODE_PARTIAL (ast_partial None None None None)
      | HANDLEBARS_AST_NODE_PARTIAL_BLOCK \<Rightarrow> NODE_PARTIAL_BLOCK null_block
      | HANDLEBARS_AST_NODE_PATH \<Rightarrow> NODE_PATH (ast_path None None 0 False False False)
      | HANDLEBARS_AST_NODE_PATH_SEGMENT \<Rightarrow> NODE_PATH_SEGMENT None None None
      | HANDLEBARS_AST_NODE_PROGRAM \<Rightarrow> NODE_PROGRAM (ast_program None None None False)
      | HANDLEBARS_AST_NODE_RAW_BLOCK \<Rightarrow> NODE_RAW_BLOCK null_block
      | HANDLEBARS_AST_NODE_SEXPR \<Rightarrow> NODE_SEXPR (ast_sexpr None None None)
      | HANDLEBARS_AST_NODE_STRING \<Rightarrow> NODE_STRING null_literal
      | HANDLEBARS_AST_NODE_UNDEFINED \<Rightarrow> NODE_UNDEFINED null_literal)"

section \<open>Strip flags\<close>

definition strip_flag_set :: u32 where "strip_flag_set = 1"
definition strip_flag_left :: u32 where "strip_flag_left = 2"
definition strip_flag_right :: u32 where "strip_flag_right = 4"
definition strip_flag_open_standalone :: u32 where "strip_flag_open_standalone = 8"
definition strip_flag_close_standalone :: u32 where "strip_flag_close_standalone = 16"
definition strip_flag_inline_standalone :: u32 where "strip_flag_inline_standalone = 32"
definition strip_flag_left_stripped :: u32 where "strip_flag_left_stripped = 64"
definition strip_flag_right_stripped :: u32 where "strip_flag_right_stripped = 128"

lemmas strip_flag_defs = strip_flag_set_def strip_flag_left_def strip_flag_right_def strip_flag_open_standalone_def
  strip_flag_close_standalone_def strip_flag_inline_standalone_def strip_flag_left_stripped_def
  strip_flag_right_stripped_def

abbreviation has_flag :: "'a::len word \<Rightarrow> 'a word \<Rightarrow> bool" where
  "has_flag strip flag \<equiv> strip AND flag \<noteq> 0"

fun set_strip :: "node \<Rightarrow> u32 \<Rightarrow> node" where
  "set_strip (ast_node s l b) s' = ast_node s' l b"

definition handlebars_ast_node_set_strip :: "node \<Rightarrow> u32 \<Rightarrow> node" where
  "handlebars_ast_node_set_strip n flag = set_strip n flag"

section \<open>Accessors\<close>

text \<open>
  The accessor reads the first part as a segment; the source asserts its type.
\<close>

definition handlebars_ast_node_get_id_part :: "node \<Rightarrow> hbs_error + hstr option" where
  "handlebars_ast_node_get_id_part n =
     (case nbody n of
        NODE_PATH p \<Rightarrow>
          (case path_parts p of
             None \<Rightarrow> Inr None
           | Some [] \<Rightarrow> Inr None
           | Some (seg # _) \<Rightarrow>
               (case nbody seg of
                  NODE_PATH_SEGMENT part _ _ \<Rightarrow> Inr part
                | _ \<Rightarrow> Inl Assert_fail))
      | _ \<Rightarrow> Inl Assert_fail)"

definition handlebars_ast_node_get_string_mode_value :: "node \<Rightarrow> hstr option" where
  "handlebars_ast_node_get_string_mode_value n =
     (case nbody n of
        NODE_PATH p \<Rightarrow> path_original p
      | NODE_STRING l \<Rightarrow> lit_value l
      | NODE_NUMBER l \<Rightarrow> lit_value l
      | NODE_BOOLEAN l \<Rightarrow> lit_value l
      | NODE_UNDEFINED l \<Rightarrow> lit_value l
      | NODE_NUL l \<Rightarrow> lit_value l
      | _ \<Rightarrow> Some (handlebars_string_ctor []))"

definition handlebars_ast_node_get_path :: "node \<Rightarrow> node option" where
  "handlebars_ast_node_get_path n =
     (case nbody n of
        NODE_BLOCK b \<Rightarrow> block_path b
      | NODE_INTERMEDIATE i \<Rightarrow> inter_path i
      | NODE_MUSTACHE m \<Rightarrow> must_path m
      | NODE_PARTIAL p \<Rightarrow> part_name p
      | NODE_PARTIAL_BLOCK b \<Rightarrow> block_path b
      | NODE_SEXPR s \<Rightarrow> sexpr_path s
      | NODE_RAW_BLOCK b \<Rightarrow> block_path b
      | _ \<Rightarrow> None)"

definition handlebars_ast_node_get_params :: "node \<Rightarrow> node list option" where
  "handlebars_ast_node_get_params n =
     (case nbody n of
        NODE_BLOCK b \<Rightarrow> block_args b
      | NODE_INTERMEDIATE i \<Rightarrow> inter_args i
      | NODE_MUSTACHE m \<Rightarrow> must_args m
      | NODE_PARTIAL p \<Rightarrow> part_args p
      | NODE_PARTIAL_BLOCK b \<Rightarrow> block_args b
      | NODE_SEXPR s \<Rightarrow> sexpr_args s
      | NODE_RAW_BLOCK b \<Rightarrow> block_args b
      | _ \<Rightarrow> None)"

definition handlebars_ast_node_get_hash :: "node \<Rightarrow> node option" where
  "handlebars_ast_node_get_hash n =
     (case nbody n of
        NODE_BLOCK b \<Rightarrow> block_hash b
      | NODE_INTERMEDIATE i \<Rightarrow> inter_hash i
      | NODE_MUSTACHE m \<Rightarrow> must_hash m
      | NODE_PARTIAL p \<Rightarrow> part_hash p
      | NODE_PARTIAL_BLOCK b \<Rightarrow> block_hash b
      | NODE_SEXPR s \<Rightarrow> sexpr_hash s
      | NODE_RAW_BLOCK b \<Rightarrow> block_hash b
      | _ \<Rightarrow> None)"

section \<open>The nodes of a node\<close>

text \<open>A node is larger than the nodes its structure points to, so recursion over the tree ends.\<close>

definition subnodes :: "node handlebars_ast_internals \<Rightarrow> node set" where
  "subnodes = set_handlebars_ast_internals"

lemma size_in_list: "x \<in> set xs \<Longrightarrow> size x \<le> size_list size xs"
  using size_list_estimation' [of x xs "size x" size] by simp

lemma size_in_list_option: "xs \<in> set_option n \<Longrightarrow> x \<in> set xs \<Longrightarrow> size x \<le> size_option (size_list size) n"
  using size_list_estimation' [of x xs "size x" size] by (cases n) auto

lemma size_in_option: "x \<in> set_option n \<Longrightarrow> size x \<le> size_option size n"
  by (cases n) auto

lemma block_smaller: "x \<in> set_handlebars_ast_node_block b \<Longrightarrow> size x < Suc (Suc (size_handlebars_ast_node_block size b))"
  by (cases b) (auto dest: size_in_list size_in_list_option size_in_option)

lemma intermediate_smaller: "x \<in> set_handlebars_ast_node_intermediate b \<Longrightarrow> size x < Suc (Suc (size_handlebars_ast_node_intermediate size b))"
  by (cases b) (auto dest: size_in_list size_in_list_option size_in_option)

lemma mustache_smaller: "x \<in> set_handlebars_ast_node_mustache b \<Longrightarrow> size x < Suc (Suc (size_handlebars_ast_node_mustache size b))"
  by (cases b) (auto dest: size_in_list size_in_list_option size_in_option)

lemma partial_smaller: "x \<in> set_handlebars_ast_node_partial b \<Longrightarrow> size x < Suc (Suc (size_handlebars_ast_node_partial size b))"
  by (cases b) (auto dest: size_in_list size_in_list_option size_in_option)

lemma path_smaller: "x \<in> set_handlebars_ast_node_path b \<Longrightarrow> size x < Suc (Suc (size_handlebars_ast_node_path size b))"
  by (cases b) (auto dest: size_in_list size_in_list_option size_in_option)

lemma program_smaller: "x \<in> set_handlebars_ast_node_program b \<Longrightarrow> size x < Suc (Suc (size_handlebars_ast_node_program size b))"
  by (cases b) (auto dest: size_in_list size_in_list_option size_in_option)

lemma sexpr_smaller: "x \<in> set_handlebars_ast_node_sexpr b \<Longrightarrow> size x < Suc (Suc (size_handlebars_ast_node_sexpr size b))"
  by (cases b) (auto dest: size_in_list size_in_list_option size_in_option)

lemma pairs_smaller: "x \<in> set xs \<Longrightarrow> size x < Suc (Suc (Suc (size_list size xs)))" for xs :: "node list"
  using size_in_list [of x xs] by simp

lemmas node_smaller = block_smaller intermediate_smaller mustache_smaller partial_smaller path_smaller program_smaller
  sexpr_smaller pairs_smaller

lemma subnodes_smaller: "x \<in> subnodes body \<Longrightarrow> size x < size (ast_node s l body)"
  by (cases body) (auto simp: subnodes_def intro: node_smaller)

lemma struct_nodes:
  "set_handlebars_ast_node_block b = set_option (block_path b) \<union> (\<Union>xs \<in> set_option (block_args b). set xs) \<union>
     set_option (block_hash b) \<union> set_option (block_program b) \<union> set_option (block_inverse b)"
  "set_handlebars_ast_node_mustache m = set_option (must_path m) \<union> (\<Union>xs \<in> set_option (must_args m). set xs) \<union>
     set_option (must_hash m)"
  "set_handlebars_ast_node_partial p = set_option (part_name p) \<union> (\<Union>xs \<in> set_option (part_args p). set xs) \<union>
     set_option (part_hash p)"
  "set_handlebars_ast_node_program q = (\<Union>xs \<in> set_option (prog_statements q). set xs)"
  "set_handlebars_ast_node_sexpr x = set_option (sexpr_path x) \<union> (\<Union>xs \<in> set_option (sexpr_args x). set xs) \<union>
     set_option (sexpr_hash x)"
  by ((cases b; auto), (cases m; auto), (cases p; auto), (cases q; auto), (cases x; auto))

lemmas block_nodes = struct_nodes(1)

text \<open>The nodes a handler may visit: the children, and the values of the pairs of a hash.\<close>

definition near :: "node handlebars_ast_internals \<Rightarrow> node set" where
  "near body = subnodes body \<union> (\<Union>x \<in> subnodes body. subnodes (nbody x))"

lemma near_smaller: "x \<in> near body \<Longrightarrow> size x < size (ast_node s l body)"
proof -
  have "size x < size y" if "x \<in> subnodes (nbody y)" for y
    using subnodes_smaller [OF that] by (metis handlebars_ast_node.exhaust_sel)
  moreover assume "x \<in> near body"
  ultimately show ?thesis using subnodes_smaller [of _ body s l] by (fastforce simp: near_def)
qed

end
