(* ===== verification/AstHelpers.thy ===== *)
theory AstHelpers
  imports Ast
begin

text \<open>
  The constructors of the parser's nodes (src/handlebars_ast.c) and the functions its actions call to build
  them (src/handlebars_ast_helpers.c). \<open>byte_at\<close> is \<open>hbs_str_val(s)[i]\<close>, whose last byte is the terminator.
  A pointer the code follows without a test is an argument here; where it may be NULL the model tests it and
  \<open>Mem_error\<close> is the crash.
\<close>

definition byte_at :: "hstr \<Rightarrow> nat \<Rightarrow> char" where
  "byte_at s i = (if i < length (sval s) then sval s ! i else NUL)"

definition c_string :: "hstr \<Rightarrow> string" where
  "c_string s = takeWhile (\<lambda>c. c \<noteq> NUL) (sval s)"

fun strstr :: "string \<Rightarrow> string \<Rightarrow> string option" where
  "strstr hay needle =
     (if take (length needle) hay = needle then Some hay
      else (case hay of [] \<Rightarrow> None | _ # rest \<Rightarrow> strstr rest needle))"

declare strstr.simps [simp del]

section \<open>Strip flags and comments\<close>

definition handlebars_ast_helper_strip_flags :: "hstr option \<Rightarrow> hstr option \<Rightarrow> u32" where
  "handlebars_ast_helper_strip_flags open_str close_str =
     (case open_str of
        Some s \<Rightarrow> if hbs_str_len s \<ge> 3 \<and> byte_at s 2 = CHR ''~'' then strip_flag_left else 0
      | None \<Rightarrow> 0) OR
     (case close_str of
        Some s \<Rightarrow> if hbs_str_len s \<ge> 3 \<and> byte_at s (hbs_str_len s - 3) = CHR ''~'' then strip_flag_right else 0
      | None \<Rightarrow> 0) OR
     strip_flag_set"

definition handlebars_ast_helper_set_strip_flags :: "node \<Rightarrow> hstr option \<Rightarrow> hstr option \<Rightarrow> node" where
  "handlebars_ast_helper_set_strip_flags n open_str close_str =
     (let strip = handlebars_ast_helper_strip_flags open_str close_str
      in set_strip n (if ast_type n = HANDLEBARS_AST_NODE_PARTIAL then strip OR strip_flag_inline_standalone
                      else strip))"

definition handlebars_ast_helper_strip_comment_left :: "hstr \<Rightarrow> nat" where
  "handlebars_ast_helper_strip_comment_left comment =
     (let at = byte_at comment in
      if at 0 \<noteq> CHR ''{'' then 0
      else if at 1 \<noteq> CHR ''{'' then 0
      else
        let i = (if at 2 = CHR ''~'' then 3 else 2) in
        if i = 2 \<and> at 2 = NUL then 0
        else if at i \<noteq> CHR ''!'' then 0
        else
          let j = i + 1;
              k = (if at j = CHR ''-'' then j + 1 else j);
              l = (if at k = CHR ''-'' then k + 1 else k)
          in l)"

text \<open>The right end: the length of what is left of the closing brackets.\<close>

definition back_over :: "hstr \<Rightarrow> char \<Rightarrow> nat \<Rightarrow> nat" where
  "back_over s c n = (if n > 0 \<and> byte_at s (n - 1) = c then n - 1 else n)"

definition handlebars_ast_helper_strip_comment_right :: "hstr \<Rightarrow> nat" where
  "handlebars_ast_helper_strip_comment_right comment =
     (let n = hbs_str_len comment in
      if n < 2 then n
      else if byte_at comment (n - 1) \<noteq> CHR ''}'' then n
      else if byte_at comment (n - 2) \<noteq> CHR ''}'' then n
      else back_over comment CHR ''-'' (back_over comment CHR ''-'' (back_over comment CHR ''~'' (n - 2))))"

definition handlebars_ast_helper_strip_comment :: "hstr \<Rightarrow> hbs_error + hstr" where
  "handlebars_ast_helper_strip_comment comment =
     handlebars_string_truncate comment (handlebars_ast_helper_strip_comment_left comment)
       (handlebars_ast_helper_strip_comment_right comment)"

definition handlebars_ast_helper_strip_id_literal :: "hstr option \<Rightarrow> hbs_error + hstr option" where
  "handlebars_ast_helper_strip_id_literal comment =
     (case comment of
        None \<Rightarrow> Inr None
      | Some s \<Rightarrow>
          if byte_at s 0 = CHR ''['' \<and> byte_at s (hbs_str_len s - 1) = CHR '']''
          then ebind (handlebars_string_truncate s 1 (hbs_str_len s - 1)) (\<lambda>s'. Inr (Some s'))
          else Inr (Some s))"

section \<open>Classifying identifiers\<close>

definition id_char :: "char \<Rightarrow> bool" where
  "id_char c \<longleftrightarrow>
     (let n = of_char c :: nat
      in (48 \<le> n \<and> n \<le> 57) \<or> (65 \<le> n \<and> n \<le> 90) \<or> n = 95 \<or> (97 \<le> n \<and> n \<le> 122))"

definition handlebars_ast_helper_scoped_id :: "node handlebars_ast_node_path \<Rightarrow> bool" where
  "handlebars_ast_helper_scoped_id p =
     (case path_original p of
        None \<Rightarrow> False
      | Some original \<Rightarrow>
          if hbs_str_len original \<ge> 1 \<and> byte_at original 0 = CHR ''.'' then True
          else if hbs_str_len original = 4 \<and> c_string original = ''this'' then True
          else if hbs_str_len original > 4 then
            (case strstr (c_string original) ''this'' of
               None \<Rightarrow> False
             | Some found \<Rightarrow> (case drop 4 found of [] \<Rightarrow> True | c # _ \<Rightarrow> \<not> id_char c))
          else False)"

definition handlebars_ast_helper_simple_id :: "node handlebars_ast_node_path \<Rightarrow> bool" where
  "handlebars_ast_helper_simple_id p \<longleftrightarrow>
     (case path_parts p of None \<Rightarrow> False | Some parts \<Rightarrow>
        length parts = 1 \<and> \<not> handlebars_ast_helper_scoped_id p \<and> path_depth p = 0)"

definition handlebars_ast_helper_helper_expression :: "node \<Rightarrow> bool" where
  "handlebars_ast_helper_helper_expression n \<longleftrightarrow>
     (if ast_type n = HANDLEBARS_AST_NODE_SEXPR then True
      else handlebars_ast_node_get_hash n \<noteq> None \<or>
        (case handlebars_ast_node_get_params n of None \<Rightarrow> False | Some ps \<Rightarrow> ps \<noteq> []))"

section \<open>Constructors\<close>

definition with_loc :: "handlebars_locinfo \<Rightarrow> u32 \<Rightarrow> node handlebars_ast_internals \<Rightarrow> node" where
  "with_loc loc strip body = ast_node strip loc body"

definition handlebars_ast_node_ctor_boolean :: "hstr \<Rightarrow> handlebars_locinfo \<Rightarrow> node" where
  "handlebars_ast_node_ctor_boolean boolean loc =
     with_loc loc 0 (NODE_BOOLEAN (ast_literal (Some (handlebars_string_copy_ctor boolean)) None False))"

definition handlebars_ast_node_ctor_comment :: "hstr \<Rightarrow> bool \<Rightarrow> handlebars_locinfo \<Rightarrow> node" where
  "handlebars_ast_node_ctor_comment comment is_long loc =
     with_loc loc (strip_flag_set OR strip_flag_inline_standalone)
       (NODE_COMMENT (Some (handlebars_string_copy_ctor comment)) is_long)"

definition handlebars_ast_node_ctor_content :: "hstr \<Rightarrow> handlebars_locinfo \<Rightarrow> node" where
  "handlebars_ast_node_ctor_content content loc =
     with_loc loc 0 (NODE_CONTENT (ast_literal (Some (handlebars_string_copy_ctor content))
       (Some (handlebars_string_copy_ctor content)) False))"

definition handlebars_ast_node_ctor_hash_pair :: "hstr \<Rightarrow> node \<Rightarrow> handlebars_locinfo \<Rightarrow> node" where
  "handlebars_ast_node_ctor_hash_pair key v loc = with_loc loc 0 (NODE_HASH_PAIR (Some key) (Some v))"

definition handlebars_ast_node_ctor_intermediate ::
    "node option \<Rightarrow> node list option \<Rightarrow> node option \<Rightarrow> u32 \<Rightarrow> handlebars_locinfo \<Rightarrow> node" where
  "handlebars_ast_node_ctor_intermediate path params hash strip loc =
     with_loc loc strip (NODE_INTERMEDIATE (ast_intermediate path params hash None None None))"

definition handlebars_ast_node_ctor_inverse :: "node option \<Rightarrow> bool \<Rightarrow> u32 \<Rightarrow> handlebars_locinfo \<Rightarrow> node" where
  "handlebars_ast_node_ctor_inverse program chained strip loc = with_loc loc strip (NODE_INVERSE program chained)"

definition handlebars_ast_node_ctor_null :: "hstr \<Rightarrow> handlebars_locinfo \<Rightarrow> node" where
  "handlebars_ast_node_ctor_null str loc = with_loc loc 0 (NODE_NUL (ast_literal (Some str) None False))"

definition handlebars_ast_node_ctor_number :: "hstr \<Rightarrow> handlebars_locinfo \<Rightarrow> node" where
  "handlebars_ast_node_ctor_number number loc =
     with_loc loc 0 (NODE_NUMBER (ast_literal (Some (handlebars_string_copy_ctor number)) None False))"

definition handlebars_ast_node_ctor_partial ::
    "node option \<Rightarrow> node list option \<Rightarrow> node option \<Rightarrow> u32 \<Rightarrow> handlebars_locinfo \<Rightarrow> node" where
  "handlebars_ast_node_ctor_partial name params hash strip loc =
     with_loc loc strip (NODE_PARTIAL (ast_partial name params hash None))"

definition handlebars_ast_node_ctor_program ::
    "node list option \<Rightarrow> hstr option \<Rightarrow> hstr option \<Rightarrow> u32 \<Rightarrow> bool \<Rightarrow> handlebars_locinfo \<Rightarrow> node" where
  "handlebars_ast_node_ctor_program statements block_param1 block_param2 strip chained loc =
     with_loc loc strip (NODE_PROGRAM (ast_program statements block_param1 block_param2 chained))"

definition handlebars_ast_node_ctor_path ::
    "node list \<Rightarrow> hstr \<Rightarrow> u32 \<Rightarrow> bool \<Rightarrow> handlebars_locinfo \<Rightarrow> node" where
  "handlebars_ast_node_ctor_path parts original depth data loc =
     with_loc loc 0 (NODE_PATH (ast_path (Some (handlebars_string_copy_ctor original)) (Some parts) depth data False False))"

definition handlebars_ast_node_ctor_path_segment ::
    "hstr \<Rightarrow> hstr option \<Rightarrow> handlebars_locinfo \<Rightarrow> hbs_error + node" where
  "handlebars_ast_node_ctor_path_segment part separator loc =
     ebind (handlebars_ast_helper_strip_id_literal (Some (handlebars_string_copy_ctor part))) (\<lambda>stripped.
       Inr (with_loc loc 0 (NODE_PATH_SEGMENT stripped (map_option handlebars_string_copy_ctor separator)
         (Some (handlebars_string_copy_ctor part)))))"

definition handlebars_ast_node_ctor_string :: "hstr \<Rightarrow> bool \<Rightarrow> handlebars_locinfo \<Rightarrow> node" where
  "handlebars_ast_node_ctor_string str single_quoted loc =
     with_loc loc 0 (NODE_STRING (ast_literal (Some (handlebars_string_copy_ctor str)) None single_quoted))"

definition handlebars_ast_node_ctor_undefined :: "hstr \<Rightarrow> handlebars_locinfo \<Rightarrow> node" where
  "handlebars_ast_node_ctor_undefined str loc = with_loc loc 0 (NODE_UNDEFINED (ast_literal (Some str) None False))"

text \<open>The constructors that take an intermediate node apart read its union as that structure.\<close>

definition as_intermediate :: "node \<Rightarrow> hbs_error + node handlebars_ast_node_intermediate" where
  "as_intermediate n = (case nbody n of NODE_INTERMEDIATE i \<Rightarrow> Inr i | _ \<Rightarrow> Inl Mem_error)"

definition handlebars_ast_node_ctor_sexpr :: "node \<Rightarrow> handlebars_locinfo \<Rightarrow> hbs_error + node" where
  "handlebars_ast_node_ctor_sexpr intermediate loc =
     ebind (as_intermediate intermediate) (\<lambda>i.
       Inr (with_loc loc 0 (NODE_SEXPR (ast_sexpr (inter_path i) (inter_args i) (inter_hash i)))))"

definition handlebars_ast_node_ctor_block ::
    "node option \<Rightarrow> node option \<Rightarrow> node option \<Rightarrow> u32 \<Rightarrow> u32 \<Rightarrow> u32 \<Rightarrow> handlebars_locinfo \<Rightarrow> hbs_error + node" where
  "handlebars_ast_node_ctor_block intermediate program inv_program ostrip istrip cstrip loc =
     ebind (case intermediate of
              None \<Rightarrow> Inr (None, None, None)
            | Some n \<Rightarrow> ebind (as_intermediate n) (\<lambda>i. Inr (inter_path i, inter_args i, inter_hash i)))
       (\<lambda>(path, params, hash).
         Inr (with_loc loc 0 (NODE_BLOCK (ast_block path params hash program inv_program ostrip istrip cstrip False))))"

definition handlebars_ast_node_ctor_partial_block ::
    "node option \<Rightarrow> node option \<Rightarrow> node option \<Rightarrow> handlebars_locinfo \<Rightarrow> hbs_error + node" where
  "handlebars_ast_node_ctor_partial_block open_node program close_node loc =
     ebind (case open_node of
              None \<Rightarrow> Inr (None, None, None, 0)
            | Some n \<Rightarrow> ebind (as_intermediate n) (\<lambda>i. Inr (inter_path i, inter_args i, inter_hash i, nstrip n)))
       (\<lambda>(path, params, hash, ostrip).
         Inr (with_loc loc 0 (NODE_PARTIAL_BLOCK (ast_block path params hash program None ostrip 0
           (case close_node of None \<Rightarrow> 0 | Some c \<Rightarrow> nstrip c) False))))"

definition handlebars_ast_node_ctor_raw_block :: "node \<Rightarrow> node \<Rightarrow> handlebars_locinfo \<Rightarrow> hbs_error + node" where
  "handlebars_ast_node_ctor_raw_block intermediate content loc =
     (if ast_type content \<noteq> HANDLEBARS_AST_NODE_CONTENT then Inl Assert_fail
      else ebind (as_intermediate intermediate) (\<lambda>i.
        if (\<exists>p \<in> set_option (inter_path i). ast_type p \<noteq> HANDLEBARS_AST_NODE_PATH) then Inl Assert_fail
        else if (\<exists>h \<in> set_option (inter_hash i). ast_type h \<noteq> HANDLEBARS_AST_NODE_HASH) then Inl Assert_fail
        else
          let program = ast_node 0 no_loc (NODE_PROGRAM (ast_program (Some [content]) None None False))
          in Inr (with_loc loc 0 (NODE_RAW_BLOCK
               (ast_block (inter_path i) (inter_args i) (inter_hash i) (Some program) None 0 0 0 False)))))"

section \<open>The parser's actions\<close>

text \<open>The names of the opening and the closing tag must be equal (by length and hash).\<close>

definition check_close :: "(string \<Rightarrow> u32) \<Rightarrow> node option \<Rightarrow> node option \<Rightarrow> hbs_error + unit" where
  "check_close H open_path close_node =
     (case close_node of
        None \<Rightarrow> Inr ()
      | Some c \<Rightarrow>
          (case nbody c of
             NODE_INTERMEDIATE i \<Rightarrow>
               (case (open_path, inter_path i) of
                  (Some p, Some q) \<Rightarrow>
                    (case (handlebars_ast_node_get_string_mode_value p, handlebars_ast_node_get_string_mode_value q) of
                       (Some a, Some b) \<Rightarrow>
                         if handlebars_string_eq H a b then Inr ()
                         else Inl (Throw HANDLEBARS_PARSEERR (sval a @ '' doesn't match '' @ sval b))
                     | _ \<Rightarrow> Inl Mem_error)
                | _ \<Rightarrow> Inl Assert_fail)
           | NODE_INVERSE _ _ \<Rightarrow> Inr ()
           | _ \<Rightarrow> Inl Assert_fail))"

definition is_decorator_open :: "hstr option \<Rightarrow> bool" where
  "is_decorator_open open_str = (case open_str of None \<Rightarrow> False | Some s \<Rightarrow> CHR ''*'' \<in> set (c_string s))"

definition set_block_params :: "hstr option \<Rightarrow> hstr option \<Rightarrow> node \<Rightarrow> node" where
  "set_block_params b1 b2 n =
     (case nbody n of
        NODE_PROGRAM p \<Rightarrow> ast_node (nstrip n) (nloc n) (NODE_PROGRAM (ast_program (prog_statements p) b1 b2 (prog_chained p)))
      | _ \<Rightarrow> n)"

text \<open>In a chain the first block of the inverse program closes where the chain closes.\<close>

definition set_close_strip :: "u32 \<Rightarrow> node \<Rightarrow> node" where
  "set_close_strip cs n =
     (case nbody n of
        NODE_BLOCK b \<Rightarrow> ast_node (nstrip n) (nloc n) (NODE_BLOCK
          (ast_block (block_path b) (block_args b) (block_hash b) (block_program b) (block_inverse b) (open_strip b)
             (inverse_strip b) cs (block_is_decorator b)))
      | _ \<Rightarrow> n)"

definition close_chain :: "node option \<Rightarrow> node \<Rightarrow> hbs_error + node" where
  "close_chain close_node program =
     (case nbody program of
        NODE_PROGRAM p \<Rightarrow>
          (case prog_statements p of
             Some (first # rest) \<Rightarrow>
               if ast_type first = HANDLEBARS_AST_NODE_BLOCK
               then (case close_node of
                       None \<Rightarrow> Inl Mem_error
                     | Some c \<Rightarrow> Inr (ast_node (nstrip program) (nloc program) (NODE_PROGRAM
                         (ast_program (Some (set_close_strip (nstrip c) first # rest)) (prog_block_param1 p)
                            (prog_block_param2 p) (prog_chained p)))))
               else Inr program
           | _ \<Rightarrow> Inr program)
      | _ \<Rightarrow> Inr program)"

definition prepare_inverse ::
    "node option \<Rightarrow> bool \<Rightarrow> node option \<Rightarrow> hbs_error + node option \<times> u32" where
  "prepare_inverse inverse_and_program is_decorator close_node =
     (case inverse_and_program of
        None \<Rightarrow> Inr (None, 0)
      | Some chain \<Rightarrow>
          (case nbody chain of
             NODE_INVERSE program chained \<Rightarrow>
               if is_decorator then Inl (Throw HANDLEBARS_PARSEERR ''Unexpected inverse block on decorator'')
               else ebind (case program of
                             Some q \<Rightarrow> if chained then ebind (close_chain close_node q) (\<lambda>q'. Inr (Some q')) else Inr (Some q)
                           | None \<Rightarrow> Inr None)
                      (\<lambda>program'. Inr (program', nstrip chain))
           | _ \<Rightarrow> Inl Assert_fail))"

definition drop_nil :: "node option \<Rightarrow> hbs_error + node option" where
  "drop_nil n =
     (case n of
        None \<Rightarrow> Inr None
      | Some p \<Rightarrow> if ast_type p = HANDLEBARS_AST_NODE_NIL then Inr None
                 else if ast_type p = HANDLEBARS_AST_NODE_PROGRAM then Inr (Some p) else Inl Assert_fail)"

definition set_decorator :: "bool \<Rightarrow> node \<Rightarrow> node" where
  "set_decorator d n =
     (case nbody n of
        NODE_BLOCK b \<Rightarrow> ast_node (nstrip n) (nloc n) (NODE_BLOCK
          (ast_block (block_path b) (block_args b) (block_hash b) (block_program b) (block_inverse b) (open_strip b)
             (inverse_strip b) (close_strip b) d))
      | _ \<Rightarrow> n)"

definition handlebars_ast_helper_prepare_block ::
    "(string \<Rightarrow> u32) \<Rightarrow> node \<Rightarrow> node option \<Rightarrow> node option \<Rightarrow> node option \<Rightarrow> bool \<Rightarrow> handlebars_locinfo \<Rightarrow>
      hbs_error + node" where
  "handlebars_ast_helper_prepare_block H open_block program inverse_and_program close_node inverted loc =
     ebind (as_intermediate open_block) (\<lambda>i.
     ebind (check_close H (inter_path i) close_node) (\<lambda>_.
       let is_decorator = is_decorator_open (inter_open i);
           program1 = (case program of None \<Rightarrow> handlebars_ast_node_ctor HANDLEBARS_AST_NODE_PROGRAM | Some p \<Rightarrow> p);
           program2 = set_block_params (inter_block_param1 i) (inter_block_param2 i) program1
       in ebind (prepare_inverse inverse_and_program is_decorator close_node) (\<lambda>(inverse0, istrip).
          ebind (drop_nil (Some program2)) (\<lambda>program3.
          ebind (drop_nil inverse0) (\<lambda>inverse1.
            let (program4, inverse2) = (if inverted then (inverse1, program3) else (program3, inverse1))
            in ebind (handlebars_ast_node_ctor_block (Some open_block) program4 inverse2 (nstrip open_block) istrip
                        (case close_node of None \<Rightarrow> 0 | Some c \<Rightarrow> nstrip c) loc) (\<lambda>n.
               Inr (set_decorator is_decorator n)))))))"

definition handlebars_ast_helper_prepare_inverse_chain ::
    "(string \<Rightarrow> u32) \<Rightarrow> node \<Rightarrow> node option \<Rightarrow> node option \<Rightarrow> handlebars_locinfo \<Rightarrow> hbs_error + node" where
  "handlebars_ast_helper_prepare_inverse_chain H open_inverse_chain program inverse_chain loc =
     ebind (handlebars_ast_helper_prepare_block H open_inverse_chain program inverse_chain inverse_chain False loc)
       (\<lambda>block_node.
         let program_node = handlebars_ast_node_ctor_program (Some [block_node]) None None 0 True loc
         in Inr (handlebars_ast_node_ctor_inverse (Some program_node) True (nstrip open_inverse_chain) loc))"

definition handlebars_ast_helper_prepare_mustache ::
    "node \<Rightarrow> hstr option \<Rightarrow> u32 \<Rightarrow> handlebars_locinfo \<Rightarrow> hbs_error + node" where
  "handlebars_ast_helper_prepare_mustache intermediate open_str strip loc =
     ebind (as_intermediate intermediate) (\<lambda>i.
       let c = (case open_str of
                  None \<Rightarrow> NUL
                | Some s \<Rightarrow> if hbs_str_len s \<ge> 4 then byte_at s 3 else if hbs_str_len s \<ge> 3 then byte_at s 2 else NUL)
       in Inr (with_loc loc strip (NODE_MUSTACHE (ast_mustache (inter_path i) (inter_args i) (inter_hash i)
            (if c = CHR ''{'' then 1 else if c = CHR ''&'' then 3 else 0) (is_decorator_open open_str)))))"

definition handlebars_ast_helper_prepare_partial_block ::
    "(string \<Rightarrow> u32) \<Rightarrow> node \<Rightarrow> node option \<Rightarrow> node option \<Rightarrow> handlebars_locinfo \<Rightarrow> hbs_error + node" where
  "handlebars_ast_helper_prepare_partial_block H open_node program close_node loc =
     ebind (as_intermediate open_node) (\<lambda>i.
     ebind (check_close H (inter_path i) close_node) (\<lambda>_.
       handlebars_ast_node_ctor_partial_block (Some open_node) program close_node loc))"

definition handlebars_ast_helper_prepare_raw_block ::
    "(string \<Rightarrow> u32) \<Rightarrow> node \<Rightarrow> hstr \<Rightarrow> hstr \<Rightarrow> handlebars_locinfo \<Rightarrow> hbs_error + node" where
  "handlebars_ast_helper_prepare_raw_block H open_raw_block content close_str loc =
     ebind (as_intermediate open_raw_block) (\<lambda>i.
       case inter_path i of
         Some p \<Rightarrow>
           (case nbody p of
              NODE_PATH path \<Rightarrow>
                (case path_original path of
                   None \<Rightarrow> Inl Mem_error
                 | Some original \<Rightarrow>
                     if \<not> handlebars_string_eq H original close_str
                     then Inl (Throw HANDLEBARS_ERROR (sval original @ '' doesn't match '' @ sval close_str))
                     else handlebars_ast_node_ctor_raw_block open_raw_block (handlebars_ast_node_ctor_content content loc) loc)
            | _ \<Rightarrow> Inl Mem_error)
       | None \<Rightarrow> Inl Mem_error)"

section \<open>Paths\<close>

text \<open>
  The loop over the segments: it collects the text of the path, takes a leading \<open>..\<close>, \<open>.\<close> or \<open>this\<close> out of the
  list and counts the levels. The state is the kept segments, the text, the depth and the count of names.
\<close>

definition path_step ::
    "(string \<Rightarrow> u32) \<Rightarrow> node \<Rightarrow> node list \<times> hstr \<times> nat \<times> nat \<Rightarrow> hbs_error + node list \<times> hstr \<times> nat \<times> nat" where
  "path_step H seg st =
     (case st of (kept, original, depth, count) \<Rightarrow>
       (case nbody seg of
          NODE_PATH_SEGMENT None _ _ \<Rightarrow> Inr (kept @ [seg], original, depth, count)
        | NODE_PATH_SEGMENT (Some part) separator (Some seg_original) \<Rightarrow>
            let is_literal = (\<not> handlebars_string_eq H part seg_original)
            in ebind (case separator of None \<Rightarrow> Inr original
                                      | Some sep \<Rightarrow> handlebars_string_append_str original sep) (\<lambda>o1.
               ebind (handlebars_string_append_str o1 part) (\<lambda>o2.
                 if \<not> is_literal \<and> (hbs_str_eq_strl part ''..'' \<or> hbs_str_eq_strl part ''.'' \<or> hbs_str_eq_strl part ''this'')
                 then (if count > 0 then Inl (Throw HANDLEBARS_ERROR (''Invalid path: '' @ sval o2))
                       else Inr (kept, o2, if hbs_str_eq_strl part ''..'' then depth + 1 else depth, count))
                 else Inr (kept @ [seg], o2, depth, count + 1)))
        | _ \<Rightarrow> Inl Mem_error))"

definition handlebars_ast_helper_prepare_path ::
    "(string \<Rightarrow> u32) \<Rightarrow> node list \<Rightarrow> bool \<Rightarrow> handlebars_locinfo \<Rightarrow> hbs_error + node" where
  "handlebars_ast_helper_prepare_path H parts data loc =
     ebind (efold (path_step H) parts ([], handlebars_string_ctor (if data then ''@'' else []), 0, 0))
       (\<lambda>(kept, original, depth, count).
         Inr (handlebars_ast_node_ctor_path kept original (of_nat depth) data loc))"

end
