(* ===== verification/AstPrinter.thy ===== *)
theory AstPrinter
  imports AstHelpers StringEscape StringEdit
begin

text \<open>
  The two printers of the syntax tree (src/handlebars_ast_printer.c): \<open>handlebars_ast_print\<close> writes the debugging
  form and \<open>handlebars_ast_to_string\<close> the template. Each handler is a sequence of steps on the printer's context,
  and takes the recursive printer \<open>pr\<close> as an argument; \<open>_handlebars_ast_print\<close> and \<open>_handlebars_ast_to_string\<close> tie the
  knot by recursion over the tree.
\<close>

section \<open>The context\<close>

record handlebars_ast_printer_context =
  padding :: int
  in_partial :: bool
  in_raw_block :: bool
  pout :: hstr

type_synonym printer = handlebars_ast_printer_context
type_synonym step = "printer \<Rightarrow> hbs_error + printer"

definition out :: "string \<Rightarrow> step" where
  "out s c = ebind (handlebars_string_append (pout c) s) (\<lambda>o'. Inr (c\<lparr>pout := o'\<rparr>))"

definition out_str :: "hstr option \<Rightarrow> step" where
  "out_str s c =
     (case s of
        None \<Rightarrow> Inr c
      | Some h \<Rightarrow> ebind (handlebars_string_append_str (pout c) h) (\<lambda>o'. Inr (c\<lparr>pout := o'\<rparr>)))"

definition seqs :: "step list \<Rightarrow> step" where
  "seqs fs c = efold (\<lambda>f c. f c) fs c"

definition whenp :: "bool \<Rightarrow> step \<Rightarrow> step" where
  "whenp b f = (if b then f else Inr)"

definition maybe :: "(node \<Rightarrow> step) \<Rightarrow> node option \<Rightarrow> step" where
  "maybe pr n = (case n of None \<Rightarrow> Inr | Some x \<Rightarrow> pr x)"

text \<open>A list of nodes with a text between them.\<close>

fun print_sep :: "(node \<Rightarrow> step) \<Rightarrow> step \<Rightarrow> node list \<Rightarrow> step" where
  "print_sep pr sep [] c = Inr c"
| "print_sep pr sep (x # xs) c =
     ebind (pr x c) (\<lambda>c1. if xs = [] then Inr c1 else ebind (sep c1) (print_sep pr sep xs))"

definition add_padding :: "int \<Rightarrow> step" where
  "add_padding k c = Inr (c\<lparr>padding := padding c + k\<rparr>)"

definition set_in_partial :: "bool \<Rightarrow> step" where
  "set_in_partial b c = Inr (c\<lparr>in_partial := b\<rparr>)"

definition set_in_raw_block :: "bool \<Rightarrow> step" where
  "set_in_raw_block b c = Inr (c\<lparr>in_raw_block := b\<rparr>)"

definition pad_head :: step where
  "pad_head c =
     (if padding c > 0 \<and> padding c < 16 then out (replicate (nat (padding c) * 2) (CHR '' '')) c else Inr c)"

definition pad_foot :: step where
  "pad_foot = out [newline]"

definition hbs_ast_print_pad :: "string \<Rightarrow> step" where
  "hbs_ast_print_pad str = seqs [pad_head, out str, pad_foot]"

section \<open>The debugging form\<close>

definition print_list :: "(node \<Rightarrow> step) \<Rightarrow> node list option \<Rightarrow> step" where
  "print_list pr ns c = (case ns of None \<Rightarrow> Inr c | Some xs \<Rightarrow> efold pr xs c)"

definition print_path_params_hash ::
    "(node \<Rightarrow> step) \<Rightarrow> node option \<Rightarrow> node list option \<Rightarrow> node option \<Rightarrow> step" where
  "print_path_params_hash pr path params hash =
     seqs [maybe pr path, out '' ['',
           case params of None \<Rightarrow> Inr | Some ps \<Rightarrow> print_sep pr (out '', '') ps,
           out '']'', case hash of None \<Rightarrow> Inr | Some h \<Rightarrow> seqs [out '' '', pr h]]"

definition print_program :: "(node \<Rightarrow> step) \<Rightarrow> node handlebars_ast_node_program \<Rightarrow> step" where
  "print_program pr p =
     seqs [whenp (prog_block_param1 p \<noteq> None)
             (seqs [pad_head, out ''BLOCK PARAMS: [ '', out_str (prog_block_param1 p),
                    whenp (prog_block_param2 p \<noteq> None) (seqs [out '' '', out_str (prog_block_param2 p)]),
                    out '' ]'', pad_foot]),
           print_list pr (prog_statements p), add_padding (- 1)]"

definition print_mustache :: "(node \<Rightarrow> step) \<Rightarrow> node handlebars_ast_node_mustache \<Rightarrow> step" where
  "print_mustache pr m =
     seqs [pad_head, out ''{{ '', whenp (must_is_decorator m) (out ''DIRECTIVE ''),
           print_path_params_hash pr (must_path m) (must_args m) (must_hash m), out '' }}'', pad_foot]"

definition print_block :: "(node \<Rightarrow> step) \<Rightarrow> node handlebars_ast_node_block \<Rightarrow> step" where
  "print_block pr b =
     seqs [hbs_ast_print_pad (if block_is_decorator b then ''DIRECTIVE BLOCK:'' else ''BLOCK:''),
           add_padding 1,
           pad_head, print_path_params_hash pr (block_path b) (block_args b) (block_hash b), pad_foot,
           (case block_program b of
              None \<Rightarrow> Inr
            | Some p \<Rightarrow> seqs [hbs_ast_print_pad ''PROGRAM:'', add_padding 1, pr p, add_padding (- 1)]),
           (case block_inverse b of
              None \<Rightarrow> Inr
            | Some i \<Rightarrow>
                seqs [whenp (block_program b \<noteq> None) (add_padding 1),
                      hbs_ast_print_pad ''{{^}}'', add_padding 1, pr i, add_padding (- 1),
                      whenp (block_program b \<noteq> None) (add_padding (- 1))]),
           add_padding (- 1)]"

definition print_partial :: "(node \<Rightarrow> step) \<Rightarrow> node handlebars_ast_node_partial \<Rightarrow> step" where
  "print_partial pr p =
     (case part_name p of
        None \<Rightarrow> (\<lambda>c. Inl Assert_fail)
      | Some name \<Rightarrow>
          seqs [pad_head, out ''{{> PARTIAL:'', set_in_partial True, pr name, set_in_partial False,
                (case part_args p of
                   Some (x # _) \<Rightarrow> seqs [out '' '', pr x]
                 | _ \<Rightarrow> Inr),
                (case part_hash p of None \<Rightarrow> Inr | Some h \<Rightarrow> seqs [out '' '', pr h]),
                out '' }}'', pad_foot])"

definition print_partial_block :: "(node \<Rightarrow> step) \<Rightarrow> node handlebars_ast_node_block \<Rightarrow> step" where
  "print_partial_block pr b =
     seqs [pad_head, out ''{{> PARTIAL BLOCK:'', add_padding 1, set_in_partial True,
           maybe pr (block_path b),
           whenp (block_args b \<noteq> None) (seqs [out '' PATH:'', print_list pr (block_args b)]),
           (case block_hash b of None \<Rightarrow> Inr | Some h \<Rightarrow> seqs [out '' '', pr h]),
           (case block_program b of None \<Rightarrow> Inr | Some p \<Rightarrow> seqs [out '' PROGRAM:'', pad_foot, pr p]),
           set_in_partial False, add_padding (- 1), out '' }}'', pad_foot]"

abbreviation quote :: char where "quote \<equiv> CHR 0x27"

definition print_content :: "handlebars_ast_node_literal \<Rightarrow> step" where
  "print_content l = seqs [pad_head, out (''CONTENT[ '' @ [quote]), out_str (lit_value l), out (quote # '' ]''), pad_foot]"

definition print_comment :: "hstr option \<Rightarrow> step" where
  "print_comment v = seqs [pad_head, out (''{{! '' @ [quote]), out_str v, out (quote # '' }}''), pad_foot]"

definition print_quoted :: "string \<Rightarrow> hstr option \<Rightarrow> string \<Rightarrow> step" where
  "print_quoted l v r c =
     seqs [whenp (\<not> in_partial c) (out l), out_str v, whenp (\<not> in_partial c) (out r)] c"

definition print_hash :: "(node \<Rightarrow> step) \<Rightarrow> node list option \<Rightarrow> step" where
  "print_hash pr pairs c =
     (case pairs of
        None \<Rightarrow> Inl Mem_error
      | Some ps \<Rightarrow>
          seqs [set_in_partial False, out ''HASH{'', print_sep (\<lambda>n. case nbody n of
                  NODE_HASH_PAIR key v \<Rightarrow> seqs [out_str key, out ''='', maybe pr v]
                | _ \<Rightarrow> (\<lambda>c. Inl Mem_error)) (out '', '') ps,
                out ''}'', set_in_partial (in_partial c)] c)"

text \<open>The text of the parts: each but the first after its separator.\<close>

fun print_parts :: "node list \<Rightarrow> step" where
  "print_parts [] c = Inr c"
| "print_parts (x # xs) c =
     (case nbody x of
        NODE_PATH_SEGMENT part _ _ \<Rightarrow>
          ebind (out_str part c) (\<lambda>c1.
            case xs of
              [] \<Rightarrow> Inr c1
            | y # _ \<Rightarrow>
                (case nbody y of
                   NODE_PATH_SEGMENT _ separator _ \<Rightarrow> ebind (out_str separator c1) (print_parts xs)
                 | _ \<Rightarrow> Inl Mem_error))
      | _ \<Rightarrow> Inl Mem_error)"

definition print_path :: "node handlebars_ast_node_path \<Rightarrow> step" where
  "print_path p c =
     (case path_parts p of
        None \<Rightarrow> Inl Mem_error
      | Some parts \<Rightarrow>
          seqs [whenp (path_data p) (out ''@''), whenp (\<not> in_partial c) (out ''PATH:''), print_parts parts] c)"

definition print_internals :: "(node \<Rightarrow> step) \<Rightarrow> node handlebars_ast_internals \<Rightarrow> step" where
  "print_internals pr body =
     (case body of
        NODE_BOOLEAN l \<Rightarrow> seqs [out ''BOOLEAN{'', out_str (lit_value l), out ''}'']
      | NODE_BLOCK b \<Rightarrow> print_block pr b
      | NODE_COMMENT v _ \<Rightarrow> print_comment v
      | NODE_CONTENT l \<Rightarrow> print_content l
      | NODE_HASH pairs \<Rightarrow> print_hash pr pairs
      | NODE_MUSTACHE m \<Rightarrow> print_mustache pr m
      | NODE_NUL _ \<Rightarrow> out ''NULL''
      | NODE_NUMBER l \<Rightarrow> print_quoted ''NUMBER{'' (lit_value l) ''}''
      | NODE_PARTIAL p \<Rightarrow> print_partial pr p
      | NODE_PARTIAL_BLOCK b \<Rightarrow> print_partial_block pr b
      | NODE_PATH p \<Rightarrow> print_path p
      | NODE_PROGRAM p \<Rightarrow> print_program pr p
      | NODE_RAW_BLOCK b \<Rightarrow> print_block pr b
      | NODE_SEXPR s \<Rightarrow> print_path_params_hash pr (sexpr_path s) (sexpr_args s) (sexpr_hash s)
      | NODE_STRING l \<Rightarrow> print_quoted [CHR 0x22] (lit_value l) [CHR 0x22]
      | NODE_UNDEFINED _ \<Rightarrow> out ''UNDEFINED''
      | _ \<Rightarrow> (\<lambda>c. Inl Assert_fail))"

section \<open>The recursion\<close>

text \<open>The handlers call the printer on nodes of the node only.\<close>

lemma print_sep_cong [fundef_cong]:
  "xs = ys \<Longrightarrow> sep = sep' \<Longrightarrow> c = d \<Longrightarrow> (\<And>x u. x \<in> set ys \<Longrightarrow> f x u = g x u) \<Longrightarrow> print_sep f sep xs c = print_sep g sep' ys d"
proof (induction ys arbitrary: xs c d)
  case (Cons y ys)
  have "print_sep f sep' ys = print_sep g sep' ys"
    using Cons.IH [of ys] Cons.prems(2,4) by (intro ext) simp
  then show ?case using Cons.prems by (simp cong: if_cong)
qed simp

lemma efold_eq: "(\<And>x. x \<in> set xs \<Longrightarrow> f x = g x) \<Longrightarrow> efold f xs = efold g xs"
  by (intro ext efold_cong) auto

lemma print_sep_eq: "(\<And>x. x \<in> set xs \<Longrightarrow> f x = g x) \<Longrightarrow> print_sep f sep xs = print_sep g sep xs"
  by (intro ext print_sep_cong) auto

lemma maybe_eq: "(\<And>x. x \<in> set_option n \<Longrightarrow> f x = g x) \<Longrightarrow> maybe f n = maybe g n"
  by (cases n) (auto simp: maybe_def)

lemma print_list_eq: "(\<And>x xs. ns = Some xs \<Longrightarrow> x \<in> set xs \<Longrightarrow> f x = g x) \<Longrightarrow> print_list f ns = print_list g ns"
  by (cases ns) (auto simp: print_list_def fun_eq_iff intro!: efold_cong)

lemma print_path_params_hash_eq:
  assumes "\<And>x. x \<in> set_option path \<union> (\<Union>xs \<in> set_option params. set xs) \<union> set_option hash \<Longrightarrow> f x = g x"
  shows "print_path_params_hash f path params hash = print_path_params_hash g path params hash"
proof -
  have "maybe f path = maybe g path" using assms by (intro maybe_eq) auto
  moreover have "(case params of None \<Rightarrow> Inr | Some ps \<Rightarrow> print_sep f sep ps) =
      (case params of None \<Rightarrow> Inr | Some ps \<Rightarrow> print_sep g sep ps)" for sep
    using assms by (cases params) (auto intro!: print_sep_eq)
  ultimately show ?thesis using assms by (cases hash) (auto simp: print_path_params_hash_def)
qed

lemma hash_pairs_eq:
  assumes "\<And>x. x \<in> set ps \<Longrightarrow> (\<And>y. y \<in> subnodes (nbody x) \<Longrightarrow> f y = g y)"
  shows "print_sep (\<lambda>n. case nbody n of NODE_HASH_PAIR key v \<Rightarrow> seqs [out_str key, t, maybe f v] | _ \<Rightarrow> e) sep ps =
         print_sep (\<lambda>n. case nbody n of NODE_HASH_PAIR key v \<Rightarrow> seqs [out_str key, t, maybe g v] | _ \<Rightarrow> e) sep ps"
proof (intro print_sep_eq)
  fix x assume "x \<in> set ps"
  from assms [OF this] show "(case nbody x of NODE_HASH_PAIR key v \<Rightarrow> seqs [out_str key, t, maybe f v] | _ \<Rightarrow> e) =
      (case nbody x of NODE_HASH_PAIR key v \<Rightarrow> seqs [out_str key, t, maybe g v] | _ \<Rightarrow> e)"
    by (cases "nbody x") (auto simp: subnodes_def intro!: arg_cong [where f = seqs] maybe_eq)
qed

lemma print_internals_cong [fundef_cong]:
  assumes "body = body'" "c = d" "\<And>x u. x \<in> near body' \<Longrightarrow> f x u = g x u"
  shows "print_internals f body c = print_internals g body' d"
proof -
  have eq: "f x = g x" if "x \<in> near body'" for x using assms(3) [OF that] by (simp add: fun_eq_iff)
  then have sub: "f x = g x" if "x \<in> subnodes body'" for x using that by (simp add: near_def)
  have "print_internals f body' = print_internals g body'"
  proof (cases body')
    case (NODE_BLOCK b)
    then have "print_block f b = print_block g b"
      using sub by (auto simp: print_block_def subnodes_def block_nodes intro!: arg_cong [where f = seqs] print_path_params_hash_eq split: option.splits)
    then show ?thesis by (simp add: print_internals_def NODE_BLOCK)
  next
    case (NODE_RAW_BLOCK b)
    then have "print_block f b = print_block g b"
      using sub by (auto simp: print_block_def subnodes_def block_nodes intro!: arg_cong [where f = seqs] print_path_params_hash_eq split: option.splits)
    then show ?thesis by (simp add: print_internals_def NODE_RAW_BLOCK)
  next
    case (NODE_PARTIAL_BLOCK b)
    then have "print_partial_block f b = print_partial_block g b"
      using sub by (auto simp: print_partial_block_def subnodes_def block_nodes intro!: arg_cong [where f = seqs] maybe_eq arg_cong [where f = "whenp _"] print_list_eq split: option.splits)
    then show ?thesis by (simp add: print_internals_def NODE_PARTIAL_BLOCK)
  next
    case (NODE_HASH pairs)
    have "f y = g y" if "x \<in> set ps" "y \<in> subnodes (nbody x)" "pairs = Some ps" for x y ps
      using that NODE_HASH by (intro eq) (auto simp: near_def subnodes_def)
    then have "print_hash f pairs = print_hash g pairs"
      by (cases pairs) (auto simp: print_hash_def fun_eq_iff intro!: arg_cong [where f = "\<lambda>l. seqs l _"] hash_pairs_eq [THEN fun_cong])
    then show ?thesis by (simp add: print_internals_def NODE_HASH)
  next
    case (NODE_MUSTACHE m)
    then show ?thesis
      using sub by (cases m) (auto simp: print_internals_def print_mustache_def subnodes_def intro!: arg_cong [where f = seqs] print_path_params_hash_eq)
  next
    case (NODE_PARTIAL p)
    then show ?thesis
      using sub by (cases p) (auto simp: print_internals_def print_partial_def subnodes_def intro!: arg_cong [where f = seqs] split: option.splits list.splits)
  next
    case (NODE_PROGRAM p)
    then show ?thesis
      using sub by (cases p) (auto simp: print_internals_def print_program_def subnodes_def intro!: arg_cong [where f = seqs] print_list_eq)
  next
    case (NODE_SEXPR x)
    then show ?thesis
      using sub by (cases x) (auto simp: print_internals_def subnodes_def intro!: print_path_params_hash_eq)
  qed (simp_all add: print_internals_def)
  then show ?thesis using assms(1,2) by simp
qed

function ast_print_node :: "node \<Rightarrow> step" where
  "ast_print_node (ast_node s l body) c = print_internals ast_print_node body c"
  by pat_completeness auto

termination
  by (relation "measure (\<lambda>(n, c). size n)") (auto dest: near_smaller)

text \<open>\<open>_handlebars_ast_print\<close> on a pointer, and the function of the interface.\<close>

definition new_printer :: printer where
  "new_printer = \<lparr>padding = 0, in_partial = False, in_raw_block = False, pout = handlebars_string_ctor []\<rparr>"

definition handlebars_ast_print :: "node \<Rightarrow> hbs_error + hstr" where
  "handlebars_ast_print n =
     ebind (ast_print_node n new_printer) (\<lambda>c.
       Inr (handlebars_string_rtrim (pout c) [CHR '' '', CHR 0x09, CHR 0x0D, newline]))"

section \<open>The template\<close>

definition strip_left :: "u32 \<Rightarrow> step" where
  "strip_left strip = whenp (has_flag strip strip_flag_left) (out ''~'')"

definition strip_right :: "u32 \<Rightarrow> step" where
  "strip_right strip = whenp (has_flag strip strip_flag_right) (out ''~'')"

text \<open>\<open>padding\<close> counts the nesting here: an inner call is in parentheses.\<close>

definition to_string_path_params_hash ::
    "(node \<Rightarrow> step) \<Rightarrow> node option \<Rightarrow> node list option \<Rightarrow> node option \<Rightarrow> step" where
  "to_string_path_params_hash pr path params hash c =
     seqs [add_padding 1, whenp (padding c > 0) (out ''(''), maybe pr path,
           (case params of None \<Rightarrow> Inr | Some ps \<Rightarrow> seqs [out '' '', print_sep pr (out '' '') ps]),
           (case hash of None \<Rightarrow> Inr | Some h \<Rightarrow> seqs [out '' '', pr h]),
           whenp (padding c > 0) (out '')''), add_padding (- 1)] c"

definition to_string_path :: "node handlebars_ast_node_path \<Rightarrow> step" where
  "to_string_path p =
     (if path_original p \<noteq> None then out_str (path_original p)
      else seqs [whenp (path_data p) (out ''@''),
                 (case path_parts p of
                    None \<Rightarrow> out ''.''
                  | Some [] \<Rightarrow> out ''.''
                  | Some parts \<Rightarrow> print_parts parts)])"

text \<open>
  The end of an inverted section reads its path as a path structure whatever the node is; the first member of
  a literal's structure, its value, lies where the original text of a path does.
\<close>

definition to_string_close_path :: "node option \<Rightarrow> step" where
  "to_string_close_path path =
     (case path of
        None \<Rightarrow> (\<lambda>c. Inl Mem_error)
      | Some n \<Rightarrow>
          (case nbody n of
             NODE_PATH p \<Rightarrow> to_string_path p
           | NODE_STRING l \<Rightarrow> out_str (lit_value l)
           | NODE_NUMBER l \<Rightarrow> out_str (lit_value l)
           | NODE_BOOLEAN l \<Rightarrow> out_str (lit_value l)
           | NODE_UNDEFINED l \<Rightarrow> out_str (lit_value l)
           | NODE_NUL l \<Rightarrow> out_str (lit_value l)
           | _ \<Rightarrow> (\<lambda>c. Inl Mem_error)))"

definition to_string_mustache :: "(node \<Rightarrow> step) \<Rightarrow> u32 \<Rightarrow> node handlebars_ast_node_mustache \<Rightarrow> step" where
  "to_string_mustache pr strip m =
     seqs [out ''{{'', strip_left strip,
           (if unescaped m = 1 then out ''{'' else if unescaped m = 3 then out ''&'' else Inr),
           whenp (must_is_decorator m) (out ''*''),
           to_string_path_params_hash pr (must_path m) (must_args m) (must_hash m),
           whenp (unescaped m = 1) (out ''}''), strip_right strip, out ''}}'']"

definition block_params_text :: "node option \<Rightarrow> step" where
  "block_params_text program =
     (case program of
        None \<Rightarrow> Inr
      | Some n \<Rightarrow>
          (case nbody n of
             NODE_PROGRAM p \<Rightarrow>
               whenp (prog_block_param1 p \<noteq> None)
                 (seqs [out ''as |'', out_str (prog_block_param1 p),
                        whenp (prog_block_param2 p \<noteq> None) (seqs [out '' '', out_str (prog_block_param2 p)]),
                        out ''|''])
           | _ \<Rightarrow> (\<lambda>c. Inl Mem_error)))"

definition to_string_inverted :: "(node \<Rightarrow> step) \<Rightarrow> bool \<Rightarrow> node handlebars_ast_node_block \<Rightarrow> step" where
  "to_string_inverted pr is_raw b =
     seqs [whenp is_raw (out ''{{''), out ''{{'', strip_left (open_strip b), out ''^'',
           to_string_path_params_hash pr (block_path b) (block_args b) (block_hash b),
           strip_right (open_strip b), out ''}}'', whenp is_raw (out ''}}''),
           maybe pr (block_inverse b),
           whenp is_raw (out ''{{''), out ''{{'', strip_left (close_strip b), out ''/'',
           to_string_close_path (block_path b),
           strip_right (close_strip b), out ''}}'', whenp is_raw (out ''}}'')]"

definition to_string_section :: "(node \<Rightarrow> step) \<Rightarrow> bool \<Rightarrow> node handlebars_ast_node_block \<Rightarrow> step" where
  "to_string_section pr is_raw b =
     seqs [out (if is_raw then ''{{{{'' else ''{{''), strip_left (open_strip b), whenp (\<not> is_raw) (out ''#''),
           whenp (block_is_decorator b) (out ''*''),
           to_string_path_params_hash pr (block_path b) (block_args b) (block_hash b),
           block_params_text (block_program b),
           strip_right (open_strip b), out ''}}'', whenp is_raw (out ''}}''),
           maybe pr (block_program b),
           (case block_inverse b of
              None \<Rightarrow> Inr
            | Some i \<Rightarrow> seqs [out ''{{'', strip_left (inverse_strip b), out ''^'', strip_right (inverse_strip b), out ''}}'', pr i]),
           whenp is_raw (out ''{{''), out ''{{'', strip_left (close_strip b), out ''/'',
           to_string_path_params_hash pr (block_path b) None None,
           strip_right (close_strip b), out ''}}'', whenp is_raw (out ''}}'')]"

definition to_string_block :: "(node \<Rightarrow> step) \<Rightarrow> bool \<Rightarrow> node handlebars_ast_node_block \<Rightarrow> step" where
  "to_string_block pr is_raw b =
     seqs [whenp is_raw (set_in_raw_block True),
           (if block_inverse b \<noteq> None \<and> block_program b = None then to_string_inverted pr is_raw b
            else to_string_section pr is_raw b),
           set_in_raw_block False]"

definition to_string_partial :: "(node \<Rightarrow> step) \<Rightarrow> u32 \<Rightarrow> node handlebars_ast_node_partial \<Rightarrow> step" where
  "to_string_partial pr strip p =
     (case part_name p of
        None \<Rightarrow> (\<lambda>c. Inl Assert_fail)
      | Some name \<Rightarrow>
          seqs [set_in_partial True, out ''{{'', strip_left strip, out ''>'', pr name,
                (case part_args p of
                   Some (x # _) \<Rightarrow> seqs [out '' '', pr x]
                 | _ \<Rightarrow> Inr),
                (case part_hash p of None \<Rightarrow> Inr | Some h \<Rightarrow> seqs [out '' '', pr h]),
                strip_right strip, out ''}}'', set_in_partial False])"

definition to_string_partial_block :: "(node \<Rightarrow> step) \<Rightarrow> node handlebars_ast_node_block \<Rightarrow> step" where
  "to_string_partial_block pr b =
     seqs [set_in_partial True, out ''{{#> '', maybe pr (block_path b), print_list pr (block_args b),
           (case block_hash b of None \<Rightarrow> Inr | Some h \<Rightarrow> seqs [out '' '', pr h]),
           out ''}}'', maybe pr (block_program b), out ''{{/'', maybe pr (block_path b), out ''}}'',
           set_in_partial False]"

definition to_string_content :: "handlebars_ast_node_literal \<Rightarrow> step" where
  "to_string_content l c =
     (if in_raw_block c then out_str (lit_original l) c
      else (case lit_original l of
              None \<Rightarrow> Inl Mem_error
            | Some s \<Rightarrow> ebind (handlebars_str_replace s ''{{'' (backslash # ''{{'')) (\<lambda>escaped. out_str (Some escaped) c)))"

definition to_string_comment :: "u32 \<Rightarrow> hstr option \<Rightarrow> bool \<Rightarrow> step" where
  "to_string_comment strip v is_long =
     seqs [out ''{{'', strip_left strip, out ''!'', whenp is_long (out ''--''), out_str v,
           whenp is_long (out ''--''), strip_right strip, out ''}}'']"

definition to_string_string :: "handlebars_ast_node_literal \<Rightarrow> step" where
  "to_string_string l c =
     (let q = (if is_single_quoted l then [quote] else [CHR 0x22])
      in case lit_value l of
           None \<Rightarrow> Inl Mem_error
         | Some s \<Rightarrow>
             ebind (out q c) (\<lambda>c1.
             ebind (handlebars_string_addcslashes s q) (\<lambda>t.
               seqs [out_str (Some t), out q] c1)))"

definition to_string_hash :: "(node \<Rightarrow> step) \<Rightarrow> node list option \<Rightarrow> step" where
  "to_string_hash pr pairs c =
     (case pairs of
        None \<Rightarrow> Inl Mem_error
      | Some ps \<Rightarrow>
          seqs [set_in_partial False, print_sep (\<lambda>n. case nbody n of
                  NODE_HASH_PAIR key v \<Rightarrow> seqs [out_str key, out ''='', maybe pr v]
                | _ \<Rightarrow> (\<lambda>c. Inl Mem_error)) (out '' '') ps,
                set_in_partial (in_partial c)] c)"

definition to_string_internals :: "(node \<Rightarrow> step) \<Rightarrow> u32 \<Rightarrow> node handlebars_ast_internals \<Rightarrow> step" where
  "to_string_internals pr strip body =
     (case body of
        NODE_BOOLEAN l \<Rightarrow> out_str (lit_value l)
      | NODE_BLOCK b \<Rightarrow> to_string_block pr False b
      | NODE_COMMENT v is_long \<Rightarrow> to_string_comment strip v is_long
      | NODE_CONTENT l \<Rightarrow> to_string_content l
      | NODE_HASH pairs \<Rightarrow> to_string_hash pr pairs
      | NODE_MUSTACHE m \<Rightarrow> to_string_mustache pr strip m
      | NODE_NUL _ \<Rightarrow> out ''null''
      | NODE_NUMBER l \<Rightarrow> out_str (lit_value l)
      | NODE_PARTIAL p \<Rightarrow> to_string_partial pr strip p
      | NODE_PARTIAL_BLOCK b \<Rightarrow> to_string_partial_block pr b
      | NODE_PATH p \<Rightarrow> to_string_path p
      | NODE_PROGRAM p \<Rightarrow> print_list pr (prog_statements p)
      | NODE_RAW_BLOCK b \<Rightarrow> to_string_block pr True b
      | NODE_SEXPR s \<Rightarrow> to_string_path_params_hash pr (sexpr_path s) (sexpr_args s) (sexpr_hash s)
      | NODE_STRING l \<Rightarrow> to_string_string l
      | NODE_UNDEFINED _ \<Rightarrow> out ''undefined''
      | _ \<Rightarrow> (\<lambda>c. Inl Assert_fail))"

lemma to_string_pph_eq:
  assumes "\<And>x. x \<in> set_option path \<union> (\<Union>xs \<in> set_option params. set xs) \<union> set_option hash \<Longrightarrow> f x = g x"
  shows "to_string_path_params_hash f path params hash = to_string_path_params_hash g path params hash"
proof -
  have "maybe f path = maybe g path" using assms by (intro maybe_eq) auto
  moreover have "(case params of None \<Rightarrow> Inr | Some ps \<Rightarrow> seqs [out '' '', print_sep f sep ps]) =
      (case params of None \<Rightarrow> Inr | Some ps \<Rightarrow> seqs [out '' '', print_sep g sep ps])" for sep
    using assms by (cases params) (auto intro!: arg_cong [where f = seqs] print_sep_eq)
  ultimately show ?thesis using assms by (cases hash) (auto simp: to_string_path_params_hash_def)
qed

lemma to_string_block_eq:
  assumes "\<And>x. x \<in> set_handlebars_ast_node_block b \<Longrightarrow> f x = g x"
  shows "to_string_block f r b = to_string_block g r b"
proof -
  have pph: "to_string_path_params_hash f (block_path b) (block_args b) (block_hash b) =
      to_string_path_params_hash g (block_path b) (block_args b) (block_hash b)"
    "to_string_path_params_hash f (block_path b) None None = to_string_path_params_hash g (block_path b) None None"
    using assms by (intro to_string_pph_eq; auto simp: block_nodes)+
  have may: "maybe f (block_inverse b) = maybe g (block_inverse b)" "maybe f (block_program b) = maybe g (block_program b)"
    using assms by (auto simp: block_nodes intro: maybe_eq)
  have "to_string_section f r b = to_string_section g r b"
    using assms by (auto simp: to_string_section_def pph may block_nodes split: option.splits)
  moreover have "to_string_inverted f r b = to_string_inverted g r b"
    by (simp add: to_string_inverted_def pph may)
  ultimately show ?thesis by (simp add: to_string_block_def)
qed

lemma to_string_internals_cong [fundef_cong]:
  assumes "s = s'" "body = body'" "c = d" "\<And>x u. x \<in> near body' \<Longrightarrow> f x u = g x u"
  shows "to_string_internals f s body c = to_string_internals g s' body' d"
proof -
  have eq: "f x = g x" if "x \<in> near body'" for x using assms(4) [OF that] by (simp add: fun_eq_iff)
  then have sub: "f x = g x" if "x \<in> subnodes body'" for x using that by (simp add: near_def)
  have "to_string_internals f s' body' = to_string_internals g s' body'"
  proof (cases body')
    case (NODE_BLOCK b)
    then show ?thesis using sub by (auto simp: to_string_internals_def subnodes_def intro!: to_string_block_eq)
  next
    case (NODE_RAW_BLOCK b)
    then show ?thesis using sub by (auto simp: to_string_internals_def subnodes_def intro!: to_string_block_eq)
  next
    case (NODE_PARTIAL_BLOCK b)
    then have "to_string_partial_block f b = to_string_partial_block g b"
      using sub by (auto simp: to_string_partial_block_def subnodes_def block_nodes intro!: arg_cong [where f = seqs] maybe_eq print_list_eq split: option.splits)
    then show ?thesis by (simp add: to_string_internals_def NODE_PARTIAL_BLOCK)
  next
    case (NODE_HASH pairs)
    have "f y = g y" if "x \<in> set ps" "y \<in> subnodes (nbody x)" "pairs = Some ps" for x y ps
      using that NODE_HASH by (intro eq) (auto simp: near_def subnodes_def)
    then have "to_string_hash f pairs = to_string_hash g pairs"
      by (cases pairs) (auto simp: to_string_hash_def fun_eq_iff intro!: arg_cong [where f = "\<lambda>l. seqs l _"] hash_pairs_eq [THEN fun_cong])
    then show ?thesis by (simp add: to_string_internals_def NODE_HASH)
  next
    case (NODE_MUSTACHE m)
    then show ?thesis
      using sub by (cases m) (auto simp: to_string_internals_def to_string_mustache_def subnodes_def intro!: arg_cong [where f = seqs] to_string_pph_eq)
  next
    case (NODE_PARTIAL p)
    then show ?thesis
      using sub by (cases p) (auto simp: to_string_internals_def to_string_partial_def subnodes_def intro!: arg_cong [where f = seqs] split: option.splits list.splits)
  next
    case (NODE_PROGRAM p)
    then show ?thesis
      using sub by (cases p) (auto simp: to_string_internals_def subnodes_def intro!: print_list_eq)
  next
    case (NODE_SEXPR x)
    then show ?thesis
      using sub by (cases x) (auto simp: to_string_internals_def subnodes_def intro!: to_string_pph_eq)
  qed (simp_all add: to_string_internals_def)
  then show ?thesis using assms(1-3) by simp
qed

function ast_to_string_node :: "node \<Rightarrow> step" where
  "ast_to_string_node (ast_node s l body) c = to_string_internals ast_to_string_node s body c"
  by pat_completeness auto

termination
  by (relation "measure (\<lambda>(n, c). size n)") (auto dest: near_smaller)

definition handlebars_ast_to_string :: "node \<Rightarrow> hbs_error + hstr" where
  "handlebars_ast_to_string n = ebind (ast_to_string_node n new_printer) (\<lambda>c. Inr (pout c))"

end
