(* ===== verification/AstPrinterProofs.thy ===== *)
theory AstPrinterProofs
  imports AstPrinter
begin

text \<open>
  What the two printers of the tree do to their context, whatever the tree: the output only grows, the padding
  is kept (the template) or never raised (the debugging form), and the only failures are those of a malformed
  tree. The steps are proved once in the locale \<open>paddings\<close>, for any order on the paddings, and used for equality
  and for \<open>\<le>\<close>.
\<close>

section \<open>The contract of a step\<close>

definition malformed :: "hbs_error \<Rightarrow> bool" where
  "malformed e \<longleftrightarrow> e = Mem_error \<or> e = Assert_fail"

definition runs :: "(int \<Rightarrow> int \<Rightarrow> bool) \<Rightarrow> int \<Rightarrow> step \<Rightarrow> bool" where
  "runs le k f \<longleftrightarrow>
     (\<forall>c. case f c of
        Inl e \<Rightarrow> malformed e
      | Inr d \<Rightarrow> le (padding d) (padding c + k) \<and> (\<exists>t. sval (pout d) = sval (pout c) @ t))"

lemma runsI:
  assumes "\<And>c e. f c = Inl e \<Longrightarrow> malformed e"
    and "\<And>c d. f c = Inr d \<Longrightarrow> le (padding d) (padding c + k) \<and> (\<exists>t. sval (pout d) = sval (pout c) @ t)"
  shows "runs le k f"
  using assms by (auto simp: runs_def split: sum.splits)

lemma runs_Inl: "runs le k f \<Longrightarrow> f c = Inl e \<Longrightarrow> malformed e"
  by (force simp: runs_def split: sum.splits)

lemma runs_Inr:
  assumes "runs le k f" "f c = Inr d"
  shows "le (padding d) (padding c + k)" "\<exists>t. sval (pout d) = sval (pout c) @ t"
  using assms by (force simp: runs_def split: sum.splits)+

lemma runs_eq: "runs le k f \<Longrightarrow> k = l \<Longrightarrow> runs le l f"
  by simp

lemma replace_total: "search \<noteq> [] \<Longrightarrow> NUL \<notin> set search \<Longrightarrow> \<exists>t. handlebars_str_replace s search rep = Inr t"
proof (cases "sval s = []")
  case False
  assume "search \<noteq> []" "NUL \<notin> set search"
  then have "\<exists>t. handlebars_str_replace (s\<lparr>salloc := length (sval s) + 1\<rparr>) search rep = Inr t"
    using str_replace_eq [of search "s\<lparr>salloc := length (sval s) + 1\<rparr>" rep] by (auto simp: str_ok_def)
  then show ?thesis using False \<open>search \<noteq> []\<close> by (auto simp: handlebars_str_replace_def)
qed (simp add: handlebars_str_replace_def)

section \<open>Steps and handlers\<close>

locale paddings =
  fixes le :: "int \<Rightarrow> int \<Rightarrow> bool"
  assumes le_refl: "le x x"
    and le_trans: "le x y \<Longrightarrow> le y z \<Longrightarrow> le x z"
    and le_add: "le x y \<Longrightarrow> le (x + k) (y + k)"
begin

lemma runs_Inr_step: "runs le 0 Inr"
  by (rule runsI) (auto simp: le_refl)

lemma runs_fail: "malformed e \<Longrightarrow> runs le k (\<lambda>c. Inl e)"
  by (rule runsI) auto

lemma runs_out: "runs le 0 (out s)"
proof (rule runsI)
  fix c :: printer
  obtain t where "handlebars_string_append (pout c) s = Inr t" "sval t = sval (pout c) @ s"
    using append_total by blast
  then show "malformed e" if "out s c = Inl e" for e using that by (simp add: out_def)
  show "le (padding d) (padding c + 0) \<and> (\<exists>t. sval (pout d) = sval (pout c) @ t)" if "out s c = Inr d" for d
    using that \<open>handlebars_string_append (pout c) s = Inr t\<close> \<open>sval t = sval (pout c) @ s\<close>
    by (auto simp: out_def le_refl)
qed

lemma runs_out_str: "runs le 0 (out_str s)"
proof (cases s)
  case None
  then have "out_str s = Inr" by (simp add: out_str_def fun_eq_iff)
  then show ?thesis by (simp add: runs_Inr_step)
next
  case (Some h)
  then have "out_str s = out (sval h)"
    by (simp add: out_str_def out_def handlebars_string_append_str_def fun_eq_iff)
  then show ?thesis by (simp add: runs_out)
qed

lemma runs_comp:
  assumes "runs le j f" "runs le k g"
  shows "runs le (j + k) (\<lambda>c. ebind (f c) g)"
proof (rule runsI)
  fix c e assume "ebind (f c) g = Inl e"
  then show "malformed e" using assms by (auto simp: ebind_eq_Inl dest: runs_Inl)
next
  fix c d assume "ebind (f c) g = Inr d"
  then obtain m where m: "f c = Inr m" "g m = Inr d" by auto
  have "le (padding d) (padding c + (j + k))"
    using le_trans [OF runs_Inr(1) [OF assms(2) m(2)] le_add [OF runs_Inr(1) [OF assms(1) m(1)]]] by (simp add: add.assoc)
  moreover have "\<exists>t. sval (pout d) = sval (pout c) @ t"
    using runs_Inr(2) [OF assms(1) m(1)] runs_Inr(2) [OF assms(2) m(2)] by auto
  ultimately show "le (padding d) (padding c + (j + k)) \<and> (\<exists>t. sval (pout d) = sval (pout c) @ t)" by simp
qed

lemma seqs_efold: "seqs = efold (\<lambda>f. f)"
  by (simp add: seqs_def fun_eq_iff)

lemma seqs_simps: "seqs [] = Inr" "seqs (f # fs) = (\<lambda>c. ebind (f c) (seqs fs))"
  by (simp_all add: seqs_efold fun_eq_iff)

lemma runs_Nil: "runs le 0 (seqs [])"
  by (simp add: seqs_simps(1) runs_Inr_step)

lemma runs_Cons: "runs le j f \<Longrightarrow> runs le k (seqs fs) \<Longrightarrow> runs le (j + k) (seqs (f # fs))"
  unfolding seqs_simps(2) by (rule runs_comp)

lemma runs_add_padding: "runs le k (add_padding k)"
  by (rule runsI) (auto simp: add_padding_def le_refl)

lemma runs_flags: "runs le 0 (set_in_partial b)" "runs le 0 (set_in_raw_block b)"
  by (auto simp: set_in_partial_def set_in_raw_block_def le_refl intro!: runsI)

lemma runs_whenp: "runs le 0 f \<Longrightarrow> runs le 0 (whenp b f)"
  by (simp add: whenp_def runs_Inr_step)

lemma runs_if: "runs le k f \<Longrightarrow> runs le k g \<Longrightarrow> runs le k (if b then f else g)"
  by simp

lemma runs_option: "runs le k f \<Longrightarrow> (\<And>x. runs le k (g x)) \<Longrightarrow> runs le k (case n of None \<Rightarrow> f | Some x \<Rightarrow> g x)"
  by (cases n) auto

lemma runs_list: "runs le k f \<Longrightarrow> (\<And>x xs. runs le k (g x xs)) \<Longrightarrow> runs le k (case l of [] \<Rightarrow> f | x # xs \<Rightarrow> g x xs)"
  by (cases l) auto

lemma runs_pads: "runs le 0 pad_head" "runs le 0 pad_foot"
proof -
  have "pad_head c = (if padding c > 0 \<and> padding c < 16 then out (replicate (nat (padding c) * 2) (CHR '' '')) c else Inr c)" for c
    by (simp add: pad_head_def)
  then show "runs le 0 pad_head"
    using runs_Inr [OF runs_out] runs_Inl [OF runs_out] by (intro runsI) (auto simp: le_refl split: if_split_asm)
  show "runs le 0 pad_foot" by (simp add: pad_foot_def runs_out)
qed

lemma runs_seq_rules:
  "k = 0 \<Longrightarrow> runs le k (seqs [])"
  "runs le (k - j) (seqs fs) \<Longrightarrow> runs le k (seqs (add_padding j # fs))"
  "runs le 0 f \<Longrightarrow> runs le k (seqs fs) \<Longrightarrow> runs le k (seqs (f # fs))"
  using runs_Nil runs_Cons [OF runs_add_padding, of "k - j" fs j] runs_Cons [of 0 f k fs] by simp_all

lemmas step_rules = runs_seq_rules refl runs_Inr_step runs_out runs_out_str runs_flags runs_whenp runs_pads runs_if
  runs_option runs_list

lemma runs_pad: "runs le 0 (hbs_ast_print_pad s)"
  unfolding hbs_ast_print_pad_def by (intro step_rules)

lemma runs_in_context: "(\<And>c. runs le k (f c)) \<Longrightarrow> runs le k (\<lambda>c. f c c)"
  by (force simp: runs_def)

lemma runs_maybe: "(\<And>n. runs le 0 (pr n)) \<Longrightarrow> runs le 0 (maybe pr n)"
  unfolding maybe_def by (intro step_rules)

lemma runs_efold: "(\<And>n. runs le 0 (pr n)) \<Longrightarrow> runs le 0 (efold pr ns)"
proof (induction ns)
  case Nil
  have "efold pr [] = Inr" by (simp add: fun_eq_iff)
  then show ?case by (simp add: runs_Inr_step)
next
  case (Cons n ns)
  have "efold pr (n # ns) = (\<lambda>c. ebind (pr n c) (efold pr ns))" by (simp add: fun_eq_iff)
  then show ?case using runs_comp [OF Cons.prems Cons.IH [OF Cons.prems]] by simp
qed

lemma runs_print_list: "(\<And>n. runs le 0 (pr n)) \<Longrightarrow> runs le 0 (print_list pr ns)"
  using runs_efold [of pr] runs_Inr_step by (cases ns) (auto simp: print_list_def runs_def)

lemma runs_print_sep: "(\<And>n. runs le 0 (pr n)) \<Longrightarrow> runs le 0 sep \<Longrightarrow> runs le 0 (print_sep pr sep ns)"
proof (induction ns)
  case Nil
  then show ?case using runs_Inr_step by (simp add: runs_def)
next
  case (Cons n ns)
  have "runs le (0 + 0) (\<lambda>c. ebind (pr n c) (\<lambda>c1. if ns = [] then Inr c1 else ebind (sep c1) (print_sep pr sep ns)))"
    using Cons runs_comp [OF Cons.prems(2) Cons.IH [OF Cons.prems]] runs_Inr_step
    by (intro runs_comp) (auto simp: runs_def)
  then show ?case by (simp add: runs_def)
qed

lemma runs_print_parts: "runs le 0 (print_parts ns)"
proof (induction ns)
  case Nil
  then show ?case using runs_Inr_step by (simp add: runs_def)
next
  case (Cons n ns)
  note IH = Cons.IH
  show ?case
  proof (cases "nbody n")
    case (NODE_PATH_SEGMENT part s o')
    have "runs le 0 (\<lambda>c1. case ns of [] \<Rightarrow> Inr c1 | y # _ \<Rightarrow>
          (case nbody y of NODE_PATH_SEGMENT _ separator _ \<Rightarrow> ebind (out_str separator c1) (print_parts ns)
           | _ \<Rightarrow> Inl Mem_error))" (is "runs le 0 ?g")
    proof (cases ns)
      case Nil
      then show ?thesis using runs_Inr_step by simp
    next
      case (Cons y ys)
      have m: "malformed Mem_error" by (simp add: malformed_def)
      show ?thesis
        unfolding Cons list.case
        using runs_fail [OF m, of 0] runs_comp [OF runs_out_str IH, unfolded Cons] by (cases "nbody y") (auto simp del: print_parts.simps)
    qed
    from runs_comp [OF runs_out_str [of part] this] show ?thesis by (simp add: runs_def NODE_PATH_SEGMENT)
  qed (simp_all add: runs_def malformed_def)
qed

lemma runs_hash_pairs:
  assumes "\<And>n. runs le 0 (pr n)"
  shows "runs le 0 (print_sep (\<lambda>n. case nbody n of
                  NODE_HASH_PAIR key v \<Rightarrow> seqs [out_str key, out ''='', maybe pr v]
                | _ \<Rightarrow> (\<lambda>c. Inl Mem_error)) (out s) ps)"
proof (intro runs_print_sep runs_out)
  fix n
  have "runs le 0 (seqs [out_str key, out ''='', maybe pr v])" for key v
    by (intro step_rules runs_maybe assms)
  then show "runs le 0 (case nbody n of
                  NODE_HASH_PAIR key v \<Rightarrow> seqs [out_str key, out ''='', maybe pr v]
                | _ \<Rightarrow> (\<lambda>c. Inl Mem_error))"
    by (cases "nbody n") (auto simp: malformed_def intro!: runs_fail)
qed

lemma runs_pph:
  assumes "\<And>n. runs le 0 (pr n)"
  shows "runs le 0 (print_path_params_hash pr path params hash)"
  unfolding print_path_params_hash_def by (intro step_rules runs_maybe runs_print_sep assms)

lemma runs_print_hash: "(\<And>n. runs le 0 (pr n)) \<Longrightarrow> runs le 0 (print_hash pr pairs)"
proof (cases pairs)
  case (Some ps)
  assume pr: "\<And>n. runs le 0 (pr n)"
  show ?thesis
    unfolding print_hash_def Some option.case
    by (rule runs_in_context) (intro step_rules runs_hash_pairs pr)
qed (simp add: runs_def print_hash_def malformed_def)

lemma runs_quoted: "runs le 0 (print_quoted l v r)"
  unfolding print_quoted_def by (rule runs_in_context) (intro step_rules)

lemma runs_path: "runs le 0 (print_path p)"
proof (cases "path_parts p")
  case (Some parts)
  show ?thesis unfolding print_path_def Some option.case
    by (rule runs_in_context) (intro step_rules runs_print_parts)
qed (simp add: runs_def print_path_def malformed_def)

lemma runs_literals:
  "runs le 0 (print_content l)" "runs le 0 (print_comment v)"
  by (unfold print_content_def print_comment_def) (intro step_rules)+

lemma runs_mustache: "(\<And>n. runs le 0 (pr n)) \<Longrightarrow> runs le 0 (print_mustache pr m)"
  unfolding print_mustache_def by (intro step_rules runs_pph)

lemma runs_partial: "(\<And>n. runs le 0 (pr n)) \<Longrightarrow> runs le 0 (print_partial pr p)"
  unfolding print_partial_def by (intro step_rules runs_fail) (simp_all add: malformed_def)

lemma runs_partial_block:
  assumes "\<And>n. runs le 0 (pr n)"
  shows "runs le 0 (print_partial_block pr b)"
  unfolding print_partial_block_def by (intro step_rules runs_maybe runs_print_list assms, simp)

lemma runs_to_string_pph:
  assumes "\<And>n. runs le 0 (pr n)"
  shows "runs le 0 (to_string_path_params_hash pr path params hash)"
  unfolding to_string_path_params_hash_def
  by (rule runs_in_context) (intro step_rules runs_maybe runs_print_sep assms, simp)

lemma runs_strip: "runs le 0 (strip_left s)" "runs le 0 (strip_right s)"
  by (unfold strip_left_def strip_right_def) (intro step_rules)+

lemma runs_to_string_path: "runs le 0 (to_string_path p)"
  unfolding to_string_path_def by (intro step_rules runs_print_parts)

lemma runs_close_path: "runs le 0 (to_string_close_path n)"
proof (cases n)
  case (Some m)
  then show ?thesis
    by (cases "nbody m") (auto simp: to_string_close_path_def malformed_def intro: runs_fail runs_to_string_path runs_out_str)
qed (simp add: to_string_close_path_def runs_fail malformed_def)

lemma runs_block_params: "runs le 0 (block_params_text program)"
proof (cases program)
  case (Some m)
  have "runs le 0 (whenp b (seqs [out x, out_str p1, whenp d (seqs [out y, out_str p2]), out z]))" for b d x y z p1 p2
    by (intro step_rules)
  with Some show ?thesis
    by (cases "nbody m") (auto simp: block_params_text_def malformed_def intro: runs_fail)
qed (simp add: block_params_text_def runs_Inr_step)

lemma runs_to_string_mustache: "(\<And>n. runs le 0 (pr n)) \<Longrightarrow> runs le 0 (to_string_mustache pr s m)"
  unfolding to_string_mustache_def by (intro step_rules runs_strip runs_to_string_pph)

lemma runs_to_string_block:
  assumes "\<And>n. runs le 0 (pr n)"
  shows "runs le 0 (to_string_block pr r b)"
proof -
  have "runs le 0 (to_string_inverted pr r b)"
    unfolding to_string_inverted_def by (intro step_rules runs_strip runs_to_string_pph runs_maybe runs_close_path assms)
  moreover have "runs le 0 (to_string_section pr r b)"
    unfolding to_string_section_def
    by (intro step_rules runs_strip runs_to_string_pph runs_maybe runs_block_params assms)
  ultimately show ?thesis unfolding to_string_block_def by (intro step_rules)
qed

lemma runs_to_string_partial: "(\<And>n. runs le 0 (pr n)) \<Longrightarrow> runs le 0 (to_string_partial pr s p)"
  unfolding to_string_partial_def by (intro step_rules runs_fail runs_strip) (simp_all add: malformed_def)

lemma runs_to_string_partial_block: "(\<And>n. runs le 0 (pr n)) \<Longrightarrow> runs le 0 (to_string_partial_block pr b)"
  unfolding to_string_partial_block_def by (intro step_rules runs_maybe runs_print_list)

lemma runs_to_string_content: "runs le 0 (to_string_content l)"
proof (rule runsI)
  fix c :: printer
  have "\<exists>t. to_string_content l c = out_str t c \<or> (to_string_content l c = Inl Mem_error)"
  proof (cases "lit_original l")
    case None
    then have "to_string_content l c = (if in_raw_block c then out_str None c else Inl Mem_error)"
      by (simp add: to_string_content_def)
    then show ?thesis by (auto split: if_split_asm)
  next
    case (Some s)
    obtain t where "handlebars_str_replace s ''{{'' (backslash # ''{{'') = Inr t"
      using replace_total [of "''{{''" s "backslash # ''{{''"] by auto
    then have "to_string_content l c = out_str (if in_raw_block c then Some s else Some t) c"
      by (simp add: to_string_content_def Some)
    then show ?thesis by blast
  qed
  then obtain t where t: "to_string_content l c = out_str t c \<or> to_string_content l c = Inl Mem_error" by blast
  show "malformed e" if "to_string_content l c = Inl e" for e
    using t that runs_Inl [OF runs_out_str, of t c e] by (auto simp: malformed_def)
  show "le (padding d) (padding c + 0) \<and> (\<exists>t. sval (pout d) = sval (pout c) @ t)" if "to_string_content l c = Inr d" for d
    using t that runs_Inr [OF runs_out_str, of t c d] by auto
qed

lemma runs_to_string_string: "runs le 0 (to_string_string l)"
proof (cases "lit_value l")
  case (Some s)
  let ?q = "if is_single_quoted l then [quote] else [CHR 0x22]"
  obtain t where "handlebars_string_addcslashes s ?q = Inr t" using addcslashes_eq by blast
  then have "to_string_string l = seqs [out ?q, out_str (Some t), out ?q]"
    by (simp add: to_string_string_def Some seqs_simps Let_def fun_eq_iff)
  then show ?thesis by (simp only:) (intro step_rules)
qed (simp add: runs_def to_string_string_def Let_def malformed_def)

lemma runs_to_string_hash: "(\<And>n. runs le 0 (pr n)) \<Longrightarrow> runs le 0 (to_string_hash pr pairs)"
proof (cases pairs)
  case (Some ps)
  assume pr: "\<And>n. runs le 0 (pr n)"
  show ?thesis
    unfolding to_string_hash_def Some option.case
    by (rule runs_in_context) (intro step_rules runs_hash_pairs pr)
qed (simp add: runs_def to_string_hash_def malformed_def)

lemma runs_to_string_comment: "runs le 0 (to_string_comment s v b)"
  unfolding to_string_comment_def by (intro step_rules runs_strip)

lemma runs_to_string_internals:
  assumes "\<And>n. runs le 0 (pr n)"
  shows "runs le 0 (to_string_internals pr s body)"
  unfolding to_string_internals_def
  by (cases body)
    (auto simp: malformed_def assms intro: runs_fail runs_out runs_out_str runs_to_string_block runs_to_string_comment
      runs_to_string_content runs_to_string_hash runs_to_string_mustache runs_to_string_partial
      runs_to_string_partial_block runs_to_string_path runs_print_list runs_to_string_pph runs_to_string_string)

lemma runs_to_string: "runs le 0 (ast_to_string_node n)"
proof (induction "size n" arbitrary: n rule: less_induct)
  case less
  obtain s l body where n: "n = ast_node s l body" by (cases n)
  let ?pr = "\<lambda>x. if x \<in> near body then ast_to_string_node x else Inr"
  have "runs le 0 (to_string_internals ?pr s body)"
    using less near_smaller n by (intro runs_to_string_internals) (auto intro: runs_Inr_step)
  moreover have "ast_to_string_node n = to_string_internals ?pr s body"
    unfolding n by (intro ext) (simp cong: to_string_internals_cong)
  ultimately show ?case by simp
qed

end

text \<open>The debugging form lowers the padding at the end of a program.\<close>

locale lowering = paddings +
  assumes le_lower: "le (x - 1) x"
begin

lemma runs_lower: "runs le (- 1) f \<Longrightarrow> runs le 0 f"
proof (rule runsI)
  fix c d assume "runs le (- 1) f" "f c = Inr d"
  then show "le (padding d) (padding c + 0) \<and> (\<exists>t. sval (pout d) = sval (pout c) @ t)"
    using runs_Inr [of le "- 1" f c d] le_trans le_lower [of "padding c"] by auto
qed (rule runs_Inl)

lemma runs_program:
  assumes "\<And>n. runs le 0 (pr n)"
  shows "runs le 0 (print_program pr p)"
  unfolding print_program_def by (rule runs_lower) (intro step_rules runs_print_list assms, simp)

lemma runs_block:
  assumes "\<And>n. runs le 0 (pr n)"
  shows "runs le 0 (print_block pr b)"
proof -
  have p: "runs le 0 (case block_program b of None \<Rightarrow> Inr
      | Some p \<Rightarrow> seqs [hbs_ast_print_pad ''PROGRAM:'', add_padding 1, pr p, add_padding (- 1)])"
    by (intro step_rules runs_pad assms) simp
  have i: "runs le 0 (case block_inverse b of None \<Rightarrow> Inr
      | Some i \<Rightarrow> seqs [whenp (block_program b \<noteq> None) (add_padding 1), hbs_ast_print_pad ''{{^}}'', add_padding 1,
                       pr i, add_padding (- 1), whenp (block_program b \<noteq> None) (add_padding (- 1))])"
  proof (cases "block_program b")
    case None
    then show ?thesis
      by (simp only: whenp_def simp_thms if_False) (intro step_rules runs_pad assms, simp)
  next
    case (Some p)
    then show ?thesis
      by (simp only: whenp_def option.distinct if_True simp_thms) (intro step_rules runs_pad assms, simp)
  qed
  show ?thesis
    unfolding print_block_def by (intro runs_seq_rules runs_pads runs_pad runs_pph p i assms) simp
qed

lemma runs_print_internals:
  assumes "\<And>n. runs le 0 (pr n)"
  shows "runs le 0 (print_internals pr body)"
proof -
  have "runs le 0 (seqs [out x, out_str v, out y])" for x v y by (intro step_rules)
  then show ?thesis
    unfolding print_internals_def
    by (cases body)
      (auto simp: malformed_def assms intro: runs_fail runs_out runs_block runs_literals runs_print_hash runs_mustache
        runs_quoted runs_partial runs_partial_block runs_path runs_program runs_pph)
qed

lemma runs_ast_print: "runs le 0 (ast_print_node n)"
proof (induction "size n" arbitrary: n rule: less_induct)
  case less
  obtain s l body where n: "n = ast_node s l body" by (cases n)
  let ?pr = "\<lambda>x. if x \<in> near body then ast_print_node x else Inr"
  have "runs le 0 (print_internals ?pr body)"
    using less near_smaller n by (intro runs_print_internals) (auto intro: runs_Inr_step)
  moreover have "ast_print_node n = print_internals ?pr body"
    unfolding n by (intro ext) (simp cong: print_internals_cong)
  ultimately show ?case by simp
qed

end

interpretation same_padding: paddings "(=)"
  by unfold_locales auto

interpretation lower_padding: lowering "(\<le>)"
  by unfold_locales auto

section \<open>Trees that can be printed\<close>

text \<open>
  The shape of a tree whose template can be printed: contents, strings and partials have what is read of them, a hash
  has pairs, the program of a block is a program, and no node is one that only the parser's stack holds.
\<close>

definition is_segment :: "node \<Rightarrow> bool" where
  "is_segment n = (case nbody n of NODE_PATH_SEGMENT _ _ _ \<Rightarrow> True | _ \<Rightarrow> False)"

definition has_close_text :: "node option \<Rightarrow> bool" where
  "has_close_text path =
     (case path of
        None \<Rightarrow> False
      | Some n \<Rightarrow>
          (case nbody n of
             NODE_PATH p \<Rightarrow> True | NODE_STRING l \<Rightarrow> True | NODE_NUMBER l \<Rightarrow> True | NODE_BOOLEAN l \<Rightarrow> True
           | NODE_UNDEFINED l \<Rightarrow> True | NODE_NUL l \<Rightarrow> True | _ \<Rightarrow> False))"

definition block_shape :: "node handlebars_ast_node_block \<Rightarrow> bool" where
  "block_shape b \<longleftrightarrow>
     (if block_inverse b \<noteq> None \<and> block_program b = None then has_close_text (block_path b)
      else \<forall>p \<in> set_option (block_program b). ast_type p = HANDLEBARS_AST_NODE_PROGRAM)"

definition print_shape :: "node handlebars_ast_internals \<Rightarrow> bool" where
  "print_shape body =
     (case body of
        NODE_BLOCK b \<Rightarrow> block_shape b
      | NODE_RAW_BLOCK b \<Rightarrow> block_shape b
      | NODE_CONTENT l \<Rightarrow> lit_original l \<noteq> None
      | NODE_STRING l \<Rightarrow> lit_value l \<noteq> None
      | NODE_PARTIAL p \<Rightarrow> part_name p \<noteq> None
      | NODE_PATH p \<Rightarrow> path_original p \<noteq> None \<or> (\<forall>xs \<in> set_option (path_parts p). list_all is_segment xs)
      | NODE_HASH pairs \<Rightarrow>
          (case pairs of None \<Rightarrow> False | Some ps \<Rightarrow> list_all (\<lambda>n. ast_type n = HANDLEBARS_AST_NODE_HASH_PAIR) ps)
      | NODE_HASH_PAIR _ _ \<Rightarrow> False
      | NODE_INTERMEDIATE _ \<Rightarrow> False
      | NODE_INVERSE _ _ \<Rightarrow> False
      | NODE_PATH_SEGMENT _ _ _ \<Rightarrow> False
      | NODE_NIL \<Rightarrow> False
      | _ \<Rightarrow> True)"

text \<open>The nodes that the printer visits from here.\<close>

definition visited :: "node handlebars_ast_internals \<Rightarrow> node set" where
  "visited body =
     (case body of
        NODE_HASH pairs \<Rightarrow> \<Union>p \<in> \<Union> (set ` set_option pairs). subnodes (nbody p)
      | NODE_PATH _ \<Rightarrow> {}
      | _ \<Rightarrow> subnodes body)"

lemma visited_near: "x \<in> visited body \<Longrightarrow> x \<in> near body"
  by (cases body) (auto simp: visited_def near_def subnodes_def)

function printable :: "node \<Rightarrow> bool" where
  "printable (ast_node s l body) \<longleftrightarrow> print_shape body \<and> (\<forall>x \<in> visited body. printable x)"
  by pat_completeness auto

termination
  by (relation "measure size") (auto intro!: near_smaller [OF visited_near, simplified])

definition succeeds :: "step \<Rightarrow> bool" where
  "succeeds f \<longleftrightarrow> (\<forall>c. \<exists>d. f c = Inr d)"

lemma succeeds_bind: "succeeds f \<Longrightarrow> succeeds g \<Longrightarrow> succeeds (\<lambda>c. ebind (f c) g)"
  by (force simp: succeeds_def)

lemma succeeds_in_context: "(\<And>c. succeeds (f c)) \<Longrightarrow> succeeds (\<lambda>c. f c c)"
  by (auto simp: succeeds_def)

lemma succeeds_Inr: "succeeds Inr"
  by (simp add: succeeds_def)

lemma succeeds_out: "succeeds (out s)"
  unfolding succeeds_def
proof
  fix c :: printer
  obtain t where "handlebars_string_append (pout c) s = Inr t" using append_total by blast
  then show "\<exists>d. out s c = Inr d" by (simp add: out_def)
qed

lemma succeeds_out_str: "succeeds (out_str s)"
proof (cases s)
  case (Some h)
  then have "out_str s = out (sval h)" by (simp add: out_str_def out_def handlebars_string_append_str_def fun_eq_iff)
  then show ?thesis by (simp add: succeeds_out)
qed (simp add: succeeds_def out_str_def)

lemma succeeds_context: "succeeds (add_padding k)" "succeeds (set_in_partial b)" "succeeds (set_in_raw_block b)"
  by (simp_all add: succeeds_def add_padding_def set_in_partial_def set_in_raw_block_def)

lemma succeeds_seqs: "succeeds (seqs [])" "succeeds f \<Longrightarrow> succeeds (seqs fs) \<Longrightarrow> succeeds (seqs (f # fs))"
  unfolding same_padding.seqs_simps by (simp_all add: succeeds_Inr succeeds_bind)

lemma succeeds_cases:
  "succeeds f \<Longrightarrow> succeeds (whenp b f)"
  "succeeds f \<Longrightarrow> succeeds g \<Longrightarrow> succeeds (if b then f else g)"
  "succeeds f \<Longrightarrow> (\<And>x. n = Some x \<Longrightarrow> succeeds (h x)) \<Longrightarrow> succeeds (case n of None \<Rightarrow> f | Some x \<Rightarrow> h x)"
  "(\<And>x. n = Some x \<Longrightarrow> succeeds (pr x)) \<Longrightarrow> succeeds (maybe pr n)"
  by (cases n; simp add: whenp_def succeeds_Inr maybe_def)+

lemmas succeeds_rules = succeeds_seqs succeeds_Inr succeeds_out succeeds_out_str succeeds_context succeeds_cases

lemma succeeds_sep: "(\<And>x. x \<in> set xs \<Longrightarrow> succeeds (pr x)) \<Longrightarrow> succeeds sep \<Longrightarrow> succeeds (print_sep pr sep xs)"
proof (induction xs)
  case (Cons x xs)
  have "succeeds (\<lambda>c. ebind (pr x c) (\<lambda>c1. if xs = [] then Inr c1 else ebind (sep c1) (print_sep pr sep xs)))"
    using Cons by (cases "xs = []") (auto intro!: succeeds_bind simp: succeeds_Inr)
  then show ?case by (simp add: succeeds_def)
qed (simp add: succeeds_def)

lemma succeeds_list: "(\<And>x. x \<in> \<Union> (set ` set_option ns) \<Longrightarrow> succeeds (pr x)) \<Longrightarrow> succeeds (print_list pr ns)"
proof (cases ns)
  case (Some xs)
  assume "\<And>x. x \<in> \<Union> (set ` set_option ns) \<Longrightarrow> succeeds (pr x)"
  then have "\<forall>x \<in> set xs. succeeds (pr x)" by (simp add: Some)
  then have "\<exists>d. efold pr xs c = Inr d" for c 
    by (induction xs arbitrary: c) (simp_all add: succeeds_def, metis)
  then show ?thesis by (simp add: succeeds_def print_list_def Some)
qed (simp add: succeeds_def print_list_def)

lemma succeeds_parts: "list_all is_segment xs \<Longrightarrow> succeeds (print_parts xs)"
proof (induction xs)
  case (Cons x xs)
  then obtain part s w where x: "nbody x = NODE_PATH_SEGMENT part s w"
    by (auto simp: is_segment_def split: handlebars_ast_internals.splits)
  have "succeeds (\<lambda>c1. case xs of [] \<Rightarrow> Inr c1 | y # _ \<Rightarrow>
          (case nbody y of NODE_PATH_SEGMENT _ separator _ \<Rightarrow> ebind (out_str separator c1) (print_parts xs)
           | _ \<Rightarrow> Inl Mem_error))"
  proof (cases xs)
    case (Cons y ys)
    with Cons.prems obtain p' s' w' where "nbody y = NODE_PATH_SEGMENT p' s' w'"
      by (auto simp: is_segment_def split: handlebars_ast_internals.splits)
    then show ?thesis using Cons.IH Cons.prems Cons by (simp add: succeeds_bind succeeds_out_str del: print_parts.simps)
  qed (simp add: succeeds_Inr)
  from succeeds_bind [OF succeeds_out_str [of part] this] show ?case by (simp add: succeeds_def x)
qed (simp add: succeeds_def)

lemma succeeds_path:
  "path_original p \<noteq> None \<or> (\<forall>xs \<in> set_option (path_parts p). list_all is_segment xs) \<Longrightarrow> succeeds (to_string_path p)"
  unfolding to_string_path_def
  by (cases "path_parts p") (auto intro!: succeeds_rules succeeds_parts split: list.split)

lemma succeeds_pph:
  assumes "\<And>x. x \<in> set_option path \<union> \<Union> (set ` set_option params) \<union> set_option hash \<Longrightarrow> succeeds (pr x)"
  shows "succeeds (to_string_path_params_hash pr path params hash)"
proof -
  have params: "succeeds (case params of None \<Rightarrow> Inr | Some ps \<Rightarrow> seqs [out '' '', print_sep pr (out '' '') ps])"
    using assms by (cases params) (auto intro!: succeeds_seqs succeeds_out succeeds_sep succeeds_Inr)
  have hash: "succeeds (case hash of None \<Rightarrow> Inr | Some h \<Rightarrow> seqs [out '' '', pr h])"
    using assms by (cases hash) (auto intro!: succeeds_seqs succeeds_out succeeds_Inr)
  have "succeeds (seqs [add_padding 1, whenp b (out ''(''), maybe pr path,
           (case params of None \<Rightarrow> Inr | Some ps \<Rightarrow> seqs [out '' '', print_sep pr (out '' '') ps]),
           (case hash of None \<Rightarrow> Inr | Some h \<Rightarrow> seqs [out '' '', pr h]), whenp b (out '')''), add_padding (- 1)])" for b
    using assms by (intro succeeds_seqs succeeds_context succeeds_cases(1,4) succeeds_out params hash) simp_all
  then show ?thesis by (simp add: succeeds_def to_string_path_params_hash_def)
qed

lemma ast_type_PROGRAM: "ast_type n = HANDLEBARS_AST_NODE_PROGRAM \<longleftrightarrow> (\<exists>p. nbody n = NODE_PROGRAM p)"
  and ast_type_PAIR: "ast_type n = HANDLEBARS_AST_NODE_HASH_PAIR \<longleftrightarrow> (\<exists>k v. nbody n = NODE_HASH_PAIR k v)"
  by (cases n; cases "nbody n"; auto)+

lemma succeeds_block:
  assumes "block_shape b" "\<And>x. x \<in> set_handlebars_ast_node_block b \<Longrightarrow> succeeds (pr x)"
    and path: "\<And>n p. block_path b = Some n \<Longrightarrow> nbody n = NODE_PATH p \<Longrightarrow> succeeds (to_string_path p)"
  shows "succeeds (to_string_block pr r b)"
proof -
  have pph: "succeeds (to_string_path_params_hash pr (block_path b) (block_args b) (block_hash b))"
    "succeeds (to_string_path_params_hash pr (block_path b) None None)"
    using assms(2) by (auto simp: block_nodes intro!: succeeds_pph)
  have may: "succeeds (maybe pr (block_inverse b))" "succeeds (maybe pr (block_program b))"
    using assms(2) by (auto simp: block_nodes intro!: succeeds_rules)
  have strips: "succeeds (strip_left x)" "succeeds (strip_right x)" for x
    by (unfold strip_left_def strip_right_def) (intro succeeds_rules)+
  show ?thesis
  proof (cases "block_inverse b \<noteq> None \<and> block_program b = None")
    case True
    then have "succeeds (to_string_close_path (block_path b))"
      using assms(1) path
      by (auto simp: block_shape_def has_close_text_def to_string_close_path_def succeeds_out_str
          split: option.splits handlebars_ast_internals.splits)
    then have "succeeds (to_string_inverted pr r b)"
      unfolding to_string_inverted_def by (intro succeeds_rules pph strips may(1))
    moreover have "to_string_block pr r b = seqs [whenp r (set_in_raw_block True), to_string_inverted pr r b, set_in_raw_block False]"
      using True by (simp add: to_string_block_def)
    ultimately show ?thesis by (simp only:) (intro succeeds_rules)
  next
    case False
    then have params: "succeeds (block_params_text (block_program b))"
      using assms(1)
      by (cases "block_program b")
        (auto simp: block_params_text_def block_shape_def ast_type_PROGRAM intro!: succeeds_rules)
    have "succeeds (case block_inverse b of None \<Rightarrow> Inr
        | Some i \<Rightarrow> seqs [out ''{{'', strip_left (inverse_strip b), out ''^'', strip_right (inverse_strip b), out ''}}'', pr i])"
      using assms(2) by (intro succeeds_rules strips) (simp add: block_nodes)
    then have "succeeds (to_string_section pr r b)"
      unfolding to_string_section_def
      by (intro succeeds_seqs succeeds_cases(1,2) succeeds_out pph strips may(2) params)
    moreover have "to_string_block pr r b = seqs [whenp r (set_in_raw_block True), to_string_section pr r b, set_in_raw_block False]"
      using False by (auto simp: to_string_block_def)
    ultimately show ?thesis by (simp only:) (intro succeeds_rules)
  qed
qed

lemma succeeds_content: "lit_original l \<noteq> None \<Longrightarrow> succeeds (to_string_content l)"
proof -
  assume "lit_original l \<noteq> None"
  then obtain s where s: "lit_original l = Some s" by blast
  obtain t where "handlebars_str_replace s ''{{'' (backslash # ''{{'') = Inr t"
    using replace_total [of "''{{''" s "backslash # ''{{''"] by auto
  then have "to_string_content l c = out_str (if in_raw_block c then Some s else Some t) c" for c
    by (simp add: to_string_content_def s)
  then show ?thesis using succeeds_out_str by (simp add: succeeds_def)
qed

lemma succeeds_string: "lit_value l \<noteq> None \<Longrightarrow> succeeds (to_string_string l)"
proof -
  assume "lit_value l \<noteq> None"
  then obtain s where s: "lit_value l = Some s" by blast
  let ?q = "if is_single_quoted l then [quote] else [CHR 0x22]"
  obtain t where "handlebars_string_addcslashes s ?q = Inr t" using addcslashes_eq by blast
  then have "to_string_string l = seqs [out ?q, out_str (Some t), out ?q]"
    by (simp add: to_string_string_def s same_padding.seqs_simps Let_def fun_eq_iff)
  then show ?thesis by (simp only:) (intro succeeds_rules)
qed

lemma succeeds_hash:
  assumes "list_all (\<lambda>n. ast_type n = HANDLEBARS_AST_NODE_HASH_PAIR) ps"
    and "\<And>p x. p \<in> set ps \<Longrightarrow> x \<in> subnodes (nbody p) \<Longrightarrow> succeeds (pr x)"
  shows "succeeds (to_string_hash pr (Some ps))"
proof -
  have "succeeds (case nbody n of NODE_HASH_PAIR key v \<Rightarrow> seqs [out_str key, out ''='', maybe pr v]
      | _ \<Rightarrow> (\<lambda>c. Inl Mem_error))" if m: "n \<in> set ps" for n
  proof -
    obtain k v where n: "nbody n = NODE_HASH_PAIR k v"
      using assms(1) m by (auto simp: list_all_iff ast_type_PAIR)
    have "succeeds (seqs [out_str k, out ''='', maybe pr v])"
      using assms(2) [OF m] n by (intro succeeds_rules) (simp add: subnodes_def)
    then show ?thesis by (simp add: n)
  qed
  then have "succeeds (seqs [set_in_partial False, print_sep (\<lambda>n. case nbody n of
                  NODE_HASH_PAIR key v \<Rightarrow> seqs [out_str key, out ''='', maybe pr v]
                | _ \<Rightarrow> (\<lambda>c. Inl Mem_error)) (out '' '') ps, set_in_partial b])" for b
    by (intro succeeds_rules succeeds_sep)
  then show ?thesis by (simp add: succeeds_def to_string_hash_def)
qed

lemma succeeds_mustache:
  "(\<And>x. x \<in> set_handlebars_ast_node_mustache m \<Longrightarrow> succeeds (pr x)) \<Longrightarrow> succeeds (to_string_mustache pr s m)"
  unfolding to_string_mustache_def strip_left_def strip_right_def
  by (intro succeeds_rules succeeds_pph) (auto simp: struct_nodes)

lemma succeeds_partial:
  assumes "part_name p \<noteq> None" "\<And>x. x \<in> set_handlebars_ast_node_partial p \<Longrightarrow> succeeds (pr x)"
  shows "succeeds (to_string_partial pr s p)"
proof -
  obtain name where name: "part_name p = Some name" using assms(1) by blast
  have "succeeds (case part_args p of Some (x # _) \<Rightarrow> seqs [out '' '', pr x] | _ \<Rightarrow> Inr)"
    using assms(2) by (auto simp: struct_nodes intro!: succeeds_rules split: option.split list.split)
  moreover have "succeeds (case part_hash p of None \<Rightarrow> Inr | Some h \<Rightarrow> seqs [out '' '', pr h])" "succeeds (pr name)"
    using assms(2) name by (auto simp: struct_nodes intro!: succeeds_rules)
  ultimately show ?thesis
    unfolding to_string_partial_def name option.case strip_left_def strip_right_def
    by (intro succeeds_seqs succeeds_cases(1) succeeds_out succeeds_context)
qed

lemma succeeds_partial_block:
  "(\<And>x. x \<in> set_handlebars_ast_node_block b \<Longrightarrow> succeeds (pr x)) \<Longrightarrow> succeeds (to_string_partial_block pr b)"
  unfolding to_string_partial_block_def
  by (intro succeeds_rules succeeds_list) (auto simp: block_nodes)

lemma succeeds_internals:
  assumes "print_shape body" "\<And>x. x \<in> visited body \<Longrightarrow> succeeds (pr x)"
    and "\<And>n p. n \<in> visited body \<Longrightarrow> nbody n = NODE_PATH p \<Longrightarrow> succeeds (to_string_path p)"
  shows "succeeds (to_string_internals pr s body)"
proof (cases body)
  case (NODE_BLOCK b)
  have "succeeds (to_string_block pr False b)"
    by (rule succeeds_block) (use assms in \<open>auto simp: NODE_BLOCK print_shape_def visited_def subnodes_def block_nodes\<close>)
  then show ?thesis by (simp add: NODE_BLOCK to_string_internals_def)
next
  case (NODE_RAW_BLOCK b)
  have "succeeds (to_string_block pr True b)"
    by (rule succeeds_block) (use assms in \<open>auto simp: NODE_RAW_BLOCK print_shape_def visited_def subnodes_def block_nodes\<close>)
  then show ?thesis by (simp add: NODE_RAW_BLOCK to_string_internals_def)
next
  case (NODE_HASH pairs)
  then show ?thesis
    using assms by (cases pairs) (auto simp: print_shape_def visited_def to_string_internals_def intro!: succeeds_hash)
next
  case (NODE_PROGRAM p)
  then show ?thesis
    using assms(2) by (auto simp: visited_def subnodes_def struct_nodes to_string_internals_def intro!: succeeds_list)
next
  case (NODE_SEXPR x)
  then show ?thesis
    using assms(2) by (auto simp: visited_def subnodes_def struct_nodes to_string_internals_def intro!: succeeds_pph)
next
  case (NODE_PARTIAL p)
  then show ?thesis
    using assms(1,2) by (auto simp: print_shape_def visited_def subnodes_def to_string_internals_def intro!: succeeds_partial)
next
  case (NODE_COMMENT v is_long)
  have "succeeds (to_string_comment s v is_long)"
    unfolding to_string_comment_def strip_left_def strip_right_def by (intro succeeds_rules)
  then show ?thesis by (simp add: NODE_COMMENT to_string_internals_def)
qed (use assms(1,2) in \<open>auto simp: print_shape_def visited_def subnodes_def to_string_internals_def succeeds_out succeeds_out_str
    intro!: succeeds_content succeeds_string succeeds_mustache succeeds_partial_block succeeds_path\<close>)

lemma printable_succeeds: "printable n \<Longrightarrow> succeeds (ast_to_string_node n)"
proof (induction n rule: printable.induct)
  case (1 s l body)
  have path: "succeeds (to_string_path p)" if "x \<in> visited body" "nbody x = NODE_PATH p" for x p
  proof -
    have "printable x" using 1(2) that(1) by simp
    then have "print_shape (nbody x)" by (cases x) simp
    then show ?thesis using that(2) by (intro succeeds_path) (simp add: print_shape_def)
  qed
  have "succeeds (to_string_internals ast_to_string_node s body)"
    by (rule succeeds_internals) (use 1 path in auto)
  then show ?case by (simp add: succeeds_def)
qed

section \<open>Properties\<close>

text \<open>C34. Turning a tree back into a template never throws. It succeeds on every tree of the shape that the printer
  reads; on another one it may stop at a missing part (a NULL pointer) or at a node in a wrong place (an assertion).
  The output only grows and the nesting level is restored.\<close>
theorem ast_to_string_contract:
  "case ast_to_string_node n c of
     Inl e \<Rightarrow> \<not> printable n \<and> (e = Mem_error \<or> e = Assert_fail)
   | Inr d \<Rightarrow> padding d = padding c \<and> (\<exists>t. sval (pout d) = sval (pout c) @ t)"
  using same_padding.runs_to_string [of n] printable_succeeds [of n]
  by (force simp: runs_def malformed_def succeeds_def split: sum.splits)

text \<open>The debugging form only appends to the output as well, and it never indents deeper than before: a program
  lowers the padding for good, so that what follows a block is printed further to the left.\<close>
theorem ast_print_contract:
  "case ast_print_node n c of
     Inl e \<Rightarrow> e = Mem_error \<or> e = Assert_fail
   | Inr d \<Rightarrow> padding d \<le> padding c \<and> (\<exists>t. sval (pout d) = sval (pout c) @ t)"
  using lower_padding.runs_ast_print [of n] by (auto simp: runs_def malformed_def split: sum.splits)

end
