(* ===== verification/Builtins.thy ===== *)
theory Builtins
  imports Prelude
begin

text \<open>
  The built-in helpers and the perfect hash that finds them by name (the tables of src/handlebars_helpers.c and
  the function gperf generated into src/handlebars_helpers_ht.h). A helper function is represented by its index
  in the array \<open>builtins\<close>.
\<close>

section \<open>The tables\<close>

definition handlebars_builtins_names :: "string list" where
  "handlebars_builtins_names =
     [''blockHelperMissing'', ''helperMissing'', ''each'', ''if'', ''unless'', ''with'', ''log'', ''lookup'',
      ''hbsc_set_delimiters'']"

definition asso_values :: "nat list" where
  "asso_values =
     replicate 90 20 @
     [20, 20, 20, 20, 20, 20, 20, 20,  0, 20,
      20,  5, 20, 20,  0,  0, 20, 20,  0, 20,
      20, 20, 20, 20, 20, 20, 20,  5, 20,  0] @
     replicate 136 20"

definition lengthtable :: "nat list" where
  "lengthtable = [0, 0, 2, 3, 4, 0, 6, 0, 0, 4, 0, 6, 0, 13, 0, 0, 0, 0, 18, 19]"

definition wordlist :: "(string \<times> nat) list" where
  "wordlist =
     [([], 0), ([], 0), (''if'', 3), (''log'', 6), (''with'', 5), ([], 0), (''lookup'', 7), ([], 0), ([], 0),
      (''each'', 2), ([], 0), (''unless'', 4), ([], 0), (''helperMissing'', 1), ([], 0), ([], 0), ([], 0), ([], 0),
      (''blockHelperMissing'', 0), (''hbsc_set_delimiters'', 8)]"

section \<open>The lookup\<close>

definition hbs_builtin_lut_hash :: "string \<Rightarrow> nat" where
  "hbs_builtin_lut_hash str = length str + asso_values ! of_char (hd str)"

definition hbs_builtin_lut_lookup :: "string \<Rightarrow> (string \<times> nat) option" where
  "hbs_builtin_lut_lookup str =
     (if length str \<le> 19 \<and> length str \<ge> 2 then
        (let key = hbs_builtin_lut_hash str
         in if key \<le> 19 then
              (if length str = lengthtable ! key then
                 (let s = fst (wordlist ! key)
                  in if hd str = hd s \<and> take (length str - 1) (tl str) = take (length str - 1) (tl s)
                     then Some (wordlist ! key) else None)
               else None)
            else None)
      else None)"

definition handlebars_builtins_find :: "string \<Rightarrow> nat option" where
  "handlebars_builtins_find str = map_option snd (hbs_builtin_lut_lookup str)"

section \<open>Properties\<close>

lemma wordlist_entry:
  assumes "k < 20" "length (fst (wordlist ! k)) = lengthtable ! k" "2 \<le> lengthtable ! k"
  shows "snd (wordlist ! k) < 9 \<and> handlebars_builtins_names ! snd (wordlist ! k) = fst (wordlist ! k)"
proof -
  have "\<forall>k \<in> set [0..<20]. 2 \<le> lengthtable ! k \<longrightarrow>
      snd (wordlist ! k) < 9 \<and> handlebars_builtins_names ! snd (wordlist ! k) = fst (wordlist ! k)"
    by code_simp
  then show ?thesis using assms by simp
qed

lemma wordlist_length: "k < 20 \<Longrightarrow> length (fst (wordlist ! k)) = lengthtable ! k"
proof -
  have "\<forall>k \<in> set [0..<20]. length (fst (wordlist ! k)) = lengthtable ! k" by code_simp
  then show "k < 20 \<Longrightarrow> length (fst (wordlist ! k)) = lengthtable ! k" by simp
qed

lemma lookup_word:
  assumes "hbs_builtin_lut_lookup str = Some w"
  shows "fst w = str \<and> snd w < 9 \<and> handlebars_builtins_names ! snd w = str"
proof -
  let ?k = "hbs_builtin_lut_hash str"
  have k: "?k < 20" "length str = lengthtable ! ?k" "2 \<le> length str" "w = wordlist ! ?k"
      "hd str = hd (fst w)" "take (length str - 1) (tl str) = take (length str - 1) (tl (fst w))"
    using assms by (auto simp: hbs_builtin_lut_lookup_def Let_def split: if_splits)
  have len: "length (fst w) = length str" using wordlist_length [OF k(1)] k(2,4) by simp
  then have "tl (fst w) = tl str" using k(6) by simp
  moreover have "fst w \<noteq> []" "str \<noteq> []" using len k(3) by auto
  ultimately have "fst w = str" using k(5) by (metis list.collapse)
  then show ?thesis using wordlist_entry [OF k(1)] len k by simp
qed

lemma lookup_names: "\<forall>i \<in> set [0..<9]. handlebars_builtins_find (handlebars_builtins_names ! i) = Some i"
  by code_simp

text \<open>C35. The perfect hash finds exactly the built-in helpers: for every string the lookup is the linear search in
  the array of names, and it reads inside its tables.\<close>
theorem builtins_find_correct:
  "handlebars_builtins_find str =
     (if str \<in> set handlebars_builtins_names
      then Some (length (takeWhile (\<lambda>n. n \<noteq> str) handlebars_builtins_names)) else None) \<and>
   length asso_values = 256 \<and> length lengthtable = 20 \<and> length wordlist = 20"
proof (intro conjI)
  have len: "length handlebars_builtins_names = 9" by (simp add: handlebars_builtins_names_def)
  show "handlebars_builtins_find str =
     (if str \<in> set handlebars_builtins_names
      then Some (length (takeWhile (\<lambda>n. n \<noteq> str) handlebars_builtins_names)) else None)"
  proof (cases "str \<in> set handlebars_builtins_names")
    case True
    let ?i = "length (takeWhile (\<lambda>n. n \<noteq> str) handlebars_builtins_names)"
    have i: "?i < 9" using length_takeWhile_stop [OF True, of "\<lambda>n. n \<noteq> str"] len by simp
    then have "handlebars_builtins_names ! ?i = str"
      using nth_length_takeWhile [of "\<lambda>n. n \<noteq> str" handlebars_builtins_names] len by simp
    moreover have "handlebars_builtins_find (handlebars_builtins_names ! ?i) = Some ?i"
      using lookup_names i by (metis atLeastLessThan_iff atLeastLessThan_upt le0)
    ultimately show ?thesis using True by simp
  next
    case False
    have "hbs_builtin_lut_lookup str = None"
    proof (rule ccontr)
      assume "hbs_builtin_lut_lookup str \<noteq> None"
      then obtain w where "hbs_builtin_lut_lookup str = Some w" by blast
      from lookup_word [OF this] show False using False len by (metis nth_mem)
    qed
    then show ?thesis using False by (simp add: handlebars_builtins_find_def)
  qed
qed (simp_all add: asso_values_def lengthtable_def wordlist_def)

end
