(* ===== verification/Compiler.thy ===== *)
theory Compiler
  imports AstPrinter Builtins CNumbers
begin

text \<open>
  The compiler (src/handlebars_compiler.c): it walks the syntax tree and appends opcodes to the program it
  builds. The handlers take \<open>acc\<close>, the recursive \<open>handlebars_compiler_accept\<close>, as an argument; \<open>accept\<close> ties the
  knot with fuel for the depth of the source node stack, which the code bounds.

  The block parameter stack and the source node stack are shared by a compiler and its subcompilers through
  pointers. The model threads their contents (top first) and a NULL pointer is \<open>None\<close>. Of a source node only
  its location is used. Guids are \<open>long\<close>s that start from 0 and are counted up once per child, so they
  stay far from overflow; they are numbers here.

  The compiler also writes into the tree: a literal in call position becomes a path, a partial without
  arguments gets an empty path. Only \<open>handlebars_ast_to_string\<close> looks at a part of the tree that has been
  compiled, for lambdas; \<open>after_compile\<close> is that part as it is then.
\<close>

section \<open>The compiler's state\<close>

definition HANDLEBARS_COMPILER_STACK_SIZE :: nat where
  "HANDLEBARS_COMPILER_STACK_SIZE = 64"

definition flag_use_depths :: u64 where "flag_use_depths = 1"
definition flag_string_params :: u64 where "flag_string_params = 2"
definition flag_track_ids :: u64 where "flag_track_ids = 4"
definition flag_no_escape :: u64 where "flag_no_escape = 8"
definition flag_known_helpers_only :: u64 where "flag_known_helpers_only = 16"
definition flag_prevent_indent :: u64 where "flag_prevent_indent = 32"
definition flag_explicit_partial_context :: u64 where "flag_explicit_partial_context = 128"
definition flag_alternate_decorators :: u64 where "flag_alternate_decorators = 512"
definition flag_mustache_style_lambdas :: u64 where "flag_mustache_style_lambdas = 4096"
definition flag_all :: u64 where "flag_all = 8191"

definition result_flag_use_depths :: u32 where "result_flag_use_depths = 1"
definition result_flag_use_partial :: u32 where "result_flag_use_partial = 2"
definition result_flag_is_simple :: u32 where "result_flag_is_simple = 4"
definition result_flag_use_decorators :: u32 where "result_flag_use_decorators = 8"

type_synonym block_param_pair = "hstr option \<times> hstr option"

record handlebars_compiler =
  cresult :: u32
  cblock_params :: nat
  copcodes :: "opcode list"
  cchildren :: "handlebars_program list"
  cdecorators :: "handlebars_program list"
  cprogflags :: u64
  bps :: "block_param_pair list option"
  sns :: "handlebars_locinfo list option"
  known_helpers :: "string list"
  cguid :: nat
  cflags :: u64

type_synonym compiler = handlebars_compiler
type_synonym cstep = "compiler \<Rightarrow> hbs_error + compiler"

definition handlebars_compiler_ctor :: compiler where
  "handlebars_compiler_ctor = \<lparr>cresult = 0, cblock_params = 0, copcodes = [], cchildren = [], cdecorators = [],
     cprogflags = 0, bps = None, sns = None, known_helpers = handlebars_builtins_names, cguid = 0, cflags = 0\<rparr>"

definition handlebars_compiler_get_flags :: "compiler \<Rightarrow> u64" where
  "handlebars_compiler_get_flags c = cflags c"

definition handlebars_compiler_set_flags :: "compiler \<Rightarrow> u64 \<Rightarrow> compiler" where
  "handlebars_compiler_set_flags c fl =
     c\<lparr>cflags := (cflags c AND NOT flag_all) OR (fl AND flag_all)\<rparr>"

definition handlebars_compiler_get_known_helpers :: "compiler \<Rightarrow> string list" where
  "handlebars_compiler_get_known_helpers c = known_helpers c"

definition handlebars_compiler_set_known_helpers :: "compiler \<Rightarrow> string list \<Rightarrow> compiler" where
  "handlebars_compiler_set_known_helpers c names = c\<lparr>known_helpers := names\<rparr>"

text \<open>The compiler never sets the program's \<open>guid\<close>.\<close>

definition handlebars_compiler_get_program :: "compiler \<Rightarrow> handlebars_program" where
  "handlebars_compiler_get_program c =
     handlebars_program 0 (cprogflags c) (cresult c) (cblock_params c) (copcodes c) (cchildren c) (cdecorators c)"

definition add_result :: "u32 \<Rightarrow> compiler \<Rightarrow> compiler" where
  "add_result flag c = c\<lparr>cresult := cresult c OR flag\<rparr>"

definition flag_on :: "compiler \<Rightarrow> u64 \<Rightarrow> bool" where
  "flag_on c flag \<longleftrightarrow> cflags c AND flag \<noteq> 0"

section \<open>Emitting opcodes\<close>

definition handlebars_compiler_opcode :: "compiler \<Rightarrow> opcode \<Rightarrow> compiler" where
  "handlebars_compiler_opcode c opc =
     c\<lparr>copcodes := copcodes c @
        [case sns c of Some (loc # _) \<Rightarrow> handlebars_opcode_set_loc opc loc | _ \<Rightarrow> opc]\<rparr>"

definition OPN :: "handlebars_opcode_type \<Rightarrow> compiler \<Rightarrow> compiler" where
  "OPN t c = handlebars_compiler_opcode c (handlebars_opcode_ctor t)"

definition OPB :: "handlebars_opcode_type \<Rightarrow> bool \<Rightarrow> compiler \<Rightarrow> compiler" where
  "OPB t b c = handlebars_compiler_opcode c ((handlebars_opcode_ctor t)\<lparr>op1 := handlebars_operand_set_boolval b\<rparr>)"

definition OPL :: "handlebars_opcode_type \<Rightarrow> u64 \<Rightarrow> compiler \<Rightarrow> compiler" where
  "OPL t n c = handlebars_compiler_opcode c ((handlebars_opcode_ctor t)\<lparr>op1 := handlebars_operand_set_longval n\<rparr>)"

text \<open>The string of \<open>__OPS\<close> may be NULL; copying it is the crash.\<close>

definition OPS :: "handlebars_opcode_type \<Rightarrow> hstr option \<Rightarrow> cstep" where
  "OPS t s c =
     (case s of
        None \<Rightarrow> Inl Mem_error
      | Some h \<Rightarrow> Inr (handlebars_compiler_opcode c
                  ((handlebars_opcode_ctor t)\<lparr>op1 := handlebars_operand_set_stringval h\<rparr>)))"

definition push_program_pair :: "int \<Rightarrow> int \<Rightarrow> compiler \<Rightarrow> compiler" where
  "push_program_pair program_guid inverse_guid c =
     (let op = handlebars_opcode_type_push_program;
          c1 = (if program_guid = - 1 then OPN op c else OPL op (word_of_int program_guid) c)
      in if inverse_guid = - 1 then OPN op c1 else OPL op (word_of_int inverse_guid) c1)"

section \<open>Names\<close>

definition node_part :: "node \<Rightarrow> hstr option" where
  "node_part n = (case nbody n of NODE_PATH_SEGMENT part _ _ \<Rightarrow> part | _ \<Rightarrow> None)"

text \<open>\<open>None\<close> is a NULL array; other nodes than segments are skipped.\<close>

definition handlebars_ast_node_get_id_parts :: "node \<Rightarrow> hbs_error + hstr list option" where
  "handlebars_ast_node_get_id_parts n =
     (case nbody n of
        NODE_PATH p \<Rightarrow>
          (case path_parts p of
             None \<Rightarrow> Inr None
           | Some [] \<Rightarrow> Inr None
           | Some parts \<Rightarrow>
               ebind (efold (\<lambda>x arr. case nbody x of
                        NODE_PATH_SEGMENT part _ _ \<Rightarrow>
                          (case part of None \<Rightarrow> Inl Mem_error | Some s \<Rightarrow> Inr (arr @ [handlebars_string_copy_ctor s]))
                      | _ \<Rightarrow> Inr arr) parts [])
                 (\<lambda>arr. Inr (Some arr)))
      | _ \<Rightarrow> Inr None)"

text \<open>\<open>MC\<close> on the result: a NULL array is taken for a failed allocation.\<close>

definition id_parts :: "node \<Rightarrow> hbs_error + hstr list" where
  "id_parts n =
     ebind (handlebars_ast_node_get_id_parts n) (\<lambda>arr.
       case arr of None \<Rightarrow> Inl (Throw HANDLEBARS_NOMEM ''Out of memory'') | Some xs \<Rightarrow> Inr xs)"

definition handlebars_compiler_add_depth :: "int \<Rightarrow> compiler \<Rightarrow> compiler" where
  "handlebars_compiler_add_depth depth c = (if depth > 0 then add_result result_flag_use_depths c else c)"

definition handlebars_compiler_is_known_helper :: "compiler \<Rightarrow> node \<Rightarrow> bool" where
  "handlebars_compiler_is_known_helper c path =
     (case nbody path of
        NODE_PATH p \<Rightarrow>
          (case path_parts p of
             Some (seg # _) \<Rightarrow>
               (case node_part seg of
                  None \<Rightarrow> False
                | Some helper_name \<Rightarrow>
                    handlebars_builtins_find (sval helper_name) \<noteq> None \<or>
                    list_ex (hbs_str_eq_strl helper_name) (known_helpers c))
           | _ \<Rightarrow> False)
      | _ \<Rightarrow> False)"

text \<open>The innermost block parameter of that name: the depth of its block and whether it is the first or second.\<close>

fun find_block_param :: "(string \<Rightarrow> u32) \<Rightarrow> hstr \<Rightarrow> block_param_pair list \<Rightarrow> nat \<Rightarrow> (nat \<times> nat) option" where
  "find_block_param H name [] i = None"
| "find_block_param H name ((p1, p2) # rest) i =
     (if (case p1 of None \<Rightarrow> False | Some a \<Rightarrow> handlebars_string_eq H a name) then Some (i, 0)
      else if (case p2 of None \<Rightarrow> False | Some b \<Rightarrow> handlebars_string_eq H b name) then Some (i, 1)
      else find_block_param H name rest (i + 1))"

definition handlebars_compiler_block_param_index ::
    "(string \<Rightarrow> u32) \<Rightarrow> compiler \<Rightarrow> hstr option \<Rightarrow> hbs_error + (nat \<times> nat) option" where
  "handlebars_compiler_block_param_index H c name =
     (case bps c of
        None \<Rightarrow> Inl Mem_error
      | Some stack \<Rightarrow>
          (case name of None \<Rightarrow> Inr None | Some n \<Rightarrow> Inr (find_block_param H n stack 0)))"

section \<open>Classifying a call\<close>

datatype handlebars_compiler_sexpr_type = SEXPR_AMBIG | SEXPR_HELPER | SEXPR_SIMPLE

definition handlebars_compiler_classify_sexpr ::
    "(string \<Rightarrow> u32) \<Rightarrow> compiler \<Rightarrow> node \<Rightarrow> hbs_error + handlebars_compiler_sexpr_type" where
  "handlebars_compiler_classify_sexpr H c sexpr =
     (case handlebars_ast_node_get_path sexpr of
        None \<Rightarrow> Inl Assert_fail
      | Some path \<Rightarrow>
          (case nbody path of
             NODE_PATH p \<Rightarrow>
               if path_parts p = None then Inl Assert_fail
               else
                 ebind (handlebars_ast_node_get_id_part path) (\<lambda>part.
                   let is_simple = handlebars_ast_helper_simple_id p in
                   ebind (if is_simple \<and> part \<noteq> None
                          then ebind (handlebars_compiler_block_param_index H c part) (\<lambda>r. Inr (r \<noteq> None))
                          else Inr False) (\<lambda>is_block_param.
                     let is_helper0 = (\<not> is_block_param \<and> handlebars_ast_helper_helper_expression sexpr);
                         is_eligible0 = (\<not> is_block_param \<and> (is_simple \<or> is_helper0));
                         known = (is_eligible0 \<and> \<not> is_helper0 \<and> handlebars_compiler_is_known_helper c path);
                         is_helper = (is_helper0 \<or> known);
                         is_eligible = (is_eligible0 \<and>
                           (is_helper0 \<or> known \<or> \<not> flag_on c flag_known_helpers_only))
                     in Inr (if is_helper then SEXPR_HELPER else if is_eligible then SEXPR_AMBIG else SEXPR_SIMPLE)))
           | _ \<Rightarrow> Inl Assert_fail))"

section \<open>Parameters\<close>

definition opcode_with :: "handlebars_opcode_type \<Rightarrow> operand \<Rightarrow> operand \<Rightarrow> operand \<Rightarrow> operand \<Rightarrow> opcode" where
  "opcode_with t a b d e = (handlebars_opcode_ctor t)\<lparr>op1 := a, op2 := b, op3 := d, op4 := e\<rparr>"

abbreviation str_operand :: "string \<Rightarrow> operand" where
  "str_operand s \<equiv> handlebars_operand_set_stringval (handlebars_string_ctor s)"

text \<open>In the bytes before the terminator every slash becomes a dot.\<close>

definition slashes_to_dots :: "hstr \<Rightarrow> hstr" where
  "slashes_to_dots s =
     s\<lparr>sval := map (\<lambda>c. if c = CHR ''/'' then CHR ''.'' else c) (takeWhile (\<lambda>c. c \<noteq> NUL) (sval s)) @
                 dropWhile (\<lambda>c. c \<noteq> NUL) (sval s)\<rparr>"

definition push_string_param :: "(node \<Rightarrow> cstep) \<Rightarrow> node \<Rightarrow> cstep" where
  "push_string_param acc param c =
     (let depth = (case nbody param of NODE_PATH p \<Rightarrow> sint (path_depth p) | _ \<Rightarrow> 0);
          c1 = (if depth \<noteq> 0 then handlebars_compiler_add_depth depth c else c);
          c2 = OPL handlebars_opcode_type_get_context (word_of_int depth) c1;
          str = handlebars_ast_node_get_string_mode_value param;
          type_name = str_operand (handlebars_ast_node_readable_type (ast_type param))
      in ebind (if ast_type param = HANDLEBARS_AST_NODE_BOOLEAN
                then Inr (handlebars_operand_set_boolval
                       (case str of None \<Rightarrow> False | Some s \<Rightarrow> hbs_str_eq_strl s ''true''))
                else (case str of
                        None \<Rightarrow> Inl Mem_error
                      | Some s \<Rightarrow> Inr (handlebars_operand_set_stringval
                          (slashes_to_dots (handlebars_string_ltrim (handlebars_string_copy_ctor s) ''./''))))) (\<lambda>v.
         let c3 = handlebars_compiler_opcode c2
               (opcode_with handlebars_opcode_type_push_string_param v type_name (operand_null False) (operand_null False))
         in if ast_type param = HANDLEBARS_AST_NODE_SEXPR then acc param c3 else Inr c3))"

text \<open>The text of an identifier for \<open>pushId\<close>: without a leading \<open>this\<close>, \<open>.\<close> or \<open>./\<close>.\<close>

definition id_text :: "string \<Rightarrow> string" where
  "id_text s =
     (let t = (if take 4 s = ''this''
               then (let r = drop 4 s in if r \<noteq> [] \<and> (hd r = CHR ''.'' \<or> hd r = CHR ''$'') then tl r else r)
               else s)
      in if t = ''.'' then [] else if take 2 t = ''./'' then drop 2 t else t)"

definition block_param_operand :: "nat \<times> nat \<Rightarrow> operand" where
  "block_param_operand r = handlebars_operand_set_arrayval [show_nat (fst r), show_nat (snd r)]"

definition push_id :: "(string \<Rightarrow> u32) \<Rightarrow> node \<Rightarrow> cstep" where
  "push_id H param c =
     ebind (case nbody param of
              NODE_PATH p \<Rightarrow>
                ebind (handlebars_ast_node_get_id_part param) (\<lambda>part.
                  if part \<noteq> None \<and> \<not> handlebars_ast_helper_scoped_id p \<and> path_depth p = 0
                  then handlebars_compiler_block_param_index H c part else Inr None)
            | _ \<Rightarrow> Inr None) (\<lambda>block_param.
     case block_param of
       Some r \<Rightarrow>
         ebind (id_parts param) (\<lambda>parts.
         ebind (if parts \<noteq> [] then handlebars_string_implode ''.'' (tl parts) else Inr (handlebars_string_init 0)) (\<lambda>rest.
           Inr (handlebars_compiler_opcode c
             (opcode_with handlebars_opcode_type_push_id (str_operand ''BlockParam'') (block_param_operand r)
                (handlebars_operand_set_stringval rest) (operand_null False)))))
     | None \<Rightarrow>
         (case handlebars_ast_node_get_string_mode_value param of
            None \<Rightarrow> Inl Mem_error
          | Some str \<Rightarrow>
              let strval = id_text (c_string str);
                  type_name = str_operand (handlebars_ast_node_readable_type (ast_type param))
              in ebind (if ast_type param = HANDLEBARS_AST_NODE_BOOLEAN
                        then Inr (handlebars_operand_set_boolval (strval = ''true''))
                        else if ast_type param = HANDLEBARS_AST_NODE_NUMBER
                        then (case sscanf_10ld strval of
                                None \<Rightarrow> Inl Mem_error
                              | Some lval \<Rightarrow> Inr (handlebars_operand_set_longval (word_of_int lval)))
                        else Inr (str_operand strval)) (\<lambda>v.
                 Inr (handlebars_compiler_opcode c
                   (opcode_with handlebars_opcode_type_push_id type_name v (operand_null False) (operand_null False))))))"

definition handlebars_compiler_push_param :: "(string \<Rightarrow> u32) \<Rightarrow> (node \<Rightarrow> cstep) \<Rightarrow> node \<Rightarrow> cstep" where
  "handlebars_compiler_push_param H acc param c =
     (if flag_on c flag_string_params then push_string_param acc param c
      else ebind (if flag_on c flag_track_ids then push_id H param c else Inr c) (acc param))"

definition handlebars_compiler_push_params ::
    "(string \<Rightarrow> u32) \<Rightarrow> (node \<Rightarrow> cstep) \<Rightarrow> node list option \<Rightarrow> cstep" where
  "handlebars_compiler_push_params H acc params c =
     (case params of None \<Rightarrow> Inr c | Some ps \<Rightarrow> efold (handlebars_compiler_push_param H acc) ps c)"

definition ast_list_count :: "node list option \<Rightarrow> nat" where
  "ast_list_count l = (case l of None \<Rightarrow> 0 | Some xs \<Rightarrow> length xs)"

text \<open>The parameters it returns are \<open>handlebars_ast_node_get_params sexpr\<close>.\<close>

definition handlebars_compiler_setup_full_mustache_params ::
    "(string \<Rightarrow> u32) \<Rightarrow> (node \<Rightarrow> cstep) \<Rightarrow> node \<Rightarrow> int \<Rightarrow> int \<Rightarrow> bool \<Rightarrow> cstep" where
  "handlebars_compiler_setup_full_mustache_params H acc sexpr program_guid inverse_guid omit_empty c =
     ebind (handlebars_compiler_push_params H acc (handlebars_ast_node_get_params sexpr) c) (\<lambda>c1.
       let c2 = push_program_pair program_guid inverse_guid c1
       in case handlebars_ast_node_get_hash sexpr of
            Some hash \<Rightarrow> acc hash c2
          | None \<Rightarrow> Inr (if omit_empty then OPB handlebars_opcode_type_empty_hash omit_empty c2
                        else OPN handlebars_opcode_type_empty_hash c2))"

section \<open>Literals in call position\<close>

definition set_path :: "node option \<Rightarrow> node \<Rightarrow> node" where
  "set_path p n = ast_node (nstrip n) (nloc n)
     (case nbody n of
        NODE_BLOCK b \<Rightarrow> NODE_BLOCK (ast_block p (block_args b) (block_hash b) (block_program b) (block_inverse b)
          (open_strip b) (inverse_strip b) (close_strip b) (block_is_decorator b))
      | NODE_RAW_BLOCK b \<Rightarrow> NODE_RAW_BLOCK (ast_block p (block_args b) (block_hash b) (block_program b) (block_inverse b)
          (open_strip b) (inverse_strip b) (close_strip b) (block_is_decorator b))
      | NODE_MUSTACHE m \<Rightarrow> NODE_MUSTACHE (ast_mustache p (must_args m) (must_hash m) (unescaped m) (must_is_decorator m))
      | NODE_SEXPR s \<Rightarrow> NODE_SEXPR (ast_sexpr p (sexpr_args s) (sexpr_hash s))
      | body \<Rightarrow> body)"

definition is_literal_type :: "handlebars_ast_node_type \<Rightarrow> bool" where
  "is_literal_type t \<longleftrightarrow> t \<in> {HANDLEBARS_AST_NODE_UNDEFINED, HANDLEBARS_AST_NODE_NUL, HANDLEBARS_AST_NODE_BOOLEAN,
     HANDLEBARS_AST_NODE_NUMBER, HANDLEBARS_AST_NODE_STRING}"

definition literal_path :: "hstr \<Rightarrow> node" where
  "literal_path v = ast_node 0 no_loc (NODE_PATH (ast_path (Some (handlebars_string_copy_ctor v))
     (Some [ast_node 0 no_loc (NODE_PATH_SEGMENT (Some (handlebars_string_copy_ctor v)) None None)]) 0 False False False))"

definition handlebars_compiler_transform_literal_to_path :: "node \<Rightarrow> hbs_error + node" where
  "handlebars_compiler_transform_literal_to_path n =
     (case handlebars_ast_node_get_path n of
        None \<Rightarrow> Inl Mem_error
      | Some path \<Rightarrow>
          if is_literal_type (ast_type path)
          then (case handlebars_ast_node_get_string_mode_value path of
                  None \<Rightarrow> Inl Mem_error
                | Some v \<Rightarrow> Inr (set_path (Some (literal_path v)) n))
          else Inr n)"

section \<open>Simple nodes\<close>

abbreviation push_literal :: "operand \<Rightarrow> compiler \<Rightarrow> compiler" where
  "push_literal v c \<equiv> handlebars_compiler_opcode c ((handlebars_opcode_ctor handlebars_opcode_type_push_literal)\<lparr>op1 := v\<rparr>)"

definition handlebars_compiler_accept_content :: "handlebars_ast_node_literal \<Rightarrow> cstep" where
  "handlebars_compiler_accept_content l c =
     (case lit_value l of
        None \<Rightarrow> Inr c
      | Some v \<Rightarrow> if hbs_str_len v > 0 then OPS handlebars_opcode_type_append_content (Some v) c else Inr c)"

definition handlebars_compiler_accept_string :: "handlebars_ast_node_literal \<Rightarrow> cstep" where
  "handlebars_compiler_accept_string l c = OPS handlebars_opcode_type_push_string (lit_value l) c"

definition handlebars_compiler_accept_number :: "handlebars_ast_node_literal \<Rightarrow> cstep" where
  "handlebars_compiler_accept_number l c =
     (case lit_value l of
        None \<Rightarrow> Inl Mem_error
      | Some v \<Rightarrow>
          if hbs_str_eq_strl v ''0'' then Inr (OPL handlebars_opcode_type_push_literal 0 c)
          else if number_is_long (c_string v)
          then Inr (OPL handlebars_opcode_type_push_literal (word_of_int (strtol10 (c_string v))) c)
          else OPS handlebars_opcode_type_push_literal (Some v) c)"

definition handlebars_compiler_accept_boolean :: "handlebars_ast_node_literal \<Rightarrow> cstep" where
  "handlebars_compiler_accept_boolean l c =
     (case lit_value l of
        None \<Rightarrow> Inl Mem_error
      | Some v \<Rightarrow> Inr (push_literal (handlebars_operand_set_boolval (\<not> hbs_str_eq_strl v ''false'')) c))"

definition handlebars_compiler_accept_nul :: cstep where
  "handlebars_compiler_accept_nul c = Inr (push_literal (str_operand ''null'') c)"

definition handlebars_compiler_accept_undefined :: cstep where
  "handlebars_compiler_accept_undefined c = Inr (push_literal (str_operand ''undefined'') c)"

section \<open>Paths\<close>

definition if_true :: "bool \<Rightarrow> operand" where
  "if_true b = (if b then handlebars_operand_set_boolval True else operand_null False)"

definition handlebars_compiler_accept_path :: "(string \<Rightarrow> u32) \<Rightarrow> node \<Rightarrow> node handlebars_ast_node_path \<Rightarrow> cstep" where
  "handlebars_compiler_accept_path H path p c =
     (let c1 = handlebars_compiler_add_depth (sint (path_depth p)) c;
          c2 = OPL handlebars_opcode_type_get_context (ucast (path_depth p)) c1
      in ebind (handlebars_ast_node_get_id_part path) (\<lambda>name.
         let is_scoped = handlebars_ast_helper_scoped_id p in
         ebind (if path_depth p = 0 \<and> \<not> is_scoped then handlebars_compiler_block_param_index H c2 name
                else Inr None) (\<lambda>block_param.
           case block_param of
             Some r \<Rightarrow>
               ebind (id_parts path) (\<lambda>parts.
                 Inr (handlebars_compiler_opcode c2 (opcode_with handlebars_opcode_type_lookup_block_param
                   (block_param_operand r) (handlebars_operand_set_arrayval_string parts) (operand_null False)
                   (operand_null False))))
           | None \<Rightarrow>
               if name = None then Inr (OPN handlebars_opcode_type_push_context c2)
               else if path_data p then
                 ebind (id_parts path) (\<lambda>parts.
                   Inr (handlebars_compiler_opcode c2 (opcode_with handlebars_opcode_type_lookup_data
                     (handlebars_operand_set_longval (ucast (path_depth p)))
                     (handlebars_operand_set_arrayval_string parts) (if_true (path_strict p)) (operand_null False))))
               else
                 ebind (id_parts path) (\<lambda>parts.
                   Inr (handlebars_compiler_opcode c2 (opcode_with handlebars_opcode_type_lookup_on_context
                     (handlebars_operand_set_arrayval_string parts) (if_true (path_falsy p)) (if_true (path_strict p))
                     (handlebars_operand_set_boolval is_scoped)))))))"

section \<open>Calls\<close>

text \<open>Before a call's path is compiled its flags are set in the node.\<close>

definition mark_path :: "bool \<Rightarrow> node \<Rightarrow> node" where
  "mark_path falsy n =
     (case nbody n of
        NODE_PATH p \<Rightarrow> ast_node (nstrip n) (nloc n) (NODE_PATH (ast_path (path_original p) (path_parts p)
          (path_depth p) (path_data p) (falsy \<or> path_falsy p) True))
      | _ \<Rightarrow> n)"

definition handlebars_compiler_accept_sexpr_ambiguous ::
    "(node \<Rightarrow> cstep) \<Rightarrow> node \<Rightarrow> int \<Rightarrow> int \<Rightarrow> node option \<Rightarrow> cstep" where
  "handlebars_compiler_accept_sexpr_ambiguous acc sexpr program_guid inverse_guid program_node c =
     (case handlebars_ast_node_get_path sexpr of
        None \<Rightarrow> Inl Assert_fail
      | Some path \<Rightarrow>
          (case nbody path of
             NODE_PATH p \<Rightarrow>
               ebind (handlebars_ast_node_get_id_part path) (\<lambda>name.
                 let is_block = (program_guid \<ge> 0 \<or> inverse_guid \<ge> 0);
                     c1 = OPL handlebars_opcode_type_get_context (ucast (path_depth p)) c;
                     c2 = push_program_pair program_guid inverse_guid c1
                 in ebind (acc (mark_path False path) c2) (\<lambda>c3.
                    case name of
                      None \<Rightarrow> Inl Mem_error
                    | Some s \<Rightarrow>
                        ebind (if flag_on c3 flag_mustache_style_lambdas
                               then (case program_node of
                                       Some n \<Rightarrow> ebind (handlebars_ast_to_string n) (\<lambda>t. Inr (handlebars_operand_set_stringval t))
                                     | None \<Rightarrow> Inr (str_operand []))
                               else Inr (operand_null False)) (\<lambda>v.
                          Inr (handlebars_compiler_opcode c3 (opcode_with handlebars_opcode_type_invoke_ambiguous
                            (handlebars_operand_set_stringval s) (handlebars_operand_set_boolval is_block) v
                            (operand_null False))))))
           | _ \<Rightarrow> Inl Assert_fail))"

definition handlebars_compiler_accept_sexpr_simple :: "(node \<Rightarrow> cstep) \<Rightarrow> node \<Rightarrow> cstep" where
  "handlebars_compiler_accept_sexpr_simple acc sexpr c =
     ebind (case handlebars_ast_node_get_path sexpr of
              None \<Rightarrow> Inr c
            | Some path \<Rightarrow> acc (mark_path False path) c) (\<lambda>c1.
       Inr (OPN handlebars_opcode_type_resolve_possible_lambda c1))"

definition handlebars_compiler_accept_sexpr_helper ::
    "(string \<Rightarrow> u32) \<Rightarrow> (node \<Rightarrow> cstep) \<Rightarrow> node \<Rightarrow> int \<Rightarrow> int \<Rightarrow> cstep" where
  "handlebars_compiler_accept_sexpr_helper H acc sexpr program_guid inverse_guid c =
     ebind (handlebars_compiler_setup_full_mustache_params H acc sexpr program_guid inverse_guid False c) (\<lambda>c1.
       case handlebars_ast_node_get_path sexpr of
         None \<Rightarrow> Inl Assert_fail
       | Some path \<Rightarrow>
           (case nbody path of
              NODE_PATH p \<Rightarrow>
                ebind (handlebars_ast_node_get_id_part path) (\<lambda>name.
                  let argc = handlebars_operand_set_longval (of_nat (ast_list_count (handlebars_ast_node_get_params sexpr)))
                  in if handlebars_compiler_is_known_helper c1 path then
                       (case name of
                          None \<Rightarrow> Inl Mem_error
                        | Some s \<Rightarrow> Inr (handlebars_compiler_opcode c1 (opcode_with
                            handlebars_opcode_type_invoke_known_helper argc (handlebars_operand_set_stringval s)
                            (operand_null False) (operand_null False))))
                     else if flag_on c1 flag_known_helpers_only then
                       (case name of
                          None \<Rightarrow> Inl Mem_error
                        | Some s \<Rightarrow> Inl (Throw HANDLEBARS_UNKNOWN_HELPER
                            (''You specified knownHelpersOnly, but used the unknown helper '' @ sval s)))
                     else
                       ebind (acc (mark_path True path) c1) (\<lambda>c2.
                         case path_original p of
                           None \<Rightarrow> Inl Mem_error
                         | Some original \<Rightarrow> Inr (handlebars_compiler_opcode c2 (opcode_with
                             handlebars_opcode_type_invoke_helper argc (handlebars_operand_set_stringval original)
                             (handlebars_operand_set_boolval (handlebars_ast_helper_simple_id p))
                             (operand_null False)))))
            | _ \<Rightarrow> Inl Assert_fail))"

definition handlebars_compiler_accept_sexpr :: "(string \<Rightarrow> u32) \<Rightarrow> (node \<Rightarrow> cstep) \<Rightarrow> node \<Rightarrow> cstep" where
  "handlebars_compiler_accept_sexpr H acc n c =
     ebind (handlebars_compiler_transform_literal_to_path n) (\<lambda>sexpr.
     ebind (handlebars_compiler_classify_sexpr H c sexpr) (\<lambda>cls.
       case cls of
         SEXPR_HELPER \<Rightarrow> handlebars_compiler_accept_sexpr_helper H acc sexpr (- 1) (- 1) c
       | SEXPR_SIMPLE \<Rightarrow> handlebars_compiler_accept_sexpr_simple acc sexpr c
       | SEXPR_AMBIG \<Rightarrow> handlebars_compiler_accept_sexpr_ambiguous acc sexpr (- 1) (- 1) None c))"

section \<open>Hashes\<close>

text \<open>The values in order, then the assignments from the last key to the first.\<close>

definition handlebars_compiler_accept_hash :: "(string \<Rightarrow> u32) \<Rightarrow> (node \<Rightarrow> cstep) \<Rightarrow> node list option \<Rightarrow> cstep" where
  "handlebars_compiler_accept_hash H acc pairs c =
     (case pairs of
        None \<Rightarrow> Inl Mem_error
      | Some ps \<Rightarrow>
          ebind (efold (\<lambda>x (keys, d).
                   case nbody x of
                     NODE_HASH_PAIR key v \<Rightarrow>
                       (case v of
                          None \<Rightarrow> Inl Assert_fail
                        | Some n \<Rightarrow> ebind (handlebars_compiler_push_param H acc n d) (\<lambda>d'. Inr (keys @ [key], d')))
                   | _ \<Rightarrow> Inl Assert_fail) ps ([], OPN handlebars_opcode_type_push_hash c)) (\<lambda>(keys, c1).
          ebind (efold (OPS handlebars_opcode_type_assign_to_hash) (rev keys) c1) (\<lambda>c2.
            Inr (OPN handlebars_opcode_type_pop_hash c2))))"

section \<open>Programs\<close>

definition program_statements :: "node handlebars_ast_node_program \<Rightarrow> node list" where
  "program_statements p = (case prog_statements p of None \<Rightarrow> [] | Some xs \<Rightarrow> xs)"

text \<open>After the loop: the block parameters are popped, a program of one statement is simple.\<close>

definition leave_program :: "node handlebars_ast_node_program \<Rightarrow> compiler \<Rightarrow> compiler" where
  "leave_program p c =
     (let c1 = c\<lparr>bps := map_option tl (bps c)\<rparr>;
          c2 = (if length (program_statements p) = 1 then add_result result_flag_is_simple c1 else c1);
          used = (if prog_block_param1 p \<noteq> None then 1 else 0) + (if prog_block_param2 p \<noteq> None then 1 else 0)
      in c2\<lparr>cblock_params := cblock_params c2 + used\<rparr>)"

text \<open>The slot with index 64 is behind the end of the array; the code's test lets it through.\<close>

definition handlebars_compiler_accept_program ::
    "(node \<Rightarrow> cstep) \<Rightarrow> node handlebars_ast_node_program \<Rightarrow> cstep" where
  "handlebars_compiler_accept_program acc p c =
     (case bps c of
        None \<Rightarrow> Inl Mem_error
      | Some stack \<Rightarrow>
          if length stack > HANDLEBARS_COMPILER_STACK_SIZE
          then Inl (Throw HANDLEBARS_STACK_OVERFLOW ''Block param stack blown'')
          else if length stack = HANDLEBARS_COMPILER_STACK_SIZE then Inl Mem_error
          else
            let c1 = c\<lparr>bps := Some ((prog_block_param1 p, prog_block_param2 p) # stack)\<rparr>
            in ebind (efold acc (program_statements p) c1) (\<lambda>c2. Inr (leave_program p c2)))"

text \<open>What \<open>handlebars_compiler_compile\<close> does before it accepts the root; at the end it resets the pointers.\<close>

definition begin_compile :: "compiler \<Rightarrow> compiler" where
  "begin_compile c = c\<lparr>bps := (case bps c of None \<Rightarrow> Some [] | Some b \<Rightarrow> Some b),
     sns := (case sns c of None \<Rightarrow> Some [] | Some b \<Rightarrow> Some b), cprogflags := cflags c\<rparr>"

definition subcompiler_of :: "compiler \<Rightarrow> compiler" where
  "subcompiler_of c =
     (handlebars_compiler_set_flags handlebars_compiler_ctor (handlebars_compiler_get_flags c))
       \<lparr>bps := bps c, sns := sns c, known_helpers := known_helpers c\<rparr>"

text \<open>\<open>d\<close> is the subcompiler at the end of its compilation, with the shared stacks.\<close>

definition append_child :: "compiler \<Rightarrow> compiler \<Rightarrow> compiler" where
  "append_child d c =
     c\<lparr>bps := (if bps c = None then None else bps d), sns := (if sns c = None then None else sns d),
       cguid := cguid c + 1,
       cresult := cresult c OR (cresult d AND NOT result_flag_use_decorators),
       cchildren := cchildren c @ [handlebars_compiler_get_program (d\<lparr>cprogflags := cflags d\<rparr>)]\<rparr>"

definition handlebars_compiler_compile_program ::
    "(node \<Rightarrow> cstep) \<Rightarrow> node option \<Rightarrow> compiler \<Rightarrow> hbs_error + int \<times> compiler" where
  "handlebars_compiler_compile_program acc n c =
     (case n of
        None \<Rightarrow> Inr (- 1, c)
      | Some m \<Rightarrow>
          if ast_type m \<notin> {HANDLEBARS_AST_NODE_PROGRAM, HANDLEBARS_AST_NODE_CONTENT} then Inl Assert_fail
          else ebind (acc m (begin_compile (subcompiler_of c))) (\<lambda>d. Inr (int (cguid c), append_child d c)))"

section \<open>Decorators\<close>

definition register_decorator ::
    "(string \<Rightarrow> u32) \<Rightarrow> (node \<Rightarrow> cstep) \<Rightarrow> node \<Rightarrow> hstr option \<Rightarrow> int \<Rightarrow> int \<Rightarrow> cstep" where
  "register_decorator H acc n original program_guid inverse_guid c =
     ebind (handlebars_compiler_setup_full_mustache_params H acc n program_guid inverse_guid False c) (\<lambda>c1.
       case original of
         None \<Rightarrow> Inl Mem_error
       | Some s \<Rightarrow> Inr (handlebars_compiler_opcode c1 (opcode_with handlebars_opcode_type_register_decorator
           (handlebars_operand_set_longval (of_nat (ast_list_count (handlebars_ast_node_get_params n))))
           (handlebars_operand_set_stringval s) (operand_null False) (operand_null False))))"

text \<open>With alternate decorators the code goes into a new compiler, which has no stacks and no flags.\<close>

definition handlebars_compiler_accept_decorator ::
    "(string \<Rightarrow> u32) \<Rightarrow> (node \<Rightarrow> cstep) \<Rightarrow> node \<Rightarrow> int \<Rightarrow> int \<Rightarrow> cstep" where
  "handlebars_compiler_accept_decorator H acc n program_guid inverse_guid c =
     (let c1 = add_result result_flag_use_decorators c in
      case handlebars_ast_node_get_path n of
        None \<Rightarrow> Inl Assert_fail
      | Some path \<Rightarrow>
          let original = handlebars_ast_node_get_string_mode_value path in
          if flag_on c flag_alternate_decorators
          then ebind (register_decorator H acc n original program_guid inverse_guid handlebars_compiler_ctor) (\<lambda>d.
                 Inr (c1\<lparr>cdecorators := cdecorators c1 @ [handlebars_compiler_get_program d]\<rparr>))
          else register_decorator H acc n original program_guid inverse_guid c1)"

definition handlebars_compiler_accept_mustache ::
    "(string \<Rightarrow> u32) \<Rightarrow> (node \<Rightarrow> cstep) \<Rightarrow> node \<Rightarrow> node handlebars_ast_node_mustache \<Rightarrow> cstep" where
  "handlebars_compiler_accept_mustache H acc n m c =
     (if must_is_decorator m then handlebars_compiler_accept_decorator H acc n (- 1) (- 1) c
      else ebind (handlebars_compiler_accept_sexpr H acc n c) (\<lambda>c1.
        Inr (if unescaped m = 0 \<and> \<not> flag_on c1 flag_no_escape
             then OPN handlebars_opcode_type_append_escaped c1 else OPN handlebars_opcode_type_append c1)))"

section \<open>The tree after its compilation\<close>

definition names_block_param :: "(string \<Rightarrow> u32) \<Rightarrow> block_param_pair list \<Rightarrow> node option \<Rightarrow> bool" where
  "names_block_param H stack path =
     (case path of
        None \<Rightarrow> False
      | Some n \<Rightarrow>
          (case nbody n of
             NODE_PATH p \<Rightarrow> handlebars_ast_helper_simple_id p \<and>
               (case path_parts p of
                  Some (seg # _) \<Rightarrow>
                    (case node_part seg of None \<Rightarrow> False | Some s \<Rightarrow> find_block_param H s stack 0 \<noteq> None)
                | _ \<Rightarrow> False)
           | _ \<Rightarrow> False))"

definition call_path :: "node option \<Rightarrow> node option" where
  "call_path path =
     (case path of
        None \<Rightarrow> None
      | Some n \<Rightarrow>
          if is_literal_type (ast_type n)
          then (case handlebars_ast_node_get_string_mode_value n of None \<Rightarrow> path | Some v \<Rightarrow> Some (literal_path v))
          else path)"

definition empty_path :: node where
  "empty_path = handlebars_ast_node_ctor HANDLEBARS_AST_NODE_PATH"

definition partial_args :: "u64 \<Rightarrow> node list option \<Rightarrow> node list option" where
  "partial_args fl args =
     (if ast_list_count args = 0 \<and> fl AND flag_explicit_partial_context = 0 then Some [empty_path] else args)"

text \<open>
  A call of a block parameter is compiled without its arguments, so they stay as they are. The flags of a
  path are left out: the printer does not show them.
\<close>

function after_compile :: "(string \<Rightarrow> u32) \<Rightarrow> u64 \<Rightarrow> block_param_pair list \<Rightarrow> node \<Rightarrow> node" where
  "after_compile H fl stack (ast_node s l body) = ast_node s l
     (case body of
        NODE_PROGRAM p \<Rightarrow> NODE_PROGRAM (ast_program
          (map_option (map (\<lambda>x. after_compile H fl ((prog_block_param1 p, prog_block_param2 p) # stack) x)) (prog_statements p))
          (prog_block_param1 p) (prog_block_param2 p) (prog_chained p))
      | NODE_BLOCK b \<Rightarrow>
          let path = call_path (block_path b); plain = (\<not> block_is_decorator b \<and> names_block_param H stack path)
          in NODE_BLOCK (ast_block path (if plain then block_args b else map_option (map (\<lambda>x. after_compile H fl stack x)) (block_args b))
               (if plain then block_hash b else map_option (\<lambda>x. after_compile H fl stack x) (block_hash b)) (map_option (\<lambda>x. after_compile H fl stack x) (block_program b))
               (if block_is_decorator b then block_inverse b else map_option (\<lambda>x. after_compile H fl stack x) (block_inverse b))
               (open_strip b) (inverse_strip b) (close_strip b) (block_is_decorator b))
      | NODE_RAW_BLOCK b \<Rightarrow>
          let path = call_path (block_path b); plain = names_block_param H stack path
          in NODE_RAW_BLOCK (ast_block path (if plain then block_args b else map_option (map (\<lambda>x. after_compile H fl stack x)) (block_args b))
               (if plain then block_hash b else map_option (\<lambda>x. after_compile H fl stack x) (block_hash b)) (map_option (\<lambda>x. after_compile H fl stack x) (block_program b)) (map_option (\<lambda>x. after_compile H fl stack x) (block_inverse b))
               (open_strip b) (inverse_strip b) (close_strip b) (block_is_decorator b))
      | NODE_MUSTACHE m \<Rightarrow>
          if must_is_decorator m
          then NODE_MUSTACHE (ast_mustache (must_path m) (map_option (map (\<lambda>x. after_compile H fl stack x)) (must_args m)) (map_option (\<lambda>x. after_compile H fl stack x) (must_hash m)) (unescaped m) True)
          else let path = call_path (must_path m); plain = names_block_param H stack path
               in NODE_MUSTACHE (ast_mustache path (if plain then must_args m else map_option (map (\<lambda>x. after_compile H fl stack x)) (must_args m))
                    (if plain then must_hash m else map_option (\<lambda>x. after_compile H fl stack x) (must_hash m)) (unescaped m) False)
      | NODE_SEXPR x \<Rightarrow>
          let path = call_path (sexpr_path x); plain = names_block_param H stack path
          in NODE_SEXPR (ast_sexpr path (if plain then sexpr_args x else map_option (map (\<lambda>x. after_compile H fl stack x)) (sexpr_args x))
               (if plain then sexpr_hash x else map_option (\<lambda>x. after_compile H fl stack x) (sexpr_hash x)))
      | NODE_PARTIAL p \<Rightarrow> NODE_PARTIAL (ast_partial (map_option (\<lambda>x. after_compile H fl stack x) (part_name p))
          (if part_args p = None \<or> part_args p = Some [] then partial_args fl (part_args p) else map_option (map (\<lambda>x. after_compile H fl stack x)) (part_args p))
          (map_option (\<lambda>x. after_compile H fl stack x) (part_hash p)) (part_indent p))
      | NODE_PARTIAL_BLOCK b \<Rightarrow> NODE_PARTIAL_BLOCK (ast_block (map_option (\<lambda>x. after_compile H fl stack x) (block_path b))
          (if block_args b = None \<or> block_args b = Some [] then partial_args fl (block_args b) else map_option (map (\<lambda>x. after_compile H fl stack x)) (block_args b))
          (map_option (\<lambda>x. after_compile H fl stack x) (block_hash b)) (map_option (\<lambda>x. after_compile H fl stack x) (block_program b)) (block_inverse b)
          (open_strip b) (inverse_strip b) (close_strip b) (block_is_decorator b))
      | NODE_HASH pairs \<Rightarrow> NODE_HASH (map_option (map (\<lambda>x. after_compile H fl stack x)) pairs)
      | NODE_HASH_PAIR key v \<Rightarrow> NODE_HASH_PAIR key (map_option (\<lambda>x. after_compile H fl stack x) v)
      | _ \<Rightarrow> body)"
  by pat_completeness auto

termination
proof (relation "measure (\<lambda>(H, fl, stack, n). size n)", goal_cases)
  case 1
  then show ?case by simp
qed (auto intro!: node_smaller simp: struct_nodes)

section \<open>Blocks\<close>

definition block_original :: "node \<Rightarrow> hstr option" where
  "block_original n =
     (case handlebars_ast_node_get_path n of
        None \<Rightarrow> None
      | Some path \<Rightarrow> (case nbody path of NODE_PATH p \<Rightarrow> path_original p | _ \<Rightarrow> None))"

text \<open>The part that blocks and raw blocks share: \<open>lambda_node\<close> is what an ambiguous call passes on as text.\<close>

definition accept_block_call ::
    "(string \<Rightarrow> u32) \<Rightarrow> (node \<Rightarrow> cstep) \<Rightarrow> node \<Rightarrow> int \<Rightarrow> int \<Rightarrow> node option \<Rightarrow> cstep" where
  "accept_block_call H acc sexpr program_guid inverse_guid lambda_node c =
     ebind (handlebars_compiler_classify_sexpr H c sexpr) (\<lambda>cls.
     ebind (case cls of
              SEXPR_HELPER \<Rightarrow> handlebars_compiler_accept_sexpr_helper H acc sexpr program_guid inverse_guid c
            | SEXPR_SIMPLE \<Rightarrow>
                ebind (handlebars_compiler_accept_sexpr_simple acc sexpr c) (\<lambda>c1.
                  OPS handlebars_opcode_type_block_value (block_original sexpr)
                    (OPN handlebars_opcode_type_empty_hash (push_program_pair program_guid inverse_guid c1)))
            | SEXPR_AMBIG \<Rightarrow>
                ebind (handlebars_compiler_accept_sexpr_ambiguous acc sexpr program_guid inverse_guid lambda_node c) (\<lambda>c1.
                  Inr (OPN handlebars_opcode_type_ambiguous_block_value
                    (OPN handlebars_opcode_type_empty_hash (push_program_pair program_guid inverse_guid c1))))) (\<lambda>c2.
       Inr (OPN handlebars_opcode_type_append c2)))"

definition compiled_program :: "(string \<Rightarrow> u32) \<Rightarrow> compiler \<Rightarrow> node option \<Rightarrow> node option" where
  "compiled_program H c program =
     map_option (after_compile H (cflags c) (case bps c of None \<Rightarrow> [] | Some stack \<Rightarrow> stack)) program"

definition handlebars_compiler_accept_block ::
    "(string \<Rightarrow> u32) \<Rightarrow> (node \<Rightarrow> cstep) \<Rightarrow> node \<Rightarrow> node handlebars_ast_node_block \<Rightarrow> cstep" where
  "handlebars_compiler_accept_block H acc n b c =
     ebind (handlebars_compiler_transform_literal_to_path n) (\<lambda>block.
     ebind (handlebars_compiler_compile_program acc (block_program b) c) (\<lambda>(program_guid, c1).
       if block_is_decorator b then handlebars_compiler_accept_decorator H acc block program_guid (- 1) c1
       else
         ebind (handlebars_compiler_compile_program acc (block_inverse b) c1) (\<lambda>(inverse_guid, c2).
           accept_block_call H acc block program_guid inverse_guid (compiled_program H c2 (block_program b)) c2)))"

definition handlebars_compiler_accept_raw_block ::
    "(string \<Rightarrow> u32) \<Rightarrow> (node \<Rightarrow> cstep) \<Rightarrow> node \<Rightarrow> node handlebars_ast_node_block \<Rightarrow> cstep" where
  "handlebars_compiler_accept_raw_block H acc n b c =
     ebind (handlebars_compiler_transform_literal_to_path n) (\<lambda>block.
     ebind (handlebars_compiler_compile_program acc (block_program b) c) (\<lambda>(program_guid, c1).
     ebind (handlebars_compiler_compile_program acc (block_inverse b) c1) (\<lambda>(inverse_guid, c2).
       accept_block_call H acc block program_guid inverse_guid None c2)))"

section \<open>Partials\<close>

definition set_args :: "node list option \<Rightarrow> node \<Rightarrow> node" where
  "set_args args n = ast_node (nstrip n) (nloc n)
     (case nbody n of
        NODE_PARTIAL p \<Rightarrow> NODE_PARTIAL (ast_partial (part_name p) args (part_hash p) (part_indent p))
      | NODE_PARTIAL_BLOCK b \<Rightarrow> NODE_PARTIAL_BLOCK (ast_block (block_path b) args (block_hash b) (block_program b)
          (block_inverse b) (open_strip b) (inverse_strip b) (close_strip b) (block_is_decorator b))
      | body \<Rightarrow> body)"

definition partial_name_operand :: "node \<Rightarrow> hbs_error + operand" where
  "partial_name_operand name =
     (case handlebars_ast_node_get_string_mode_value name of
        None \<Rightarrow> Inl Mem_error
      | Some str \<Rightarrow>
          if ast_type name = HANDLEBARS_AST_NODE_NUMBER \<and> number_is_long (c_string str)
          then Inr (handlebars_operand_set_longval (word_of_int (strtol10 (c_string str))))
          else Inr (handlebars_operand_set_stringval str))"

definition accept_partial_params ::
    "node \<Rightarrow> node list option \<Rightarrow> compiler \<Rightarrow> hbs_error + node \<times> compiler" where
  "accept_partial_params n params c =
     (if ast_list_count params > 1
      then Inl (Throw HANDLEBARS_UNSUPPORTED_PARTIAL_ARGS ''Unsupported number of partial arguments'')
      else if ast_list_count params = 0 then
        (if flag_on c flag_explicit_partial_context then Inr (n, push_literal (str_operand ''undefined'') c)
         else Inr (set_args (Some [empty_path]) n, c))
      else Inr (n, c))"

text \<open>The end of a partial: the indentation, as an operand or as content, and the call.\<close>

definition finish_partial :: "node \<Rightarrow> hstr option \<Rightarrow> cstep" where
  "finish_partial name indent c =
     (let is_dynamic = (ast_type name = HANDLEBARS_AST_NODE_SEXPR);
          prevent = (flag_on c flag_prevent_indent \<and>
            (case indent of None \<Rightarrow> False | Some s \<Rightarrow> hbs_str_len s > 0))
      in ebind (if prevent then OPS handlebars_opcode_type_append_content indent c else Inr c) (\<lambda>c1.
         ebind (if is_dynamic then Inr (operand_null False) else partial_name_operand name) (\<lambda>name_op.
           let indent_op = (case indent of
                 Some s \<Rightarrow> if prevent then str_operand [] else handlebars_operand_set_stringval s
               | None \<Rightarrow> str_operand [])
           in Inr (OPN handlebars_opcode_type_append (handlebars_compiler_opcode c1
                (opcode_with handlebars_opcode_type_invoke_partial (handlebars_operand_set_boolval is_dynamic)
                   name_op indent_op (operand_null False)))))))"

definition accept_any_partial ::
    "(string \<Rightarrow> u32) \<Rightarrow> (node \<Rightarrow> cstep) \<Rightarrow> node \<Rightarrow> node option \<Rightarrow> node list option \<Rightarrow> node option \<Rightarrow> hstr option \<Rightarrow> cstep" where
  "accept_any_partial H acc n name_node params program indent c =
     (case name_node of
        None \<Rightarrow> Inl Assert_fail
      | Some name \<Rightarrow>
          let is_dynamic = (ast_type name = HANDLEBARS_AST_NODE_SEXPR) in
          ebind (accept_partial_params n params (add_result result_flag_use_partial c)) (\<lambda>(n', c1).
          ebind (if is_dynamic then acc name c1 else Inr c1) (\<lambda>c2.
          ebind (handlebars_compiler_compile_program acc program c2) (\<lambda>(program_guid, c3).
          ebind (handlebars_compiler_setup_full_mustache_params H acc n' program_guid (- 1) True c3) (\<lambda>c4.
            finish_partial name indent c4)))))"

definition handlebars_compiler_accept_partial ::
    "(string \<Rightarrow> u32) \<Rightarrow> (node \<Rightarrow> cstep) \<Rightarrow> node \<Rightarrow> node handlebars_ast_node_partial \<Rightarrow> cstep" where
  "handlebars_compiler_accept_partial H acc n p c =
     accept_any_partial H acc n (part_name p) (part_args p) None (part_indent p) c"

definition handlebars_compiler_accept_partial_block ::
    "(string \<Rightarrow> u32) \<Rightarrow> (node \<Rightarrow> cstep) \<Rightarrow> node \<Rightarrow> node handlebars_ast_node_block \<Rightarrow> cstep" where
  "handlebars_compiler_accept_partial_block H acc n b c =
     accept_any_partial H acc n (block_path b) (block_args b) (block_program b) None c"

section \<open>The walk over the tree\<close>

definition accept_switch :: "(string \<Rightarrow> u32) \<Rightarrow> (node \<Rightarrow> cstep) \<Rightarrow> node \<Rightarrow> cstep" where
  "accept_switch H acc n c =
     (case nbody n of
        NODE_BLOCK b \<Rightarrow> handlebars_compiler_accept_block H acc n b c
      | NODE_BOOLEAN l \<Rightarrow> handlebars_compiler_accept_boolean l c
      | NODE_COMMENT _ _ \<Rightarrow> Inr c
      | NODE_CONTENT l \<Rightarrow> handlebars_compiler_accept_content l c
      | NODE_HASH pairs \<Rightarrow> handlebars_compiler_accept_hash H acc pairs c
      | NODE_MUSTACHE m \<Rightarrow> handlebars_compiler_accept_mustache H acc n m c
      | NODE_NUMBER l \<Rightarrow> handlebars_compiler_accept_number l c
      | NODE_NUL _ \<Rightarrow> handlebars_compiler_accept_nul c
      | NODE_PARTIAL p \<Rightarrow> handlebars_compiler_accept_partial H acc n p c
      | NODE_PARTIAL_BLOCK b \<Rightarrow> handlebars_compiler_accept_partial_block H acc n b c
      | NODE_PATH p \<Rightarrow> handlebars_compiler_accept_path H n p c
      | NODE_PROGRAM p \<Rightarrow> handlebars_compiler_accept_program acc p c
      | NODE_SEXPR _ \<Rightarrow> handlebars_compiler_accept_sexpr H acc n c
      | NODE_STRING l \<Rightarrow> handlebars_compiler_accept_string l c
      | NODE_RAW_BLOCK b \<Rightarrow> handlebars_compiler_accept_raw_block H acc n b c
      | NODE_UNDEFINED _ \<Rightarrow> handlebars_compiler_accept_undefined c
      | _ \<Rightarrow> Inl Assert_fail)"

fun handlebars_compiler_accept :: "(string \<Rightarrow> u32) \<Rightarrow> nat \<Rightarrow> node \<Rightarrow> cstep" where
  "handlebars_compiler_accept H 0 n c = Inl Out_of_fuel"
| "handlebars_compiler_accept H (Suc k) n c =
     (case sns c of
        None \<Rightarrow> Inl Mem_error
      | Some stack \<Rightarrow>
          if length stack > HANDLEBARS_COMPILER_STACK_SIZE
          then Inl (Throw HANDLEBARS_STACK_OVERFLOW ''Source node stack blown'')
          else if length stack = HANDLEBARS_COMPILER_STACK_SIZE then Inl Mem_error
          else ebind (accept_switch H (handlebars_compiler_accept H k) n (c\<lparr>sns := Some (nloc n # stack)\<rparr>)) (\<lambda>c'.
                 Inr (c'\<lparr>sns := map_option tl (sns c')\<rparr>)))"

text \<open>A level of the recursion is a level of the source node stack, so this fuel is enough.\<close>

definition ACCEPT_FUEL :: nat where
  "ACCEPT_FUEL = HANDLEBARS_COMPILER_STACK_SIZE + 1"

definition handlebars_compiler_compile :: "(string \<Rightarrow> u32) \<Rightarrow> compiler \<Rightarrow> node \<Rightarrow> hbs_error + compiler" where
  "handlebars_compiler_compile H c n =
     ebind (handlebars_compiler_accept H ACCEPT_FUEL n (begin_compile c)) (\<lambda>c'.
       Inr (c'\<lparr>bps := None, sns := None\<rparr>))"

definition handlebars_compiler_compile_ex :: "(string \<Rightarrow> u32) \<Rightarrow> compiler \<Rightarrow> node \<Rightarrow> hbs_error + handlebars_program" where
  "handlebars_compiler_compile_ex H c n =
     ebind (handlebars_compiler_compile H c n) (\<lambda>c'. Inr (handlebars_compiler_get_program c'))"

end
