(* ===== verification/CompilerProofs.thy ===== *)
theory CompilerProofs
  imports Compiler SerializerProofs
begin

text \<open>
  What compiling a node does to the compiler: it appends opcodes and children, restores the two stacks, and
  never refers to a child that does not exist. The handlers are proved against any recursive call with that
  contract (the locale \<open>acceptor\<close>), with operands of the kinds the machine asserts; induction on the fuel gives the contract to \<open>handlebars_compiler_accept\<close>.
\<close>

section \<open>The contract\<close>

text \<open>
  The kinds of operands that the machine asserts of an opcode before it reads them; \<open>lambdas\<close> is the flag for
  mustache-style lambdas, under which an ambiguous call has the text of its block in the third operand.
\<close>

abbreviation lambda_mode :: "compiler \<Rightarrow> bool" where
  "lambda_mode c \<equiv> flag_on c flag_mustache_style_lambdas"

fun is_string :: "operand \<Rightarrow> bool" where
  "is_string (operand_string _) = True"
| "is_string _ = False"

fun is_long :: "operand \<Rightarrow> bool" where
  "is_long (operand_long _) = True"
| "is_long _ = False"

fun is_array :: "operand \<Rightarrow> bool" where
  "is_array (operand_array _) = True"
| "is_array _ = False"

fun is_boolean :: "operand \<Rightarrow> bool" where
  "is_boolean (operand_boolean _) = True"
| "is_boolean _ = False"

fun is_null :: "operand \<Rightarrow> bool" where
  "is_null (operand_null _) = True"
| "is_null _ = False"

abbreviation is_flag :: "operand \<Rightarrow> bool" where
  "is_flag p \<equiv> is_boolean p \<or> is_null p"

definition fits :: "bool \<Rightarrow> handlebars_opcode_type \<Rightarrow> operand \<Rightarrow> operand \<Rightarrow> operand \<Rightarrow> operand \<Rightarrow> bool" where
  "fits lambdas t a b d e \<longleftrightarrow>
     (case t of
        handlebars_opcode_type_append_content \<Rightarrow> is_string a
      | handlebars_opcode_type_assign_to_hash \<Rightarrow> is_string a
      | handlebars_opcode_type_block_value \<Rightarrow> is_string a
      | handlebars_opcode_type_push_string \<Rightarrow> is_string a
      | handlebars_opcode_type_push_literal \<Rightarrow> \<not> is_array a
      | handlebars_opcode_type_get_context \<Rightarrow> is_long a
      | handlebars_opcode_type_invoke_ambiguous \<Rightarrow> is_string a \<and> is_boolean b \<and> (lambdas \<longrightarrow> is_string d)
      | handlebars_opcode_type_invoke_helper \<Rightarrow> is_long a \<and> is_string b \<and> is_boolean d
      | handlebars_opcode_type_invoke_known_helper \<Rightarrow> is_long a \<and> is_string b
      | handlebars_opcode_type_invoke_partial \<Rightarrow> is_boolean a \<and> (is_string b \<or> is_null b \<or> is_long b) \<and> is_string d
      | handlebars_opcode_type_lookup_block_param \<Rightarrow> is_array a \<and> is_array b
      | handlebars_opcode_type_lookup_data \<Rightarrow> is_long a \<and> is_array b \<and> is_flag d
      | handlebars_opcode_type_lookup_on_context \<Rightarrow> is_array a \<and> is_flag b \<and> is_flag d \<and> is_flag e
      | _ \<Rightarrow> True)"

lemma operand_set_kinds [simp]:
  "is_string (handlebars_operand_set_stringval s)" "is_long (handlebars_operand_set_longval n)"
  "is_boolean (handlebars_operand_set_boolval b)" "is_array (handlebars_operand_set_arrayval xs)"
  "is_array (handlebars_operand_set_arrayval_string ys)" "is_array (block_param_operand r)" "is_flag (if_true b)"
  "\<not> is_array (handlebars_operand_set_stringval s)" "\<not> is_array (handlebars_operand_set_longval n)"
  "\<not> is_array (handlebars_operand_set_boolval b)"
  by (simp_all add: handlebars_operand_set_stringval_def handlebars_operand_set_longval_def handlebars_operand_set_boolval_def
      handlebars_operand_set_arrayval_def handlebars_operand_set_arrayval_string_def block_param_operand_def if_true_def)

text \<open>\<open>pushProgram\<close> refers to one of the first \<open>k\<close> children, and the operands are of the right kinds.\<close>

definition refs_op :: "bool \<Rightarrow> int \<Rightarrow> opcode \<Rightarrow> bool" where
  "refs_op lambdas k opc \<longleftrightarrow>
     fits lambdas (otype opc) (op1 opc) (op2 opc) (op3 opc) (op4 opc) \<and>
     (otype opc = handlebars_opcode_type_push_program \<longrightarrow>
        operand_type_null (op4 opc) \<and>
        (case op1 opc of operand_long w \<Rightarrow> \<exists>g. 0 \<le> g \<and> g < k \<and> w = word_of_int g | _ \<Rightarrow> True))"

fun refs_program :: "bool \<Rightarrow> handlebars_program \<Rightarrow> bool" where
  "refs_program lambdas (handlebars_program g fl rf bp opcs kids decs) \<longleftrightarrow>
     (\<forall>opc \<in> set opcs. refs_op lambdas (int (length kids)) opc) \<and> (\<forall>k \<in> set kids. refs_program lambdas k)"

definition same_env :: "compiler \<Rightarrow> compiler \<Rightarrow> bool" where
  "same_env c c' \<longleftrightarrow> bps c' = bps c \<and> sns c' = sns c \<and> known_helpers c' = known_helpers c \<and> cflags c' = cflags c \<and>
     cprogflags c' = cprogflags c"

definition emits :: "compiler \<Rightarrow> compiler \<Rightarrow> bool" where
  "emits c c' \<longleftrightarrow> same_env c c' \<and>
     (\<exists>opcs kids. copcodes c' = copcodes c @ opcs \<and> cchildren c' = cchildren c @ kids \<and>
        cguid c' = cguid c + length kids \<and>
        (\<forall>opc \<in> set opcs. refs_op (lambda_mode c) (int (cguid c')) opc) \<and> (\<forall>k \<in> set kids. refs_program (lambda_mode c) k))"

lemma same_env_lambdas: "same_env c c' \<Longrightarrow> lambda_mode c' = lambda_mode c"
  by (simp add: same_env_def flag_on_def)

lemma lambda_mode_update [simp]:
  "lambda_mode (c\<lparr>bps := x\<rparr>) = lambda_mode c" "lambda_mode (c\<lparr>sns := y\<rparr>) = lambda_mode c"
  by (simp_all add: flag_on_def)

lemma refs_op_mono: "refs_op b k opc \<Longrightarrow> k \<le> l \<Longrightarrow> refs_op b l opc"
  by (fastforce simp: refs_op_def split: handlebars_operand.splits)

lemma emits_refl [simp]: "emits c c"
  by (simp add: emits_def same_env_def)

lemma emits_trans [trans]: "emits c d \<Longrightarrow> emits d e \<Longrightarrow> emits c e"
proof -
  assume a: "emits c d" "emits d e"
  then obtain o1 k1 o2 k2 where
      d: "copcodes d = copcodes c @ o1" "cchildren d = cchildren c @ k1" "cguid d = cguid c + length k1"
      "\<forall>opc \<in> set o1. refs_op (lambda_mode c) (int (cguid d)) opc" "\<forall>k \<in> set k1. refs_program (lambda_mode c) k" and
      e: "copcodes e = copcodes d @ o2" "cchildren e = cchildren d @ k2" "cguid e = cguid d + length k2"
      "\<forall>opc \<in> set o2. refs_op (lambda_mode c) (int (cguid e)) opc" "\<forall>k \<in> set k2. refs_program (lambda_mode c) k"
    using same_env_lambdas [of c d] unfolding emits_def by auto
  have "\<forall>opc \<in> set (o1 @ o2). refs_op (lambda_mode c) (int (cguid e)) opc"
    using d(4) e(3,4) refs_op_mono [of "lambda_mode c" "int (cguid d)" _ "int (cguid e)"] by auto
  then show ?thesis
    using a d e unfolding emits_def
    by (auto simp: same_env_def intro!: exI [of _ "o1 @ o2"] exI [of _ "k1 @ k2"])
qed

lemma emits_guid: "emits c c' \<Longrightarrow> cguid c \<le> cguid c'"
  by (auto simp: emits_def)

lemma emits_env: "emits c c' \<Longrightarrow> same_env c c'"
  by (simp add: emits_def)

section \<open>Single opcodes\<close>

lemma set_loc_simps [simp]:
  "otype (handlebars_opcode_set_loc opc l) = otype opc" "op1 (handlebars_opcode_set_loc opc l) = op1 opc"
  "op2 (handlebars_opcode_set_loc opc l) = op2 opc" "op3 (handlebars_opcode_set_loc opc l) = op3 opc"
  "op4 (handlebars_opcode_set_loc opc l) = op4 opc"
  by (simp_all add: handlebars_opcode_set_loc_def)

lemma refs_set_loc [simp]: "refs_op b k (handlebars_opcode_set_loc opc l) = refs_op b k opc"
  by (simp add: refs_op_def)

lemma compiler_opcode_emits: "refs_op (lambda_mode c) (int (cguid c)) opc \<Longrightarrow> emits c (handlebars_compiler_opcode c opc)"
  by (auto simp: emits_def same_env_def handlebars_compiler_opcode_def split: option.splits list.splits)

lemma refs_other:
  "otype opc \<noteq> handlebars_opcode_type_push_program \<and> fits b (otype opc) (op1 opc) (op2 opc) (op3 opc) (op4 opc) \<Longrightarrow> refs_op b k opc"
  by (simp add: refs_op_def)

lemma opcode_with_simps [simp]:
  "otype (opcode_with t a b d e) = t" "op1 (opcode_with t a b d e) = a" "op2 (opcode_with t a b d e) = b"
  "op3 (opcode_with t a b d e) = d" "op4 (opcode_with t a b d e) = e"
  by (simp_all add: opcode_with_def)

abbreviation fits1 :: "bool \<Rightarrow> handlebars_opcode_type \<Rightarrow> operand \<Rightarrow> bool" where
  "fits1 lambdas t a \<equiv> fits lambdas t a (operand_null False) (operand_null False) (operand_null False)"

lemma OPN_emits: "fits1 (lambda_mode c) t (operand_null False) \<Longrightarrow> emits c (OPN t c)"
  unfolding OPN_def by (rule compiler_opcode_emits) (simp add: refs_op_def operand_type_null_def)

lemma OPB_emits: "t \<noteq> handlebars_opcode_type_push_program \<and> fits1 (lambda_mode c) t (handlebars_operand_set_boolval b) \<Longrightarrow> emits c (OPB t b c)"
  unfolding OPB_def by (intro compiler_opcode_emits refs_other) simp

lemma OPL_emits: "t \<noteq> handlebars_opcode_type_push_program \<and> fits1 (lambda_mode c) t (handlebars_operand_set_longval n) \<Longrightarrow> emits c (OPL t n c)"
  unfolding OPL_def by (intro compiler_opcode_emits refs_other) simp

lemma OPS_emits:
  "t \<noteq> handlebars_opcode_type_push_program \<and> (\<forall>h. fits1 (lambda_mode c) t (handlebars_operand_set_stringval h)) \<Longrightarrow> OPS t s c = Inr c' \<Longrightarrow> emits c c'"
  unfolding OPS_def by (auto intro!: compiler_opcode_emits refs_other split: option.splits)

lemma push_literal_emits: "\<not> is_array v \<Longrightarrow> emits c (push_literal v c)"
  by (intro compiler_opcode_emits refs_other) (simp add: fits_def)

lemma opcode_with_emits:
  "t \<noteq> handlebars_opcode_type_push_program \<and> fits (lambda_mode c) t a b d e \<Longrightarrow> emits c (handlebars_compiler_opcode c (opcode_with t a b d e))"
  by (intro compiler_opcode_emits refs_other) simp

text \<open>The opcodes that the compiler emits.\<close>

lemma fits_simps [simp]:
  "fits lambdas handlebars_opcode_type_append_content a b d e = is_string a" "fits lambdas handlebars_opcode_type_assign_to_hash a b d e = is_string a"
  "fits lambdas handlebars_opcode_type_block_value a b d e = is_string a" "fits lambdas handlebars_opcode_type_push_string a b d e = is_string a"
  "fits lambdas handlebars_opcode_type_push_literal a b d e = (\<not> is_array a)" "fits lambdas handlebars_opcode_type_get_context a b d e = is_long a"
  "fits lambdas handlebars_opcode_type_invoke_ambiguous a b d e = (is_string a \<and> is_boolean b \<and> (lambdas \<longrightarrow> is_string d))"
  "fits lambdas handlebars_opcode_type_invoke_helper a b d e = (is_long a \<and> is_string b \<and> is_boolean d)"
  "fits lambdas handlebars_opcode_type_invoke_known_helper a b d e = (is_long a \<and> is_string b)"
  "fits lambdas handlebars_opcode_type_invoke_partial a b d e = (is_boolean a \<and> (is_string b \<or> is_null b \<or> is_long b) \<and> is_string d)"
  "fits lambdas handlebars_opcode_type_lookup_block_param a b d e = (is_array a \<and> is_array b)"
  "fits lambdas handlebars_opcode_type_lookup_data a b d e = (is_long a \<and> is_array b \<and> is_flag d)"
  "fits lambdas handlebars_opcode_type_lookup_on_context a b d e = (is_array a \<and> is_flag b \<and> is_flag d \<and> is_flag e)"
  "fits lambdas handlebars_opcode_type_append a b d e" "fits lambdas handlebars_opcode_type_append_escaped a b d e"
  "fits lambdas handlebars_opcode_type_empty_hash a b d e" "fits lambdas handlebars_opcode_type_push_hash a b d e"
  "fits lambdas handlebars_opcode_type_pop_hash a b d e" "fits lambdas handlebars_opcode_type_push_context a b d e"
  "fits lambdas handlebars_opcode_type_push_program a b d e" "fits lambdas handlebars_opcode_type_push_id a b d e"
  "fits lambdas handlebars_opcode_type_push_string_param a b d e" "fits lambdas handlebars_opcode_type_register_decorator a b d e"
  "fits lambdas handlebars_opcode_type_resolve_possible_lambda a b d e" "fits lambdas handlebars_opcode_type_ambiguous_block_value a b d e"
  by (simp_all add: fits_def)

lemma add_result_emits [simp]: "emits c (add_result f c)"
  by (simp add: emits_def same_env_def add_result_def)

lemma add_depth_emits [simp]: "emits c (handlebars_compiler_add_depth d c)"
  by (simp add: handlebars_compiler_add_depth_def)

lemma block_params_emits [simp]: "emits c (c\<lparr>cblock_params := n\<rparr>)" "emits c (c\<lparr>cdecorators := ds\<rparr>)"
  by (simp_all add: emits_def same_env_def)

definition guid_ok :: "compiler \<Rightarrow> int \<Rightarrow> bool" where
  "guid_ok c g \<longleftrightarrow> g = - 1 \<or> (0 \<le> g \<and> g < int (cguid c))"

lemma guid_none [simp]: "guid_ok c (- 1)"
  by (simp add: guid_ok_def)

lemma guid_ok_mono: "guid_ok c g \<Longrightarrow> emits c c' \<Longrightarrow> guid_ok c' g"
  using emits_guid [of c c'] by (auto simp: guid_ok_def)

lemma push_program_emits:
  assumes "guid_ok c g"
  shows "emits c (if g = - 1 then OPN handlebars_opcode_type_push_program c
                  else OPL handlebars_opcode_type_push_program (word_of_int g) c)"
proof (cases "g = - 1")
  case False
  then have "refs_op (lambda_mode c) (int (cguid c)) ((handlebars_opcode_ctor handlebars_opcode_type_push_program)
      \<lparr>op1 := handlebars_operand_set_longval (word_of_int g)\<rparr>)"
    using assms by (auto simp: refs_op_def guid_ok_def handlebars_operand_set_longval_def operand_type_null_def)
  then show ?thesis using False by (simp add: OPL_def compiler_opcode_emits)
qed (simp add: OPN_emits)

lemma push_program_pair_emits:
  assumes "guid_ok c p" "guid_ok c i"
  shows "emits c (push_program_pair p i c)"
proof -
  let ?d = "if p = - 1 then OPN handlebars_opcode_type_push_program c
            else OPL handlebars_opcode_type_push_program (word_of_int p) c"
  have "emits c ?d" by (rule push_program_emits [OF assms(1)])
  also have "emits ?d (push_program_pair p i c)"
    unfolding push_program_pair_def Let_def
    by (rule push_program_emits) (rule guid_ok_mono [OF assms(2) \<open>emits c ?d\<close>])
  finally show ?thesis .
qed

lemmas emit_rules = OPN_emits OPB_emits OPL_emits OPS_emits push_literal_emits opcode_with_emits

section \<open>Leaves\<close>

lemma accept_leaf_emits:
  "handlebars_compiler_accept_content l c = Inr c' \<Longrightarrow> emits c c'"
  "handlebars_compiler_accept_string l c = Inr c' \<Longrightarrow> emits c c'"
  "handlebars_compiler_accept_number l c = Inr c' \<Longrightarrow> emits c c'"
  "handlebars_compiler_accept_boolean l c = Inr c' \<Longrightarrow> emits c c'"
  "handlebars_compiler_accept_nul c = Inr c' \<Longrightarrow> emits c c'"
  "handlebars_compiler_accept_undefined c = Inr c' \<Longrightarrow> emits c c'"
  by (auto simp: handlebars_compiler_accept_content_def handlebars_compiler_accept_string_def
      handlebars_compiler_accept_number_def handlebars_compiler_accept_boolean_def handlebars_compiler_accept_nul_def
      handlebars_compiler_accept_undefined_def push_literal_emits OPL_emits dest: OPS_emits [rotated]
      split: option.splits if_splits)

lemma accept_path_emits:
  assumes "handlebars_compiler_accept_path H n p c = Inr c'"
  shows "emits c c'"
proof -
  let ?c = "OPL handlebars_opcode_type_get_context (ucast (path_depth p)) (handlebars_compiler_add_depth (sint (path_depth p)) c)"
  have "emits c ?c" by (intro emits_trans [OF add_depth_emits OPL_emits]) simp
  also have "emits ?c c'"
    using assms unfolding handlebars_compiler_accept_path_def Let_def
    by (auto simp: OPN_emits opcode_with_emits split: option.splits if_splits)
  finally show ?thesis .
qed

lemma push_id_emits: "push_id H n c = Inr c' \<Longrightarrow> emits c c'"
  by (auto simp: push_id_def Let_def opcode_with_emits split: option.splits)

section \<open>Subprograms\<close>

lemma begin_compile_simps [simp]:
  "copcodes (begin_compile c) = copcodes c" "cchildren (begin_compile c) = cchildren c"
  "cguid (begin_compile c) = cguid c" "cflags (begin_compile c) = cflags c" "cresult (begin_compile c) = cresult c"
  "known_helpers (begin_compile c) = known_helpers c" "cprogflags (begin_compile c) = cflags c"
  by (simp_all add: begin_compile_def)

lemma subcompiler_simps [simp]:
  "copcodes (subcompiler_of c) = []" "cchildren (subcompiler_of c) = []" "cguid (subcompiler_of c) = 0"
  "bps (subcompiler_of c) = bps c" "sns (subcompiler_of c) = sns c" "known_helpers (subcompiler_of c) = known_helpers c"
  "cresult (subcompiler_of c) = 0"
  by (simp_all add: subcompiler_of_def handlebars_compiler_set_flags_def handlebars_compiler_ctor_def)

lemma subcompiler_lambdas [simp]: "lambda_mode (begin_compile (subcompiler_of c)) = lambda_mode c"
proof -
  have "(flag_all AND flag_mustache_style_lambdas :: u64) = flag_mustache_style_lambdas"
    by (simp add: flag_all_def flag_mustache_style_lambdas_def)
  then have "(w AND flag_all) AND flag_mustache_style_lambdas = w AND flag_mustache_style_lambdas" for w :: u64
    by (simp add: and.assoc)
  then show ?thesis
    by (simp add: flag_on_def subcompiler_of_def handlebars_compiler_set_flags_def handlebars_compiler_get_flags_def
        handlebars_compiler_ctor_def)
qed

lemma emits_program:
  assumes "emits c d" "copcodes c = []" "cchildren c = []" "cguid c = 0"
  shows "refs_program (lambda_mode c) (handlebars_compiler_get_program d)"
  using assms by (auto simp: emits_def handlebars_compiler_get_program_def)

lemma append_child_emits:
  assumes "emits (begin_compile (subcompiler_of c)) d"
  shows "emits c (append_child d c)"
proof -
  have "refs_program (lambda_mode c) (handlebars_compiler_get_program (d\<lparr>cprogflags := cflags d\<rparr>))"
    using emits_program [OF assms] by (simp add: handlebars_compiler_get_program_def)
  moreover have "bps d = (case bps c of None \<Rightarrow> Some [] | Some b \<Rightarrow> Some b)"
      "sns d = (case sns c of None \<Rightarrow> Some [] | Some b \<Rightarrow> Some b)"
    using emits_env [OF assms] by (simp_all add: same_env_def begin_compile_def)
  ultimately show ?thesis
    by (auto simp: emits_def same_env_def append_child_def split: option.splits)
qed

lemma leave_program_simps [simp]:
  "copcodes (leave_program p c) = copcodes c" "cchildren (leave_program p c) = cchildren c"
  "cguid (leave_program p c) = cguid c" "bps (leave_program p c) = map_option tl (bps c)"
  "sns (leave_program p c) = sns c" "known_helpers (leave_program p c) = known_helpers c"
  "cflags (leave_program p c) = cflags c" "cprogflags (leave_program p c) = cprogflags c"
  by (simp_all add: leave_program_def Let_def add_result_def)

section \<open>Handlers\<close>

locale acceptor =
  fixes acc :: "node \<Rightarrow> cstep"
  assumes acc_emits: "acc n c = Inr c' \<Longrightarrow> emits c c'"
begin

lemma compile_program_emits:
  assumes "handlebars_compiler_compile_program acc n c = Inr (g, c')"
  shows "emits c c'" "guid_ok c' g"
proof -
  have "emits c c' \<and> guid_ok c' g"
  proof (cases n)
    case None
    then show ?thesis using assms by (auto simp: handlebars_compiler_compile_program_def)
  next
    case (Some m)
    then obtain d where d: "acc m (begin_compile (subcompiler_of c)) = Inr d" "g = int (cguid c)" "c' = append_child d c"
      using assms by (auto simp: handlebars_compiler_compile_program_def split: if_splits)
    have "cguid c' = cguid c + 1" by (simp add: d append_child_def)
    then show ?thesis using append_child_emits [OF acc_emits [OF d(1)]] d by (simp add: guid_ok_def)
  qed
  then show "emits c c'" "guid_ok c' g" by simp_all
qed

lemma acc_if_emits: "(if b then acc n c else Inr c) = Inr c' \<Longrightarrow> emits c c'"
  by (cases b) (auto dest: acc_emits)

lemma push_string_param_emits:
  assumes "push_string_param acc n c = Inr c'"
  shows "emits c c'"
proof -
  define depth where "depth = (case nbody n of NODE_PATH p \<Rightarrow> sint (path_depth p) | _ \<Rightarrow> 0)"
  let ?c1 = "if depth \<noteq> 0 then handlebars_compiler_add_depth depth c else c"
  let ?c2 = "OPL handlebars_opcode_type_get_context (word_of_int depth) ?c1"
  obtain v where v: "(let c3 = handlebars_compiler_opcode ?c2
         (opcode_with handlebars_opcode_type_push_string_param v
            (str_operand (handlebars_ast_node_readable_type (ast_type n))) (operand_null False) (operand_null False))
       in if ast_type n = HANDLEBARS_AST_NODE_SEXPR then acc n c3 else Inr c3) = Inr c'"
    using assms unfolding push_string_param_def Let_def depth_def [symmetric] by auto
  have "emits c ?c1" by simp
  also have "emits ?c1 ?c2" by (simp add: OPL_emits)
  also have "emits ?c2 c'"
    using v unfolding Let_def by (elim emits_trans [OF opcode_with_emits acc_if_emits, rotated]) simp
  finally show ?thesis .
qed

lemma push_param_emits: "handlebars_compiler_push_param H acc n c = Inr c' \<Longrightarrow> emits c c'"
  by (auto simp: handlebars_compiler_push_param_def push_string_param_emits acc_emits
      split: if_splits intro: emits_trans [OF push_id_emits acc_emits])

lemma efold_emits:
  assumes "efold f xs c = Inr c'" and f: "\<And>x c c'. x \<in> set xs \<Longrightarrow> f x c = Inr c' \<Longrightarrow> emits c c'"
  shows "emits c c'"
  by (rule efold_invariant [OF assms(1), of "emits c"]) (auto intro: emits_trans f)

lemma push_params_emits: "handlebars_compiler_push_params H acc ns c = Inr c' \<Longrightarrow> emits c c'"
  by (auto simp: handlebars_compiler_push_params_def split: option.splits intro: efold_emits push_param_emits)

lemma setup_params_emits:
  assumes "handlebars_compiler_setup_full_mustache_params H acc n p i oe c = Inr c'" "guid_ok c p" "guid_ok c i"
  shows "emits c c'"
proof -
  obtain c1 where c1: "handlebars_compiler_push_params H acc (handlebars_ast_node_get_params n) c = Inr c1"
    using assms(1) by (auto simp: handlebars_compiler_setup_full_mustache_params_def)
  let ?c2 = "push_program_pair p i c1"
  have "emits c c1" by (rule push_params_emits [OF c1])
  also have "emits c1 ?c2"
    by (intro push_program_pair_emits guid_ok_mono [OF assms(2)] guid_ok_mono [OF assms(3)] \<open>emits c c1\<close>)
  also have "emits ?c2 c'"
    using assms(1) c1
    by (auto simp: handlebars_compiler_setup_full_mustache_params_def Let_def acc_emits OPB_emits OPN_emits
        split: option.splits)
  finally show ?thesis .
qed

lemma sexpr_simple_emits: "handlebars_compiler_accept_sexpr_simple acc n c = Inr c' \<Longrightarrow> emits c c'"
  by (auto simp: handlebars_compiler_accept_sexpr_simple_def OPN_emits split: option.splits
      intro: emits_trans [OF acc_emits OPN_emits])

lemma mark_emits: "acc (mark_path b n) c = Inr c' \<Longrightarrow> emits c c'"
  by (rule acc_emits)

lemma ambiguous_emits:
  assumes "handlebars_compiler_accept_sexpr_ambiguous acc n p i pn c = Inr c'" "guid_ok c p" "guid_ok c i"
  shows "emits c c'"
proof -
  obtain path where path: "handlebars_ast_node_get_path n = Some path"
    using assms(1) by (cases "handlebars_ast_node_get_path n") (auto simp: handlebars_compiler_accept_sexpr_ambiguous_def)
  obtain q where q: "nbody path = NODE_PATH q"
    using assms(1) path by (cases "nbody path") (auto simp: handlebars_compiler_accept_sexpr_ambiguous_def)
  let ?c1 = "OPL handlebars_opcode_type_get_context (ucast (path_depth q)) c"
  let ?c2 = "push_program_pair p i ?c1"
  obtain c3 where c3: "acc (mark_path False path) ?c2 = Inr c3" and last: "emits c3 c'"
    using assms(1) path q
    by (force simp: handlebars_compiler_accept_sexpr_ambiguous_def Let_def split: option.split_asm if_split_asm intro: opcode_with_emits)
  have e1: "emits c ?c1" by (simp add: OPL_emits)
  also have "emits ?c1 ?c2"
    by (intro push_program_pair_emits guid_ok_mono [OF assms(2) e1] guid_ok_mono [OF assms(3) e1])
  also have "emits ?c2 c3" by (rule acc_emits [OF c3])
  also note last
  finally show ?thesis .
qed

lemma helper_emits:
  assumes "handlebars_compiler_accept_sexpr_helper H acc n p i c = Inr c'" "guid_ok c p" "guid_ok c i"
  shows "emits c c'"
proof -
  obtain c1 where c1: "handlebars_compiler_setup_full_mustache_params H acc n p i False c = Inr c1"
    using assms(1) by (auto simp: handlebars_compiler_accept_sexpr_helper_def)
  obtain path where path: "handlebars_ast_node_get_path n = Some path"
    using assms(1) c1 by (cases "handlebars_ast_node_get_path n") (auto simp: handlebars_compiler_accept_sexpr_helper_def)
  obtain q where q: "nbody path = NODE_PATH q"
    using assms(1) c1 path by (cases "nbody path") (auto simp: handlebars_compiler_accept_sexpr_helper_def)
  have "emits c c1" by (rule setup_params_emits [OF c1 assms(2,3)])
  also have "emits c1 c'"
    using assms(1) c1 path q
    by (auto simp: handlebars_compiler_accept_sexpr_helper_def Let_def
        split: option.splits if_splits dest!: mark_emits intro!: emits_trans [OF _ opcode_with_emits])
  finally show ?thesis .
qed

lemma sexpr_emits:
  assumes "handlebars_compiler_accept_sexpr H acc n c = Inr c'"
  shows "emits c c'"
proof -
  obtain sexpr cls where "handlebars_compiler_classify_sexpr H c sexpr = Inr cls"
    and "(case cls of
         SEXPR_HELPER \<Rightarrow> handlebars_compiler_accept_sexpr_helper H acc sexpr (- 1) (- 1) c
       | SEXPR_SIMPLE \<Rightarrow> handlebars_compiler_accept_sexpr_simple acc sexpr c
       | SEXPR_AMBIG \<Rightarrow> handlebars_compiler_accept_sexpr_ambiguous acc sexpr (- 1) (- 1) None c) = Inr c'"
    using assms by (auto simp: handlebars_compiler_accept_sexpr_def)
  then show ?thesis
    by (cases cls) (auto dest: helper_emits [OF _ guid_none guid_none] sexpr_simple_emits
        ambiguous_emits [OF _ guid_none guid_none])
qed

lemma hash_pairs_emits:
  assumes "efold (\<lambda>x (keys, d).
      case nbody x of
        NODE_HASH_PAIR key v \<Rightarrow>
          (case v of
             None \<Rightarrow> Inl Assert_fail
           | Some n \<Rightarrow> ebind (handlebars_compiler_push_param H acc n d) (\<lambda>d'. Inr (keys @ [key], d')))
      | _ \<Rightarrow> Inl Assert_fail) ps (ks, c) = Inr (ks', c')"
  shows "emits c c'"
proof -
  have "emits c (snd (ks', c'))"
    by (rule efold_invariant [OF assms, of "\<lambda>(ks, d). emits c d", unfolded split_beta])
      (auto split: handlebars_ast_internals.split_asm option.split_asm dest!: push_param_emits intro: emits_trans)
  then show ?thesis by simp
qed

lemma hash_emits:
  assumes "handlebars_compiler_accept_hash H acc pairs c = Inr c'"
  shows "emits c c'"
proof -
  obtain ps where ps: "pairs = Some ps"
    using assms by (cases pairs) (auto simp: handlebars_compiler_accept_hash_def)
  let ?c0 = "OPN handlebars_opcode_type_push_hash c"
  obtain keys c1 c2 where c1: "efold (\<lambda>x (keys, d).
      case nbody x of
        NODE_HASH_PAIR key v \<Rightarrow>
          (case v of
             None \<Rightarrow> Inl Assert_fail
           | Some n \<Rightarrow> ebind (handlebars_compiler_push_param H acc n d) (\<lambda>d'. Inr (keys @ [key], d')))
      | _ \<Rightarrow> Inl Assert_fail) ps ([], ?c0) = Inr (keys, c1)"
    and c2: "efold (OPS handlebars_opcode_type_assign_to_hash) (rev keys) c1 = Inr c2"
    and c': "c' = OPN handlebars_opcode_type_pop_hash c2"
    using assms ps by (auto simp: handlebars_compiler_accept_hash_def)
  have "emits c ?c0" by (rule OPN_emits) simp
  also have "emits ?c0 c1" by (rule hash_pairs_emits [OF c1])
  also have "emits c1 c2" by (rule efold_emits [OF c2]) (auto dest: OPS_emits [rotated])
  also have "emits c2 c'" by (simp add: c' OPN_emits)
  finally show ?thesis .
qed

lemma accept_program_emits:
  assumes "handlebars_compiler_accept_program acc p c = Inr c'"
  shows "emits c c'"
proof -
  obtain stack where stack: "bps c = Some stack"
    using assms by (cases "bps c") (auto simp: handlebars_compiler_accept_program_def)
  let ?c1 = "c\<lparr>bps := Some ((prog_block_param1 p, prog_block_param2 p) # stack)\<rparr>"
  obtain c2 where fold: "efold acc (program_statements p) ?c1 = Inr c2" and c': "c' = leave_program p c2"
    using assms stack by (auto simp: handlebars_compiler_accept_program_def split: if_split_asm)
  have "emits ?c1 c2" by (rule efold_emits [OF fold acc_emits])
  then show ?thesis
    using stack by (auto simp: c' emits_def same_env_def)
qed

lemma register_decorator_emits:
  assumes "register_decorator H acc n original p i c = Inr c'" "guid_ok c p" "guid_ok c i"
  shows "emits c c'"
  using assms by (auto simp: register_decorator_def split: option.splits
      intro!: emits_trans [OF setup_params_emits opcode_with_emits])

lemma decorator_emits:
  assumes "handlebars_compiler_accept_decorator H acc n p i c = Inr c'" "guid_ok c p" "guid_ok c i"
  shows "emits c c'"
proof -
  let ?c1 = "add_result result_flag_use_decorators c"
  have e1: "emits c ?c1" by simp
  have g: "guid_ok ?c1 p" "guid_ok ?c1 i" using assms(2,3) by (simp_all add: guid_ok_def add_result_def)
  have "emits ?c1 c'"
    using assms(1) register_decorator_emits [OF _ g]
    by (auto simp: handlebars_compiler_accept_decorator_def Let_def split: option.splits if_splits)
  with e1 show ?thesis by (rule emits_trans)
qed

lemma mustache_emits:
  assumes "handlebars_compiler_accept_mustache H acc n m c = Inr c'"
  shows "emits c c'"
proof (cases "must_is_decorator m")
  case True
  with assms show ?thesis
    by (auto simp: handlebars_compiler_accept_mustache_def dest: decorator_emits [OF _ guid_none guid_none])
next
  case False
  then obtain c1 where c1: "handlebars_compiler_accept_sexpr H acc n c = Inr c1"
    and c': "c' = OPN handlebars_opcode_type_append_escaped c1 \<or> c' = OPN handlebars_opcode_type_append c1"
    using assms by (auto simp: handlebars_compiler_accept_mustache_def split: if_splits)
  show ?thesis using emits_trans [OF sexpr_emits [OF c1] OPN_emits] c' by auto
qed

lemma block_call_emits:
  assumes "accept_block_call H acc n p i ln c = Inr c'" "guid_ok c p" "guid_ok c i"
  shows "emits c c'"
proof -
  let ?hash = "\<lambda>c1. OPN handlebars_opcode_type_empty_hash (push_program_pair p i c1)"
  have hash: "emits c1 (?hash c1)" if "emits c c1" for c1
    by (intro emits_trans [OF push_program_pair_emits OPN_emits] guid_ok_mono [OF assms(2) that]
        guid_ok_mono [OF assms(3) that]) simp
  obtain cls c2 where c2: "(case cls of
              SEXPR_HELPER \<Rightarrow> handlebars_compiler_accept_sexpr_helper H acc n p i c
            | SEXPR_SIMPLE \<Rightarrow>
                ebind (handlebars_compiler_accept_sexpr_simple acc n c) (\<lambda>c1.
                  OPS handlebars_opcode_type_block_value (block_original n) (?hash c1))
            | SEXPR_AMBIG \<Rightarrow>
                ebind (handlebars_compiler_accept_sexpr_ambiguous acc n p i ln c) (\<lambda>c1.
                  Inr (OPN handlebars_opcode_type_ambiguous_block_value (?hash c1)))) = Inr c2"
    and c': "c' = OPN handlebars_opcode_type_append c2"
    using assms(1) by (auto simp: accept_block_call_def)
  have "emits c c2"
  proof (cases cls)
    case SEXPR_HELPER
    with c2 show ?thesis by (auto dest: helper_emits [OF _ assms(2,3)])
  next
    case SEXPR_SIMPLE
    then obtain c1 where "handlebars_compiler_accept_sexpr_simple acc n c = Inr c1"
      and l: "OPS handlebars_opcode_type_block_value (block_original n) (?hash c1) = Inr c2"
      using c2 by auto
    then have "emits c c1" by (auto dest: sexpr_simple_emits)
    moreover have "emits (?hash c1) c2" by (rule OPS_emits [OF _ l]) simp
    ultimately show ?thesis using hash emits_trans by blast
  next
    case SEXPR_AMBIG
    then obtain c1 where "handlebars_compiler_accept_sexpr_ambiguous acc n p i ln c = Inr c1"
      and l: "c2 = OPN handlebars_opcode_type_ambiguous_block_value (?hash c1)"
      using c2 by auto
    then have "emits c c1" by (auto dest: ambiguous_emits [OF _ assms(2,3)])
    from emits_trans [OF this hash [OF this]] have "emits c (?hash c1)" .
    with l show ?thesis by (auto intro!: emits_trans [OF _ OPN_emits])
  qed
  then show ?thesis using c' by (auto intro!: emits_trans [OF _ OPN_emits])
qed

lemma block_emits:
  assumes "handlebars_compiler_accept_block H acc n b c = Inr c'"
  shows "emits c c'"
proof -
  obtain block p c1 where c1: "handlebars_compiler_compile_program acc (block_program b) c = Inr (p, c1)"
    and r: "(if block_is_decorator b then handlebars_compiler_accept_decorator H acc block p (- 1) c1
       else
         ebind (handlebars_compiler_compile_program acc (block_inverse b) c1) (\<lambda>(i, c2).
           accept_block_call H acc block p i (compiled_program H c2 (block_program b)) c2)) = Inr c'"
    using assms by (auto simp: handlebars_compiler_accept_block_def simp del: split_paired_Ex)
  note e1 = compile_program_emits [OF c1]
  show ?thesis
  proof (cases "block_is_decorator b")
    case True
    with r show ?thesis using decorator_emits [OF _ e1(2) guid_none] emits_trans [OF e1(1)] by simp
  next
    case False
    then obtain i c2 where c2: "handlebars_compiler_compile_program acc (block_inverse b) c1 = Inr (i, c2)"
      and l: "accept_block_call H acc block p i (compiled_program H c2 (block_program b)) c2 = Inr c'"
      using r by auto
    note e2 = compile_program_emits [OF c2]
    show ?thesis
      by (rule emits_trans [OF emits_trans [OF e1(1) e2(1)] block_call_emits [OF l guid_ok_mono [OF e1(2) e2(1)] e2(2)]])
  qed
qed

lemma raw_block_emits:
  assumes "handlebars_compiler_accept_raw_block H acc n b c = Inr c'"
  shows "emits c c'"
proof -
  obtain block p c1 i c2 where c1: "handlebars_compiler_compile_program acc (block_program b) c = Inr (p, c1)"
    and c2: "handlebars_compiler_compile_program acc (block_inverse b) c1 = Inr (i, c2)"
    and l: "accept_block_call H acc block p i None c2 = Inr c'"
    using assms by (auto simp: handlebars_compiler_accept_raw_block_def)
  note e1 = compile_program_emits [OF c1] and e2 = compile_program_emits [OF c2]
  show ?thesis
    by (rule emits_trans [OF emits_trans [OF e1(1) e2(1)] block_call_emits [OF l guid_ok_mono [OF e1(2) e2(1)] e2(2)]])
qed

lemma partial_params_emits:
  assumes "accept_partial_params n ps c = Inr (n', c')"
  shows "emits c c'"
  using assms by (auto simp: accept_partial_params_def push_literal_emits split: if_split_asm)

lemma append_if_emits: "(if b then OPS handlebars_opcode_type_append_content t c else Inr c) = Inr c' \<Longrightarrow> emits c c'"
  by (cases b) (auto dest: OPS_emits [rotated])

lemma partial_name_kind: "partial_name_operand n = Inr x \<Longrightarrow> is_string x \<or> is_null x \<or> is_long x"
  by (auto simp: partial_name_operand_def split: option.splits if_splits)

lemma finish_partial_emits:
  assumes "finish_partial nm indent c = Inr c'"
  shows "emits c c'"
proof -
  obtain b c1 x where c1: "(if b then OPS handlebars_opcode_type_append_content indent c else Inr c) = Inr c1"
    and x: "(if ast_type nm = HANDLEBARS_AST_NODE_SEXPR then Inr (operand_null False) else partial_name_operand nm) = Inr x"
    and l: "c' = OPN handlebars_opcode_type_append (handlebars_compiler_opcode c1
        (opcode_with handlebars_opcode_type_invoke_partial (handlebars_operand_set_boolval (ast_type nm = HANDLEBARS_AST_NODE_SEXPR)) x
          (case indent of Some s \<Rightarrow> if b then str_operand [] else handlebars_operand_set_stringval s | None \<Rightarrow> str_operand [])
          (operand_null False)))"
    using assms unfolding finish_partial_def Let_def ebind_eq_Inr by (auto simp only: sum.inject simp_thms)
  have "is_string x \<or> is_null x \<or> is_long x" using x by (auto dest: partial_name_kind split: if_splits)
  then have "emits c1 c'"
    unfolding l by (intro emits_trans [OF opcode_with_emits OPN_emits]) (auto split: option.splits)
  then show ?thesis by (rule emits_trans [OF append_if_emits [OF c1]])
qed

lemma any_partial_emits:
  assumes "accept_any_partial H acc n name ps prog indent c = Inr c'"
  shows "emits c c'"
proof -
  obtain nm where nm: "name = Some nm"
    using assms by (cases name) (auto simp: accept_any_partial_def)
  let ?dyn = "ast_type nm = HANDLEBARS_AST_NODE_SEXPR"
  let ?c0 = "add_result result_flag_use_partial c"
  obtain n' c1 c2 g c3 c4 where c1: "accept_partial_params n ps ?c0 = Inr (n', c1)"
    and c2: "(if ?dyn then acc nm c1 else Inr c1) = Inr c2"
    and c3: "handlebars_compiler_compile_program acc prog c2 = Inr (g, c3)"
    and c4: "handlebars_compiler_setup_full_mustache_params H acc n' g (- 1) True c3 = Inr c4"
    and fin: "finish_partial nm indent c4 = Inr c'"
    using assms by (auto simp: nm accept_any_partial_def Let_def)
  have "emits c ?c0" by simp
  also have "emits ?c0 c1" by (rule partial_params_emits [OF c1])
  also have "emits c1 c2" by (rule acc_if_emits [OF c2])
  also have "emits c2 c3" by (rule compile_program_emits [OF c3])
  also have "emits c3 c4" by (rule setup_params_emits [OF c4 compile_program_emits(2) [OF c3] guid_none])
  also have "emits c4 c'" by (rule finish_partial_emits [OF fin])
  finally show ?thesis .
qed

lemma accept_switch_emits:
  "accept_switch H acc n c = Inr c' \<Longrightarrow> emits c c'"
  by (cases "nbody n")
    (auto simp: accept_switch_def handlebars_compiler_accept_partial_def handlebars_compiler_accept_partial_block_def
      dest: block_emits raw_block_emits mustache_emits sexpr_emits hash_emits accept_program_emits any_partial_emits
        accept_leaf_emits accept_path_emits)

end

section \<open>The walk\<close>

lemma handlebars_compiler_accept_emits: "handlebars_compiler_accept H k n c = Inr c' \<Longrightarrow> emits c c'"
proof (induction k arbitrary: n c c')
  case 0
  then show ?case by simp
next
  case (Suc k)
  obtain stack d where stack: "sns c = Some stack"
    and d: "accept_switch H (handlebars_compiler_accept H k) n (c\<lparr>sns := Some (nloc n # stack)\<rparr>) = Inr d"
    and c': "c' = d\<lparr>sns := map_option tl (sns d)\<rparr>"
    using Suc.prems by (auto split: option.split_asm if_split_asm)
  have "emits (c\<lparr>sns := Some (nloc n # stack)\<rparr>) d"
    by (rule acceptor.accept_switch_emits [OF acceptor.intro d]) (rule Suc.IH)
  then show ?case
    using stack c' by (auto simp: emits_def same_env_def)
qed

interpretation compiler_accept: acceptor "handlebars_compiler_accept H k" for H k
  by unfold_locales (rule handlebars_compiler_accept_emits)

end
