(* ===== verification/CompilerTotal.thy ===== *)
theory CompilerTotal
  imports CompilerProofs AstPrinterProofs
begin

text \<open>
  Which errors the compiler cannot return: it never runs out of the model's fuel, so every compilation ends, and
  it never throws its own stack overflow, whose test is off by one. Both follow from a bound on the two stacks,
  proved for the handlers in the locale \<open>bounded_acceptor\<close> and for the walk by induction on the fuel.
\<close>

section \<open>Errors that are excluded\<close>

definition overflow :: "hbs_error \<Rightarrow> bool" where
  "overflow e \<longleftrightarrow> e = Out_of_fuel \<or> (\<exists>s. e = Throw HANDLEBARS_STACK_OVERFLOW s)"

definition fine :: "hbs_error + 'a \<Rightarrow> bool" where
  "fine m \<longleftrightarrow> (\<forall>e. m = Inl e \<longrightarrow> \<not> overflow e)"

named_theorems fine_rules \<open>introduction rules for \<open>fine\<close>\<close>

lemma fine_Inr [simp, fine_rules]: "fine (Inr x)"
  by (simp add: fine_def)

lemma fine_Inl [simp]: "fine (Inl e) \<longleftrightarrow> \<not> overflow e"
  by (simp add: fine_def)

lemma overflow_simps [simp]:
  "\<not> overflow Mem_error" "\<not> overflow Assert_fail" "overflow Out_of_fuel"
  "overflow (Throw t s) \<longleftrightarrow> t = HANDLEBARS_STACK_OVERFLOW"
  by (auto simp: overflow_def)

lemma fine_bind [fine_rules]: "fine m \<Longrightarrow> (\<And>x. m = Inr x \<Longrightarrow> fine (f x)) \<Longrightarrow> fine (ebind m f)"
  by (cases m) auto

lemma fine_if [fine_rules]: "(b \<Longrightarrow> fine m) \<Longrightarrow> (\<not> b \<Longrightarrow> fine n) \<Longrightarrow> fine (if b then m else n)"
  by simp

lemma fine_option [fine_rules]:
  "(x = None \<Longrightarrow> fine m) \<Longrightarrow> (\<And>y. x = Some y \<Longrightarrow> fine (f y)) \<Longrightarrow> fine (case x of None \<Rightarrow> m | Some y \<Rightarrow> f y)"
  by (cases x) auto

lemma fine_pair [fine_rules]: "(\<And>a b. x = (a, b) \<Longrightarrow> fine (f a b)) \<Longrightarrow> fine (case x of (a, b) \<Rightarrow> f a b)"
  by (cases x) auto

lemma fine_efold:
  assumes "P s" "\<And>x s. x \<in> set xs \<Longrightarrow> P s \<Longrightarrow> fine (f x s)"
    and "\<And>x s t. x \<in> set xs \<Longrightarrow> P s \<Longrightarrow> f x s = Inr t \<Longrightarrow> P t"
  shows "fine (efold f xs s)"
  using assms
proof (induction xs arbitrary: s)
  case (Cons x xs)
  have "fine (f x s)" using Cons.prems by simp
  moreover have "fine (efold f xs t)" if "f x s = Inr t" for t
    using Cons.prems(1,2) Cons.prems(3) [OF _ Cons.prems(1) that] Cons.prems(3)
    by (intro Cons.IH) (auto, blast)
  ultimately show ?case by (auto intro: fine_bind)
qed simp

lemma fine_path: "(\<And>p. nbody n = NODE_PATH p \<Longrightarrow> fine (f p)) \<Longrightarrow> fine m \<Longrightarrow>
    fine (case nbody n of NODE_PATH p \<Rightarrow> f p | _ \<Rightarrow> m)"
  by (cases "nbody n") auto

section \<open>Leaves\<close>

lemma fine_get_id_part [fine_rules]: "fine (handlebars_ast_node_get_id_part n)"
  unfolding handlebars_ast_node_get_id_part_def
  by (auto simp: Let_def split: handlebars_ast_internals.split option.split list.split)

lemma fine_get_id_parts: "fine (handlebars_ast_node_get_id_parts n)"
proof (cases "nbody n")
  case (NODE_PATH p)
  have "fine (efold (\<lambda>x arr. case nbody x of
      NODE_PATH_SEGMENT part _ _ \<Rightarrow>
        (case part of None \<Rightarrow> Inl Mem_error | Some s \<Rightarrow> Inr (arr @ [handlebars_string_copy_ctor s]))
    | _ \<Rightarrow> Inr arr) ps as)" for ps as
    by (rule fine_efold [where P = "\<lambda>_. True"]) (auto split: handlebars_ast_internals.split option.split)
  then show ?thesis
    by (auto simp: handlebars_ast_node_get_id_parts_def NODE_PATH simp del: efold.simps split: option.split list.split
        intro!: fine_bind)
qed (simp_all add: handlebars_ast_node_get_id_parts_def)

lemma fine_id_parts [fine_rules]: "fine (id_parts n)"
  unfolding id_parts_def by (intro fine_rules fine_get_id_parts) simp

lemma fine_OPS [fine_rules]: "fine (OPS t s c)"
  unfolding OPS_def by (intro fine_rules) simp

lemma fine_block_param_index [fine_rules]: "fine (handlebars_compiler_block_param_index H c p)"
  unfolding handlebars_compiler_block_param_index_def by (intro fine_rules) simp

lemma fine_transform [fine_rules]: "fine (handlebars_compiler_transform_literal_to_path n)"
  unfolding handlebars_compiler_transform_literal_to_path_def by (intro fine_rules) simp_all

lemma fine_classify [fine_rules]: "fine (handlebars_compiler_classify_sexpr H c n)"
  unfolding handlebars_compiler_classify_sexpr_def Let_def by (intro fine_rules fine_path) simp_all

lemma fine_implode [fine_rules]: "fine (handlebars_string_implode s ps)"
  using implode_eq [of s ps] by auto

lemma fine_to_string [fine_rules]: "fine (handlebars_ast_to_string n)"
  using ast_to_string_contract [where n = n and c = new_printer]
  by (cases "ast_to_string_node n new_printer") (auto simp: handlebars_ast_to_string_def)

lemma fine_partial_name [fine_rules]: "fine (partial_name_operand n)"
  unfolding partial_name_operand_def by (intro fine_rules) simp

lemma fine_push_id [fine_rules]: "fine (push_id H n c)"
  unfolding push_id_def Let_def by (intro fine_rules fine_path) simp_all

lemma fine_accept_path [fine_rules]: "fine (handlebars_compiler_accept_path H n p c)"
  unfolding handlebars_compiler_accept_path_def Let_def by (intro fine_rules)

lemma fine_leaves [fine_rules]:
  "fine (handlebars_compiler_accept_content l c)" "fine (handlebars_compiler_accept_string l c)"
  "fine (handlebars_compiler_accept_number l c)" "fine (handlebars_compiler_accept_boolean l c)"
  "fine (handlebars_compiler_accept_nul c)" "fine (handlebars_compiler_accept_undefined c)"
  by (auto simp: handlebars_compiler_accept_content_def handlebars_compiler_accept_string_def
      handlebars_compiler_accept_number_def handlebars_compiler_accept_boolean_def handlebars_compiler_accept_nul_def
      handlebars_compiler_accept_undefined_def intro!: fine_rules split: option.split)

section \<open>Handlers\<close>

text \<open>Both stacks fit, and the source node stack has at least \<open>L\<close> elements.\<close>

definition deep :: "nat \<Rightarrow> compiler \<Rightarrow> bool" where
  "deep L c \<longleftrightarrow>
     (\<forall>s. sns c = Some s \<longrightarrow> L \<le> length s \<and> length s \<le> HANDLEBARS_COMPILER_STACK_SIZE) \<and>
     (\<forall>s. bps c = Some s \<longrightarrow> length s \<le> HANDLEBARS_COMPILER_STACK_SIZE)"

lemma deep_same: "deep L c \<Longrightarrow> same_env c c' \<Longrightarrow> deep L c'"
  by (simp add: deep_def same_env_def)

lemma same_env_trans [trans]: "same_env c d \<Longrightarrow> same_env d e \<Longrightarrow> same_env c e"
  by (simp add: same_env_def)

lemma push_program_pair_env: "same_env c (push_program_pair p i c)"
  by (simp add: push_program_pair_def Let_def OPN_def OPL_def handlebars_compiler_opcode_def same_env_def)

lemma deep_env: "deep L c \<Longrightarrow> emits c c' \<Longrightarrow> deep L c'"
  by (simp add: deep_def emits_def same_env_def)

lemma sns_env: "sns c \<noteq> None \<Longrightarrow> emits c c' \<Longrightarrow> sns c' \<noteq> None"
  by (simp add: emits_def same_env_def)

lemma deep_sub: "deep L c \<Longrightarrow> sns c \<noteq> None \<Longrightarrow> deep L (begin_compile (subcompiler_of c))"
  by (auto simp: deep_def begin_compile_def split: option.splits)

locale bounded_acceptor = acceptor +
  fixes L :: nat
  assumes acc_fine: "deep L c \<Longrightarrow> fine (acc n c)"
begin

lemma fine_acc_if: "deep L c \<Longrightarrow> fine (if b then acc n c else Inr c)"
  by (intro fine_rules acc_fine)

lemma fine_push_string_param:
  assumes "deep L c"
  shows "fine (push_string_param acc n c)"
proof -
  have e: "emits c (OPL handlebars_opcode_type_get_context w (if b then handlebars_compiler_add_depth d c else c))" for w b d
    by (rule emits_trans [of c "if b then handlebars_compiler_add_depth d c else c"]) (simp_all add: OPL_emits)
  show ?thesis
    unfolding push_string_param_def Let_def
    by (intro fine_rules acc_fine deep_env [OF assms emits_trans [OF e opcode_with_emits]]) simp_all
qed

lemma fine_push_param: "deep L c \<Longrightarrow> fine (handlebars_compiler_push_param H acc n c)"
  unfolding handlebars_compiler_push_param_def
  by (intro fine_rules fine_push_string_param acc_fine) (auto dest: deep_env [OF _ push_id_emits] split: if_split_asm)

lemma fine_push_params: "deep L c \<Longrightarrow> fine (handlebars_compiler_push_params H acc ns c)"
  unfolding handlebars_compiler_push_params_def
  by (intro fine_rules) (rule fine_efold [where P = "deep L"], auto intro: fine_push_param deep_env push_param_emits)

lemma fine_setup_params:
  assumes "deep L c"
  shows "fine (handlebars_compiler_setup_full_mustache_params H acc n p i oe c)"
  unfolding handlebars_compiler_setup_full_mustache_params_def Let_def
  by (intro fine_rules fine_push_params assms acc_fine)
    (auto intro: deep_same [OF deep_env [OF assms push_params_emits] push_program_pair_env])

lemma fine_ambiguous:
  assumes "deep L c" "guid_ok c p" "guid_ok c i"
  shows "fine (handlebars_compiler_accept_sexpr_ambiguous acc n p i pn c)"
  unfolding handlebars_compiler_accept_sexpr_ambiguous_def Let_def
proof (intro fine_rules fine_path acc_fine)
  fix w
  have e: "emits c (OPL handlebars_opcode_type_get_context w c)" by (simp add: OPL_emits)
  show "deep L (push_program_pair p i (OPL handlebars_opcode_type_get_context w c))"
    by (rule deep_env [OF assms(1) emits_trans [OF e push_program_pair_emits]])
      (rule guid_ok_mono [OF assms(2) e] guid_ok_mono [OF assms(3) e])+
qed simp_all

lemma fine_sexpr_simple: "deep L c \<Longrightarrow> fine (handlebars_compiler_accept_sexpr_simple acc n c)"
  unfolding handlebars_compiler_accept_sexpr_simple_def by (intro fine_rules acc_fine)

lemma fine_helper:
  assumes "deep L c" "guid_ok c p" "guid_ok c i"
  shows "fine (handlebars_compiler_accept_sexpr_helper H acc n p i c)"
  unfolding handlebars_compiler_accept_sexpr_helper_def Let_def
  by (intro fine_rules fine_path acc_fine fine_setup_params assms)
    (auto intro: deep_env [OF assms(1)] setup_params_emits [OF _ assms(2,3)])

lemma fine_sexpr: "deep L c \<Longrightarrow> fine (handlebars_compiler_accept_sexpr H acc n c)"
  unfolding handlebars_compiler_accept_sexpr_def
  by (intro fine_rules)
    (auto split: handlebars_compiler_sexpr_type.split intro: fine_helper fine_sexpr_simple fine_ambiguous)

lemma fine_hash_pairs:
  assumes "deep L c"
  shows "fine (efold (\<lambda>x (keys, d).
      case nbody x of
        NODE_HASH_PAIR key v \<Rightarrow>
          (case v of
             None \<Rightarrow> Inl Assert_fail
           | Some n \<Rightarrow> ebind (handlebars_compiler_push_param H acc n d) (\<lambda>d'. Inr (keys @ [key], d')))
      | _ \<Rightarrow> Inl Assert_fail) ps (ks, c))"
  by (rule fine_efold [where P = "\<lambda>(ks, c). deep L c"])
    (use assms in \<open>auto split: handlebars_ast_internals.split handlebars_ast_internals.split_asm option.split
       option.split_asm intro!: fine_bind fine_push_param intro: deep_env [OF _ push_param_emits]\<close>)

lemma fine_hash: "deep L c \<Longrightarrow> fine (handlebars_compiler_accept_hash H acc pairs c)"
  unfolding handlebars_compiler_accept_hash_def
  by (intro fine_rules fine_hash_pairs fine_efold [where P = "\<lambda>_. True"]) (auto intro!: deep_env [OF _ OPN_emits] fine_OPS)

lemma fine_program: "deep L c \<Longrightarrow> fine (handlebars_compiler_accept_program acc p c)"
proof -
  assume c: "deep L c"
  have "fine (efold acc ns (c\<lparr>bps := Some (x # st)\<rparr>))"
    if "bps c = Some st" "length st < HANDLEBARS_COMPILER_STACK_SIZE" for ns x st
  proof (rule fine_efold [where P = "deep L"])
    show "deep L (c\<lparr>bps := Some (x # st)\<rparr>)" using c that by (simp add: deep_def)
  qed (auto intro: acc_fine deep_env acc_emits)
  with c show ?thesis
    unfolding handlebars_compiler_accept_program_def Let_def
    by (intro fine_rules) (auto simp: deep_def)
qed

lemma fine_register_decorator:
  "deep L c \<Longrightarrow> fine (register_decorator H acc n original p i c)"
  unfolding register_decorator_def by (intro fine_rules fine_setup_params) simp_all

lemma deep_ctor: "deep L handlebars_compiler_ctor"
  by (simp add: deep_def handlebars_compiler_ctor_def)

lemma deep_add_result: "deep L c \<Longrightarrow> deep L (add_result f c)"
  by (simp add: deep_def add_result_def)

lemma fine_decorator: "deep L c \<Longrightarrow> fine (handlebars_compiler_accept_decorator H acc n p i c)"
  unfolding handlebars_compiler_accept_decorator_def Let_def
  by (intro fine_rules fine_register_decorator deep_ctor deep_add_result) simp_all

lemma fine_mustache: "deep L c \<Longrightarrow> fine (handlebars_compiler_accept_mustache H acc n m c)"
  unfolding handlebars_compiler_accept_mustache_def by (intro fine_rules fine_decorator fine_sexpr)

lemma fine_compile_program:
  "deep L c \<Longrightarrow> sns c \<noteq> None \<Longrightarrow> fine (handlebars_compiler_compile_program acc n c)"
  unfolding handlebars_compiler_compile_program_def by (intro fine_rules acc_fine deep_sub) simp_all

lemma fine_block_call:
  assumes "deep L c" "guid_ok c p" "guid_ok c i"
  shows "fine (accept_block_call H acc n p i ln c)"
proof -
  have "fine (case cls of SEXPR_HELPER \<Rightarrow> handlebars_compiler_accept_sexpr_helper H acc n p i c
      | SEXPR_SIMPLE \<Rightarrow> ebind (handlebars_compiler_accept_sexpr_simple acc n c) f
      | SEXPR_AMBIG \<Rightarrow> ebind (handlebars_compiler_accept_sexpr_ambiguous acc n p i ln c) g)"
    if "\<And>c. fine (f c)" "\<And>c. fine (g c)" for cls f g
    using that assms by (cases cls) (auto intro!: fine_bind fine_helper fine_sexpr_simple fine_ambiguous)
  then show ?thesis unfolding accept_block_call_def by (intro fine_rules) (simp add: fine_rules)
qed

lemma fine_block:
  assumes "deep L c" "sns c \<noteq> None"
  shows "fine (handlebars_compiler_accept_block H acc n b c)"
  unfolding handlebars_compiler_accept_block_def
proof (intro fine_rules fine_compile_program assms)
  fix x c1 p block assume "x = (p, c1)" "handlebars_compiler_compile_program acc (block_program b) c = Inr x"
  then have e: "emits c c1" "guid_ok c1 p" using compile_program_emits by auto
  note d = deep_env [OF assms(1) e(1)] sns_env [OF assms(2) e(1)]
  show "fine (handlebars_compiler_accept_decorator H acc block p (- 1) c1)" by (rule fine_decorator [OF d(1)])
  show "deep L c1" "sns c1 \<noteq> None" by (rule d)+
  fix y c2 i assume "y = (i, c2)" "handlebars_compiler_compile_program acc (block_inverse b) c1 = Inr y"
  then have e2: "emits c1 c2" "guid_ok c2 i" using compile_program_emits by auto
  show "fine (accept_block_call H acc block p i (compiled_program H c2 (block_program b)) c2)"
    by (rule fine_block_call [OF deep_env [OF d(1) e2(1)] guid_ok_mono [OF e(2) e2(1)] e2(2)])
qed

lemma fine_raw_block:
  assumes "deep L c" "sns c \<noteq> None"
  shows "fine (handlebars_compiler_accept_raw_block H acc n b c)"
  unfolding handlebars_compiler_accept_raw_block_def
proof (intro fine_rules fine_compile_program assms)
  fix x c1 p block assume "x = (p, c1)" "handlebars_compiler_compile_program acc (block_program b) c = Inr x"
  then have e: "emits c c1" "guid_ok c1 p" using compile_program_emits by auto
  note d = deep_env [OF assms(1) e(1)] sns_env [OF assms(2) e(1)]
  show "deep L c1" "sns c1 \<noteq> None" by (rule d)+
  fix y c2 i assume "y = (i, c2)" "handlebars_compiler_compile_program acc (block_inverse b) c1 = Inr y"
  then have e2: "emits c1 c2" "guid_ok c2 i" using compile_program_emits by auto
  show "fine (accept_block_call H acc block p i None c2)"
    by (rule fine_block_call [OF deep_env [OF d(1) e2(1)] guid_ok_mono [OF e(2) e2(1)] e2(2)])
qed

lemma fine_partial_params: "fine (accept_partial_params n ps c)"
  unfolding accept_partial_params_def by (intro fine_rules) simp

lemma fine_finish_partial: "fine (finish_partial n t c)"
  unfolding finish_partial_def Let_def by (intro fine_rules)

lemma fine_any_partial:
  assumes "deep L c" "sns c \<noteq> None"
  shows "fine (accept_any_partial H acc n name ps prog indent c)"
  unfolding accept_any_partial_def Let_def
proof (intro fine_acc_if fine_rules fine_partial_params fine_finish_partial fine_compile_program fine_setup_params)
  let ?c0 = "add_result result_flag_use_partial c"
  have e0: "emits c ?c0" by simp
  fix nm x n1 c1 c2
  assume "x = (n1, c1)" "accept_partial_params n ps ?c0 = Inr x"
  then have e1: "emits c c1" using emits_trans [OF e0 partial_params_emits] by simp
  show "deep L c1" by (rule deep_env [OF assms(1) e1])
  assume "(if ast_type nm = HANDLEBARS_AST_NODE_SEXPR then acc nm c1 else Inr c1) = Inr c2"
  then have e2: "emits c c2" using emits_trans [OF e1 acc_if_emits] by blast
  show "deep L c2" "sns c2 \<noteq> None" by (rule deep_env [OF assms(1) e2] sns_env [OF assms(2) e2])+
  fix y g c3 assume "y = (g, c3)" "handlebars_compiler_compile_program acc prog c2 = Inr y"
  then have "emits c c3" using emits_trans [OF e2 compile_program_emits(1)] by simp
  then show "deep L c3" by (rule deep_env [OF assms(1)])
qed simp_all

lemma fine_switch:
  assumes "deep L c" "sns c \<noteq> None"
  shows "fine (accept_switch H acc n c)"
  using assms
  by (cases "nbody n")
    (auto simp: accept_switch_def handlebars_compiler_accept_partial_def handlebars_compiler_accept_partial_block_def
      intro: fine_rules fine_block fine_raw_block fine_mustache fine_sexpr fine_hash fine_program fine_any_partial)

end

section \<open>The walk\<close>

lemma handlebars_compiler_accept_fine:
  "0 < k \<Longrightarrow> deep (HANDLEBARS_COMPILER_STACK_SIZE + 1 - k) c \<Longrightarrow> fine (handlebars_compiler_accept H k n c)"
proof (induction k arbitrary: n c)
  case 0
  then show ?case by simp
next
  case (Suc k)
  show ?case
    unfolding handlebars_compiler_accept.simps
  proof (intro fine_rules)
    fix st
    assume st: "sns c = Some st" "\<not> HANDLEBARS_COMPILER_STACK_SIZE < length st" "length st \<noteq> HANDLEBARS_COMPILER_STACK_SIZE"
    let ?L = "HANDLEBARS_COMPILER_STACK_SIZE + 1 - k"
    have k: "0 < k" and d: "deep ?L (c\<lparr>sns := Some (nloc n # st)\<rparr>)"
      using st Suc.prems by (auto simp: deep_def)
    show "fine (accept_switch H (handlebars_compiler_accept H k) n (c\<lparr>sns := Some (nloc n # st)\<rparr>))"
      by (rule bounded_acceptor.fine_switch [OF _ d])
        (auto intro!: bounded_acceptor.intro acceptor.intro bounded_acceptor_axioms.intro handlebars_compiler_accept_emits Suc.IH [OF k])
  qed (use Suc.prems in \<open>auto simp: deep_def\<close>)
qed

interpretation bounded_accept: bounded_acceptor "handlebars_compiler_accept H (Suc k)" "HANDLEBARS_COMPILER_STACK_SIZE - k" for H k
  by unfold_locales (use handlebars_compiler_accept_fine [of "Suc k"] in simp)

section \<open>Programs\<close>

text \<open>The number of children fits a \<open>long\<close> everywhere.\<close>

fun small_program :: "handlebars_program \<Rightarrow> bool" where
  "small_program (handlebars_program g fl rf bp opcs kids decs) \<longleftrightarrow>
     length kids < 2 ^ 63 \<and> (\<forall>k \<in> set kids. small_program k)"

lemma refs_op_wf:
  assumes "refs_op b (int n) opc" "n < 2 ^ 63"
  shows "wf_opcode n opc"
proof (cases "otype opc = handlebars_opcode_type_push_program")
  case True
  have "sint (word_of_int g :: u64) = g" if "0 \<le> g" "g < int n" for g
    using that assms(2) by (simp add: sint_sbintrunc' signed_take_bit_int_eq_self)
  then show ?thesis
    using assms(1) True by (auto simp: refs_op_def wf_opcode_def split: handlebars_operand.splits)
qed (simp add: wf_opcode_def)

lemma refs_program_wf: "refs_program b p \<Longrightarrow> small_program p \<Longrightarrow> wf_program p"
proof (induction p)
  case (handlebars_program g fl rf bp opcs kids decs)
  then show ?case by (auto intro: refs_op_wf)
qed

lemma compile_emits:
  assumes "handlebars_compiler_compile H c n = Inr c'"
  shows "\<exists>d. emits (begin_compile c) d \<and> c' = d\<lparr>bps := None, sns := None\<rparr>"
  using assms by (auto simp: handlebars_compiler_compile_def dest: handlebars_compiler_accept_emits)

lemma compile_ex_refs:
  assumes "handlebars_compiler_compile_ex H (handlebars_compiler_set_flags handlebars_compiler_ctor fl) n = Inr p"
  shows "refs_program (fl AND flag_mustache_style_lambdas \<noteq> 0) p"
proof -
  let ?c = "handlebars_compiler_set_flags handlebars_compiler_ctor fl"
  obtain c' where c': "handlebars_compiler_compile H ?c n = Inr c'" "p = handlebars_compiler_get_program c'"
    using assms by (auto simp: handlebars_compiler_compile_ex_def)
  obtain d where d: "emits (begin_compile ?c) d" "c' = d\<lparr>bps := None, sns := None\<rparr>"
    using compile_emits [OF c'(1)] by blast
  have "refs_program (lambda_mode (begin_compile ?c)) (handlebars_compiler_get_program d)"
    by (rule emits_program [OF d(1)]) (simp_all add: handlebars_compiler_set_flags_def handlebars_compiler_ctor_def)
  moreover have "lambda_mode (begin_compile ?c) = (fl AND flag_mustache_style_lambdas \<noteq> 0)"
    using subcompiler_lambdas [of "handlebars_compiler_ctor\<lparr>cflags := fl\<rparr>"]
    by (simp add: flag_on_def subcompiler_of_def handlebars_compiler_get_flags_def)
  ultimately show ?thesis by (simp add: c' d handlebars_compiler_get_program_def)
qed

section \<open>Deep nesting\<close>

text \<open>The calls \<open>(f (f ... (f a)))\<close>, and the template with one of them.\<close>

definition word_path :: "string \<Rightarrow> node" where
  "word_path w = ast_node 0 no_loc (NODE_PATH (ast_path (Some (handlebars_string_ctor w))
     (Some [ast_node 0 no_loc (NODE_PATH_SEGMENT (Some (handlebars_string_ctor w)) None (Some (handlebars_string_ctor w)))])
     0 False False False))"

fun nested_call :: "nat \<Rightarrow> node" where
  "nested_call 0 = word_path ''a''"
| "nested_call (Suc k) =
     ast_node 0 no_loc (NODE_SEXPR (ast_sexpr (Some (word_path ''f'')) (Some [nested_call k]) None))"

definition nested_template :: "nat \<Rightarrow> node" where
  "nested_template k =
     ast_node 0 no_loc (NODE_PROGRAM (ast_program
       (Some [ast_node 0 no_loc (NODE_MUSTACHE (ast_mustache (Some (word_path ''f'')) (Some [nested_call k]) None 0 False))])
       None None False))"

lemma word_path_simps [simp]:
  "ast_type (word_path w) = HANDLEBARS_AST_NODE_PATH"
  "nbody (word_path w) = NODE_PATH (ast_path (Some (handlebars_string_ctor w))
     (Some [ast_node 0 no_loc (NODE_PATH_SEGMENT (Some (handlebars_string_ctor w)) None (Some (handlebars_string_ctor w)))])
     0 False False False)"
  "handlebars_ast_node_get_id_part (word_path w) = Inr (Some (handlebars_string_ctor w))"
  by (simp_all add: word_path_def handlebars_ast_node_get_id_part_def)

lemma no_block_param: "list_all ((=) (None, None)) st \<Longrightarrow> find_block_param H w st i = None"
  by (induction st arbitrary: i) (auto simp: list_all_iff)

text \<open>A compiler without options, below blocks without parameters.\<close>

definition plain :: "compiler \<Rightarrow> bool" where
  "plain c \<longleftrightarrow> cflags c = 0 \<and> (\<exists>st. bps c = Some st \<and> list_all ((=) (None, None)) st)"

lemma classify_call:
  assumes "plain c" "handlebars_ast_node_get_path n = Some (word_path w)" "handlebars_ast_helper_helper_expression n"
  shows "handlebars_compiler_classify_sexpr H c n = Inr SEXPR_HELPER"
proof -
  obtain st where st: "bps c = Some st" "list_all ((=) (None, None)) st" using assms(1) by (auto simp: plain_def)
  then have "handlebars_compiler_block_param_index H c (Some (handlebars_string_ctor w)) = Inr None"
    by (simp add: handlebars_compiler_block_param_index_def no_block_param)
  then show ?thesis
    by (simp add: handlebars_compiler_classify_sexpr_def assms(2,3) Let_def) (rule exI [of _ False], simp)
qed

lemma call_fails:
  assumes "plain c" "handlebars_ast_node_get_path n = Some (word_path w)" "handlebars_ast_helper_helper_expression n"
    and "handlebars_ast_node_get_params n = Some [x]" "acc x c = Inl Mem_error"
  shows "handlebars_compiler_accept_sexpr H acc n c = Inl Mem_error"
proof -
  have "handlebars_compiler_transform_literal_to_path n = Inr n"
    using assms(2) by (simp add: handlebars_compiler_transform_literal_to_path_def is_literal_type_def)
  moreover have "handlebars_compiler_push_param H acc x c = Inl Mem_error"
    using assms(1,5) by (simp add: handlebars_compiler_push_param_def flag_on_def plain_def)
  ultimately show ?thesis
    using assms(4)
    by (simp add: handlebars_compiler_accept_sexpr_def classify_call [OF assms(1-3)]
        handlebars_compiler_accept_sexpr_helper_def handlebars_compiler_setup_full_mustache_params_def
        handlebars_compiler_push_params_def)
qed

lemma accept_step:
  "sns c = Some st \<Longrightarrow> length st < 64 \<Longrightarrow> handlebars_compiler_accept H (Suc k) n c =
   ebind (accept_switch H (handlebars_compiler_accept H k) n (c\<lparr>sns := Some (nloc n # st)\<rparr>)) (\<lambda>c'.
     Inr (c'\<lparr>sns := map_option tl (sns c')\<rparr>))"
  by (simp add: HANDLEBARS_COMPILER_STACK_SIZE_def)

lemma nested_call_fails:
  "plain c \<Longrightarrow> sns c = Some st \<Longrightarrow> length st \<le> 64 \<Longrightarrow> 64 \<le> length st + k \<Longrightarrow> 64 < length st + fuel \<Longrightarrow>
   handlebars_compiler_accept H fuel (nested_call k) c = Inl Mem_error"
proof (induction k arbitrary: c st fuel)
  case 0
  then show ?case by (cases fuel) (simp_all add: HANDLEBARS_COMPILER_STACK_SIZE_def)
next
  case (Suc k)
  then obtain f where f: "fuel = Suc f" by (cases fuel) auto
  show ?case
  proof (cases "length st = 64")
    case True
    then show ?thesis using Suc.prems f by (simp add: HANDLEBARS_COMPILER_STACK_SIZE_def)
  next
    case False
    let ?n = "nested_call (Suc k)" and ?c = "c\<lparr>sns := Some (no_loc # st)\<rparr>"
    have c: "plain ?c" using Suc.prems(1) by (simp add: plain_def)
    have "handlebars_compiler_accept H f (nested_call k) ?c = Inl Mem_error"
      using Suc.prems False f by (intro Suc.IH [OF c, where st = "no_loc # st"]) simp_all
    then have "handlebars_compiler_accept_sexpr H (handlebars_compiler_accept H f) ?n ?c = Inl Mem_error"
      by (intro call_fails [OF c])
        (simp_all add: handlebars_ast_node_get_path_def handlebars_ast_node_get_params_def handlebars_ast_helper_helper_expression_def)
    then show ?thesis
      using Suc.prems False f by (simp add: HANDLEBARS_COMPILER_STACK_SIZE_def accept_switch_def)
  qed
qed

text \<open>The template \<open>{{#> p}}x{{/p}}\<close>.\<close>

definition sample_template :: node where
  "sample_template = ast_node 0 no_loc (NODE_PROGRAM (ast_program (Some
     [ast_node 0 no_loc (NODE_PARTIAL_BLOCK (ast_block (Some (word_path ''p'')) None None
        (Some (ast_node 0 no_loc (NODE_PROGRAM (ast_program (Some
           [handlebars_ast_node_ctor_content (handlebars_string_ctor ''x'') no_loc]) None None False))))
        None 0 0 0 False))])
     None None False))"

definition sample_compiled :: "hbs_error + handlebars_program" where
  "sample_compiled =
     handlebars_compiler_compile_ex (\<lambda>_. 0) (handlebars_compiler_set_flags handlebars_compiler_ctor 0) sample_template"

lemma sample_compiles: "case sample_compiled of Inl e \<Rightarrow> False | Inr p \<Rightarrow> small_program p"
proof -
  obtain f where f: "ACCEPT_FUEL = Suc (Suc (Suc (Suc f)))"
    by (simp add: ACCEPT_FUEL_def HANDLEBARS_COMPILER_STACK_SIZE_def)
  let ?c = "begin_compile (handlebars_compiler_set_flags handlebars_compiler_ctor 0)"
  have env: "bps ?c = Some []" "sns ?c = Some []" "cflags ?c = 0" "cchildren ?c = []"
    by (simp_all add: begin_compile_def handlebars_compiler_set_flags_def handlebars_compiler_ctor_def)
  have "\<exists>d. handlebars_compiler_accept (\<lambda>_. 0) ACCEPT_FUEL sample_template ?c = Inr d \<and>
      (\<exists>p. cchildren d = [p] \<and> small_program p)"
    using env
    by (simp add: f sample_template_def accept_step accept_switch_def handlebars_compiler_accept_program_def
        HANDLEBARS_COMPILER_STACK_SIZE_def program_statements_def handlebars_compiler_accept_partial_block_def
        accept_any_partial_def accept_partial_params_def ast_list_count_def flag_on_def add_result_def
        handlebars_compiler_compile_program_def begin_compile_def subcompiler_of_def handlebars_compiler_set_flags_def
        handlebars_compiler_ctor_def handlebars_ast_node_ctor_content_def with_loc_def
        handlebars_compiler_accept_content_def OPS_def handlebars_compiler_opcode_def append_child_def leave_program_def
        handlebars_compiler_setup_full_mustache_params_def set_args_def handlebars_ast_node_get_params_def
        handlebars_ast_node_get_hash_def handlebars_compiler_push_params_def handlebars_compiler_push_param_def
        empty_path_def handlebars_compiler_accept_path_def handlebars_ast_node_get_id_part_def finish_partial_def
        push_program_pair_def OPN_def OPL_def OPB_def partial_name_operand_def hbs_str_len_def
        handlebars_ast_node_get_string_mode_value_def handlebars_compiler_block_param_index_def
        handlebars_compiler_add_depth_def handlebars_ast_helper_scoped_id_def Let_def
        handlebars_compiler_get_program_def handlebars_compiler_get_flags_def
        del: handlebars_compiler_accept.simps)
  then show ?thesis
    by (auto simp: sample_compiled_def handlebars_compiler_compile_ex_def handlebars_compiler_compile_def
        handlebars_compiler_get_program_def)
qed

text \<open>An ambiguous call, compiled for mustache-style lambdas.\<close>

definition lambda_tree :: node where
  "lambda_tree = ast_node 0 no_loc (NODE_PROGRAM (ast_program (Some [ast_node 0 no_loc
     (NODE_MUSTACHE (ast_mustache (Some (word_path ''a'')) (Some []) None 0 False))]) None None False))"

definition lambda_sample :: "hbs_error + handlebars_program" where
  "lambda_sample = handlebars_compiler_compile_ex (\<lambda>_. 0)
     (handlebars_compiler_set_flags handlebars_compiler_ctor flag_mustache_style_lambdas) lambda_tree"

lemma lambda_samples_compile:
  "case lambda_sample of
     Inr p \<Rightarrow> list_ex (\<lambda>opc. otype opc = handlebars_opcode_type_invoke_ambiguous) (opcodes p) | Inl _ \<Rightarrow> False"
  "case handlebars_compiler_compile_ex (\<lambda>_. 0) (handlebars_compiler_set_flags handlebars_compiler_ctor 0) lambda_tree of
     Inr p \<Rightarrow> list_ex (\<lambda>opc. otype opc = handlebars_opcode_type_invoke_ambiguous \<and> op3 opc = operand_null False) (opcodes p)
   | Inl _ \<Rightarrow> False"
  by code_simp+

section \<open>Properties\<close>

text \<open>C15. Compiling always ends, whatever the tree: the bound on the source node stack bounds the recursion. But the two
  stack overflow errors are never thrown, since the stacks are full before their tests can fire.\<close>
theorem compile_terminates:
  "handlebars_compiler_compile H (handlebars_compiler_set_flags handlebars_compiler_ctor fl) n \<noteq> Inl Out_of_fuel \<and>
   handlebars_compiler_compile H (handlebars_compiler_set_flags handlebars_compiler_ctor fl) n \<noteq>
     Inl (Throw HANDLEBARS_STACK_OVERFLOW msg)"
proof -
  let ?c = "begin_compile (handlebars_compiler_set_flags handlebars_compiler_ctor fl)"
  have "deep (HANDLEBARS_COMPILER_STACK_SIZE + 1 - ACCEPT_FUEL) ?c"
    by (simp add: deep_def begin_compile_def handlebars_compiler_set_flags_def handlebars_compiler_ctor_def ACCEPT_FUEL_def)
  then have "fine (handlebars_compiler_accept H ACCEPT_FUEL n ?c)"
    by (intro handlebars_compiler_accept_fine) (simp_all add: ACCEPT_FUEL_def)
  then show ?thesis
    by (cases "handlebars_compiler_accept H ACCEPT_FUEL n ?c") (auto simp: handlebars_compiler_compile_def)
qed

text \<open>C16. A template whose calls are nested 62 deep or deeper makes the compiler write behind its source node stack: the
  array has 64 elements and the test lets the index 64 through.\<close>
theorem compile_stack_overrun:
  assumes "62 \<le> k"
  shows "handlebars_compiler_compile H handlebars_compiler_ctor (nested_template k) = Inl Mem_error"
proof -
  let ?m = "ast_node 0 no_loc (NODE_MUSTACHE (ast_mustache (Some (word_path ''f'')) (Some [nested_call k]) None 0 False))"
  let ?c = "(begin_compile handlebars_compiler_ctor)\<lparr>bps := Some [(None, None)], sns := Some [no_loc, no_loc]\<rparr>"
  have c: "plain ?c" by (simp add: plain_def begin_compile_def handlebars_compiler_ctor_def)
  obtain f where fuel: "ACCEPT_FUEL = Suc (Suc f)" and f: "f = 63"
    by (simp add: ACCEPT_FUEL_def HANDLEBARS_COMPILER_STACK_SIZE_def)
  have "handlebars_compiler_accept H f (nested_call k) ?c = Inl Mem_error"
    using assms by (intro nested_call_fails [OF c, where st = "[no_loc, no_loc]"]) (simp_all add: f)
  then have "handlebars_compiler_accept_sexpr H (handlebars_compiler_accept H f) ?m ?c = Inl Mem_error"
    by (intro call_fails [OF c])
      (simp_all add: handlebars_ast_node_get_path_def handlebars_ast_node_get_params_def handlebars_ast_helper_helper_expression_def)
  then have "handlebars_compiler_accept H (Suc f) ?m (?c\<lparr>sns := Some [no_loc]\<rparr>) = Inl Mem_error"
    by (simp add: accept_step accept_switch_def handlebars_compiler_accept_mustache_def del: handlebars_compiler_accept.simps)
  then have "handlebars_compiler_accept H (Suc (Suc f)) (nested_template k) (begin_compile handlebars_compiler_ctor) = Inl Mem_error"
    by (simp add: accept_step nested_template_def accept_switch_def handlebars_compiler_accept_program_def
        program_statements_def begin_compile_def handlebars_compiler_ctor_def HANDLEBARS_COMPILER_STACK_SIZE_def
        del: handlebars_compiler_accept.simps)
  then show ?thesis by (simp add: handlebars_compiler_compile_def fuel del: handlebars_compiler_accept.simps)
qed

text \<open>The bound is reached for 62 calls.\<close>
theorem compile_stack_overrun_witness:
  "handlebars_compiler_compile (\<lambda>_. 0) handlebars_compiler_ctor (nested_template 62) = Inl Mem_error"
  by (rule compile_stack_overrun) simp

end
