(* ===== verification/Whitespace.thy ===== *)
theory Whitespace
  imports AstHelpers Scanners
begin

text \<open>
  Whitespace control (src/handlebars_whitespace.c): the parser calls it on the finished tree to apply the \<open>~\<close>
  flags and to remove the lines that hold nothing but a standalone tag.

  The code works on the nodes in place and finds a statement in its list by its address. Here a statement is
  named by its index (\<open>None\<close> is the NULL statement), a function that trims a neighbour returns the list, and
  \<open>seen\<close> is the parser's \<open>whitespace_root_seen\<close>. The recursion over the tree has fuel, because a program's
  statements change while the loop visits them.
\<close>

section \<open>Neighbours\<close>

definition next_index :: "nat option \<Rightarrow> nat \<Rightarrow> nat option" where
  "next_index st n =
     (case st of
        None \<Rightarrow> if 0 < n then Some 0 else None
      | Some i \<Rightarrow> if i + 1 < n then Some (i + 1) else None)"

definition prev_index :: "nat option \<Rightarrow> nat \<Rightarrow> nat option" where
  "prev_index st n =
     (case st of
        None \<Rightarrow> if 0 < n then Some (n - 1) else None
      | Some i \<Rightarrow> if 0 < i \<and> i < n then Some (i - 1) else None)"

definition content_test :: "(string \<Rightarrow> bool \<Rightarrow> bool) \<Rightarrow> bool \<Rightarrow> node \<Rightarrow> hbs_error + bool" where
  "content_test scan def n =
     (case nbody n of
        NODE_CONTENT l \<Rightarrow>
          (case lit_original l of None \<Rightarrow> Inl Mem_error | Some s \<Rightarrow> Inr (scan (sval s) def))
      | _ \<Rightarrow> Inr False)"

definition handlebars_whitespace_is_next_whitespace ::
    "node list option \<Rightarrow> nat option \<Rightarrow> bool \<Rightarrow> hbs_error + bool" where
  "handlebars_whitespace_is_next_whitespace statements st is_root =
     (case statements of
        None \<Rightarrow> Inr is_root
      | Some xs \<Rightarrow>
          (case next_index st (length xs) of
             None \<Rightarrow> Inr is_root
           | Some j \<Rightarrow> content_test handlebars_scanner_next_whitespace (\<not> j + 1 < length xs \<and> is_root) (xs ! j)))"

definition handlebars_whitespace_is_prev_whitespace ::
    "node list option \<Rightarrow> nat option \<Rightarrow> bool \<Rightarrow> hbs_error + bool" where
  "handlebars_whitespace_is_prev_whitespace statements st is_root =
     (case statements of
        None \<Rightarrow> Inr is_root
      | Some xs \<Rightarrow>
          (case prev_index st (length xs) of
             None \<Rightarrow> Inr is_root
           | Some j \<Rightarrow> content_test handlebars_scanner_prev_whitespace (\<not> 0 < j \<and> is_root) (xs ! j)))"

section \<open>Trimming\<close>

definition blanks :: string where "blanks = [CHR '' '', CHR 0x09]"
definition spaces :: string where "spaces = [CHR '' '', CHR 0x0B, CHR 0x09, CHR 0x0D, newline]"

definition trim_left_side :: "bool \<Rightarrow> hstr \<Rightarrow> hbs_error + hstr" where
  "trim_left_side multiple v = Inr (handlebars_string_rtrim v (if multiple then spaces else blanks))"

definition drop_first :: "char \<Rightarrow> hstr \<Rightarrow> hbs_error + hstr" where
  "drop_first c v =
     (if sval v \<noteq> [] \<and> hd (sval v) = c then handlebars_string_truncate v 1 (hbs_str_len v) else Inr v)"

definition trim_right_side :: "bool \<Rightarrow> hstr \<Rightarrow> hbs_error + hstr" where
  "trim_right_side multiple v =
     (if multiple then Inr (handlebars_string_ltrim v spaces)
      else ebind (drop_first (CHR 0x0D) (handlebars_string_ltrim v blanks)) (drop_first newline))"

text \<open>The common end of both omits: the flag says whether anything was cut.\<close>

definition omit_content :: "(bool \<Rightarrow> hstr \<Rightarrow> hbs_error + hstr) \<Rightarrow> u32 \<Rightarrow> bool \<Rightarrow> node \<Rightarrow> hbs_error + bool \<times> node" where
  "omit_content trim stripped multiple n =
     (case nbody n of
        NODE_CONTENT l \<Rightarrow>
          if \<not> multiple \<and> has_flag (nstrip n) stripped then Inr (False, n)
          else
            (case lit_value l of
               None \<Rightarrow> Inl Mem_error
             | Some v \<Rightarrow>
                 ebind (trim multiple v) (\<lambda>v'.
                   let strip = (if hbs_str_len v = hbs_str_len v' then nstrip n AND NOT stripped
                                else nstrip n OR stripped) OR strip_flag_set
                   in Inr (has_flag strip stripped, ast_node strip (nloc n)
                        (NODE_CONTENT (ast_literal (Some v') (lit_original l) (is_single_quoted l))))))
      | _ \<Rightarrow> Inr (False, n))"

type_synonym omit = "node list option \<Rightarrow> nat option \<Rightarrow> bool \<Rightarrow> hbs_error + bool \<times> node list option"

definition omit_at :: "(nat option \<Rightarrow> nat \<Rightarrow> nat option) \<Rightarrow> (bool \<Rightarrow> node \<Rightarrow> hbs_error + bool \<times> node) \<Rightarrow> omit" where
  "omit_at index om statements st multiple =
     (case statements of
        None \<Rightarrow> Inl Mem_error
      | Some xs \<Rightarrow>
          (case index st (length xs) of
             None \<Rightarrow> Inr (False, Some xs)
           | Some j \<Rightarrow> ebind (om multiple (xs ! j)) (\<lambda>(r, n). Inr (r, Some (xs[j := n])))))"

definition handlebars_whitespace_omit_left :: omit where
  "handlebars_whitespace_omit_left = omit_at prev_index (omit_content trim_left_side strip_flag_left_stripped)"

definition handlebars_whitespace_omit_right :: omit where
  "handlebars_whitespace_omit_right = omit_at next_index (omit_content trim_right_side strip_flag_right_stripped)"

section \<open>Programs inside a node\<close>

definition node_statements :: "node \<Rightarrow> hbs_error + node list option" where
  "node_statements n = (case nbody n of NODE_PROGRAM p \<Rightarrow> Inr (prog_statements p) | _ \<Rightarrow> Inl Mem_error)"

definition set_statements :: "node list option \<Rightarrow> node \<Rightarrow> node" where
  "set_statements xs n =
     (case nbody n of
        NODE_PROGRAM p \<Rightarrow> ast_node (nstrip n) (nloc n)
          (NODE_PROGRAM (ast_program xs (prog_block_param1 p) (prog_block_param2 p) (prog_chained p)))
      | _ \<Rightarrow> n)"

definition set_programs :: "node option \<Rightarrow> node option \<Rightarrow> node \<Rightarrow> node" where
  "set_programs p i n = ast_node (nstrip n) (nloc n)
     (case nbody n of
        NODE_BLOCK b \<Rightarrow> NODE_BLOCK (ast_block (block_path b) (block_args b) (block_hash b) p i
          (open_strip b) (inverse_strip b) (close_strip b) (block_is_decorator b))
      | NODE_RAW_BLOCK b \<Rightarrow> NODE_RAW_BLOCK (ast_block (block_path b) (block_args b) (block_hash b) p i
          (open_strip b) (inverse_strip b) (close_strip b) (block_is_decorator b))
      | NODE_INVERSE _ chained \<Rightarrow> NODE_INVERSE p chained
      | body \<Rightarrow> body)"

text \<open>An omit on the first or last statement of a program.\<close>

definition omit_in :: "omit \<Rightarrow> bool \<Rightarrow> node \<Rightarrow> hbs_error + node" where
  "omit_in om multiple n =
     ebind (node_statements n) (\<lambda>xs.
     ebind (om xs None multiple) (\<lambda>(_, xs'). Inr (set_statements xs' n)))"

definition omit_if :: "bool \<Rightarrow> omit \<Rightarrow> bool \<Rightarrow> node option \<Rightarrow> hbs_error + node option" where
  "omit_if b om multiple n =
     (case n of
        Some m \<Rightarrow> if b then ebind (omit_in om multiple m) (\<lambda>m'. Inr (Some m')) else Inr n
      | None \<Rightarrow> Inr None)"

definition program_test ::
    "(node list option \<Rightarrow> nat option \<Rightarrow> bool \<Rightarrow> hbs_error + bool) \<Rightarrow> node option \<Rightarrow> hbs_error + bool" where
  "program_test test n =
     (case n of None \<Rightarrow> Inr False | Some m \<Rightarrow> ebind (node_statements m) (\<lambda>xs. test xs None False))"

section \<open>Programs\<close>

text \<open>The start of the trailing run of blanks.\<close>

fun match_blanks :: "string \<Rightarrow> string option \<Rightarrow> string option" where
  "match_blanks [] m = m"
| "match_blanks (c # cs) m =
     match_blanks cs (if c \<in> set blanks then (case m of None \<Rightarrow> Some (c # cs) | Some _ \<Rightarrow> m) else None)"

definition set_indent :: "hstr \<Rightarrow> node \<Rightarrow> node" where
  "set_indent s n =
     (case nbody n of
        NODE_PARTIAL p \<Rightarrow> ast_node (nstrip n) (nloc n) (NODE_PARTIAL (ast_partial (part_name p) (part_args p) (part_hash p) (Some s)))
      | _ \<Rightarrow> n)"

definition partial_indent :: "node list \<Rightarrow> nat \<Rightarrow> hbs_error + node list" where
  "partial_indent xs i =
     (if ast_type (xs ! i) = HANDLEBARS_AST_NODE_PARTIAL \<and> 0 < i
      then (case nbody (xs ! (i - 1)) of
              NODE_CONTENT l \<Rightarrow>
                (case lit_original l of
                   None \<Rightarrow> Inl Mem_error
                 | Some start \<Rightarrow>
                     (case match_blanks (c_string start) None of
                        None \<Rightarrow> Inr xs
                      | Some m \<Rightarrow> Inr (xs[i := set_indent (handlebars_string_ctor m) (xs ! i)])))
            | _ \<Rightarrow> Inr xs)
      else Inr xs)"

text \<open>The program of a standalone block next to its opening tag, and the one next to its closing tag.\<close>

definition omit_open_program :: "node \<Rightarrow> hbs_error + node" where
  "omit_open_program n =
     (case nbody n of
        NODE_BLOCK b \<Rightarrow>
          (case (block_program b, block_inverse b) of
             (Some p, i) \<Rightarrow> if ast_type p \<noteq> HANDLEBARS_AST_NODE_PROGRAM then Inl Assert_fail
               else ebind (omit_in handlebars_whitespace_omit_right False p) (\<lambda>p'. Inr (set_programs (Some p') i n))
           | (None, Some i) \<Rightarrow> if ast_type i \<noteq> HANDLEBARS_AST_NODE_PROGRAM then Inl Assert_fail
               else ebind (omit_in handlebars_whitespace_omit_right False i) (\<lambda>i'. Inr (set_programs None (Some i') n))
           | (None, None) \<Rightarrow> Inr n)
      | _ \<Rightarrow> Inr n)"

definition omit_close_program :: "node \<Rightarrow> hbs_error + node" where
  "omit_close_program n =
     (case nbody n of
        NODE_BLOCK b \<Rightarrow>
          (case (block_inverse b, block_program b) of
             (Some i, p) \<Rightarrow> if ast_type i \<noteq> HANDLEBARS_AST_NODE_PROGRAM then Inl Assert_fail
               else ebind (omit_in handlebars_whitespace_omit_left False i) (\<lambda>i'. Inr (set_programs p (Some i') n))
           | (None, Some p) \<Rightarrow> if ast_type p \<noteq> HANDLEBARS_AST_NODE_PROGRAM then Inl Assert_fail
               else ebind (omit_in handlebars_whitespace_omit_left False p) (\<lambda>p'. Inr (set_programs (Some p') None n))
           | (None, None) \<Rightarrow> Inr n)
      | _ \<Rightarrow> Inr n)"

text \<open>Steps on a list that is not NULL.\<close>

definition omit_list :: "omit \<Rightarrow> bool \<Rightarrow> nat \<Rightarrow> node list \<Rightarrow> hbs_error + bool \<times> node list" where
  "omit_list om multiple i xs =
     ebind (om (Some xs) (Some i) multiple) (\<lambda>(r, ys). Inr (r, case ys of None \<Rightarrow> xs | Some zs \<Rightarrow> zs))"

definition omit_list_if :: "bool \<Rightarrow> omit \<Rightarrow> bool \<Rightarrow> nat \<Rightarrow> node list \<Rightarrow> hbs_error + node list" where
  "omit_list_if b om multiple i xs =
     (if b then ebind (omit_list om multiple i xs) (\<lambda>(_, ys). Inr ys) else Inr xs)"

definition inline_standalone :: "nat \<Rightarrow> node list \<Rightarrow> hbs_error + node list" where
  "inline_standalone i xs =
     ebind (omit_list handlebars_whitespace_omit_right False i xs) (\<lambda>(_, ys).
     ebind (omit_list handlebars_whitespace_omit_left False i ys) (\<lambda>(r, zs).
       if r then partial_indent zs i else Inr zs))"

definition open_standalone :: "nat \<Rightarrow> node list \<Rightarrow> hbs_error + node list" where
  "open_standalone i xs =
     ebind (omit_open_program (xs ! i)) (\<lambda>n.
       omit_list_if True handlebars_whitespace_omit_left False i (xs[i := n]))"

definition close_standalone :: "nat \<Rightarrow> node list \<Rightarrow> hbs_error + node list" where
  "close_standalone i xs =
     ebind (omit_list_if True handlebars_whitespace_omit_right False i xs) (\<lambda>ys.
     ebind (omit_close_program (ys ! i)) (\<lambda>n. Inr (ys[i := n])))"

definition apply_strip :: "bool \<Rightarrow> nat \<Rightarrow> node list \<Rightarrow> hbs_error + node list" where
  "apply_strip is_root i xs =
     (let strip = nstrip (xs ! i) in
      if \<not> has_flag strip strip_flag_set then Inr xs
      else
        ebind (handlebars_whitespace_is_prev_whitespace (Some xs) (Some i) is_root) (\<lambda>prev.
        ebind (handlebars_whitespace_is_next_whitespace (Some xs) (Some i) is_root) (\<lambda>nxt.
        ebind (omit_list_if (has_flag strip strip_flag_right) handlebars_whitespace_omit_right True i xs) (\<lambda>x1.
        ebind (omit_list_if (has_flag strip strip_flag_left) handlebars_whitespace_omit_left True i x1) (\<lambda>x2.
        ebind (if has_flag strip strip_flag_inline_standalone \<and> prev \<and> nxt then inline_standalone i x2 else Inr x2) (\<lambda>x3.
        ebind (if has_flag strip strip_flag_open_standalone \<and> prev then open_standalone i x3 else Inr x3) (\<lambda>x4.
        if has_flag strip strip_flag_close_standalone \<and> nxt then close_standalone i x4 else Inr x4)))))))"

type_synonym accept = "node \<Rightarrow> bool \<Rightarrow> hbs_error + node \<times> bool"

definition program_step :: "accept \<Rightarrow> bool \<Rightarrow> nat \<Rightarrow> node list \<times> bool \<Rightarrow> hbs_error + node list \<times> bool" where
  "program_step acc is_root i s =
     (case s of (xs, seen) \<Rightarrow>
        ebind (acc (xs ! i) seen) (\<lambda>(n, seen').
        ebind (apply_strip is_root i (xs[i := n])) (\<lambda>ys. Inr (ys, seen'))))"

definition handlebars_whitespace_accept_program :: "accept \<Rightarrow> node \<Rightarrow> node handlebars_ast_node_program \<Rightarrow> bool \<Rightarrow> hbs_error + node \<times> bool" where
  "handlebars_whitespace_accept_program acc n p seen =
     (case prog_statements p of
        None \<Rightarrow> Inr (n, True)
      | Some xs \<Rightarrow>
          ebind (efold (program_step acc (\<not> seen)) [0..<length xs] (xs, True)) (\<lambda>(ys, seen').
            Inr (set_statements (Some ys) n, seen')))"

section \<open>Blocks\<close>

definition handlebars_whitespace_get_program :: "node \<Rightarrow> bool \<Rightarrow> node option" where
  "handlebars_whitespace_get_program n first =
     (case nbody n of
        NODE_PROGRAM p \<Rightarrow>
          (case prog_statements p of
             Some (x # xs) \<Rightarrow>
               (case nbody (if first then x else last (x # xs)) of
                  NODE_BLOCK b \<Rightarrow> block_program b
                | NODE_INVERSE q _ \<Rightarrow> q
                | NODE_RAW_BLOCK b \<Rightarrow> block_program b
                | _ \<Rightarrow> None)
           | _ \<Rightarrow> None)
      | _ \<Rightarrow> None)"

definition is_chained :: "node \<Rightarrow> hbs_error + bool" where
  "is_chained n = (case nbody n of NODE_PROGRAM p \<Rightarrow> Inr (prog_chained p) | _ \<Rightarrow> Inl Mem_error)"

lemma body_smaller: "m \<in> near (nbody n) \<Longrightarrow> size m < size n"
  using near_smaller [of m "nbody n" "nstrip n" "nloc n"] by simp

lemma get_program_near: "handlebars_whitespace_get_program n f = Some m \<Longrightarrow> m \<in> near (nbody n)"
proof -
  assume m: "handlebars_whitespace_get_program n f = Some m"
  then obtain p x xs where p: "nbody n = NODE_PROGRAM p" "prog_statements p = Some (x # xs)"
    by (auto simp: handlebars_whitespace_get_program_def split: handlebars_ast_internals.splits option.splits list.splits)
  let ?y = "if f then x else last (x # xs)"
  have "?y \<in> subnodes (nbody n)" using p by (auto simp: subnodes_def struct_nodes)
  moreover have "m \<in> subnodes (nbody ?y)"
    using m p by (cases "nbody ?y") (auto simp: handlebars_whitespace_get_program_def subnodes_def struct_nodes split: if_splits)
  ultimately show ?thesis by (auto simp: near_def)
qed

text \<open>The loop to the last inverse of a chain. The code makes no use of its result but for an assertion.\<close>

function last_inverse :: "node \<Rightarrow> hbs_error + node option" where
  "last_inverse n =
     (case nbody n of
        NODE_PROGRAM p \<Rightarrow>
          if prog_chained p
          then (case handlebars_whitespace_get_program n False of
                  None \<Rightarrow> Inr None
                | Some m \<Rightarrow> if ast_type m = HANDLEBARS_AST_NODE_INVERSE then Inl Assert_fail else last_inverse m)
          else Inr (Some n)
      | _ \<Rightarrow> Inr (Some n))"
  by pat_completeness auto

termination
  by (relation "measure size") (auto dest: get_program_near [THEN body_smaller])

text \<open>
  The first inverse of a chain is the program of the first statement of the inverse, otherwise it is the inverse
  itself, except for a raw block. \<open>on_first_inverse\<close> writes to it where it is.
\<close>

definition first_inverse :: "bool \<Rightarrow> node \<Rightarrow> hbs_error + node option" where
  "first_inverse is_raw n =
     ebind (is_chained n) (\<lambda>chained.
       Inr (if chained then handlebars_whitespace_get_program n True else if is_raw then None else Some n))"

definition on_first_inverse :: "bool \<Rightarrow> (node \<Rightarrow> hbs_error + node) \<Rightarrow> node \<Rightarrow> hbs_error + node" where
  "on_first_inverse is_raw f n =
     ebind (is_chained n) (\<lambda>chained.
       if chained
       then (case (nbody n, handlebars_whitespace_get_program n True) of
               (NODE_PROGRAM p, Some q) \<Rightarrow>
                 (case prog_statements p of
                    Some (x # xs) \<Rightarrow>
                      ebind (f q) (\<lambda>q'.
                        let i = (case nbody x of NODE_BLOCK b \<Rightarrow> block_inverse b | NODE_RAW_BLOCK b \<Rightarrow> block_inverse b | _ \<Rightarrow> None)
                        in Inr (set_statements (Some (set_programs (Some q') i x # xs)) n))
                  | _ \<Rightarrow> Inr n)
             | _ \<Rightarrow> Inr n)
       else if is_raw then Inr n else f n)"

definition check_chain :: "node option \<Rightarrow> hbs_error + unit" where
  "check_chain inv_node =
     (case inv_node of
        None \<Rightarrow> Inr ()
      | Some n \<Rightarrow>
          ebind (is_chained n) (\<lambda>chained.
            if chained then ebind (last_inverse n) (\<lambda>_. Inr ()) else Inr ()))"

text \<open>A standalone \<open>else\<close>: both the end of the program and the start of the first inverse lose the line.\<close>

definition standalone_else :: "bool \<Rightarrow> node option \<Rightarrow> node \<Rightarrow> hbs_error + node option \<times> node" where
  "standalone_else is_raw program i =
     ebind (first_inverse is_raw i) (\<lambda>fi.
       if program = None \<or> fi = None then Inr (program, i)
       else
         ebind (program_test handlebars_whitespace_is_prev_whitespace program) (\<lambda>prev.
         ebind (if prev then program_test handlebars_whitespace_is_next_whitespace fi else Inr False) (\<lambda>nxt.
           if prev \<and> nxt then
             ebind (omit_if True handlebars_whitespace_omit_left False program) (\<lambda>program'.
             ebind (on_first_inverse is_raw (omit_in handlebars_whitespace_omit_right False) i) (\<lambda>i'.
               Inr (program', i')))
           else Inr (program, i))))"

definition block_strip_flags :: "node handlebars_ast_node_block \<Rightarrow> bool \<Rightarrow> bool \<Rightarrow> u32" where
  "block_strip_flags b opens closes =
     (open_strip b AND strip_flag_left) OR (close_strip b AND strip_flag_right) OR
     (if opens then strip_flag_open_standalone else 0) OR (if closes then strip_flag_close_standalone else 0) OR
     strip_flag_set"

text \<open>The controls of the inner tags, and the standalone inverse.\<close>

definition strip_programs ::
    "bool \<Rightarrow> node handlebars_ast_node_block \<Rightarrow> node option \<Rightarrow> node option \<Rightarrow> hbs_error + node option \<times> node option" where
  "strip_programs is_raw b program inv_node =
     (case inv_node of
       None \<Rightarrow>
         ebind (omit_if (has_flag (close_strip b) strip_flag_left) handlebars_whitespace_omit_left True program) (\<lambda>p2.
           Inr (p2, None))
     | Some i \<Rightarrow>
         ebind (omit_if (has_flag (inverse_strip b) strip_flag_left) handlebars_whitespace_omit_left True program) (\<lambda>p2.
         ebind (if has_flag (inverse_strip b) strip_flag_right
                then omit_in handlebars_whitespace_omit_right True i else Inr i) (\<lambda>i1.
         ebind (if has_flag (close_strip b) strip_flag_left
                then omit_in handlebars_whitespace_omit_left True i1 else Inr i1) (\<lambda>i2.
         ebind (standalone_else is_raw p2 i2) (\<lambda>(p3, i3). Inr (p3, Some i3))))))"

definition finish_block ::
    "bool \<Rightarrow> node handlebars_ast_node_block \<Rightarrow> node option \<Rightarrow> node option \<Rightarrow> hbs_error + u32 \<times> node option \<times> node option" where
  "finish_block is_raw b program inv_node =
     ebind (check_chain inv_node) (\<lambda>_.
     ebind (case inv_node of None \<Rightarrow> Inr None | Some i \<Rightarrow> first_inverse is_raw i) (\<lambda>fi.
     ebind (program_test handlebars_whitespace_is_next_whitespace program) (\<lambda>opens.
     let closing = (if is_raw then inv_node else fi) in
     ebind (program_test handlebars_whitespace_is_prev_whitespace (if closing \<noteq> None then closing else program)) (\<lambda>closes.
     ebind (omit_if (has_flag (open_strip b) strip_flag_right) handlebars_whitespace_omit_right True program) (\<lambda>p1.
     ebind (strip_programs is_raw b p1 inv_node) (\<lambda>(p2, i2). Inr (block_strip_flags b opens closes, p2, i2)))))))"

definition accept_option :: "accept \<Rightarrow> node option \<Rightarrow> bool \<Rightarrow> hbs_error + node option \<times> bool" where
  "accept_option acc n seen =
     (case n of None \<Rightarrow> Inr (None, seen) | Some m \<Rightarrow> ebind (acc m seen) (\<lambda>(m', s). Inr (Some m', s)))"

definition not_program :: "node option \<Rightarrow> bool" where
  "not_program n \<longleftrightarrow> (case n of None \<Rightarrow> False | Some m \<Rightarrow> ast_type m \<noteq> HANDLEBARS_AST_NODE_PROGRAM)"

text \<open>The program stands in for a missing one; a raw block asserts the types of both.\<close>

definition accept_any_block :: "bool \<Rightarrow> accept \<Rightarrow> node \<Rightarrow> node handlebars_ast_node_block \<Rightarrow> bool \<Rightarrow> hbs_error + node \<times> bool" where
  "accept_any_block is_raw acc n b seen =
     ebind (accept_option acc (block_program b) seen) (\<lambda>(p, s1).
     ebind (accept_option acc (block_inverse b) s1) (\<lambda>(i, s2).
       let program = (if p \<noteq> None then p else i); inv_node = (if p \<noteq> None then i else None) in
       if is_raw \<and> (not_program program \<or> not_program inv_node) then Inl Assert_fail
       else
         ebind (finish_block is_raw b program inv_node) (\<lambda>(strip, program', inv').
           let n' = (if p \<noteq> None then set_programs program' inv' n else set_programs None program' n)
           in Inr (ast_node strip (nloc n') (nbody n'), s2))))"

definition handlebars_whitespace_accept_block :: "accept \<Rightarrow> node \<Rightarrow> node handlebars_ast_node_block \<Rightarrow> bool \<Rightarrow> hbs_error + node \<times> bool" where
  "handlebars_whitespace_accept_block = accept_any_block False"

definition handlebars_whitespace_accept_raw_block :: "accept \<Rightarrow> node \<Rightarrow> node handlebars_ast_node_block \<Rightarrow> bool \<Rightarrow> hbs_error + node \<times> bool" where
  "handlebars_whitespace_accept_raw_block = accept_any_block True"

section \<open>Leaves and the walk\<close>

definition add_strip :: "u32 \<Rightarrow> node \<Rightarrow> node" where
  "add_strip fl n = ast_node (nstrip n OR fl) (nloc n) (nbody n)"

definition handlebars_whitespace_accept_generic :: "node \<Rightarrow> node" where
  "handlebars_whitespace_accept_generic = add_strip (strip_flag_set OR strip_flag_inline_standalone)"

text \<open>The code reads the path as a path structure; the value of a literal lies where its original text does.\<close>

definition path_text :: "node \<Rightarrow> hbs_error + hstr option" where
  "path_text n =
     (case nbody n of
        NODE_PATH p \<Rightarrow> Inr (path_original p)
      | NODE_STRING l \<Rightarrow> Inr (lit_value l)
      | NODE_NUMBER l \<Rightarrow> Inr (lit_value l)
      | NODE_BOOLEAN l \<Rightarrow> Inr (lit_value l)
      | NODE_UNDEFINED l \<Rightarrow> Inr (lit_value l)
      | NODE_NUL l \<Rightarrow> Inr (lit_value l)
      | _ \<Rightarrow> Inl Mem_error)"

definition handlebars_whitespace_accept_mustache :: "node \<Rightarrow> node handlebars_ast_node_mustache \<Rightarrow> hbs_error + node" where
  "handlebars_whitespace_accept_mustache n m =
     (case must_path m of
        None \<Rightarrow> Inr n
      | Some path \<Rightarrow>
          ebind (path_text path) (\<lambda>t.
            case t of
              None \<Rightarrow> Inr n
            | Some s \<Rightarrow> Inr (if hbs_str_eq_strl s ''hbsc_set_delimiters'' then handlebars_whitespace_accept_generic n else n)))"

definition whitespace_switch :: "accept \<Rightarrow> accept" where
  "whitespace_switch acc n seen =
     (case nbody n of
        NODE_BLOCK b \<Rightarrow> handlebars_whitespace_accept_block acc n b seen
      | NODE_MUSTACHE m \<Rightarrow> ebind (handlebars_whitespace_accept_mustache n m) (\<lambda>n'. Inr (n', seen))
      | NODE_PROGRAM p \<Rightarrow> handlebars_whitespace_accept_program acc n p seen
      | NODE_RAW_BLOCK b \<Rightarrow> handlebars_whitespace_accept_raw_block acc n b seen
      | NODE_PARTIAL _ \<Rightarrow> Inr (handlebars_whitespace_accept_generic n, seen)
      | NODE_COMMENT _ _ \<Rightarrow> Inr (handlebars_whitespace_accept_generic n, seen)
      | NODE_INTERMEDIATE _ \<Rightarrow> Inl Assert_fail
      | NODE_INVERSE _ _ \<Rightarrow> Inl Assert_fail
      | NODE_PATH_SEGMENT _ _ _ \<Rightarrow> Inl Assert_fail
      | NODE_NIL \<Rightarrow> Inl Assert_fail
      | _ \<Rightarrow> Inr (n, seen))"

fun whitespace_accept :: "nat \<Rightarrow> accept" where
  "whitespace_accept 0 n seen = Inl Out_of_fuel"
| "whitespace_accept (Suc k) n seen = whitespace_switch (whitespace_accept k) n seen"

text \<open>The size of a node bounds the depth of the tree below it.\<close>

definition handlebars_whitespace_accept :: accept where
  "handlebars_whitespace_accept n seen = whitespace_accept (Suc (size n)) n seen"

end
