(* ===== verification/WhitespaceProofs.thy ===== *)
theory WhitespaceProofs
  imports Whitespace
begin

text \<open>
  Whitespace control on a tree that the parser can build: it always ends with a tree that differs from the given one
  only in whitespace at the ends of contents, in strip flags and in the indentation of partials. \<open>skeleton\<close>
  is what it keeps. The handlers are proved against the contract of the recursive call in the locale
  \<open>whitespace_acceptor\<close>.
\<close>

section \<open>What is kept\<close>

text \<open>A text without the whitespace at its ends.\<close>

definition core :: "string \<Rightarrow> string" where
  "core v = rev (dropWhile (\<lambda>c. c \<in> set spaces) (rev (dropWhile (\<lambda>c. c \<in> set spaces) v)))"

definition text_core :: "hstr \<Rightarrow> hstr" where
  "text_core s = handlebars_string_ctor (core (sval s))"

fun erase :: "node handlebars_ast_internals \<Rightarrow> node handlebars_ast_internals" where
  "erase (NODE_CONTENT l) =
     NODE_CONTENT (ast_literal (map_option text_core (lit_value l)) (lit_original l) (is_single_quoted l))"
| "erase (NODE_PARTIAL p) = NODE_PARTIAL (ast_partial (part_name p) (part_args p) (part_hash p) None)"
| "erase body = body"

primrec skeleton :: "node \<Rightarrow> node" where
  "skeleton (ast_node s l body) = ast_node 0 l (erase (map_handlebars_ast_internals skeleton body))"

lemma nbody_skeleton: "nbody (skeleton n) = erase (map_handlebars_ast_internals skeleton (nbody n))"
  by (cases n) simp

lemma skeleton_eq:
  "skeleton n = skeleton m \<longleftrightarrow> nloc n = nloc m \<and>
     erase (map_handlebars_ast_internals skeleton (nbody n)) = erase (map_handlebars_ast_internals skeleton (nbody m))"
  by (cases n, cases m) auto

lemma dropWhile_dropWhile: "(\<And>c. P c \<Longrightarrow> Q c) \<Longrightarrow> dropWhile Q (dropWhile P xs) = dropWhile Q xs"
  by (induction xs) auto

lemma core_drop_left: "(\<And>c. P c \<Longrightarrow> c \<in> set spaces) \<Longrightarrow> core (dropWhile P v) = core v"
  by (simp add: core_def dropWhile_dropWhile)

lemma dropWhile_all: "dropWhile P xs = [] \<longleftrightarrow> (\<forall>x \<in> set xs. P x)"
  by (simp add: dropWhile_eq_Nil_conv)

lemma dropWhile_append_last: "\<not> (\<forall>x \<in> set xs. P x) \<Longrightarrow> dropWhile P (xs @ ys) = dropWhile P xs @ ys"
  by (auto simp: dropWhile_append1)

lemma core_append_spaces: "set w \<subseteq> set spaces \<Longrightarrow> core (v @ w) = core v"
proof (cases "\<forall>x \<in> set v. x \<in> set spaces")
  case True
  assume "set w \<subseteq> set spaces"
  with True have "dropWhile (\<lambda>c. c \<in> set spaces) (v @ w) = []" "dropWhile (\<lambda>c. c \<in> set spaces) v = []"
    by (auto simp: dropWhile_eq_Nil_conv)
  then show ?thesis by (simp only: core_def)
next
  case False
  assume w: "set w \<subseteq> set spaces"
  let ?d = "dropWhile (\<lambda>c. c \<in> set spaces)"
  have "?d (v @ w) = ?d v @ w" using False by (rule dropWhile_append_last)
  moreover have "?d (rev w @ x) = ?d x" for x using w by (intro dropWhile_append2) auto
  ultimately show ?thesis by (simp add: core_def)
qed

lemma core_drop_right: "(\<And>c. P c \<Longrightarrow> c \<in> set spaces) \<Longrightarrow> core (rev (dropWhile P (rev v))) = core v"
proof -
  assume P: "\<And>c. P c \<Longrightarrow> c \<in> set spaces"
  have "v = rev (dropWhile P (rev v)) @ rev (takeWhile P (rev v))"
    by (metis rev_append rev_rev_ident takeWhile_dropWhile_id)
  moreover have "set (rev (takeWhile P (rev v))) \<subseteq> set spaces" using P by (auto dest: set_takeWhileD)
  ultimately show ?thesis using core_append_spaces by metis
qed

lemma blanks_spaces: "c \<in> set blanks \<Longrightarrow> c \<in> set spaces"
  by (auto simp: blanks_def spaces_def)

text \<open>A trim function of the module cuts whitespace at one end, and never fails.\<close>

definition trims :: "(bool \<Rightarrow> hstr \<Rightarrow> hbs_error + hstr) \<Rightarrow> bool" where
  "trims f \<longleftrightarrow> (\<forall>b v. \<exists>v'. f b v = Inr v' \<and> core (sval v') = core (sval v))"

lemma sval_ltrim: "sval (handlebars_string_ltrim s w) = dropWhile (\<lambda>c. c \<noteq> NUL \<and> c \<in> set w) (sval s)"
  by (simp add: handlebars_string_ltrim_def Let_def)

lemma sval_rtrim: "sval (handlebars_string_rtrim s w) = rev (dropWhile (\<lambda>c. c \<in> set w) (rev (sval s)))"
  by (simp add: handlebars_string_rtrim_def Let_def)

lemma trims_left: "trims trim_left_side"
  by (auto simp: trims_def trim_left_side_def sval_rtrim blanks_spaces intro!: core_drop_right)

lemma drop_first_core:
  assumes "c \<in> set spaces"
  shows "\<exists>v'. drop_first c v = Inr v' \<and> core (sval v') = core (sval v)"
proof (cases "sval v \<noteq> [] \<and> hd (sval v) = c")
  case True
  then obtain xs where xs: "sval v = c # xs" by (cases "sval v") auto
  then show ?thesis
    using assms by (simp add: drop_first_def handlebars_string_truncate_def hbs_str_len_def core_def)
qed (auto simp: drop_first_def)

lemma trims_right: "trims trim_right_side"
  unfolding trims_def
proof (intro allI)
  fix b :: bool and v
  show "\<exists>v'. trim_right_side b v = Inr v' \<and> core (sval v') = core (sval v)"
  proof (cases b)
    case True
    then show ?thesis by (auto simp: trim_right_side_def sval_ltrim intro!: core_drop_left)
  next
    case False
    let ?v = "handlebars_string_ltrim v blanks"
    have "core (sval ?v) = core (sval v)" by (auto simp: sval_ltrim blanks_spaces intro!: core_drop_left)
    moreover obtain v1 where "drop_first (CHR 0x0D) ?v = Inr v1" "core (sval v1) = core (sval ?v)"
      using drop_first_core [of "CHR 0x0D" ?v] by (auto simp: spaces_def)
    moreover obtain v2 where "drop_first newline v1 = Inr v2" "core (sval v2) = core (sval v1)"
      using drop_first_core [of newline v1] by (auto simp: spaces_def)
    ultimately show ?thesis using False by (simp add: trim_right_side_def)
  qed
qed

section \<open>Trees of the parser\<close>

text \<open>
  The statements of a program are NULL when the parser made it for a missing one: of \<open>{{#foo}}{{/foo}}\<close>, or
  after an \<open>else\<close> with nothing behind it. The omits at the ends of a program read the list without a test,
  so no \<open>~\<close> may face such a program.
\<close>

definition has_list :: "node \<Rightarrow> bool" where
  "has_list n = (case nbody n of NODE_PROGRAM p \<Rightarrow> prog_statements p \<noteq> None | _ \<Rightarrow> True)"

definition has_lists :: "node option \<Rightarrow> bool" where
  "has_lists n = (case n of None \<Rightarrow> True | Some m \<Rightarrow> has_list m)"

definition first_program :: "node handlebars_ast_node_block \<Rightarrow> node option" where
  "first_program b = (if block_program b \<noteq> None then block_program b else block_inverse b)"

definition second_program :: "node handlebars_ast_node_block \<Rightarrow> node option" where
  "second_program b = (if block_program b \<noteq> None then block_inverse b else None)"

definition strips_ok :: "node handlebars_ast_node_block \<Rightarrow> node option \<Rightarrow> node option \<Rightarrow> bool" where
  "strips_ok b p i \<longleftrightarrow>
     (has_flag (open_strip b) strip_flag_right \<longrightarrow> has_lists p) \<and>
     (if i = None
      then has_flag (close_strip b) strip_flag_left \<longrightarrow> has_lists p
      else (has_flag (inverse_strip b) strip_flag_left \<longrightarrow> has_lists p) \<and>
        (has_flag (inverse_strip b) strip_flag_right \<or> has_flag (close_strip b) strip_flag_left \<longrightarrow> has_lists i))"

abbreviation strips_have_lists :: "node handlebars_ast_node_block \<Rightarrow> bool" where
  "strips_have_lists b \<equiv> strips_ok b (first_program b) (second_program b)"

text \<open>
  The shape of a tree that whitespace control takes: contents have their texts, blocks hold programs, the inverse of
  a chain has its statement, and every \<open>~\<close> faces a program with a list.
\<close>

function wf_node :: "node \<Rightarrow> bool" where
  "wf_node (ast_node s l body) =
     (case body of
        NODE_CONTENT c \<Rightarrow> lit_value c \<noteq> None \<and> lit_original c \<noteq> None
      | NODE_PROGRAM p \<Rightarrow> (prog_chained p \<longrightarrow> prog_statements p \<noteq> None) \<and>
          (\<forall>xs \<in> set_option (prog_statements p). \<forall>x \<in> set xs. wf_node x)
      | NODE_BLOCK b \<Rightarrow> strips_have_lists b \<and> (\<forall>p \<in> set_option (block_program b). ast_type p = HANDLEBARS_AST_NODE_PROGRAM \<and> wf_node p) \<and>
          (\<forall>p \<in> set_option (block_inverse b). ast_type p = HANDLEBARS_AST_NODE_PROGRAM \<and> wf_node p)
      | NODE_RAW_BLOCK b \<Rightarrow> strips_have_lists b \<and> (\<forall>p \<in> set_option (block_program b). ast_type p = HANDLEBARS_AST_NODE_PROGRAM \<and> wf_node p) \<and>
          (\<forall>p \<in> set_option (block_inverse b). ast_type p = HANDLEBARS_AST_NODE_PROGRAM \<and> wf_node p)
      | NODE_MUSTACHE m \<Rightarrow> (\<forall>p \<in> set_option (must_path m). returns (path_text p) (\<lambda>_. True))
      | NODE_INTERMEDIATE _ \<Rightarrow> False
      | NODE_INVERSE _ _ \<Rightarrow> False
      | NODE_PATH_SEGMENT _ _ _ \<Rightarrow> False
      | NODE_NIL \<Rightarrow> False
      | _ \<Rightarrow> True)"
  by pat_completeness auto

termination
  by (relation "measure size") (auto intro!: node_smaller simp: struct_nodes)

lemma wf_node_simps:
  "wf_node n = (case nbody n of
        NODE_CONTENT c \<Rightarrow> lit_value c \<noteq> None \<and> lit_original c \<noteq> None
      | NODE_PROGRAM p \<Rightarrow> (prog_chained p \<longrightarrow> prog_statements p \<noteq> None) \<and>
          (\<forall>xs \<in> set_option (prog_statements p). \<forall>x \<in> set xs. wf_node x)
      | NODE_BLOCK b \<Rightarrow> strips_have_lists b \<and> (\<forall>p \<in> set_option (block_program b). ast_type p = HANDLEBARS_AST_NODE_PROGRAM \<and> wf_node p) \<and>
          (\<forall>p \<in> set_option (block_inverse b). ast_type p = HANDLEBARS_AST_NODE_PROGRAM \<and> wf_node p)
      | NODE_RAW_BLOCK b \<Rightarrow> strips_have_lists b \<and> (\<forall>p \<in> set_option (block_program b). ast_type p = HANDLEBARS_AST_NODE_PROGRAM \<and> wf_node p) \<and>
          (\<forall>p \<in> set_option (block_inverse b). ast_type p = HANDLEBARS_AST_NODE_PROGRAM \<and> wf_node p)
      | NODE_MUSTACHE m \<Rightarrow> (\<forall>p \<in> set_option (must_path m). returns (path_text p) (\<lambda>_. True))
      | NODE_INTERMEDIATE _ \<Rightarrow> False
      | NODE_INVERSE _ _ \<Rightarrow> False
      | NODE_PATH_SEGMENT _ _ _ \<Rightarrow> False
      | NODE_NIL \<Rightarrow> False
      | _ \<Rightarrow> True)"
  by (cases n) simp

lemma ast_type_body: "ast_type n = HANDLEBARS_AST_NODE_PROGRAM \<longleftrightarrow> (\<exists>p. nbody n = NODE_PROGRAM p)"
  by (cases n; cases "nbody n") auto

lemma ast_type_skeleton: "ast_type (skeleton n) = ast_type n"
  by (cases n; cases "nbody n") auto

lemma has_list_skeleton [simp]: "has_list (skeleton n) = has_list n"
proof (cases "nbody n")
  case (NODE_PROGRAM p)
  then show ?thesis by (cases p) (simp add: has_list_def nbody_skeleton)
qed (simp_all add: has_list_def nbody_skeleton)

lemma has_lists_skeleton [simp]: "has_lists (map_option skeleton n) = has_lists n"
  by (cases n) (simp_all add: has_lists_def)

lemma programs_skeleton [simp]:
  "first_program (map_handlebars_ast_node_block skeleton b) = map_option skeleton (first_program b)"
  "second_program (map_handlebars_ast_node_block skeleton b) = map_option skeleton (second_program b)"
  by (cases b; simp add: first_program_def second_program_def)+

lemma strips_ok_skeleton [simp]:
  "strips_ok (map_handlebars_ast_node_block skeleton b) (map_option skeleton p) (map_option skeleton i) = strips_ok b p i"
  by (cases b) (simp add: strips_ok_def)

lemma strips_have_lists_skeleton [simp]:
  "strips_have_lists (ast_block (map_option skeleton x) (map_option (map skeleton) xs) (map_option skeleton h)
     (map_option skeleton p) (map_option skeleton i) os ivs cs d) = strips_have_lists (ast_block x xs h p i os ivs cs d)"
  using strips_ok_skeleton [of "ast_block x xs h p i os ivs cs d"] programs_skeleton [of "ast_block x xs h p i os ivs cs d"]
  by simp

lemma path_text_skeleton: "returns (path_text (skeleton n)) (\<lambda>_. True) = returns (path_text n) (\<lambda>_. True)"
  by (cases n; cases "nbody n") (auto simp: path_text_def)

lemma wf_skeleton: "wf_node (skeleton n) = wf_node n"
proof (induction n)
  case (ast_node s l body)
  have IH: "wf_node (skeleton x) = wf_node x" if "x \<in> subnodes body" for x
    using ast_node that by (simp add: subnodes_def)
  show ?case
  proof (cases body)
    case (NODE_PROGRAM p)
    then show ?thesis using IH by (cases p) (auto simp: subnodes_def option.set_map)
  next
    case (NODE_BLOCK b)
    then show ?thesis using IH by (cases b) (auto simp: subnodes_def option.set_map ast_type_skeleton)
  next
    case (NODE_RAW_BLOCK b)
    then show ?thesis using IH by (cases b) (auto simp: subnodes_def option.set_map ast_type_skeleton)
  next
    case (NODE_MUSTACHE m)
    then show ?thesis by (cases m) (auto simp: option.set_map path_text_skeleton)
  next
    case (NODE_CONTENT c)
    then show ?thesis by (cases c) auto
  qed auto
qed

lemma size_skeleton: "size (skeleton n) = size n"
proof (induction n)
  case (ast_node s l body)
  have IH: "size (skeleton x) = size x" if "x \<in> subnodes body" for x
    using ast_node that by (simp add: subnodes_def)
  then have opt: "size_option size (map_option skeleton x) = size_option size x" if "set_option x \<subseteq> subnodes body" for x
    using that by (cases x) auto
  have lis: "size_list size (map skeleton xs) = size_list size xs" if "set xs \<subseteq> subnodes body" for xs
    using that IH by (induction xs) auto
  have olis: "size_option (size_list size) (map_option (map skeleton) xs) = size_option (size_list size) xs"
    if "\<Union> (set ` set_option xs) \<subseteq> subnodes body" for xs
    using that lis by (cases xs) auto
  show ?case
  proof (cases body)
    case (NODE_PROGRAM p)
    then show ?thesis by (cases p) (auto simp: subnodes_def intro!: arg_cong2 [where f = "(+)"] opt olis)
  next
    case (NODE_BLOCK b)
    then show ?thesis by (cases b) (auto simp: subnodes_def intro!: arg_cong2 [where f = "(+)"] opt olis)
  next
    case (NODE_RAW_BLOCK b)
    then show ?thesis by (cases b) (auto simp: subnodes_def intro!: arg_cong2 [where f = "(+)"] opt olis)
  next
    case (NODE_PARTIAL_BLOCK b)
    then show ?thesis by (cases b) (auto simp: subnodes_def intro!: arg_cong2 [where f = "(+)"] opt olis)
  next
    case (NODE_MUSTACHE m)
    then show ?thesis by (cases m) (auto simp: subnodes_def intro!: arg_cong2 [where f = "(+)"] opt olis)
  next
    case (NODE_PARTIAL m)
    then show ?thesis by (cases m) (auto simp: subnodes_def intro!: arg_cong2 [where f = "(+)"] opt olis)
  next
    case (NODE_SEXPR m)
    then show ?thesis by (cases m) (auto simp: subnodes_def intro!: arg_cong2 [where f = "(+)"] opt olis)
  next
    case (NODE_PATH m)
    then show ?thesis by (cases m) (auto simp: subnodes_def intro!: arg_cong2 [where f = "(+)"] opt olis)
  next
    case (NODE_INTERMEDIATE m)
    then show ?thesis by (cases m) (auto simp: subnodes_def intro!: arg_cong2 [where f = "(+)"] opt olis)
  next
    case (NODE_HASH m)
    then show ?thesis by (auto simp: subnodes_def intro!: olis)
  next
    case (NODE_HASH_PAIR k m)
    then show ?thesis by (auto simp: subnodes_def intro!: opt)
  next
    case (NODE_INVERSE k m)
    then show ?thesis by (auto simp: subnodes_def intro!: opt)
  qed auto
qed

section \<open>Steps\<close>

lemma same_wf: "skeleton n' = skeleton n \<Longrightarrow> wf_node n \<Longrightarrow> wf_node n'"
  using wf_skeleton [of n] wf_skeleton [of n'] by simp

lemma same_type: "skeleton n' = skeleton n \<Longrightarrow> ast_type n' = ast_type n"
  using ast_type_skeleton [of n] ast_type_skeleton [of n'] by simp

lemma same_size: "skeleton n' = skeleton n \<Longrightarrow> size n' = size n"
  using size_skeleton [of n] size_skeleton [of n'] by simp

definition wf_list :: "node list \<Rightarrow> bool" where
  "wf_list xs \<longleftrightarrow> (\<forall>x \<in> set xs. wf_node x)"

definition kept :: "node list \<Rightarrow> node list \<Rightarrow> bool" where
  "kept xs ys \<longleftrightarrow> map skeleton ys = map skeleton xs"

lemma kept_refl [simp]: "kept xs xs"
  by (simp add: kept_def)

lemma kept_trans: "kept xs ys \<Longrightarrow> kept ys zs \<Longrightarrow> kept xs zs"
  by (simp add: kept_def)

lemma kept_length: "kept xs ys \<Longrightarrow> length ys = length xs"
  unfolding kept_def by (rule map_eq_imp_length_eq)

lemma kept_nth: "kept xs ys \<Longrightarrow> i < length xs \<Longrightarrow> skeleton (ys ! i) = skeleton (xs ! i)"
  using kept_length [of xs ys] nth_map [of i xs skeleton] nth_map [of i ys skeleton] by (simp add: kept_def)

lemma kept_update: "skeleton n = skeleton (xs ! i) \<Longrightarrow> kept xs (xs[i := n])"
proof (cases "i < length xs")
  case True
  then have "(map skeleton xs)[i := skeleton (xs ! i)] = map skeleton xs"
    using list_update_id [of "map skeleton xs" i] by simp
  moreover assume "skeleton n = skeleton (xs ! i)"
  ultimately show ?thesis by (simp add: kept_def map_update)
qed (simp add: list_update_beyond)

lemma kept_wf: "kept xs ys \<Longrightarrow> wf_list xs \<Longrightarrow> wf_list ys"
proof -
  assume k: "kept xs ys" and wf: "wf_list xs"
  have "wf_node (ys ! i)" if "i < length ys" for i
    using same_wf [OF kept_nth [OF k, of i]] that wf kept_length [OF k] by (auto simp: wf_list_def)
  then show ?thesis by (auto simp: wf_list_def in_set_conv_nth)
qed

lemma content_test_ok: "wf_node n \<Longrightarrow> returns (content_test scan d n) (\<lambda>_. True)"
  unfolding wf_node_simps [of n] by (cases "nbody n") (auto simp: content_test_def)

lemma index_less: "next_index st n = Some j \<Longrightarrow> j < n" "prev_index st n = Some j \<Longrightarrow> j < n"
  by (auto simp: next_index_def prev_index_def split: option.splits if_splits)

lemma tests_ok:
  "wf_list xs \<Longrightarrow> returns (handlebars_whitespace_is_next_whitespace (Some xs) st r) (\<lambda>_. True)"
  "wf_list xs \<Longrightarrow> returns (handlebars_whitespace_is_prev_whitespace (Some xs) st r) (\<lambda>_. True)"
  by (auto simp: handlebars_whitespace_is_next_whitespace_def handlebars_whitespace_is_prev_whitespace_def wf_list_def
      split: option.split intro!: content_test_ok dest: index_less)

lemma omit_content_ok:
  assumes "wf_node n" "trims f"
  shows "returns (omit_content f st m n) (\<lambda>(r, n'). skeleton n' = skeleton n)"
proof (cases "nbody n")
  case (NODE_CONTENT c)
  then obtain v where v: "lit_value c = Some v" using assms(1) by (auto simp: wf_node_simps [of n])
  obtain v' where v': "f m v = Inr v'" "core (sval v') = core (sval v)" using assms(2) by (auto simp: trims_def)
  then have "text_core v' = text_core v" by (simp add: text_core_def)
  then show ?thesis using NODE_CONTENT v v'(1) by (cases c) (simp add: omit_content_def skeleton_eq Let_def)
qed (simp_all add: omit_content_def)

definition omits :: "omit \<Rightarrow> bool" where
  "omits om \<longleftrightarrow> (\<forall>xs st m. wf_list xs \<longrightarrow>
     returns (om (Some xs) st m) (\<lambda>(r, ys). \<exists>zs. ys = Some zs \<and> kept xs zs))"

lemma omit_at_ok:
  assumes "trims f" "\<And>st n j. index st n = Some j \<Longrightarrow> j < n"
  shows "omits (omit_at index (omit_content f flag))"
  unfolding omits_def
proof (intro allI impI)
  fix xs st m assume wf: "wf_list xs"
  show "returns (omit_at index (omit_content f flag) (Some xs) st m) (\<lambda>(r, ys). \<exists>zs. ys = Some zs \<and> kept xs zs)"
  proof (cases "index st (length xs)")
    case None
    then show ?thesis by (simp add: omit_at_def)
  next
    case (Some j)
    then have "wf_node (xs ! j)" using wf assms(2) by (auto simp: wf_list_def)
    from omit_content_ok [OF this assms(1), of flag m] show ?thesis
      by (auto simp: omit_at_def Some intro!: returns_bind kept_update)
  qed
qed

lemma omits_left: "omits handlebars_whitespace_omit_left"
  unfolding handlebars_whitespace_omit_left_def by (rule omit_at_ok [OF trims_left index_less(2)])

lemma omits_right: "omits handlebars_whitespace_omit_right"
  unfolding handlebars_whitespace_omit_right_def by (rule omit_at_ok [OF trims_right index_less(1)])

lemma omit_list_ok: "omits om \<Longrightarrow> wf_list xs \<Longrightarrow> returns (omit_list om m i xs) (\<lambda>(r, ys). kept xs ys)"
proof -
  assume "omits om" "wf_list xs"
  then have "returns (om (Some xs) (Some i) m) (\<lambda>(r, ys). \<exists>zs. ys = Some zs \<and> kept xs zs)" by (simp add: omits_def)
  then show ?thesis unfolding omit_list_def by (rule returns_bind) auto
qed

lemma omit_list_if_ok: "omits om \<Longrightarrow> wf_list xs \<Longrightarrow> returns (omit_list_if b om m i xs) (kept xs)"
  unfolding omit_list_if_def by (intro returns_if returns_bind [OF omit_list_ok]) auto

definition wf_program_node :: "node \<Rightarrow> bool" where
  "wf_program_node n \<longleftrightarrow> wf_node n \<and> ast_type n = HANDLEBARS_AST_NODE_PROGRAM"

lemma same_wf_program: "skeleton n' = skeleton n \<Longrightarrow> wf_program_node n \<Longrightarrow> wf_program_node n'"
  using same_wf [of n' n] same_type [of n' n] by (simp add: wf_program_node_def)

lemma wf_program_nodeD:
  assumes "wf_program_node n"
  obtains p where "nbody n = NODE_PROGRAM p" "prog_chained p \<longrightarrow> prog_statements p \<noteq> None"
    "\<And>xs. prog_statements p = Some xs \<Longrightarrow> wf_list xs"
  using assms wf_node_simps [of n] that by (auto simp: wf_program_node_def ast_type_body wf_list_def)

lemma set_statements_same:
  "nbody n = NODE_PROGRAM p \<Longrightarrow> prog_statements p = Some xs \<Longrightarrow> kept xs ys \<Longrightarrow>
   skeleton (set_statements (Some ys) n) = skeleton n"
  by (cases n; cases p) (auto simp: set_statements_def kept_def)

lemma omit_in_ok:
  assumes "omits om" "wf_program_node n" "has_list n"
  shows "returns (omit_in om m n) (\<lambda>n'. skeleton n' = skeleton n)"
proof -
  obtain p where p: "nbody n = NODE_PROGRAM p" "\<And>xs. prog_statements p = Some xs \<Longrightarrow> wf_list xs"
    using assms(2) by (rule wf_program_nodeD) blast
  then obtain xs where xs: "prog_statements p = Some xs" using assms(3) by (auto simp: has_list_def)
  have "returns (om (Some xs) None m) (\<lambda>(r, ys). \<exists>zs. ys = Some zs \<and> kept xs zs)"
    using assms(1) p(2) xs by (simp add: omits_def)
  then have "returns (ebind (om (Some xs) None m) (\<lambda>(_, xs'). Inr (set_statements xs' n))) (\<lambda>n'. skeleton n' = skeleton n)"
    by (rule returns_bind) (auto intro!: set_statements_same [OF p(1) xs])
  then show ?thesis by (simp add: omit_in_def node_statements_def p(1) xs)
qed

text \<open>What may happen to an optional program.\<close>

definition wf_option :: "node option \<Rightarrow> bool" where
  "wf_option n \<longleftrightarrow> (\<forall>m \<in> set_option n. wf_program_node m)"

definition same_option :: "node option \<Rightarrow> node option \<Rightarrow> bool" where
  "same_option n n' \<longleftrightarrow> map_option skeleton n' = map_option skeleton n"

lemma same_option_simps [simp]:
  "same_option n n" "same_option (Some m) (Some m') \<longleftrightarrow> skeleton m' = skeleton m"
  by (auto simp: same_option_def)

lemma same_option_trans: "same_option a b \<Longrightarrow> same_option b c \<Longrightarrow> same_option a c"
  by (simp add: same_option_def)

lemma same_wf_option: "same_option n n' \<Longrightarrow> wf_option n \<Longrightarrow> wf_option n'"
  by (cases n; cases n') (auto simp: same_option_def wf_option_def intro: same_wf_program)

lemma same_lists: "same_option n n' \<Longrightarrow> has_lists n' = has_lists n"
  using has_lists_skeleton [of n] has_lists_skeleton [of n'] by (simp add: same_option_def)

lemma same_list: "skeleton n' = skeleton n \<Longrightarrow> has_list n' = has_list n"
  using has_list_skeleton [of n] has_list_skeleton [of n'] by simp

lemma same_None: "same_option n n' \<Longrightarrow> n' = None \<longleftrightarrow> n = None"
  by (cases n; cases n') (auto simp: same_option_def)

lemma same_strips_ok: "same_option p p' \<Longrightarrow> same_option i i' \<Longrightarrow> strips_ok b p' i' = strips_ok b p i"
  by (simp add: strips_ok_def same_lists same_None)

lemma has_lists_simps [simp]: "has_lists None" "has_lists (Some m) = has_list m"
  by (simp_all add: has_lists_def)

lemma omit_if_ok:
  "omits om \<Longrightarrow> wf_option n \<Longrightarrow> (b \<Longrightarrow> has_lists n) \<Longrightarrow> returns (omit_if b om m n) (same_option n)"
  using omit_in_ok [of om] by (cases n) (auto simp: omit_if_def wf_option_def intro!: returns_bind)

lemma tests_None [simp]:
  "handlebars_whitespace_is_next_whitespace None st r = Inr r" "handlebars_whitespace_is_prev_whitespace None st r = Inr r"
  by (simp_all add: handlebars_whitespace_is_next_whitespace_def handlebars_whitespace_is_prev_whitespace_def)

text \<open>A program without a list is no whitespace at its ends.\<close>

lemma program_test_ok:
  assumes "\<And>xs st r. wf_list xs \<Longrightarrow> returns (test (Some xs) st r) (\<lambda>_. True)" "\<And>st r. test None st r = Inr r" "wf_option n"
  shows "returns (program_test test n) (\<lambda>r. r \<longrightarrow> has_lists n)"
proof (cases n)
  case (Some m)
  obtain p where p: "nbody m = NODE_PROGRAM p" "\<And>xs. prog_statements p = Some xs \<Longrightarrow> wf_list xs"
    using assms(3) by (auto simp: Some wf_option_def elim!: wf_program_nodeD)
  show ?thesis
    using assms(1,2) p by (cases "prog_statements p") (auto simp: Some program_test_def node_statements_def has_list_def
        intro: returns_mono)
qed (simp add: program_test_def)

lemma next_test_ok: "wf_option n \<Longrightarrow> returns (program_test handlebars_whitespace_is_next_whitespace n) (\<lambda>r. r \<longrightarrow> has_lists n)"
  by (rule program_test_ok) (simp_all add: tests_ok)

lemma prev_test_ok: "wf_option n \<Longrightarrow> returns (program_test handlebars_whitespace_is_prev_whitespace n) (\<lambda>r. r \<longrightarrow> has_lists n)"
  by (rule program_test_ok) (simp_all add: tests_ok)

lemma set_programs_same:
  assumes "nbody n = NODE_BLOCK b \<or> nbody n = NODE_RAW_BLOCK b"
    and "same_option (block_program b) p" "same_option (block_inverse b) i"
  shows "skeleton (set_programs p i n) = skeleton n"
  using assms by (cases n; cases b) (auto simp: set_programs_def same_option_def)

lemma wf_blockD:
  assumes "wf_node n" "nbody n = NODE_BLOCK b \<or> nbody n = NODE_RAW_BLOCK b"
  shows "wf_option (block_program b)" "wf_option (block_inverse b)" "strips_have_lists b"
  using assms by (auto simp: wf_node_simps [of n] wf_option_def wf_program_node_def)

text \<open>The programs next to the opening and the closing tag of a block have lists, as far as they are asked for.\<close>

definition close_program :: "node handlebars_ast_node_block \<Rightarrow> node option" where
  "close_program b = (if block_inverse b \<noteq> None then block_inverse b else block_program b)"

definition lists_for :: "bool \<Rightarrow> bool \<Rightarrow> node \<Rightarrow> bool" where
  "lists_for opens closes n =
     (case nbody n of
        NODE_BLOCK b \<Rightarrow> (opens \<longrightarrow> has_lists (first_program b)) \<and> (closes \<longrightarrow> has_lists (close_program b))
      | _ \<Rightarrow> True)"

lemma lists_for_skeleton: "lists_for d e (skeleton n) = lists_for d e n"
proof (cases "nbody n")
  case (NODE_BLOCK b)
  have "close_program (map_handlebars_ast_node_block skeleton b) = map_option skeleton (close_program b)"
    by (cases b) (simp add: close_program_def)
  then show ?thesis using NODE_BLOCK by (simp add: lists_for_def nbody_skeleton)
qed (simp_all add: lists_for_def nbody_skeleton)

lemma same_lists_for: "skeleton n' = skeleton n \<Longrightarrow> lists_for d e n' = lists_for d e n"
  using lists_for_skeleton [of d e n] lists_for_skeleton [of d e n'] by simp

lemma partial_indent_ok:
  assumes "wf_list xs" "i < length xs"
  shows "returns (partial_indent xs i) (kept xs)"
proof -
  have same: "skeleton (set_indent s n) = skeleton n" for s n
  proof (cases "nbody n")
    case (NODE_PARTIAL p)
    then show ?thesis by (cases n; cases p) (auto simp: set_indent_def)
  qed (auto simp: set_indent_def)
  have "returns (case nbody (xs ! (i - 1)) of
      NODE_CONTENT l \<Rightarrow>
        (case lit_original l of
           None \<Rightarrow> Inl Mem_error
         | Some start \<Rightarrow>
             (case match_blanks (c_string start) None of
                None \<Rightarrow> Inr xs
              | Some m \<Rightarrow> Inr (xs[i := set_indent (handlebars_string_ctor m) (xs ! i)])))
    | _ \<Rightarrow> Inr xs) (kept xs)"
  proof (cases "nbody (xs ! (i - 1))")
    case (NODE_CONTENT c)
    have "wf_node (xs ! (i - 1))" using assms by (auto simp: wf_list_def)
    then have "lit_original c \<noteq> None" unfolding wf_node_simps [of "xs ! (i - 1)"] NODE_CONTENT by simp
    then obtain t where "lit_original c = Some t" by blast
    then show ?thesis using NODE_CONTENT by (auto split: option.split intro!: kept_update same)
  qed simp_all
  then show ?thesis by (simp add: partial_indent_def)
qed

lemma omit_open_ok:
  assumes "wf_node n" "lists_for True e n"
  shows "returns (omit_open_program n) (\<lambda>n'. skeleton n' = skeleton n)"
proof (cases "nbody n")
  case (NODE_BLOCK b)
  note wf = wf_blockD [OF assms(1) disjI1 [OF NODE_BLOCK]]
    and same = set_programs_same [OF disjI1 [OF NODE_BLOCK]]
  have "has_lists (first_program b)" using assms(2) by (simp add: lists_for_def NODE_BLOCK)
  then show ?thesis
    using wf(1,2)
    by (auto simp: omit_open_program_def NODE_BLOCK wf_option_def wf_program_node_def first_program_def
        split: option.split intro!: same returns_bind [OF omit_in_ok [OF omits_right]])
qed (simp_all add: omit_open_program_def)

lemma omit_close_ok:
  assumes "wf_node n" "lists_for d True n"
  shows "returns (omit_close_program n) (\<lambda>n'. skeleton n' = skeleton n)"
proof (cases "nbody n")
  case (NODE_BLOCK b)
  note wf = wf_blockD [OF assms(1) disjI1 [OF NODE_BLOCK]]
    and same = set_programs_same [OF disjI1 [OF NODE_BLOCK]]
  have "has_lists (close_program b)" using assms(2) by (simp add: lists_for_def NODE_BLOCK)
  then show ?thesis
    using wf(1,2)
    by (auto simp: omit_close_program_def NODE_BLOCK wf_option_def wf_program_node_def close_program_def
        split: option.split intro!: same returns_bind [OF omit_in_ok [OF omits_left]])
qed (simp_all add: omit_close_program_def)

text \<open>Steps on the statements, in sequence.\<close>

definition keeps :: "bool \<Rightarrow> bool \<Rightarrow> (node list \<Rightarrow> hbs_error + node list) \<Rightarrow> nat \<Rightarrow> bool" where
  "keeps d e f i \<longleftrightarrow>
     (\<forall>xs. wf_list xs \<longrightarrow> i < length xs \<longrightarrow> lists_for d e (xs ! i) \<longrightarrow> returns (f xs) (kept xs))"

lemma keepsD: "keeps d e f i \<Longrightarrow> wf_list xs \<Longrightarrow> i < length xs \<Longrightarrow> lists_for d e (xs ! i) \<Longrightarrow> returns (f xs) (kept xs)"
  by (simp add: keeps_def)

lemma keeps_after:
  assumes "keeps d e f i" "wf_list xs" "i < length xs" "lists_for d e (xs ! i)" "kept xs ys"
  shows "returns (f ys) (kept xs)"
proof (rule returns_mono)
  show "returns (f ys) (kept ys)"
    using keepsD [OF assms(1) kept_wf [OF assms(5,2)]] kept_length [OF assms(5)]
      same_lists_for [OF kept_nth [OF assms(5,3)]] assms(3,4) by simp
qed (rule kept_trans [OF assms(5)])

lemma keeps_bind: "keeps d e f i \<Longrightarrow> keeps d e g i \<Longrightarrow> keeps d e (\<lambda>xs. ebind (f xs) g) i"
  unfolding keeps_def [of d e "\<lambda>xs. ebind (f xs) g"]
  by (intro allI impI) (rule returns_bind [OF keepsD], assumption+, rule keeps_after)

lemma keeps_if: "(b \<Longrightarrow> keeps d e f i) \<Longrightarrow> keeps d e (\<lambda>xs. if b then f xs else Inr xs) i"
  by (simp add: keeps_def)

lemma keeps_omit: "omits om \<Longrightarrow> keeps d e (omit_list_if b om m i) i"
  by (simp add: keeps_def omit_list_if_ok)

lemma keeps_node: "(\<And>n. wf_node n \<Longrightarrow> lists_for d e n \<Longrightarrow> returns (f n) (\<lambda>n'. skeleton n' = skeleton n)) \<Longrightarrow>
    keeps d e (\<lambda>xs. ebind (f (xs ! i)) (\<lambda>n. Inr (xs[i := n]))) i"
  unfolding keeps_def wf_list_def by (fastforce intro: returns_bind kept_update)

lemma keeps_omit_bind:
  assumes "omits om" "\<And>r. keeps d e (g r) i"
  shows "keeps d e (\<lambda>xs. ebind (omit_list om m i xs) (\<lambda>(r, ys). g r ys)) i"
  unfolding keeps_def
proof (intro allI impI)
  fix xs assume xs: "wf_list xs" "i < length xs" "lists_for d e (xs ! i)"
  show "returns (ebind (omit_list om m i xs) (\<lambda>(r, ys). g r ys)) (kept xs)"
    by (rule returns_bind [OF omit_list_ok [OF assms(1) xs(1)]]) (auto intro: keeps_after [OF assms(2) xs])
qed

lemma keeps_inline: "keeps d e (inline_standalone i) i"
proof -
  have "keeps d e (\<lambda>xs. if r then partial_indent xs i else Inr xs) i" for r
    by (intro keeps_if) (simp add: keeps_def partial_indent_ok)
  then show ?thesis
    unfolding inline_standalone_def [abs_def] by (intro keeps_omit_bind omits_left omits_right)
qed

lemma keeps_open: "keeps True e (open_standalone i) i"
proof -
  have "keeps True e (\<lambda>xs. ebind (ebind (omit_open_program (xs ! i)) (\<lambda>n. Inr (xs[i := n])))
      (omit_list_if True handlebars_whitespace_omit_left False i)) i"
    by (intro keeps_bind keeps_node keeps_omit omits_left omit_open_ok)
  then show ?thesis by (simp add: open_standalone_def [abs_def] ebind_assoc)
qed

lemma keeps_close: "keeps d True (close_standalone i) i"
  unfolding close_standalone_def [abs_def]
  by (intro keeps_bind keeps_node keeps_omit omits_right omit_close_ok)

text \<open>What a handler leaves on a node: a mark for a standalone tag only where the program next to it has a list.\<close>

definition marks_ok :: "node \<Rightarrow> bool" where
  "marks_ok n \<longleftrightarrow>
     lists_for (has_flag (nstrip n) strip_flag_open_standalone) (has_flag (nstrip n) strip_flag_close_standalone) n"

lemma apply_strip_ok:
  assumes xs: "wf_list xs" "i < length xs" and marks: "marks_ok (xs ! i)"
  shows "returns (apply_strip r i xs) (kept xs)"
proof -
  let ?s = "nstrip (xs ! i)"
  let ?d = "has_flag ?s strip_flag_open_standalone" and ?e = "has_flag ?s strip_flag_close_standalone"
  have o: "keeps ?d ?e (open_standalone i) i" if "?d \<and> x" for x using keeps_open that by simp
  have c: "keeps ?d ?e (close_standalone i) i" if "?e \<and> x" for x using keeps_close that by simp
  have k: "keeps ?d ?e (\<lambda>xs. ebind (omit_list_if a handlebars_whitespace_omit_right True i xs) (\<lambda>x1.
        ebind (omit_list_if b handlebars_whitespace_omit_left True i x1) (\<lambda>x2.
        ebind (if c then inline_standalone i x2 else Inr x2) (\<lambda>x3.
        ebind (if ?d \<and> p then open_standalone i x3 else Inr x3) (\<lambda>x4.
        if ?e \<and> q then close_standalone i x4 else Inr x4))))) i" for a b c p q
    by (intro keeps_bind keeps_if keeps_omit omits_left omits_right keeps_inline) (erule o, erule c)
  show ?thesis
    unfolding apply_strip_def Let_def
    by (intro returns_if returns_bind [OF tests_ok(1) [OF xs(1)]] returns_bind [OF tests_ok(2) [OF xs(1)]]
        keepsD [OF k xs] marks [unfolded marks_ok_def]) simp
qed

section \<open>Blocks\<close>

lemma get_program_wf:
  assumes "wf_program_node n" "handlebars_whitespace_get_program n f = Some m"
  shows "wf_program_node m"
proof -
  obtain p where p: "nbody n = NODE_PROGRAM p" "\<And>xs. prog_statements p = Some xs \<Longrightarrow> wf_list xs"
    using assms(1) by (rule wf_program_nodeD) blast
  then obtain y ys where y: "prog_statements p = Some (y # ys)"
    using assms(2) by (auto simp: handlebars_whitespace_get_program_def split: option.splits list.splits)
  let ?x = "if f then y else last (y # ys)"
  have x: "wf_node ?x" using p(2) [OF y] last_in_set [of "y # ys"] by (auto simp: wf_list_def)
  show ?thesis
    using assms(2) p(1) y x wf_node_simps [of ?x]
    by (cases "nbody ?x") (auto simp: handlebars_whitespace_get_program_def wf_program_node_def)
qed

declare last_inverse.simps [simp del]

lemma is_chained_ok: "wf_program_node n \<Longrightarrow> returns (is_chained n) (\<lambda>c. c \<longrightarrow> has_list n)"
  by (auto simp: is_chained_def has_list_def elim!: wf_program_nodeD)

lemma last_inverse_ok: "wf_program_node n \<Longrightarrow> returns (last_inverse n) (\<lambda>_. True)"
proof (induction n rule: last_inverse.induct)
  case (1 n)
  show ?case
  proof (cases "nbody n")
    case (NODE_PROGRAM p)
    then show ?thesis
      using 1 get_program_wf [OF 1(2), of False]
      by (subst last_inverse.simps) (auto simp: wf_program_node_def split: option.split)
  qed (simp_all add: last_inverse.simps)
qed

lemma check_chain_ok: "wf_option n \<Longrightarrow> returns (check_chain n) (\<lambda>_. True)"
  by (auto simp: check_chain_def wf_option_def split: option.split
      intro!: returns_bind [OF is_chained_ok] returns_bind [OF last_inverse_ok])

lemma first_inverse_ok:
  assumes "wf_program_node n"
  shows "returns (first_inverse r n) (\<lambda>fi. wf_option fi \<and> first_inverse r n = Inr fi \<and> (r \<or> fi = Some n \<or> has_list n))"
proof -
  obtain c where c: "is_chained n = Inr c" "c \<longrightarrow> has_list n"
    using is_chained_ok [OF assms] by (auto simp: returns_def)
  show ?thesis
    using c(2) assms by (auto simp: first_inverse_def c(1) wf_option_def intro: get_program_wf)
qed

lemma on_first_inverse_ok:
  assumes "wf_program_node n" "first_inverse r n = Inr fi"
    and f: "\<And>m. fi = Some m \<Longrightarrow> returns (f m) (\<lambda>m'. skeleton m' = skeleton m)"
  shows "returns (on_first_inverse r f n) (\<lambda>n'. skeleton n' = skeleton n)"
proof (cases "is_chained n")
  case (Inl x)
  then show ?thesis using is_chained_ok [OF assms(1)] by simp
next
  case (Inr c)
  obtain p where p: "nbody n = NODE_PROGRAM p" "\<And>xs. prog_statements p = Some xs \<Longrightarrow> wf_list xs"
    using assms(1) by (rule wf_program_nodeD) blast
  show ?thesis
  proof (cases "c \<and> fi \<noteq> None")
    case True
    then obtain q where q: "fi = Some q" "handlebars_whitespace_get_program n True = Some q"
      using assms(2) by (auto simp: first_inverse_def Inr)
    then obtain x ys where x: "prog_statements p = Some (x # ys)"
      using p(1) by (auto simp: handlebars_whitespace_get_program_def split: option.splits list.splits)
    have "wf_node x" using p(2) [OF x] by (simp add: wf_list_def)
    then obtain b where b: "nbody x = NODE_BLOCK b \<or> nbody x = NODE_RAW_BLOCK b" "block_program b = Some q"
      using q(2) p(1) x wf_node_simps [of x] by (cases "nbody x") (auto simp: handlebars_whitespace_get_program_def)
    have "kept (x # ys) (set_programs (Some q') (block_inverse b) x # ys)" if "skeleton q' = skeleton q" for q'
      using set_programs_same [OF b(1), of "Some q'" "block_inverse b"] that b(2) by (simp add: kept_def)
    then have "skeleton (set_statements (Some (set_programs (Some q') (block_inverse b) x # ys)) n) = skeleton n"
      if "skeleton q' = skeleton q" for q'
      using set_statements_same [OF p(1) x] that by blast
    moreover have "(case nbody x of NODE_BLOCK b \<Rightarrow> block_inverse b | NODE_RAW_BLOCK b \<Rightarrow> block_inverse b | _ \<Rightarrow> None) = block_inverse b"
      using b(1) by auto
    ultimately show ?thesis
      using f [OF q(1)] True by (auto simp: on_first_inverse_def Inr q(2) p(1) x Let_def intro: returns_bind)
  next
    case False
    then show ?thesis
      using assms(2) f by (auto simp: on_first_inverse_def first_inverse_def Inr p(1))
  qed
qed

lemma standalone_else_ok:
  assumes "wf_option p" "wf_program_node i"
  shows "returns (standalone_else r p i) (\<lambda>(p', i'). same_option p p' \<and> skeleton i' = skeleton i)"
  unfolding standalone_else_def
proof (intro returns_bind [OF first_inverse_ok [OF assms(2)]] returns_if
    returns_bind [OF prev_test_ok [OF assms(1)]])
  fix fi prev
  assume "wf_option fi \<and> first_inverse r i = Inr fi \<and> (r \<or> fi = Some i \<or> has_list i)" and prev: "prev \<longrightarrow> has_lists p"
  then have fi: "wf_option fi" "first_inverse r i = Inr fi" by simp_all
  show "returns (ebind (if prev then program_test handlebars_whitespace_is_next_whitespace fi else Inr False)
      (\<lambda>nxt. if prev \<and> nxt then
          ebind (omit_if True handlebars_whitespace_omit_left False p) (\<lambda>program'.
          ebind (on_first_inverse r (omit_in handlebars_whitespace_omit_right False) i) (\<lambda>i'. Inr (program', i')))
        else Inr (p, i))) (\<lambda>(p', i'). same_option p p' \<and> skeleton i' = skeleton i)"
  proof (rule returns_bind [of _ "\<lambda>nxt. nxt \<longrightarrow> has_lists fi"])
    show "returns (if prev then program_test handlebars_whitespace_is_next_whitespace fi else Inr False) (\<lambda>nxt. nxt \<longrightarrow> has_lists fi)"
      using next_test_ok [OF fi(1)] by simp
    fix nxt assume nxt: "nxt \<longrightarrow> has_lists fi"
    have f: "returns (omit_in handlebars_whitespace_omit_right False m) (\<lambda>m'. skeleton m' = skeleton m)"
      if "fi = Some m" nxt for m
      using omit_in_ok [OF omits_right, of m] nxt fi(1) that by (simp add: wf_option_def)
    show "returns (if prev \<and> nxt then
          ebind (omit_if True handlebars_whitespace_omit_left False p) (\<lambda>program'.
          ebind (on_first_inverse r (omit_in handlebars_whitespace_omit_right False) i) (\<lambda>i'. Inr (program', i')))
        else Inr (p, i)) (\<lambda>(p', i'). same_option p p' \<and> skeleton i' = skeleton i)"
    proof (rule returns_if)
      assume both: "prev \<and> nxt"
      have "returns (on_first_inverse r (omit_in handlebars_whitespace_omit_right False) i) (\<lambda>n'. skeleton n' = skeleton i)"
        by (rule on_first_inverse_ok [OF assms(2) fi(2)]) (use both f in blast)
      then show "returns (ebind (omit_if True handlebars_whitespace_omit_left False p) (\<lambda>program'.
          ebind (on_first_inverse r (omit_in handlebars_whitespace_omit_right False) i) (\<lambda>i'. Inr (program', i'))))
        (\<lambda>(p', i'). same_option p p' \<and> skeleton i' = skeleton i)"
        using both prev by (intro returns_bind [OF omit_if_ok [OF omits_left assms(1)]]) (auto intro: returns_bind)
    qed simp
  qed
qed simp

lemma strip_programs_ok:
  assumes "wf_option p" "wf_option i" "strips_ok b p i"
  shows "returns (strip_programs r b p i) (\<lambda>(p', i'). same_option p p' \<and> same_option i i')"
proof (cases i)
  case None
  then show ?thesis
    using assms(3)
    unfolding strip_programs_def None option.case strips_ok_def
    by (auto intro!: returns_bind [OF omit_if_ok [OF omits_left assms(1)]])
next
  case (Some m)
  then have m: "wf_program_node m" using assms(2) by (simp add: wf_option_def)
  have s: "has_flag (inverse_strip b) strip_flag_left \<Longrightarrow> has_lists p"
    "has_flag (inverse_strip b) strip_flag_right \<Longrightarrow> has_list m" "has_flag (close_strip b) strip_flag_left \<Longrightarrow> has_list m"
    using assms(3) by (simp_all add: strips_ok_def Some)
  have omit: "returns (if c then omit_in om True m' else Inr m') (\<lambda>m''. skeleton m'' = skeleton m)"
    if "skeleton m' = skeleton m" "omits om" "c \<Longrightarrow> has_list m" for c m' om
    using omit_in_ok [OF that(2) same_wf_program [OF that(1) m]] that(1,3) same_list [OF that(1)] by (auto simp: returns_def)
  show ?thesis
    unfolding strip_programs_def Some option.case
  proof (rule returns_bind [OF omit_if_ok [OF omits_left assms(1) s(1)]], assumption,
      rule returns_bind [OF omit [OF refl omits_right s(2)]], assumption,
      rule returns_bind [OF omit [OF _ omits_left s(3)]], assumption, assumption)
    fix p2 i1 i2 assume p2: "same_option p p2" and i2: "skeleton i2 = skeleton m"
    show "returns (ebind (standalone_else r p2 i2) (\<lambda>(p3, i3). Inr (p3, Some i3)))
        (\<lambda>(p', i'). same_option p p' \<and> same_option (Some m) i')"
      by (rule returns_bind [OF standalone_else_ok [OF same_wf_option [OF p2 assms(1)] same_wf_program [OF i2 m]]])
        (auto intro: same_option_trans [OF p2] simp: i2)
  qed
qed

text \<open>The bits of the marks.\<close>

lemma block_strip_marks:
  "has_flag (block_strip_flags b opens closes) strip_flag_open_standalone = opens"
  "has_flag (block_strip_flags b opens closes) strip_flag_close_standalone = closes"
  by (cases opens; cases closes; simp add: block_strip_flags_def strip_flag_defs and.assoc bit.conj_disj_distrib2)+

definition block_marks :: "bool \<Rightarrow> node option \<Rightarrow> node option \<Rightarrow> u32 \<Rightarrow> bool" where
  "block_marks r p i strip \<longleftrightarrow> (\<not> r \<longrightarrow>
     (has_flag strip strip_flag_open_standalone \<longrightarrow> has_lists p) \<and>
     (has_flag strip strip_flag_close_standalone \<longrightarrow> has_lists (if i \<noteq> None then i else p)))"

lemma finish_block_ok:
  assumes "wf_option p" "wf_option i" "strips_ok b p i"
  shows "returns (finish_block r b p i) (\<lambda>(strip, p', i'). same_option p p' \<and> same_option i i' \<and> block_marks r p i strip)"
proof -
  let ?first = "\<lambda>fi. wf_option fi \<and> (r \<or> fi = i \<or> i \<noteq> None \<and> has_lists i)"
  have "returns (case i of None \<Rightarrow> Inr None | Some m \<Rightarrow> first_inverse r m) ?first"
  proof (cases i)
    case (Some m)
    have "wf_program_node m" using assms(2) by (simp add: Some wf_option_def)
    from first_inverse_ok [OF this, of r] show ?thesis unfolding Some option.case by (rule returns_mono) simp
  qed (simp add: wf_option_def)
  note start = returns_bind [OF this]
  show ?thesis
    unfolding finish_block_def Let_def
  proof (rule returns_bind [OF check_chain_ok [OF assms(2)]], rule start,
      rule returns_bind [OF next_test_ok [OF assms(1)]])
    fix fi opens assume fi: "?first fi" and opens: "opens \<longrightarrow> has_lists p"
    let ?closing = "if r then i else fi"
    let ?c = "if ?closing \<noteq> None then ?closing else p"
    have closing: "wf_option ?c" using fi assms by simp
    let ?post = "\<lambda>(strip, p', i'). same_option p p' \<and> same_option i i' \<and> block_marks r p i strip"
    show "returns (ebind (program_test handlebars_whitespace_is_prev_whitespace ?c) (\<lambda>closes.
       ebind (omit_if (has_flag (open_strip b) strip_flag_right) handlebars_whitespace_omit_right True p) (\<lambda>p1.
       ebind (strip_programs r b p1 i) (\<lambda>(p2, i2). Inr (block_strip_flags b opens closes, p2, i2))))) ?post"
    proof (rule returns_bind [OF prev_test_ok [OF closing]],
        rule returns_bind [OF omit_if_ok [OF omits_right assms(1)]])
      show "has_lists p" if "has_flag (open_strip b) strip_flag_right" using assms(3) that by (simp add: strips_ok_def)
      fix p1 closes assume p1: "same_option p p1" and closes: "closes \<longrightarrow> has_lists ?c"
      have "block_marks r p i (block_strip_flags b opens closes)"
        using opens closes fi by (auto simp: block_marks_def block_strip_marks split: if_splits)
      moreover have "strips_ok b p1 i" using assms(3) same_lists [OF p1] by (simp add: strips_ok_def)
      ultimately show "returns (ebind (strip_programs r b p1 i) (\<lambda>(p2, i2). Inr (block_strip_flags b opens closes, p2, i2))) ?post"
        by (intro returns_bind [OF strip_programs_ok [OF same_wf_option [OF p1 assms(1)] assms(2)]])
          (auto intro: same_option_trans [OF p1])
    qed
  qed
qed

section \<open>The walk\<close>

text \<open>A block at the end of its handler: the same but for its marks, which are right.\<close>

lemma block_end:
  assumes body: "nbody n = NODE_BLOCK b \<and> \<not> r \<or> nbody n = NODE_RAW_BLOCK b"
    and p: "same_option (block_program b) p" and i: "same_option (block_inverse b) i"
    and same: "same_option (if p \<noteq> None then p else i) p'" "same_option (if p \<noteq> None then i else None) i'"
    and marks: "block_marks r (if p \<noteq> None then p else i) (if p \<noteq> None then i else None) strip"
    and n': "n' = (if p \<noteq> None then set_programs p' i' n else set_programs None p' n)"
  shows "skeleton (ast_node strip (nloc n') (nbody n')) = skeleton n \<and> marks_ok (ast_node strip (nloc n') (nbody n'))"
proof -
  have body': "nbody n = NODE_BLOCK b \<or> nbody n = NODE_RAW_BLOCK b" using body by blast
  define q j where "q = (if p \<noteq> None then p' else None)" and "j = (if p \<noteq> None then i' else p')"
  have n'': "n' = set_programs q j n" by (simp add: n' q_def j_def)
  have qj: "same_option (block_program b) q" "same_option (block_inverse b) j"
    using p i same same_option_trans [OF p, of p'] same_option_trans [OF i, of i'] same_option_trans [OF i, of p']
    by (auto simp: q_def j_def split: if_splits)
  have "skeleton n' = skeleton n" unfolding n'' by (rule set_programs_same [OF body' qj])
  moreover have "skeleton (ast_node strip (nloc n') (nbody n')) = skeleton n'" by (cases n') simp
  moreover have "marks_ok (ast_node strip (nloc n') (nbody n'))"
  proof (cases "nbody n")
    case (NODE_BLOCK c)
    then have c: "c = b" "\<not> r" using body by auto
    have ft: "has_lists (if q \<noteq> None then q else j) = has_lists (if p \<noteq> None then p else i)"
      "has_lists (if j \<noteq> None then j else q) = has_lists (if (if p \<noteq> None then i else None) \<noteq> None then i else if p \<noteq> None then p else i)"
      using same_lists [OF same(1)] same_lists [OF same(2)] same_None [OF same(1)] same_None [OF same(2)]
      by (auto simp: q_def j_def split: if_splits)
    show ?thesis
      using marks c(2) ft
      by (auto simp: marks_ok_def lists_for_def n'' set_programs_def NODE_BLOCK c first_program_def close_program_def
          block_marks_def split: if_splits)
  qed (use body in \<open>auto simp: marks_ok_def lists_for_def n'' set_programs_def\<close>)
  ultimately show ?thesis by simp
qed

locale whitespace_acceptor =
  fixes acc :: accept and K :: nat
  assumes acc_ok: "wf_node n \<Longrightarrow> size n \<le> K \<Longrightarrow> returns (acc n s) (\<lambda>(n', s'). skeleton n' = skeleton n \<and> marks_ok n')"
begin

lemma program_ok:
  assumes "wf_list xs" "\<And>x. x \<in> set xs \<Longrightarrow> size x \<le> K"
  shows "returns (efold (program_step acc r) [0..<length xs] (xs, s)) (\<lambda>(ys, s'). kept xs ys)"
proof (rule returns_efold)
  fix i and st :: "node list \<times> bool"
  assume i: "i \<in> set [0..<length xs]" and st: "case st of (ys, s') \<Rightarrow> kept xs ys"
  obtain ys s' where ys: "st = (ys, s')" by (cases st)
  have k: "kept xs ys" using st ys by simp
  have y: "skeleton (ys ! i) = skeleton (xs ! i)" using kept_nth [OF k] i by simp
  have "wf_node (ys ! i)" "size (ys ! i) \<le> K"
    using same_wf [OF y] same_size [OF y] i assms by (auto simp: wf_list_def)
  then have "returns (acc (ys ! i) s') (\<lambda>(n, s''). skeleton n = skeleton (ys ! i) \<and> marks_ok n)" by (rule acc_ok)
  then show "returns (program_step acc r i st) (\<lambda>(ys, s'). kept xs ys)"
  proof (simp add: program_step_def ys, elim returns_bind, clarify)
    fix n s'' assume n: "skeleton n = skeleton (ys ! i)" "marks_ok n"
    then have k1: "kept xs (ys[i := n])" using k kept_update kept_trans by blast
    have "returns (apply_strip r i (ys[i := n])) (kept (ys[i := n]))"
      using apply_strip_ok [OF kept_wf [OF k1 assms(1)], of i r] kept_length [OF k] i n(2) by simp
    then show "returns (ebind (apply_strip r i (ys[i := n])) (\<lambda>ys. Inr (ys, s''))) (\<lambda>(ys, s'). kept xs ys)"
      by (rule returns_bind) (simp add: kept_trans [OF k1])
  qed
qed simp

lemma accept_option_ok:
  assumes "wf_option n" "\<And>m. m \<in> set_option n \<Longrightarrow> size m \<le> K"
  shows "returns (accept_option acc n s) (\<lambda>(n', s'). same_option n n')"
  using assms by (cases n) (auto simp: accept_option_def wf_option_def wf_program_node_def intro!: returns_bind [OF acc_ok])

lemma any_block_ok:
  assumes "wf_node n" "nbody n = NODE_BLOCK b \<and> \<not> r \<or> nbody n = NODE_RAW_BLOCK b"
    and "\<And>m. m \<in> near (nbody n) \<Longrightarrow> size m \<le> K"
  shows "returns (accept_any_block r acc n b s) (\<lambda>(n', s'). skeleton n' = skeleton n \<and> marks_ok n')"
proof -
  have body: "nbody n = NODE_BLOCK b \<or> nbody n = NODE_RAW_BLOCK b" using assms(2) by blast
  note wf = wf_blockD [OF assms(1) body]
  have size: "size m \<le> K" if "m \<in> set_option (block_program b) \<union> set_option (block_inverse b)" for m
    using assms(2,3) that by (auto simp: near_def subnodes_def struct_nodes)
  have np: "\<not> not_program m" if "wf_option m" for m
    using that by (cases m) (auto simp: not_program_def wf_option_def wf_program_node_def)
  show ?thesis
    unfolding accept_any_block_def
  proof (rule returns_bind [OF accept_option_ok [OF wf(1)]], use size in simp, clarify,
      rule returns_bind [OF accept_option_ok [OF wf(2)]], use size in simp, clarify)
    fix p s1 i s2 assume p: "same_option (block_program b) p" and i: "same_option (block_inverse b) i"
    note wp = same_wf_option [OF p wf(1)] and wi = same_wf_option [OF i wf(2)]
    let ?program = "if p \<noteq> None then p else i" and ?inv = "if p \<noteq> None then i else None"
    have w: "wf_option ?program" "wf_option ?inv" using wp wi by (simp_all add: wf_option_def)
    have "same_option (first_program b) ?program" "same_option (second_program b) ?inv"
      using p i same_None [OF p] by (auto simp: first_program_def second_program_def)
    then have "strips_ok b ?program ?inv"
      using wf(3) same_strips_ok by blast
    note f = finish_block_ok [OF w this, of r]
    show "returns (let program = ?program; inv_node = ?inv in
       if r \<and> (not_program program \<or> not_program inv_node) then Inl Assert_fail
       else
         ebind (finish_block r b program inv_node) (\<lambda>(strip, program', inv').
           let n' = (if p \<noteq> None then set_programs program' inv' n else set_programs None program' n)
           in Inr (ast_node strip (nloc n') (nbody n'), s2))) (\<lambda>(n', s'). skeleton n' = skeleton n \<and> marks_ok n')"
      unfolding Let_def
      by (rule returns_if, use np w in blast, rule returns_bind [OF f], clarify)
        (simp only: returns_Inr split block_end [OF assms(2) p i])
  qed
qed

lemma switch_ok:
  assumes "wf_node n" "\<And>m. m \<in> near (nbody n) \<Longrightarrow> size m \<le> K"
  shows "returns (whitespace_switch acc n s) (\<lambda>(n', s'). skeleton n' = skeleton n \<and> marks_ok n')"
proof -
  have no_marks: "marks_ok m" if "\<And>b. nbody m \<noteq> NODE_BLOCK b" for m
    using that by (auto simp: marks_ok_def lists_for_def split: handlebars_ast_internals.split)
  have generic_body: "nbody (handlebars_whitespace_accept_generic m) = nbody m" for m
    by (simp add: handlebars_whitespace_accept_generic_def add_strip_def)
  have generic: "skeleton (handlebars_whitespace_accept_generic m) = skeleton m" for m
    by (cases m) (simp add: handlebars_whitespace_accept_generic_def add_strip_def)
  show ?thesis
  proof (cases "nbody n")
    case (NODE_PROGRAM p)
    show ?thesis
    proof (cases "prog_statements p")
      case None
      then show ?thesis
        by (simp add: whitespace_switch_def NODE_PROGRAM handlebars_whitespace_accept_program_def no_marks)
    next
      case (Some xs)
      have xs: "wf_list xs" using assms(1) by (simp add: wf_node_simps [of n] NODE_PROGRAM Some wf_list_def)
      have "size x \<le> K" if "x \<in> set xs" for x
        using assms(2) [of x] that Some NODE_PROGRAM by (auto simp: near_def subnodes_def struct_nodes)
      then show ?thesis
        using set_statements_same [OF NODE_PROGRAM Some]
        by (auto simp: whitespace_switch_def NODE_PROGRAM handlebars_whitespace_accept_program_def Some
            intro!: returns_bind [OF program_ok [OF xs]] no_marks) (simp add: set_statements_def NODE_PROGRAM)
    qed
  next
    case (NODE_MUSTACHE m)
    have "returns (handlebars_whitespace_accept_mustache n m) (\<lambda>n'. skeleton n' = skeleton n \<and> marks_ok n')"
    proof (cases "must_path m")
      case (Some path)
      have "returns (path_text path) (\<lambda>_. True)" using assms(1) by (simp add: NODE_MUSTACHE Some wf_node_simps [of n])
      then show ?thesis
        unfolding handlebars_whitespace_accept_mustache_def Some option.case
        by (rule returns_bind) (auto simp: generic generic_body NODE_MUSTACHE intro: no_marks split: option.split)
    qed (simp add: handlebars_whitespace_accept_mustache_def NODE_MUSTACHE no_marks)
    then show ?thesis
      by (auto simp: whitespace_switch_def NODE_MUSTACHE intro: returns_bind)
  next
    case (NODE_BLOCK b)
    then show ?thesis
      using any_block_ok [OF assms(1) _ assms(2), of b False s] NODE_BLOCK
      by (simp add: whitespace_switch_def handlebars_whitespace_accept_block_def)
  next
    case (NODE_RAW_BLOCK b)
    then show ?thesis
      using any_block_ok [OF assms(1) _ assms(2), of b True s] NODE_RAW_BLOCK
      by (simp add: whitespace_switch_def handlebars_whitespace_accept_raw_block_def)
  qed (use assms(1) in \<open>auto simp: whitespace_switch_def wf_node_simps [of n] generic generic_body intro: no_marks\<close>)
qed

end

lemma whitespace_accept_ok:
  "wf_node n \<Longrightarrow> size n < k \<Longrightarrow> returns (whitespace_accept k n s) (\<lambda>(n', s'). skeleton n' = skeleton n \<and> marks_ok n')"
proof (induction k arbitrary: n s)
  case (Suc k)
  have "0 < size n" by (cases n) simp
  then have "0 < k" using Suc.prems(2) by simp
  have "size m \<le> k - 1" if "m \<in> near (nbody n)" for m
    using body_smaller [OF that] Suc.prems(2) by simp
  moreover have "whitespace_acceptor (whitespace_accept k) (k - 1)"
    by unfold_locales (rule Suc.IH; use \<open>0 < k\<close> in simp)
  ultimately show ?case
    using whitespace_acceptor.switch_ok [of "whitespace_accept k" "k - 1", OF _ Suc.prems(1)] by simp
qed simp

interpretation whitespace_walk: whitespace_acceptor "whitespace_accept (Suc k)" k for k
  by unfold_locales (rule whitespace_accept_ok, simp_all)

section \<open>Properties\<close>

text \<open>C17. On a tree of the parser in which no \<open>~\<close> faces a program without statements, whitespace control ends and
  does not fail: the tree it returns has the same structure, and every content has lost nothing but whitespace at
  its ends.\<close>
theorem whitespace_keeps_tree:
  assumes "wf_node n"
  shows "\<exists>n' seen'. handlebars_whitespace_accept n seen = Inr (n', seen') \<and> skeleton n' = skeleton n"
  using whitespace_accept_ok [OF assms, of "Suc (size n)" seen]
  by (auto simp: handlebars_whitespace_accept_def returns_def)

text \<open>A block around a text, and one without a program: \<open>{{#p}} x {{/p}}{{~#p}}{{/p}}\<close>.\<close>

definition wf_sample :: node where
  "wf_sample = ast_node 0 no_loc (NODE_PROGRAM (ast_program (Some [ast_node 0 no_loc (NODE_BLOCK (ast_block None None None
     (Some (ast_node 0 no_loc (NODE_PROGRAM (ast_program (Some [ast_node 0 no_loc (NODE_CONTENT
        (ast_literal (Some (handlebars_string_ctor '' x '')) (Some (handlebars_string_ctor '' x '')) False))]) None None False))))
     None strip_flag_right 0 strip_flag_left False)),
     ast_node 0 no_loc (NODE_BLOCK (ast_block None None None
       (Some (ast_node 0 no_loc (NODE_PROGRAM (ast_program None None None False)))) None strip_flag_left 0 0 False))])
     None None False))"

theorem whitespace_keeps_tree_witness:
  "wf_node wf_sample \<and> (\<exists>n' seen'. handlebars_whitespace_accept wf_sample False = Inr (n', seen') \<and> skeleton n' = skeleton wf_sample)"
proof -
  have "wf_node wf_sample"
    by (simp add: wf_sample_def strips_ok_def first_program_def second_program_def has_list_def strip_flag_defs)
  then show ?thesis using whitespace_keeps_tree by blast
qed

section \<open>A missing program\<close>

text \<open>The block that the parser builds for one without a body has one program, and that program has no statements.\<close>

definition empty_program :: "node \<Rightarrow> bool" where
  "empty_program n \<longleftrightarrow> (\<exists>p. nbody n = NODE_PROGRAM p \<and> prog_statements p = None \<and> \<not> prog_chained p)"

lemma prepare_empty_block:
  assumes "handlebars_ast_helper_prepare_block H ob None None cn inverted loc = Inr n"
  obtains b m where "nbody n = NODE_BLOCK b" "first_program b = Some m" "empty_program m" "second_program b = None"
    "open_strip b = nstrip ob" "close_strip b = (case cn of None \<Rightarrow> 0 | Some c \<Rightarrow> nstrip c)"
    "block_program b = Some m \<or> block_program b = None \<and> block_inverse b = Some m"
proof -
  obtain i where i: "as_intermediate ob = Inr i" "check_close H (inter_path i) cn = Inr ()"
    using assms by (auto simp: handlebars_ast_helper_prepare_block_def)
  let ?m = "set_block_params (inter_block_param1 i) (inter_block_param2 i) (handlebars_ast_node_ctor HANDLEBARS_AST_NODE_PROGRAM)"
  have m: "empty_program ?m" "ast_type ?m = HANDLEBARS_AST_NODE_PROGRAM"
    by (simp_all add: empty_program_def set_block_params_def)
  show ?thesis
    using that assms m i
    by (cases inverted) (auto simp: handlebars_ast_helper_prepare_block_def prepare_inverse_def drop_nil_def
        handlebars_ast_node_ctor_block_def with_loc_def set_decorator_def first_program_def second_program_def)
qed

lemma accept_empty: "empty_program m \<Longrightarrow> whitespace_accept (Suc k) m seen = Inr (m, True)"
  by (auto simp: empty_program_def whitespace_switch_def handlebars_whitespace_accept_program_def)

lemma empty_tests:
  assumes "empty_program m"
  shows "program_test handlebars_whitespace_is_next_whitespace (Some m) = Inr False"
    "program_test handlebars_whitespace_is_prev_whitespace (Some m) = Inr False"
    "omit_in handlebars_whitespace_omit_left u m = Inl Mem_error" "omit_in handlebars_whitespace_omit_right u m = Inl Mem_error"
  using assms
  by (auto simp: empty_program_def program_test_def node_statements_def omit_in_def handlebars_whitespace_omit_left_def
      handlebars_whitespace_omit_right_def omit_at_def)

lemma finish_empty:
  assumes "empty_program m" "has_flag (open_strip b) strip_flag_right \<or> has_flag (close_strip b) strip_flag_left"
  shows "finish_block False b (Some m) None = Inl Mem_error"
  using assms by (auto simp: finish_block_def check_chain_def empty_tests omit_if_def strip_programs_def)

lemma empty_block_fails:
  assumes "block_program b = Some m \<or> block_program b = None \<and> block_inverse b = Some m" "second_program b = None"
    and "acc m seen = Inr (m, True)" "finish_block False b (Some m) None = Inl Mem_error"
  shows "accept_any_block False acc n b seen = Inl Mem_error"
  using assms by (auto simp: accept_any_block_def accept_option_def second_program_def)

text \<open>C18. A block with nothing in it crashes the parser when one of its inner sides has a \<open>~\<close>: of \<open>{{#foo~}}{{/foo}}\<close> or
  \<open>{{#foo}}{{~/foo}}\<close> the parser makes a program without statements, and whitespace control reads the
  first or last of them through the NULL pointer.\<close>
theorem whitespace_empty_block_crashes:
  assumes "handlebars_ast_helper_prepare_block H open_block None None close_node inverted loc = Inr n"
    and "has_flag (nstrip open_block) strip_flag_right \<or> (\<exists>c. close_node = Some c \<and> has_flag (nstrip c) strip_flag_left)"
  shows "handlebars_whitespace_accept n seen = Inl Mem_error"
proof -
  obtain b m where b: "nbody n = NODE_BLOCK b" "first_program b = Some m" "empty_program m"
      "open_strip b = nstrip open_block" "close_strip b = (case close_node of None \<Rightarrow> 0 | Some c \<Rightarrow> nstrip c)"
      "block_program b = Some m \<or> block_program b = None \<and> block_inverse b = Some m" "second_program b = None"
    using assms(1) by (rule prepare_empty_block) blast
  have "size n \<noteq> 0" by (cases n) simp
  then obtain k where k: "size n = Suc k" by (cases "size n") auto
  have "finish_block False b (Some m) None = Inl Mem_error"
    by (rule finish_empty [OF b(3)]) (use assms(2) b(4,5) in auto)
  then have "accept_any_block False (whitespace_accept (Suc k)) n b seen = Inl Mem_error"
    using b(6,7) accept_empty [OF b(3)] by (intro empty_block_fails)
  then show ?thesis
    unfolding handlebars_whitespace_accept_def k whitespace_accept.simps(2) [of "Suc k"]
    by (simp only: whitespace_switch_def b(1) handlebars_ast_internals.case handlebars_whitespace_accept_block_def)
qed

text \<open>\<open>{{#foo~}}{{/foo}}\<close>\<close>

definition open_foo :: "u32 \<Rightarrow> node" where
  "open_foo strip = ast_node strip no_loc (NODE_INTERMEDIATE (ast_intermediate
     (Some (ast_node 0 no_loc (NODE_PATH (ast_path (Some (handlebars_string_ctor ''foo'')) (Some []) 0 False False False))))
     None None None None None))"

theorem whitespace_empty_block_crashes_witness:
  "\<exists>n. handlebars_ast_helper_prepare_block (\<lambda>_. 7) (open_foo strip_flag_right) None None (Some (open_foo 0)) False no_loc = Inr n \<and>
     handlebars_whitespace_accept n True = Inl Mem_error"
proof -
  obtain n where n: "handlebars_ast_helper_prepare_block (\<lambda>_. 7) (open_foo strip_flag_right) None None (Some (open_foo 0)) False no_loc = Inr n"
    by (simp add: handlebars_ast_helper_prepare_block_def open_foo_def as_intermediate_def check_close_def prepare_inverse_def
        drop_nil_def set_block_params_def handlebars_ast_node_get_string_mode_value_def handlebars_string_eq_def
        handlebars_ast_node_ctor_block_def is_decorator_open_def)
  then show ?thesis
    using whitespace_empty_block_crashes [OF n, of True] by (simp add: open_foo_def strip_flag_defs)
qed

end
