(* ===== verification/WhitespaceLines.thy ===== *)
theory WhitespaceLines
  imports WhitespaceProofs
begin

text \<open>
  What whitespace control is for: a standalone tag (a comment, a delimiter change, a partial) that is alone on its line
  disappears with the line, and a standalone partial takes the blanks in front of it as its indentation.
\<close>

section \<open>Texts\<close>

definition content_text :: "node \<Rightarrow> string option" where
  "content_text n = (case nbody n of NODE_CONTENT l \<Rightarrow> map_option sval (lit_value l) | _ \<Rightarrow> None)"

text \<open>A content as the parser builds it, its flag for this side still clear: its value is its original text.\<close>

definition fresh :: "u32 \<Rightarrow> string \<Rightarrow> node \<Rightarrow> bool" where
  "fresh stripped t n \<longleftrightarrow> \<not> has_flag (nstrip n) stripped \<and>
     (case nbody n of
        NODE_CONTENT l \<Rightarrow> map_option sval (lit_value l) = Some t \<and> map_option sval (lit_original l) = Some t
      | _ \<Rightarrow> False)"

lemma freshE:
  assumes "fresh stripped t n"
  obtains l v w where "nbody n = NODE_CONTENT l" "lit_value l = Some v" "lit_original l = Some w"
    "sval v = t" "sval w = t" "\<not> has_flag (nstrip n) stripped"
  using assms by (auto simp: fresh_def split: handlebars_ast_internals.splits)

abbreviation blank_codes :: "nat list \<Rightarrow> bool" where
  "blank_codes cps \<equiv> set cps \<subseteq> {0x20, 0x09}"

lemma utf8s_append [simp]: "utf8s (xs @ ys) = utf8s xs @ utf8s ys"
  by (simp add: utf8s_def)

lemma utf8s_Nil [simp]: "utf8s [] = []"
  by (simp add: utf8s_def)

lemma utf8s_Cons: "utf8s (x # xs) = utf8 x @ utf8s xs"
  by (simp add: utf8s_def)

lemma utf8_newline: "utf8 0x0A = [newline]"
  by (simp add: utf8_def char_of_def bit_Suc_0_iff)

lemma utf8_blank: "cp \<in> {0x20, 0x09} \<Longrightarrow> \<exists>c \<in> set blanks. c \<noteq> NUL \<and> utf8 cp = [c]"
  by (auto simp: utf8_def blanks_def char_of_def bit_Suc_0_iff)

lemma blank_text: "blank_codes cps \<Longrightarrow> set (utf8s cps) \<subseteq> set blanks - {NUL}"
proof (induction cps)
  case (Cons x xs)
  then show ?case using utf8_blank [of x] by (auto simp: utf8s_Cons)
qed simp

lemma blank_code: "cp \<in> {0x20, 0x09} \<Longrightarrow> class_of cp = Blank \<and> code_point cp"
  by (auto simp: class_of_def code_point_def)

lemma blank_decides: "blank_codes w \<Longrightarrow> decides d (w @ 0x0A # z)"
proof -
  assume "blank_codes w"
  then have "dropWhile (\<lambda>cp. class_of cp = Blank) (w @ 0x0A # z) = 0x0A # z"
    using blank_code by (subst dropWhile_append2) (auto simp: class_of_def)
  then show ?thesis by (simp add: decides_def class_of_def)
qed

text \<open>A text that ends with blanks on a new line, and one that starts with the rest of a blank line.\<close>

abbreviation line_start :: "nat list \<Rightarrow> nat list \<Rightarrow> string" where
  "line_start cps indent \<equiv> utf8s (cps @ 0x0A # indent)"

abbreviation line_end :: "nat list \<Rightarrow> nat list \<Rightarrow> string" where
  "line_end ws cps \<equiv> utf8s (ws @ 0x0A # cps)"

lemma scan_line_start:
  assumes "blank_codes indent" "\<forall>cp \<in> set cps. code_point cp"
  shows "handlebars_scanner_prev_whitespace (line_start cps indent) d"
proof -
  have "\<forall>cp \<in> set (cps @ 0x0A # indent). code_point cp"
    using assms blank_code by (auto simp: code_point_def)
  moreover have "decides d (rev (cps @ 0x0A # indent))" using blank_decides [of "rev indent"] assms(1) by simp
  ultimately show ?thesis using prev_loop_utf8 handlebars_scanner_prev_whitespace_def by metis
qed

lemma scan_line_end:
  assumes "blank_codes ws" "\<forall>cp \<in> set cps. code_point cp"
  shows "handlebars_scanner_next_whitespace (line_end ws cps) d"
proof -
  have "\<forall>cp \<in> set (ws @ 0x0A # cps). code_point cp"
    using assms blank_code by (auto simp: code_point_def)
  then show ?thesis using next_whitespace_utf8 blank_decides assms(1) by metis
qed

section \<open>Trimming a line\<close>

lemma newline_no_blank: "newline \<notin> set blanks"
  by (simp add: blanks_def)

lemma trim_line_start:
  assumes "blank_codes indent" "sval v = line_start cps indent"
  shows "\<exists>v'. trim_left_side False v = Inr v' \<and> sval v' = utf8s (cps @ [0x0A])"
proof -
  have "dropWhile (\<lambda>c. c \<in> set blanks) (rev (utf8s indent) @ newline # rev (utf8s cps)) = newline # rev (utf8s cps)"
    using blank_text [OF assms(1)] newline_no_blank by (subst dropWhile_append2) auto
  then show ?thesis
    by (simp add: trim_left_side_def sval_rtrim assms(2) utf8s_Cons utf8_newline)
qed

lemma trim_line_end:
  assumes "blank_codes ws" "sval v = line_end ws cps"
  shows "\<exists>v'. trim_right_side False v = Inr v' \<and> sval v' = utf8s cps"
proof -
  have "dropWhile (\<lambda>c. c \<noteq> NUL \<and> c \<in> set blanks) (utf8s ws @ newline # utf8s cps) = newline # utf8s cps"
    using blank_text [OF assms(1)] newline_no_blank by (subst dropWhile_append2) auto
  then have "sval (handlebars_string_ltrim v blanks) = newline # utf8s cps"
    by (simp add: sval_ltrim assms(2) utf8s_Cons utf8_newline)
  then show ?thesis
    by (simp add: trim_right_side_def drop_first_def handlebars_string_truncate_def Let_def hbs_str_len_def
        separate_string_def)
qed

lemma stripped_bit:
  fixes w m :: u32
  assumes "m AND 1 = 0" "m \<noteq> 0"
  shows "\<not> has_flag ((w AND NOT m) OR 1) m" "has_flag ((w OR m) OR 1) m"
proof -
  have "((w AND NOT m) OR 1) AND m = 0" "((w OR m) OR 1) AND m = m"
    using assms(1) by (auto simp: bit_eq_iff bit_simps)
  then show "\<not> has_flag ((w AND NOT m) OR 1) m" "has_flag ((w OR m) OR 1) m" using assms(2) by simp_all
qed

lemma omit_content_fresh:
  assumes "fresh stripped t n" "stripped \<in> {strip_flag_left_stripped, strip_flag_right_stripped}"
    and "\<And>v. sval v = t \<Longrightarrow> \<exists>v'. trim False v = Inr v' \<and> sval v' = t'"
  shows "\<exists>n'. omit_content trim stripped False n = Inr (length t' \<noteq> length t, n') \<and> content_text n' = Some t' \<and>
    (\<exists>l w. nbody n' = NODE_CONTENT l \<and> lit_original l = Some w \<and> sval w = t)"
proof -
  obtain l v w where n: "nbody n = NODE_CONTENT l" "lit_value l = Some v" "lit_original l = Some w" "sval v = t"
      "sval w = t" "\<not> has_flag (nstrip n) stripped"
    using assms(1) by (rule freshE)
  obtain v' where v': "trim False v = Inr v'" "sval v' = t'" using assms(3) n(4) by blast
  have "stripped AND 1 = 0" "stripped \<noteq> 0" using assms(2) by (auto simp: strip_flag_defs)
  note bits = stripped_bit [OF this]
  have "length (sval v) = length (sval v') \<longleftrightarrow> length t' = length t" using n(4) v'(2) by auto
  then show ?thesis
    using n v'(2) bits
    by (cases "length t' = length t")
      (simp_all add: omit_content_def content_text_def Let_def v'(1) hbs_str_len_def strip_flag_set_def)
qed

section \<open>The indentation of a partial\<close>

lemma NUL_char_of: "char_of n = NUL \<longleftrightarrow> n mod 256 = (0::nat)"
  by (simp add: char_of_eq_iff take_bit_eq_mod)

lemma no_NUL: "code_point cp \<Longrightarrow> NUL \<notin> set (utf8 cp)"
proof -
  assume cp: "code_point cp"
  have c: "NUL \<noteq> char_of n" if "0 < n" "n < 256" for n :: nat using that NUL_char_of [of n] by (metis mod_less not_gr_zero)
  have k: "NUL \<noteq> char_of (128 + k)" if "k < 64" for k :: nat by (rule c) (use that in simp_all)
  have "NUL \<noteq> char_of (240 + cp div 262144)" by (rule c) (use cp in \<open>auto simp: code_point_def\<close>)
  moreover have "NUL \<noteq> char_of (224 + cp div 4096)" if "cp < 0x10000" by (rule c) (use that in auto)
  moreover have "NUL \<noteq> char_of (192 + cp div 64)" if "cp < 0x800" by (rule c) (use that in auto)
  moreover have "NUL \<noteq> char_of cp" if "cp < 0x80" by (rule c) (use that cp in \<open>auto simp: code_point_def\<close>)
  moreover note k [of "cp mod 64"] k [of "cp div 64 mod 64"] k [of "cp div 4096 mod 64"]
  ultimately show ?thesis by (simp add: utf8_def)
qed

lemma no_NULs: "\<forall>cp \<in> set cps. code_point cp \<Longrightarrow> NUL \<notin> set (utf8s cps)"
  using no_NUL by (auto simp: utf8s_def)

lemma match_blanks_reset: "c \<notin> set blanks \<Longrightarrow> match_blanks (xs @ c # ys) m = match_blanks ys None"
  by (induction xs arbitrary: m) simp_all

lemma match_blanks_Some: "set xs \<subseteq> set blanks \<Longrightarrow> match_blanks xs (Some m) = Some m"
  by (induction xs) auto

lemma match_blanks_run: "set xs \<subseteq> set blanks \<Longrightarrow> match_blanks xs None = (if xs = [] then None else Some xs)"
  by (cases xs) (auto simp: match_blanks_Some)

lemma match_line_start:
  assumes "blank_codes indent" "\<forall>cp \<in> set cps. code_point cp" "sval s = line_start cps indent"
  shows "match_blanks (c_string s) None = (if utf8s indent = [] then None else Some (utf8s indent))"
proof -
  have "\<forall>cp \<in> set (cps @ 0x0A # indent). code_point cp"
    using assms blank_code by (auto simp: code_point_def)
  then have "\<forall>c \<in> set (sval s). c \<noteq> NUL" using no_NULs assms(3) by metis
  then have "c_string s = sval s" by (simp add: c_string_def takeWhile_eq_all_conv)
  moreover have "line_start cps indent = utf8s cps @ newline # utf8s indent" by (simp add: utf8s_Cons utf8_newline)
  ultimately show ?thesis
    using blank_text [OF assms(1)] newline_no_blank assms(3)
    by (simp add: match_blanks_reset match_blanks_run subset_iff)
qed

section \<open>A line\<close>

text \<open>Statement \<open>i\<close> stands alone on its line: the line starts in the content before it, and ends in the one behind it.\<close>

definition alone :: "nat list \<Rightarrow> nat list \<Rightarrow> nat list \<Rightarrow> nat list \<Rightarrow> nat \<Rightarrow> node list \<Rightarrow> bool" where
  "alone before indent ws behind i xs \<longleftrightarrow>
     0 < i \<and> i + 1 < length xs \<and> nstrip (xs ! i) = strip_flag_set OR strip_flag_inline_standalone \<and>
     blank_codes indent \<and> blank_codes ws \<and> (\<forall>cp \<in> set before \<union> set behind. code_point cp) \<and>
     fresh strip_flag_left_stripped (line_start before indent) (xs ! (i - 1)) \<and>
     fresh strip_flag_right_stripped (line_end ws behind) (xs ! (i + 1))"

lemma utf8s_empty: "utf8s cps = [] \<longleftrightarrow> cps = []"
  by (cases cps) (simp_all add: utf8s_Cons utf8_def)

definition with_indent :: "nat list \<Rightarrow> node \<Rightarrow> node" where
  "with_indent indent n =
     (if ast_type n = HANDLEBARS_AST_NODE_PARTIAL \<and> indent \<noteq> []
      then set_indent (handlebars_string_ctor (utf8s indent)) n else n)"

lemma inline_standalone_alone:
  assumes "alone before indent ws behind i xs"
  shows "\<exists>a b. inline_standalone i xs = Inr (xs[i + 1 := b, i - 1 := a, i := with_indent indent (xs ! i)]) \<and>
    content_text a = Some (utf8s (before @ [0x0A])) \<and> content_text b = Some (utf8s behind)"
proof -
  note al = assms [unfolded alone_def]
  then have f: "fresh strip_flag_left_stripped (line_start before indent) (xs ! (i - 1))"
    "fresh strip_flag_right_stripped (line_end ws behind) (xs ! (i + 1))" "blank_codes indent" "blank_codes ws"
    by auto
  obtain b where b: "omit_content trim_right_side strip_flag_right_stripped False (xs ! (i + 1)) =
      Inr (length (utf8s behind) \<noteq> length (line_end ws behind), b)" "content_text b = Some (utf8s behind)"
    using omit_content_fresh [OF f(2), of trim_right_side "utf8s behind"] trim_line_end [OF f(4)] by auto
  obtain a l w where a: "omit_content trim_left_side strip_flag_left_stripped False (xs ! (i - 1)) =
      Inr (length (utf8s (before @ [0x0A])) \<noteq> length (line_start before indent), a)"
      "content_text a = Some (utf8s (before @ [0x0A]))"
      "nbody a = NODE_CONTENT l" "lit_original l = Some w" "sval w = line_start before indent"
    using omit_content_fresh [OF f(1), of trim_left_side "utf8s (before @ [0x0A])"] trim_line_start [OF f(3)] by auto
  have right: "omit_list handlebars_whitespace_omit_right False i xs =
      Inr (length (utf8s behind) \<noteq> length (line_end ws behind), xs[i + 1 := b])"
    using al b(1) by (simp add: omit_list_def handlebars_whitespace_omit_right_def omit_at_def next_index_def)
  have left: "omit_list handlebars_whitespace_omit_left False i (xs[i + 1 := b]) =
      Inr (utf8s indent \<noteq> [], xs[i + 1 := b, i - 1 := a])"
    using al a(1) by (simp add: omit_list_def handlebars_whitespace_omit_left_def omit_at_def prev_index_def utf8s_Cons)
  have "match_blanks (c_string w) None = (if utf8s indent = [] then None else Some (utf8s indent))"
    using match_line_start [of indent before w] al a(5) by simp
  note m = this
  define ys where "ys = xs[i + 1 := b, i - 1 := a]"
  have ys: "ys ! i = xs ! i" "ys ! (i - 1) = a" "i < length ys" using al by (auto simp: ys_def nth_list_update)
  then have same: "ys[i := xs ! i] = ys" by (metis list_update_id)
  have "partial_indent ys i = Inr (ys[i := with_indent indent (xs ! i)])" if "indent \<noteq> []"
    using that m same al ys(1,2) a(3,4) by (simp add: partial_indent_def with_indent_def utf8s_empty)
  then have "inline_standalone i xs = Inr (ys[i := with_indent indent (xs ! i)])"
    using same
    unfolding inline_standalone_def right left [folded ys_def] ebind.simps split utf8s_empty
    by (cases "indent = []") (simp_all add: with_indent_def)
  then show ?thesis using a(2) b(2) unfolding ys_def by blast
qed

lemma alone_tests:
  assumes "alone before indent ws behind i xs"
  shows "handlebars_whitespace_is_prev_whitespace (Some xs) (Some i) r = Inr True"
    and "handlebars_whitespace_is_next_whitespace (Some xs) (Some i) r = Inr True"
proof -
  note al = assms [unfolded alone_def]
  show "handlebars_whitespace_is_prev_whitespace (Some xs) (Some i) r = Inr True"
    using al scan_line_start [of indent before]
    by (auto simp: handlebars_whitespace_is_prev_whitespace_def prev_index_def content_test_def elim!: freshE)
  show "handlebars_whitespace_is_next_whitespace (Some xs) (Some i) r = Inr True"
    using al scan_line_end [of ws behind]
    by (auto simp: handlebars_whitespace_is_next_whitespace_def next_index_def content_test_def elim!: freshE)
qed

section \<open>Properties\<close>

text \<open>C19. A standalone tag that is alone on its line disappears with the whole line: the text in front of it ends with its
  line break, the text behind it starts on the next line, and a partial takes the blanks in front of it as its
  indentation. Nothing else changes.\<close>
theorem standalone_line_removed:
  assumes "alone before indent ws behind i xs"
  shows "\<exists>a b. apply_strip r i xs = Inr (xs[i + 1 := b, i - 1 := a, i := with_indent indent (xs ! i)]) \<and>
    content_text a = Some (utf8s (before @ [0x0A])) \<and> content_text b = Some (utf8s behind)"
proof -
  have strip: "nstrip (xs ! i) = strip_flag_set OR strip_flag_inline_standalone" using assms by (simp add: alone_def)
  show ?thesis
    using inline_standalone_alone [OF assms]
    unfolding apply_strip_def strip alone_tests [OF assms]
    by (auto simp: strip_flag_defs omit_list_if_def)
qed

text \<open>The partial of \<open>"a\n  {{> p}}\nb"\<close>.\<close>

definition text_node :: "string \<Rightarrow> node" where
  "text_node t = ast_node 0 no_loc
     (NODE_CONTENT (ast_literal (Some (handlebars_string_ctor t)) (Some (handlebars_string_ctor t)) False))"

definition line_sample :: "node list" where
  "line_sample =
     [text_node (line_start [0x61] [0x20, 0x20]),
      ast_node (strip_flag_set OR strip_flag_inline_standalone) no_loc (NODE_PARTIAL (ast_partial None None None None)),
      text_node (line_end [] [0x62])]"

theorem standalone_line_removed_witness:
  "alone [0x61] [0x20, 0x20] [] [0x62] 1 line_sample \<and>
   (\<exists>a b. apply_strip True 1 line_sample = Inr [a, with_indent [0x20, 0x20] (line_sample ! 1), b] \<and>
     content_text a = Some [CHR ''a'', newline] \<and> content_text b = Some ''b'')"
proof -
  have al: "alone [0x61] [0x20, 0x20] [] [0x62] 1 line_sample"
    by (simp add: alone_def line_sample_def fresh_def text_node_def strip_flag_defs code_point_def str_defs)
  have "utf8s [0x61, 0x0A] = [CHR ''a'', newline]" "utf8s [0x62] = ''b''"
    by (simp_all add: utf8s_def utf8_def char_of_def bit_Suc_0_iff bit_numeral_rec)
  with al show ?thesis
    using standalone_line_removed [OF al, of True] by (simp add: line_sample_def)
qed

end
