(* ===== verification/Values.thy ===== *)
theory Values
  imports HMapOps StringEdit StringEscape VStack Serializer Builtins AstHelpers CNumbers
begin

text \<open>
  The values of the template language (src/handlebars_value.c): what a context, a parameter or the result of a
  helper is. A value has a flags byte and a body; the body of an array or a map is shared between copies and
  copied before it is changed, so it is the list of its elements here, together with an identity that stands for
  its address: \<open>handlebars_value_eq\<close> compares addresses. A map is the list of its items in insertion order, which
  is what \<open>HMapOps\<close> proves the hash map to be; \<open>H\<close> is the string hash.

  A \<open>double\<close> is its 64 bits, and \<open>G\<close> the conversion \<open>%g\<close>. A pointer value points to a module. Values of type
  USER, whose operations are functions of the embedding program, are not modelled; functions that the embedding
  program registers as helpers or closures are numbers.
\<close>

section \<open>Values\<close>

datatype handlebars_value_type =
    HANDLEBARS_VALUE_TYPE_NULL
  | HANDLEBARS_VALUE_TYPE_TRUE
  | HANDLEBARS_VALUE_TYPE_FALSE
  | HANDLEBARS_VALUE_TYPE_INTEGER
  | HANDLEBARS_VALUE_TYPE_FLOAT
  | HANDLEBARS_VALUE_TYPE_STRING
  | HANDLEBARS_VALUE_TYPE_ARRAY
  | HANDLEBARS_VALUE_TYPE_MAP
  | HANDLEBARS_VALUE_TYPE_USER
  | HANDLEBARS_VALUE_TYPE_PTR
  | HANDLEBARS_VALUE_TYPE_HELPER
  | HANDLEBARS_VALUE_TYPE_CLOSURE

datatype handlebars_helper_func = Builtin nat | Registered nat

datatype handlebars_closure_func =
    invoke_partial_block_closure
  | invoke_partial_string_closure
  | invoke_mustache_style_lambda_closure
  | Registered_closure nat

datatype 'v handlebars_value_internals =
    V_NULL
  | V_TRUE
  | V_FALSE
  | V_INTEGER u64
  | V_FLOAT u64
  | V_STRING hstr
  | V_ARRAY nat "'v list"
  | V_MAP nat "(hstr \<times> 'v) list"
  | V_PTR nat nat
  | V_HELPER handlebars_helper_func
  | V_CLOSURE nat handlebars_closure_func "'v list"

datatype handlebars_value =
  handlebars_value (vflags: u8) (vbody: "handlebars_value handlebars_value_internals")

type_synonym "value" = handlebars_value

definition HANDLEBARS_VALUE_FLAG_SAFE_STRING :: u8 where
  "HANDLEBARS_VALUE_FLAG_SAFE_STRING = 1"

text \<open>A zeroed value.\<close>

abbreviation null_value :: "value" where
  "null_value \<equiv> handlebars_value 0 V_NULL"

section \<open>Getters\<close>

fun handlebars_value_get_type :: "value \<Rightarrow> handlebars_value_type" where
  "handlebars_value_get_type (handlebars_value f b) =
     (case b of
        V_NULL \<Rightarrow> HANDLEBARS_VALUE_TYPE_NULL
      | V_TRUE \<Rightarrow> HANDLEBARS_VALUE_TYPE_TRUE
      | V_FALSE \<Rightarrow> HANDLEBARS_VALUE_TYPE_FALSE
      | V_INTEGER _ \<Rightarrow> HANDLEBARS_VALUE_TYPE_INTEGER
      | V_FLOAT _ \<Rightarrow> HANDLEBARS_VALUE_TYPE_FLOAT
      | V_STRING _ \<Rightarrow> HANDLEBARS_VALUE_TYPE_STRING
      | V_ARRAY _ _ \<Rightarrow> HANDLEBARS_VALUE_TYPE_ARRAY
      | V_MAP _ _ \<Rightarrow> HANDLEBARS_VALUE_TYPE_MAP
      | V_PTR _ _ \<Rightarrow> HANDLEBARS_VALUE_TYPE_PTR
      | V_HELPER _ \<Rightarrow> HANDLEBARS_VALUE_TYPE_HELPER
      | V_CLOSURE _ _ _ \<Rightarrow> HANDLEBARS_VALUE_TYPE_CLOSURE)"

definition handlebars_value_get_string :: "value \<Rightarrow> hstr option" where
  "handlebars_value_get_string v = (case vbody v of V_STRING s \<Rightarrow> Some s | _ \<Rightarrow> None)"

definition handlebars_value_get_intval :: "value \<Rightarrow> u64" where
  "handlebars_value_get_intval v = (case vbody v of V_INTEGER n \<Rightarrow> n | _ \<Rightarrow> 0)"

text \<open>Both zeros are 0.\<close>

definition double_zero :: "u64 \<Rightarrow> bool" where
  "double_zero d \<longleftrightarrow> d AND (2 ^ 63 - 1) = 0"

definition double_nan :: "u64 \<Rightarrow> bool" where
  "double_nan d \<longleftrightarrow> d AND (2 ^ 63 - 1) > 0x7FF0000000000000"

definition double_eq :: "u64 \<Rightarrow> u64 \<Rightarrow> bool" where
  "double_eq a b \<longleftrightarrow> \<not> double_nan a \<and> \<not> double_nan b \<and> (a = b \<or> double_zero a \<and> double_zero b)"

definition handlebars_value_count :: "value \<Rightarrow> int" where
  "handlebars_value_count v =
     (case vbody v of V_ARRAY _ xs \<Rightarrow> int (length xs) | V_MAP _ kvs \<Rightarrow> int (length kvs) | _ \<Rightarrow> - 1)"

definition handlebars_value_get_boolval :: "value \<Rightarrow> bool" where
  "handlebars_value_get_boolval v =
     (case vbody v of
        V_TRUE \<Rightarrow> True
      | V_FLOAT d \<Rightarrow> \<not> double_zero d
      | V_INTEGER n \<Rightarrow> n \<noteq> 0
      | V_STRING s \<Rightarrow> hbs_str_len s \<noteq> 0 \<and> c_string s \<noteq> ''0''
      | V_ARRAY _ xs \<Rightarrow> xs \<noteq> []
      | V_MAP _ kvs \<Rightarrow> kvs \<noteq> []
      | _ \<Rightarrow> False)"

definition handlebars_value_is_empty :: "value \<Rightarrow> bool" where
  "handlebars_value_is_empty v \<longleftrightarrow> \<not> handlebars_value_get_boolval v"

definition handlebars_value_is_callable :: "value \<Rightarrow> bool" where
  "handlebars_value_is_callable v \<longleftrightarrow>
     handlebars_value_get_type v \<in> {HANDLEBARS_VALUE_TYPE_HELPER, HANDLEBARS_VALUE_TYPE_CLOSURE}"

definition handlebars_value_is_scalar :: "value \<Rightarrow> bool" where
  "handlebars_value_is_scalar v \<longleftrightarrow>
     handlebars_value_get_type v \<in> {HANDLEBARS_VALUE_TYPE_NULL, HANDLEBARS_VALUE_TYPE_TRUE, HANDLEBARS_VALUE_TYPE_FALSE,
       HANDLEBARS_VALUE_TYPE_FLOAT, HANDLEBARS_VALUE_TYPE_INTEGER, HANDLEBARS_VALUE_TYPE_STRING}"

section \<open>Mutators\<close>

text \<open>
  They write the body of the value they are called on and keep its flags: \<open>handlebars_value_dtor\<close> clears the
  type and the union only. \<open>handlebars_value_value\<close> copies the whole structure, so in the model it is the source.
\<close>

definition set_body :: "value \<Rightarrow> value handlebars_value_internals \<Rightarrow> value" where
  "set_body v b = handlebars_value (vflags v) b"

definition handlebars_value_null :: "value \<Rightarrow> value" where
  "handlebars_value_null v = set_body v V_NULL"

definition handlebars_value_boolean :: "value \<Rightarrow> bool \<Rightarrow> value" where
  "handlebars_value_boolean v b = set_body v (if b then V_TRUE else V_FALSE)"

definition handlebars_value_integer :: "value \<Rightarrow> u64 \<Rightarrow> value" where
  "handlebars_value_integer v n = set_body v (V_INTEGER n)"

definition handlebars_value_str :: "value \<Rightarrow> hstr \<Rightarrow> value" where
  "handlebars_value_str v s = set_body v (V_STRING s)"

definition handlebars_value_helper :: "value \<Rightarrow> handlebars_helper_func \<Rightarrow> value" where
  "handlebars_value_helper v h = set_body v (V_HELPER h)"

definition handlebars_value_set_flag :: "value \<Rightarrow> u8 \<Rightarrow> value" where
  "handlebars_value_set_flag v f = handlebars_value (vflags v OR f) (vbody v)"

section \<open>Arrays and maps\<close>

definition handlebars_value_array_find :: "value \<Rightarrow> u64 \<Rightarrow> value option" where
  "handlebars_value_array_find v index =
     (case vbody v of
        V_ARRAY _ xs \<Rightarrow> if unat index < length xs then Some (xs ! unat index) else None
      | _ \<Rightarrow> None)"

definition handlebars_value_map_find :: "(string \<Rightarrow> u32) \<Rightarrow> value \<Rightarrow> hstr \<Rightarrow> value option" where
  "handlebars_value_map_find H v key =
     (case vbody v of V_MAP _ kvs \<Rightarrow> lookup_item H key kvs | _ \<Rightarrow> None)"

definition handlebars_value_map_str_find :: "(string \<Rightarrow> u32) \<Rightarrow> value \<Rightarrow> string \<Rightarrow> value option" where
  "handlebars_value_map_str_find H v key = handlebars_value_map_find H v (handlebars_string_ctor key)"

text \<open>The stack of an array value can grow and is not protected.\<close>

definition handlebars_value_array_set :: "value \<Rightarrow> nat \<Rightarrow> value \<Rightarrow> hbs_error + value" where
  "handlebars_value_array_set v index child =
     (case vbody v of
        V_ARRAY a xs \<Rightarrow>
          if index = length xs then Inr (set_body v (V_ARRAY a (xs @ [child])))
          else if index > length xs then Inl (Throw HANDLEBARS_STACK_OVERFLOW ''Out-of-bounds'')
          else Inr (set_body v (V_ARRAY a (xs[index := child])))
      | _ \<Rightarrow> Inl Assert_fail)"

definition handlebars_value_array_push :: "value \<Rightarrow> value \<Rightarrow> hbs_error + value" where
  "handlebars_value_array_push v child =
     (case vbody v of V_ARRAY a xs \<Rightarrow> Inr (set_body v (V_ARRAY a (xs @ [child]))) | _ \<Rightarrow> Inl Assert_fail)"

definition handlebars_value_map_update :: "(string \<Rightarrow> u32) \<Rightarrow> value \<Rightarrow> hstr \<Rightarrow> value \<Rightarrow> hbs_error + value" where
  "handlebars_value_map_update H v key child =
     (case vbody v of
        V_MAP a kvs \<Rightarrow> Inr (set_body v (V_MAP a (update_item H key child kvs)))
      | _ \<Rightarrow> Inl Assert_fail)"

text \<open>
  What the iterator visits: the index, the key of a map's item, and the child. The map of a value is the dense list of
  its items here: the compaction that the iterator runs on the map first returns at once on a map without tombstones
  (only a removal leaves one, which no operation on values does), so it is no part of this function; what it does to a
  map with tombstones is the subject of \<open>HMapCompact\<close>.
\<close>

definition value_items :: "value \<Rightarrow> (nat \<times> hstr option \<times> value) list" where
  "value_items v =
     (case vbody v of
        V_ARRAY _ xs \<Rightarrow> map (\<lambda>(i, c). (i, None, c)) (enumerate 0 xs)
      | V_MAP _ kvs \<Rightarrow> map (\<lambda>(i, k, c). (i, Some k, c)) (enumerate 0 kvs)
      | _ \<Rightarrow> [])"

section \<open>Comparison and conversion\<close>

definition handlebars_value_eq :: "(string \<Rightarrow> u32) \<Rightarrow> value \<Rightarrow> value \<Rightarrow> bool" where
  "handlebars_value_eq H v w =
     (case (vbody v, vbody w) of
        (V_NULL, V_NULL) \<Rightarrow> True
      | (V_TRUE, V_TRUE) \<Rightarrow> True
      | (V_FALSE, V_FALSE) \<Rightarrow> True
      | (V_FLOAT a, V_FLOAT b) \<Rightarrow> double_eq a b
      | (V_INTEGER a, V_INTEGER b) \<Rightarrow> a = b
      | (V_STRING a, V_STRING b) \<Rightarrow> handlebars_string_eq H a b
      | (V_ARRAY a _, V_ARRAY b _) \<Rightarrow> a = b
      | (V_MAP a _, V_MAP b _) \<Rightarrow> a = b
      | (V_HELPER a, V_HELPER b) \<Rightarrow> a = b
      | (V_PTR a _, V_PTR b _) \<Rightarrow> a = b
      | (V_CLOSURE a _ _, V_CLOSURE b _ _) \<Rightarrow> a = b
      | _ \<Rightarrow> False)"

definition handlebars_value_to_string :: "(u64 \<Rightarrow> string) \<Rightarrow> value \<Rightarrow> hstr" where
  "handlebars_value_to_string G v =
     (case vbody v of
        V_STRING s \<Rightarrow> s
      | V_INTEGER n \<Rightarrow> handlebars_string_ctor (show_int (sint n))
      | V_FLOAT d \<Rightarrow> handlebars_string_ctor (G d)
      | V_TRUE \<Rightarrow> handlebars_string_ctor ''true''
      | V_FALSE \<Rightarrow> handlebars_string_ctor ''false''
      | _ \<Rightarrow> handlebars_string_init 0)"

lemma enumerate_child: "(i, c) \<in> set (enumerate n xs) \<Longrightarrow> c \<in> set xs"
  by (simp add: enumerate_eq_zip set_zip_rightD)

lemma enumerate_child_size [termination_simp]: "(i, c) \<in> set (enumerate n xs) \<Longrightarrow> size c < Suc (size_list size xs)"
  using size_list_estimation' [OF enumerate_child order_refl, of i c n xs size] by simp

text \<open>Strings are escaped unless they are marked safe; the elements of an array are joined with commas.\<close>

fun handlebars_value_expression_append :: "(u64 \<Rightarrow> string) \<Rightarrow> value \<Rightarrow> hstr \<Rightarrow> bool \<Rightarrow> hbs_error + hstr" where
  "handlebars_value_expression_append G (handlebars_value f b) string escape =
     (case b of
        V_TRUE \<Rightarrow> handlebars_string_append string ''true''
      | V_FALSE \<Rightarrow> handlebars_string_append string ''false''
      | V_FLOAT d \<Rightarrow> handlebars_string_vasprintf_append string (G d)
      | V_INTEGER n \<Rightarrow> handlebars_string_vasprintf_append string (show_int (sint n))
      | V_STRING s \<Rightarrow>
          if escape \<and> \<not> has_flag f HANDLEBARS_VALUE_FLAG_SAFE_STRING
          then handlebars_string_htmlspecialchars_append string (sval s)
          else handlebars_string_append_str string s
      | V_ARRAY _ xs \<Rightarrow>
          efold (\<lambda>(i, c) s.
            ebind (if i \<noteq> 0 then handlebars_string_append s '','' else Inr s) (\<lambda>s1.
              handlebars_value_expression_append G c s1 escape)) (enumerate 0 xs) string
      | _ \<Rightarrow> Inr string)"

definition handlebars_value_expression :: "(u64 \<Rightarrow> string) \<Rightarrow> value \<Rightarrow> bool \<Rightarrow> hbs_error + hstr" where
  "handlebars_value_expression G v escape = handlebars_value_expression_append G v (handlebars_string_init 0) escape"

fun handlebars_value_type_readable :: "handlebars_value_type \<Rightarrow> string" where
  "handlebars_value_type_readable HANDLEBARS_VALUE_TYPE_NULL = ''null''"
| "handlebars_value_type_readable HANDLEBARS_VALUE_TYPE_TRUE = ''true''"
| "handlebars_value_type_readable HANDLEBARS_VALUE_TYPE_FALSE = ''false''"
| "handlebars_value_type_readable HANDLEBARS_VALUE_TYPE_INTEGER = ''integer''"
| "handlebars_value_type_readable HANDLEBARS_VALUE_TYPE_FLOAT = ''float''"
| "handlebars_value_type_readable HANDLEBARS_VALUE_TYPE_STRING = ''string''"
| "handlebars_value_type_readable HANDLEBARS_VALUE_TYPE_ARRAY = ''array''"
| "handlebars_value_type_readable HANDLEBARS_VALUE_TYPE_MAP = ''map''"
| "handlebars_value_type_readable HANDLEBARS_VALUE_TYPE_USER = ''user''"
| "handlebars_value_type_readable HANDLEBARS_VALUE_TYPE_PTR = ''ptr''"
| "handlebars_value_type_readable HANDLEBARS_VALUE_TYPE_HELPER = ''helper''"
| "handlebars_value_type_readable HANDLEBARS_VALUE_TYPE_CLOSURE = ''closure''"

section \<open>The dump\<close>

text \<open>
  The indentation buffers have 128 bytes, which the assertion guards. \<open>busy\<close> are the maps that are being
  iterated: a second iteration of one aborts. The result of a value whose type has no case is the number of the type.
\<close>

definition join_lines :: "string \<Rightarrow> (string \<times> string) list \<Rightarrow> string" where
  "join_lines indent2 rows = concat (map (\<lambda>(k, t). indent2 @ k @ '' => '' @ t @ [newline]) rows)"

fun handlebars_value_dump :: "(u64 \<Rightarrow> string) \<Rightarrow> nat set \<Rightarrow> value \<Rightarrow> nat \<Rightarrow> hbs_error + string" where
  "handlebars_value_dump G busy (handlebars_value f b) depth =
     (let indent = replicate (depth * 4) (CHR '' ''); indent2 = replicate ((depth + 1) * 4) (CHR '' '') in
      if \<not> (depth + 1) * 4 < 0x80 then Inl Assert_fail
      else
        (case b of
           V_NULL \<Rightarrow> Inr ''NULL''
         | V_TRUE \<Rightarrow> Inr ''boolean(true)''
         | V_FALSE \<Rightarrow> Inr ''boolean(false)''
         | V_FLOAT d \<Rightarrow> Inr (''float('' @ G d @ '')'')
         | V_INTEGER n \<Rightarrow> Inr (''integer('' @ show_int (sint n) @ '')'')
         | V_STRING s \<Rightarrow> Inr (''string('' @ c_string s @ '')'')
         | V_ARRAY _ xs \<Rightarrow>
             ebind (efold (\<lambda>(i, c) rows.
                 ebind (handlebars_value_dump G busy c (depth + 1)) (\<lambda>t. Inr (rows @ [(show_nat i, t)]))) (enumerate 0 xs) [])
               (\<lambda>rows. Inr (if xs = [] then ''[]'' else ''['' @ [newline] @ join_lines indent2 rows @ indent @ '']''))
         | V_MAP a kvs \<Rightarrow>
             if kvs \<noteq> [] \<and> a \<in> busy then Inl Assert_fail
             else
               ebind (efold (\<lambda>(k, c) rows.
                   ebind (handlebars_value_dump G (insert a busy) c (depth + 1)) (\<lambda>t. Inr (rows @ [(c_string k, t)]))) kvs [])
                 (\<lambda>rows. Inr (if kvs = [] then ''{}'' else ''{'' @ [newline] @ join_lines indent2 rows @ indent @ ''}''))
         | V_HELPER _ \<Rightarrow> Inr ''(function, real type 10)''
         | V_PTR _ _ \<Rightarrow> Inr ''unknown type 9''
         | V_CLOSURE _ _ _ \<Rightarrow> Inr ''unknown type 11''))"

end
