(* ===== verification/ValuesProofs.thy ===== *)
theory ValuesProofs
  imports Values
begin

text \<open>
  What a value looks like in the output: \<open>value_text\<close> is the specification of the conversion, and escaped output is
  inert.
\<close>

section \<open>The text of a value\<close>

fun value_text :: "(u64 \<Rightarrow> string) \<Rightarrow> bool \<Rightarrow> value \<Rightarrow> string" where
  "value_text G escape (handlebars_value f b) =
     (case b of
        V_TRUE \<Rightarrow> ''true''
      | V_FALSE \<Rightarrow> ''false''
      | V_FLOAT d \<Rightarrow> G d
      | V_INTEGER n \<Rightarrow> show_int (sint n)
      | V_STRING s \<Rightarrow> if escape \<and> \<not> has_flag f HANDLEBARS_VALUE_FLAG_SAFE_STRING then html_escape (sval s) else sval s
      | V_ARRAY _ xs \<Rightarrow> join '','' (map (value_text G escape) xs)
      | _ \<Rightarrow> [])"

lemma join_enumerate:
  "join sep (map g xs) = concat (map (\<lambda>(i, c). (if i \<noteq> 0 then sep else []) @ g c) (enumerate 0 xs))"
proof (cases xs)
  case (Cons x ys)
  have "join sep (map g (x # ys)) = g x @ concat (map (\<lambda>c. sep @ g c) ys)" for x
    by (induction ys arbitrary: x) auto
  moreover have "concat (map (\<lambda>(i, c). (if i \<noteq> 0 then sep else []) @ g c) (enumerate (Suc n) ys)) =
      concat (map (\<lambda>c. sep @ g c) ys)" for n
    by (induction ys arbitrary: n) auto
  ultimately show ?thesis by (simp add: Cons)
qed simp

lemma expression_appends: "str_ok s \<Longrightarrow> appends (handlebars_value_expression_append G v s escape) s (value_text G escape v)"
proof (induction v arbitrary: s rule: value_text.induct [where ?a0.0 = G and ?a1.0 = escape])
  case (1 G escape f b)
  show ?case
  proof (cases b)
    case (V_ARRAY a xs)
    have "appends (ebind (if i \<noteq> 0 then handlebars_string_append t '','' else Inr t) (\<lambda>t1.
        handlebars_value_expression_append G c t1 escape)) t ((if i \<noteq> 0 then '','' else []) @ value_text G escape c)"
      if "(i, c) \<in> set (enumerate 0 xs)" "str_ok t" for i c t
      using that enumerate_child [OF that(1)] "1.IH" [OF V_ARRAY] by (intro appends_bind) auto
    then have "appends (efold (\<lambda>(i, c) t. ebind (if i \<noteq> 0 then handlebars_string_append t '','' else Inr t) (\<lambda>t1.
        handlebars_value_expression_append G c t1 escape)) (enumerate 0 xs) s)
        s (concat (map (\<lambda>(i, c). (if i \<noteq> 0 then '','' else []) @ value_text G escape c) (enumerate 0 xs)))"
      by (intro appends_efold 1) auto
    then show ?thesis by (simp add: V_ARRAY join_enumerate)
  next
    case (V_STRING t)
    then show ?thesis
      using 1 escaped_buf.app_ok [of s "sval t"] appends_append [of s "sval t"] by (auto simp: handlebars_string_append_str_def appends_def)
  qed (use 1 in auto)
qed

section \<open>Escaping\<close>

text \<open>No part of the value is marked as safe.\<close>

fun untrusted :: "value \<Rightarrow> bool" where
  "untrusted (handlebars_value f b) \<longleftrightarrow>
     (case b of
        V_STRING _ \<Rightarrow> \<not> has_flag f HANDLEBARS_VALUE_FLAG_SAFE_STRING
      | V_ARRAY _ xs \<Rightarrow> list_all untrusted xs
      | _ \<Rightarrow> True)"

lemma in_join: "c \<in> set (join sep xs) \<Longrightarrow> c \<in> set sep \<or> (\<exists>x \<in> set xs. c \<in> set x)"
  by (induction sep xs rule: join.induct) auto

lemma digit_inert:
  assumes "n < (10 :: nat)"
  shows "\<not> html_special (char_of (48 + n))"
proof
  have special: "html_special c \<Longrightarrow> of_char c \<in> {34, 39, 60, 62, 96 :: nat}" for c
    by (auto simp: html_special_def)
  assume "html_special (char_of (48 + n))"
  from special [OF this] show False using assms by simp
qed

lemma show_nat_inert: "c \<in> set (show_nat n) \<Longrightarrow> \<not> html_special c"
proof (induction n rule: show_nat.induct)
  case (1 n)
  have "c \<in> (if n < 10 then {char_of (48 + n)} else insert (char_of (48 + n mod 10)) (set (show_nat (n div 10))))"
    using "1.prems" show_nat.simps [of n] by (simp split: if_splits)
  then show ?case using "1.IH" digit_inert by (auto split: if_splits)
qed

lemma show_int_inert: "c \<in> set (show_int i) \<Longrightarrow> \<not> html_special c"
  by (auto simp: show_int_def show_nat_inert html_special_def [of "CHR ''-''"] split: if_splits)

lemma comma_inert: "\<not> html_special (CHR '','')"
  by (simp add: html_special_def)

lemma letter_inert: "c \<in> set ''truefals'' \<Longrightarrow> \<not> html_special c"
  by (auto simp: html_special_def)

lemma value_text_inert:
  "untrusted v \<Longrightarrow> (\<And>d c. c \<in> set (G d) \<Longrightarrow> \<not> html_special c) \<Longrightarrow> c \<in> set (value_text G True v) \<Longrightarrow> \<not> html_special c"
proof (induction v rule: untrusted.induct)
  case (1 f b)
  show ?case
  proof (cases b)
    case (V_ARRAY a xs)
    then have "c \<in> set '','' \<or> (\<exists>x \<in> set xs. c \<in> set (value_text G True x))"
      using "1.prems"(3) in_join [of c "'',''" "map (value_text G True) xs"] by simp
    then show ?thesis
      using "1.IH" [OF V_ARRAY] "1.prems"(1,2) by (auto simp: V_ARRAY list_all_iff comma_inert)
  qed (use 1 letter_inert in \<open>auto simp: html_escape_inert show_int_inert\<close>)
qed

text \<open>C6. What a mustache writes is the text of its value, for every value: nothing for null and for a map, the elements
  of an array joined with commas. And when nothing in the value is marked safe, no quote, apostrophe, backtick or angle
  bracket of it reaches the output unescaped.\<close>
theorem expression_correct:
  assumes "str_ok s"
  shows "\<exists>t. handlebars_value_expression_append G v s escape = Inr t \<and> str_ok t \<and> sval t = sval s @ value_text G escape v \<and>
    (escape \<and> untrusted v \<and> (\<forall>d. list_all (\<lambda>c. \<not> html_special c) (G d)) \<longrightarrow>
      (\<forall>c \<in> set (value_text G escape v). \<not> html_special c))"
  using expression_appends [OF assms, of G v escape] value_text_inert [of v G] by (auto simp: appends_def list_all_iff)

theorem expression_correct_witness:
  "\<exists>t. handlebars_value_expression_append (\<lambda>_. ''0.5'')
      (handlebars_value 0 (V_ARRAY 0 [handlebars_value 0 (V_STRING (handlebars_string_ctor ''<'')), handlebars_value 0 V_TRUE]))
      (handlebars_string_init 0) True = Inr t \<and> sval t = ''&lt;,true''"
  using expression_correct [of "handlebars_string_init 0" "\<lambda>_. ''0.5''"
      "handlebars_value 0 (V_ARRAY 0 [handlebars_value 0 (V_STRING (handlebars_string_ctor ''<'')), handlebars_value 0 V_TRUE])" True]
  by (auto simp: html_escape_def html_escape_char_def htmlspecialchars_pair_def)

end
