(* ===== verification/StateError.thy ===== *)
theory StateError
  imports Prelude
begin

text \<open>
  Computations over a state that may throw: \<open>longjmp\<close> goes to a handler that goes on with the state of the throw, so
  an error carries the state too. Only \<open>Throw\<close> can be caught: the other outcomes end the process.

  \<open>triple P m Q\<close> is the Hoare triple of a normal end.
\<close>

type_synonym ('s, 'a) sm = "'s \<Rightarrow> (hbs_error + 'a) \<times> 's"

definition ret :: "'a \<Rightarrow> ('s, 'a) sm" where
  "ret x s = (Inr x, s)"

definition raise :: "hbs_error \<Rightarrow> ('s, 'a) sm" where
  "raise e s = (Inl e, s)"

definition sbind :: "('s, 'a) sm \<Rightarrow> ('a \<Rightarrow> ('s, 'b) sm) \<Rightarrow> ('s, 'b) sm" where
  "sbind m f s = (case m s of (Inl e, t) \<Rightarrow> (Inl e, t) | (Inr x, t) \<Rightarrow> f x t)"

definition gets :: "('s \<Rightarrow> 'a) \<Rightarrow> ('s, 'a) sm" where
  "gets f s = (Inr (f s), s)"

definition put :: "('s \<Rightarrow> 's) \<Rightarrow> ('s, unit) sm" where
  "put f s = (Inr (), f s)"

text \<open>A fallible pure computation, and an assertion.\<close>

definition lift :: "hbs_error + 'a \<Rightarrow> ('s, 'a) sm" where
  "lift m s = (m, s)"

definition need :: "bool \<Rightarrow> ('s, unit) sm" where
  "need b = (if b then ret () else raise Assert_fail)"

definition catch :: "('s, 'a) sm \<Rightarrow> (hbs_error \<Rightarrow> ('s, 'a) sm) \<Rightarrow> ('s, 'a) sm" where
  "catch m h s = (case m s of (Inl (Throw t msg), u) \<Rightarrow> h (Throw t msg) u | r \<Rightarrow> r)"

fun sfold :: "('a \<Rightarrow> 'b \<Rightarrow> ('s, 'b) sm) \<Rightarrow> 'a list \<Rightarrow> 'b \<Rightarrow> ('s, 'b) sm" where
  "sfold f [] b = ret b"
| "sfold f (x # xs) b = sbind (f x b) (sfold f xs)"

section \<open>Running\<close>

named_theorems run_simps \<open>how each combinator runs\<close>

lemma run_basic [run_simps]:
  "ret x s = (Inr x, s)" "raise e s = (Inl e, s)" "gets f s = (Inr (f s), s)" "put g s = (Inr (), g s)"
  "lift m s = (m, s)" "need b s = (if b then (Inr (), s) else (Inl Assert_fail, s))"
  by (simp_all add: ret_def raise_def gets_def put_def lift_def need_def)

lemma run_sbind [run_simps]:
  "m s = (Inr x, t) \<Longrightarrow> sbind m f s = f x t"
  "m s = (Inl e, t) \<Longrightarrow> sbind m f s = (Inl e, t)"
  by (simp_all add: sbind_def)

lemma run_sfold [run_simps]:
  "sfold f [] b s = (Inr b, s)" "sfold f (x # xs) b s = sbind (f x b) (sfold f xs) s"
  by (simp_all add: ret_def)

lemma sbind_ret [simp]: "sbind (ret x) f = f x"
  by (rule ext) (simp add: sbind_def ret_def)

lemma sbind_assoc: "sbind (sbind m f) g = sbind m (\<lambda>x. sbind (f x) g)"
  by (rule ext) (auto simp: sbind_def split: prod.splits sum.splits)

lemma sbind_Inr:
  assumes "sbind m f s = (Inr y, u)"
  obtains x t where "m s = (Inr x, t)" "f x t = (Inr y, u)"
proof (cases "m s")
  case (Pair r t)
  then show ?thesis using assms that by (cases r) (auto simp: sbind_def)
qed

section \<open>Triples\<close>

definition triple :: "('s \<Rightarrow> bool) \<Rightarrow> ('s, 'a) sm \<Rightarrow> ('a \<Rightarrow> 's \<Rightarrow> bool) \<Rightarrow> bool" where
  "triple P m Q \<longleftrightarrow> (\<forall>s x t. P s \<longrightarrow> m s = (Inr x, t) \<longrightarrow> Q x t)"

named_theorems triple_rules \<open>rules for \<open>triple\<close>\<close>

lemma tripleI: "(\<And>s x t. P s \<Longrightarrow> m s = (Inr x, t) \<Longrightarrow> Q x t) \<Longrightarrow> triple P m Q"
  by (simp add: triple_def)

lemma tripleD: "triple P m Q \<Longrightarrow> P s \<Longrightarrow> m s = (Inr x, t) \<Longrightarrow> Q x t"
  by (simp add: triple_def)

lemma triple_ret [triple_rules]: "(\<And>s. P s \<Longrightarrow> Q x s) \<Longrightarrow> triple P (ret x) Q"
  by (simp add: triple_def run_simps)

lemma triple_raise [triple_rules]: "triple P (raise e) Q"
  by (simp add: triple_def run_simps)

lemma triple_gets [triple_rules]: "(\<And>s. P s \<Longrightarrow> Q (f s) s) \<Longrightarrow> triple P (gets f) Q"
  by (simp add: triple_def run_simps)

lemma triple_put [triple_rules]: "(\<And>s. P s \<Longrightarrow> Q () (f s)) \<Longrightarrow> triple P (put f) Q"
  by (simp add: triple_def run_simps)

lemma triple_lift [triple_rules]: "(\<And>s x. P s \<Longrightarrow> m = Inr x \<Longrightarrow> Q x s) \<Longrightarrow> triple P (lift m) Q"
  by (simp add: triple_def run_simps)

lemma triple_need [triple_rules]: "(\<And>s. P s \<Longrightarrow> b \<Longrightarrow> Q () s) \<Longrightarrow> triple P (need b) Q"
  by (simp add: triple_def run_simps)

lemma triple_sbind: "triple P m R \<Longrightarrow> (\<And>x. triple (R x) (f x) Q) \<Longrightarrow> triple P (sbind m f) Q"
  by (rule tripleI) (auto elim!: sbind_Inr dest: tripleD)

lemma triple_if [triple_rules]: "(b \<Longrightarrow> triple P m Q) \<Longrightarrow> (\<not> b \<Longrightarrow> triple P n Q) \<Longrightarrow> triple P (if b then m else n) Q"
  by simp

lemma triple_mono: "triple P m R \<Longrightarrow> (\<And>x s. R x s \<Longrightarrow> Q x s) \<Longrightarrow> triple P m Q"
  by (simp add: triple_def)

lemma triple_sfold:
  "(\<And>x b. x \<in> set xs \<Longrightarrow> triple I (f x b) (\<lambda>_. I)) \<Longrightarrow> triple I (sfold f xs b) (\<lambda>_. I)"
proof (induction xs arbitrary: b)
  case (Cons x xs)
  have "triple I (sfold f xs b') (\<lambda>_. I)" for b' by (rule Cons.IH) (rule Cons.prems; simp)
  then show ?case using Cons.prems by (auto intro: triple_sbind)
qed (simp add: triple_ret)

end
