(* ===== verification/VmState.thy ===== *)
theory VmState
  imports Values StateError CacheSimple ModulePrinter Delimiters Compiler
begin

text \<open>
  The state of the virtual machine (src/handlebars_vm_private.h) and the operations all handlers share.

  Modules lie in a memory \<open>vmods\<close> and are named by their addresses, so that a module that was freed while something
  still points to it shows as a failed access. \<open>vnext\<close> gives new addresses and identities, and \<open>vbusy\<close> holds the
  identities of the maps whose \<open>is_in_iteration\<close> flag is set. The five stacks are NULL outside an execution, which
  \<open>vready\<close> says. \<open>vjmp\<close> says that the error context has a jump buffer, \<open>verror\<close> is the error it holds. The cache is
  the in-memory one.
\<close>

section \<open>State\<close>

record vm =
  vcache :: "handlebars_cache option"
  vmods :: "nat \<Rightarrow> handlebars_module option"
  vmodule :: "nat option"
  vdepth :: int
  vmflags :: u64
  vbuffer :: hstr
  vdata :: "value"
  vhelpers :: "value"
  vpartials :: "value"
  vlast_helper :: "hstr option"
  vlast_context :: "value option"
  vstack :: "value vstack"
  vcontext :: "value vstack"
  vhash :: "value vstack"
  vblock :: "value vstack"
  vpartial :: "value vstack"
  vready :: bool
  vlog_func :: "nat option"
  vdelim_open :: "hstr option"
  vdelim_close :: "hstr option"
  vjmp :: bool
  verror :: "hbs_error option"
  vnext :: nat
  vbusy :: "nat set"

type_synonym 'a step = "(vm, 'a) sm"

text \<open>\<open>options\<close>, and what the machine gets from outside: the string hash, \<open>%g\<close>, the generated parser, the version, the
  clock, \<open>qsort_r\<close>, and the functions registered by the embedding program. A helper returns NULL or a value.\<close>

record handlebars_options =
  opt_inverse :: u64
  opt_program :: u64
  opt_name :: "hstr option"
  opt_scope :: "value option"
  opt_data :: "value option"
  opt_hash :: "value option"

type_synonym helper = "value list \<Rightarrow> handlebars_options \<Rightarrow> value option step"

record env =
  eH :: "string \<Rightarrow> u32"
  eG :: "u64 \<Rightarrow> string"
  eparse :: "hstr \<Rightarrow> u64 \<Rightarrow> hbs_error + node"
  eversion :: int
  enow :: int
  esort :: "nat sort_fun"
  eregistered :: "nat \<Rightarrow> helper"
  eclosure :: "nat \<Rightarrow> value list \<Rightarrow> helper"

definition HANDLEBARS_VM_STACK_SIZE :: nat where "HANDLEBARS_VM_STACK_SIZE = 96"
definition HANDLEBARS_VM_BUFFER_INIT_SIZE :: nat where "HANDLEBARS_VM_BUFFER_INIT_SIZE = 128"

definition flag_compat :: u64 where "flag_compat = 1"
definition flag_strict :: u64 where "flag_strict = 1024"
definition flag_assume_objects :: u64 where "flag_assume_objects = 2048"

definition vm_flag :: "vm \<Rightarrow> u64 \<Rightarrow> bool" where
  "vm_flag s f \<longleftrightarrow> has_flag (vmflags s) f"

definition empty_map :: "nat \<Rightarrow> value" where
  "empty_map a = handlebars_value 0 (V_MAP a [])"

definition handlebars_vm_ctor :: "(nat \<Rightarrow> handlebars_module option) \<Rightarrow> vm" where
  "handlebars_vm_ctor mods =
     \<lparr>vcache = None, vmods = mods, vmodule = None, vdepth = 0, vmflags = 0, vbuffer = handlebars_string_init 0,
      vdata = null_value, vhelpers = empty_map 0, vpartials = empty_map 1, vlast_helper = None, vlast_context = None,
      vstack = handlebars_stack_init 0, vcontext = handlebars_stack_init 0, vhash = handlebars_stack_init 0,
      vblock = handlebars_stack_init 0, vpartial = handlebars_stack_init 0, vready = False, vlog_func = None,
      vdelim_open = None, vdelim_close = None, vjmp = False, verror = None, vnext = 2, vbusy = {}\<rparr>"

definition handlebars_vm_set_flags :: "vm \<Rightarrow> u64 \<Rightarrow> vm" where
  "handlebars_vm_set_flags s f = s\<lparr>vmflags := f\<rparr>"

definition handlebars_vm_set_helpers :: "vm \<Rightarrow> value \<Rightarrow> vm" where
  "handlebars_vm_set_helpers s v = s\<lparr>vhelpers := v\<rparr>"

definition handlebars_vm_set_partials :: "vm \<Rightarrow> value \<Rightarrow> vm" where
  "handlebars_vm_set_partials s v = s\<lparr>vpartials := v\<rparr>"

definition handlebars_vm_set_data :: "vm \<Rightarrow> value \<Rightarrow> vm" where
  "handlebars_vm_set_data s v = s\<lparr>vdata := v\<rparr>"

definition handlebars_vm_set_cache :: "vm \<Rightarrow> handlebars_cache option \<Rightarrow> vm" where
  "handlebars_vm_set_cache s c = s\<lparr>vcache := c\<rparr>"

definition handlebars_vm_set_logger :: "vm \<Rightarrow> nat option \<Rightarrow> vm" where
  "handlebars_vm_set_logger s f = s\<lparr>vlog_func := f\<rparr>"

section \<open>Stacks\<close>

type_synonym stack_field = "(vm \<Rightarrow> value vstack) \<times> ((value vstack \<Rightarrow> value vstack) \<Rightarrow> vm \<Rightarrow> vm)"

abbreviation main_stack :: stack_field where "main_stack \<equiv> (vstack, vstack_update)"
abbreviation context_stack :: stack_field where "context_stack \<equiv> (vcontext, vcontext_update)"
abbreviation hash_stack :: stack_field where "hash_stack \<equiv> (vhash, vhash_update)"
abbreviation block_stack :: stack_field where "block_stack \<equiv> (vblock, vblock_update)"
abbreviation partial_stack :: stack_field where "partial_stack \<equiv> (vpartial, vpartial_update)"

definition PUSH :: "stack_field \<Rightarrow> value \<Rightarrow> unit step" where
  "PUSH k v =
     sbind (gets (fst k)) (\<lambda>st.
     sbind (lift (handlebars_stack_push st v)) (\<lambda>st'. put (snd k (\<lambda>_. st'))))"

definition POP :: "stack_field \<Rightarrow> value option step" where
  "POP k =
     sbind (gets (fst k)) (\<lambda>st.
     sbind (lift (handlebars_stack_pop st)) (\<lambda>(v, st'). sbind (put (snd k (\<lambda>_. st'))) (\<lambda>_. ret v)))"

definition TOP :: "stack_field \<Rightarrow> value option step" where
  "TOP k = gets (\<lambda>s. handlebars_stack_top (fst k s))"

definition LEN :: "stack_field \<Rightarrow> nat step" where
  "LEN k = gets (\<lambda>s. handlebars_stack_count (fst k s))"

text \<open>\<open>_get\<close>: a position from the top, in \<open>size_t\<close>.\<close>

definition stack_get_from_top :: "value vstack \<Rightarrow> u64 \<Rightarrow> value option" where
  "stack_get_from_top st pos =
     (let n = of_nat (handlebars_stack_count st) :: u64
      in if n < pos + 1 then None else handlebars_stack_get st (unat (n - pos - 1)))"

definition GET :: "stack_field \<Rightarrow> u64 \<Rightarrow> value option step" where
  "GET k pos = gets (\<lambda>s. stack_get_from_top (fst k s) pos)"

text \<open>A pointer that is used, a value that is popped under an assertion, and a push of what may be NULL.\<close>

definition deref :: "'a option \<Rightarrow> 'a step" where
  "deref x = (case x of None \<Rightarrow> raise Mem_error | Some y \<Rightarrow> ret y)"

definition POP_asserted :: "stack_field \<Rightarrow> value step" where
  "POP_asserted k = sbind (POP k) (\<lambda>v. case v of None \<Rightarrow> raise Assert_fail | Some x \<Rightarrow> ret x)"

section \<open>Memory, maps and errors\<close>

definition fresh :: "nat step" where
  "fresh = sbind (gets vnext) (\<lambda>a. sbind (put (vnext_update Suc)) (\<lambda>_. ret a))"

definition new_map :: "(hstr \<times> value) list \<Rightarrow> value handlebars_value_internals step" where
  "new_map kvs = sbind fresh (\<lambda>a. ret (V_MAP a kvs))"

definition module_at :: "nat \<Rightarrow> handlebars_module step" where
  "module_at a = sbind (gets vmods) (\<lambda>mods. deref (mods a))"

text \<open>\<open>HANDLEBARS_VALUE_FOREACH\<close>: a map is marked as long as it is iterated, and marking it twice aborts.\<close>

definition foreach :: "value \<Rightarrow> (nat \<times> hstr option \<times> value \<Rightarrow> 'b \<Rightarrow> 'b step) \<Rightarrow> 'b \<Rightarrow> 'b step" where
  "foreach v f b =
     (case vbody v of
        V_MAP a kvs \<Rightarrow>
          if kvs = [] then ret b
          else
            sbind (gets vbusy) (\<lambda>busy.
            if a \<in> busy then raise Assert_fail
            else
              sbind (put (vbusy_update (insert a))) (\<lambda>_.
              sbind (sfold f (value_items v) b) (\<lambda>r.
              sbind (put (vbusy_update (\<lambda>B. B - {a}))) (\<lambda>_. ret r))))
      | _ \<Rightarrow> sfold f (value_items v) b)"

definition throw_error :: "string \<Rightarrow> 'a step" where
  "throw_error msg = raise (Throw HANDLEBARS_ERROR msg)"

definition append_to_buffer :: "env \<Rightarrow> value \<Rightarrow> bool \<Rightarrow> unit step" where
  "append_to_buffer E result escape =
     sbind (gets vbuffer) (\<lambda>b.
     sbind (lift (handlebars_value_expression_append (eG E) result b escape)) (\<lambda>b'. put (vbuffer_update (\<lambda>_. b'))))"

definition append_text :: "string \<Rightarrow> unit step" where
  "append_text t =
     sbind (gets vbuffer) (\<lambda>b. sbind (lift (handlebars_string_append b t)) (\<lambda>b'. put (vbuffer_update (\<lambda>_. b'))))"

definition lookup_helper :: "env \<Rightarrow> hstr \<Rightarrow> value option step" where
  "lookup_helper E string =
     gets (\<lambda>s. case handlebars_value_map_find (eH E) (vhelpers s) string of
         Some h \<Rightarrow> Some h
       | None \<Rightarrow> map_option (\<lambda>i. handlebars_value_helper null_value (Builtin i)) (handlebars_builtins_find (sval string)))"

definition merge_hash :: "env \<Rightarrow> value \<Rightarrow> value option \<Rightarrow> value step" where
  "merge_hash E input hash =
     (if handlebars_value_get_type input = HANDLEBARS_VALUE_TYPE_MAP \<and> handlebars_value_count input > 0 \<and>
         (case hash of None \<Rightarrow> False
          | Some h \<Rightarrow> handlebars_value_get_type h = HANDLEBARS_VALUE_TYPE_MAP \<and> handlebars_value_count h > 0)
      then
        let copy = (\<lambda>(i, k, c) kvs. sbind (deref k) (\<lambda>key. ret (update_item (eH E) key c kvs))) in
        sbind (foreach input copy []) (\<lambda>kvs.
        sbind (foreach (the hash) copy kvs) (\<lambda>kvs'.
        sbind (new_map kvs') (\<lambda>b. ret (set_body input b))))
      else if handlebars_value_get_type input = HANDLEBARS_VALUE_TYPE_NULL \<and> hash \<noteq> None then ret (the hash)
      else ret input)"

end
