(* ===== verification/VmExec.thy ===== *)
theory VmExec
  imports VmState
begin

text \<open>
  Running programs (the end of src/handlebars_vm.c and \<open>execute_template\<close>). \<open>accept a off\<close> runs the opcodes of the
  module at the address \<open>a\<close> from the offset \<open>off\<close> on: it is \<open>handlebars_vm_accept\<close>, an argument here because the
  handlers it dispatches to run programs again.
\<close>

type_synonym accept_fn = "nat \<Rightarrow> nat \<Rightarrow> unit step"

section \<open>Programs\<close>

definition save :: "stack_field \<Rightarrow> handlebars_stack_save_buf step" where
  "save k = sbind (gets (fst k)) (\<lambda>st. let (buf, st') = handlebars_stack_save st in
     sbind (put (snd k (\<lambda>_. st'))) (\<lambda>_. ret buf))"

definition restore :: "stack_field \<Rightarrow> handlebars_stack_save_buf \<Rightarrow> unit step" where
  "restore k buf = sbind (gets (fst k)) (\<lambda>st.
     sbind (lift (handlebars_stack_restore st buf)) (\<lambda>st'. put (snd k (\<lambda>_. st'))))"

text \<open>Runs the body between the save and the restore of the five stacks.\<close>

definition with_saved_stacks :: "unit step \<Rightarrow> unit step" where
  "with_saved_stacks body =
     sbind (save main_stack) (\<lambda>st.
     sbind (save hash_stack) (\<lambda>hst.
     sbind (save context_stack) (\<lambda>cst.
     sbind (save block_stack) (\<lambda>bst.
     sbind (save partial_stack) (\<lambda>pst.
     sbind body (\<lambda>_.
     sbind (restore main_stack st) (\<lambda>_.
     sbind (restore hash_stack hst) (\<lambda>_.
     sbind (restore context_stack cst) (\<lambda>_.
     sbind (restore block_stack bst) (\<lambda>_.
       restore partial_stack pst))))))))))"

text \<open>The context is pushed unless the top of the stack is the same one.\<close>

definition push_context_once :: "env \<Rightarrow> value \<Rightarrow> unit step" where
  "push_context_once E context =
     sbind (TOP context_stack) (\<lambda>top.
       case top of
         None \<Rightarrow> PUSH context_stack context
       | Some c \<Rightarrow> if handlebars_value_eq (eH E) c context then ret () else PUSH context_stack context)"

definition push_option :: "stack_field \<Rightarrow> value option \<Rightarrow> unit step" where
  "push_option k v = (case v of None \<Rightarrow> ret () | Some x \<Rightarrow> PUSH k x)"

definition set_data_option :: "value option \<Rightarrow> unit step" where
  "set_data_option d = (case d of None \<Rightarrow> ret () | Some x \<Rightarrow> put (vdata_update (\<lambda>_. x)))"

definition handlebars_vm_execute_program_ex ::
    "env \<Rightarrow> accept_fn \<Rightarrow> u64 \<Rightarrow> value \<Rightarrow> value option \<Rightarrow> value option \<Rightarrow> hstr step" where
  "handlebars_vm_execute_program_ex E accept program_num context data bparams =
     (if sint program_num < 0 then ret (handlebars_string_init 0)
      else
        sbind (gets vmodule) (\<lambda>a.
        sbind (deref a) (\<lambda>addr.
        sbind (module_at addr) (\<lambda>m.
        if sint program_num \<ge> int (mprogram_count m) then throw_error ''Invalid program: %ld''
        else if nat (sint program_num) \<ge> length (mprograms m) then raise Mem_error
        else
          sbind (gets vbuffer) (\<lambda>prev_buffer.
          sbind (put (vbuffer_update (\<lambda>_. handlebars_string_init HANDLEBARS_VM_BUFFER_INIT_SIZE))) (\<lambda>_.
          sbind (sbind (gets vready) need) (\<lambda>_.
          sbind (gets vdata) (\<lambda>prev_data.
          sbind (with_saved_stacks
             (sbind (push_context_once E context) (\<lambda>_.
              sbind (set_data_option data) (\<lambda>_.
              sbind (push_option block_stack bparams) (\<lambda>_.
                accept addr (entry_opcode_offset (mprograms m ! nat (sint program_num)))))))) (\<lambda>_.
          sbind (put (vlast_context_update (map_option handlebars_value_null))) (\<lambda>_.
          sbind (set_data_option (map_option (\<lambda>_. prev_data) data)) (\<lambda>_.
          sbind (gets vbuffer) (\<lambda>buffer.
          sbind (put (vbuffer_update (\<lambda>_. prev_buffer))) (\<lambda>_. ret buffer)))))))))))))"

definition handlebars_vm_execute_program :: "env \<Rightarrow> accept_fn \<Rightarrow> u64 \<Rightarrow> value \<Rightarrow> hstr step" where
  "handlebars_vm_execute_program E accept program context =
     handlebars_vm_execute_program_ex E accept program context None None"

section \<open>Modules\<close>

definition alloc_stacks :: "vm \<Rightarrow> vm" where
  "alloc_stacks s =
     (let k = handlebars_stack_init HANDLEBARS_VM_STACK_SIZE
      in s\<lparr>vstack := k, vcontext := k, vhash := k, vblock := k, vpartial := k, vready := True\<rparr>)"

text \<open>
  Without a jump buffer the execution is the outermost one: it installs its own, and a throw ends it with a NULL
  result. Inside another execution a throw passes through it, and nothing is reset.
\<close>

definition execute_body ::
    "env \<Rightarrow> accept_fn \<Rightarrow> nat \<Rightarrow> value \<Rightarrow> u64 \<Rightarrow> value option \<Rightarrow> value option \<Rightarrow> hstr option step" where
  "execute_body E accept module context program data bparams =
     sbind (put (\<lambda>s. if vready s then s else alloc_stacks s)) (\<lambda>_.
     sbind (put (vlast_context_update (\<lambda>c. case c of None \<Rightarrow> Some null_value | Some v \<Rightarrow> Some v))) (\<lambda>_.
     sbind (put (vmodule_update (\<lambda>_. Some module))) (\<lambda>_.
     sbind (module_at module) (\<lambda>m.
     sbind (put (vmflags_update (\<lambda>f. f OR mflags m))) (\<lambda>_.
     sbind (handlebars_vm_execute_program_ex E accept program context data bparams) (\<lambda>b. ret (Some b)))))))"

text \<open>The fields that are set back at the end, from the state \<open>p\<close> at the start. The object behind \<open>last_context\<close> is the
  same one if there was one.\<close>

definition execute_reset :: "vm \<Rightarrow> vm \<Rightarrow> vm" where
  "execute_reset p s =
     s\<lparr>vjmp := vjmp p, vready := vready p, vdelim_open := vdelim_open p, vdelim_close := vdelim_close p,
       vlast_context := (case vlast_context p of None \<Rightarrow> None | Some _ \<Rightarrow> vlast_context s),
       vmodule := vmodule p, vmflags := vmflags p\<rparr>"

definition handlebars_vm_execute_ex ::
    "env \<Rightarrow> accept_fn \<Rightarrow> nat \<Rightarrow> value \<Rightarrow> u64 \<Rightarrow> value option \<Rightarrow> value option \<Rightarrow> hstr option step" where
  "handlebars_vm_execute_ex E accept module context program data bparams =
     sbind (gets id) (\<lambda>p.
     let body = execute_body E accept module context program data bparams in
     sbind (if vjmp p then body
            else sbind (put (vjmp_update (\<lambda>_. True))) (\<lambda>_.
                 catch body (\<lambda>e. sbind (put (verror_update (\<lambda>_. Some e))) (\<lambda>_. ret None)))) (\<lambda>buffer.
     sbind (put (execute_reset p)) (\<lambda>_. ret buffer)))"

definition handlebars_vm_execute :: "env \<Rightarrow> accept_fn \<Rightarrow> nat \<Rightarrow> value \<Rightarrow> hstr option step" where
  "handlebars_vm_execute E accept module context = handlebars_vm_execute_ex E accept module context 0 None None"

section \<open>Templates\<close>

text \<open>
  The cache works on the memory of the machine. An entry that the collection drops is freed, whether or not it is
  running.
\<close>

definition cached_addresses :: "handlebars_cache \<Rightarrow> nat set" where
  "cached_addresses c = snd ` set (hm_items (cmap c))"

definition template_find :: "env \<Rightarrow> hstr \<Rightarrow> nat option step" where
  "template_find E tmpl =
     sbind (gets id) (\<lambda>s.
       case vcache s of
         None \<Rightarrow> ret None
       | Some c \<Rightarrow>
           sbind (lift (cache_find (eH E) (enow E) (c\<lparr>cmods := vmods s\<rparr>) tmpl)) (\<lambda>(a, c').
           sbind (put (\<lambda>s. s\<lparr>vcache := Some c', vmods := cmods c'\<rparr>)) (\<lambda>_. ret a)))"

definition template_add :: "env \<Rightarrow> hstr \<Rightarrow> nat \<Rightarrow> unit step" where
  "template_add E tmpl a =
     sbind (gets id) (\<lambda>s.
       case vcache s of
         None \<Rightarrow> ret ()
       | Some c \<Rightarrow>
           sbind (lift (cache_add (esort E) (eH E) (enow E) (c\<lparr>cmods := vmods s\<rparr>) tmpl a)) (\<lambda>c'.
             put (\<lambda>s. s\<lparr>vcache := Some c',
               vmods := (\<lambda>x. if x \<in> cached_addresses c - cached_addresses c' then None else cmods c' x)\<rparr>)))"

text \<open>Parsing, compiling and serializing; the result is the address of the new module.\<close>

definition template_text :: "env \<Rightarrow> hstr \<Rightarrow> hstr option \<Rightarrow> bool \<Rightarrow> hstr step" where
  "template_text E tmpl indent use_delimiters =
     sbind (gets id) (\<lambda>s.
       if \<not> vm_flag s flag_compat then ret tmpl
       else
         sbind (lift (handlebars_preprocess_delimiters (sval tmpl)
            (if use_delimiters then map_option sval (vdelim_open s) else None)
            (if use_delimiters then map_option sval (vdelim_close s) else None))) (\<lambda>t.
         case indent of None \<Rightarrow> ret t | Some i \<Rightarrow> lift (handlebars_string_indent t i)))"

definition template_module :: "env \<Rightarrow> hstr \<Rightarrow> nat step" where
  "template_module E tmpl =
     sbind (gets vmflags) (\<lambda>fl.
     sbind (lift (eparse E tmpl fl)) (\<lambda>ast.
     sbind (lift (handlebars_compiler_compile_ex (eH E) (handlebars_compiler_set_flags handlebars_compiler_ctor fl) ast)) (\<lambda>p.
     sbind fresh (\<lambda>a.
     sbind (lift (handlebars_program_serialize (eH E) (eversion E) (enow E) (int a) p)) (\<lambda>m.
     sbind (put (vmods_update (\<lambda>mods. mods(a \<mapsto> m)))) (\<lambda>_. ret a))))))"

definition template_body ::
    "env \<Rightarrow> accept_fn \<Rightarrow> hstr \<Rightarrow> nat option \<Rightarrow> value \<Rightarrow> hstr option \<Rightarrow> bool \<Rightarrow> hstr option step" where
  "template_body E accept tmpl cached input indent use_delimiters =
     sbind (case cached of
              Some a \<Rightarrow> ret a
            | None \<Rightarrow>
                sbind (template_text E tmpl indent use_delimiters) (\<lambda>t.
                sbind (template_module E t) (\<lambda>a.
                sbind (template_add E t a) (\<lambda>_. ret a)))) (\<lambda>a.
     sbind (put (vdepth_update (\<lambda>d. d + 1))) (\<lambda>_.
     sbind (handlebars_vm_execute E accept a input) (\<lambda>r.
     case r of
       None \<Rightarrow> raise Assert_fail
     | Some retval \<Rightarrow>
         sbind (gets (\<lambda>s. vm_flag s flag_compat)) (\<lambda>compat.
           case indent of
             Some i \<Rightarrow> if compat then ret (Some retval) else sbind (lift (handlebars_string_indent retval i)) (\<lambda>t. ret (Some t))
           | None \<Rightarrow> ret (Some retval)))))"

text \<open>
  The clean-up frees the modules that were built for this call, those with an address the call has given out, unless
  the cache has taken them.
\<close>

definition template_cleanup :: "vm \<Rightarrow> vm \<Rightarrow> vm" where
  "template_cleanup p s =
     s\<lparr>vjmp := vjmp p, vdepth := vdepth p,
       vmods := (\<lambda>x. if vnext p \<le> x \<and> x \<notin> (case vcache s of None \<Rightarrow> {} | Some c \<Rightarrow> cached_addresses c)
                     then None else vmods s x)\<rparr>"

text \<open>Every error of a partial is caught here; the result is then the empty string.\<close>

definition execute_template ::
    "env \<Rightarrow> accept_fn \<Rightarrow> hstr \<Rightarrow> value \<Rightarrow> hstr option \<Rightarrow> bool \<Rightarrow> hstr step" where
  "execute_template E accept tmpl input indent use_delimiters =
     sbind (template_find E tmpl) (\<lambda>cached.
     sbind (gets id) (\<lambda>p.
     sbind (if hbs_str_len tmpl = 0 then ret None
            else
              sbind (put (vjmp_update (\<lambda>_. True))) (\<lambda>_.
              catch (template_body E accept tmpl cached input indent use_delimiters)
                (\<lambda>e. sbind (put (verror_update (\<lambda>_. Some e))) (\<lambda>_. ret None)))) (\<lambda>retval.
     sbind (put (template_cleanup p)) (\<lambda>_.
       case retval of Some t \<Rightarrow> ret t | None \<Rightarrow> ret (handlebars_string_ctor [])))))"

end
