(* ===== verification/VmHelpers.thy ===== *)
theory VmHelpers
  imports VmExec
begin

text \<open>
  Calls: the built-in helpers (src/handlebars_helpers.c), the closures the machine makes for partials and lambdas, and
  \<open>handlebars_value_call\<close>. Everything that can run opcodes or call values again gets those operations as the record
  \<open>runs\<close>; \<open>Vm\<close> ties the knot.

  The memory for a result (\<open>rv\<close>) is a null value wherever a call starts, so a helper returns the value it has written
  there, and \<open>None\<close> for a NULL pointer.
\<close>

type_synonym call_fn = "value \<Rightarrow> value list \<Rightarrow> handlebars_options \<Rightarrow> value step"

record runs =
  raccept :: accept_fn
  rcall :: call_fn
  rbuiltin :: "nat \<Rightarrow> helper"

definition string_value :: "hstr \<Rightarrow> value" where
  "string_value s = handlebars_value_str null_value s"

definition integer_value :: "u64 \<Rightarrow> value" where
  "integer_value n = handlebars_value_integer null_value n"

definition boolean_value :: "bool \<Rightarrow> value" where
  "boolean_value b = handlebars_value_boolean null_value b"

definition handlebars_vm_call_helper_str :: "env \<Rightarrow> runs \<Rightarrow> string \<Rightarrow> helper" where
  "handlebars_vm_call_helper_str E R name argv options =
     sbind (gets (\<lambda>s. handlebars_value_map_str_find (eH E) (vhelpers s) name)) (\<lambda>h.
       case h of
         Some helper \<Rightarrow> sbind (rcall R helper argv options) (\<lambda>v. ret (Some v))
       | None \<Rightarrow>
           (case handlebars_builtins_find name of
              Some i \<Rightarrow> rbuiltin R i argv options
            | None \<Rightarrow> ret None))"

text \<open>A parameter that can be called stands for its result.\<close>

definition call_if_callable :: "runs \<Rightarrow> value \<Rightarrow> handlebars_options \<Rightarrow> value step" where
  "call_if_callable R v options =
     (if handlebars_value_is_callable v
      then sbind (deref (opt_scope options)) (\<lambda>scope. rcall R v [scope] options)
      else ret v)"

section \<open>Built-in helpers\<close>

text \<open>\<open>each\<close>: the data of a round, and the round. The state of the loop is the round, the data and the parameters.\<close>

definition each_data :: "env \<Rightarrow> handlebars_options \<Rightarrow> (hstr \<times> value) list step" where
  "each_data E options =
     (case opt_data options of
        None \<Rightarrow> ret []
      | Some d \<Rightarrow>
          if handlebars_value_get_type d = HANDLEBARS_VALUE_TYPE_MAP
          then foreach d (\<lambda>(i, k, c) kvs. sbind (deref k) (\<lambda>key. ret (update_item (eH E) key c kvs))) []
          else ret [])"

definition str_update :: "env \<Rightarrow> string \<Rightarrow> value \<Rightarrow> (hstr \<times> value) list \<Rightarrow> (hstr \<times> value) list" where
  "str_update E k v kvs = update_item (eH E) (handlebars_string_ctor k) v kvs"

definition each_round ::
    "env \<Rightarrow> runs \<Rightarrow> handlebars_options \<Rightarrow> nat \<Rightarrow> nat \<times> hstr option \<times> value \<Rightarrow>
     nat \<times> (hstr \<times> value) list \<times> value \<times> hstr \<Rightarrow> (nat \<times> (hstr \<times> value) list \<times> value \<times> hstr) step" where
  "each_round E R options len = (\<lambda>(it_index, it_key, it_child) (i, data_map, bparams, result).
     let use_data = (opt_data options \<noteq> None);
         key = (case it_key of Some k \<Rightarrow> string_value k | None \<Rightarrow> integer_value (of_nat it_index));
         index = integer_value (of_nat (if it_index \<noteq> 0 then it_index else i));
         data_map' = str_update E ''last'' (boolean_value (i = len))
                       (str_update E ''first'' (boolean_value (i = 0))
                       (str_update E ''key'' key (str_update E ''index'' index data_map)))
     in
       sbind (if use_data
              then sbind (lift (handlebars_value_array_set bparams 0 it_child)) (\<lambda>b.
                   sbind (lift (handlebars_value_array_set b 1 key)) (\<lambda>b'.
                   sbind (new_map data_map') (\<lambda>d. ret (data_map', b', set_body null_value d))))
              else ret (data_map, bparams, null_value)) (\<lambda>(dm, bp, data).
       sbind (handlebars_vm_execute_program_ex E (raccept R) (opt_program options) it_child (Some data) (Some bp)) (\<lambda>t.
       sbind (lift (handlebars_string_append result (sval t))) (\<lambda>result'.
         ret (i + 1, dm, bp, result')))))"

text \<open>Nothing was iterated: the inverse program runs.\<close>

definition each_finish :: "env \<Rightarrow> runs \<Rightarrow> handlebars_options \<Rightarrow> nat \<Rightarrow> hstr \<Rightarrow> value option step" where
  "each_finish E R options i result =
     sbind (if i = 0
            then sbind (deref (opt_scope options)) (\<lambda>scope.
                 sbind (handlebars_vm_execute_program E (raccept R) (opt_inverse options) scope) (\<lambda>t.
                   lift (handlebars_string_append result (sval t))))
            else ret result) (\<lambda>r. ret (Some (string_value r)))"

definition handlebars_builtin_each :: "env \<Rightarrow> runs \<Rightarrow> helper" where
  "handlebars_builtin_each E R argv options =
     (case argv of
        [] \<Rightarrow> throw_error ''Must pass iterator to #each''
      | v # _ \<Rightarrow>
          sbind (call_if_callable R v options) (\<lambda>context.
          let result = handlebars_string_ctor [] in
          if handlebars_value_get_type context \<notin> {HANDLEBARS_VALUE_TYPE_MAP, HANDLEBARS_VALUE_TYPE_ARRAY}
          then each_finish E R options 0 result
          else
            sbind fresh (\<lambda>a.
            sbind (each_data E options) (\<lambda>data_map.
            if handlebars_value_count context \<le> 0 then each_finish E R options 0 result
            else
              let bparams = (if opt_data options = None then null_value else handlebars_value 0 (V_ARRAY a [])) in
              sbind (foreach context (each_round E R options (nat (handlebars_value_count context) - 1))
                       (0, data_map, bparams, result)) (\<lambda>(i, _, _, r).
                each_finish E R options i r)))))"

definition handlebars_builtin_block_helper_missing :: "env \<Rightarrow> runs \<Rightarrow> helper" where
  "handlebars_builtin_block_helper_missing E R argv options =
     (let run = (\<lambda>program context. sbind (handlebars_vm_execute_program E (raccept R) program context) (\<lambda>t. ret (Some (string_value t))));
          on_scope = (\<lambda>program. sbind (deref (opt_scope options)) (run program))
      in
        case argv of
          [] \<Rightarrow> on_scope (opt_inverse options)
        | context # _ \<Rightarrow>
            if handlebars_value_get_type context = HANDLEBARS_VALUE_TYPE_TRUE then on_scope (opt_program options)
            else if handlebars_value_is_empty context \<and>
                \<not> (handlebars_value_get_type context = HANDLEBARS_VALUE_TYPE_INTEGER \<and> handlebars_value_get_intval context = 0)
            then on_scope (opt_inverse options)
            else if handlebars_value_get_type context = HANDLEBARS_VALUE_TYPE_ARRAY
            then handlebars_vm_call_helper_str E R ''each'' argv options
            else run (opt_program options) context)"

definition handlebars_builtin_helper_missing :: helper where
  "handlebars_builtin_helper_missing argv options =
     (if argv \<noteq> [] then throw_error ''Missing helper: \"%.*s\"'' else ret (Some null_value))"

definition handlebars_builtin_log :: "env \<Rightarrow> helper" where
  "handlebars_builtin_log E argv options =
     sbind (gets id) (\<lambda>s.
       case vlog_func s of
         Some f \<Rightarrow> eregistered E f argv options
       | None \<Rightarrow>
           sbind (sfold (\<lambda>v _. sbind (lift (handlebars_value_dump (eG E) (vbusy s) v 0)) (\<lambda>_. ret ())) argv ()) (\<lambda>_.
             ret (Some null_value)))"

definition handlebars_builtin_lookup :: "env \<Rightarrow> helper" where
  "handlebars_builtin_lookup E argv options =
     (case argv of
        context # field # _ \<Rightarrow>
          (case handlebars_value_get_type context of
             HANDLEBARS_VALUE_TYPE_MAP \<Rightarrow>
               ret (Some (case handlebars_value_map_find (eH E) context (handlebars_value_to_string (eG E) field) of
                 Some v \<Rightarrow> v | None \<Rightarrow> null_value))
           | HANDLEBARS_VALUE_TYPE_ARRAY \<Rightarrow>
               ret (if handlebars_value_get_type field = HANDLEBARS_VALUE_TYPE_INTEGER
                    then handlebars_value_array_find context (handlebars_value_get_intval field)
                    else Some null_value)
           | _ \<Rightarrow> ret (Some null_value))
      | _ \<Rightarrow> throw_error ''lookup requires two parameters'')"

definition handlebars_builtin_if :: "env \<Rightarrow> runs \<Rightarrow> helper" where
  "handlebars_builtin_if E R argv options =
     (case argv of
        [v] \<Rightarrow>
          sbind (call_if_callable R v options) (\<lambda>conditional.
          sbind (if \<not> handlebars_value_is_empty conditional then ret True
                 else if handlebars_value_get_type conditional = HANDLEBARS_VALUE_TYPE_INTEGER \<and>
                         handlebars_value_get_intval conditional = 0
                 then sbind (deref (opt_hash options)) (\<lambda>h.
                        ret (handlebars_value_map_str_find (eH E) h ''includeZero'' \<noteq> None))
                 else ret False) (\<lambda>truth.
          sbind (deref (opt_scope options)) (\<lambda>scope.
          sbind (handlebars_vm_execute_program E (raccept R)
                   (if truth then opt_program options else opt_inverse options) scope) (\<lambda>t.
            ret (Some (string_value t))))))
      | _ \<Rightarrow> throw_error ''#if requires exactly one argument'')"

definition handlebars_builtin_unless :: "env \<Rightarrow> runs \<Rightarrow> helper" where
  "handlebars_builtin_unless E R argv options =
     (case argv of
        [v] \<Rightarrow> handlebars_vm_call_helper_str E R ''if''
                 [handlebars_value_boolean v (handlebars_value_is_empty v)] options
      | _ \<Rightarrow> throw_error ''#unless requires exactly one argument'')"

definition handlebars_builtin_with :: "env \<Rightarrow> runs \<Rightarrow> helper" where
  "handlebars_builtin_with E R argv options =
     (case argv of
        [v] \<Rightarrow>
          sbind (call_if_callable R v options) (\<lambda>context.
          sbind (if handlebars_value_get_type context = HANDLEBARS_VALUE_TYPE_NULL
                 then handlebars_vm_execute_program E (raccept R) (opt_inverse options) context
                 else
                   sbind fresh (\<lambda>a.
                   sbind (lift (handlebars_value_array_set (handlebars_value 0 (V_ARRAY a [])) 0 context)) (\<lambda>bparams.
                     handlebars_vm_execute_program_ex E (raccept R) (opt_program options) context (opt_data options) (Some bparams))))
            (\<lambda>t. ret (Some (string_value t))))
      | _ \<Rightarrow> throw_error ''#with requires exactly one argument'')"

definition handlebars_builtin_hbsc_set_delimiters :: helper where
  "handlebars_builtin_hbsc_set_delimiters argv options =
     sbind (case argv of
              [a, b] \<Rightarrow>
                (case (handlebars_value_get_string a, handlebars_value_get_string b) of
                   (Some op, Some cl) \<Rightarrow> put (\<lambda>s. s\<lparr>vdelim_open := Some op, vdelim_close := Some cl\<rparr>)
                 | _ \<Rightarrow> ret ())
            | _ \<Rightarrow> ret ()) (\<lambda>_. ret (Some null_value))"

text \<open>The array \<open>builtins\<close>.\<close>

definition builtins :: "env \<Rightarrow> runs \<Rightarrow> helper list" where
  "builtins E R =
     [handlebars_builtin_block_helper_missing E R, handlebars_builtin_helper_missing, handlebars_builtin_each E R,
      handlebars_builtin_if E R, handlebars_builtin_unless E R, handlebars_builtin_with E R, handlebars_builtin_log E,
      handlebars_builtin_lookup E, handlebars_builtin_hbsc_set_delimiters]"

definition builtin_helper :: "env \<Rightarrow> runs \<Rightarrow> nat \<Rightarrow> helper" where
  "builtin_helper E R i argv options =
     (if i < length (builtins E R) then (builtins E R ! i) argv options else raise Mem_error)"

end
