(* ===== verification/Vm.thy ===== *)
theory Vm
  imports VmHelpers
begin

text \<open>
  The virtual machine (src/handlebars_vm.c): one definition per opcode, the dispatch loop, and the closures of partials
  and lambdas. The operands of an opcode are read through the pointers of its module. An operand of the wrong kind
  fails the assertion the handler starts with.

  The recursion of the loop, the calls and the built-in helpers has one common fuel: template code can run forever
  (a partial that includes itself), so a run that does not end is one that no fuel is enough for.
\<close>

section \<open>Closures\<close>

definition new_closure :: "handlebars_closure_func \<Rightarrow> value list \<Rightarrow> value handlebars_value_internals step" where
  "new_closure fn locals = sbind fresh (\<lambda>a. ret (V_CLOSURE a fn locals))"

definition partial_block_run :: "env \<Rightarrow> runs \<Rightarrow> nat \<Rightarrow> u64 \<Rightarrow> value \<Rightarrow> hstr option step" where
  "partial_block_run E R module program input =
     sbind (TOP block_stack) (\<lambda>bparams.
     sbind (gets vmodule) (\<lambda>m.
       if m = Some module
       then sbind (handlebars_vm_execute_program_ex E (raccept R) program input None bparams) (\<lambda>b. ret (Some b))
       else handlebars_vm_execute_ex E (raccept R) module input program None bparams))"

definition call_partial_block :: "env \<Rightarrow> runs \<Rightarrow> value list \<Rightarrow> helper" where
  "call_partial_block E R locals argv options =
     (case map vbody (take 3 locals) of
        [V_PTR _ module, V_INTEGER program, V_INTEGER depth] \<Rightarrow>
          sbind (if sint depth > 0
                 then sbind (gets vpartial) (\<lambda>st.
                      sbind (deref (handlebars_stack_get st (nat (sint depth - 1)))) (\<lambda>v. PUSH partial_stack v))
                 else ret ()) (\<lambda>_.
          sbind (case argv of v # _ \<Rightarrow> ret v | [] \<Rightarrow> sbind (TOP context_stack) deref) (\<lambda>input.
          sbind (partial_block_run E R module program input) (\<lambda>buffer.
          sbind (if sint depth > 0 then sbind (POP partial_stack) (\<lambda>_. ret ()) else ret ()) (\<lambda>_.
            ret (Some (case buffer of Some b \<Rightarrow> string_value b | None \<Rightarrow> null_value))))))
      | _ \<Rightarrow> raise Assert_fail)"

definition call_partial_string :: "env \<Rightarrow> runs \<Rightarrow> value list \<Rightarrow> helper" where
  "call_partial_string E R locals argv options =
     (case map vbody (take 2 locals) of
        [V_STRING tmpl, i] \<Rightarrow>
          (case (i, argv) of
             (V_STRING indent, input # _) \<Rightarrow>
               sbind (execute_template E (raccept R) tmpl input (Some indent) False) (\<lambda>b. ret (Some (string_value b)))
           | (V_NULL, input # _) \<Rightarrow>
               sbind (execute_template E (raccept R) tmpl input None False) (\<lambda>b. ret (Some (string_value b)))
           | (_, []) \<Rightarrow> raise Mem_error
           | _ \<Rightarrow> raise Assert_fail)
      | _ \<Rightarrow> raise Assert_fail)"

definition call_mustache_lambda :: "env \<Rightarrow> runs \<Rightarrow> value list \<Rightarrow> helper" where
  "call_mustache_lambda E R locals argv options =
     (case locals of
        [callable, t, d] \<Rightarrow>
          (case vbody t of
             V_STRING lambda_tmpl \<Rightarrow>
               if \<not> handlebars_value_is_callable callable \<or>
                  handlebars_value_get_type d \<notin> {HANDLEBARS_VALUE_TYPE_TRUE, HANDLEBARS_VALUE_TYPE_FALSE}
               then raise Assert_fail
               else
                 sbind (rcall R callable [string_value lambda_tmpl] options) (\<lambda>lambda_result.
                   if handlebars_value_is_empty lambda_result then ret (Some null_value)
                   else
                     sbind (execute_template E (raccept R) (handlebars_value_to_string (eG E) lambda_result) callable None
                              (handlebars_value_get_boolval d)) (\<lambda>s. ret (Some (string_value s))))
           | _ \<Rightarrow> raise Assert_fail)
      | _ \<Rightarrow> raise Assert_fail)"

definition handlebars_closure_call :: "env \<Rightarrow> runs \<Rightarrow> handlebars_closure_func \<Rightarrow> value list \<Rightarrow> helper" where
  "handlebars_closure_call E R fn locals =
     (case fn of
        invoke_partial_block_closure \<Rightarrow> call_partial_block E R locals
      | invoke_partial_string_closure \<Rightarrow> call_partial_string E R locals
      | invoke_mustache_style_lambda_closure \<Rightarrow> call_mustache_lambda E R locals
      | Registered_closure n \<Rightarrow> eclosure E n locals)"

definition handlebars_value_call :: "env \<Rightarrow> runs \<Rightarrow> call_fn" where
  "handlebars_value_call E R v argv options =
     sbind (case vbody v of
              V_HELPER (Builtin i) \<Rightarrow> builtin_helper E R i argv options
            | V_HELPER (Registered n) \<Rightarrow> eregistered E n argv options
            | V_CLOSURE _ fn locals \<Rightarrow> handlebars_closure_call E R fn locals argv options
            | _ \<Rightarrow> throw_error ''Unable to call value of type: %s'') (\<lambda>r.
       case r of None \<Rightarrow> raise Assert_fail | Some w \<Rightarrow> ret w)"

section \<open>Operands and options\<close>

definition op_string :: "operand \<Rightarrow> hstr step" where
  "op_string p = (case p of operand_string s \<Rightarrow> ret s | _ \<Rightarrow> raise Assert_fail)"

definition op_long :: "operand \<Rightarrow> u64 step" where
  "op_long p = (case p of operand_long n \<Rightarrow> ret n | _ \<Rightarrow> raise Assert_fail)"

definition op_boolean :: "operand \<Rightarrow> bool step" where
  "op_boolean p = (case p of operand_boolean b \<Rightarrow> ret b | _ \<Rightarrow> raise Assert_fail)"

definition op_flag :: "operand \<Rightarrow> bool step" where
  "op_flag p = (case p of operand_boolean b \<Rightarrow> ret b | operand_null b \<Rightarrow> ret b | _ \<Rightarrow> raise Assert_fail)"

definition op_array :: "operand \<Rightarrow> hstr list step" where
  "op_array p = (case p of operand_array a \<Rightarrow> ret a | _ \<Rightarrow> raise Assert_fail)"

text \<open>\<open>(int) longval\<close>; an array of negative length is undefined.\<close>

definition op_argc :: "operand \<Rightarrow> nat step" where
  "op_argc p = sbind (op_long p) (\<lambda>n.
     if sint (ucast n :: u32) < 0 then raise Mem_error else ret (nat (sint (ucast n :: u32))))"

fun pop_args :: "nat \<Rightarrow> value list \<Rightarrow> value list step" where
  "pop_args 0 argv = ret argv"
| "pop_args (Suc n) argv =
     sbind (POP main_stack) (\<lambda>v. pop_args n ((case v of None \<Rightarrow> null_value | Some x \<Rightarrow> x) # argv))"

definition program_number :: "value option \<Rightarrow> u64" where
  "program_number v = (case v of None \<Rightarrow> - 1 | Some x \<Rightarrow> handlebars_value_get_intval x)"

definition setup_options :: "nat \<Rightarrow> (value list \<times> handlebars_options) step" where
  "setup_options argc =
     sbind (POP main_stack) (\<lambda>hash.
     sbind (sbind (TOP context_stack) deref) (\<lambda>scope.
     sbind (gets vdata) (\<lambda>data.
     sbind (POP main_stack) (\<lambda>inv_program.
     sbind (POP main_stack) (\<lambda>program.
     sbind (pop_args argc []) (\<lambda>argv.
       ret (argv, \<lparr>opt_inverse = program_number inv_program, opt_program = program_number program, opt_name = None,
                   opt_scope = Some scope, opt_data = Some data, opt_hash = hash\<rparr>)))))))"

section \<open>Opcodes\<close>

definition accept_ambiguous_block_value :: "env \<Rightarrow> runs \<Rightarrow> unit step" where
  "accept_ambiguous_block_value E R =
     sbind (gets vlast_helper) (\<lambda>lh.
       case lh of
         None \<Rightarrow>
           sbind (setup_options 1) (\<lambda>(argv, options).
           sbind (handlebars_vm_call_helper_str E R ''blockHelperMissing'' argv options) (\<lambda>r.
             case r of None \<Rightarrow> raise Assert_fail | Some v \<Rightarrow> PUSH main_stack v))
       | Some h \<Rightarrow>
           sbind (setup_options 0) (\<lambda>_.
             if hbs_str_eq_strl h ''lambda'' then put (vlast_helper_update (\<lambda>_. None)) else ret ()))"

definition accept_append :: "env \<Rightarrow> bool \<Rightarrow> unit step" where
  "accept_append E escape =
     sbind (POP main_stack) (\<lambda>v. case v of None \<Rightarrow> ret () | Some x \<Rightarrow> append_to_buffer E x escape)"

definition accept_append_content :: "opcode \<Rightarrow> unit step" where
  "accept_append_content opc = sbind (op_string (op1 opc)) (\<lambda>s. append_text (sval s))"

definition accept_assign_to_hash :: "env \<Rightarrow> opcode \<Rightarrow> unit step" where
  "accept_assign_to_hash E opc =
     sbind (POP_asserted hash_stack) (\<lambda>h.
     sbind (POP_asserted main_stack) (\<lambda>v.
     sbind (op_string (op1 opc)) (\<lambda>key.
     sbind (lift (handlebars_value_map_update (eH E) h key v)) (\<lambda>h'. PUSH hash_stack h'))))"

definition accept_block_value :: "env \<Rightarrow> runs \<Rightarrow> opcode \<Rightarrow> unit step" where
  "accept_block_value E R opc =
     sbind (op_string (op1 opc)) (\<lambda>name.
     sbind (setup_options 1) (\<lambda>(argv, options).
     sbind (handlebars_vm_call_helper_str E R ''blockHelperMissing'' argv (options\<lparr>opt_name := Some name\<rparr>)) (\<lambda>r.
       case r of None \<Rightarrow> ret () | Some v \<Rightarrow> append_to_buffer E v False)))"

definition accept_empty_hash :: "unit step" where
  "accept_empty_hash = sbind (new_map []) (\<lambda>b. PUSH main_stack (set_body null_value b))"

text \<open>\<open>last_context\<close> is a pointer to the value that is written.\<close>

definition set_last_context :: "value \<Rightarrow> unit step" where
  "set_last_context v = sbind (sbind (gets vlast_context) deref) (\<lambda>_. put (vlast_context_update (\<lambda>_. Some v)))"

definition accept_get_context :: "opcode \<Rightarrow> unit step" where
  "accept_get_context opc =
     sbind (op_long (op1 opc)) (\<lambda>depth.
     sbind (LEN context_stack) (\<lambda>len.
       if unat depth \<ge> len
       then sbind (sbind (gets vlast_context) deref) (\<lambda>c. set_last_context (handlebars_value_null c))
       else sbind (sbind (GET context_stack depth) deref) set_last_context))"

definition helper_missing :: "env \<Rightarrow> value step" where
  "helper_missing E = sbind (lookup_helper E (handlebars_string_ctor ''helperMissing'')) deref"

definition accept_invoke_ambiguous :: "env \<Rightarrow> runs \<Rightarrow> opcode \<Rightarrow> unit step" where
  "accept_invoke_ambiguous E R opc =
     sbind (POP_asserted main_stack) (\<lambda>v.
     sbind accept_empty_hash (\<lambda>_.
     sbind (op_string (op1 opc)) (\<lambda>name.
     sbind (op_boolean (op2 opc)) (\<lambda>use_delims.
     sbind (setup_options 0) (\<lambda>(argv, options).
     sbind (put (vlast_helper_update (\<lambda>_. None))) (\<lambda>_.
     sbind (gets (\<lambda>s. vm_flag s flag_mustache_style_lambdas)) (\<lambda>lambdas.
     sbind (if lambdas \<and> handlebars_value_is_callable v
            then
              sbind (op_string (op3 opc)) (\<lambda>tmpl.
              sbind (new_closure invoke_mustache_style_lambda_closure [v, string_value tmpl, boolean_value use_delims]) (\<lambda>b.
                let c = set_body v b in ret (c, c, Some (handlebars_string_ctor ''lambda''))))
            else
              sbind (lookup_helper E name) (\<lambda>h.
                case h of
                  Some fn \<Rightarrow> ret (fn, v, Some name)
                | None \<Rightarrow>
                    if handlebars_value_is_callable v then ret (v, v, None)
                    else sbind (helper_missing E) (\<lambda>fn. ret (fn, v, None)))) (\<lambda>(fn, v', last_helper).
     sbind (rcall R fn argv (options\<lparr>opt_name := Some name\<rparr>)) (\<lambda>result.
     sbind (PUSH main_stack
              (if handlebars_value_get_type result \<noteq> HANDLEBARS_VALUE_TYPE_NULL then result else v')) (\<lambda>_.
       put (vlast_helper_update (\<lambda>_. last_helper))))))))))))"

definition accept_invoke_helper :: "env \<Rightarrow> runs \<Rightarrow> opcode \<Rightarrow> unit step" where
  "accept_invoke_helper E R opc =
     sbind (POP_asserted main_stack) (\<lambda>v.
     sbind (op_string (op2 opc)) (\<lambda>name.
     sbind (op_boolean (op3 opc)) (\<lambda>is_simple.
     sbind (op_argc (op1 opc)) (\<lambda>argc.
     sbind (setup_options argc) (\<lambda>(argv, options).
     sbind (if is_simple then lookup_helper E name else ret None) (\<lambda>h.
     sbind (case h of
              Some fn \<Rightarrow> ret fn
            | None \<Rightarrow> if handlebars_value_is_callable v then ret v else helper_missing E) (\<lambda>fn.
     sbind (rcall R fn argv (options\<lparr>opt_name := Some name\<rparr>)) (PUSH main_stack))))))))"

definition accept_invoke_known_helper :: "env \<Rightarrow> runs \<Rightarrow> opcode \<Rightarrow> unit step" where
  "accept_invoke_known_helper E R opc =
     sbind (op_string (op2 opc)) (\<lambda>name.
     sbind (op_argc (op1 opc)) (\<lambda>argc.
     sbind (setup_options argc) (\<lambda>(argv, options).
     sbind (lookup_helper E name) (\<lambda>h.
       case h of
         None \<Rightarrow> throw_error ''Invalid known helper: %.*s''
       | Some fn \<Rightarrow> sbind (rcall R fn argv (options\<lparr>opt_name := Some name\<rparr>)) (PUSH main_stack)))))"

section \<open>Lookups\<close>

text \<open>
  \<open>sscanf(s, "%ld", &index)\<close>: whether its result is not 0, which includes EOF for a string of blanks, and the
  variable afterwards.
\<close>

definition sscanf_ld :: "string \<Rightarrow> u64 \<Rightarrow> bool \<times> u64" where
  "sscanf_ld s index =
     (let u = dropWhile c_isspace s; (neg, t) = split_sign u
      in if u = [] then (True, index)
         else if takeWhile c_isdigit t = [] then (False, index)
         else (True, of_int (strtol10 u)))"

definition not_defined :: "'a step" where
  "not_defined = throw_error ''\"%.*s\" not defined in object''"

definition depthed_lookup :: "env \<Rightarrow> hstr \<Rightarrow> unit step" where
  "depthed_lookup E key =
     sbind (gets vcontext) (\<lambda>st.
       PUSH main_stack
         (case find (\<lambda>v. handlebars_value_map_find (eH E) v key \<noteq> None) (rev (kv st)) of
            Some v \<Rightarrow> v
          | None \<Rightarrow> null_value))"

text \<open>
  The loop over the segments. \<open>Inl b\<close>: nothing was found, which is an error at once (\<open>b\<close>) or only if the
  terminal is required.
\<close>

fun walk_path :: "env \<Rightarrow> bool \<Rightarrow> bool \<Rightarrow> hstr list \<Rightarrow> value \<Rightarrow> u64 \<Rightarrow> bool + value" where
  "walk_path E assume strict [] v index = Inr v"
| "walk_path E assume strict (p # ps) v index =
     (let is_last = (ps = []);
          next = (\<lambda>r index'. case r of
             Some w \<Rightarrow> walk_path E assume strict ps w index'
           | None \<Rightarrow> Inl (strict \<and> \<not> is_last))
      in
        case handlebars_value_get_type v of
          HANDLEBARS_VALUE_TYPE_MAP \<Rightarrow> next (handlebars_value_map_find (eH E) v p) index
        | HANDLEBARS_VALUE_TYPE_ARRAY \<Rightarrow>
            (let (ok, index') = sscanf_ld (c_string p) index
             in next (if ok then handlebars_value_array_find v index' else None) index')
        | _ \<Rightarrow> Inl (assume \<and> is_last))"

definition push_found :: "bool \<Rightarrow> bool + value \<Rightarrow> unit step" where
  "push_found require_terminal r =
     (case r of
        Inr v \<Rightarrow> PUSH main_stack v
      | Inl err \<Rightarrow> if err \<or> require_terminal then not_defined else PUSH main_stack null_value)"

definition accept_push_context :: "unit step" where
  "accept_push_context = sbind (sbind (gets vlast_context) deref) (PUSH main_stack)"

definition accept_lookup_on_context :: "env \<Rightarrow> opcode \<Rightarrow> unit step" where
  "accept_lookup_on_context E opc =
     sbind (op_array (op1 opc)) (\<lambda>arr.
     sbind (op_flag (op2 opc)) (\<lambda>_.
     sbind (op_flag (op3 opc)) (\<lambda>terminal.
     sbind (op_flag (op4 opc)) (\<lambda>scoped.
     sbind (gets id) (\<lambda>s.
     let assume = vm_flag s flag_assume_objects; strict = vm_flag s flag_strict in
     if arr = [] then raise Mem_error
     else
       sbind (if \<not> scoped \<and> vm_flag s flag_compat then depthed_lookup E (hd arr) else accept_push_context) (\<lambda>_.
       sbind (POP_asserted main_stack) (\<lambda>v.
         push_found (strict \<and> terminal) (walk_path E assume (strict \<or> assume) arr v (- 1)))))))))"

text \<open>A segment of a data path that is not found is skipped unless the mode is strict.\<close>

fun walk_data :: "env \<Rightarrow> bool \<Rightarrow> hstr list \<Rightarrow> value \<Rightarrow> value option" where
  "walk_data E strict [] v = Some v"
| "walk_data E strict (p # ps) v =
     (case handlebars_value_map_find (eH E) v p of
        Some w \<Rightarrow> walk_data E strict ps w
      | None \<Rightarrow> if strict then None else walk_data E strict ps v)"

definition data_parent :: "env \<Rightarrow> value \<Rightarrow> value" where
  "data_parent E d = (case handlebars_value_map_str_find (eH E) d ''_parent'' of Some p \<Rightarrow> p | None \<Rightarrow> d)"

definition accept_lookup_data :: "env \<Rightarrow> opcode \<Rightarrow> unit step" where
  "accept_lookup_data E opc =
     sbind (op_long (op1 opc)) (\<lambda>depth.
     sbind (op_array (op2 opc)) (\<lambda>arr.
     sbind (op_flag (op3 opc)) (\<lambda>terminal.
     sbind (gets id) (\<lambda>s.
     let assume = vm_flag s flag_assume_objects; strict = vm_flag s flag_strict;
         data = (data_parent E ^^ unat depth) (vdata s) in
     case arr of
       [] \<Rightarrow> raise Mem_error
     | first # rest \<Rightarrow>
         let done = (\<lambda>v. case walk_data E (strict \<or> assume) rest v of
               None \<Rightarrow> not_defined
             | Some w \<Rightarrow> if handlebars_value_get_type w = HANDLEBARS_VALUE_TYPE_NULL \<and> strict \<and> terminal
                 then not_defined else PUSH main_stack w)
         in
           (case handlebars_value_map_find (eH E) data first of
              Some v \<Rightarrow> done v
            | None \<Rightarrow>
                if hbs_str_eq_strl first ''root'' then sbind (sbind (TOP context_stack) deref) done
                else if hbs_str_eq_strl first ''partial-block'' then sbind (sbind (TOP partial_stack) deref) done
                else if assume \<or> strict \<and> terminal then not_defined
                else PUSH main_stack null_value)))))"

definition block_param_path :: "env \<Rightarrow> hstr list \<Rightarrow> value \<Rightarrow> value" where
  "block_param_path E parts v =
     fst (foldl (\<lambda>(w, go) p. if go then (case handlebars_value_map_find (eH E) w p of
        Some x \<Rightarrow> (x, True) | None \<Rightarrow> (w, False)) else (w, False)) (v, True) parts)"

definition accept_lookup_block_param :: "env \<Rightarrow> opcode \<Rightarrow> unit step" where
  "accept_lookup_block_param E opc =
     sbind (op_array (op1 opc)) (\<lambda>depths.
     sbind (op_array (op2 opc)) (\<lambda>arr.
     case depths of
       d1 # d2 # _ \<Rightarrow>
         let (_, param1) = sscanf_ld (c_string d1) (- 1); (_, param2) = sscanf_ld (c_string d2) (- 1) in
         sbind (LEN block_stack) (\<lambda>len.
         if sint param1 \<ge> int len then PUSH main_stack null_value
         else
           sbind (GET block_stack param1) (\<lambda>v1.
             PUSH main_stack
               (case Option.bind v1 (\<lambda>v. handlebars_value_array_find v param2) of
                  None \<Rightarrow> null_value
                | Some v2 \<Rightarrow> block_param_path E (tl arr) v2)))
     | _ \<Rightarrow> raise Mem_error))"

section \<open>Pushing\<close>

definition accept_pop_hash :: "unit step" where
  "accept_pop_hash = sbind (POP_asserted hash_stack) (PUSH main_stack)"

definition accept_push_hash :: "unit step" where
  "accept_push_hash = sbind (new_map []) (\<lambda>b. PUSH hash_stack (set_body null_value b))"

definition accept_push_program :: "opcode \<Rightarrow> unit step" where
  "accept_push_program opc =
     PUSH main_stack (integer_value (case op1 opc of operand_long n \<Rightarrow> n | _ \<Rightarrow> - 1))"

definition accept_push_literal :: "opcode \<Rightarrow> unit step" where
  "accept_push_literal opc =
     (case op1 opc of
        operand_string s \<Rightarrow>
          PUSH main_stack (if hbs_str_eq_strl s ''undefined'' \<or> hbs_str_eq_strl s ''null'' then null_value else string_value s)
      | operand_boolean b \<Rightarrow> PUSH main_stack (boolean_value b)
      | operand_long n \<Rightarrow> PUSH main_stack (integer_value n)
      | operand_null _ \<Rightarrow> PUSH main_stack null_value
      | operand_array _ \<Rightarrow> raise Assert_fail)"

definition accept_push_string :: "opcode \<Rightarrow> unit step" where
  "accept_push_string opc = sbind (op_string (op1 opc)) (\<lambda>s. PUSH main_stack (string_value s))"

definition accept_resolve_possible_lambda :: "runs \<Rightarrow> unit step" where
  "accept_resolve_possible_lambda R =
     sbind (POP_asserted main_stack) (\<lambda>v.
       if handlebars_value_is_callable v
       then
         sbind (sbind (TOP context_stack) deref) (\<lambda>scope.
         sbind (rcall R v [scope] \<lparr>opt_inverse = 0, opt_program = 0, opt_name = None, opt_scope = Some scope,
                                   opt_data = None, opt_hash = None\<rparr>) (PUSH main_stack))
       else PUSH main_stack v)"

section \<open>Partials\<close>

definition partial_name :: "opcode \<Rightarrow> hstr option step" where
  "partial_name opc =
     sbind (op_boolean (op1 opc)) (\<lambda>dynamic.
       if dynamic then sbind (POP_asserted main_stack) (\<lambda>v. ret (handlebars_value_get_string v))
       else
         ret (case op2 opc of
                operand_long n \<Rightarrow> Some (handlebars_string_ctor (show_int (sint n)))
              | operand_string s \<Rightarrow> Some s
              | _ \<Rightarrow> None))"

definition find_partial :: "env \<Rightarrow> hstr option \<Rightarrow> value option step" where
  "find_partial E name =
     (case name of
        None \<Rightarrow> ret None
      | Some n \<Rightarrow>
          gets (\<lambda>s. case handlebars_value_map_find (eH E) (vpartials s) n of
            Some p \<Rightarrow> Some p
          | None \<Rightarrow> if hbs_str_eq_strl n ''@partial-block'' then handlebars_stack_top (vpartial s) else None))"

text \<open>The block of the call, as a closure on the stack of partial blocks. Program 0 is not pushed.\<close>

definition push_partial_block :: "u64 \<Rightarrow> value step" where
  "push_partial_block program =
     (if sint program > 0
      then
        sbind (sbind (gets vmodule) deref) (\<lambda>a.
        sbind fresh (\<lambda>i.
        sbind (LEN partial_stack) (\<lambda>len.
        sbind (new_closure invoke_partial_block_closure
                 [handlebars_value 0 (V_PTR i a), integer_value program, integer_value (of_nat len)]) (\<lambda>b.
        let v = set_body null_value b in sbind (PUSH partial_stack v) (\<lambda>_. ret v)))))
      else ret null_value)"

text \<open>A partial that is a text becomes a closure that renders it.\<close>

definition wrap_partial :: "hstr \<Rightarrow> value \<Rightarrow> value step" where
  "wrap_partial indent partial =
     (case vbody partial of
        V_STRING s \<Rightarrow>
          sbind (gets (\<lambda>s. vm_flag s flag_compat)) (\<lambda>compat.
          sbind (new_closure invoke_partial_string_closure
                   [string_value s, if compat then string_value indent else null_value]) (\<lambda>b.
            ret (set_body partial b)))
      | _ \<Rightarrow> ret partial)"

definition call_partial :: "env \<Rightarrow> runs \<Rightarrow> hstr \<Rightarrow> value \<Rightarrow> value list \<Rightarrow> handlebars_options \<Rightarrow> unit step" where
  "call_partial E R indent partial argv options =
     sbind (wrap_partial indent partial) (\<lambda>fn.
       if \<not> handlebars_value_is_callable fn then throw_error ''The partial %s was not a string, was %s''
       else
         sbind (rcall R fn argv options) (\<lambda>v.
         sbind (lift (handlebars_value_expression (eG E) v False)) (\<lambda>buffer.
         sbind (gets id) (\<lambda>s.
         sbind (lift (if vm_flag s flag_compat then handlebars_string_append_str (vbuffer s) buffer
                      else handlebars_string_indent_append (vbuffer s) buffer indent)) (\<lambda>b.
           put (vbuffer_update (\<lambda>_. b)))))))"

definition accept_invoke_partial :: "env \<Rightarrow> runs \<Rightarrow> opcode \<Rightarrow> unit step" where
  "accept_invoke_partial E R opc =
     sbind (need (case op2 opc of operand_string _ \<Rightarrow> True | operand_null _ \<Rightarrow> True | operand_long _ \<Rightarrow> True | _ \<Rightarrow> False)) (\<lambda>_.
     sbind (op_string (op3 opc)) (\<lambda>indent.
     sbind (setup_options 1) (\<lambda>(argv, options).
     sbind (partial_name opc) (\<lambda>name.
     sbind (find_partial E name) (\<lambda>found.
     sbind (push_partial_block (opt_program options)) (\<lambda>block.
     sbind (merge_hash E (hd argv) (opt_hash options)) (\<lambda>input.
     sbind (gets (\<lambda>s. vm_flag s flag_compat)) (\<lambda>compat.
     sbind (case found of
              Some p \<Rightarrow> call_partial E R indent p [input] options
            | None \<Rightarrow>
                if sint (opt_program options) \<ge> 0 then call_partial E R indent block [input] options
                else if compat then ret ()
                else throw_error ''The partial %.*s could not be found'') (\<lambda>_.
       if sint (opt_program options) > 0 then sbind (POP partial_stack) (\<lambda>_. ret ()) else ret ())))))))))"

section \<open>The loop\<close>

definition dispatch :: "env \<Rightarrow> runs \<Rightarrow> opcode \<Rightarrow> unit step" where
  "dispatch E R opc =
     (case otype opc of
        handlebars_opcode_type_ambiguous_block_value \<Rightarrow> accept_ambiguous_block_value E R
      | handlebars_opcode_type_append \<Rightarrow> accept_append E False
      | handlebars_opcode_type_append_escaped \<Rightarrow> accept_append E True
      | handlebars_opcode_type_append_content \<Rightarrow> accept_append_content opc
      | handlebars_opcode_type_assign_to_hash \<Rightarrow> accept_assign_to_hash E opc
      | handlebars_opcode_type_block_value \<Rightarrow> accept_block_value E R opc
      | handlebars_opcode_type_get_context \<Rightarrow> accept_get_context opc
      | handlebars_opcode_type_empty_hash \<Rightarrow> accept_empty_hash
      | handlebars_opcode_type_invoke_ambiguous \<Rightarrow> accept_invoke_ambiguous E R opc
      | handlebars_opcode_type_invoke_helper \<Rightarrow> accept_invoke_helper E R opc
      | handlebars_opcode_type_invoke_known_helper \<Rightarrow> accept_invoke_known_helper E R opc
      | handlebars_opcode_type_invoke_partial \<Rightarrow> accept_invoke_partial E R opc
      | handlebars_opcode_type_lookup_block_param \<Rightarrow> accept_lookup_block_param E opc
      | handlebars_opcode_type_lookup_data \<Rightarrow> accept_lookup_data E opc
      | handlebars_opcode_type_lookup_on_context \<Rightarrow> accept_lookup_on_context E opc
      | handlebars_opcode_type_pop_hash \<Rightarrow> accept_pop_hash
      | handlebars_opcode_type_push_context \<Rightarrow> accept_push_context
      | handlebars_opcode_type_push_hash \<Rightarrow> accept_push_hash
      | handlebars_opcode_type_push_program \<Rightarrow> accept_push_program opc
      | handlebars_opcode_type_push_literal \<Rightarrow> accept_push_literal opc
      | handlebars_opcode_type_push_string \<Rightarrow> accept_push_string opc
      | handlebars_opcode_type_resolve_possible_lambda \<Rightarrow> accept_resolve_possible_lambda R
      | _ \<Rightarrow> throw_error ''Unhandled opcode: %s'')"

definition fetch :: "nat \<Rightarrow> nat \<Rightarrow> opcode step" where
  "fetch a off =
     sbind (module_at a) (\<lambda>m.
       if off \<ge> length (mopcodes m) then raise Mem_error
       else lift (opcode_of_module (int a) m (mopcodes m ! off)))"

definition accept_from :: "env \<Rightarrow> runs \<Rightarrow> accept_fn" where
  "accept_from E R a off =
     sbind (fetch a off) (\<lambda>opc.
       if otype opc = handlebars_opcode_type_return then ret ()
       else sbind (dispatch E R opc) (\<lambda>_. raccept R a (off + 1)))"

fun vm_runs :: "env \<Rightarrow> nat \<Rightarrow> runs" where
  "vm_runs E 0 =
     \<lparr>raccept = (\<lambda>_ _. raise Out_of_fuel), rcall = (\<lambda>_ _ _. raise Out_of_fuel), rbuiltin = (\<lambda>_ _ _. raise Out_of_fuel)\<rparr>"
| "vm_runs E (Suc k) =
     (let R = vm_runs E k
      in \<lparr>raccept = accept_from E R, rcall = handlebars_value_call E R, rbuiltin = builtin_helper E R\<rparr>)"

definition handlebars_vm_accept :: "env \<Rightarrow> nat \<Rightarrow> accept_fn" where
  "handlebars_vm_accept E fuel = raccept (vm_runs E fuel)"

text \<open>Rendering: the module in memory, a context.\<close>

definition vm_execute :: "env \<Rightarrow> nat \<Rightarrow> nat \<Rightarrow> value \<Rightarrow> hstr option step" where
  "vm_execute E fuel module context = handlebars_vm_execute E (handlebars_vm_accept E fuel) module context"

end
