(* ===== verification/Template.thy ===== *)
theory Template
  imports CompilerTotal ValuesProofs VmHelpers Vm
begin

text \<open>
  A template language for stating what rendering means: texts, values by a path, and the four block helpers, each
  around templates. \<open>render\<close> is its meaning, without opcodes and without a machine. The nodes are those the parser
  makes, and the compiler turns them into the opcodes \<open>tpl_ops\<close>.
\<close>

section \<open>Templates\<close>

datatype block_kind = B_if | B_unless | B_with | B_each

text \<open>A path is its segments: none for \<open>this\<close>. A value is raw or escaped. A block may have an \<open>else\<close>.\<close>

datatype tpl =
    Text string
  | Var bool "string list"
  | Block block_kind "string list" "tpl list" "tpl list option"

primrec kind_name :: "block_kind \<Rightarrow> string" where
  "kind_name B_if = ''if''"
| "kind_name B_unless = ''unless''"
| "kind_name B_with = ''with''"
| "kind_name B_each = ''each''"

primrec kind_index :: "block_kind \<Rightarrow> nat" where
  "kind_index B_if = 3"
| "kind_index B_unless = 4"
| "kind_index B_with = 5"
| "kind_index B_each = 2"

lemma builtin_name: "i < 9 \<Longrightarrow> handlebars_builtins_find (handlebars_builtins_names ! i) = Some i"
  using lookup_names by simp

lemma builtin_kind: "handlebars_builtins_find (kind_name k) = Some (kind_index k)"
  using builtin_name [of "kind_index k"] by (cases k) (simp_all add: handlebars_builtins_names_def)

section \<open>Meaning\<close>

definition find_path :: "env \<Rightarrow> value \<Rightarrow> string list \<Rightarrow> value" where
  "find_path E c ws =
     (case walk_path E False False (map handlebars_string_ctor ws) c (- 1) of Inr v \<Rightarrow> v | Inl _ \<Rightarrow> null_value)"

fun all_texts :: "string option list \<Rightarrow> string option" where
  "all_texts [] = Some []"
| "all_texts (x # xs) = (case (x, all_texts xs) of (Some a, Some b) \<Rightarrow> Some (a @ b) | _ \<Rightarrow> None)"

text \<open>
  Entering a value: one that equals the enclosing context leaves it in place. \<open>N\<close> bounds the addresses of the
  maps, \<open>B\<close> holds those that are being iterated. Values that can be called, and the nested iteration of a map, have
  no meaning here.
\<close>

definition enter :: "env \<Rightarrow> value \<Rightarrow> value \<Rightarrow> value" where
  "enter E c v = (if handlebars_value_eq (eH E) c v then c else v)"

type_synonym meaning = "nat set \<Rightarrow> value \<Rightarrow> string option"

definition iterating :: "value \<Rightarrow> nat set \<Rightarrow> nat set" where
  "iterating v B = (case vbody v of V_MAP b _ \<Rightarrow> insert b B | _ \<Rightarrow> B)"

definition each_allowed :: "nat \<Rightarrow> value \<Rightarrow> nat set \<Rightarrow> bool" where
  "each_allowed N v B \<longleftrightarrow> (case vbody v of V_MAP b _ \<Rightarrow> b \<notin> B \<and> b < N | _ \<Rightarrow> True)"

definition block_text :: "env \<Rightarrow> nat \<Rightarrow> block_kind \<Rightarrow> value \<Rightarrow> meaning \<Rightarrow> meaning \<Rightarrow> meaning" where
  "block_text E N k v body els B c =
     (if handlebars_value_is_callable v then None
      else
        (case k of
           B_if \<Rightarrow> if handlebars_value_is_empty v then els B c else body B c
         | B_unless \<Rightarrow> if handlebars_value_is_empty v then body B c else els B c
         | B_with \<Rightarrow> (if handlebars_value_get_type v = HANDLEBARS_VALUE_TYPE_NULL then els else body) B (enter E c v)
         | B_each \<Rightarrow>
             if value_items v = [] then els B c
             else if \<not> each_allowed N v B then None
             else all_texts (map (\<lambda>(_, _, x). body (iterating v B) (enter E c x)) (value_items v))))"

definition seq :: "meaning list \<Rightarrow> meaning" where
  "seq fs B c = all_texts (map (\<lambda>f. f B c) fs)"

primrec render :: "env \<Rightarrow> nat \<Rightarrow> tpl \<Rightarrow> meaning" where
  "render E N (Text t) = (\<lambda>B c. Some t)"
| "render E N (Var raw ws) = (\<lambda>B c.
     let v = find_path E c ws in
     if handlebars_value_is_callable v then None else Some (value_text (eG E) (\<not> raw) v))"
| "render E N (Block k ws ps qs) = (\<lambda>B c.
     block_text E N k (find_path E c ws) (seq (map (render E N) ps))
       (case map_option (map (render E N)) qs of None \<Rightarrow> (\<lambda>_ _. Some []) | Some fs \<Rightarrow> seq fs) B c)"

section \<open>Nodes\<close>

definition path_node :: "string list \<Rightarrow> node" where
  "path_node ws = ast_node 0 no_loc (NODE_PATH (ast_path
     (Some (handlebars_string_ctor (if ws = [] then ''this'' else join ''.'' ws)))
     (Some (map (\<lambda>w. ast_node 0 no_loc (NODE_PATH_SEGMENT (Some (handlebars_string_ctor w)) None
        (Some (handlebars_string_ctor w)))) ws)) 0 False False False))"

definition program_node :: "node list \<Rightarrow> node" where
  "program_node ns = ast_node 0 no_loc (NODE_PROGRAM (ast_program (Some ns) None None False))"

primrec tpl_node :: "tpl \<Rightarrow> node" where
  "tpl_node (Text t) = handlebars_ast_node_ctor_content (handlebars_string_ctor t) no_loc"
| "tpl_node (Var raw ws) =
     ast_node 0 no_loc (NODE_MUSTACHE (ast_mustache (Some (path_node ws)) None None (if raw then 1 else 0) False))"
| "tpl_node (Block k ws ps qs) =
     ast_node 0 no_loc (NODE_BLOCK (ast_block (Some (path_node [kind_name k])) (Some [path_node ws]) None
       (Some (program_node (map tpl_node ps))) (map_option program_node (map_option (map tpl_node) qs)) 0 0 0 False))"

text \<open>Paths that the compiler takes for paths: not written with a leading dot or \<open>this\<close>, and, alone, not a helper's name.\<close>

definition unscoped :: "string list \<Rightarrow> bool" where
  "unscoped ws \<longleftrightarrow> (case nbody (path_node ws) of NODE_PATH p \<Rightarrow> \<not> handlebars_ast_helper_scoped_id p | _ \<Rightarrow> False)"

primrec names_ok :: "tpl \<Rightarrow> bool" where
  "names_ok (Text t) \<longleftrightarrow> True"
| "names_ok (Var raw ws) \<longleftrightarrow> (ws \<noteq> [] \<longrightarrow> unscoped ws) \<and> 
     (length ws = 1 \<longrightarrow> \<not> handlebars_compiler_is_known_helper handlebars_compiler_ctor (path_node ws))"
| "names_ok (Block k ws ps qs) \<longleftrightarrow>
     (ws \<noteq> [] \<longrightarrow> unscoped ws) \<and> list_all id (map names_ok ps) \<and>
     (case map_option (map names_ok) qs of None \<Rightarrow> True | Some bs \<Rightarrow> list_all id bs)"

text \<open>The levels of the compiler's recursion.\<close>

primrec height :: "tpl \<Rightarrow> nat" where
  "height (Text t) = 1"
| "height (Var raw ws) = 2"
| "height (Block k ws ps qs) =
     2 + max (foldr max (map height ps) 0) (case map_option (map height) qs of None \<Rightarrow> 0 | Some hs \<Rightarrow> foldr max hs 0)"

definition list_height :: "tpl list \<Rightarrow> nat" where
  "list_height ps = foldr max (map height ps) 0"

section \<open>Opcodes\<close>

abbreviation op0 :: "handlebars_opcode_type \<Rightarrow> opcode" where
  "op0 t \<equiv> handlebars_opcode_ctor t"

abbreviation get_context_op :: opcode where
  "get_context_op \<equiv> (op0 handlebars_opcode_type_get_context)\<lparr>op1 := operand_long 0\<rparr>"

abbreviation copied :: "string \<Rightarrow> hstr" where
  "copied w \<equiv> handlebars_string_copy_ctor (handlebars_string_ctor w)"

definition path_ops :: "bool \<Rightarrow> string list \<Rightarrow> opcode list" where
  "path_ops strict ws =
     [get_context_op,
      if ws = [] then op0 handlebars_opcode_type_push_context
      else opcode_with handlebars_opcode_type_lookup_on_context (operand_array (map copied ws))
             (operand_null False) (if_true strict) (operand_boolean False)]"

definition push_program_op :: "nat option \<Rightarrow> opcode" where
  "push_program_op g =
     (case g of None \<Rightarrow> op0 handlebars_opcode_type_push_program
      | Some n \<Rightarrow> (op0 handlebars_opcode_type_push_program)\<lparr>op1 := operand_long (of_nat n)\<rparr>)"

definition append_op :: "bool \<Rightarrow> opcode" where
  "append_op raw = op0 (if raw then handlebars_opcode_type_append else handlebars_opcode_type_append_escaped)"

definition var_ops :: "string list \<Rightarrow> opcode list" where
  "var_ops ws =
     (if length ws = 1
      then [get_context_op, push_program_op None, push_program_op None] @ path_ops True ws @
           [opcode_with handlebars_opcode_type_invoke_ambiguous (operand_string (handlebars_string_ctor (hd ws)))
              (operand_boolean False) (operand_null False) (operand_null False)]
      else path_ops True ws @ [op0 handlebars_opcode_type_resolve_possible_lambda])"

definition block_ops :: "nat \<Rightarrow> block_kind \<Rightarrow> string list \<Rightarrow> bool \<Rightarrow> opcode list" where
  "block_ops g k ws has_else =
     path_ops False ws @
     [push_program_op (Some g), push_program_op (if has_else then Some (g + 1) else None),
      op0 handlebars_opcode_type_empty_hash,
      opcode_with handlebars_opcode_type_invoke_known_helper (operand_long 1)
        (operand_string (handlebars_string_ctor (kind_name k))) (operand_null False) (operand_null False),
      append_op True]"

fun tpl_ops :: "nat \<Rightarrow> tpl \<Rightarrow> opcode list" where
  "tpl_ops g (Text t) =
     (if t = [] then []
      else [(op0 handlebars_opcode_type_append_content)\<lparr>op1 := operand_string (copied t)\<rparr>])"
| "tpl_ops g (Var raw ws) = var_ops ws @ [append_op raw]"
| "tpl_ops g (Block k ws ps qs) = block_ops g k ws (qs \<noteq> None)"

text \<open>The templates that become programs of their own, in the order of their numbers.\<close>

fun subs :: "tpl \<Rightarrow> tpl list list" where
  "subs (Block k ws ps qs) = ps # (case qs of None \<Rightarrow> [] | Some q \<Rightarrow> [q])"
| "subs _ = []"

fun seq_ops :: "nat \<Rightarrow> tpl list \<Rightarrow> opcode list" where
  "seq_ops g [] = []"
| "seq_ops g (x # xs) = tpl_ops g x @ seq_ops (g + length (subs x)) xs"

inductive codes :: "tpl list \<Rightarrow> handlebars_program \<Rightarrow> bool" where
  "list_all2 codes (concat (map subs ps)) kids \<Longrightarrow>
     codes ps (handlebars_program g 0 rf bp (seq_ops 0 ps) kids decs)"

inductive_cases codesE: "codes ps p"

end
