(* ===== verification/VmRun.thy ===== *)
theory VmRun
  imports Template
begin

text \<open>
  Running opcodes: \<open>steps\<close> is the loop of the machine over a list of opcodes instead of the memory of a module, and
  \<open>rendered\<close> is what a piece of a template may change: the buffer grows, addresses are used up, and the last context
  and the last helper are left behind.
\<close>

declare vm_runs.simps [simp del]

lemma runs_Suc [simp]:
  "raccept (vm_runs E (Suc k)) = accept_from E (vm_runs E k)" "rcall (vm_runs E (Suc k)) = handlebars_value_call E (vm_runs E k)"
  "rbuiltin (vm_runs E (Suc k)) = builtin_helper E (vm_runs E k)"
  by (simp_all add: vm_runs.simps Let_def)

section \<open>Stacks with spare\<close>

definition spare :: "nat \<Rightarrow> value vstack \<Rightarrow> bool" where
  "spare n st \<longleftrightarrow> \<not> 1 < krc st \<and> length (kv st) + n \<le> kcap st \<and> kprotect st \<le> length (kv st)"

definition pushed :: "value vstack \<Rightarrow> value list \<Rightarrow> value vstack" where
  "pushed st vs = st\<lparr>kv := kv st @ vs\<rparr>"

lemma pushed_simps [simp]:
  "pushed st [] = st" "kv (pushed st vs) = kv st @ vs" "pushed (pushed st us) vs = pushed st (us @ vs)"
  by (simp_all add: pushed_def)

lemma spare_less: "spare n st \<Longrightarrow> m \<le> n \<Longrightarrow> spare m st"
  by (auto simp: spare_def)

lemma spare_pushed: "spare (n + length vs) st \<Longrightarrow> spare n (pushed st vs)"
  by (auto simp: spare_def pushed_def)

lemma push_pushed: "spare (Suc n) st \<Longrightarrow> length vs \<le> n \<Longrightarrow> handlebars_stack_push (pushed st vs) v = Inr (pushed st (vs @ [v]))"
  by (simp add: spare_def pushed_def handlebars_stack_push_def stack_separate_def)

lemma pop_pushed: "spare n st \<Longrightarrow> vs \<noteq> [] \<Longrightarrow> handlebars_stack_pop (pushed st vs) = Inr (Some (last vs), pushed st (butlast vs))"
  by (auto simp: spare_def pushed_def handlebars_stack_pop_def butlast_append)

lemma save_restore_pushed:
  assumes "spare 0 st" "handlebars_stack_save st = (buf, st1)"
  shows "handlebars_stack_restore (pushed st1 vs) buf = Inr st" "kv st1 = kv st" "spare n st \<Longrightarrow> spare n st1"
proof -
  have eq: "buf = \<lparr>bcount = length (kv st), bprotect = kprotect st\<rparr>" "st1 = st\<lparr>kprotect := length (kv st)\<rparr>"
    using assms(2) by (auto simp: handlebars_stack_save_def handlebars_stack_protect_def handlebars_stack_count_def Let_def)
  then show "kv st1 = kv st" "spare n st \<Longrightarrow> spare n st1" by (simp_all add: spare_def)
  have "handlebars_stack_truncate ((pushed st1 vs)\<lparr>kprotect := kprotect st\<rparr>) (length (kv st)) =
      Inr ((pushed st1 vs)\<lparr>kprotect := kprotect st, kv := take (length (kv st)) (kv st @ vs)\<rparr>)"
    using assms(1) by (subst truncate_ok) (simp_all add: eq spare_def pushed_def)
  then show "handlebars_stack_restore (pushed st1 vs) buf = Inr st"
    by (simp add: handlebars_stack_restore_def handlebars_stack_protect_def eq pushed_def)
qed

section \<open>States\<close>

text \<open>
  The machine is in the module \<open>m\<close> at the address \<open>a\<close>, without options, helpers or partials of the embedding program,
  with spare for \<open>d\<close> nested contexts; the maps of the context have addresses below \<open>N\<close>.
\<close>

definition idle :: "nat \<Rightarrow> nat \<Rightarrow> handlebars_module \<Rightarrow> nat \<Rightarrow> vm \<Rightarrow> bool" where
  "idle N a m d s \<longleftrightarrow>
     vready s \<and> vmodule s = Some a \<and> vmods s a = Some m \<and> vmflags s = 0 \<and> vlast_context s \<noteq> None \<and> str_ok (vbuffer s) \<and>
     kv (vcontext s) \<noteq> [] \<and> kcap (vcontext s) < 2 ^ 64 \<and> spare d (vcontext s) \<and> spare d (vblock s) \<and> spare 8 (vstack s) \<and> spare 0 (vhash s) \<and>
     spare 0 (vpartial s) \<and> (\<exists>h. vbody (vhelpers s) = V_MAP h []) \<and>
     (\<forall>b kvs. vbody (vdata s) = V_MAP b kvs \<longrightarrow> N \<le> b) \<and> (\<forall>b \<in> vbusy s. b < N) \<and> N \<le> vnext s"

definition rendered :: "string \<Rightarrow> vm \<Rightarrow> vm \<Rightarrow> bool" where
  "rendered txt s t \<longleftrightarrow>
     (\<exists>buf lc lh nx. t = s\<lparr>vbuffer := buf, vlast_context := Some lc, vlast_helper := lh, vnext := nx\<rparr> \<and>
        vnext s \<le> nx \<and> str_ok buf \<and> sval buf = sval (vbuffer s) @ txt)"

lemma rendered_trans: "rendered x s t \<Longrightarrow> rendered y t u \<Longrightarrow> rendered (x @ y) s u"
proof -
  assume a: "rendered x s t" "rendered y t u"
  from a(1) obtain buf lc lh nx where t: "t = s\<lparr>vbuffer := buf, vlast_context := Some lc, vlast_helper := lh, vnext := nx\<rparr>"
      "vnext s \<le> nx" "sval buf = sval (vbuffer s) @ x" by (auto simp: rendered_def)
  from a(2) obtain buf' lc' lh' nx' where
      u: "u = t\<lparr>vbuffer := buf', vlast_context := Some lc', vlast_helper := lh', vnext := nx'\<rparr>" "vnext t \<le> nx'" "str_ok buf'"
      "sval buf' = sval (vbuffer t) @ y" by (auto simp: rendered_def)
  have "u = s\<lparr>vbuffer := buf', vlast_context := Some lc', vlast_helper := lh', vnext := nx'\<rparr>"
    by (simp add: t u(1))
  moreover have "vnext s \<le> nx' \<and> str_ok buf' \<and> sval buf' = sval (vbuffer s) @ x @ y" using t u(2-4) by simp
  ultimately show ?thesis unfolding rendered_def by blast
qed

lemma rendered_idle: "rendered txt s t \<Longrightarrow> idle N a m d s \<Longrightarrow> idle N a m d t"
  by (auto simp: rendered_def idle_def)

lemma rendered_same:
  assumes "rendered txt s t"
  shows "vmods t = vmods s" "vcontext t = vcontext s" "vblock t = vblock s" "vstack t = vstack s" "vhash t = vhash s"
    "vpartial t = vpartial s" "vdata t = vdata s" "vbusy t = vbusy s" "vmodule t = vmodule s" "vready t = vready s"
  using assms by (auto simp: rendered_def)

section \<open>The loop over a list of opcodes\<close>

fun steps :: "env \<Rightarrow> nat \<Rightarrow> opcode list \<Rightarrow> unit step" where
  "steps E k [] s = (Inr (), s)"
| "steps E k (opc # ops) s =
     (case dispatch E (vm_runs E (Suc (k + length ops))) opc s of
        (Inr _, t) \<Rightarrow> if otype opc = handlebars_opcode_type_return \<or> vmods t \<noteq> vmods s then (Inl Assert_fail, t) else steps E k ops t
      | (Inl e, t) \<Rightarrow> (Inl e, t))"

lemma steps_append:
  "steps E k (xs @ ys) s =
     (case steps E (k + length ys) xs s of (Inr _, t) \<Rightarrow> steps E k ys t | (Inl e, t) \<Rightarrow> (Inl e, t))"
proof (induction xs arbitrary: s)
  case (Cons x xs)
  have k: "k + length (xs @ ys) = k + length ys + length xs" by simp
  show ?case by (simp add: Cons.IH k del: length_append split: prod.split sum.split)
qed simp

lemma steps_accept:
  assumes "steps E k ops s = (Inr (), t)"
    and "\<And>j u. j < length ops \<Longrightarrow> vmods u = vmods s \<Longrightarrow> fetch a (off + j) u = (Inr (ops ! j), u)"
    and "\<And>u. vmods u = vmods s \<Longrightarrow> \<exists>opc. fetch a (off + length ops) u = (Inr opc, u) \<and> otype opc = handlebars_opcode_type_return"
  shows "raccept (vm_runs E (Suc (k + length ops))) a off s = (Inr (), t)"
  using assms
proof (induction ops arbitrary: s off)
  case Nil
  then obtain opc where "fetch a off s = (Inr opc, s)" "otype opc = handlebars_opcode_type_return" by force
  then show ?case using Nil(1) by (simp add: accept_from_def sbind_def ret_def)
next
  case (Cons opc ops)
  let ?R = "vm_runs E (Suc (k + length ops))"
  obtain u where u: "dispatch E ?R opc s = (Inr (), u)" "otype opc \<noteq> handlebars_opcode_type_return" "vmods u = vmods s"
      "steps E k ops u = (Inr (), t)"
    using Cons.prems(1) by (auto split: prod.splits sum.splits if_splits)
  have f: "fetch a off s = (Inr opc, s)" using Cons.prems(2) [of 0 s] by simp
  have "raccept ?R a (off + 1) u = (Inr (), t)"
  proof (rule Cons.IH [OF u(4)])
    show "fetch a (off + 1 + j) v = (Inr (ops ! j), v)" if "j < length ops" "vmods v = vmods u" for j v
      using Cons.prems(2) [of "Suc j" v] that u(3) by simp
    show "\<exists>opc. fetch a (off + 1 + length ops) v = (Inr opc, v) \<and> otype opc = handlebars_opcode_type_return"
      if "vmods v = vmods u" for v
      using Cons.prems(3) [of v] that u(3) by simp
  qed
  then have "accept_from E ?R a off s = (Inr (), t)"
    using f u(1,2) by (simp add: accept_from_def sbind_def)
  then show ?case by simp
qed

section \<open>Opcodes as the machine reads them\<close>

definition loaded :: "nat list \<Rightarrow> opcode \<Rightarrow> opcode" where
  "loaded kids opc =
     (let v = globalise kids (opcode_value opc); obj = map_handlebars_operand handlebars_string_ctor (map handlebars_string_ctor)
      in \<lparr>otype = otype v, op1 = obj (op1 v), op2 = obj (op2 v), op3 = obj (op3 v), op4 = obj (op4 v), oloc = oloc v\<rparr>)"

lemma fetch_loaded:
  assumes "vmods s a = Some m" "read_opcode (int a) m (mopcodes m ! off) = Some (globalise kids (opcode_value opc))"
    and "off < length (mopcodes m)"
  shows "fetch a off s = (Inr (loaded kids opc), s)"
  using assms by (simp add: fetch_def module_at_def deref_def opcode_of_module_def loaded_def Let_def run_simps sbind_def)

end
