(* ===== verification/VmPieces.thy ===== *)
theory VmPieces
  imports VmRun
begin

text \<open>
  What the opcodes of one piece of a template do to an idle machine: a text and a value. The stack of values is left as
  it was found.
\<close>

section \<open>Loaded opcodes\<close>

lemma loaded_plain:
  "otype opc \<noteq> handlebars_opcode_type_push_program \<Longrightarrow> loaded kids opc =
     (let obj = map_handlebars_operand (handlebars_string_ctor \<circ> sval) (map (handlebars_string_ctor \<circ> sval))
      in \<lparr>otype = otype opc, op1 = obj (op1 opc), op2 = obj (op2 opc), op3 = obj (op3 opc), op4 = obj (op4 opc), oloc = oloc opc\<rparr>)"
proof -
  assume "otype opc \<noteq> handlebars_opcode_type_push_program"
  then have "globalise kids (opcode_value opc) = opcode_value opc" by (intro globalise_id) (simp add: opcode_value_def)
  then show ?thesis by (simp add: loaded_def opcode_value_def Let_def handlebars_operand.map_comp o_def)
qed

lemma sval_copy [simp]: "sval (handlebars_string_copy_ctor s) = sval s"
  by (simp_all add: str_defs)

lemma dispatch_get_context:
  "dispatch E R (loaded kids get_context_op) = accept_get_context (loaded kids get_context_op)"
  "op1 (loaded kids get_context_op) = operand_long 0"
  by (simp_all add: loaded_plain dispatch_def Let_def)

lemma run_get_context:
  assumes "kv (vcontext s) \<noteq> []" "vlast_context s \<noteq> None" "length (kv (vcontext s)) < 2 ^ 64"
  shows "dispatch E R (loaded kids get_context_op) s = (Inr (), s\<lparr>vlast_context := Some (last (kv (vcontext s)))\<rparr>)"
proof -
  let ?n = "length (kv (vcontext s))"
  have n: "unat (of_nat ?n :: u64) = ?n" using assms(3) by (simp add: unat_of_nat)
  then have "\<not> (of_nat ?n :: u64) < 1" "unat ((of_nat ?n :: u64) - 1) = ?n - 1"
    using assms(1) by (simp_all add: word_less_nat_alt unat_sub_if' not_less Suc_le_eq)
  then have "stack_get_from_top (vcontext s) 0 = Some (last (kv (vcontext s)))"
    using assms(1) diff_less [of 1 ?n]
    by (simp add: stack_get_from_top_def handlebars_stack_count_def handlebars_stack_get_def Let_def last_conv_nth not_le)
  then show ?thesis
    using assms(1,2) unfolding dispatch_get_context
    by (simp add: accept_get_context_def dispatch_get_context op_long_def LEN_def GET_def set_last_context_def
        handlebars_stack_count_def deref_def sbind_def run_basic split: option.split)
qed

section \<open>Pushing and popping\<close>

lemma bind_PUSH: "spare (Suc 0) (vstack s) \<Longrightarrow> sbind (PUSH main_stack v) f s = f () (s\<lparr>vstack := pushed (vstack s) [v]\<rparr>)"
  using push_pushed [of 0 "vstack s" "[]" v] by (simp add: PUSH_def sbind_def run_basic)

lemma run_PUSH: "spare (Suc 0) (vstack s) \<Longrightarrow> PUSH main_stack v s = (Inr (), s\<lparr>vstack := pushed (vstack s) [v]\<rparr>)"
  using push_pushed [of 0 "vstack s" "[]" v] by (simp add: PUSH_def sbind_def run_basic)

lemma bind_POP:
  "vstack s = pushed st vs \<Longrightarrow> spare 0 st \<Longrightarrow> vs \<noteq> [] \<Longrightarrow>
     sbind (POP main_stack) f s = f (Some (last vs)) (s\<lparr>vstack := pushed st (butlast vs)\<rparr>)"
  by (simp add: POP_def sbind_def run_basic pop_pushed)

lemma bind_POP_asserted:
  "vstack s = pushed st vs \<Longrightarrow> spare 0 st \<Longrightarrow> vs \<noteq> [] \<Longrightarrow>
     sbind (POP_asserted main_stack) f s = f (last vs) (s\<lparr>vstack := pushed st (butlast vs)\<rparr>)"
  by (simp add: POP_asserted_def POP_def sbind_def run_basic pop_pushed)

lemma bind_basic:
  "sbind (ret x) f s = f x s" "sbind (gets g) f' s = f' (g s) s" "sbind (put h) k s = k () (h s)" "sbind (lift (Inr y)) k' s = k' y s"
  by (simp_all add: sbind_def run_basic)

lemma spare5:
  "spare 5 st \<Longrightarrow> n \<le> 5 \<Longrightarrow> spare n st"
  "spare 5 st \<Longrightarrow> n + length vs \<le> 5 \<Longrightarrow> spare n (pushed st vs)"
  by (auto simp: spare_def pushed_def)

lemmas stack_steps = bind_PUSH bind_POP bind_POP_asserted run_PUSH spare5

section \<open>Paths\<close>

lemma walk_path_soft: "walk_path E False False ws v i = Inl b \<Longrightarrow> \<not> b"
  by (induction E "False" "False" ws v i rule: walk_path.induct)
    (auto simp: Let_def split: handlebars_value_type.splits option.splits prod.splits)

lemma push_found_soft: "push_found False (walk_path E False False (map handlebars_string_ctor ws) v (- 1)) = PUSH main_stack (find_path E v ws)"
  using walk_path_soft [of E "map handlebars_string_ctor ws" v "- 1"]
  by (auto simp: push_found_def find_path_def split: sum.split)

lemma find_path_this [simp]: "find_path E v [] = v"
  by (simp add: find_path_def)

lemma run_lookup:
  assumes "vlast_context s = Some c" "vmflags s = 0" "spare 5 (vstack s)" "ws \<noteq> []"
  shows "dispatch E R (loaded kids (opcode_with handlebars_opcode_type_lookup_on_context (operand_array (map copied ws))
      (operand_null False) (if_true b) (operand_boolean False))) s = (Inr (), s\<lparr>vstack := pushed (vstack s) [find_path E c ws]\<rparr>)"
proof -
  have "dispatch E R (loaded kids (opcode_with handlebars_opcode_type_lookup_on_context (operand_array (map copied ws))
      (operand_null False) (if_true b) (operand_boolean False))) s =
      accept_lookup_on_context E (loaded kids (opcode_with handlebars_opcode_type_lookup_on_context (operand_array (map copied ws))
      (operand_null False) (if_true b) (operand_boolean False))) s"
    by (simp add: dispatch_def loaded_plain Let_def)
  also have "\<dots> = (Inr (), s\<lparr>vstack := pushed (vstack s) [find_path E c ws]\<rparr>)"
    using assms push_found_soft [of E ws c]
    by (cases b)
      (simp_all add: accept_lookup_on_context_def loaded_plain Let_def op_array_def o_def op_flag_def if_true_def
        handlebars_operand_set_boolval_def vm_flag_def accept_push_context_def deref_def sbind_assoc bind_basic
        stack_steps)
  finally show ?thesis .
qed

text \<open>A machine that can look up a path.\<close>

definition can_look :: "vm \<Rightarrow> bool" where
  "can_look s \<longleftrightarrow> kv (vcontext s) \<noteq> [] \<and> length (kv (vcontext s)) < 2 ^ 64 \<and> vlast_context s \<noteq> None \<and> vmflags s = 0 \<and>
     spare 5 (vstack s)"

lemma idle_can_look: "idle N a m d s \<Longrightarrow> can_look s"
  by (auto simp: idle_def spare_def can_look_def)

abbreviation context_of :: "vm \<Rightarrow> value" where
  "context_of s \<equiv> last (kv (vcontext s))"

text \<open>A step that succeeds, keeps the modules and is not the end of the program.\<close>

lemma steps_Cons:
  "dispatch E (vm_runs E (Suc (k + length ops))) opc s = (Inr (), t) \<Longrightarrow> vmods t = vmods s \<Longrightarrow>
     otype opc \<noteq> handlebars_opcode_type_return \<Longrightarrow> steps E k (opc # ops) s = steps E k ops t"
  by simp

lemma loaded_type [simp]: "otype (loaded kids opc) = otype opc"
proof -
  have "otype (globalise kids v) = otype v" for v
    by (simp add: globalise_def split: handlebars_opcode_type.split handlebars_operand.split bool.split)
  then show ?thesis by (simp add: loaded_def opcode_value_def Let_def)
qed

lemma run_path:
  assumes "can_look s"
  shows "steps E k (map (loaded kids) (path_ops b ws) @ ops) s =
     steps E k ops (s\<lparr>vlast_context := Some (context_of s), vstack := pushed (vstack s) [find_path E (context_of s) ws]\<rparr>)"
proof -
  let ?s = "s\<lparr>vlast_context := Some (context_of s)\<rparr>"
  have get: "dispatch E R (loaded kids get_context_op) s = (Inr (), ?s)" for R
    using assms by (intro run_get_context) (simp_all add: can_look_def)
  have look: "dispatch E R (loaded kids (path_ops b ws ! 1)) ?s =
      (Inr (), ?s\<lparr>vstack := pushed (vstack s) [find_path E (context_of s) ws]\<rparr>)" for R
  proof (cases "ws = []")
    case True
    then show ?thesis
      using assms by (simp add: path_ops_def dispatch_def loaded_plain Let_def accept_push_context_def bind_basic sbind_assoc
          deref_def stack_steps can_look_def)
  next
    case False
    then show ?thesis using assms run_lookup [of ?s "context_of s" ws E R kids b] by (simp add: path_ops_def can_look_def)
  qed
  have "steps E k (map (loaded kids) (path_ops b ws) @ ops) s = steps E k (loaded kids (path_ops b ws ! 1) # ops) ?s"
    using get by (simp add: path_ops_def del: steps.simps add: steps_Cons)
  also have "\<dots> = steps E k ops (?s\<lparr>vstack := pushed (vstack s) [find_path E (context_of s) ws]\<rparr>)"
    by (rule steps_Cons [OF look]) (simp_all add: path_ops_def)
  finally show ?thesis .
qed

section \<open>Writing\<close>

lemma run_append:
  assumes "vstack s = pushed st [v]" "spare 5 st" "str_ok (vbuffer s)"
  shows "\<exists>buf. dispatch E R (loaded kids (append_op raw)) s = (Inr (), s\<lparr>vstack := st, vbuffer := buf\<rparr>) \<and> str_ok buf \<and>
     sval buf = sval (vbuffer s) @ value_text (eG E) (\<not> raw) v"
proof -
  obtain buf where buf: "handlebars_value_expression_append (eG E) v (vbuffer s) (\<not> raw) = Inr buf" "str_ok buf"
      "sval buf = sval (vbuffer s) @ value_text (eG E) (\<not> raw) v"
    using expression_appends [OF assms(3), of "eG E" v "\<not> raw"] by (auto simp: appends_def)
  moreover have "dispatch E R (loaded kids (append_op raw)) s = accept_append E (\<not> raw) s"
    by (simp add: dispatch_def append_op_def)
  ultimately show ?thesis
    using assms(1,2)
    by (intro exI [of _ buf]) (simp add: accept_append_def append_to_buffer_def sbind_assoc bind_basic stack_steps run_basic)
qed

lemma run_content:
  assumes "str_ok (vbuffer s)"
  shows "\<exists>buf. dispatch E R (loaded kids ((op0 handlebars_opcode_type_append_content)\<lparr>op1 := operand_string (copied t)\<rparr>)) s =
     (Inr (), s\<lparr>vbuffer := buf\<rparr>) \<and> str_ok buf \<and> sval buf = sval (vbuffer s) @ t"
proof -
  obtain buf where "handlebars_string_append (vbuffer s) t = Inr buf" "str_ok buf" "sval buf = sval (vbuffer s) @ t"
    using appends_append [of "vbuffer s" t] by (auto simp: appends_def)
  then show ?thesis
    by (intro exI [of _ buf]) (simp add: dispatch_def loaded_plain Let_def accept_append_content_def op_string_def append_text_def bind_basic run_basic)
qed

section \<open>Values\<close>

lemma bind_run: "m s = (Inr x, t) \<Longrightarrow> sbind m f s = f x t"
  by (simp add: sbind_def)

lemma bind_fresh: "sbind fresh f s = f (vnext s) (s\<lparr>vnext := Suc (vnext s)\<rparr>)"
  by (cases s) (simp add: fresh_def sbind_def run_basic)

lemma no_helper: "vbody (vhelpers s) = V_MAP h [] \<Longrightarrow> lookup_helper E name s =
    (Inr (map_option (\<lambda>i. handlebars_value_helper null_value (Builtin i)) (handlebars_builtins_find (sval name))), s)"
  by (simp add: lookup_helper_def handlebars_value_map_find_def lookup_item_def run_basic)

lemma unknown_helper:
  "vbody (vhelpers s) = V_MAP h [] \<Longrightarrow> handlebars_builtins_find w = None \<Longrightarrow>
     lookup_helper E (handlebars_string_ctor w) s = (Inr None, s)"
  by (simp add: no_helper)

lemma helper_missing_builtin:
  assumes "vbody (vhelpers s) = V_MAP h []"
  shows "helper_missing E s = (Inr (handlebars_value 0 (V_HELPER (Builtin 1))), s)"
  using no_helper [OF assms, of E "handlebars_string_ctor ''helperMissing''"] builtin_name [of 1]
  by (simp add: helper_missing_def sbind_def deref_def run_basic handlebars_builtins_names_def handlebars_value_helper_def set_body_def)

lemma call_helper_missing:
  "handlebars_value_call E R (handlebars_value 0 (V_HELPER (Builtin 1))) [] options s = (Inr null_value, s)"
  by (simp add: handlebars_value_call_def builtin_helper_def builtins_def handlebars_builtin_helper_missing_def bind_basic run_basic)

lemma run_ambiguous:
  assumes "vstack s = pushed st [p, q, v]" "spare 5 st" "\<not> handlebars_value_is_callable v" "vbody (vhelpers s) = V_MAP h []"
    and "handlebars_builtins_find w = None" "kv (vcontext s) \<noteq> []" "vmflags s = 0"
  shows "dispatch E (vm_runs E (Suc k)) (loaded kids (opcode_with handlebars_opcode_type_invoke_ambiguous
      (operand_string (handlebars_string_ctor w)) (operand_boolean False) (operand_null False) (operand_null False))) s =
    (Inr (), s\<lparr>vstack := pushed st [v], vnext := Suc (vnext s), vlast_helper := None\<rparr>)"
  using assms
  by (simp add: dispatch_def loaded_plain Let_def accept_invoke_ambiguous_def accept_empty_hash_def new_map_def
      sbind_assoc bind_basic bind_fresh stack_steps op_string_def op_boolean_def setup_options_def TOP_def deref_def
      handlebars_stack_top_def vm_flag_def bind_run [OF unknown_helper] bind_run [OF helper_missing_builtin]
      bind_run [OF call_helper_missing] run_basic(4))+

section \<open>Texts and values as pieces\<close>

lemma rendered_refl: "idle N a m d s \<Longrightarrow> rendered [] s s"
  by (cases s) (auto simp: rendered_def idle_def)

lemma renderedI:
  assumes "t = s\<lparr>vbuffer := buf, vlast_context := Some lc, vlast_helper := lh, vnext := nx\<rparr>" "vnext s \<le> nx" "str_ok buf"
    and "sval buf = sval (vbuffer s) @ tx"
  shows "rendered tx s t"
  unfolding rendered_def using assms by blast

definition piece_runs :: "env \<Rightarrow> nat \<Rightarrow> nat \<Rightarrow> handlebars_module \<Rightarrow> nat list \<Rightarrow> nat \<Rightarrow> nat \<Rightarrow> nat \<Rightarrow> tpl \<Rightarrow> bool" where
  "piece_runs E N a m kids k d g x \<longleftrightarrow>
     (\<forall>s tx. idle N a m d s \<longrightarrow> render E N x (vbusy s) (context_of s) = Some tx \<longrightarrow>
        (\<exists>t. steps E k (map (loaded kids) (tpl_ops g x)) s = (Inr (), t) \<and> rendered tx s t))"

lemma text_runs: "piece_runs E N a m kids k d g (Text tx)"
  unfolding piece_runs_def
proof (intro allI impI)
  fix s out assume idle: "idle N a m d s" and out: "render E N (Text tx) (vbusy s) (context_of s) = Some out"
  obtain lc where lc: "vlast_context s = Some lc" and ok: "str_ok (vbuffer s)" using idle by (auto simp: idle_def)
  show "\<exists>t. steps E k (map (loaded kids) (tpl_ops g (Text tx))) s = (Inr (), t) \<and> rendered out s t"
  proof (cases "tx = []")
    case True
    then show ?thesis using rendered_refl [OF idle] out by simp
  next
    case False
    from run_content [OF ok, of E "vm_runs E (Suc k)" kids tx] obtain buf where
      buf: "dispatch E (vm_runs E (Suc k)) (loaded kids ((op0 handlebars_opcode_type_append_content)\<lparr>op1 := operand_string (copied tx)\<rparr>)) s =
        (Inr (), s\<lparr>vbuffer := buf\<rparr>)" "str_ok buf" "sval buf = sval (vbuffer s) @ tx"
      by blast
    have "s\<lparr>vbuffer := buf\<rparr> = s\<lparr>vbuffer := buf, vlast_context := Some lc, vlast_helper := vlast_helper s, vnext := vnext s\<rparr>"
      using lc by (cases s) simp
    then have "rendered tx s (s\<lparr>vbuffer := buf\<rparr>)" using buf(2,3) by (intro renderedI [where buf = buf and lc = lc and lh = "vlast_helper s" and nx = "vnext s"]) simp_all
    then show ?thesis using False buf(1) out by simp
  qed
qed

lemma push_program_type [simp]: "otype (push_program_op g) = handlebars_opcode_type_push_program"
  by (simp add: push_program_op_def split: option.split)

lemma run_push_none:
  "spare (Suc 0) (vstack s) \<Longrightarrow> dispatch E R (loaded kids (push_program_op None)) s =
     (Inr (), s\<lparr>vstack := pushed (vstack s) [integer_value (- 1)]\<rparr>)"
proof -
  assume "spare (Suc 0) (vstack s)"
  moreover have "op1 (loaded kids (push_program_op None)) = operand_null False"
    by (simp add: loaded_def push_program_op_def globalise_def opcode_value_def Let_def)
  ultimately show ?thesis by (simp add: dispatch_def push_program_op_def accept_push_program_def run_PUSH)
qed

lemma keep_fields: "s\<lparr>vlast_helper := vlast_helper s, vnext := vnext s\<rparr> = (s :: vm)"
  by simp

text \<open>The opcodes before the append leave the value on the stack.\<close>

lemma run_value:
  assumes idle: "idle N a m d s" and ok: "names_ok (Var raw ws)"
    and v: "\<not> handlebars_value_is_callable (find_path E (context_of s) ws)"
  shows "\<exists>lh nx. vnext s \<le> nx \<and> steps E k (map (loaded kids) (var_ops ws) @ ops) s =
     steps E k ops ((s\<lparr>vlast_helper := lh, vnext := nx\<rparr>)\<lparr>vlast_context := Some (context_of s),
       vstack := pushed (vstack s) [find_path E (context_of s) ws]\<rparr>)"
proof (cases "length ws = 1")
  case True
  then obtain w where ws: "ws = [w]" by (auto simp: length_Suc_conv)
  let ?v = "find_path E (context_of s) ws" and ?none = "integer_value (- 1)"
  let ?s = "s\<lparr>vlast_context := Some (context_of s), vstack := pushed (vstack s) [?none, ?none]\<rparr>"
  let ?call = "loaded kids (opcode_with handlebars_opcode_type_invoke_ambiguous (operand_string (handlebars_string_ctor w))
    (operand_boolean False) (operand_null False) (operand_null False))"
  obtain h where h: "vbody (vhelpers s) = V_MAP h []" using idle by (auto simp: idle_def)
  have w: "handlebars_builtins_find w = None"
    using ok ws by (auto simp: handlebars_compiler_is_known_helper_def path_node_def node_part_def)
  have sp: "spare 8 (vstack s)" using idle by (simp add: idle_def)
  have sp5: "spare (Suc 0) (vstack s)" "spare 5 (vstack s)" "spare 5 (pushed (vstack s) [?none, ?none])" "spare (Suc 0) (pushed (vstack s) [?none])"
    using sp by (simp_all add: spare_def pushed_def)
  have "steps E k (map (loaded kids) (var_ops ws) @ ops) s = steps E k (map (loaded kids) (path_ops True ws) @ ?call # ops) ?s"
    using idle_can_look [OF idle] run_get_context [of s E _ kids] sp5
    by (simp add: var_ops_def ws can_look_def run_push_none del: steps.simps add: steps_Cons)
  also have "\<dots> = steps E k (?call # ops) (?s\<lparr>vstack := pushed (vstack s) [?none, ?none, ?v]\<rparr>)"
    using run_path [of ?s E k kids True ws] idle_can_look [OF idle] sp5 by (simp add: can_look_def del: steps.simps)
  also have "\<dots> = steps E k ops (?s\<lparr>vstack := pushed (vstack s) [?v], vnext := Suc (vnext s), vlast_helper := None\<rparr>)"
    using run_ambiguous [of "?s\<lparr>vstack := pushed (vstack s) [?none, ?none, ?v]\<rparr>" "vstack s" ?none ?none ?v h w E _ kids]
      h w v ws idle_can_look [OF idle]
    by (simp add: can_look_def del: steps.simps add: steps_Cons)
  also have "?s\<lparr>vstack := pushed (vstack s) [?v], vnext := Suc (vnext s), vlast_helper := None\<rparr> =
      (s\<lparr>vlast_helper := None, vnext := Suc (vnext s)\<rparr>)\<lparr>vlast_context := Some (context_of s), vstack := pushed (vstack s) [?v]\<rparr>"
    by simp
  finally show ?thesis by (intro exI [of _ None] exI [of _ "Suc (vnext s)"]) simp
next
  case False
  let ?v = "find_path E (context_of s) ws"
  let ?s = "s\<lparr>vlast_context := Some (context_of s), vstack := pushed (vstack s) [?v]\<rparr>"
  have sp: "spare 5 (vstack s)" using idle_can_look [OF idle] by (simp add: can_look_def)
  have "dispatch E R (loaded kids (op0 handlebars_opcode_type_resolve_possible_lambda)) ?s = (Inr (), ?s)" for R
    using sp v by (simp add: dispatch_def accept_resolve_possible_lambda_def stack_steps)
  then have "steps E k (map (loaded kids) (var_ops ws) @ ops) s = steps E k ops ?s"
    using False run_path [OF idle_can_look [OF idle], of E k kids True ws "loaded kids (op0 handlebars_opcode_type_resolve_possible_lambda) # ops"]
    by (simp add: var_ops_def)
  moreover have "(s\<lparr>vlast_helper := vlast_helper s, vnext := vnext s\<rparr>)\<lparr>vlast_context := Some (context_of s), vstack := pushed (vstack s) [?v]\<rparr> = ?s"
    by (simp only: keep_fields)
  ultimately show ?thesis by (intro exI [of _ "vlast_helper s"] exI [of _ "vnext s"]) (simp only: order_refl simp_thms)
qed

lemma steps_append_one:
  assumes "steps E k (xs @ ys) s = steps E k ys u" "dispatch E (vm_runs E (Suc k)) opc u = (Inr (), t)" "vmods t = vmods u"
    and "ys = [opc]" "otype opc \<noteq> handlebars_opcode_type_return"
  shows "steps E k (xs @ ys) s = (Inr (), t)"
  using assms by simp

text \<open>The value is written and the stack is as it was.\<close>

lemma append_runs:
  assumes idle: "idle N a m d s" and nx: "vnext s \<le> nx"
    and u: "u = (s\<lparr>vlast_helper := lh, vnext := nx\<rparr>)\<lparr>vlast_context := Some lc, vstack := pushed (vstack s) [v]\<rparr>"
  shows "\<exists>t. dispatch E R (loaded kids (append_op raw)) u = (Inr (), t) \<and> vmods t = vmods u \<and>
     rendered (value_text (eG E) (\<not> raw) v) s t"
proof -
  have "vstack u = pushed (vstack s) [v]" "spare 5 (vstack s)" "str_ok (vbuffer u)"
    using idle spare_less [of 8 "vstack s" 5] by (simp_all add: u idle_def)
  from run_append [OF this, of E R kids raw] obtain buf where
    buf: "dispatch E R (loaded kids (append_op raw)) u = (Inr (), u\<lparr>vstack := vstack s, vbuffer := buf\<rparr>)" "str_ok buf"
      "sval buf = sval (vbuffer s) @ value_text (eG E) (\<not> raw) v" by (auto simp: u)
  moreover have "u\<lparr>vstack := vstack s, vbuffer := buf\<rparr> =
      s\<lparr>vbuffer := buf, vlast_context := Some lc, vlast_helper := lh, vnext := nx\<rparr>"
    by (rule vm.equality) (simp_all add: u)
  from renderedI [OF this nx buf(2,3)] have "rendered (value_text (eG E) (\<not> raw) v) s (u\<lparr>vstack := vstack s, vbuffer := buf\<rparr>)" .
  ultimately show ?thesis by auto
qed

lemma append_type [simp]: "otype (append_op raw) \<noteq> handlebars_opcode_type_return"
  by (simp add: append_op_def)

lemma value_runs:
  assumes "names_ok (Var raw ws)"
  shows "piece_runs E N a m kids k d g (Var raw ws)"
  unfolding piece_runs_def
proof (intro allI impI)
  fix s tx assume idle: "idle N a m d s" and tx: "render E N (Var raw ws) (vbusy s) (context_of s) = Some tx"
  let ?v = "find_path E (context_of s) ws" and ?app = "[loaded kids (append_op raw)]"
  have v: "\<not> handlebars_value_is_callable ?v" "tx = value_text (eG E) (\<not> raw) ?v"
    using tx by (auto simp: Let_def split: if_splits)
  obtain lh nx u where nx: "vnext s \<le> nx" and u: "steps E k (map (loaded kids) (var_ops ws) @ ?app) s = steps E k ?app u"
      "u = (s\<lparr>vlast_helper := lh, vnext := nx\<rparr>)\<lparr>vlast_context := Some (context_of s), vstack := pushed (vstack s) [?v]\<rparr>"
    using run_value [OF idle assms v(1), of k kids ?app] by blast
  obtain t where t: "dispatch E (vm_runs E (Suc k)) (loaded kids (append_op raw)) u = (Inr (), t)" "vmods t = vmods u" "rendered tx s t"
    using append_runs [OF idle nx u(2), of E "vm_runs E (Suc k)" kids raw] v(2) by auto
  have "steps E k (map (loaded kids) (tpl_ops g (Var raw ws))) s = (Inr (), t)"
    using steps_append_one [OF u(1) t(1,2) refl] by simp
  with t(3) show "\<exists>t. steps E k (map (loaded kids) (tpl_ops g (Var raw ws))) s = (Inr (), t) \<and> rendered tx s t" by blast
qed

end
