(* ===== verification/VmBlocks.thy ===== *)
theory VmBlocks
  imports VmPieces
begin

text \<open>
  What the opcodes of a block do: the built-in helper runs the programs of the block. \<open>executes\<close> is what is needed of
  a program: that running it in a context yields a text and leaves the machine as it was.
\<close>

section \<open>Programs in contexts\<close>

definition executes :: "env \<Rightarrow> nat \<Rightarrow> nat \<Rightarrow> handlebars_module \<Rightarrow> nat \<Rightarrow> runs \<Rightarrow> u64 \<Rightarrow> meaning \<Rightarrow> bool" where
  "executes E N a m d R num f \<longleftrightarrow>
     (\<forall>s v dt bp tx. idle N a m (Suc d) s \<longrightarrow> (\<forall>x b kvs. dt = Some x \<longrightarrow> vbody x = V_MAP b kvs \<longrightarrow> N \<le> b) \<longrightarrow>
        f (vbusy s) (enter E (context_of s) v) = Some tx \<longrightarrow>
        (\<exists>buf t. handlebars_vm_execute_program_ex E (raccept R) num v dt bp s = (Inr buf, t) \<and> rendered [] s t \<and>
           str_ok buf \<and> sval buf = tx))"

lemma str_ok_init [simp]: "str_ok (handlebars_string_init n)" "sval (handlebars_string_init n) = []"
  by (simp_all add: str_ok_def str_defs)

lemma no_program_executes: "executes E N a m d R (- 1) (\<lambda>_ _. Some [])"
  unfolding executes_def by (auto simp: handlebars_vm_execute_program_ex_def ret_def dest: rendered_refl)

definition program_runs :: "env \<Rightarrow> nat \<Rightarrow> nat \<Rightarrow> handlebars_module \<Rightarrow> nat \<Rightarrow> runs \<Rightarrow> nat \<Rightarrow> meaning \<Rightarrow> bool" where
  "program_runs E N a m d R i f \<longleftrightarrow>
     (\<forall>s tx. idle N a m d s \<longrightarrow> f (vbusy s) (context_of s) = Some tx \<longrightarrow>
        (\<exists>t. raccept R a (entry_opcode_offset (mprograms m ! i)) s = (Inr (), t) \<and> rendered tx s t))"

lemma bind_save:
  "sbind (save main_stack) f s = f (fst (handlebars_stack_save (vstack s))) (s\<lparr>vstack := snd (handlebars_stack_save (vstack s))\<rparr>)"
  "sbind (save hash_stack) f s = f (fst (handlebars_stack_save (vhash s))) (s\<lparr>vhash := snd (handlebars_stack_save (vhash s))\<rparr>)"
  "sbind (save context_stack) f s = f (fst (handlebars_stack_save (vcontext s))) (s\<lparr>vcontext := snd (handlebars_stack_save (vcontext s))\<rparr>)"
  "sbind (save block_stack) f s = f (fst (handlebars_stack_save (vblock s))) (s\<lparr>vblock := snd (handlebars_stack_save (vblock s))\<rparr>)"
  "sbind (save partial_stack) f s = f (fst (handlebars_stack_save (vpartial s))) (s\<lparr>vpartial := snd (handlebars_stack_save (vpartial s))\<rparr>)"
  by (simp_all add: save_def sbind_def run_basic split: prod.split)

lemma bind_restore:
  "handlebars_stack_restore (vstack s) b = Inr st \<Longrightarrow> sbind (restore main_stack b) f s = f () (s\<lparr>vstack := st\<rparr>)"
  "handlebars_stack_restore (vhash s) b = Inr st \<Longrightarrow> sbind (restore hash_stack b) f s = f () (s\<lparr>vhash := st\<rparr>)"
  "handlebars_stack_restore (vcontext s) b = Inr st \<Longrightarrow> sbind (restore context_stack b) f s = f () (s\<lparr>vcontext := st\<rparr>)"
  "handlebars_stack_restore (vblock s) b = Inr st \<Longrightarrow> sbind (restore block_stack b) f s = f () (s\<lparr>vblock := st\<rparr>)"
  "handlebars_stack_restore (vpartial s) b = Inr st \<Longrightarrow> restore partial_stack b s = (Inr (), s\<lparr>vpartial := st\<rparr>)"
  by (simp_all add: restore_def sbind_def run_basic)

abbreviation saved :: "value vstack \<Rightarrow> value vstack" where
  "saved st \<equiv> snd (handlebars_stack_save st)"

lemma restore_saved: "spare 0 st \<Longrightarrow> handlebars_stack_restore (pushed (saved st) vs) (fst (handlebars_stack_save st)) = Inr st"
  by (rule save_restore_pushed(1)) simp_all

text \<open>The machine at the start of a program, and the run between save and restore.\<close>

definition saved_state :: "vm \<Rightarrow> vm" where
  "saved_state s = s\<lparr>vstack := saved (vstack s), vhash := saved (vhash s), vcontext := saved (vcontext s),
     vblock := saved (vblock s), vpartial := saved (vpartial s)\<rparr>"

lemma with_saved_run:
  assumes body: "body (saved_state s) = (Inr (), t)"
    and t: "vstack t = saved (vstack s)" "vhash t = saved (vhash s)" "vpartial t = saved (vpartial s)"
      "vcontext t = pushed (saved (vcontext s)) cs" "vblock t = pushed (saved (vblock s)) bs"
    and spare: "spare 0 (vstack s)" "spare 0 (vhash s)" "spare 0 (vcontext s)" "spare 0 (vblock s)" "spare 0 (vpartial s)"
  shows "with_saved_stacks body s = (Inr (), t\<lparr>vstack := vstack s, vhash := vhash s, vcontext := vcontext s,
     vblock := vblock s, vpartial := vpartial s\<rparr>)"
proof -
  note r = restore_saved [OF spare(1), of "[]"] restore_saved [OF spare(2), of "[]"] restore_saved [OF spare(3), of cs]
    restore_saved [OF spare(4), of bs] restore_saved [OF spare(5), of "[]"]
  have "with_saved_stacks body s =
      sbind body (\<lambda>_. sbind (restore main_stack (fst (handlebars_stack_save (vstack s)))) (\<lambda>_.
        sbind (restore hash_stack (fst (handlebars_stack_save (vhash s)))) (\<lambda>_.
        sbind (restore context_stack (fst (handlebars_stack_save (vcontext s)))) (\<lambda>_.
        sbind (restore block_stack (fst (handlebars_stack_save (vblock s)))) (\<lambda>_.
          restore partial_stack (fst (handlebars_stack_save (vpartial s)))))))) (saved_state s)"
    by (simp add: with_saved_stacks_def bind_save saved_state_def)
  then show ?thesis
    using r by (simp add: bind_run [where m = body, OF body] bind_restore t)
qed

section \<open>Running a program\<close>

text \<open>The machine when the first opcode of the program runs.\<close>

definition inner_state :: "env \<Rightarrow> value \<Rightarrow> value option \<Rightarrow> value option \<Rightarrow> vm \<Rightarrow> vm" where
  "inner_state E v dt bp s =
     (saved_state s)\<lparr>vbuffer := handlebars_string_init HANDLEBARS_VM_BUFFER_INIT_SIZE,
       vcontext := pushed (saved (vcontext s))
         (if kv (vcontext s) \<noteq> [] \<and> handlebars_value_eq (eH E) (context_of s) v then [] else [v]),
       vdata := (case dt of None \<Rightarrow> vdata s | Some x \<Rightarrow> x),
       vblock := pushed (saved (vblock s)) (case bp of None \<Rightarrow> [] | Some b \<Rightarrow> [b])\<rparr>"

definition can_run :: "nat \<Rightarrow> handlebars_module \<Rightarrow> vm \<Rightarrow> bool" where
  "can_run a m s \<longleftrightarrow> vmodule s = Some a \<and> vmods s a = Some m \<and> vready s \<and> spare (Suc 0) (vcontext s) \<and> spare (Suc 0) (vblock s) \<and>
     spare 0 (vstack s) \<and> spare 0 (vhash s) \<and> spare 0 (vpartial s)"

lemma saved_simps [simp]: "kv (saved st) = kv st" "spare n st \<Longrightarrow> spare n (saved st)" "kcap (saved st) = kcap st"
  by (simp_all add: handlebars_stack_save_def handlebars_stack_protect_def handlebars_stack_count_def spare_def Let_def)

lemma saved_state_fields [simp]:
  "vstack (saved_state s) = saved (vstack s)" "vhash (saved_state s) = saved (vhash s)" "vcontext (saved_state s) = saved (vcontext s)"
  "vblock (saved_state s) = saved (vblock s)" "vpartial (saved_state s) = saved (vpartial s)" "vdata (saved_state s) = vdata s"
  by (simp_all add: saved_state_def)

lemma bind_push_on:
  "spare (Suc 0) (vcontext s) \<Longrightarrow> PUSH context_stack v s = (Inr (), s\<lparr>vcontext := pushed (vcontext s) [v]\<rparr>)"
  "spare (Suc 0) (vblock s) \<Longrightarrow> PUSH block_stack v s = (Inr (), s\<lparr>vblock := pushed (vblock s) [v]\<rparr>)"
  using push_pushed [of 0 "vcontext s" "[]" v] push_pushed [of 0 "vblock s" "[]" v]
  by (simp_all add: PUSH_def sbind_def run_basic)

lemma top_last: "handlebars_stack_top st = (if kv st = [] then None else Some (last (kv st)))"
  by (simp add: handlebars_stack_top_def last_conv_nth)

lemma enter_program:
  assumes "spare (Suc 0) (vcontext s)" "spare (Suc 0) (vblock s)"
  shows "sbind (push_context_once E v) (\<lambda>_. sbind (set_data_option dt) (\<lambda>_. sbind (push_option block_stack bp) f))
      ((saved_state s)\<lparr>vbuffer := handlebars_string_init HANDLEBARS_VM_BUFFER_INIT_SIZE\<rparr>) = f () (inner_state E v dt bp s)"
proof -
  let ?s = "(saved_state s)\<lparr>vbuffer := handlebars_string_init HANDLEBARS_VM_BUFFER_INIT_SIZE\<rparr>"
  let ?c = "pushed (saved (vcontext s)) (if kv (vcontext s) \<noteq> [] \<and> handlebars_value_eq (eH E) (context_of s) v then [] else [v])"
  have pushes: "push_context_once E v ?s = (Inr (), ?s\<lparr>vcontext := ?c\<rparr>)"
    using assms by (auto simp: push_context_once_def TOP_def sbind_def run_basic top_last bind_push_on)
  have data: "set_data_option dt t = (Inr (), t\<lparr>vdata := (case dt of None \<Rightarrow> vdata t | Some x \<Rightarrow> x)\<rparr>)" for t
    by (auto simp: set_data_option_def run_basic split: option.split)
  have block: "push_option block_stack bp t = (Inr (), t\<lparr>vblock := pushed (vblock t) (case bp of None \<Rightarrow> [] | Some b \<Rightarrow> [b])\<rparr>)"
    if "spare (Suc 0) (vblock t)" for t
    using that by (auto simp: push_option_def run_basic bind_push_on split: option.split)
  let ?t = "?s\<lparr>vcontext := ?c\<rparr>"
  let ?u = "?t\<lparr>vdata := (case dt of None \<Rightarrow> vdata ?t | Some x \<Rightarrow> x)\<rparr>"
  let ?bp = "case bp of None \<Rightarrow> [] | Some b \<Rightarrow> [b]"
  have "spare (Suc 0) (vblock ?u)" using assms by simp
  from block [OF this] have "sbind (push_option block_stack bp) f ?u = f () (?u\<lparr>vblock := pushed (vblock ?u) ?bp\<rparr>)"
    by (rule bind_run)
  moreover have "?u\<lparr>vblock := pushed (vblock ?u) ?bp\<rparr> = inner_state E v dt bp s"
    by (cases dt) (simp_all add: inner_state_def)
  ultimately show ?thesis
    by (simp only: bind_run [where m = "push_context_once E v", OF pushes] bind_run [where m = "set_data_option dt", OF data])
qed

lemma execute_run:
  assumes run: "can_run a m s" and i: "i < length (mprograms m)" "mprogram_count m = length (mprograms m)" "length (mprograms m) < 2 ^ 63"
    and body: "accept a (entry_opcode_offset (mprograms m ! i)) (inner_state E v dt bp s) = (Inr (), t)"
    and t: "rendered tx (inner_state E v dt bp s) t"
  shows "\<exists>buf lc lh nx. handlebars_vm_execute_program_ex E accept (of_nat i) v dt bp s =
      (Inr buf, s\<lparr>vlast_context := Some lc, vlast_helper := lh, vnext := nx\<rparr>) \<and> vnext s \<le> nx \<and> str_ok buf \<and> sval buf = tx"
proof -
  have num: "sint (of_nat i :: u64) = int i"
    using i by (simp add: signed_of_nat signed_take_bit_int_eq_self)
  obtain buf lc lh nx where t': "t = (inner_state E v dt bp s)\<lparr>vbuffer := buf, vlast_context := Some lc, vlast_helper := lh, vnext := nx\<rparr>"
      "vnext s \<le> nx" "str_ok buf" "sval buf = tx"
    using t by (auto simp: rendered_def inner_state_def saved_state_def)
  let ?s = "s\<lparr>vbuffer := handlebars_string_init HANDLEBARS_VM_BUFFER_INIT_SIZE\<rparr>"
  let ?data = "case dt of None \<Rightarrow> vdata s | Some x \<Rightarrow> x"
  let ?body = "sbind (push_context_once E v) (\<lambda>_. sbind (set_data_option dt) (\<lambda>_. sbind (push_option block_stack bp) (\<lambda>_.
    accept a (entry_opcode_offset (mprograms m ! i)))))"
  have save: "saved_state ?s = (saved_state s)\<lparr>vbuffer := handlebars_string_init HANDLEBARS_VM_BUFFER_INIT_SIZE\<rparr>"
    by (simp add: saved_state_def)
  have "?body (saved_state ?s) = (Inr (), t)"
    using run body enter_program [of s E v dt bp "\<lambda>_. accept a (entry_opcode_offset (mprograms m ! i))"] by (simp add: save can_run_def)
  note saved_run = with_saved_run [where body = ?body, OF this, of
      "if kv (vcontext s) \<noteq> [] \<and> handlebars_value_eq (eH E) (context_of s) v then [] else [v]" "case bp of None \<Rightarrow> [] | Some b \<Rightarrow> [b]"]
  have "with_saved_stacks ?body ?s =
      (Inr (), s\<lparr>vbuffer := buf, vlast_context := Some lc, vlast_helper := lh, vnext := nx, vdata := ?data\<rparr>)"
    using run spare_less [of 1 "vcontext s" 0] spare_less [of 1 "vblock s" 0] saved_run
    by (simp add: t'(1) inner_state_def saved_state_def can_run_def)
  then have "handlebars_vm_execute_program_ex E accept (of_nat i) v dt bp s =
      (Inr buf, s\<lparr>vlast_context := Some (handlebars_value_null lc), vlast_helper := lh, vnext := nx\<rparr>)"
    using run i num
    by (cases dt) (simp_all add: handlebars_vm_execute_program_ex_def can_run_def bind_basic deref_def module_at_def need_def
        sbind_assoc bind_run [where m = "with_saved_stacks _"] set_data_option_def run_basic)
  then show ?thesis using t' by blast
qed

lemma idle_can_run: "idle N a m (Suc d) s \<Longrightarrow> can_run a m s"
  by (auto simp: idle_def can_run_def spare_def)

lemma inner_idle:
  assumes "idle N a m (Suc d) s" "\<forall>x b kvs. dt = Some x \<longrightarrow> vbody x = V_MAP b kvs \<longrightarrow> N \<le> b"
  shows "idle N a m d (inner_state E v dt bp s)"
proof -
  have one: "spare d (pushed (saved st) xs)" if "spare (Suc d) st" "length xs \<le> 1" for st :: "value vstack" and xs
    by (rule spare_pushed, rule spare_less [of "Suc d"]) (use that in simp_all)
  have "spare d (vcontext (inner_state E v dt bp s)) \<and> spare d (vblock (inner_state E v dt bp s))"
  proof -
    have "spare (Suc d) (vcontext s)" "spare (Suc d) (vblock s)" using assms(1) by (simp_all add: idle_def)
    from one [OF this(1), of "if kv (vcontext s) \<noteq> [] \<and> handlebars_value_eq (eH E) (context_of s) v then [] else [v]"]
      one [OF this(2), of "case bp of None \<Rightarrow> [] | Some b \<Rightarrow> [b]"]
    show ?thesis by (simp add: inner_state_def split: option.split)
  qed
  moreover have "spare 8 (vstack (inner_state E v dt bp s))" "spare 0 (vhash (inner_state E v dt bp s))"
      "spare 0 (vpartial (inner_state E v dt bp s))"
    using assms(1) by (auto simp: idle_def inner_state_def)
  ultimately show ?thesis
    using assms by (auto simp: idle_def inner_state_def saved_state_def pushed_def split: option.splits)
qed

lemma inner_context: "kv (vcontext s) \<noteq> [] \<Longrightarrow> context_of (inner_state E v dt bp s) = enter E (context_of s) v"
  by (simp add: inner_state_def enter_def)

lemma program_executes:
  assumes runs: "program_runs E N a m d R i f"
    and i: "i < length (mprograms m)" "mprogram_count m = length (mprograms m)" "length (mprograms m) < 2 ^ 63"
  shows "executes E N a m d R (of_nat i) f"
  unfolding executes_def
proof (intro allI impI)
  fix s v dt bp tx
  assume idle: "idle N a m (Suc d) s" and dt: "\<forall>x b kvs. dt = Some x \<longrightarrow> vbody x = V_MAP b kvs \<longrightarrow> N \<le> b"
    and tx: "f (vbusy s) (enter E (context_of s) v) = Some tx"
  let ?s = "inner_state E v dt bp s"
  have "vbusy ?s = vbusy s" "kv (vcontext s) \<noteq> []" "str_ok (vbuffer s)"
    using idle by (simp_all add: inner_state_def saved_state_def idle_def)
  then obtain t where t: "raccept R a (entry_opcode_offset (mprograms m ! i)) ?s = (Inr (), t)" "rendered tx ?s t"
    using runs inner_idle [OF idle dt, of E v bp] tx inner_context unfolding program_runs_def by metis
  from execute_run [where accept = "raccept R", OF idle_can_run [OF idle] i t]
  obtain buf lc lh nx where run: "handlebars_vm_execute_program_ex E (raccept R) (of_nat i) v dt bp s =
      (Inr buf, s\<lparr>vlast_context := Some lc, vlast_helper := lh, vnext := nx\<rparr>)" "vnext s \<le> nx" "str_ok buf" "sval buf = tx" by blast
  moreover have "rendered [] s (s\<lparr>vlast_context := Some lc, vlast_helper := lh, vnext := nx\<rparr>)"
    using run(2) \<open>str_ok (vbuffer s)\<close> by (intro renderedI [where buf = "vbuffer s"]) simp_all
  ultimately show "\<exists>buf t. handlebars_vm_execute_program_ex E (raccept R) (of_nat i) v dt bp s = (Inr buf, t) \<and> rendered [] s t \<and>
      str_ok buf \<and> sval buf = tx" by blast
qed

end
