(* ===== verification/VmBuiltins.thy ===== *)
theory VmBuiltins
  imports VmBlocks
begin

text \<open>
  What the built-in block helpers do for a machine whose programs are known to render: each is its case of
  \<open>block_text\<close>.
\<close>

section \<open>Options\<close>

definition block_options :: "vm \<Rightarrow> u64 \<Rightarrow> u64 \<Rightarrow> handlebars_options \<Rightarrow> bool" where
  "block_options s p q opts \<longleftrightarrow> opt_program opts = p \<and> opt_inverse opts = q \<and> opt_scope opts = Some (context_of s) \<and>
     opt_data opts = Some (vdata s) \<and> (\<exists>h. opt_hash opts = Some (handlebars_value 0 (V_MAP h [])))"

text \<open>A helper that renders a text: its result is a string, and the machine is left as it was.\<close>

definition helps :: "helper \<Rightarrow> value list \<Rightarrow> handlebars_options \<Rightarrow> vm \<Rightarrow> string \<Rightarrow> bool" where
  "helps h argv opts s tx \<longleftrightarrow>
     (\<exists>out t. h argv opts s = (Inr (Some (string_value out)), t) \<and> rendered [] s t \<and> sval out = tx)"

lemma enter_same [simp]: "enter E c c = c"
  by (simp add: enter_def)

lemma executesD:
  assumes "executes E N a m d R num f" "idle N a m (Suc d) s" "f (vbusy s) (enter E (context_of s) v) = Some tx"
    and "\<forall>x b kvs. dt = Some x \<longrightarrow> vbody x = V_MAP b kvs \<longrightarrow> N \<le> b"
  shows "\<exists>buf t. handlebars_vm_execute_program_ex E (raccept R) num v dt bp s = (Inr buf, t) \<and> rendered [] s t \<and>
    str_ok buf \<and> sval buf = tx"
  using assms unfolding executes_def by blast

lemma scope_executes:
  assumes "executes E N a m d R num f" "idle N a m (Suc d) s" "f (vbusy s) (enter E (context_of s) v) = Some tx"
  shows "\<exists>buf t. handlebars_vm_execute_program E (raccept R) num v s = (Inr buf, t) \<and> rendered [] s t \<and>
    str_ok buf \<and> sval buf = tx"
  unfolding handlebars_vm_execute_program_def by (rule executesD [OF assms, of None None]) auto

section \<open>\<open>if\<close>, \<open>unless\<close> and \<open>with\<close>\<close>

lemma if_helps:
  assumes idle: "idle N a m (Suc d) s" and opts: "block_options s p q opts" and v: "\<not> handlebars_value_is_callable v"
    and runs: "executes E N a m d R p body" "executes E N a m d R q els"
    and tx: "(if handlebars_value_is_empty v then els else body) (vbusy s) (context_of s) = Some tx"
  shows "helps (handlebars_builtin_if E R) [v] opts s tx"
proof -
  let ?p = "if handlebars_value_is_empty v then q else p"
  have "executes E N a m d R ?p (if handlebars_value_is_empty v then els else body)" using runs by simp
  from scope_executes [OF this idle, of "context_of s" tx] tx obtain buf t where
    run: "handlebars_vm_execute_program E (raccept R) ?p (context_of s) s = (Inr buf, t)" "rendered [] s t" "sval buf = tx" by auto
  obtain h where h: "opt_hash opts = Some (handlebars_value 0 (V_MAP h []))" using opts by (auto simp: block_options_def)
  have "handlebars_value_map_str_find (eH E) (handlebars_value 0 (V_MAP h [])) ''includeZero'' = None"
    by (simp add: handlebars_value_map_str_find_def handlebars_value_map_find_def lookup_item_def)
  then have "handlebars_builtin_if E R [v] opts s = (Inr (Some (string_value buf)), t)"
    using run(1) opts v h
    by (simp add: handlebars_builtin_if_def call_if_callable_def block_options_def deref_def bind_run run_basic split: if_splits)
  with run show ?thesis by (auto simp: helps_def)
qed

lemma call_builtin:
  assumes "vbody (vhelpers s) = V_MAP h []" "handlebars_builtins_find name = Some i"
  shows "handlebars_vm_call_helper_str E R name argv opts s = rbuiltin R i argv opts s"
  using assms by (simp add: handlebars_vm_call_helper_str_def handlebars_value_map_str_find_def handlebars_value_map_find_def
      lookup_item_def bind_basic)

lemma boolean_empty [simp]: "handlebars_value_is_empty (handlebars_value_boolean v b) \<longleftrightarrow> \<not> b"
  "\<not> handlebars_value_is_callable (handlebars_value_boolean v b)"
  by (cases v; simp add: handlebars_value_is_empty_def handlebars_value_boolean_def handlebars_value_get_boolval_def set_body_def
      handlebars_value_is_callable_def)+

lemma unless_helps:
  assumes idle: "idle N a m (Suc d) s" and opts: "block_options s p q opts"
    and R: "rbuiltin R = builtin_helper E R'"
    and runs: "executes E N a m d R' p body" "executes E N a m d R' q els"
    and tx: "(if handlebars_value_is_empty v then body else els) (vbusy s) (context_of s) = Some tx"
  shows "helps (handlebars_builtin_unless E R) [v] opts s tx"
proof -
  obtain h where "vbody (vhelpers s) = V_MAP h []" using idle by (auto simp: idle_def)
  then have "handlebars_builtin_unless E R [v] opts s =
      handlebars_builtin_if E R' [handlebars_value_boolean v (handlebars_value_is_empty v)] opts s"
    using builtin_kind [of B_if] by (simp add: handlebars_builtin_unless_def call_builtin R builtin_helper_def builtins_def)
  moreover have "helps (handlebars_builtin_if E R') [handlebars_value_boolean v (handlebars_value_is_empty v)] opts s tx"
    using tx by (intro if_helps [OF idle opts _ runs]) auto
  ultimately show ?thesis by (simp add: helps_def)
qed

lemma idle_fresh: "idle N a m d s \<Longrightarrow> idle N a m d (s\<lparr>vnext := Suc (vnext s)\<rparr>)"
  by (simp add: idle_def)

lemma rendered_fresh: "rendered x (s\<lparr>vnext := Suc (vnext s)\<rparr>) t \<Longrightarrow> rendered x s t"
  unfolding rendered_def by (elim exE conjE) (intro exI conjI, rule vm.equality, auto)

lemma idle_data: "idle N a m d s \<Longrightarrow> \<forall>x b kvs. Some (vdata s) = Some x \<longrightarrow> vbody x = V_MAP b kvs \<longrightarrow> N \<le> b"
  by (auto simp: idle_def)

lemma with_helps:
  assumes idle: "idle N a m (Suc d) s" and opts: "block_options s p q opts" and v: "\<not> handlebars_value_is_callable v"
    and runs: "executes E N a m d R p body" "executes E N a m d R q els"
    and tx: "(if handlebars_value_get_type v = HANDLEBARS_VALUE_TYPE_NULL then els else body) (vbusy s) (enter E (context_of s) v) = Some tx"
  shows "helps (handlebars_builtin_with E R) [v] opts s tx"
proof (cases "handlebars_value_get_type v = HANDLEBARS_VALUE_TYPE_NULL")
  case True
  then obtain buf t where run: "handlebars_vm_execute_program E (raccept R) q v s = (Inr buf, t)" "rendered [] s t" "sval buf = tx"
    using scope_executes [OF runs(2) idle, of v tx] tx by auto
  then have "handlebars_builtin_with E R [v] opts s = (Inr (Some (string_value buf)), t)"
    using opts v True by (simp add: handlebars_builtin_with_def call_if_callable_def block_options_def bind_run run_basic)
  with run show ?thesis by (auto simp: helps_def)
next
  case False
  let ?s = "s\<lparr>vnext := Suc (vnext s)\<rparr>" and ?b = "handlebars_value 0 (V_ARRAY (vnext s) [v])"
  obtain buf t where run: "handlebars_vm_execute_program_ex E (raccept R) p v (Some (vdata s)) (Some ?b) ?s = (Inr buf, t)"
      "rendered [] ?s t" "sval buf = tx"
    using executesD [OF runs(1) idle_fresh [OF idle], of v tx "Some (vdata s)" "Some ?b"] idle_data [OF idle] tx False by auto
  have "handlebars_builtin_with E R [v] opts s = (Inr (Some (string_value buf)), t)"
    using run(1) opts v False
    by (simp add: handlebars_builtin_with_def call_if_callable_def block_options_def bind_fresh sbind_assoc
        handlebars_value_array_set_def set_body_def bind_basic bind_run run_basic)
  with run rendered_fresh show ?thesis by (auto simp: helps_def)
qed

section \<open>\<open>each\<close>\<close>

lemma all_texts_Cons: "all_texts (x # xs) = Some tx \<longleftrightarrow> (\<exists>a b. x = Some a \<and> all_texts xs = Some b \<and> tx = a @ b)"
  by (auto split: option.splits)

text \<open>The block parameters of a round: whatever was there, the first two elements are written.\<close>

lemma params_set:
  "\<exists>ys. (case handlebars_value_array_set (handlebars_value f (V_ARRAY a xs)) 0 c of
     Inr b \<Rightarrow> handlebars_value_array_set b 1 k | Inl e \<Rightarrow> Inl e) = Inr (handlebars_value f (V_ARRAY a ys))"
  by (cases xs) (auto simp: handlebars_value_array_set_def set_body_def)

lemma each_round_helps:
  assumes idle: "idle N a m (Suc d) s" and opts: "block_options s p q opts" and runs: "executes E N a m d R p body"
    and tx: "body (vbusy s) (enter E (context_of s) c) = Some tx" and params: "bp = handlebars_value 0 (V_ARRAY b xs)"
  shows "\<exists>dm ys res' t. each_round E R opts n (idx, key, c) (i, kvs, bp, res) s =
      (Inr (i + 1, dm, handlebars_value 0 (V_ARRAY b ys), res'), t) \<and> rendered [] s t \<and> sval res' = sval res @ tx"
proof -
  let ?key = "case key of Some k \<Rightarrow> string_value k | None \<Rightarrow> integer_value (of_nat idx)"
  obtain b1 ys where set1: "handlebars_value_array_set bp 0 c = Inr b1" and
      set2: "handlebars_value_array_set b1 (Suc 0) ?key = Inr (handlebars_value 0 (V_ARRAY b ys))"
    using params_set [where f = 0 and a = b and xs = xs and c = c and k = ?key] params by (auto split: sum.splits)
  let ?s = "s\<lparr>vnext := Suc (vnext s)\<rparr>"
  obtain j where j: "(if 0 < idx then idx else i) = j" by blast
  obtain dm where dm: "dm = str_update E ''last'' (boolean_value (i = n)) (str_update E ''first'' (boolean_value (i = 0))
    (str_update E ''key'' ?key (str_update E ''index'' (integer_value (of_nat j)) kvs)))"
    by blast
  let ?data = "handlebars_value 0 (V_MAP (vnext s) dm)" and ?bp = "handlebars_value 0 (V_ARRAY b ys)"
  have data: "\<forall>x b kvs. Some ?data = Some x \<longrightarrow> vbody x = V_MAP b kvs \<longrightarrow> N \<le> b" using idle by (auto simp: idle_def)
  obtain buf t where run: "handlebars_vm_execute_program_ex E (raccept R) p c (Some ?data) (Some ?bp) ?s = (Inr buf, t)"
      "rendered [] ?s t" "sval buf = tx"
    using executesD [where v = c and tx = tx and bp = "Some ?bp", OF runs idle_fresh [OF idle] _ data] tx by auto
  obtain res' where res': "handlebars_string_append res (sval buf) = Inr res'" "sval res' = sval res @ tx"
    using appends_append [of res "sval buf"] run(3) by (auto simp: appends_def)
  have "each_round E R opts n (idx, key, c) (i, kvs, bp, res) s = (Inr (i + 1, dm, ?bp, res'), t)"
    using opts set1 set2 run(1) res'(1)
    by (simp add: dm j each_round_def block_options_def Let_def bind_basic sbind_assoc new_map_def bind_fresh set_body_def
        bind_run [where m = "handlebars_vm_execute_program_ex _ _ _ _ _ _"]) (simp add: run_basic)
  with rendered_fresh [OF run(2)] res'(2) show ?thesis by blast
qed

lemma block_options_rendered: "block_options s p q opts \<Longrightarrow> rendered x s t \<Longrightarrow> block_options t p q opts"
  by (auto simp: block_options_def rendered_same)

lemma rounds_help:
  assumes "idle N a m (Suc d) s" "block_options s p q opts" "executes E N a m d R p body"
    and "all_texts (map (\<lambda>(_, _, x). body (vbusy s) (enter E (context_of s) x)) items) = Some tx"
    and "bp = handlebars_value 0 (V_ARRAY b xs)"
  shows "\<exists>dm bp' res' t. sfold (each_round E R opts n) items (i, kvs, bp, res) s =
      (Inr (i + length items, dm, bp', res'), t) \<and> rendered [] s t \<and> sval res' = sval res @ tx"
  using assms
proof (induction items arbitrary: s i kvs bp xs res tx)
  case Nil
  then show ?case using rendered_refl [OF Nil.prems(1)] by (auto simp: run_basic run_sfold)
next
  case (Cons item items)
  obtain idx key c where item: "item = (idx, key, c)" by (cases item)
  obtain t1 t2 where tx: "body (vbusy s) (enter E (context_of s) c) = Some t1" "tx = t1 @ t2"
      "all_texts (map (\<lambda>(_, _, x). body (vbusy s) (enter E (context_of s) x)) items) = Some t2"
    using Cons.prems(4) item by (auto simp: all_texts_Cons simp del: all_texts.simps)
  obtain dm ys res1 u where u: "each_round E R opts n (idx, key, c) (i, kvs, bp, res) s =
      (Inr (i + 1, dm, handlebars_value 0 (V_ARRAY b ys), res1), u)" "rendered [] s u" "sval res1 = sval res @ t1"
    using each_round_helps [OF Cons.prems(1-3) tx(1) Cons.prems(5)] by blast
  from Cons.IH [OF rendered_idle [OF u(2) Cons.prems(1)] block_options_rendered [OF Cons.prems(2) u(2)] Cons.prems(3) _ refl, where tx = t2 and i = "i + 1" and kvs = dm and res = res1 and xs = ys]
  obtain dm' bp' res' t where "sfold (each_round E R opts n) items (i + 1, dm, handlebars_value 0 (V_ARRAY b ys), res1) u =
      (Inr (i + 1 + length items, dm', bp', res'), t)" "rendered [] u t" "sval res' = sval res1 @ t2"
    using tx(3) rendered_same [OF u(2)] by auto
  moreover from this(2) u(2) have "rendered [] s t" using rendered_trans [of "[]" s u "[]" t] by simp
  ultimately show ?case using u(1,3) tx(2) item by (auto simp: bind_run run_sfold)
qed

text \<open>Iterating over a value marks its map for the time of the loop.\<close>

lemma foreach_run:
  assumes "case vbody v of V_MAP b kvs \<Rightarrow> b \<notin> vbusy s | _ \<Rightarrow> True"
    and "sfold f (value_items v) x (s\<lparr>vbusy := iterating v (vbusy s)\<rparr>) = (Inr y, t)" "vbusy t = iterating v (vbusy s)"
    and "value_items v \<noteq> []"
  shows "foreach v f x s = (Inr y, t\<lparr>vbusy := vbusy s\<rparr>)"
proof (cases "\<exists>b kvs. vbody v = V_MAP b kvs")
  case True
  then obtain b kvs where v: "vbody v = V_MAP b kvs" by blast
  then have "kvs \<noteq> []" "b \<notin> vbusy s" using assms(1,4) by (auto simp: value_items_def)
  have upd: "vbusy_update (insert b) s = s\<lparr>vbusy := insert b (vbusy s)\<rparr>" "vbusy_update (\<lambda>B. B - {b}) t = t\<lparr>vbusy := vbusy t - {b}\<rparr>"
    by (cases s, simp, cases t, simp)
  have "foreach v f x s =
      sbind (sfold f (value_items v) x) (\<lambda>r. sbind (put (vbusy_update (\<lambda>B. B - {b}))) (\<lambda>_. ret r)) (s\<lparr>vbusy := insert b (vbusy s)\<rparr>)"
    using v \<open>kvs \<noteq> []\<close> \<open>b \<notin> vbusy s\<close> by (simp add: foreach_def bind_basic) (simp only: upd)
  also have "\<dots> = sbind (put (vbusy_update (\<lambda>B. B - {b}))) (\<lambda>_. ret y) t"
    using assms(2) v by (intro bind_run) (simp add: iterating_def)
  also have "\<dots> = (Inr y, t\<lparr>vbusy := vbusy s\<rparr>)"
    using \<open>b \<notin> vbusy s\<close> assms(3) v by (simp add: bind_basic upd iterating_def) (simp add: run_basic)
  finally show ?thesis .
next
  case False
  then have "iterating v (vbusy s) = vbusy s" "foreach v f x = sfold f (value_items v) x"
    by (auto simp: iterating_def foreach_def split: handlebars_value_internals.split)
  with assms(2,3) show ?thesis by (metis (no_types, lifting) vm.surjective vm.update_convs(24))
qed

lemma copy_items: "\<exists>r. sfold (\<lambda>(i, k, c) kvs. sbind (deref k) (\<lambda>key. ret (update_item H key c kvs)))
    (map (\<lambda>(i, k, c). (i, Some k, c)) items) kvs s = (Inr r, s)"
  by (induction items arbitrary: kvs) (auto simp: run_sfold(2) bind_basic deref_def run_sfold(1) simp del: sfold.simps)

lemma each_data_runs:
  assumes "idle N a m d s" "block_options s p q opts"
  shows "\<exists>kvs. each_data E opts s = (Inr kvs, s)"
proof (cases "\<exists>b items. vbody (vdata s) = V_MAP b items \<and> items \<noteq> []")
  case True
  then obtain b items where v: "vbody (vdata s) = V_MAP b items" "items \<noteq> []" by blast
  then have items: "value_items (vdata s) = map (\<lambda>(i, k, c). (i, Some k, c)) (enumerate 0 items)" "value_items (vdata s) \<noteq> []"
    by (auto simp: value_items_def enumerate_eq_zip)
  have b: "b \<notin> vbusy s" using assms(1) v by (force simp: idle_def)
  obtain r where "sfold (\<lambda>(i, k, c) kvs. sbind (deref k) (\<lambda>key. ret (update_item (eH E) key c kvs))) (value_items (vdata s)) []
      (s\<lparr>vbusy := iterating (vdata s) (vbusy s)\<rparr>) = (Inr r, s\<lparr>vbusy := iterating (vdata s) (vbusy s)\<rparr>)"
    unfolding items(1) using copy_items by blast
  from foreach_run [OF _ this] b v items(2) assms(2) have "each_data E opts s = (Inr r, s)"
    by (cases "vdata s") (simp add: each_data_def block_options_def)
  then show ?thesis ..
next
  case False
  then have "foreach (vdata s) f [] s = (Inr [], s)" if "handlebars_value_get_type (vdata s) = HANDLEBARS_VALUE_TYPE_MAP" for f
    using that by (cases "vdata s") (auto simp: foreach_def run_basic split: handlebars_value_internals.splits)
  then show ?thesis using assms(2) by (auto simp: each_data_def block_options_def run_basic)
qed

lemma inverse_helps:
  assumes "idle N a m (Suc d) s" "block_options s p q opts" "executes E N a m d R q els" "els (vbusy s) (context_of s) = Some tx"
  shows "helps (\<lambda>_ _. each_finish E R opts 0 (handlebars_string_ctor [])) argv opts s tx"
proof -
  obtain buf t where run: "handlebars_vm_execute_program E (raccept R) q (context_of s) s = (Inr buf, t)" "rendered [] s t" "sval buf = tx"
    using scope_executes [OF assms(3,1), of "context_of s" tx] assms(4) by auto
  obtain out where "handlebars_string_append (handlebars_string_ctor []) (sval buf) = Inr out" "sval out = tx"
    using appends_append [of "handlebars_string_ctor []" "sval buf"] run(3) by (auto simp: appends_def)
  with run(1,2) assms(2) show ?thesis
    by (auto simp: helps_def each_finish_def block_options_def deref_def sbind_assoc bind_basic
        bind_run [where m = "handlebars_vm_execute_program _ _ _ _"]) (auto simp: run_basic)
qed

lemma items_type:
  "handlebars_value_get_type v \<notin> {HANDLEBARS_VALUE_TYPE_MAP, HANDLEBARS_VALUE_TYPE_ARRAY} \<Longrightarrow> value_items v = []"
  "handlebars_value_get_type v \<in> {HANDLEBARS_VALUE_TYPE_MAP, HANDLEBARS_VALUE_TYPE_ARRAY} \<Longrightarrow>
     handlebars_value_count v = int (length (value_items v))"
  by (cases v; auto simp: value_items_def handlebars_value_count_def enumerate_eq_zip split: handlebars_value_internals.splits)+

text \<open>What \<open>each\<close> does with a value that has a type to iterate over.\<close>

lemma each_loop:
  assumes "handlebars_value_get_type v \<in> {HANDLEBARS_VALUE_TYPE_MAP, HANDLEBARS_VALUE_TYPE_ARRAY}"
    and "\<not> handlebars_value_is_callable v" "opt_data opts \<noteq> None"
    and "each_data E opts (s\<lparr>vnext := Suc (vnext s)\<rparr>) = (Inr kvs, s\<lparr>vnext := Suc (vnext s)\<rparr>)"
  shows "handlebars_builtin_each E R [v] opts s =
     (if value_items v = [] then each_finish E R opts 0 (handlebars_string_ctor [])
      else
        sbind (foreach v (each_round E R opts (length (value_items v) - 1))
                 (0, kvs, handlebars_value 0 (V_ARRAY (vnext s) []), handlebars_string_ctor [])) (\<lambda>(i, _, _, r).
          each_finish E R opts i r)) (s\<lparr>vnext := Suc (vnext s)\<rparr>)"
proof -
  have count: "handlebars_value_count v \<le> 0 \<longleftrightarrow> value_items v = []" "nat (handlebars_value_count v) - 1 = length (value_items v) - 1"
    using items_type(2) [OF assms(1)] by simp_all
  have cases: "(handlebars_value_get_type v \<notin> {HANDLEBARS_VALUE_TYPE_MAP, HANDLEBARS_VALUE_TYPE_ARRAY}) = False"
      "(opt_data opts = None) = False" "handlebars_value_is_callable v = False"
    using assms(1-3) by simp_all
  have "handlebars_builtin_each E R [v] opts s =
      sbind fresh (\<lambda>a. sbind (each_data E opts) (\<lambda>kvs.
        if value_items v = [] then each_finish E R opts 0 (handlebars_string_ctor [])
        else sbind (foreach v (each_round E R opts (length (value_items v) - 1))
               (0, kvs, handlebars_value 0 (V_ARRAY a []), handlebars_string_ctor [])) (\<lambda>(i, _, _, r).
                each_finish E R opts i r))) s"
    unfolding handlebars_builtin_each_def call_if_callable_def Let_def list.case count cases if_False sbind_ret by (rule refl)
  then show ?thesis using assms(4) by (simp only: bind_fresh bind_run [where m = "each_data _ _"])
qed

lemma block_options_fresh: "block_options s p q opts \<Longrightarrow> block_options (s\<lparr>vnext := Suc (vnext s)\<rparr>) p q opts"
  by (simp add: block_options_def)

lemma helps_fresh: "helps h argv opts (s\<lparr>vnext := Suc (vnext s)\<rparr>) tx \<Longrightarrow>
    h argv opts (s\<lparr>vnext := Suc (vnext s)\<rparr>) = h' argv' opts s \<Longrightarrow> helps h' argv' opts s tx"
  unfolding helps_def using rendered_fresh by metis

lemma idle_busy: "idle N a m d s \<Longrightarrow> \<forall>b \<in> B. b < N \<Longrightarrow> idle N a m d (s\<lparr>vbusy := B\<rparr>)"
  by (simp add: idle_def)

lemma rendered_busy: "rendered x (s\<lparr>vbusy := B\<rparr>) t \<Longrightarrow> rendered x s (t\<lparr>vbusy := vbusy s\<rparr>)"
  unfolding rendered_def by (elim exE conjE) (intro exI conjI, rule vm.equality, auto)

text \<open>All rounds, with the map marked.\<close>

lemma loop_helps:
  assumes idle: "idle N a m (Suc d) s" and opts: "block_options s p q opts" and runs: "executes E N a m d R p body"
    and allowed: "each_allowed N v (vbusy s)" "value_items v \<noteq> []"
    and tx: "all_texts (map (\<lambda>(_, _, x). body (iterating v (vbusy s)) (enter E (context_of s) x)) (value_items v)) = Some tx"
  shows "\<exists>i dm bp out t. foreach v (each_round E R opts n) (0, kvs, handlebars_value 0 (V_ARRAY b []), handlebars_string_ctor []) s =
      (Inr (i, dm, bp, out), t) \<and> 0 < i \<and> rendered [] s t \<and> sval out = tx"
proof -
  let ?s = "s\<lparr>vbusy := iterating v (vbusy s)\<rparr>"
  have B: "\<forall>b \<in> iterating v (vbusy s). b < N"
    using idle allowed(1) by (auto simp: idle_def iterating_def each_allowed_def split: handlebars_value_internals.splits)
  have opts': "block_options ?s p q opts" using opts by (simp add: block_options_def)
  from rounds_help [OF idle_busy [OF idle B] opts' runs _ refl, where items = "value_items v" and tx = tx and i = 0 and b = b and xs = "[]"]
  obtain dm bp out t where t: "sfold (each_round E R opts n) (value_items v)
      (0, kvs, handlebars_value 0 (V_ARRAY b []), handlebars_string_ctor []) ?s = (Inr (length (value_items v), dm, bp, out), t)"
      "rendered [] ?s t" "sval out = tx"
    using tx by fastforce
  have "case vbody v of V_MAP b kvs \<Rightarrow> b \<notin> vbusy s | _ \<Rightarrow> True"
    using allowed(1) by (simp add: each_allowed_def split: handlebars_value_internals.splits)
  moreover have "vbusy t = iterating v (vbusy s)" using rendered_same(8) [OF t(2)] by simp
  ultimately have "foreach v (each_round E R opts n) (0, kvs, handlebars_value 0 (V_ARRAY b []), handlebars_string_ctor []) s =
      (Inr (length (value_items v), dm, bp, out), t\<lparr>vbusy := vbusy s\<rparr>)"
    using foreach_run [OF _ t(1) _ allowed(2)] by blast
  with rendered_busy [OF t(2)] t(3) allowed(2) show ?thesis by blast
qed

lemma each_helps:
  assumes idle: "idle N a m (Suc d) s" and opts: "block_options s p q opts" and v: "\<not> handlebars_value_is_callable v"
    and runs: "executes E N a m d R p body" "executes E N a m d R q els"
    and tx: "block_text E N B_each v body els (vbusy s) (context_of s) = Some tx"
  shows "helps (handlebars_builtin_each E R) [v] opts s tx"
proof (cases "handlebars_value_get_type v \<in> {HANDLEBARS_VALUE_TYPE_MAP, HANDLEBARS_VALUE_TYPE_ARRAY}")
  case False
  then have "els (vbusy s) (context_of s) = Some tx"
    using tx v items_type(1) [of v] by (simp add: block_text_def)
  from inverse_helps [OF idle opts runs(2) this, of "[v]"] show ?thesis
    using False v by (simp add: helps_def handlebars_builtin_each_def call_if_callable_def)
next
  case True
  let ?s = "s\<lparr>vnext := Suc (vnext s)\<rparr>"
  note idle' = idle_fresh [OF idle] and opts' = block_options_fresh [OF opts]
  obtain kvs where data: "each_data E opts ?s = (Inr kvs, ?s)" using each_data_runs [OF idle' opts'] by blast
  have some: "opt_data opts \<noteq> None" using opts by (simp add: block_options_def)
  note loop = each_loop [where E = E and R = R, OF True v some data]
  show ?thesis
  proof (cases "value_items v = []")
    case True
    then have "els (vbusy ?s) (context_of ?s) = Some tx" using tx v by (simp add: block_text_def)
    from helps_fresh [OF inverse_helps [where argv = "[v]", OF idle' opts' runs(2) this]] show ?thesis
      using loop True by simp
  next
    case False
    then have allowed: "each_allowed N v (vbusy ?s)" and tx': "all_texts (map (\<lambda>(_, _, x).
        body (iterating v (vbusy ?s)) (enter E (context_of ?s) x)) (value_items v)) = Some tx"
      using tx v by (auto simp: block_text_def split: if_splits)
    from loop_helps [where n = "length (value_items v) - 1" and kvs = kvs and b = "vnext s", OF idle' opts' runs(1) allowed False tx']
    obtain i dm bp out t where t: "foreach v (each_round E R opts (length (value_items v) - 1))
        (0, kvs, handlebars_value 0 (V_ARRAY (vnext s) []), handlebars_string_ctor []) ?s = (Inr (i, dm, bp, out), t)"
        "0 < i" "rendered [] ?s t" "sval out = tx" by blast
    have "handlebars_builtin_each E R [v] opts s = (Inr (Some (string_value out)), t)"
      using loop False t(1,2) by (simp add: bind_run [where m = "foreach _ _ _"] each_finish_def) (simp add: run_basic)
    with rendered_fresh [OF t(3)] t(4) show ?thesis by (auto simp: helps_def)
  qed
qed

end
