(* ===== verification/TemplateCompile.thy ===== *)
theory TemplateCompile
  imports Template
begin

text \<open>
  Compiling a template of \<open>Template\<close> emits exactly its opcodes, and its blocks become the child programs.
\<close>

declare handlebars_compiler_accept.simps [simp del]

section \<open>Emitting\<close>

definition emitting :: "opcode list \<Rightarrow> compiler \<Rightarrow> compiler" where
  "emitting ops c = c\<lparr>copcodes := copcodes c @ ops\<rparr>"

lemma opcode_emit_simps [simp]:
  "sns (emitting ops c) = sns c" "bps (emitting ops c) = bps c" "cflags (emitting ops c) = cflags c" "cguid (emitting ops c) = cguid c"
  "known_helpers (emitting ops c) = known_helpers c" "cchildren (emitting ops c) = cchildren c"
  "copcodes (emitting ops c) = copcodes c @ ops" "emitting xs (emitting ys c) = emitting (ys @ xs) c" "emitting [] c = c"
  "flag_on (emitting ops c) f = flag_on c f"
  by (simp_all add: emitting_def flag_on_def)

text \<open>A compiler without options, in a block without parameters, with \<open>st\<close> levels above it.\<close>

definition clean :: "handlebars_locinfo list \<Rightarrow> compiler \<Rightarrow> bool" where
  "clean st c \<longleftrightarrow> plain c \<and> sns c = Some st \<and> known_helpers c = handlebars_builtins_names \<and>
     (\<exists>bs. bps c = Some bs \<and> length bs \<le> length st)"

lemma clean_emit [simp]: "clean st (emitting ops c) = clean st c"
  by (simp add: clean_def plain_def)

lemma clean_flag: "clean st c \<Longrightarrow> \<not> flag_on c f"
  by (simp add: clean_def plain_def flag_on_def)

lemma clean_push: "clean st c \<Longrightarrow> clean (l # st) (c\<lparr>sns := Some (l # st)\<rparr>)"
  by (auto simp: clean_def plain_def)

lemma opcode_emit: "clean (no_loc # st) c \<Longrightarrow> oloc opc = no_loc \<Longrightarrow> handlebars_compiler_opcode c opc = emitting [opc] c"
  by (simp add: handlebars_compiler_opcode_def emitting_def clean_def handlebars_opcode_set_loc_def)

lemma oloc_simps [simp]: "oloc (handlebars_opcode_ctor t) = no_loc" "oloc (opcode_with t a b d e) = no_loc"
  by (simp_all add: handlebars_opcode_ctor_def opcode_with_def)

lemmas emits_defs = OPN_def OPL_def OPB_def OPS_def opcode_emit

lemma accept_emits:
  assumes "clean st c" "length st < 64" "nloc n = no_loc"
    and "accept_switch H (handlebars_compiler_accept H k) n (c\<lparr>sns := Some (no_loc # st)\<rparr>) = Inr (emitting ops (c\<lparr>sns := Some (no_loc # st)\<rparr>))"
  shows "handlebars_compiler_accept H (Suc k) n c = Inr (emitting ops c)"
proof -
  have "sns c = Some st" using assms(1) by (simp add: clean_def)
  then show ?thesis using assms(2-4) by (simp add: accept_step emitting_def del: handlebars_compiler_accept.simps)
qed

section \<open>Paths\<close>

lemma copy_copy [simp]: "handlebars_string_copy_ctor (handlebars_string_copy_ctor s) = handlebars_string_copy_ctor s"
  by (simp add: handlebars_string_copy_ctor_def)

lemma if_false [simp]: "if_true False = operand_null False"
  by (simp add: if_true_def)

lemma path_node_simps [simp]:
  "ast_type (path_node ws) = HANDLEBARS_AST_NODE_PATH" "nloc (path_node ws) = no_loc"
  "handlebars_ast_node_get_id_part (path_node ws) = Inr (map_option handlebars_string_ctor (case ws of [] \<Rightarrow> None | w # _ \<Rightarrow> Some w))"
  by (auto simp: path_node_def handlebars_ast_node_get_id_part_def split: list.split)

lemma mark_path_simps [simp]:
  "nloc (mark_path f n) = nloc n"
  "handlebars_ast_node_get_id_part (mark_path f n) = handlebars_ast_node_get_id_part n"
  by (auto simp: mark_path_def handlebars_ast_node_get_id_part_def split: handlebars_ast_internals.split)

definition path_of :: "string list \<Rightarrow> bool \<Rightarrow> node handlebars_ast_node_path" where
  "path_of ws strict = ast_path (Some (handlebars_string_ctor (if ws = [] then ''this'' else join ''.'' ws)))
     (Some (map (\<lambda>w. ast_node 0 no_loc (NODE_PATH_SEGMENT (Some (handlebars_string_ctor w)) None
        (Some (handlebars_string_ctor w)))) ws)) 0 False False strict"

lemma path_body [simp]:
  "nbody (path_node ws) = NODE_PATH (path_of ws False)" "nbody (mark_path False (path_node ws)) = NODE_PATH (path_of ws True)"
  by (simp_all add: path_node_def path_of_def mark_path_def)

lemma path_of_simps [simp]:
  "path_depth (path_of ws b) = 0" "path_data (path_of ws b) = False" "path_falsy (path_of ws b) = False"
  "path_strict (path_of ws b) = b" "path_parts (path_of ws b) \<noteq> None"
  by (simp_all add: path_of_def)

lemma path_original_unscoped [simp]:
  "handlebars_ast_helper_scoped_id (path_of ws True) = handlebars_ast_helper_scoped_id (path_of ws False)"
  by (simp add: handlebars_ast_helper_scoped_id_def path_of_def)

lemma unscoped_iff: "unscoped ws \<longleftrightarrow> \<not> handlebars_ast_helper_scoped_id (path_of ws False)"
  by (simp add: unscoped_def)

lemma parts_fold:
  "efold (\<lambda>x arr. case nbody x of
      NODE_PATH_SEGMENT part _ _ \<Rightarrow>
        (case part of None \<Rightarrow> Inl Mem_error | Some s \<Rightarrow> Inr (arr @ [handlebars_string_copy_ctor s]))
    | _ \<Rightarrow> Inr arr) (map (\<lambda>w. ast_node 0 no_loc (NODE_PATH_SEGMENT (Some (handlebars_string_ctor w)) None
        (Some (handlebars_string_ctor w)))) ws) as = Inr (as @ map copied ws)"
  by (induction ws arbitrary: as) auto

lemma id_parts_path:
  "ws \<noteq> [] \<Longrightarrow> nbody n = NODE_PATH (path_of ws b) \<Longrightarrow> id_parts n = Inr (map copied ws)"
  using parts_fold [of ws "[]"]
  by (cases ws) (simp_all add: id_parts_def handlebars_ast_node_get_id_parts_def path_of_def)

lemma no_block_params: "plain c \<Longrightarrow> handlebars_compiler_block_param_index H c p = Inr None"
  by (auto simp: plain_def handlebars_compiler_block_param_index_def no_block_param split: option.split)

lemma path_node_emits:
  assumes "clean (no_loc # st) c" "ws \<noteq> [] \<longrightarrow> unscoped ws" "nbody n = NODE_PATH (path_of ws b)"
    and "handlebars_ast_node_get_id_part n = handlebars_ast_node_get_id_part (path_node ws)"
  shows "handlebars_compiler_accept_path H n (path_of ws b) c = Inr (emitting (path_ops b ws) c)"
proof -
  have p: "plain (emitting ops c)" for ops using assms(1) by (simp add: clean_def plain_def)
  have idx: "handlebars_compiler_block_param_index H (emitting ops c) x = Inr None" for ops x
    by (rule no_block_params [OF p])
  show ?thesis
  proof (cases "ws = []")
    case True
    then show ?thesis using assms
      by (simp add: handlebars_compiler_accept_path_def handlebars_compiler_add_depth_def Let_def
          path_ops_def idx emits_defs handlebars_operand_set_longval_def)
  next
    case False
    then have u: "\<not> handlebars_ast_helper_scoped_id (path_of ws b)"
      using assms(2) by (cases b) (simp_all add: unscoped_iff)
    obtain w ws' where ws: "ws = w # ws'" using False by (cases ws) auto
    have parts: "id_parts n = Inr (map copied ws)" by (rule id_parts_path [OF False assms(3)])
    show ?thesis
      using assms(1,4) u parts ws
      by (simp add: handlebars_compiler_accept_path_def handlebars_compiler_add_depth_def Let_def path_ops_def idx
          emits_defs handlebars_operand_set_longval_def handlebars_operand_set_arrayval_string_def o_def
          handlebars_operand_set_boolval_def)
  qed
qed

lemma accept_path_node:
  assumes "clean st c" "length st < 64" "ws \<noteq> [] \<longrightarrow> unscoped ws"
  shows "handlebars_compiler_accept H (Suc k) (path_node ws) c = Inr (emitting (path_ops False ws) c)"
    and "handlebars_compiler_accept H (Suc k) (mark_path False (path_node ws)) c = Inr (emitting (path_ops True ws) c)"
proof -
  note p = path_node_emits [OF clean_push [OF assms(1), of no_loc] assms(3)]
  show "handlebars_compiler_accept H (Suc k) (path_node ws) c = Inr (emitting (path_ops False ws) c)"
    using p [of "path_node ws" False H] by (intro accept_emits [OF assms(1,2)]) (simp_all add: accept_switch_def)
  show "handlebars_compiler_accept H (Suc k) (mark_path False (path_node ws)) c = Inr (emitting (path_ops True ws) c)"
    using p [of "mark_path False (path_node ws)" True H]
    by (intro accept_emits [OF assms(1,2)]) (simp_all add: accept_switch_def)
qed

section \<open>Calls\<close>

lemma simple_id_path: "handlebars_ast_helper_simple_id (path_of ws b) \<longleftrightarrow> length ws = 1 \<and> \<not> handlebars_ast_helper_scoped_id (path_of ws b)"
  by (auto simp: handlebars_ast_helper_simple_id_def path_of_def)

lemma known_helper_eq:
  assumes "clean st c"
  shows "handlebars_compiler_is_known_helper c n = handlebars_compiler_is_known_helper handlebars_compiler_ctor n"
proof -
  have "known_helpers c = known_helpers handlebars_compiler_ctor"
    using assms by (simp add: clean_def handlebars_compiler_ctor_def)
  then show ?thesis by (simp only: handlebars_compiler_is_known_helper_def)
qed

lemma classify_var:
  assumes "clean st c" "handlebars_ast_node_get_path n = Some (path_node ws)" "\<not> handlebars_ast_helper_helper_expression n"
    and "ws \<noteq> [] \<longrightarrow> unscoped ws" "length ws = 1 \<longrightarrow> \<not> handlebars_compiler_is_known_helper handlebars_compiler_ctor (path_node ws)"
  shows "handlebars_compiler_classify_sexpr H c n = Inr (if length ws = 1 then SEXPR_AMBIG else SEXPR_SIMPLE)"
proof -
  have "plain c" using assms(1) by (simp add: clean_def)
  note [simp] = no_block_params [OF this] known_helper_eq [OF assms(1)] clean_flag [OF assms(1)]
  show ?thesis
    using assms(2-5)
    by (cases "length ws = 1")
      (auto simp: handlebars_compiler_classify_sexpr_def Let_def simple_id_path unscoped_iff length_Suc_conv)
qed

lemma transform_path:
  "handlebars_ast_node_get_path n = Some (path_node ws) \<Longrightarrow> handlebars_compiler_transform_literal_to_path n = Inr n"
  by (simp add: handlebars_compiler_transform_literal_to_path_def is_literal_type_def)

lemma accept_sexpr_var:
  assumes "clean (no_loc # st) c" "length st < 63" "handlebars_ast_node_get_path n = Some (path_node ws)"
    and "\<not> handlebars_ast_helper_helper_expression n" "ws \<noteq> [] \<longrightarrow> unscoped ws"
    and "length ws = 1 \<longrightarrow> \<not> handlebars_compiler_is_known_helper handlebars_compiler_ctor (path_node ws)"
  shows "handlebars_compiler_accept_sexpr H (handlebars_compiler_accept H (Suc k)) n c = Inr (emitting (var_ops ws) c)"
proof -
  note cls = classify_var [OF assms(1,3-6), of H]
  have path: "handlebars_compiler_accept H (Suc k) (mark_path False (path_node ws)) (emitting ops c) = Inr (emitting (path_ops True ws) (emitting ops c))" for ops
    using assms(1,2,5) by (intro accept_path_node [of "no_loc # st"]) simp_all
  show ?thesis
  proof (cases "length ws = 1")
    case True
    then obtain w where ws: "ws = [w]" by (auto simp: length_Suc_conv)
    show ?thesis
      using assms(1) path [of "[get_context_op, push_program_op None, push_program_op None]"]
      by (simp add: handlebars_compiler_accept_sexpr_def transform_path [OF assms(3)] cls ws assms(3)
          handlebars_compiler_accept_sexpr_ambiguous_def push_program_pair_def emits_defs handlebars_operand_set_longval_def
          push_program_op_def var_ops_def clean_flag [OF assms(1)] handlebars_operand_set_stringval_def
          handlebars_operand_set_boolval_def)
  next
    case False
    then show ?thesis
      using assms(1) path [of "[]"]
      by (simp add: handlebars_compiler_accept_sexpr_def transform_path [OF assms(3)] cls assms(3)
          handlebars_compiler_accept_sexpr_simple_def emits_defs var_ops_def)
  qed
qed

lemma accept_mustache_node:
  assumes "clean st c" "length st < 63" "names_ok (Var raw ws)"
  shows "handlebars_compiler_accept H (Suc (Suc k)) (tpl_node (Var raw ws)) c = Inr (emitting (tpl_ops g (Var raw ws)) c)"
proof -
  let ?c = "c\<lparr>sns := Some (no_loc # st)\<rparr>" and ?n = "tpl_node (Var raw ws)"
  have c: "clean (no_loc # st) ?c" by (rule clean_push [OF assms(1)])
  have "handlebars_compiler_accept_sexpr H (handlebars_compiler_accept H (Suc k)) ?n ?c = Inr (emitting (var_ops ws) ?c)"
    using assms(2,3)
    by (intro accept_sexpr_var [OF c])
      (simp_all add: handlebars_ast_node_get_path_def handlebars_ast_helper_helper_expression_def
        handlebars_ast_node_get_hash_def handlebars_ast_node_get_params_def)
  then show ?thesis
    using c assms(2)
    by (intro accept_emits [OF assms(1)])
      (simp_all add: accept_switch_def handlebars_compiler_accept_mustache_def clean_flag append_op_def emits_defs)
qed

lemma accept_content_node:
  assumes "clean st c" "length st < 64"
  shows "handlebars_compiler_accept H (Suc k) (tpl_node (Text t)) c = Inr (emitting (tpl_ops g (Text t)) c)"
  using clean_push [OF assms(1), of no_loc]
  by (intro accept_emits [OF assms])
    (simp_all add: handlebars_ast_node_ctor_content_def with_loc_def accept_switch_def
      handlebars_compiler_accept_content_def hbs_str_len_def emits_defs handlebars_operand_set_stringval_def
      handlebars_string_copy_ctor_def)

section \<open>Programs\<close>

text \<open>\<open>c'\<close> has the opcodes and the children \<open>ks\<close> in addition.\<close>

definition adds :: "handlebars_locinfo list \<Rightarrow> compiler \<Rightarrow> opcode list \<Rightarrow> tpl list list \<Rightarrow> compiler \<Rightarrow> bool" where
  "adds st c ops ks c' \<longleftrightarrow> clean st c' \<and> bps c' = bps c \<and> copcodes c' = copcodes c @ ops \<and> cguid c' = cguid c + length ks \<and>
     (\<exists>kids. cchildren c' = cchildren c @ kids \<and> list_all2 codes ks kids)"

lemma adds_trans: "adds st c xs ks d \<Longrightarrow> adds st d ys ls e \<Longrightarrow> adds st c (xs @ ys) (ks @ ls) e"
  by (auto simp: adds_def intro!: list_all2_appendI)

lemma adds_emitting: "adds st c xs ks d \<Longrightarrow> adds st c (xs @ ys) ks (emitting ys d)"
  by (simp add: adds_def)

lemma adds_nothing: "clean st c \<Longrightarrow> adds st c [] [] c"
  by (simp add: adds_def)

definition compiles :: "(string \<Rightarrow> u32) \<Rightarrow> nat \<Rightarrow> handlebars_locinfo list \<Rightarrow> tpl \<Rightarrow> bool" where
  "compiles H k st x \<longleftrightarrow> (\<forall>c. clean st c \<longrightarrow>
     (\<exists>c'. handlebars_compiler_accept H k (tpl_node x) c = Inr c' \<and> adds st c (tpl_ops (cguid c) x) (subs x) c'))"

lemma accept_statements:
  assumes "\<forall>x \<in> set ps. compiles H k st x" "clean st c"
  shows "\<exists>c'. efold (handlebars_compiler_accept H k) (map tpl_node ps) c = Inr c' \<and>
     adds st c (seq_ops (cguid c) ps) (concat (map subs ps)) c'"
  using assms
proof (induction ps arbitrary: c)
  case (Cons x ps)
  obtain d where d: "handlebars_compiler_accept H k (tpl_node x) c = Inr d" "adds st c (tpl_ops (cguid c) x) (subs x) d"
    using Cons.prems by (auto simp: compiles_def)
  then have "clean st d" "cguid d = cguid c + length (subs x)" by (simp_all add: adds_def)
  with Cons obtain e where "efold (handlebars_compiler_accept H k) (map tpl_node ps) d = Inr e"
      "adds st d (seq_ops (cguid c + length (subs x)) ps) (concat (map subs ps)) e"
    by (metis list.set_intros(2))
  with d show ?case by (auto intro: adds_trans)
qed (simp add: adds_nothing)

lemma leave_program_adds:
  assumes "adds (l # st) c1 ops ks c2" "clean st c" "c1 = c\<lparr>sns := Some (l # st), bps := Some (p # bs)\<rparr>" "bps c = Some bs"
  shows "adds st c ops ks ((leave_program q c2)\<lparr>sns := Some st\<rparr>)"
  using assms by (auto simp: adds_def leave_program_def add_result_def Let_def clean_def plain_def)

lemma accept_program_node:
  assumes "\<forall>x \<in> set ps. compiles H k (no_loc # st) x" "clean st c" "length st < 64"
  shows "\<exists>c'. handlebars_compiler_accept H (Suc k) (program_node (map tpl_node ps)) c = Inr c' \<and>
     adds st c (seq_ops (cguid c) ps) (concat (map subs ps)) c'"
proof -
  obtain bs where bs: "bps c = Some bs" "length bs \<le> length st" "sns c = Some st" using assms(2) by (auto simp: clean_def)
  let ?c = "c\<lparr>sns := Some (no_loc # st), bps := Some ((None, None) # bs)\<rparr>"
  have "clean (no_loc # st) ?c" using assms(2) bs by (auto simp: clean_def plain_def)
  from accept_statements [OF assms(1) this] obtain c2 where
    c2: "efold (handlebars_compiler_accept H k) (map tpl_node ps) ?c = Inr c2"
      "adds (no_loc # st) ?c (seq_ops (cguid c) ps) (concat (map subs ps)) c2" by auto
  have sns2: "sns (leave_program q c2) = Some (no_loc # st)" for q
    using c2(2) by (simp add: adds_def clean_def leave_program_def add_result_def Let_def)
  from leave_program_adds [OF c2(2) assms(2) refl bs(1)] c2(1) sns2 bs assms(3) show ?thesis
    by (simp add: accept_step program_node_def accept_switch_def handlebars_compiler_accept_program_def
        program_statements_def HANDLEBARS_COMPILER_STACK_SIZE_def)
qed

lemma compile_program_node:
  assumes "\<forall>x \<in> set ps. compiles H k (no_loc # st) x" "clean st c" "length st < 64"
  shows "\<exists>c'. handlebars_compiler_compile_program (handlebars_compiler_accept H (Suc k)) (Some (program_node (map tpl_node ps))) c =
     Inr (int (cguid c), c') \<and> adds st c [] [ps] c'"
proof -
  let ?d = "begin_compile (subcompiler_of c)"
  have fl: "cflags c = 0" using assms(2) by (simp add: clean_def plain_def)
  have "clean st ?d"
    using assms(2) by (auto simp: clean_def plain_def begin_compile_def subcompiler_of_def
        handlebars_compiler_set_flags_def handlebars_compiler_ctor_def handlebars_compiler_get_flags_def)
  moreover have bps: "bps ?d = bps c" using assms(2) by (auto simp: clean_def begin_compile_def)
  ultimately obtain d where
    d: "handlebars_compiler_accept H (Suc k) (program_node (map tpl_node ps)) ?d = Inr d"
      "adds st ?d (seq_ops 0 ps) (concat (map subs ps)) d"
    using accept_program_node [OF assms(1) _ assms(3)] by fastforce
  have "codes ps (handlebars_compiler_get_program (d\<lparr>cprogflags := cflags d\<rparr>))"
    using d(2) by (auto simp: adds_def handlebars_compiler_get_program_def clean_def plain_def intro!: codes.intros)
  then have "adds st c [] [ps] (append_child d c)"
    using d(2) assms(2) bps by (auto simp: adds_def append_child_def clean_def plain_def)
  with d(1) show ?thesis
    by (simp add: handlebars_compiler_compile_program_def program_node_def)
qed

section \<open>Blocks\<close>

lemma block_helper_known: "handlebars_compiler_is_known_helper handlebars_compiler_ctor (path_node [kind_name k])"
  by (simp add: handlebars_compiler_is_known_helper_def path_of_def node_part_def str_defs builtin_kind)

abbreviation guid_of :: "nat option \<Rightarrow> int" where
  "guid_of g \<equiv> (case g of None \<Rightarrow> - 1 | Some n \<Rightarrow> int n)"

lemma push_program_pair_emitting:
  "clean (no_loc # st) c \<Longrightarrow>
     push_program_pair (int g) (guid_of h) c = emitting [push_program_op (Some g), push_program_op h] c"
  by (auto simp: push_program_pair_def emits_defs push_program_op_def handlebars_operand_set_longval_def split: option.split)

definition block_node :: "block_kind \<Rightarrow> string list \<Rightarrow> node option \<Rightarrow> node option \<Rightarrow> node" where
  "block_node k ws p q = ast_node 0 no_loc (NODE_BLOCK (ast_block (Some (path_node [kind_name k])) (Some [path_node ws]) None
     p q 0 0 0 False))"

lemma accept_call_emits:
  assumes "clean (no_loc # st) c" "length st < 63" "ws \<noteq> [] \<longrightarrow> unscoped ws"
    and "n = block_node k ws p q"
  shows "accept_block_call H (handlebars_compiler_accept H (Suc f)) n (int g) (guid_of h) l c =
     Inr (emitting (path_ops False ws @ [push_program_op (Some g), push_program_op h, op0 handlebars_opcode_type_empty_hash,
       opcode_with handlebars_opcode_type_invoke_known_helper (operand_long 1)
        (operand_string (handlebars_string_ctor (kind_name k))) (operand_null False) (operand_null False),
       append_op True]) c)"
proof -
  have n: "handlebars_ast_node_get_path n = Some (path_node [kind_name k])" "handlebars_ast_node_get_params n = Some [path_node ws]"
      "handlebars_ast_node_get_hash n = None" "handlebars_ast_helper_helper_expression n"
    by (simp_all add: assms(4) block_node_def handlebars_ast_node_get_path_def handlebars_ast_node_get_params_def
        handlebars_ast_node_get_hash_def handlebars_ast_helper_helper_expression_def)
  have "plain c" using assms(1) by (simp add: clean_def)
  then have cls: "handlebars_compiler_classify_sexpr H c n = Inr SEXPR_HELPER"
    by (auto simp: handlebars_compiler_classify_sexpr_def Let_def n no_block_params)
  have param: "handlebars_compiler_accept H (Suc f) (path_node ws) c = Inr (emitting (path_ops False ws) c)"
    using assms by (intro accept_path_node [of "no_loc # st"]) simp_all
  have known: "handlebars_compiler_is_known_helper (emitting ops c) (path_node [kind_name k])" for ops
    using known_helper_eq [of "no_loc # st" "emitting ops c"] assms(1) by (simp add: block_helper_known)
  show ?thesis
    using assms(1) param
    by (simp add: accept_block_call_def cls handlebars_compiler_accept_sexpr_helper_def n known
        handlebars_compiler_setup_full_mustache_params_def handlebars_compiler_push_params_def
        handlebars_compiler_push_param_def clean_flag [OF assms(1)] push_program_pair_emitting emits_defs ast_list_count_def
        handlebars_operand_set_longval_def handlebars_operand_set_stringval_def append_op_def)
qed

definition compiles_list :: "(string \<Rightarrow> u32) \<Rightarrow> nat \<Rightarrow> handlebars_locinfo list \<Rightarrow> tpl list \<Rightarrow> bool" where
  "compiles_list H k st ps \<longleftrightarrow> (\<forall>x \<in> set ps. compiles H k st x)"

lemma compile_inverse:
  assumes "case qs of None \<Rightarrow> True | Some q \<Rightarrow> compiles_list H f (no_loc # st) q" "clean st c" "length st < 64"
  shows "\<exists>c'. handlebars_compiler_compile_program (handlebars_compiler_accept H (Suc f))
       (map_option program_node (map_option (map tpl_node) qs)) c =
     Inr (guid_of (if qs = None then None else Some (cguid c)), c') \<and>
     adds st c [] (case qs of None \<Rightarrow> [] | Some q \<Rightarrow> [q]) c'"
proof (cases qs)
  case None
  then show ?thesis using assms by (simp add: handlebars_compiler_compile_program_def adds_nothing)
next
  case (Some q)
  then show ?thesis using assms compile_program_node [of q H f st c] by (auto simp: compiles_list_def)
qed

lemma block_compiles:
  assumes "compiles_list H f (no_loc # no_loc # st) ps"
    and "case qs of None \<Rightarrow> True | Some q \<Rightarrow> compiles_list H f (no_loc # no_loc # st) q"
    and "length st < 63" "ws \<noteq> [] \<longrightarrow> unscoped ws"
  shows "compiles H (Suc (Suc f)) st (Block k ws ps qs)"
  unfolding compiles_def
proof (intro allI impI)
  fix c assume c: "clean st c"
  let ?c = "c\<lparr>sns := Some (no_loc # st)\<rparr>" and ?acc = "handlebars_compiler_accept H (Suc f)"
    and ?n = "tpl_node (Block k ws ps qs)" and ?st = "no_loc # st"
  have node: "?n = block_node k ws (Some (program_node (map tpl_node ps))) (map_option program_node (map_option (map tpl_node) qs))"
    by (simp add: block_node_def)
  have len: "length ?st < 64" using assms(3) by simp
  obtain c1 where c1: "handlebars_compiler_compile_program ?acc (Some (program_node (map tpl_node ps))) ?c = Inr (int (cguid c), c1)"
      "adds ?st ?c [] [ps] c1"
    using compile_program_node [OF _ clean_push [OF c] len, of ps H f] assms(1) by (auto simp: compiles_list_def)
  then have "clean ?st c1" "cguid c1 = Suc (cguid c)" by (simp_all add: adds_def)
  then obtain c2 where c2: "handlebars_compiler_compile_program ?acc (map_option program_node (map_option (map tpl_node) qs)) c1 =
        Inr (guid_of (if qs = None then None else Some (Suc (cguid c))), c2)"
      "adds ?st c1 [] (case qs of None \<Rightarrow> [] | Some q \<Rightarrow> [q]) c2"
    using compile_inverse [OF assms(2) _ len, of c1] by auto
  have add: "adds ?st ?c [] (subs (Block k ws ps qs)) c2" using adds_trans [OF c1(2) c2(2)] by simp
  then have "clean ?st c2" by (simp add: adds_def)
  note call = accept_call_emits [OF this assms(3,4) node, of H f "cguid c" "if qs = None then None else Some (Suc (cguid c))"
      "compiled_program H c2 (Some (program_node (map tpl_node ps)))"]
  let ?d = "emitting (tpl_ops (cguid c) (Block k ws ps qs)) c2"
  have "transform": "handlebars_compiler_transform_literal_to_path ?n = Inr ?n"
    by (rule transform_path) (simp add: handlebars_ast_node_get_path_def)
  have "accept_switch H ?acc ?n ?c = Inr ?d"
    using c1(1) c2(1) call "transform"
    by (simp add: accept_switch_def handlebars_compiler_accept_block_def block_ops_def)
  moreover have "adds st c (tpl_ops (cguid c) (Block k ws ps qs)) (subs (Block k ws ps qs)) (?d\<lparr>sns := Some st\<rparr>)"
    using adds_emitting [OF add, of "tpl_ops (cguid c) (Block k ws ps qs)"] c by (auto simp: adds_def clean_def plain_def)
  ultimately show "\<exists>c'. handlebars_compiler_accept H (Suc (Suc f)) ?n c = Inr c' \<and>
      adds st c (tpl_ops (cguid c) (Block k ws ps qs)) (subs (Block k ws ps qs)) c'"
    using c add assms(3) by (auto simp: clean_def accept_step adds_def)
qed

lemma leaf_compiles:
  "length st < 64 \<Longrightarrow> compiles H (Suc f) st (Text t)"
  "length st < 63 \<Longrightarrow> names_ok (Var raw ws) \<Longrightarrow> compiles H (Suc (Suc f)) st (Var raw ws)"
  unfolding compiles_def
  using accept_content_node accept_mustache_node adds_emitting [OF adds_nothing] by (metis append_Nil subs.simps(2,3))+

lemma height_member: "x \<in> set xs \<Longrightarrow> (f x :: nat) \<le> foldr max (map f xs) 0"
  by (induction xs) auto

lemma tpl_compiles: "names_ok x \<Longrightarrow> length st + height x \<le> 64 \<Longrightarrow> height x \<le> k \<Longrightarrow> compiles H k st x"
proof (induction x arbitrary: st k)
  case (Text t)
  then show ?case by (cases k) (auto intro: leaf_compiles)
next
  case (Var raw ws)
  then obtain f where "k = Suc (Suc f)" by (cases k; cases "k - 1") auto
  with Var show ?case by (auto intro!: leaf_compiles simp del: names_ok.simps)
next
  case (Block b ws ps qs)
  then obtain f where f: "k = Suc (Suc f)" by (cases k; cases "k - 1") auto
  have "compiles_list H f (no_loc # no_loc # st) ps"
    unfolding compiles_list_def
  proof
    fix x assume x: "x \<in> set ps"
    show "compiles H f (no_loc # no_loc # st) x"
      using Block.prems x height_member [OF x, of height] f by (intro Block.IH(1)) (auto simp: list_all_iff)
  qed
  moreover have "case qs of None \<Rightarrow> True | Some q \<Rightarrow> compiles_list H f (no_loc # no_loc # st) q"
  proof (cases qs)
    case (Some q)
    have "compiles H f (no_loc # no_loc # st) x" if x: "x \<in> set q" for x
      using Block.prems x height_member [OF x, of height] f Some
      by (intro Block.IH(2) [of q]) (auto simp: list_all_iff)
    then show ?thesis by (simp add: Some compiles_list_def)
  qed simp
  ultimately show ?case
    using Block.prems f by (auto intro!: block_compiles)
qed

definition template :: "tpl list \<Rightarrow> node" where
  "template ps = program_node (map tpl_node ps)"

lemma template_compiles:
  assumes "list_all names_ok ps" "list_height ps \<le> 63"
  shows "\<exists>p. handlebars_compiler_compile_ex H (handlebars_compiler_set_flags handlebars_compiler_ctor 0) (template ps) = Inr p \<and> codes ps p"
proof -
  let ?c = "begin_compile (handlebars_compiler_set_flags handlebars_compiler_ctor 0)"
  have c: "clean [] ?c" and e: "cguid (handlebars_compiler_set_flags handlebars_compiler_ctor 0) = 0"
      "copcodes (handlebars_compiler_set_flags handlebars_compiler_ctor 0) = []"
      "cchildren (handlebars_compiler_set_flags handlebars_compiler_ctor 0) = []"
    by (auto simp: clean_def plain_def begin_compile_def handlebars_compiler_set_flags_def handlebars_compiler_ctor_def)
  have "compiles H HANDLEBARS_COMPILER_STACK_SIZE [no_loc] x" if x: "x \<in> set ps" for x
    using assms x height_member [OF x, of height]
    by (intro tpl_compiles) (auto simp: list_all_iff list_height_def HANDLEBARS_COMPILER_STACK_SIZE_def)
  then have "\<forall>x \<in> set ps. compiles H HANDLEBARS_COMPILER_STACK_SIZE [no_loc] x" by blast
  from accept_program_node [OF this c] obtain d where
    d: "handlebars_compiler_accept H ACCEPT_FUEL (template ps) ?c = Inr d" "adds [] ?c (seq_ops 0 ps) (concat (map subs ps)) d"
    by (auto simp: template_def ACCEPT_FUEL_def e)
  have env: "cprogflags d = 0"
    using handlebars_compiler_accept_emits [OF d(1)]
    by (simp add: emits_def same_env_def begin_compile_def handlebars_compiler_set_flags_def handlebars_compiler_ctor_def)
  have "codes ps (handlebars_compiler_get_program (d\<lparr>bps := None, sns := None\<rparr>))"
    using d(2) env by (auto simp: adds_def e handlebars_compiler_get_program_def intro!: codes.intros)
  with d(1) show ?thesis
    by (simp add: handlebars_compiler_compile_ex_def handlebars_compiler_compile_def)
qed

end
