(* ===== verification/VmRender.thy ===== *)
theory VmRender
  imports VmBuiltins TemplateCompile
begin

text \<open>
  A block as a piece of a template, and the induction over templates: the opcodes of a template, in a module, do to
  an idle machine what \<open>render\<close> says.
\<close>

declare vm_runs.simps [simp del]

section \<open>The call of a block helper\<close>

text \<open>\<open>unless\<close> calls \<open>if\<close>, one level deeper.\<close>

abbreviation executes_both :: "env \<Rightarrow> nat \<Rightarrow> nat \<Rightarrow> handlebars_module \<Rightarrow> nat \<Rightarrow> nat \<Rightarrow> u64 \<Rightarrow> meaning \<Rightarrow> bool" where
  "executes_both E N a m d k num f \<equiv> executes E N a m d (vm_runs E k) num f \<and> executes E N a m d (vm_runs E (Suc k)) num f"

lemma block_helps:
  assumes idle: "idle N a m (Suc d) s" and opts: "block_options s p q opts"
    and runs: "executes_both E N a m d k p body" "executes_both E N a m d k q els"
    and tx: "block_text E N b v body els (vbusy s) (context_of s) = Some tx"
  shows "helps (builtin_helper E (vm_runs E (Suc k)) (kind_index b)) [v] opts s tx"
proof -
  have v: "\<not> handlebars_value_is_callable v" using tx by (simp add: block_text_def split: if_splits)
  note r = runs [THEN conjunct2] and r' = runs [THEN conjunct1]
  show ?thesis
  proof (cases b)
    case B_if
    then show ?thesis using if_helps [OF idle opts v r] tx v by (simp add: helps_def builtin_helper_def builtins_def block_text_def split: if_splits)
  next
    case B_unless
    then show ?thesis using unless_helps [OF idle opts _ r', of "vm_runs E (Suc k)" v tx] tx v
      by (simp add: helps_def builtin_helper_def builtins_def block_text_def split: if_splits)
  next
    case B_with
    then show ?thesis using with_helps [OF idle opts v r] tx v by (simp add: helps_def builtin_helper_def builtins_def block_text_def split: if_splits)
  next
    case B_each
    then show ?thesis using each_helps [OF idle opts v r] tx by (simp add: helps_def builtin_helper_def builtins_def)
  qed
qed

abbreviation invoke_op :: "block_kind \<Rightarrow> opcode" where
  "invoke_op b \<equiv> opcode_with handlebars_opcode_type_invoke_known_helper (operand_long 1)
     (operand_string (handlebars_string_ctor (kind_name b))) (operand_null False) (operand_null False)"

text \<open>The arguments are popped, the helper is found and its result is pushed.\<close>

lemma setup_one:
  assumes "vstack s = pushed st [v, x, y, h]" "spare 5 st" "kv (vcontext s) \<noteq> []"
  shows "sbind (setup_options (Suc 0)) f s = f ([v], \<lparr>opt_inverse = handlebars_value_get_intval y, opt_program = handlebars_value_get_intval x,
     opt_name = None, opt_scope = Some (context_of s), opt_data = Some (vdata s), opt_hash = Some h\<rparr>) (s\<lparr>vstack := st\<rparr>)"
  using assms by (simp add: setup_options_def sbind_assoc bind_basic stack_steps TOP_def top_last deref_def program_number_def)

lemma run_invoke:
  assumes st: "vstack s = pushed st [v, x, y, handlebars_value 0 (V_MAP h [])]" "spare 8 st" and u: "u = s\<lparr>vstack := st\<rparr>"
    and idle: "idle N a m (Suc d) u"
    and runs: "executes_both E N a m d k (handlebars_value_get_intval x) body" "executes_both E N a m d k (handlebars_value_get_intval y) els"
    and tx: "block_text E N b v body els (vbusy u) (context_of u) = Some tx"
  shows "\<exists>res t. dispatch E (vm_runs E (Suc (Suc k))) (loaded kids (invoke_op b)) s =
      (Inr (), t\<lparr>vstack := pushed st [string_value res]\<rparr>) \<and> rendered [] u t \<and> sval res = tx"
proof -
  let ?opts = "\<lparr>opt_inverse = handlebars_value_get_intval y, opt_program = handlebars_value_get_intval x,
     opt_name = Some (handlebars_string_ctor (kind_name b)), opt_scope = Some (context_of s), opt_data = Some (vdata s),
     opt_hash = Some (handlebars_value 0 (V_MAP h []))\<rparr>"
  have opts: "block_options u (handlebars_value_get_intval x) (handlebars_value_get_intval y) ?opts"
    by (simp add: block_options_def u)
  from block_helps [OF idle opts runs tx] obtain res t where
    t: "builtin_helper E (vm_runs E (Suc k)) (kind_index b) [v] ?opts u = (Inr (Some (string_value res)), t)" "rendered [] u t" "sval res = tx"
    by (auto simp: helps_def)
  obtain hh where hh: "vbody (vhelpers u) = V_MAP hh []" using idle by (auto simp: idle_def)
  have call: "handlebars_value_call E (vm_runs E (Suc k)) (handlebars_value 0 (V_HELPER (Builtin (kind_index b)))) [v] ?opts u =
      (Inr (string_value res), t)"
    using t(1) by (simp add: handlebars_value_call_def bind_run run_basic)
  have look: "lookup_helper E (handlebars_string_ctor (kind_name b)) u = (Inr (Some (handlebars_value 0 (V_HELPER (Builtin (kind_index b))))), u)"
    using no_helper [OF hh] by (simp add: builtin_kind handlebars_value_helper_def set_body_def)
  have t': "vstack t = st" "spare (Suc 0) (vstack t)" using rendered_same(4) [OF t(2)] st(2) by (auto simp: u spare_def)
  have "spare 5 st" "kv (vcontext s) \<noteq> []" using idle spare_less [OF st(2), of 5] by (simp_all add: u idle_def)
  note args = setup_one [OF st(1) this]
  have "dispatch E (vm_runs E (Suc (Suc k))) (loaded kids (invoke_op b)) s = PUSH main_stack (string_value res) t"
    using call look
    by (simp add: args dispatch_def loaded_plain Let_def accept_invoke_known_helper_def op_string_def op_argc_def op_long_def bind_basic
        sbind_assoc u bind_run [where m = "lookup_helper _ _"] bind_run [where m = "handlebars_value_call _ _ _ _ _"])
  also have "\<dots> = (Inr (), t\<lparr>vstack := pushed st [string_value res]\<rparr>)" using t' run_PUSH [OF t'(2)] by simp
  finally show ?thesis using t(2,3) by blast
qed

section \<open>Blocks as pieces\<close>

lemma integer_back [simp]: "handlebars_value_get_intval (integer_value n) = n"
  by (simp add: integer_value_def handlebars_value_integer_def set_body_def handlebars_value_get_intval_def)

lemma run_push_child:
  assumes "spare (Suc 0) (vstack s)" "g < 2 ^ 63"
  shows "dispatch E R (loaded kids (push_program_op (Some g))) s =
     (Inr (), s\<lparr>vstack := pushed (vstack s) [integer_value (of_nat (kids ! g))]\<rparr>)"
proof -
  have "sint (of_nat g :: u64) = int g" using assms(2) by (simp add: signed_of_nat signed_take_bit_int_eq_self)
  then have "op1 (loaded kids (push_program_op (Some g))) = operand_long (of_nat (kids ! g))"
    by (simp add: loaded_def push_program_op_def globalise_def opcode_value_def handlebars_opcode_ctor_def Let_def)
  then show ?thesis using assms(1) by (simp add: dispatch_def push_program_op_def accept_push_program_def run_PUSH)
qed

lemma run_empty_hash:
  "spare (Suc 0) (vstack s) \<Longrightarrow> dispatch E R (loaded kids (op0 handlebars_opcode_type_empty_hash)) s =
     (Inr (), s\<lparr>vnext := Suc (vnext s), vstack := pushed (vstack s) [handlebars_value 0 (V_MAP (vnext s) [])]\<rparr>)"
  by (simp add: dispatch_def accept_empty_hash_def new_map_def sbind_assoc bind_fresh bind_basic run_PUSH set_body_def)

definition else_number :: "nat list \<Rightarrow> nat \<Rightarrow> bool \<Rightarrow> u64" where
  "else_number kids g has_else = (if has_else then of_nat (kids ! (g + 1)) else - 1)"

lemma spare_up: "spare 8 st \<Longrightarrow> length vs \<le> 7 \<Longrightarrow> spare (Suc 0) (pushed st vs)"
  by (simp add: spare_def pushed_def)

lemma block_args:
  assumes idle: "idle N a m (Suc d) s" and g: "g + 1 < 2 ^ 63"
  shows "steps E k (map (loaded kids) (block_ops g b ws has_else)) s = steps E k (map (loaded kids) [invoke_op b, append_op True])
     (s\<lparr>vlast_context := Some (context_of s), vnext := Suc (vnext s), vstack := pushed (vstack s)
       [find_path E (context_of s) ws, integer_value (of_nat (kids ! g)), integer_value (else_number kids g has_else),
        handlebars_value 0 (V_MAP (vnext s) [])]\<rparr>)"
proof -
  let ?v = "find_path E (context_of s) ws" and ?x = "integer_value (of_nat (kids ! g))" and ?y = "integer_value (else_number kids g has_else)"
  let ?s = "\<lambda>vs. s\<lparr>vlast_context := Some (context_of s), vstack := pushed (vstack s) vs\<rparr>"
  let ?last = "map (loaded kids) [invoke_op b, append_op True]" and ?hash = "loaded kids (op0 handlebars_opcode_type_empty_hash)"
  let ?q = "push_program_op (if has_else then Some (g + 1) else None)"
  have sp: "spare (Suc 0) (vstack (?s vs))" if "length vs \<le> 7" for vs using idle spare_up that by (simp add: idle_def)
  have inverse: "dispatch E R (loaded kids ?q) (?s [?v, ?x]) = (Inr (), ?s [?v, ?x, ?y])" for R
    using run_push_none [OF sp [of "[?v, ?x]"], of E R kids] run_push_child [OF sp [of "[?v, ?x]"] g, of E R kids] by (simp add: else_number_def)
  have "steps E k (map (loaded kids) (block_ops g b ws has_else)) s =
      steps E k (loaded kids (push_program_op (Some g)) # loaded kids ?q # ?hash # ?last) (?s [?v])"
    using run_path [OF idle_can_look [OF idle], of E k kids False ws "loaded kids (push_program_op (Some g)) # loaded kids ?q # ?hash # ?last"]
    by (simp add: block_ops_def del: steps.simps)
  also have "\<dots> = steps E k (loaded kids ?q # ?hash # ?last) (?s [?v, ?x])"
    using run_push_child [OF sp [of "[?v]"], of g E _ kids] g by (intro steps_Cons) simp_all
  also have "\<dots> = steps E k (?hash # ?last) (?s [?v, ?x, ?y])"
    using inverse by (intro steps_Cons) (simp_all del: loaded_type, simp)
  also have "\<dots> = steps E k ?last ((?s [?v, ?x, ?y])\<lparr>vnext := Suc (vnext s), vstack := pushed (vstack s)
      [?v, ?x, ?y, handlebars_value 0 (V_MAP (vnext s) [])]\<rparr>)"
    using run_empty_hash [OF sp [of "[?v, ?x, ?y]"], of E _ kids] by (intro steps_Cons) simp_all
  finally show ?thesis by simp
qed

lemma rendered_write:
  assumes "rendered [] s t" "str_ok buf" "sval buf = sval (vbuffer t) @ tx"
  shows "rendered tx s (t\<lparr>vstack := vstack s, vbuffer := buf\<rparr>)"
proof -
  obtain b lc lh nx where t: "t = s\<lparr>vbuffer := b, vlast_context := Some lc, vlast_helper := lh, vnext := nx\<rparr>" "vnext s \<le> nx"
      "sval b = sval (vbuffer s)"
    using assms(1) by (auto simp: rendered_def)
  show ?thesis by (rule renderedI [where buf = buf and lc = lc and lh = lh and nx = nx]) (use t assms(2,3) in simp_all)
qed

lemma rendered_from:
  assumes "rendered tx (s\<lparr>vlast_context := lc0, vnext := n\<rparr>) t" "vnext s \<le> n"
  shows "rendered tx s t"
proof -
  obtain b lc lh nx where t: "t = s\<lparr>vlast_context := lc0, vnext := n, vbuffer := b, vlast_context := Some lc, vlast_helper := lh, vnext := nx\<rparr>"
      "n \<le> nx" "str_ok b" "sval b = sval (vbuffer s) @ tx"
    using assms(1) by (auto simp: rendered_def)
  show ?thesis by (rule renderedI [where buf = b and lc = lc and lh = lh and nx = nx]) (use t assms(2) in simp_all)
qed

lemma string_text [simp]: "value_text G False (string_value res) = sval res"
  by (simp add: string_value_def handlebars_value_str_def set_body_def)

definition else_meaning :: "env \<Rightarrow> nat \<Rightarrow> tpl list option \<Rightarrow> meaning" where
  "else_meaning E N qs = (case map_option (map (render E N)) qs of None \<Rightarrow> (\<lambda>_ _. Some []) | Some fs \<Rightarrow> seq fs)"

lemma block_runs:
  assumes g: "g + 1 < 2 ^ 63"
    and runs: "executes_both E N a m d k (of_nat (kids ! g)) (seq (map (render E N) ps))"
      "executes_both E N a m d k (else_number kids g (qs \<noteq> None)) (else_meaning E N qs)"
  shows "piece_runs E N a m kids k (Suc d) g (Block b ws ps qs)"
  unfolding piece_runs_def
proof (intro allI impI)
  fix s tx assume idle: "idle N a m (Suc d) s" and tx: "render E N (Block b ws ps qs) (vbusy s) (context_of s) = Some tx"
  let ?v = "find_path E (context_of s) ws"
  let ?u = "s\<lparr>vlast_context := Some (context_of s), vnext := Suc (vnext s)\<rparr>"
  let ?x = "integer_value (of_nat (kids ! g))" and ?y = "integer_value (else_number kids g (qs \<noteq> None))"
  let ?s = "?u\<lparr>vstack := pushed (vstack s) [?v, ?x, ?y, handlebars_value 0 (V_MAP (vnext s) [])]\<rparr>"
  have idle': "idle N a m (Suc d) ?u" using idle by (simp add: idle_def)
  have sp: "spare 8 (vstack s)" using idle by (simp add: idle_def)
  have "block_text E N b ?v (seq (map (render E N) ps)) (else_meaning E N qs) (vbusy ?u) (context_of ?u) = Some tx"
    using tx by (simp add: else_meaning_def)
  from run_invoke [where kids = kids and k = k and u = ?u and s = ?s and h = "vnext s" and x = ?x and y = ?y, OF _ sp _ idle' _ _ this] runs
  obtain res t where t: "dispatch E (vm_runs E (Suc (Suc k))) (loaded kids (invoke_op b)) ?s =
      (Inr (), t\<lparr>vstack := pushed (vstack s) [string_value res]\<rparr>)" "rendered [] ?u t" "sval res = tx"
    by auto
  let ?t = "t\<lparr>vstack := pushed (vstack s) [string_value res]\<rparr>"
  have mods: "vmods ?t = vmods ?s" and ok: "str_ok (vbuffer ?t)" using t(2) rendered_same(1) [OF t(2)] by (auto simp: rendered_def)
  obtain buf where buf: "dispatch E (vm_runs E (Suc k)) (loaded kids (append_op True)) ?t =
      (Inr (), ?t\<lparr>vstack := vstack s, vbuffer := buf\<rparr>)" "str_ok buf" "sval buf = sval (vbuffer ?t) @ sval res"
    using run_append [OF _ spare_less [OF sp] ok, of "string_value res" E _ kids True] by auto
  have "steps E k (map (loaded kids) (tpl_ops g (Block b ws ps qs))) s = steps E k (map (loaded kids) [invoke_op b, append_op True]) ?s"
    using block_args [OF idle g, of E k kids b ws "qs \<noteq> None"] by simp
  also have "\<dots> = steps E k (map (loaded kids) [append_op True]) ?t"
    using t(1) mods by (simp del: append_type)
  also have "\<dots> = (Inr (), t\<lparr>vstack := vstack s, vbuffer := buf\<rparr>)"
    using buf(1) by simp
  finally have run: "steps E k (map (loaded kids) (tpl_ops g (Block b ws ps qs))) s = (Inr (), t\<lparr>vstack := vstack s, vbuffer := buf\<rparr>)" .
  have "rendered tx ?u (t\<lparr>vstack := vstack ?u, vbuffer := buf\<rparr>)"
    by (rule rendered_write [OF t(2) buf(2)]) (use buf(3) t(3) in simp)
  from rendered_from [OF this] run
  show "\<exists>t. steps E k (map (loaded kids) (tpl_ops g (Block b ws ps qs))) s = (Inr (), t) \<and> rendered tx s t" by auto
qed

end
