(* ===== verification/VmProof.thy ===== *)
theory VmProof
  imports VmRender
begin

text \<open>
  The induction over templates: a program of a module, made from templates, renders them. The fuel and the number of
  nested contexts that are enough are functions of the template.
\<close>

declare vm_runs.simps [simp del]

section \<open>Fuel\<close>

text \<open>One level per opcode, of which a template has at most eight, and one for the program.\<close>

primrec tpl_fuel :: "tpl \<Rightarrow> nat" where
  "tpl_fuel (Text t) = 0"
| "tpl_fuel (Var raw ws) = 0"
| "tpl_fuel (Block b ws ps qs) = Suc (max (8 * length ps + foldr max (map tpl_fuel ps) 0)
     (case map_option (map tpl_fuel) qs of None \<Rightarrow> 0 | Some ns \<Rightarrow> 8 * length ns + foldr max ns 0))"

definition list_fuel :: "tpl list \<Rightarrow> nat" where
  "list_fuel ps = Suc (8 * length ps + foldr max (map tpl_fuel ps) 0)"

primrec programs :: "tpl \<Rightarrow> nat" where
  "programs (Text t) = 0"
| "programs (Var raw ws) = 0"
| "programs (Block b ws ps qs) = Suc (sum_list (map programs ps) +
     (case map_option (map programs) qs of None \<Rightarrow> 0 | Some ns \<Rightarrow> Suc (sum_list ns)))"

definition list_programs :: "tpl list \<Rightarrow> nat" where
  "list_programs ps = sum_list (map programs ps)"

lemma ops_length: "length (tpl_ops g x) \<le> 8"
  by (cases x) (simp_all add: var_ops_def block_ops_def path_ops_def)

lemma seq_ops_length: "length (seq_ops g xs) \<le> 8 * length xs"
proof (induction xs arbitrary: g)
  case (Cons x xs)
  from Cons.IH [of "g + length (subs x)"] ops_length [of g x] show ?case by simp
qed simp

lemma subs_programs: "length (subs x) \<le> programs x"
  by (cases x rule: subs.cases) (auto split: option.split)

lemma all_subs_programs: "length (concat (map subs xs)) \<le> list_programs xs"
  unfolding list_programs_def by (induction xs) (simp_all add: add_mono subs_programs)

lemma member_programs: "x \<in> set xs \<Longrightarrow> programs x \<le> list_programs xs"
  unfolding list_programs_def by (simp add: member_le_sum_list)

lemma fuel_member: "x \<in> set xs \<Longrightarrow> tpl_fuel x \<le> foldr max (map tpl_fuel xs) 0"
  by (induction xs) auto

section \<open>Sequences\<close>

fun pieces :: "env \<Rightarrow> nat \<Rightarrow> nat \<Rightarrow> handlebars_module \<Rightarrow> nat list \<Rightarrow> nat \<Rightarrow> nat \<Rightarrow> nat \<Rightarrow> tpl list \<Rightarrow> bool" where
  "pieces E N a m kids k d g [] \<longleftrightarrow> True"
| "pieces E N a m kids k d g (x # xs) \<longleftrightarrow>
     (\<forall>j \<ge> k. piece_runs E N a m kids j d g x) \<and> pieces E N a m kids k d (g + length (subs x)) xs"

lemma seq_runs:
  assumes "pieces E N a m kids k d g xs" "idle N a m d s" "seq (map (render E N) xs) (vbusy s) (context_of s) = Some tx"
  shows "\<exists>t. steps E k (map (loaded kids) (seq_ops g xs)) s = (Inr (), t) \<and> rendered tx s t"
  using assms
proof (induction xs arbitrary: g s tx)
  case Nil
  then show ?case using rendered_refl by (auto simp: seq_def)
next
  case (Cons x xs)
  let ?rest = "map (loaded kids) (seq_ops (g + length (subs x)) xs)"
  obtain t1 t2 where tx: "render E N x (vbusy s) (context_of s) = Some t1" "tx = t1 @ t2"
      "seq (map (render E N) xs) (vbusy s) (context_of s) = Some t2"
    using Cons.prems(3) by (auto simp: seq_def all_texts_Cons simp del: all_texts.simps)
  have "piece_runs E N a m kids (k + length ?rest) d g x" using Cons.prems(1) by simp
  then obtain u where u: "steps E (k + length ?rest) (map (loaded kids) (tpl_ops g x)) s = (Inr (), u)" "rendered t1 s u"
    using Cons.prems(2) tx(1) unfolding piece_runs_def by blast
  have "pieces E N a m kids k d (g + length (subs x)) xs" using Cons.prems(1) by simp
  from Cons.IH [OF this rendered_idle [OF u(2) Cons.prems(2)], of t2] tx(3) obtain t where
    t: "steps E k ?rest u = (Inr (), t)" "rendered t2 u t" by (auto simp: rendered_same [OF u(2)])
  have "steps E k (map (loaded kids) (seq_ops g (x # xs))) s = (Inr (), t)"
    using u(1) t(1) by (simp add: steps_append)
  with rendered_trans [OF u(2) t(2)] tx(2) show ?case by blast
qed

section \<open>Programs of a module\<close>

text \<open>The table entry \<open>i\<close> of the module is the program of the templates.\<close>

definition stored :: "handlebars_module \<Rightarrow> nat \<Rightarrow> nat \<Rightarrow> tpl list \<Rightarrow> bool" where
  "stored m a i ps \<longleftrightarrow> (\<exists>p t. codes ps p \<and> root t = i \<and> represents (int a) m t p)"

definition full_module :: "handlebars_module \<Rightarrow> bool" where
  "full_module m \<longleftrightarrow> mprogram_count m = length (mprograms m) \<and> length (mprograms m) < 2 ^ 63 \<and> mopcode_count m = length (mopcodes m)"

lemma stored_entry:
  assumes "stored m a i ps"
  shows "\<exists>kids. entry_represents (int a) m i kids (seq_ops 0 ps) \<and> list_all2 (stored m a) kids (concat (map subs ps))"
proof -
  obtain p t where p: "codes ps p" "root t = i" "represents (int a) m t p" using assms by (auto simp: stored_def)
  from p(1) obtain g rf bp decs ks where
    code: "p = handlebars_program g 0 rf bp (seq_ops 0 ps) ks decs" "list_all2 codes (concat (map subs ps)) ks"
    by (auto elim: codesE)
  obtain ts where t: "t = INode i ts" using p(2) by (cases t) auto
  have rep: "entry_represents (int a) m i (map root ts) (seq_ops 0 ps)" "length ts = length ks"
      "\<forall>(t, k) \<in> set (zip ts ks). represents (int a) m t k"
    using p(3) unfolding code t by auto
  have "list_all2 (stored m a) (map root ts) (concat (map subs ps))"
  proof (rule list_all2_all_nthI)
    show "length (map root ts) = length (concat (map subs ps))" using rep(2) list_all2_lengthD [OF code(2)] by simp
    fix n assume "n < length (map root ts)"
    then have n: "n < length ks" "(ts ! n, ks ! n) \<in> set (zip ts ks)" using rep(2) by (auto simp: in_set_zip)
    then have "codes (concat (map subs ps) ! n) (ks ! n)" "represents (int a) m (ts ! n) (ks ! n)"
      using list_all2_nthD2 [OF code(2) n(1)] rep(3) by auto
    with n(1) rep(2) show "stored m a (map root ts ! n) (concat (map subs ps) ! n)" by (auto simp: stored_def)
  qed
  with rep(1) show ?thesis by blast
qed

lemma loaded_return: "globalise [] (opcode_value (handlebars_opcode_ctor handlebars_opcode_type_return)) = return_opcode"
  by (simp add: return_opcode_def globalise_def opcode_value_def)

lemma entry_runs:
  assumes entry: "entry_represents (int a) m i kids (seq_ops 0 ps)" and full: "full_module m"
    and k: "pieces E N a m kids k d 0 ps"
  shows "program_runs E N a m d (vm_runs E (Suc (k + length (seq_ops 0 ps)))) i (seq (map (render E N) ps))"
  unfolding program_runs_def
proof (intro allI impI)
  fix s tx assume idle: "idle N a m d s" and tx: "seq (map (render E N) ps) (vbusy s) (context_of s) = Some tx"
  let ?ops = "map (loaded kids) (seq_ops 0 ps)" and ?off = "entry_opcode_offset (mprograms m ! i)"
  have entry': "?off + length ?ops < length (mopcodes m)"
      "j < length ?ops \<Longrightarrow> read_opcode (int a) m (mopcodes m ! (?off + j)) = Some (globalise kids (opcode_value (seq_ops 0 ps ! j)))"
      "read_opcode (int a) m (mopcodes m ! (?off + length ?ops)) = Some (globalise [] (opcode_value (handlebars_opcode_ctor handlebars_opcode_type_return)))" for j
    using entry full unfolding loaded_return by (simp_all add: entry_represents_def full_module_def Let_def)
  obtain t where t: "steps E k ?ops s = (Inr (), t)" "rendered tx s t" using seq_runs [OF k idle tx] by blast
  have mods: "vmods u a = Some m" if "vmods u = vmods s" for u using that idle by (simp add: idle_def)
  have "raccept (vm_runs E (Suc (k + length ?ops))) a ?off s = (Inr (), t)"
  proof (rule steps_accept [OF t(1)])
    show "fetch a (?off + j) u = (Inr (?ops ! j), u)" if "j < length ?ops" "vmods u = vmods s" for j u
      using fetch_loaded [OF mods [OF that(2)] entry'(2) [OF that(1)]] that(1) entry'(1) by simp
    show "\<exists>opc. fetch a (?off + length ?ops) u = (Inr opc, u) \<and> otype opc = handlebars_opcode_type_return"
      if "vmods u = vmods s" for u
      using fetch_loaded [OF mods [OF that] entry'(3) entry'(1)] by auto
  qed
  with t(2) show "\<exists>t. raccept (vm_runs E (Suc (k + length (seq_ops 0 ps)))) a ?off s = (Inr (), t) \<and> rendered tx s t" by auto
qed

section \<open>The induction\<close>

text \<open>What holds of a template whose blocks are stored in the module from the number \<open>g\<close> of its program on.\<close>

definition tpl_runs :: "env \<Rightarrow> nat \<Rightarrow> nat \<Rightarrow> handlebars_module \<Rightarrow> tpl \<Rightarrow> bool" where
  "tpl_runs E N a m x \<longleftrightarrow>
     (names_ok x \<longrightarrow> programs x < 2 ^ 62 \<longrightarrow>
      (\<forall>kids k d g. tpl_fuel x \<le> k \<longrightarrow> height x \<le> d \<longrightarrow> g + length (subs x) \<le> 2 ^ 62 \<longrightarrow>
         (\<forall>j < length (subs x). stored m a (kids ! (g + j)) (subs x ! j)) \<longrightarrow> piece_runs E N a m kids k d g x))"

lemma pieces_run:
  assumes "\<forall>x \<in> set xs. tpl_runs E N a m x \<and> names_ok x \<and> programs x < 2 ^ 62 \<and> tpl_fuel x \<le> k \<and> height x \<le> d"
    and "g + length (concat (map subs xs)) \<le> 2 ^ 62"
    and "\<forall>j < length (concat (map subs xs)). stored m a (kids ! (g + j)) (concat (map subs xs) ! j)"
  shows "pieces E N a m kids k d g xs"
  using assms
proof (induction xs arbitrary: g)
  case (Cons x xs)
  have "stored m a (kids ! (g + j)) (subs x ! j)" if "j < length (subs x)" for j
    using Cons.prems(3) that by (auto simp: nth_append dest: spec [of _ j])
  then have "piece_runs E N a m kids j d g x" if "k \<le> j" for j
    using Cons.prems(1,2) that unfolding tpl_runs_def by simp
  moreover have "pieces E N a m kids k d (g + length (subs x)) xs"
  proof (rule Cons.IH)
    show "\<forall>j < length (concat (map subs xs)). stored m a (kids ! (g + length (subs x) + j)) (concat (map subs xs) ! j)"
    proof (intro allI impI)
      fix j assume "j < length (concat (map subs xs))"
      then show "stored m a (kids ! (g + length (subs x) + j)) (concat (map subs xs) ! j)"
        using Cons.prems(3) [rule_format, of "length (subs x) + j"] by (simp add: nth_append add.assoc)
    qed
  qed (use Cons.prems in auto)
  ultimately show ?case by simp
qed simp

lemma templates_run:
  assumes stored: "stored m a i ps" and full: "full_module m"
    and ps: "\<forall>x \<in> set ps. tpl_runs E N a m x \<and> names_ok x \<and> height x \<le> d" and small: "list_programs ps < 2 ^ 62"
    and K: "list_fuel ps \<le> K"
  shows "program_runs E N a m d (vm_runs E K) i (seq (map (render E N) ps)) \<and> i < length (mprograms m)"
proof -
  obtain kids where kids: "entry_represents (int a) m i kids (seq_ops 0 ps)" "list_all2 (stored m a) kids (concat (map subs ps))"
    using stored_entry [OF stored] by blast
  define k where "k = K - 1 - length (seq_ops 0 ps)"
  have k: "K = Suc (k + length (seq_ops 0 ps))" "foldr max (map tpl_fuel ps) 0 \<le> k"
    using K seq_ops_length [of 0 ps] by (simp_all add: k_def list_fuel_def)
  have "pieces E N a m kids k d 0 ps"
  proof (rule pieces_run)
    show "\<forall>x \<in> set ps. tpl_runs E N a m x \<and> names_ok x \<and> programs x < 2 ^ 62 \<and> tpl_fuel x \<le> k \<and> height x \<le> d"
      using ps small k(2) member_programs fuel_member by (meson le_trans le_less_trans)
    show "0 + length (concat (map subs ps)) \<le> 2 ^ 62" using all_subs_programs [of ps] small by simp
    show "\<forall>j < length (concat (map subs ps)). stored m a (kids ! (0 + j)) (concat (map subs ps) ! j)"
      using list_all2_nthD2 [OF kids(2)] by simp
  qed
  from entry_runs [OF kids(1) full this] show ?thesis
    using full kids(1) by (simp add: full_module_def k(1) entry_represents_def Let_def)
qed

lemma program_of_templates:
  assumes "stored m a i ps" "full_module m" "\<forall>x \<in> set ps. tpl_runs E N a m x \<and> names_ok x \<and> height x \<le> d"
    and "list_programs ps < 2 ^ 62" "list_fuel ps \<le> K"
  shows "executes E N a m d (vm_runs E K) (of_nat i) (seq (map (render E N) ps))"
  using templates_run [OF assms] assms(2) by (intro program_executes) (simp_all add: full_module_def)

lemma tpl_runs_all:
  assumes full: "full_module m"
  shows "tpl_runs E N a m x"
proof (induction x)
  case (Text t)
  then show ?case by (simp add: tpl_runs_def text_runs)
next
  case (Var raw ws)
  then show ?case using value_runs by (auto simp: tpl_runs_def simp del: names_ok.simps)
next
  case (Block b ws ps qs)
  show ?case
    unfolding tpl_runs_def
  proof (intro impI allI)
    fix kids k d g
    assume ok: "names_ok (Block b ws ps qs)" and small: "programs (Block b ws ps qs) < 2 ^ 62"
      and k: "tpl_fuel (Block b ws ps qs) \<le> k" and d: "height (Block b ws ps qs) \<le> d"
      and g: "g + length (subs (Block b ws ps qs)) \<le> 2 ^ 62"
      and kids: "\<forall>j < length (subs (Block b ws ps qs)). stored m a (kids ! (g + j)) (subs (Block b ws ps qs) ! j)"
    obtain d' where d': "d = Suc d'" using d by (cases d) auto
    have body: "executes E N a m d' (vm_runs E K) (of_nat (kids ! g)) (seq (map (render E N) ps))" if "k \<le> K" for K
    proof (rule program_of_templates [OF _ full])
      show "stored m a (kids ! g) ps" using kids by force
      show "\<forall>x \<in> set ps. tpl_runs E N a m x \<and> names_ok x \<and> height x \<le> d'"
        using Block.IH(1) ok d d' height_member [of _ ps height] by (fastforce simp: list_all_iff)
      show "list_programs ps < 2 ^ 62" using small by (simp add: list_programs_def)
      show "list_fuel ps \<le> K" using k that by (simp add: list_fuel_def)
    qed
    have els: "executes E N a m d' (vm_runs E K) (else_number kids g (qs \<noteq> None)) (else_meaning E N qs)" if K: "k \<le> K" for K
    proof (cases qs)
      case None
      then show ?thesis using no_program_executes by (simp add: else_number_def else_meaning_def)
    next
      case (Some q)
      have "executes E N a m d' (vm_runs E K) (of_nat (kids ! (g + 1))) (seq (map (render E N) q))"
      proof (rule program_of_templates [OF _ full])
        show "stored m a (kids ! (g + 1)) q" using kids Some by force
        show "\<forall>x \<in> set q. tpl_runs E N a m x \<and> names_ok x \<and> height x \<le> d'"
          using Block.IH(2) Some ok d d' height_member [of _ q height] by (fastforce simp: list_all_iff)
        show "list_programs q < 2 ^ 62" using small Some by (simp add: list_programs_def)
        show "list_fuel q \<le> K" using k K Some by (simp add: list_fuel_def)
      qed
      then show ?thesis using Some by (simp add: else_number_def else_meaning_def)
    qed
    have "g + 1 < 2 ^ 63" using g by simp
    from block_runs [OF this, of E N a m d' k kids ps qs b ws] body els
    show "piece_runs E N a m kids k d g (Block b ws ps qs)" by (simp add: d')
  qed
qed

lemma stored_runs:
  assumes "stored m a i ps" "full_module m" "list_all names_ok ps" "list_height ps \<le> d" "list_programs ps < 2 ^ 62" "list_fuel ps \<le> K"
  shows "program_runs E N a m d (vm_runs E K) i (seq (map (render E N) ps))" "i < length (mprograms m)"
proof -
  have "\<forall>x \<in> set ps. tpl_runs E N a m x \<and> names_ok x \<and> height x \<le> d"
    using assms(2-4) tpl_runs_all height_member [of _ ps height] by (fastforce simp: list_all_iff list_height_def)
  from templates_run [OF assms(1,2) this assms(5,6)]
  show "program_runs E N a m d (vm_runs E K) i (seq (map (render E N) ps))" "i < length (mprograms m)" by simp_all
qed

section \<open>The whole module\<close>

lemma subs_total: "sum_list (map (\<lambda>q. Suc (list_programs q)) (subs x)) = programs x"
  by (cases x rule: subs.cases) (simp_all add: list_programs_def split: option.split)

lemma all_subs_total: "sum_list (map (\<lambda>q. Suc (list_programs q)) (concat (map subs ps))) = list_programs ps"
  by (induction ps) (simp_all add: list_programs_def subs_total [unfolded list_programs_def])

lemma codes_total: "codes ps p \<Longrightarrow> program_total p = Suc (list_programs ps)"
proof (induction rule: codes.induct)
  case (1 ps kids g rf bp decs)
  have "map program_total kids = map (\<lambda>q. Suc (list_programs q)) (concat (map subs ps))"
    using 1 by (induction rule: list_all2_induct) auto
  then show ?case by (simp only: program_total.simps all_subs_total plus_1_eq_Suc)
qed

lemma total_small: "program_total p \<le> 2 ^ 62 \<Longrightarrow> small_program p"
proof (induction p rule: small_program.induct)
  case (1 g fl rf bp opcs kids decs)
  have "length kids \<le> sum_list (map program_total kids)"
  proof (induction kids)
    case (Cons k kids)
    then show ?case using program_total_pos [of k] by simp
  qed simp
  moreover have "program_total k \<le> sum_list (map program_total kids)" if "k \<in> set kids" for k
    using that by (simp add: member_le_sum_list)
  ultimately show ?case using 1 by fastforce
qed

lemma compiled_stored:
  assumes "list_all names_ok ps" "list_height ps \<le> 63" "list_programs ps < 2 ^ 62"
  shows "\<exists>p m. handlebars_compiler_compile_ex (eH E) (handlebars_compiler_set_flags handlebars_compiler_ctor 0) (template ps) = Inr p \<and>
     handlebars_program_serialize (eH E) v ts (int a) p = Inr m \<and> stored m a 0 ps \<and> full_module m \<and> mflags m = 0"
proof -
  obtain p where p: "handlebars_compiler_compile_ex (eH E) (handlebars_compiler_set_flags handlebars_compiler_ctor 0) (template ps) = Inr p" "codes ps p"
    using template_compiles [OF assms(1,2)] by blast
  have total: "program_total p \<le> 2 ^ 62" using codes_total [OF p(2)] assms(3) by simp
  have wf: "wf_program p" by (rule refs_program_wf [OF compile_ex_refs [OF p(1)] total_small [OF total]])
  have "flags p = 0" using p(2) by (auto elim: codesE)
  with program_serialize_ok [OF wf, of "eH E" v ts "int a"] total p show ?thesis
    by (fastforce simp: stored_def full_module_def module_ok_def)
qed

end
