(* ===== verification/VmTop.thy ===== *)
theory VmTop
  imports VmProof
begin

text \<open>
  The outermost execution: a machine at rest gets its stacks, runs the first program of a module and gives the text
  back.
\<close>

declare vm_runs.simps [simp del]

section \<open>A machine at rest\<close>

text \<open>Outside an execution, without flags and without helpers of the embedding program.\<close>

definition rested :: "nat \<Rightarrow> vm \<Rightarrow> bool" where
  "rested N s \<longleftrightarrow>
     \<not> vready s \<and> vmflags s = 0 \<and> (\<exists>h. vbody (vhelpers s) = V_MAP h []) \<and> vbusy s = {} \<and> N \<le> vnext s \<and>
     (\<forall>b kvs. vbody (vdata s) = V_MAP b kvs \<longrightarrow> N \<le> b)"

text \<open>What an execution leaves alone.\<close>

definition same_machine :: "vm \<Rightarrow> vm \<Rightarrow> bool" where
  "same_machine s t \<longleftrightarrow> vmods t = vmods s \<and> vmodule t = vmodule s \<and> vmflags t = vmflags s \<and> vready t = vready s \<and>
     vbuffer t = vbuffer s \<and> vdata t = vdata s \<and> vhelpers t = vhelpers s \<and> vpartials t = vpartials s \<and> vbusy t = vbusy s \<and>
     vjmp t = vjmp s \<and> verror t = verror s \<and> vdepth t = vdepth s"

definition started :: "nat \<Rightarrow> vm \<Rightarrow> vm" where
  "started a s = (alloc_stacks s)\<lparr>vjmp := True, vmodule := Some a,
     vlast_context := Some (case vlast_context s of None \<Rightarrow> null_value | Some v \<Rightarrow> v)\<rparr>"

lemma started_run: "vmods s a = Some m \<Longrightarrow> can_run a m (started a s)"
  by (simp add: can_run_def started_def alloc_stacks_def Let_def spare_def handlebars_stack_init_def HANDLEBARS_VM_STACK_SIZE_def)

lemma started_idle:
  assumes "rested N s" "vmods s a = Some m"
  shows "idle N a m 63 (inner_state E c None None (started a s))"
    "context_of (inner_state E c None None (started a s)) = c" "vbusy (inner_state E c None None (started a s)) = {}"
  using assms
  by (auto simp: rested_def idle_def inner_state_def started_def alloc_stacks_def saved_state_def Let_def spare_def pushed_def
      handlebars_stack_init_def handlebars_stack_save_def handlebars_stack_protect_def handlebars_stack_count_def
      HANDLEBARS_VM_STACK_SIZE_def)

lemma execute_module:
  assumes rest: "rested N s" and m: "vmods s a = Some m" "mflags m = 0" "full_module m" "0 < length (mprograms m)"
    and runs: "program_runs E N a m 63 (vm_runs E K) 0 f" and tx: "f {} c = Some tx"
  shows "\<exists>res t. vm_execute E K a c s = (Inr (Some res), t) \<and> sval res = tx \<and> same_machine s t"
proof -
  let ?s = "started a s"
  obtain t where t: "raccept (vm_runs E K) a (entry_opcode_offset (mprograms m ! 0)) (inner_state E c None None ?s) = (Inr (), t)"
      "rendered tx (inner_state E c None None ?s) t"
    using runs started_idle [OF rest m(1), of E c] tx unfolding program_runs_def by metis
  have full: "mprogram_count m = length (mprograms m)" "length (mprograms m) < 2 ^ 63" using m(3) by (simp_all add: full_module_def)
  from execute_run [where accept = "raccept (vm_runs E K)", OF started_run [OF m(1)] m(4) full t]
  obtain res lc lh nx where run: "handlebars_vm_execute_program_ex E (raccept (vm_runs E K)) 0 c None None ?s =
      (Inr res, ?s\<lparr>vlast_context := Some lc, vlast_helper := lh, vnext := nx\<rparr>)" "sval res = tx"
    by auto
  let ?last = "?s\<lparr>vlast_context := Some lc, vlast_helper := lh, vnext := nx\<rparr>"
  have "execute_body E (raccept (vm_runs E K)) a c 0 None None (s\<lparr>vjmp := True\<rparr>) =
      sbind (handlebars_vm_execute_program_ex E (raccept (vm_runs E K)) 0 c None None) (\<lambda>b. ret (Some b)) ?s"
    using rest m(1,2) by (cases "vlast_context s"; cases s)
      (simp_all add: execute_body_def bind_basic module_at_def deref_def sbind_assoc rested_def started_def alloc_stacks_def Let_def)
  also have "\<dots> = (Inr (Some res), ?last)"
    using run(1) by (simp add: sbind_def run_basic)
  finally have body: "execute_body E (raccept (vm_runs E K)) a c 0 None None (s\<lparr>vjmp := True\<rparr>) = (Inr (Some res), ?last)" .
  have jmp: "s\<lparr>vjmp := True\<rparr> = s" if "vjmp s" using that by (cases s) simp
  have "vm_execute E K a c s = sbind (\<lambda>_. (Inr (Some res), ?last)) (\<lambda>b. sbind (put (execute_reset s)) (\<lambda>_. ret b)) s"
    using body jmp
    by (cases "vjmp s") (simp_all add: vm_execute_def handlebars_vm_accept_def handlebars_vm_execute_def handlebars_vm_execute_ex_def
        bind_basic Let_def sbind_def catch_def run_basic)
  also have "\<dots> = (Inr (Some res), execute_reset s ?last)"
    by (simp add: sbind_def run_basic)
  finally have "vm_execute E K a c s = (Inr (Some res), execute_reset s ?last)" .
  moreover have "same_machine s (execute_reset s ?last)"
    using rest by (simp add: same_machine_def execute_reset_def started_def alloc_stacks_def Let_def rested_def)
  ultimately show ?thesis using run(2) by auto
qed

end
