(* ===== verification/CacheMmap.thy ===== *)
theory CacheMmap
  imports CacheSimple StateError
begin

text \<open>
  The cache in shared memory (src/handlebars_cache_mmap.c): one block that several processes map at the same address,
  with a header, a hash table without probing and a data segment that only grows until it is reset.

  The header is a record. \<open>sh_slots\<close> are the pointers in the table segment (0 is NULL); \<open>sh_mem\<close> maps the offset of
  an object in the data segment to its size and the object; a write destroys what it overlaps. \<open>sh_writable\<close> is the
  page protection of the two segments: writing into protected pages is a failed access. Nothing else runs during an
  operation here; what other processes can do in between is the subject of \<open>CacheRace\<close>.

  Sizes are \<open>size_t\<close> values as \<open>nat\<close>; the constructor computes them modulo 2^64. \<open>now\<close>, \<open>handlebars_version()\<close>, the
  address that \<open>mmap\<close> returns and the page size are arguments, and the calls of the thread library succeed.
\<close>

section \<open>The block\<close>

datatype shobj =
    Sh_key hstr
  | Sh_module handlebars_module
  | Sh_entry int int

record shm =
  sh_base :: int
  sh_size :: nat
  sh_intern_size :: nat
  sh_version :: int
  sh_table :: int
  sh_table_size :: nat
  sh_table_count :: u32
  sh_table_entries :: u32
  sh_data :: int
  sh_data_size :: nat
  sh_data_length :: nat
  sh_hits :: u64
  sh_misses :: u64
  sh_collisions :: u64
  sh_in_reset :: bool
  sh_locked :: bool
  sh_refcount :: int
  sh_slots :: "int list"
  sh_mem :: "nat \<Rightarrow> (nat \<times> shobj) option"
  sh_writable :: bool

type_synonym 'a shop = "(shm, 'a) sm"

definition PADDING :: nat where "PADDING = 1"
definition SIZEOF_CACHE_MMAP :: nat where "SIZEOF_CACHE_MMAP = 144"
definition SIZEOF_TABLE_ENTRY :: nat where "SIZEOF_TABLE_ENTRY = 16"

section \<open>Memory\<close>

definition sh_offset :: "shm \<Rightarrow> int \<Rightarrow> nat option" where
  "sh_offset s a = (if sh_data s \<le> a then Some (nat (a - sh_data s)) else None)"

definition sh_object :: "shm \<Rightarrow> int \<Rightarrow> shobj option" where
  "sh_object s a = (case sh_offset s a of None \<Rightarrow> None | Some i \<Rightarrow> map_option snd (sh_mem s i))"

definition read_key :: "int \<Rightarrow> hstr shop" where
  "read_key a = sbind (gets (\<lambda>s. sh_object s a)) (\<lambda>x. case x of Some (Sh_key k) \<Rightarrow> ret k | _ \<Rightarrow> raise Mem_error)"

definition read_module :: "int \<Rightarrow> handlebars_module shop" where
  "read_module a = sbind (gets (\<lambda>s. sh_object s a)) (\<lambda>x. case x of Some (Sh_module m) \<Rightarrow> ret m | _ \<Rightarrow> raise Mem_error)"

definition read_entry :: "int \<Rightarrow> (int \<times> int) shop" where
  "read_entry a = sbind (gets (\<lambda>s. sh_object s a)) (\<lambda>x. case x of Some (Sh_entry k d) \<Rightarrow> ret (k, d) | _ \<Rightarrow> raise Mem_error)"

definition overwrite :: "nat \<Rightarrow> nat \<Rightarrow> shobj \<Rightarrow> (nat \<Rightarrow> (nat \<times> shobj) option) \<Rightarrow> nat \<Rightarrow> (nat \<times> shobj) option" where
  "overwrite off sz obj mem i =
     (if i = off then Some (sz, obj)
      else
        (case mem i of
           None \<Rightarrow> None
         | Some (n, x) \<Rightarrow> if i + n \<le> off \<or> off + sz \<le> i then Some (n, x) else None))"

text \<open>A write into the data segment: the pages are writable and inside the block.\<close>

definition store :: "nat \<Rightarrow> nat \<Rightarrow> shobj \<Rightarrow> unit shop" where
  "store off sz obj =
     sbind (gets id) (\<lambda>s.
       if \<not> sh_writable s \<or> sh_data s + int (off + sz) > sh_base s + int (sh_size s) then raise Mem_error
       else put (\<lambda>s. s\<lparr>sh_mem := overwrite off sz obj (sh_mem s)\<rparr>))"

text \<open>\<open>append\<close>: the address of the copy, or NULL.\<close>

definition mmap_append :: "shobj \<Rightarrow> nat \<Rightarrow> int option shop" where
  "mmap_append obj sz =
     sbind (gets id) (\<lambda>s.
       let aligned_size = align_size (sz + PADDING);
           addr = sh_data s + int (sh_data_length s)
       in
         sbind (need (addr mod int POINTER_SIZE = 0)) (\<lambda>_.
         if sh_data_length s + aligned_size \<ge> sh_data_size s then ret None
         else
           sbind (put (\<lambda>s. s\<lparr>sh_data_length := sh_data_length s + aligned_size\<rparr>)) (\<lambda>_.
           sbind (store (sh_data_length s) aligned_size obj) (\<lambda>_.
             ret (Some addr)))))"

definition protect :: "bool \<Rightarrow> unit shop" where
  "protect on =
     sbind (gets id) (\<lambda>s.
       if sh_table s + int (sh_table_size s + sh_data_size s) > sh_base s + int (sh_size s)
       then raise (Throw HANDLEBARS_ERROR ''mprotect error: %s (%d)'')
       else put (\<lambda>s. s\<lparr>sh_writable := \<not> on\<rparr>))"

text \<open>Waiting for a lock that nobody releases does not end.\<close>

definition lock :: "unit shop" where
  "lock = sbind (gets sh_locked) (\<lambda>l. if l then raise Out_of_fuel else put (\<lambda>s. s\<lparr>sh_locked := True\<rparr>))"

definition unlock :: "unit shop" where
  "unlock = put (\<lambda>s. s\<lparr>sh_locked := False\<rparr>)"

section \<open>The table\<close>

text \<open>The slot of a key. A table without slots is a division by zero.\<close>

definition table_offset :: "(string \<Rightarrow> u32) \<Rightarrow> hstr \<Rightarrow> nat shop" where
  "table_offset H key =
     sbind (gets sh_table_count) (\<lambda>n. if n = 0 then raise Mem_error else ret (unat (hash_of H key mod n)))"

definition table_find :: "(string \<Rightarrow> u32) \<Rightarrow> hstr \<Rightarrow> int shop" where
  "table_find H key =
     sbind (table_offset H key) (\<lambda>i.
     sbind (gets sh_slots) (\<lambda>slots. if i < length slots then ret (slots ! i) else raise Mem_error))"

definition write_slot :: "nat \<Rightarrow> int \<Rightarrow> unit shop" where
  "write_slot i a =
     sbind (gets id) (\<lambda>s.
       if \<not> sh_writable s \<or> length (sh_slots s) \<le> i then raise Mem_error
       else put (\<lambda>s. s\<lparr>sh_slots := (sh_slots s)[i := a]\<rparr>))"

text \<open>The entry itself is copied into the data segment. If there is no room for it, the slot stays empty.\<close>

definition table_set :: "(string \<Rightarrow> u32) \<Rightarrow> int \<times> int \<Rightarrow> unit shop" where
  "table_set H entry =
     sbind (read_key (fst entry)) (\<lambda>k.
     sbind (table_offset H k) (\<lambda>i.
     sbind (mmap_append (Sh_entry (fst entry) (snd entry)) SIZEOF_TABLE_ENTRY) (\<lambda>a.
       write_slot i (case a of None \<Rightarrow> 0 | Some x \<Rightarrow> x))))"

definition table_unset :: "(string \<Rightarrow> u32) \<Rightarrow> hstr \<Rightarrow> unit shop" where
  "table_unset H key = sbind (table_offset H key) (\<lambda>i. write_slot i 0)"

section \<open>Operations\<close>

text \<open>
  \<open>handlebars_string_eq\<close> with a key in the segment: the hash of a string is computed when it is needed and written into
  the string, which is a failed access in protected pages.
\<close>

definition key_matches :: "(string \<Rightarrow> u32) \<Rightarrow> hstr \<Rightarrow> int \<Rightarrow> bool shop" where
  "key_matches H key a =
     sbind (read_key a) (\<lambda>key'.
       if length (sval key) \<noteq> length (sval key') then ret False
       else
         sbind (gets sh_writable) (\<lambda>w. if shash key' = 0 \<and> \<not> w then raise Mem_error else ret (handlebars_string_eq H key key')))"

text \<open>The part of a reset behind the wait, under the lock.\<close>

definition wipe_table :: "unit shop" where
  "wipe_table =
     sbind (put (\<lambda>s. s\<lparr>sh_table_entries := 0, sh_data_length := 0\<rparr>)) (\<lambda>_.
     sbind (gets sh_writable) (\<lambda>w. sbind (if w then ret () else raise Mem_error) (\<lambda>_.
       put (\<lambda>s. s\<lparr>sh_slots := map (\<lambda>_. 0) (sh_slots s)\<rparr>))))"

definition reset_wipe :: "unit shop" where
  "reset_wipe =
     sbind lock (\<lambda>_. sbind (protect False) (\<lambda>_. sbind wipe_table (\<lambda>_. sbind (protect True) (\<lambda>_. unlock))))"

text \<open>The count is read again up to 101 times; when nothing else runs, the first reading decides.\<close>

definition mmap_reset :: "unit shop" where
  "mmap_reset =
     sbind (put (\<lambda>s. s\<lparr>sh_in_reset := True\<rparr>)) (\<lambda>_.
     sbind (gets sh_refcount) (\<lambda>n.
     sbind (if n > 0 then ret () else reset_wipe) (\<lambda>_.
       put (\<lambda>s. s\<lparr>sh_in_reset := False\<rparr>))))"

definition mmap_gc :: "int shop" where
  "mmap_gc = ret 0"

definition count_miss :: "unit shop" where
  "count_miss = put (\<lambda>s. s\<lparr>sh_misses := sh_misses s + 1\<rparr>)"

text \<open>Too old, or written by another version. \<open>max_age\<close> is as in \<open>CacheSimple\<close>.\<close>

definition stale :: "int \<Rightarrow> int \<Rightarrow> int \<Rightarrow> handlebars_module \<Rightarrow> bool" where
  "stale version age now m \<longleftrightarrow> mversion m \<noteq> version \<or> age \<ge> 0 \<and> now - mts m \<ge> age"

definition drop_stale :: "(string \<Rightarrow> u32) \<Rightarrow> hstr \<Rightarrow> unit shop" where
  "drop_stale H key =
     sbind lock (\<lambda>_.
     sbind (protect False) (\<lambda>_.
     sbind (table_unset H key) (\<lambda>_.
     sbind (put (\<lambda>s. s\<lparr>sh_misses := sh_misses s + 1, sh_table_entries := sh_table_entries s - 1\<rparr>)) (\<lambda>_.
     sbind (protect True) (\<lambda>_. unlock)))))"

text \<open>The result is the address of the module. A stale one is returned too.\<close>

definition mmap_find :: "(string \<Rightarrow> u32) \<Rightarrow> int \<Rightarrow> int \<Rightarrow> int \<Rightarrow> hstr \<Rightarrow> int option shop" where
  "mmap_find H version age now key =
     sbind (gets sh_in_reset) (\<lambda>r.
       if r then ret None
       else
         sbind (table_find H key) (\<lambda>e.
           if e = 0 then sbind count_miss (\<lambda>_. ret None)
           else
             sbind (read_entry e) (\<lambda>(k, d).
             sbind (key_matches H key k) (\<lambda>same.
               if \<not> same then sbind count_miss (\<lambda>_. ret None)
               else
                 sbind (read_module d) (\<lambda>m.
                   if stale version age now m then sbind (drop_stale H key) (\<lambda>_. ret (Some d))
                   else if d \<noteq> maddr m then raise (Throw HANDLEBARS_ERROR ''Shared memory pointer mismatch: %p != %p'')
                   else sbind (put (\<lambda>s. s\<lparr>sh_hits := sh_hits s + 1, sh_refcount := sh_refcount s + 1\<rparr>)) (\<lambda>_.
                     ret (Some d)))))))"

text \<open>The pointers of the copied module, and the entry. The search before has computed the hash of the key.\<close>

definition add_entry :: "(string \<Rightarrow> u32) \<Rightarrow> int \<Rightarrow> int \<Rightarrow> handlebars_module \<Rightarrow> unit shop" where
  "add_entry H k d m =
     sbind (lift (handlebars_module_patch_pointers d m)) (\<lambda>m'.
     sbind (gets (\<lambda>s. nat (d - sh_data s))) (\<lambda>off.
     sbind (store off (align_size (msize m + PADDING)) (Sh_module m')) (\<lambda>_.
     sbind (table_set H (k, d)) (\<lambda>_.
       put (\<lambda>s. s\<lparr>sh_table_entries := sh_table_entries s + 1\<rparr>)))))"

text \<open>What an addition does under the lock; the result is whether a copy had no room.\<close>

definition add_locked :: "(string \<Rightarrow> u32) \<Rightarrow> hstr \<Rightarrow> int \<Rightarrow> handlebars_module \<Rightarrow> bool shop" where
  "add_locked H key a m =
     sbind (need (a = maddr m)) (\<lambda>_.
     sbind (table_find H key) (\<lambda>found.
       if found \<noteq> 0
       then
         sbind (read_entry found) (\<lambda>(k, _).
         sbind (key_matches H key k) (\<lambda>same.
         sbind (if \<not> same then put (\<lambda>s. s\<lparr>sh_collisions := sh_collisions s + 1\<rparr>) else ret ()) (\<lambda>_. ret False)))
       else
         sbind (mmap_append (Sh_key (snd (hbs_str_hash H key))) (HBS_STR_SIZE (hbs_str_len key))) (\<lambda>k.
         sbind (mmap_append (Sh_module m) (msize m)) (\<lambda>d.
           case (k, d) of
             (Some k', Some d') \<Rightarrow> sbind (add_entry H k' d' m) (\<lambda>_. ret False)
           | _ \<Rightarrow> ret True))))"

definition mmap_add :: "(string \<Rightarrow> u32) \<Rightarrow> hstr \<Rightarrow> int \<Rightarrow> handlebars_module \<Rightarrow> unit shop" where
  "mmap_add H key a m =
     sbind (gets sh_in_reset) (\<lambda>r.
       if r then ret ()
       else
         sbind lock (\<lambda>_.
         sbind (protect False) (\<lambda>_.
         sbind (add_locked H key a m) (\<lambda>full.
         sbind (protect True) (\<lambda>_.
         sbind unlock (\<lambda>_.
           if full then mmap_reset else ret ()))))))"

definition mmap_release :: "unit shop" where
  "mmap_release = put (\<lambda>s. s\<lparr>sh_refcount := sh_refcount s - 1\<rparr>)"

record mmap_stat =
  st_total_size :: nat
  st_total_table_size :: nat
  st_total_data_size :: nat
  st_total_entries :: u32
  st_current_entries :: u32
  st_current_table_size :: nat
  st_current_data_size :: nat
  st_current_size :: nat
  st_hits :: u64
  st_misses :: u64
  st_refcount :: int
  st_collisions :: u64

definition mmap_cache_stat :: "shm \<Rightarrow> mmap_stat" where
  "mmap_cache_stat s =
     (let table = unat (sh_table_entries s) * SIZEOF_TABLE_ENTRY in
      \<lparr>st_total_size = sh_size s, st_total_table_size = sh_table_size s, st_total_data_size = sh_data_size s,
       st_total_entries = sh_table_count s, st_current_entries = sh_table_entries s, st_current_table_size = table,
       st_current_data_size = sh_data_length s, st_current_size = table + sh_data_length s, st_hits = sh_hits s,
       st_misses = sh_misses s, st_refcount = sh_refcount s, st_collisions = sh_collisions s\<rparr>)"

section \<open>The constructor\<close>

definition size_align :: "nat \<Rightarrow> nat \<Rightarrow> nat" where
  "size_align n page = handlebars_align_size n page mod 2 ^ 64"

text \<open>The block as it is laid out, before the first reset. Fresh memory is zero.\<close>

definition new_block :: "int \<Rightarrow> int \<Rightarrow> nat \<Rightarrow> nat \<Rightarrow> nat \<Rightarrow> nat \<Rightarrow> shm" where
  "new_block version base shm_size intern_size table_size entries =
     \<lparr>sh_base = base, sh_size = shm_size, sh_intern_size = intern_size, sh_version = version,
      sh_table = base + int intern_size, sh_table_size = table_size, sh_table_count = of_nat entries,
      sh_table_entries = 0, sh_data = base + int intern_size + int table_size,
      sh_data_size = size_sub (size_sub shm_size table_size) intern_size, sh_data_length = 0,
      sh_hits = 0, sh_misses = 0, sh_collisions = 0, sh_in_reset = False, sh_locked = False, sh_refcount = 0,
      sh_slots = replicate (table_size div POINTER_SIZE) 0, sh_mem = (\<lambda>_. None), sh_writable = True\<rparr>"

definition handlebars_cache_mmap_ctor :: "int \<Rightarrow> nat \<Rightarrow> int option \<Rightarrow> nat \<Rightarrow> nat \<Rightarrow> hbs_error + shm" where
  "handlebars_cache_mmap_ctor version page mapped sz entries =
     (let intern_size = size_align SIZEOF_CACHE_MMAP page;
          shm_size = size_align sz page;
          table_size = size_align (entries * POINTER_SIZE mod 2 ^ 64) page
      in
        if table_size \<ge> shm_size then Inl (Throw HANDLEBARS_ERROR ''Table size must not be greater than segment size'')
        else
          (case mapped of
             None \<Rightarrow> Inl (Throw HANDLEBARS_ERROR ''Failed to mmap: %s'')
           | Some base \<Rightarrow>
               (case sbind mmap_reset (\<lambda>_. protect True) (new_block version base shm_size intern_size table_size entries) of
                  (Inr _, s) \<Rightarrow> Inr s
                | (Inl e, _) \<Rightarrow> Inl e)))"

end
