(* ===== verification/CacheMmapProofs.thy ===== *)
theory CacheMmapProofs
  imports CacheMmap SerializerMove
begin

text \<open>
  The invariant of the shared cache: the segments lie in the block, every slot of the table is empty or leads to a key
  that belongs there and to a module with the right address, and between operations nothing is locked or writable.
\<close>

section \<open>The invariant\<close>

definition layout_ok :: "shm \<Rightarrow> bool" where
  "layout_ok s \<longleftrightarrow>
     sh_table s = sh_base s + int (sh_intern_size s) \<and> sh_data s = sh_table s + int (sh_table_size s) \<and>
     sh_intern_size s + sh_table_size s + sh_data_size s = sh_size s \<and> sh_table_count s \<noteq> 0 \<and>
     unat (sh_table_count s) * POINTER_SIZE \<le> sh_table_size s \<and> length (sh_slots s) = sh_table_size s div POINTER_SIZE \<and>
     0 < sh_data s \<and> sh_data s mod int POINTER_SIZE = 0 \<and>
     sh_data_length s \<le> sh_data_size s \<and> sh_data_length s mod POINTER_SIZE = 0"

text \<open>An object in the used part of the data segment.\<close>

definition holds :: "shm \<Rightarrow> int \<Rightarrow> shobj \<Rightarrow> bool" where
  "holds s a obj \<longleftrightarrow>
     (\<exists>off n. a = sh_data s + int off \<and> sh_mem s off = Some (n, obj) \<and> 0 < n \<and> off + n \<le> sh_data_length s)"

definition slot_ok :: "(string \<Rightarrow> u32) \<Rightarrow> shm \<Rightarrow> nat \<Rightarrow> bool" where
  "slot_ok H s j \<longleftrightarrow>
     sh_slots s ! j = 0 \<or>
     (\<exists>k d key m. holds s (sh_slots s ! j) (Sh_entry k d) \<and> holds s k (Sh_key key) \<and> holds s d (Sh_module m) \<and>
        maddr m = d \<and> shash key \<noteq> 0 \<and> unat (shash key mod sh_table_count s) = j)"

definition core_ok :: "(string \<Rightarrow> u32) \<Rightarrow> shm \<Rightarrow> bool" where
  "core_ok H s \<longleftrightarrow> layout_ok s \<and> (\<forall>j < length (sh_slots s). slot_ok H s j)"

definition shm_ok :: "(string \<Rightarrow> u32) \<Rightarrow> shm \<Rightarrow> bool" where
  "shm_ok H s \<longleftrightarrow> core_ok H s \<and> \<not> sh_locked s \<and> \<not> sh_writable s \<and> \<not> sh_in_reset s"

text \<open>The flags and the counters do not matter to the core.\<close>

lemma core_simps [simp]:
  "core_ok H (s\<lparr>sh_locked := b\<rparr>) = core_ok H s" "core_ok H (s\<lparr>sh_writable := b\<rparr>) = core_ok H s"
  "core_ok H (s\<lparr>sh_in_reset := b\<rparr>) = core_ok H s" "core_ok H (s\<lparr>sh_hits := w\<rparr>) = core_ok H s"
  "core_ok H (s\<lparr>sh_misses := w\<rparr>) = core_ok H s" "core_ok H (s\<lparr>sh_collisions := w\<rparr>) = core_ok H s"
  "core_ok H (s\<lparr>sh_refcount := r\<rparr>) = core_ok H s" "core_ok H (s\<lparr>sh_table_entries := n\<rparr>) = core_ok H s"
  by (simp_all add: core_ok_def layout_ok_def slot_ok_def holds_def)

lemma holds_object: "holds s a obj \<Longrightarrow> sh_object s a = Some obj"
  by (auto simp: holds_def sh_object_def sh_offset_def)

lemma offset_less:
  assumes "layout_ok s"
  shows "unat (w mod sh_table_count s) < length (sh_slots s)"
proof -
  have "unat (w mod sh_table_count s) < unat (sh_table_count s)"
    using assms by (simp add: layout_ok_def unat_mod word_neq_0_conv [symmetric] unat_gt_0)
  then show ?thesis using assms by (simp add: layout_ok_def POINTER_SIZE_def less_eq_div_iff_mult_less_eq less_le_trans)
qed

section \<open>Locks and pages\<close>

lemma run_protect: "layout_ok s \<Longrightarrow> sbind (protect b) f s = f () (s\<lparr>sh_writable := \<not> b\<rparr>)"
  by (simp add: protect_def sbind_def run_basic layout_ok_def)

lemma run_lock: "\<not> sh_locked s \<Longrightarrow> sbind lock f s = f () (s\<lparr>sh_locked := True\<rparr>)"
  by (simp add: lock_def sbind_def run_basic)

lemma run_unlock: "unlock s = (Inr (), s\<lparr>sh_locked := False\<rparr>)" "sbind unlock f s = f () (s\<lparr>sh_locked := False\<rparr>)"
  by (simp_all add: unlock_def sbind_def run_basic)

lemma run_state: "sbind (ret x) f s = f x s" "sbind (gets g) f' s = f' (g s) s" "sbind (put h) k s = k () (h s)"
  by (simp_all add: sbind_def run_basic)

lemma layout_simps [simp]:
  "layout_ok (s\<lparr>sh_locked := b\<rparr>) = layout_ok s" "layout_ok (s\<lparr>sh_writable := b\<rparr>) = layout_ok s"
  "layout_ok (s\<lparr>sh_in_reset := b\<rparr>) = layout_ok s" "layout_ok (s\<lparr>sh_collisions := w\<rparr>) = layout_ok s"
  "layout_ok (s\<lparr>sh_table_entries := n\<rparr>) = layout_ok s" "layout_ok (s\<lparr>sh_misses := w\<rparr>) = layout_ok s"
  by (simp_all add: layout_ok_def)

lemma layout_slots: "length xs = length (sh_slots s) \<Longrightarrow> layout_ok (s\<lparr>sh_slots := xs\<rparr>) = layout_ok s"
  by (auto simp: layout_ok_def)

section \<open>Appending\<close>

definition appended :: "shobj \<Rightarrow> nat \<Rightarrow> shm \<Rightarrow> shm" where
  "appended obj n s = s\<lparr>sh_data_length := sh_data_length s + n, sh_mem := overwrite (sh_data_length s) n obj (sh_mem s)\<rparr>"

lemma align_padded: "0 < align_size (n + PADDING)" "align_size (n + PADDING) mod POINTER_SIZE = 0"
  using align_size_ge [of POINTER_SIZE "n + PADDING"] align_size_dvd [of POINTER_SIZE "n + PADDING"]
  by (simp_all add: POINTER_SIZE_def PADDING_def mod_eq_0_iff_dvd)

lemma run_mmap_append:
  assumes "layout_ok s" "sh_writable s"
  shows "mmap_append obj n s =
     (if sh_data_length s + align_size (n + PADDING) \<ge> sh_data_size s then (Inr None, s)
      else (Inr (Some (sh_data s + int (sh_data_length s))), appended obj (align_size (n + PADDING)) s))"
proof -
  have "(sh_data s + int (sh_data_length s)) mod int POINTER_SIZE = 0"
    using assms(1) by (auto simp: layout_ok_def POINTER_SIZE_def)
  with assms show ?thesis
    by (auto simp: mmap_append_def store_def appended_def layout_ok_def Let_def sbind_def run_basic)
qed

lemma appended_layout:
  assumes "layout_ok s" "sh_data_length s + n \<le> sh_data_size s" "n mod POINTER_SIZE = 0"
  shows "layout_ok (appended obj n s)"
  using assms by (auto simp: layout_ok_def appended_def mod_eq_0_iff_dvd)

lemma appended_new: "0 < n \<Longrightarrow> holds (appended obj n s) (sh_data s + int (sh_data_length s)) obj"
  by (auto simp: holds_def appended_def overwrite_def)

lemma appended_keeps: "holds s a x \<Longrightarrow> holds (appended obj n s) a x"
  unfolding holds_def appended_def overwrite_def by (elim exE conjE) (intro exI conjI, auto)

lemma appended_core:
  assumes "core_ok H s" "sh_data_length s + n \<le> sh_data_size s" "n mod POINTER_SIZE = 0"
  shows "core_ok H (appended obj n s)"
proof -
  have "slot_ok H (appended obj n s) j" if "slot_ok H s j" for j
    using that appended_keeps unfolding slot_ok_def by (simp add: appended_def) (metis (no_types, lifting) appended_def appended_keeps)
  then show ?thesis using assms appended_layout by (simp add: core_ok_def) (simp add: appended_def)
qed

section \<open>The table\<close>

abbreviation slot_of :: "(string \<Rightarrow> u32) \<Rightarrow> hstr \<Rightarrow> shm \<Rightarrow> nat" where
  "slot_of H key s \<equiv> unat (hash_of H key mod sh_table_count s)"

lemma run_offset: "layout_ok s \<Longrightarrow> sbind (table_offset H key) f s = f (slot_of H key s) s"
  by (simp add: table_offset_def run_state sbind_assoc) (simp add: run_state layout_ok_def)

lemma run_find: "layout_ok s \<Longrightarrow> sbind (table_find H key) f s = f (sh_slots s ! slot_of H key s) s"
  using offset_less [of s "hash_of H key"] by (simp add: table_find_def sbind_assoc run_offset run_state)

lemma run_read:
  "holds s a (Sh_key k) \<Longrightarrow> sbind (read_key a) f s = f k s"
  "holds s a (Sh_module m) \<Longrightarrow> sbind (read_module a) f' s = f' m s"
  "holds s a (Sh_entry x y) \<Longrightarrow> sbind (read_entry a) f'' s = f'' (x, y) s"
  by (simp_all add: read_key_def read_module_def read_entry_def sbind_assoc run_state holds_object)

lemma run_matches:
  "holds s a (Sh_key k) \<Longrightarrow> shash k \<noteq> 0 \<Longrightarrow> sbind (key_matches H key a) f s = f (handlebars_string_eq H key k) s"
  by (simp add: key_matches_def sbind_assoc run_read run_state handlebars_string_eq_def)

lemma run_write_slot:
  "sh_writable s \<Longrightarrow> i < length (sh_slots s) \<Longrightarrow> write_slot i a s = (Inr (), s\<lparr>sh_slots := (sh_slots s)[i := a]\<rparr>)"
  by (simp add: write_slot_def sbind_def run_basic)

lemma slot_core:
  assumes "core_ok H s" "i < length (sh_slots s)"
    and "a = 0 \<or> (\<exists>k d key m. holds s a (Sh_entry k d) \<and> holds s k (Sh_key key) \<and> holds s d (Sh_module m) \<and>
        maddr m = d \<and> shash key \<noteq> 0 \<and> unat (shash key mod sh_table_count s) = i)"
  shows "core_ok H (s\<lparr>sh_slots := (sh_slots s)[i := a]\<rparr>)"
proof -
  let ?t = "s\<lparr>sh_slots := (sh_slots s)[i := a]\<rparr>"
  have h: "holds ?t x obj = holds s x obj" for x obj by (simp add: holds_def)
  have "slot_ok H ?t j" if "j < length (sh_slots s)" for j
  proof (cases "j = i")
    case True
    then show ?thesis using assms(2,3) by (auto simp: slot_ok_def h)
  next
    case False
    then have "sh_slots ?t ! j = sh_slots s ! j" by simp
    then show ?thesis using assms(1) that unfolding core_ok_def slot_ok_def by (simp add: h)
  qed
  then show ?thesis using assms(1) by (simp add: core_ok_def layout_slots)
qed

text \<open>Equal but for the table, the data and the counters.\<close>

definition same_flags :: "shm \<Rightarrow> shm \<Rightarrow> bool" where
  "same_flags s t \<longleftrightarrow> sh_locked t = sh_locked s \<and> sh_writable t = sh_writable s \<and> sh_in_reset t = sh_in_reset s \<and>
     sh_refcount t = sh_refcount s \<and> sh_table_count t = sh_table_count s \<and> sh_data t = sh_data s"

lemma drop_stale_ok:
  assumes core: "core_ok H s" and free: "\<not> sh_locked s" "\<not> sh_writable s"
  shows "\<exists>t. drop_stale H key s = (Inr (), t) \<and> core_ok H t \<and> same_flags s t \<and> sh_slots t = (sh_slots s)[slot_of H key s := 0] \<and>
    sh_mem t = sh_mem s \<and> sh_data_length t = sh_data_length s"
proof -
  let ?i = "slot_of H key s"
  let ?u = "s\<lparr>sh_locked := True, sh_writable := True\<rparr>"
  have lay: "layout_ok s" "layout_ok ?u" using core by (simp_all add: core_ok_def)
  have i: "?i < length (sh_slots s)" by (rule offset_less [OF lay(1)])
  let ?v = "s\<lparr>sh_slots := (sh_slots s)[?i := 0]\<rparr>"
  have core_v: "core_ok H ?v" using core i by (intro slot_core) simp_all
  let ?w = "?u\<lparr>sh_slots := (sh_slots s)[?i := 0]\<rparr>"
  have lw: "layout_ok ?w" using layout_slots [of "(sh_slots s)[?i := 0]" ?u] lay(2) by simp
  have "table_unset H key ?u = (Inr (), ?w)"
    using run_offset [OF lay(2), of H key "\<lambda>i. write_slot i 0"] run_write_slot [of ?u ?i 0] i
    by (simp add: table_unset_def)
  then have "drop_stale H key s = (Inr (), ?v\<lparr>sh_misses := sh_misses s + 1, sh_table_entries := sh_table_entries s - 1,
      sh_writable := False, sh_locked := False\<rparr>)"
    using free lay lw
    by (simp add: drop_stale_def run_lock run_protect sbind_def [of "table_unset _ _"] run_state run_unlock)
  then show ?thesis using core_v free by (simp add: same_flags_def)
qed

section \<open>Finding\<close>

text \<open>What a search returns, and what it does to the count of the users.\<close>

definition found_ok :: "int \<Rightarrow> int \<Rightarrow> int \<Rightarrow> shm \<Rightarrow> int option \<Rightarrow> shm \<Rightarrow> bool" where
  "found_ok version age now s r t \<longleftrightarrow>
     (case r of
        None \<Rightarrow> sh_refcount t = sh_refcount s \<and> sh_slots t = sh_slots s
      | Some d \<Rightarrow> \<exists>m. holds t d (Sh_module m) \<and> maddr m = d \<and>
          (if stale version age now m then sh_refcount t = sh_refcount s
           else sh_refcount t = sh_refcount s + 1 \<and> sh_slots t = sh_slots s))"

lemma mmap_find_ok:
  assumes ok: "shm_ok H s"
  shows "\<exists>r t. mmap_find H version age now key s = (Inr r, t) \<and> shm_ok H t \<and> found_ok version age now s r t"
proof (cases "sh_slots s ! slot_of H key s = 0")
  case True
  let ?t = "s\<lparr>sh_misses := sh_misses s + 1\<rparr>"
  have "mmap_find H version age now key s = (Inr None, ?t)"
    using ok True by (simp add: mmap_find_def run_state run_find shm_ok_def core_ok_def count_miss_def) (simp add: run_basic)
  moreover have "shm_ok H ?t" using ok by (simp add: shm_ok_def)
  ultimately show ?thesis by (auto simp: found_ok_def)
next
  case False
  have lay: "layout_ok s" using ok by (simp add: shm_ok_def core_ok_def)
  obtain k d key' m where e: "holds s (sh_slots s ! slot_of H key s) (Sh_entry k d)" "holds s k (Sh_key key')" "holds s d (Sh_module m)"
      "maddr m = d" "shash key' \<noteq> 0"
    using ok False offset_less [OF lay, of "hash_of H key"] unfolding shm_ok_def core_ok_def slot_ok_def by blast
  have step: "mmap_find H version age now key s =
      (if \<not> handlebars_string_eq H key key' then sbind count_miss (\<lambda>_. ret None) s
       else if stale version age now m then sbind (drop_stale H key) (\<lambda>_. ret (Some d)) s
       else sbind (put (\<lambda>s. s\<lparr>sh_hits := sh_hits s + 1, sh_refcount := sh_refcount s + 1\<rparr>)) (\<lambda>_. ret (Some d)) s)"
    using ok False e lay by (simp add: mmap_find_def run_state run_find shm_ok_def run_read run_matches)
  consider "\<not> handlebars_string_eq H key key'" | "handlebars_string_eq H key key'" "stale version age now m"
    | "handlebars_string_eq H key key'" "\<not> stale version age now m" by blast
  then show ?thesis
  proof cases
    case 1
    then have "mmap_find H version age now key s = (Inr None, s\<lparr>sh_misses := sh_misses s + 1\<rparr>)"
      by (simp add: step count_miss_def run_state) (simp add: run_basic)
    moreover have "shm_ok H (s\<lparr>sh_misses := sh_misses s + 1\<rparr>)" using ok by (simp add: shm_ok_def)
    ultimately show ?thesis by (auto simp: found_ok_def)
  next
    case 2
    obtain t where t: "drop_stale H key s = (Inr (), t)" "shm_ok H t" "sh_refcount t = sh_refcount s" "sh_mem t = sh_mem s"
        "sh_data_length t = sh_data_length s" "sh_data t = sh_data s" using drop_stale_ok [of H s] ok
      by (auto simp: shm_ok_def same_flags_def)
    have "mmap_find H version age now key s = (Inr (Some d), t)"
      using 2 t(1) by (simp add: step sbind_def run_basic)
    moreover have "holds t d (Sh_module m)" using e(3) t(4-6) by (simp add: holds_def)
    ultimately show ?thesis using t(2,3) e(4) 2(2) by (auto simp: found_ok_def)
  next
    case 3
    let ?t = "s\<lparr>sh_hits := sh_hits s + 1, sh_refcount := sh_refcount s + 1\<rparr>"
    have "mmap_find H version age now key s = (Inr (Some d), ?t)"
      using 3 by (simp add: step sbind_def run_basic)
    moreover have "holds ?t d (Sh_module m)" using e(3) by (simp add: holds_def)
    moreover have "shm_ok H ?t" using ok by (simp add: shm_ok_def)
    ultimately show ?thesis using e(4) 3(2) by (auto simp: found_ok_def)
  qed
qed

section \<open>Resetting\<close>

definition wiped :: "shm \<Rightarrow> shm" where
  "wiped s = s\<lparr>sh_table_entries := 0, sh_data_length := 0, sh_slots := map (\<lambda>_. 0) (sh_slots s), sh_writable := False, sh_locked := False\<rparr>"

lemma wiped_core: "layout_ok s \<Longrightarrow> core_ok H (wiped s)"
  by (auto simp: core_ok_def layout_ok_def wiped_def slot_ok_def)

lemma run_wipe_table:
  "sh_writable s \<Longrightarrow> wipe_table s = (Inr (), s\<lparr>sh_table_entries := 0, sh_data_length := 0, sh_slots := map (\<lambda>_. 0) (sh_slots s)\<rparr>)"
  by (simp add: wipe_table_def run_state) (simp add: run_basic)

lemma run_wipe:
  assumes "layout_ok s" "\<not> sh_locked s"
  shows "reset_wipe s = (Inr (), wiped s)"
proof -
  let ?u = "s\<lparr>sh_locked := True, sh_writable := True, sh_table_entries := 0, sh_data_length := 0, sh_slots := map (\<lambda>_. 0) (sh_slots s)\<rparr>"
  have "layout_ok ?u" using assms(1) by (auto simp: layout_ok_def)
  from run_protect [OF this, of True "\<lambda>_. unlock"] show ?thesis
    using assms by (simp add: reset_wipe_def run_lock run_protect sbind_def [of wipe_table] run_wipe_table run_unlock wiped_def)
qed

lemma reset_ok:
  assumes "core_ok H s" "\<not> sh_locked s" "\<not> sh_writable s"
  shows "\<exists>t. mmap_reset s = (Inr (), t) \<and> shm_ok H t \<and> sh_refcount t = sh_refcount s \<and>
     (if sh_refcount s > 0 then t = s\<lparr>sh_in_reset := False\<rparr> else sh_data_length t = 0 \<and> (\<forall>j < length (sh_slots t). sh_slots t ! j = 0))"
proof (cases "sh_refcount s > 0")
  case True
  then have "mmap_reset s = (Inr (), s\<lparr>sh_in_reset := False\<rparr>)"
    by (simp add: mmap_reset_def run_state) (simp add: run_basic)
  with True assms show ?thesis by (simp add: shm_ok_def)
next
  case False
  let ?s = "s\<lparr>sh_in_reset := True\<rparr>"
  have s: "layout_ok ?s" "\<not> sh_locked ?s" using assms by (simp_all add: core_ok_def)
  from run_wipe [OF s] False have "mmap_reset s = (Inr (), (wiped ?s)\<lparr>sh_in_reset := False\<rparr>)"
    by (simp add: mmap_reset_def run_state sbind_def [of reset_wipe]) (simp add: run_basic)
  moreover have "shm_ok H ((wiped ?s)\<lparr>sh_in_reset := False\<rparr>)"
    using wiped_core [OF s(1), of H] unfolding shm_ok_def core_simps by (simp add: wiped_def)
  ultimately show ?thesis using False by (simp add: wiped_def)
qed

section \<open>Adding\<close>

text \<open>The end of an addition: the slot is written, and the pages are protected again.\<close>

lemma run_table_set:
  assumes core: "core_ok H s" "sh_writable s"
    and obj: "holds s k (Sh_key key)" "shash key \<noteq> 0" "holds s d (Sh_module m)" "maddr m = d"
  shows "\<exists>t. table_set H (k, d) s = (Inr (), t) \<and> core_ok H t \<and> same_flags s t \<and>
     (\<forall>a x. holds s a x \<longrightarrow> holds t a x) \<and>
     (sh_data_length s + 24 < sh_data_size s \<longrightarrow> holds t (sh_slots t ! slot_of H key s) (Sh_entry k d) \<and> sh_slots t ! slot_of H key s \<noteq> 0)"
proof -
  let ?i = "slot_of H key s" and ?e = "Sh_entry k d"
  have lay: "layout_ok s" using core(1) by (simp add: core_ok_def)
  have hash: "hash_of H key = shash key" using obj(2) by (simp add: hbs_str_hash_def)
  have n: "align_size (SIZEOF_TABLE_ENTRY + PADDING) = 24"
    by (simp add: SIZEOF_TABLE_ENTRY_def PADDING_def handlebars_align_size_def POINTER_SIZE_def)
  note i = offset_less [OF lay, of "hash_of H key"]
  have set: "table_set H (k, d) s = sbind (mmap_append ?e SIZEOF_TABLE_ENTRY) (\<lambda>a. write_slot ?i (case a of None \<Rightarrow> 0 | Some x \<Rightarrow> x)) s"
    using lay obj(1) by (simp add: table_set_def run_read run_offset)
  show ?thesis
  proof (cases "sh_data_length s + 24 \<ge> sh_data_size s")
    case True
    then have "table_set H (k, d) s = (Inr (), s\<lparr>sh_slots := (sh_slots s)[?i := 0]\<rparr>)"
      using run_mmap_append [OF lay core(2), of ?e SIZEOF_TABLE_ENTRY] run_write_slot [OF core(2) i] by (simp add: set sbind_def n)
    moreover have "core_ok H (s\<lparr>sh_slots := (sh_slots s)[?i := 0]\<rparr>)" by (rule slot_core [OF core(1) i]) simp
    ultimately show ?thesis using True by (simp add: holds_def same_flags_def)
  next
    case False
    let ?u = "appended ?e 24 s" and ?a = "sh_data s + int (sh_data_length s)"
    have u: "core_ok H ?u" using core(1) False by (intro appended_core) (simp_all add: POINTER_SIZE_def)
    have iu: "?i < length (sh_slots ?u)" "sh_writable ?u" using i core(2) by (simp_all add: appended_def)
    have "table_set H (k, d) s = (Inr (), ?u\<lparr>sh_slots := (sh_slots ?u)[?i := ?a]\<rparr>)"
      using run_mmap_append [OF lay core(2), of ?e SIZEOF_TABLE_ENTRY] run_write_slot [OF iu(2,1), of ?a] False by (simp add: set sbind_def n)
    moreover have "core_ok H (?u\<lparr>sh_slots := (sh_slots ?u)[?i := ?a]\<rparr>)"
      using appended_keeps [OF obj(1)] appended_keeps [OF obj(3)] appended_new [of 24 ?e s] obj(2,4) hash
      by (intro slot_core [OF u iu(1)] disjI2 exI conjI) (auto simp: appended_def)
    moreover have "?a \<noteq> 0" using lay by (simp add: layout_ok_def)
    ultimately show ?thesis using appended_keeps [of s _ _ ?e 24] appended_new [of 24 ?e s] i
      by (auto simp: same_flags_def holds_def [of "_\<lparr>sh_slots := _\<rparr>"] holds_def [symmetric]) (auto simp: appended_def holds_def)
  qed
qed

lemma overwrite_again: "overwrite off n x (overwrite off n y mem) = overwrite off n x mem"
  by (rule ext) (auto simp: overwrite_def split: option.splits)

lemma key_hashed: "hash_of H key \<noteq> 0 \<Longrightarrow> shash (snd (hbs_str_hash H key)) = hash_of H key \<and> shash (snd (hbs_str_hash H key)) \<noteq> 0"
  by (auto simp: hbs_str_hash_def)

lemma core_patched: "module_ok a m \<Longrightarrow> \<exists>m'. handlebars_module_patch_pointers d m = Inr m' \<and> maddr m' = d \<and>
    (\<forall>t p. represents a m t p \<longrightarrow> represents d m' t p) \<and> mversion m' = mversion m \<and> mts m' = mts m"
  using patch_pointers_moved [of a m d] moved_represents [of a m _ _ "d - a"]
  by (auto simp: module_ok_def moved_def)

text \<open>The end of an addition for which there was room.\<close>

lemma add_entry_ok:
  assumes core: "core_ok H s" "sh_writable s"
    and k: "holds s k (Sh_key key)" "shash key \<noteq> 0" and m: "module_ok a m"
    and room: "sh_data_length s + align_size (msize m + PADDING) < sh_data_size s"
    and d: "d = sh_data s + int (sh_data_length s)"
  shows "\<exists>t m'. add_entry H k d m (appended (Sh_module m) (align_size (msize m + PADDING)) s) = (Inr (), t) \<and> core_ok H t \<and>
     same_flags s t \<and> maddr m' = d \<and> mversion m' = mversion m \<and> mts m' = mts m \<and> (\<forall>x obj. holds s x obj \<longrightarrow> holds t x obj) \<and>
     (\<forall>t p. represents a m t p \<longrightarrow> represents d m' t p) \<and> holds t k (Sh_key key) \<and> holds t d (Sh_module m') \<and>
     (sh_data_length s + align_size (msize m + PADDING) + 24 < sh_data_size s \<longrightarrow>
        holds t (sh_slots t ! slot_of H key s) (Sh_entry k d) \<and> sh_slots t ! slot_of H key s \<noteq> 0)"
proof -
  let ?n = "align_size (msize m + PADDING)"
  let ?s3 = "appended (Sh_module m) ?n s"
  obtain m' where m': "handlebars_module_patch_pointers d m = Inr m'" "maddr m' = d" "\<forall>t p. represents a m t p \<longrightarrow> represents d m' t p"
      "mversion m' = mversion m" "mts m' = mts m" using core_patched [OF m, of d] by blast
  let ?s4 = "appended (Sh_module m') ?n s"
  have s4: "core_ok H ?s4" using core(1) room align_padded by (intro appended_core) simp_all
  have flags: "sh_writable ?s4" "same_flags s ?s4" "sh_data_length ?s4 = sh_data_length s + ?n" "sh_data_size ?s4 = sh_data_size s"
    using core(2) by (simp_all add: appended_def same_flags_def)
  have "layout_ok s" using core(1) by (simp add: core_ok_def)
  then have store: "store (sh_data_length s) ?n (Sh_module m') ?s3 = (Inr (), ?s4)"
    using room core(2) by (auto simp: store_def sbind_def run_basic appended_def layout_ok_def overwrite_again)
  from run_table_set [OF s4 flags(1) appended_keeps [OF k(1)] k(2) appended_new [OF align_padded(1), of "Sh_module m'" "msize m" s, folded d] m'(2)]
  obtain t where t: "table_set H (k, d) ?s4 = (Inr (), t)" "core_ok H t" "same_flags s t" "\<forall>a x. holds ?s4 a x \<longrightarrow> holds t a x"
      "sh_data_length s + ?n + 24 < sh_data_size s \<longrightarrow> holds t (sh_slots t ! slot_of H key s) (Sh_entry k d) \<and> sh_slots t ! slot_of H key s \<noteq> 0"
    using flags by (auto simp: same_flags_def)
  let ?t = "t\<lparr>sh_table_entries := sh_table_entries t + 1\<rparr>"
  have off: "nat (d - sh_data ?s3) = sh_data_length s" by (simp add: d appended_def)
  have run: "add_entry H k d m ?s3 = (Inr (), ?t)"
    by (simp add: add_entry_def m'(1) sbind_def [of "lift _"] run_basic(5) run_state off sbind_def [of "store _ _ _"] store
        sbind_def [of "table_set _ _"] t(1)) (simp add: run_basic)
  have keep: "holds ?t x obj = holds t x obj" for x obj by (simp add: holds_def)
  have "holds t d (Sh_module m')" "\<forall>x obj. holds s x obj \<longrightarrow> holds t x obj"
    using t(4) appended_keeps appended_new [OF align_padded(1), of "Sh_module m'" "msize m" s] by (simp_all add: d)
  then show ?thesis
    using run t(2,3,5) m'(2-5) k(1) by (intro exI [of _ ?t] exI [of _ m']) (simp add: keep same_flags_def)
qed

text \<open>An occupied slot: nothing is added.\<close>

lemma locked_found:
  assumes core: "core_ok H s" and a: "a = maddr m" and found: "sh_slots s ! slot_of H key s \<noteq> 0"
  shows "\<exists>w. add_locked H key a m s = (Inr False, s\<lparr>sh_collisions := w\<rparr>)"
proof -
  have lay: "layout_ok s" using core by (simp add: core_ok_def)
  obtain k d key' where e: "holds s (sh_slots s ! slot_of H key s) (Sh_entry k d)" "holds s k (Sh_key key')" "shash key' \<noteq> 0"
    using core found offset_less [OF lay, of "hash_of H key"] unfolding core_ok_def slot_ok_def by blast
  have "add_locked H key a m s =
      (Inr False, if handlebars_string_eq H key key' then s else s\<lparr>sh_collisions := sh_collisions s + 1\<rparr>)"
    using found lay e a
    by (simp add: add_locked_def sbind_def [of "need _"] run_basic(6) run_find run_read run_matches run_state) (simp add: run_basic)
  moreover have "s = s\<lparr>sh_collisions := sh_collisions s\<rparr>" by simp
  ultimately show ?thesis by metis
qed

lemma locked_unfold:
  assumes "layout_ok s" "a = maddr m" "sh_slots s ! slot_of H key s = 0"
  shows "add_locked H key a m s =
     sbind (mmap_append (Sh_key (snd (hbs_str_hash H key))) (HBS_STR_SIZE (hbs_str_len key))) (\<lambda>k.
     sbind (mmap_append (Sh_module m) (msize m)) (\<lambda>d.
       case (k, d) of (Some k', Some d') \<Rightarrow> sbind (add_entry H k' d' m) (\<lambda>_. ret False) | _ \<Rightarrow> ret True)) s"
  using assms by (simp add: add_locked_def sbind_def [of "need _"] run_basic(6) run_find)

text \<open>An empty slot: without room for the key or for the module the copies are lost; otherwise the entry is made.\<close>

definition room_for :: "hstr \<Rightarrow> handlebars_module \<Rightarrow> nat \<Rightarrow> shm \<Rightarrow> bool" where
  "room_for key m n s \<longleftrightarrow>
     sh_data_length s + align_size (HBS_STR_SIZE (hbs_str_len key) + PADDING) + align_size (msize m + PADDING) + n < sh_data_size s"

lemma locked_full:
  assumes core: "core_ok H s" "sh_writable s" and a: "a = maddr m" and free: "sh_slots s ! slot_of H key s = 0"
    and full: "\<not> room_for key m 0 s"
  shows "\<exists>t. add_locked H key a m s = (Inr True, t) \<and> core_ok H t \<and> same_flags s t \<and> (\<forall>x obj. holds s x obj \<longrightarrow> holds t x obj)"
proof -
  let ?key = "snd (hbs_str_hash H key)" and ?n1 = "align_size (HBS_STR_SIZE (hbs_str_len key) + PADDING)" and ?n2 = "align_size (msize m + PADDING)"
  have lay: "layout_ok s" using core by (simp add: core_ok_def)
  note first = run_mmap_append [OF lay core(2), of "Sh_key ?key" "HBS_STR_SIZE (hbs_str_len key)"]
  note unfold = locked_unfold [OF lay a free]
  show ?thesis
  proof (cases "sh_data_length s + ?n1 < sh_data_size s")
    case False
    show ?thesis
    proof (cases "sh_data_length s + ?n2 < sh_data_size s")
      case True
      then have "add_locked H key a m s = (Inr True, appended (Sh_module m) ?n2 s)"
        using unfold first False run_mmap_append [OF lay core(2), of "Sh_module m" "msize m"] by (simp add: sbind_def run_basic)
      moreover have "core_ok H (appended (Sh_module m) ?n2 s)" using True by (intro appended_core core align_padded) simp
      ultimately show ?thesis using appended_keeps by (auto simp: same_flags_def appended_def)
    next
      case no2: False
      then have "add_locked H key a m s = (Inr True, s)"
        using unfold first False run_mmap_append [OF lay core(2), of "Sh_module m" "msize m"] by (simp add: sbind_def run_basic)
      then show ?thesis using core by (simp add: same_flags_def)
    qed
  next
    case True
    let ?s2 = "appended (Sh_key ?key) ?n1 s"
    have s2: "core_ok H ?s2" using True by (intro appended_core core align_padded) simp
    then have "layout_ok ?s2" "sh_writable ?s2" using core(2) by (simp_all add: core_ok_def appended_def)
    from run_mmap_append [OF this, of "Sh_module m" "msize m"] have "add_locked H key a m s = (Inr True, ?s2)"
      using unfold first True full by (simp add: sbind_def run_basic room_for_def appended_def)
    then show ?thesis using s2 appended_keeps by (auto simp: same_flags_def appended_def)
  qed
qed

lemma locked_stores:
  assumes core: "core_ok H s" "sh_writable s" and ok: "module_ok a m" "hash_of H key \<noteq> 0"
    and free: "sh_slots s ! slot_of H key s = 0" and room: "room_for key m 0 s"
  shows "\<exists>t k d m'. add_locked H key a m s = (Inr False, t) \<and> core_ok H t \<and> same_flags s t \<and>
     maddr m' = d \<and> mversion m' = mversion m \<and> mts m' = mts m \<and> (\<forall>x obj. holds s x obj \<longrightarrow> holds t x obj) \<and>
     (\<forall>t p. represents a m t p \<longrightarrow> represents d m' t p) \<and> holds t k (Sh_key (snd (hbs_str_hash H key))) \<and> holds t d (Sh_module m') \<and>
     (room_for key m 24 s \<longrightarrow> holds t (sh_slots t ! slot_of H key s) (Sh_entry k d) \<and> sh_slots t ! slot_of H key s \<noteq> 0)"
proof -
  let ?key = "snd (hbs_str_hash H key)" and ?n1 = "align_size (HBS_STR_SIZE (hbs_str_len key) + PADDING)" and ?n2 = "align_size (msize m + PADDING)"
  let ?s2 = "appended (Sh_key ?key) ?n1 s"
  have lay: "layout_ok s" and a: "a = maddr m" using core ok(1) by (simp_all add: core_ok_def module_ok_def)
  have s2: "core_ok H ?s2" using room by (intro appended_core core align_padded) (simp add: room_for_def)
  then have s2': "layout_ok ?s2" "sh_writable ?s2" using core(2) by (simp_all add: core_ok_def appended_def)
  have eqs: "sh_table_count ?s2 = sh_table_count s" "sh_data_length ?s2 = sh_data_length s + ?n1" "sh_data_size ?s2 = sh_data_size s"
    by (simp_all add: appended_def)
  have fl: "same_flags ?s2 = same_flags s" by (rule ext) (simp add: same_flags_def appended_def)
  have k: "holds ?s2 (sh_data s + int (sh_data_length s)) (Sh_key ?key)" by (rule appended_new [OF align_padded(1)])
  have room2: "sh_data_length ?s2 + ?n2 < sh_data_size ?s2" "(sh_data_length ?s2 + ?n2 + 24 < sh_data_size ?s2) = room_for key m 24 s"
    using room by (simp_all add: eqs room_for_def)
  have add: "add_locked H key a m s = sbind (add_entry H (sh_data s + int (sh_data_length s)) (sh_data ?s2 + int (sh_data_length ?s2)) m)
      (\<lambda>_. ret False) (appended (Sh_module m) ?n2 ?s2)"
    using locked_unfold [OF lay a free] run_mmap_append [OF lay core(2), of "Sh_key ?key" "HBS_STR_SIZE (hbs_str_len key)"] room
      run_mmap_append [OF s2', of "Sh_module m" "msize m"] room2(1) by (simp add: sbind_def room_for_def)
  have hash: "hash_of H ?key = hash_of H key" by (simp add: hbs_str_hash_def)
  obtain t m' where t: "add_entry H (sh_data s + int (sh_data_length s)) (sh_data ?s2 + int (sh_data_length ?s2)) m
        (appended (Sh_module m) ?n2 ?s2) = (Inr (), t)" "core_ok H t" "same_flags s t" "maddr m' = sh_data ?s2 + int (sh_data_length ?s2)"
      "mversion m' = mversion m" "mts m' = mts m" "\<forall>x obj. holds ?s2 x obj \<longrightarrow> holds t x obj"
      "\<forall>t p. represents a m t p \<longrightarrow> represents (sh_data ?s2 + int (sh_data_length ?s2)) m' t p"
      "holds t (sh_data s + int (sh_data_length s)) (Sh_key ?key)" "holds t (sh_data ?s2 + int (sh_data_length ?s2)) (Sh_module m')"
      "room_for key m 24 s \<longrightarrow> holds t (sh_slots t ! slot_of H key s) (Sh_entry (sh_data s + int (sh_data_length s)) (sh_data ?s2 + int (sh_data_length ?s2))) \<and>
         sh_slots t ! slot_of H key s \<noteq> 0"
    using add_entry_ok [OF s2 s2'(2) k conjunct2 [OF key_hashed [OF ok(2)]] ok(1) room2(1) refl, unfolded fl hash eqs(1) room2(2)] by blast
  have "add_locked H key a m s = (Inr False, t)" using add t(1) by (simp add: sbind_def run_basic)
  moreover have "\<forall>x obj. holds s x obj \<longrightarrow> holds t x obj" using t(7) appended_keeps by blast
  ultimately show ?thesis using t(2-6) t(8-11) by blast
qed

lemma add_locked_ok:
  assumes "core_ok H s" "sh_writable s" "module_ok a m" "hash_of H key \<noteq> 0"
  shows "\<exists>full t. add_locked H key a m s = (Inr full, t) \<and> core_ok H t \<and> same_flags s t \<and> (\<forall>x obj. holds s x obj \<longrightarrow> holds t x obj)"
proof (cases "sh_slots s ! slot_of H key s = 0")
  case False
  have "a = maddr m" using assms(3) by (simp add: module_ok_def)
  from locked_found [OF assms(1) this False] obtain w where w: "add_locked H key a m s = (Inr False, s\<lparr>sh_collisions := w\<rparr>)" by blast
  moreover have "holds (s\<lparr>sh_collisions := w\<rparr>) = holds s" by (intro ext) (simp add: holds_def)
  ultimately show ?thesis using assms(1) by (intro exI [of _ False]) (simp add: same_flags_def)
next
  case True
  have "a = maddr m" using assms(3) by (simp add: module_ok_def)
  with locked_full [OF assms(1,2) _ True] locked_stores [OF assms True] show ?thesis by blast
qed

abbreviation opened :: "shm \<Rightarrow> shm" where
  "opened s \<equiv> s\<lparr>sh_locked := True, sh_writable := True\<rparr>"

abbreviation closed_again :: "shm \<Rightarrow> shm" where
  "closed_again s \<equiv> s\<lparr>sh_writable := False, sh_locked := False\<rparr>"

lemma add_unfold:
  assumes "shm_ok H s" "add_locked H key a m (opened s) = (Inr full, t)" "core_ok H t"
  shows "mmap_add H key a m s = (if full then mmap_reset else ret ()) (closed_again t)"
  using assms by (simp add: mmap_add_def run_state shm_ok_def core_ok_def run_lock run_protect sbind_def [of "add_locked _ _ _ _"] run_unlock)

lemma mmap_add_ok:
  assumes ok: "shm_ok H s" "module_ok a m" "hash_of H key \<noteq> 0"
  shows "\<exists>t. mmap_add H key a m s = (Inr (), t) \<and> shm_ok H t \<and> sh_refcount t = sh_refcount s"
proof -
  have "core_ok H (opened s)" using ok(1) by (simp add: shm_ok_def)
  then obtain full t where t: "add_locked H key a m (opened s) = (Inr full, t)" "core_ok H t" "same_flags (opened s) t"
    using add_locked_ok [of H "opened s", OF _ _ ok(2,3)] by auto
  have core: "core_ok H (closed_again t)" "sh_refcount t = sh_refcount s" "\<not> sh_in_reset t"
    using t(2,3) ok(1) by (simp_all add: same_flags_def shm_ok_def)
  note run = add_unfold [OF ok(1) t(1,2)]
  show ?thesis
  proof (cases full)
    case True
    with run reset_ok [OF core(1)] core(2) show ?thesis by auto
  next
    case False
    with run core show ?thesis by (simp add: run_basic shm_ok_def)
  qed
qed

text \<open>With room and an empty slot the entry is there afterwards.\<close>

text \<open>An addition to a slot in use: nothing is stored and nothing fails, whether the key is the stored one or another.\<close>

lemma mmap_add_occupied:
  assumes "shm_ok H s" "a = maddr m" "sh_slots s ! slot_of H key s \<noteq> 0" "holds s (sh_slots s ! slot_of H key s) (Sh_entry k d)"
    and "holds s k (Sh_key key')" "shash key' \<noteq> 0"
  shows "mmap_add H key a m s = (Inr (), if handlebars_string_eq H key key' then s else s\<lparr>sh_collisions := sh_collisions s + 1\<rparr>)"
proof -
  have lay: "layout_ok (opened s)" using assms(1) by (simp add: shm_ok_def core_ok_def)
  have h: "holds (opened s) (sh_slots s ! slot_of H key s) (Sh_entry k d)" "holds (opened s) k (Sh_key key')"
    using assms(4,5) by (simp_all add: holds_def)
  let ?t = "if handlebars_string_eq H key key' then opened s else (opened s)\<lparr>sh_collisions := sh_collisions s + 1\<rparr>"
  have t: "add_locked H key a m (opened s) = (Inr False, ?t)"
    using assms(2,3,6) h by (simp add: add_locked_def need_def run_state run_find [OF lay] run_read run_matches) (simp add: run_basic)
  have "core_ok H ?t" using assms(1) by (simp add: shm_ok_def)
  from add_unfold [OF assms(1) t this] show ?thesis using assms(1) by (simp add: shm_ok_def run_basic)
qed

lemma mmap_add_stores:
  assumes ok: "shm_ok H s" "module_ok a m" "hash_of H key \<noteq> 0" and free: "sh_slots s ! slot_of H key s = 0"
    and room: "room_for key m 24 s"
  shows "\<exists>t k d m'. mmap_add H key a m s = (Inr (), t) \<and> shm_ok H t \<and> sh_refcount t = sh_refcount s \<and>
     sh_table_count t = sh_table_count s \<and> maddr m' = d \<and> mversion m' = mversion m \<and> mts m' = mts m \<and>
     (\<forall>t p. represents a m t p \<longrightarrow> represents d m' t p) \<and> holds t k (Sh_key (snd (hbs_str_hash H key))) \<and> holds t d (Sh_module m') \<and>
     holds t (sh_slots t ! slot_of H key s) (Sh_entry k d) \<and> sh_slots t ! slot_of H key s \<noteq> 0"
proof -
  have "core_ok H (opened s)" "sh_slots (opened s) ! slot_of H key (opened s) = 0" "room_for key m 0 (opened s)" "room_for key m 24 (opened s)"
    using ok(1) free room by (simp_all add: shm_ok_def room_for_def)
  from locked_stores [OF this(1) _ ok(2,3) this(2,3)] this(4)
  obtain t k d m' where t: "add_locked H key a m (opened s) = (Inr False, t)" "core_ok H t" "same_flags (opened s) t"
      "maddr m' = d" "mversion m' = mversion m" "mts m' = mts m" "\<forall>t p. represents a m t p \<longrightarrow> represents d m' t p"
      "holds t k (Sh_key (snd (hbs_str_hash H key)))" "holds t d (Sh_module m')"
      "holds t (sh_slots t ! slot_of H key s) (Sh_entry k d)" "sh_slots t ! slot_of H key s \<noteq> 0"
    by auto
  have "holds (closed_again t) = holds t" by (intro ext) (simp add: holds_def)
  moreover have "shm_ok H (closed_again t)" using t(2,3) ok(1) by (simp add: shm_ok_def same_flags_def)
  moreover have "sh_refcount t = sh_refcount s" "sh_table_count t = sh_table_count s" using t(3) by (simp_all add: same_flags_def)
  ultimately show ?thesis using add_unfold [OF ok(1) t(1,2)] t(4-11)
    by (intro exI [of _ "closed_again t"] exI [of _ k] exI [of _ d] exI [of _ m']) (simp add: run_basic)
qed

section \<open>The constructor\<close>

definition empty_cache :: "shm \<Rightarrow> shm" where
  "empty_cache b = (wiped (b\<lparr>sh_in_reset := True\<rparr>))\<lparr>sh_in_reset := False, sh_writable := False\<rparr>"

lemma ctor_run:
  assumes "layout_ok (new_block v base shm_size isize tsize n)"
  shows "sbind mmap_reset (\<lambda>_. protect True) (new_block v base shm_size isize tsize n) =
      (Inr (), empty_cache (new_block v base shm_size isize tsize n)) \<and> shm_ok H (empty_cache (new_block v base shm_size isize tsize n))"
proof -
  let ?b = "new_block v base shm_size isize tsize n"
  let ?b' = "?b\<lparr>sh_in_reset := True\<rparr>"
  have "layout_ok ?b'" using assms by simp
  moreover have "\<not> sh_locked ?b'" "\<not> sh_refcount ?b > 0" by (simp_all add: new_block_def)
  ultimately have l: "layout_ok ?b'" "\<not> sh_locked ?b'" "\<not> sh_refcount ?b > 0" by blast+
  have reset: "mmap_reset ?b = (Inr (), (wiped ?b')\<lparr>sh_in_reset := False\<rparr>)"
    using run_wipe [OF l(1,2)] l(3) by (simp add: mmap_reset_def run_state sbind_def [of reset_wipe]) (simp add: run_basic)
  let ?s = "(wiped ?b')\<lparr>sh_in_reset := False\<rparr>"
  have core: "core_ok H ?s" using wiped_core [OF l(1), of H] by simp
  then have "protect True ?s = (Inr (), ?s\<lparr>sh_writable := False\<rparr>)"
    using run_protect [of ?s True "\<lambda>_ t. (Inr (), t)"] by (simp add: core_ok_def sbind_def protect_def run_basic split: if_splits)
  then have "sbind mmap_reset (\<lambda>_. protect True) ?b = (Inr (), ?s\<lparr>sh_writable := False\<rparr>)"
    by (simp add: sbind_def [of mmap_reset] reset)
  moreover have "shm_ok H (?s\<lparr>sh_writable := False\<rparr>)"
    using core unfolding shm_ok_def core_simps by (simp add: wiped_def)
  ultimately show ?thesis by (simp add: empty_cache_def)
qed

lemma empty_cache_fields [simp]:
  "sh_refcount (empty_cache b) = sh_refcount b" "sh_size (empty_cache b) = sh_size b" "sh_intern_size (empty_cache b) = sh_intern_size b"
  "sh_table_size (empty_cache b) = sh_table_size b" "sh_base (empty_cache b) = sh_base b" "sh_data_size (empty_cache b) = sh_data_size b"
  "sh_data_length (empty_cache b) = 0" "sh_table_count (empty_cache b) = sh_table_count b"
  "sh_slots (empty_cache b) = map (\<lambda>_. 0) (sh_slots b)"
  by (simp_all add: empty_cache_def wiped_def)

lemma align_small: "0 < page \<Longrightarrow> n + page < 2 ^ 64 \<Longrightarrow> size_align n page = handlebars_align_size n page"
  using align_size_less [of page n] by (simp add: size_align_def)

text \<open>Pages of the table, and what is left for the data.\<close>

lemma pages_fit:
  assumes "page dvd t" "page dvd (z::nat)" "t < z"
  shows "t + page \<le> z"
  using assms by (metis dvd_diff_nat dvd_imp_le le_add_diff_inverse less_imp_le_nat nat_add_left_cancel_le zero_less_diff)

lemma new_layout:
  assumes page: "SIZEOF_CACHE_MMAP \<le> page" "POINTER_SIZE dvd page" "page < 2 ^ 32" and base: "0 < base" "int page dvd base"
    and size: "sz < 2 ^ 62" "0 < n" "n < 2 ^ 32"
    and table: "size_align (n * POINTER_SIZE mod 2 ^ 64) page < size_align sz page"
  shows "layout_ok (new_block v base (size_align sz page) (size_align SIZEOF_CACHE_MMAP page) (size_align (n * POINTER_SIZE mod 2 ^ 64) page) n)"
proof -
  have p: "0 < page" using page(1) by (simp add: SIZEOF_CACHE_MMAP_def)
  have mod: "n * POINTER_SIZE mod 2 ^ 64 = n * POINTER_SIZE" using size(3) by (simp add: POINTER_SIZE_def)
  let ?t = "handlebars_align_size (n * POINTER_SIZE) page" and ?z = "handlebars_align_size sz page"
  have i: "size_align SIZEOF_CACHE_MMAP page = page"
    using page p by (cases "page = 144") (simp_all add: align_small SIZEOF_CACHE_MMAP_def handlebars_align_size_def Let_def)
  have t: "size_align (n * POINTER_SIZE mod 2 ^ 64) page = ?t" and z: "size_align sz page = ?z"
    using page(3) p size by (simp_all add: mod align_small POINTER_SIZE_def)
  have dvd: "page dvd ?t" "page dvd ?z" using align_size_dvd p by simp_all
  have "?t < ?z" using table unfolding t z .
  then have fit: "?t + page \<le> ?z" by (rule pages_fit [OF dvd])
  have z64: "?z < 2 ^ 63" using align_size_less [OF p, of sz] size(1) page(3) by simp
  have "size_sub (size_sub ?z ?t) page = ?z - ?t - page"
    using fit z64 by (simp add: size_sub_exact)
  moreover have "n * POINTER_SIZE \<le> ?t" by (rule align_size_ge [OF p])
  moreover have "POINTER_SIZE dvd ?t" using dvd(1) page(2) by (rule dvd_trans [rotated])
  moreover have "int POINTER_SIZE dvd base" using base(2) page(2) by (meson dvd_trans int_dvd_int_iff)
  moreover have count: "unat (of_nat n :: u32) = n" using size by (simp add: unat_of_nat)
  moreover have "(of_nat n :: u32) \<noteq> 0" using count size(2) by (metis less_irrefl unat_0)
  ultimately show ?thesis
    using fit page(2) base(1) unfolding i t z by (auto simp: layout_ok_def new_block_def mod_eq_0_iff_dvd)
qed

section \<open>Sequences of calls\<close>

datatype mmap_call =
    Call_find int int int hstr
  | Call_add hstr int handlebars_module
  | Call_release
  | Call_reset

definition run_call :: "(string \<Rightarrow> u32) \<Rightarrow> mmap_call \<Rightarrow> unit shop" where
  "run_call H c =
     (case c of
        Call_find version age now key \<Rightarrow> sbind (mmap_find H version age now key) (\<lambda>_. ret ())
      | Call_add key a m \<Rightarrow> mmap_add H key a m
      | Call_release \<Rightarrow> mmap_release
      | Call_reset \<Rightarrow> mmap_reset)"

definition call_ok :: "(string \<Rightarrow> u32) \<Rightarrow> mmap_call \<Rightarrow> bool" where
  "call_ok H c \<longleftrightarrow> (case c of Call_add key a m \<Rightarrow> module_ok a m \<and> hash_of H key \<noteq> 0 | _ \<Rightarrow> True)"

lemma run_call_ok:
  assumes "shm_ok H s" "call_ok H c"
  shows "\<exists>t. run_call H c s = (Inr (), t) \<and> shm_ok H t"
proof (cases c)
  case (Call_find version age now key)
  then show ?thesis using mmap_find_ok [OF assms(1), of version age now key] by (auto simp: run_call_def sbind_def run_basic)
next
  case (Call_add key a m)
  then show ?thesis using mmap_add_ok [OF assms(1), of a m key] assms(2) by (auto simp: run_call_def call_ok_def)
next
  case Call_release
  then show ?thesis using assms(1) by (auto simp: run_call_def mmap_release_def run_basic shm_ok_def)
next
  case Call_reset
  then show ?thesis using reset_ok [of H s] assms(1) by (auto simp: run_call_def shm_ok_def)
qed

lemma calls_ok:
  "shm_ok H s \<Longrightarrow> \<forall>c \<in> set cs. call_ok H c \<Longrightarrow> \<exists>t. sfold (\<lambda>c _. run_call H c) cs () s = (Inr (), t) \<and> shm_ok H t"
proof (induction cs arbitrary: s)
  case Nil
  then show ?case by (simp add: run_basic run_sfold)
next
  case (Cons c cs)
  obtain u where u: "run_call H c s = (Inr (), u)" "shm_ok H u" using run_call_ok [OF Cons.prems(1), of c] Cons.prems(2) by auto
  with Cons.IH [OF u(2)] Cons.prems(2) show ?case by (simp add: run_sfold sbind_def)
qed

section \<open>Properties\<close>

text \<open>C25. The constructor lays the three segments out one behind the other inside the block, with a slot for every entry in the
  table, as long as no size wraps: the size is below 2^62 and the number of entries below 2^32; a table that does not
  leave a page for the data is refused. The cache it returns satisfies the invariant.\<close>
theorem mmap_ctor_layout:
  assumes "SIZEOF_CACHE_MMAP \<le> page" "POINTER_SIZE dvd page" "page < 2 ^ 32" "0 < base" "int page dvd base"
    and "sz < 2 ^ 62" "0 < n" "n < 2 ^ 32"
  shows "case handlebars_cache_mmap_ctor version page (Some base) sz n of
     Inl e \<Rightarrow> e = Throw HANDLEBARS_ERROR ''Table size must not be greater than segment size'' \<and>
       handlebars_align_size sz page \<le> handlebars_align_size (n * POINTER_SIZE) page
   | Inr s \<Rightarrow> shm_ok H s \<and> sh_refcount s = 0 \<and> SIZEOF_CACHE_MMAP \<le> sh_intern_size s \<and> n * POINTER_SIZE \<le> sh_table_size s \<and>
       sh_intern_size s + sh_table_size s + sh_data_size s = sh_size s \<and> sz \<le> sh_size s \<and> sh_base s = base"
proof -
  have p: "0 < page" using assms(1) by (simp add: SIZEOF_CACHE_MMAP_def)
  let ?t = "size_align (n * POINTER_SIZE mod 2 ^ 64) page" and ?z = "size_align sz page"
  have mod: "n * POINTER_SIZE mod 2 ^ 64 = n * POINTER_SIZE" using assms(8) by (simp add: POINTER_SIZE_def)
  have t: "?t = handlebars_align_size (n * POINTER_SIZE) page" and z: "?z = handlebars_align_size sz page"
    unfolding mod using assms(3,6,8) p by (simp_all add: align_small POINTER_SIZE_def)
  show ?thesis
  proof (cases "?t \<ge> ?z")
    case True
    then show ?thesis unfolding handlebars_cache_mmap_ctor_def Let_def t z by simp
  next
    case False
    let ?b = "new_block version base ?z (size_align SIZEOF_CACHE_MMAP page) ?t n"
    have lay: "layout_ok ?b" using False by (intro new_layout assms) simp
    define s where "s = empty_cache ?b"
    have s: "sbind mmap_reset (\<lambda>_. protect True) ?b = (Inr (), s)" "shm_ok H s" "sh_refcount s = 0" "sh_size s = ?z"
        "sh_intern_size s = size_align SIZEOF_CACHE_MMAP page" "sh_table_size s = ?t" "sh_base s = base"
      using ctor_run [OF lay, of H] by (simp_all add: s_def) (simp_all add: new_block_def)
    have "SIZEOF_CACHE_MMAP \<le> size_align SIZEOF_CACHE_MMAP page"
      using align_size_ge [OF p, of SIZEOF_CACHE_MMAP] assms(3) by (simp add: align_small p SIZEOF_CACHE_MMAP_def)
    moreover have "sh_intern_size s + sh_table_size s + sh_data_size s = sh_size s"
      using s(2) by (simp add: shm_ok_def core_ok_def layout_ok_def)
    ultimately show ?thesis
      using s False align_size_ge [OF p, of "n * POINTER_SIZE"] align_size_ge [OF p, of sz]
      unfolding handlebars_cache_mmap_ctor_def Let_def t z by simp
  qed
qed

lemma sample_block:
  "\<exists>s. handlebars_cache_mmap_ctor 1 4096 (Some 65536) 16384 16 = Inr s \<and> shm_ok H s \<and> sh_refcount s = 0 \<and> sh_data_size s = 8192 \<and>
     sh_data_length s = 0 \<and> (\<forall>j < 16. sh_slots s ! j = 0) \<and> sh_table_count s = 16 \<and> sh_mem s = (\<lambda>_. None)"
proof -
  have al: "size_align 16384 4096 = 16384" "size_align SIZEOF_CACHE_MMAP 4096 = 4096" "size_align (16 * POINTER_SIZE mod 2 ^ 64) 4096 = 4096"
    by (simp_all add: size_align_def handlebars_align_size_def SIZEOF_CACHE_MMAP_def POINTER_SIZE_def Let_def)
  let ?b = "new_block 1 65536 16384 4096 4096 16"
  have "layout_ok (new_block 1 65536 (size_align 16384 4096) (size_align SIZEOF_CACHE_MMAP 4096) (size_align (16 * POINTER_SIZE mod 2 ^ 64) 4096) 16)"
    by (intro new_layout) (simp_all add: SIZEOF_CACHE_MMAP_def POINTER_SIZE_def al [unfolded SIZEOF_CACHE_MMAP_def POINTER_SIZE_def, simplified])
  then have lay: "layout_ok ?b" by (simp only: al)
  have "handlebars_cache_mmap_ctor 1 4096 (Some 65536) 16384 16 = Inr (empty_cache ?b)"
    using ctor_run [OF lay] unfolding handlebars_cache_mmap_ctor_def Let_def al by simp
  moreover have "sh_data_size ?b = 8192" "length (sh_slots ?b) = 512" "sh_table_count ?b = 16" "sh_refcount ?b = 0"
      "sh_mem (empty_cache ?b) = (\<lambda>_. None)"
    by (simp_all add: empty_cache_def wiped_def)
       (simp_all add: new_block_def size_sub_def POINTER_SIZE_def)
  ultimately show ?thesis using ctor_run [OF lay] by simp
qed

theorem mmap_ctor_layout_witness:
  "\<exists>s. handlebars_cache_mmap_ctor 1 4096 (Some 65536) 16384 16 = Inr s \<and> shm_ok (\<lambda>_. 7) s \<and> 16 * POINTER_SIZE \<le> sh_table_size s"
proof -
  obtain s where s: "handlebars_cache_mmap_ctor 1 4096 (Some 65536) 16384 16 = Inr s" using sample_block by blast
  have "SIZEOF_CACHE_MMAP \<le> 4096" "POINTER_SIZE dvd 4096" "int 4096 dvd 65536"
    by (simp_all add: SIZEOF_CACHE_MMAP_def POINTER_SIZE_def)
  with s show ?thesis using mmap_ctor_layout [of 4096 65536 16384 16 "\<lambda>_. 7" 1] by simp
qed

text \<open>A block with room for a module under the key \<open>a\<close>.\<close>

abbreviation sample_key :: hstr where
  "sample_key \<equiv> handlebars_string_ctor ''a''"

lemma hash_sample: "hash_of (\<lambda>_. 7) sample_key = 7"
  by (simp add: hbs_str_hash_def str_defs)

lemma sample_block_room:
  "\<exists>s m t. handlebars_cache_mmap_ctor 1 4096 (Some 65536) 16384 16 = Inr s \<and>
     handlebars_program_serialize (\<lambda>_. 7) 1 0 4096 sample_program = Inr m \<and> module_ok 4096 m \<and>
     represents 4096 m t sample_program \<and> mversion m = 1 \<and> shm_ok (\<lambda>_. 7) s \<and> sh_refcount s = 0 \<and> sh_mem s = (\<lambda>_. None) \<and>
     sh_slots s ! slot_of (\<lambda>_. 7) sample_key s = 0 \<and> room_for sample_key m 24 s"
proof -
  obtain s where s: "handlebars_cache_mmap_ctor 1 4096 (Some 65536) 16384 16 = Inr s" "shm_ok (\<lambda>_. 7) s" "sh_refcount s = 0" "sh_data_size s = 8192"
      "sh_data_length s = 0" "\<forall>j < 16. sh_slots s ! j = 0" "sh_table_count s = 16" "sh_mem s = (\<lambda>_. None)" using sample_block by blast
  obtain m t where m: "handlebars_program_serialize (\<lambda>_. 7) 1 0 4096 sample_program = Inr m" "module_ok 4096 m" "represents 4096 m t sample_program"
      "msize m = HANDLEBARS_MODULE_SIZE + program_size sample_program" "mversion m = 1"
    using program_serialize_ok [OF sample_wf, of "\<lambda>_. 7" 1 0 4096] by blast
  have "fst (calculate_size_program sample_program) = 1048"
    by (simp add: sample_program_def calculate_size_opcode_def HANDLEBARS_OPCODE_SIZE_def
        HANDLEBARS_MODULE_TABLE_ENTRY_SIZE_def HBS_STR_SIZE_def HANDLEBARS_STRING_SIZE_def POINTER_SIZE_def
        hbs_str_len_def handlebars_align_size_def handlebars_operand_set_stringval_def handlebars_operand_set_arrayval_def)
  then have size: "msize m = 1144" using m(4) by (simp add: calculate_size_program_eq HANDLEBARS_MODULE_SIZE_def program_size_def)
  have "sh_slots s ! slot_of (\<lambda>_. 7) sample_key s = 0" using s(6,7) by (simp add: hash_sample)
  moreover have "room_for sample_key m 24 s"
    by (simp add: room_for_def size s(4,5) HBS_STR_SIZE_def HANDLEBARS_STRING_SIZE_def hbs_str_len_def handlebars_align_size_def
        POINTER_SIZE_def PADDING_def str_defs)
  ultimately show ?thesis using s m by blast
qed

text \<open>C22. Whatever is called, in any order, by one process after the other: no call fails, and afterwards the cache is unlocked,
  protected and not in reset, and every slot of the table is empty or leads to a complete entry at its place. This holds
  for additions of complete modules at their own address under keys whose hash is not 0; a key with the hash 0 is left out,
  since a search that compares it writes into the protected pages. Adding a key twice is among the calls that do not fail.\<close>
theorem mmap_operations_ok:
  assumes "shm_ok H s" "\<forall>c \<in> set calls. call_ok H c"
  shows "\<exists>t. sfold (\<lambda>c _. run_call H c) calls () s = (Inr (), t) \<and> shm_ok H t"
  by (rule calls_ok [OF assms])

theorem mmap_operations_ok_witness:
  "\<exists>s m t. handlebars_cache_mmap_ctor 1 4096 (Some 65536) 16384 16 = Inr s \<and>
     handlebars_program_serialize (\<lambda>_. 7) 1 0 4096 sample_program = Inr m \<and>
     sfold (\<lambda>c _. run_call (\<lambda>_. 7) c) [Call_find 1 (- 1) 0 sample_key, Call_add sample_key 4096 m, Call_add sample_key 4096 m,
         Call_find 1 (- 1) 0 sample_key, Call_release, Call_reset] () s = (Inr (), t) \<and>
     \<not> sh_locked t \<and> \<not> sh_writable t"
proof -
  obtain s m where s: "handlebars_cache_mmap_ctor 1 4096 (Some 65536) 16384 16 = Inr s" "shm_ok (\<lambda>_. 7) s"
      "handlebars_program_serialize (\<lambda>_. 7) 1 0 4096 sample_program = Inr m" "module_ok 4096 m"
    using sample_block_room by blast
  have "\<forall>c \<in> set [Call_find 1 (- 1) 0 sample_key, Call_add sample_key 4096 m, Call_add sample_key 4096 m,
      Call_find 1 (- 1) 0 sample_key, Call_release, Call_reset]. call_ok (\<lambda>_. 7) c"
    using s(4) by (simp add: call_ok_def hash_sample)
  from mmap_operations_ok [OF s(2) this] s(1,3) show ?thesis unfolding shm_ok_def by blast
qed

text \<open>C23. Adding twice: once a key is stored, a further addition in its slot stores nothing and does not fail. Under the same
  key it leaves the cache exactly as it was, although the interface documents adding a key twice as an error, and under
  another key it only counts a collision. The first module stays.\<close>
theorem mmap_add_twice:
  assumes "shm_ok H s" "module_ok a m" "hash_of H key \<noteq> 0" "sh_slots s ! slot_of H key s = 0"
    and "sh_data_length s + align_size (HBS_STR_SIZE (hbs_str_len key) + PADDING) + align_size (msize m + PADDING) + 24 < sh_data_size s"
    and "b = maddr m'"
  shows "\<exists>u. mmap_add H key a m s = (Inr (), u) \<and> u \<noteq> s \<and> mmap_add H key b m' u = (Inr (), u) \<and>
     (\<forall>other. slot_of H other s = slot_of H key s \<and> \<not> handlebars_string_eq H other (snd (hbs_str_hash H key)) \<longrightarrow>
        mmap_add H other b m' u = (Inr (), u\<lparr>sh_collisions := sh_collisions u + 1\<rparr>))"
proof -
  have room: "room_for key m 24 s" using assms(5) by (simp add: room_for_def)
  let ?key = "snd (hbs_str_hash H key)"
  obtain u k d where u: "mmap_add H key a m s = (Inr (), u)" "shm_ok H u" "sh_table_count u = sh_table_count s"
      and h: "holds u k (Sh_key ?key)" "holds u (sh_slots u ! slot_of H key s) (Sh_entry k d)" "sh_slots u ! slot_of H key s \<noteq> 0"
    using mmap_add_stores [OF assms(1-4) room] by blast
  have eq: "handlebars_string_eq H key ?key" "shash ?key \<noteq> 0"
    using assms(3) by (auto simp: handlebars_string_eq_def hbs_str_hash_def)
  have occupied: "mmap_add H other b m' u = (Inr (), if handlebars_string_eq H other ?key then u
      else u\<lparr>sh_collisions := sh_collisions u + 1\<rparr>)" if "slot_of H other s = slot_of H key s" for other
    using that h u(3) by (intro mmap_add_occupied [OF u(2) assms(6) _ _ h(1) eq(2)]) simp_all
  have "u \<noteq> s" using h(3) assms(4) by auto
  then show ?thesis using u(1) occupied eq(1) by (intro exI [of _ u]) auto
qed

theorem mmap_add_twice_witness:
  "\<exists>s m u. handlebars_cache_mmap_ctor 1 4096 (Some 65536) 16384 16 = Inr s \<and>
     handlebars_program_serialize (\<lambda>_. 7) 1 0 4096 sample_program = Inr m \<and>
     mmap_add (\<lambda>_. 7) sample_key 4096 m s = (Inr (), u) \<and> mmap_add (\<lambda>_. 7) sample_key 4096 m u = (Inr (), u) \<and>
     mmap_add (\<lambda>_. 7) (handlebars_string_ctor ''bc'') 4096 m u = (Inr (), u\<lparr>sh_collisions := sh_collisions u + 1\<rparr>)"
proof -
  obtain s m where s: "handlebars_cache_mmap_ctor 1 4096 (Some 65536) 16384 16 = Inr s" "shm_ok (\<lambda>_. 7) s"
      "handlebars_program_serialize (\<lambda>_. 7) 1 0 4096 sample_program = Inr m" "module_ok 4096 m"
      "sh_slots s ! slot_of (\<lambda>_. 7) sample_key s = 0" "room_for sample_key m 24 s"
    using sample_block_room by blast
  have other: "hash_of (\<lambda>_. 7) (handlebars_string_ctor ''bc'') = 7"
      "\<not> handlebars_string_eq (\<lambda>_. 7) (handlebars_string_ctor ''bc'') (snd (hbs_str_hash (\<lambda>_. 7) sample_key))"
    by (simp_all add: hbs_str_hash_def handlebars_string_eq_def hbs_str_len_def str_defs)
  have a: "4096 = maddr m" using s(4) by (simp add: module_ok_def)
  obtain u where "mmap_add (\<lambda>_. 7) sample_key 4096 m s = (Inr (), u)" "mmap_add (\<lambda>_. 7) sample_key 4096 m u = (Inr (), u)"
      "mmap_add (\<lambda>_. 7) (handlebars_string_ctor ''bc'') 4096 m u = (Inr (), u\<lparr>sh_collisions := sh_collisions u + 1\<rparr>)"
    using mmap_add_twice [OF s(2,4) _ s(5) _ a] s(6) other unfolding room_for_def hash_sample by force
  then show ?thesis using s(1,3) by blast
qed

text \<open>C24. A module that is added to an empty slot, with room for it, is found under its key: what is found lies in the segment,
  carries its own address, represents the same program, and is counted as used.\<close>
theorem mmap_add_then_find:
  assumes "shm_ok H s" "module_ok a m" "represents a m t p" "hash_of H key \<noteq> 0" "sh_slots s ! slot_of H key s = 0"
    and "sh_data_length s + align_size (HBS_STR_SIZE (hbs_str_len key) + PADDING) + align_size (msize m + PADDING) + 24 < sh_data_size s"
    and "\<not> stale version age now m"
  shows "\<exists>u v d m'. mmap_add H key a m s = (Inr (), u) \<and> mmap_find H version age now key u = (Inr (Some d), v) \<and> shm_ok H v \<and>
     holds v d (Sh_module m') \<and> maddr m' = d \<and> represents d m' t p \<and> sh_refcount v = sh_refcount s + 1"
proof -
  have room: "room_for key m 24 s" using assms(6) by (simp add: room_for_def)
  let ?key = "snd (hbs_str_hash H key)"
  obtain u k d m' where u: "mmap_add H key a m s = (Inr (), u)" "shm_ok H u" "sh_refcount u = sh_refcount s" "sh_table_count u = sh_table_count s"
      and m': "maddr m' = d" "mversion m' = mversion m" "mts m' = mts m" "represents d m' t p"
      and h: "holds u k (Sh_key ?key)" "holds u d (Sh_module m')" "holds u (sh_slots u ! slot_of H key s) (Sh_entry k d)"
        "sh_slots u ! slot_of H key s \<noteq> 0"
    using mmap_add_stores [OF assms(1,2,4,5) room] assms(3) by blast
  have lay: "layout_ok u" using u(2) by (simp add: shm_ok_def core_ok_def)
  have key: "handlebars_string_eq H key ?key" "shash ?key \<noteq> 0"
    using assms(4) by (auto simp: handlebars_string_eq_def hbs_str_hash_def)
  have fresh: "\<not> stale version age now m'" using assms(7) m'(2,3) by (simp add: stale_def)
  let ?v = "u\<lparr>sh_hits := sh_hits u + 1, sh_refcount := sh_refcount u + 1\<rparr>"
  have "mmap_find H version age now key u = (Inr (Some d), ?v)"
    using u(2,4) h lay key fresh m'(1)
    by (simp add: mmap_find_def run_state shm_ok_def run_find run_read run_matches) (simp add: run_basic)
  moreover have "shm_ok H ?v" using u(2) by (simp add: shm_ok_def)
  moreover have "holds ?v d (Sh_module m')" using h(2) by (simp add: holds_def)
  ultimately show ?thesis using u(1,3) m'(1,4) by auto
qed

theorem mmap_add_then_find_witness:
  "\<exists>s m t u v d m'. handlebars_cache_mmap_ctor 1 4096 (Some 65536) 16384 16 = Inr s \<and>
     handlebars_program_serialize (\<lambda>_. 7) 1 0 4096 sample_program = Inr m \<and>
     mmap_add (\<lambda>_. 7) (handlebars_string_ctor ''a'') 4096 m s = (Inr (), u) \<and>
     mmap_find (\<lambda>_. 7) 1 (- 1) 5 (handlebars_string_ctor ''a'') u = (Inr (Some d), v) \<and>
     holds v d (Sh_module m') \<and> represents d m' t sample_program \<and> sh_refcount v = 1"
proof -
  obtain s m t where m: "handlebars_cache_mmap_ctor 1 4096 (Some 65536) 16384 16 = Inr s"
      "handlebars_program_serialize (\<lambda>_. 7) 1 0 4096 sample_program = Inr m" "module_ok 4096 m" "represents 4096 m t sample_program" "mversion m = 1"
      "shm_ok (\<lambda>_. 7) s" "sh_refcount s = 0" "sh_slots s ! slot_of (\<lambda>_. 7) sample_key s = 0" "room_for sample_key m 24 s"
    using sample_block_room by blast
  have "\<not> stale 1 (- 1) 5 m" "hash_of (\<lambda>_. 7) sample_key = 7" using m(5) by (simp_all add: stale_def hbs_str_hash_def str_defs)
  with mmap_add_then_find [OF m(6,3,4) _ m(8) m(9) [unfolded room_for_def], of 1 "- 1" 5] m(1,2,7) show ?thesis by fastforce
qed

text \<open>A template whose 32-bit hash is 0 cannot be cached: once it is stored, the next search for it computes the hash of
  the stored key again and writes it into the protected pages, which ends the process.\<close>
theorem mmap_zero_hash:
  assumes "layout_ok s" "\<not> sh_in_reset s" "\<not> sh_writable s"
    and "holds s (sh_slots s ! slot_of H key s) (Sh_entry k d)" "sh_slots s ! slot_of H key s \<noteq> 0"
    and "holds s k (Sh_key (snd (hbs_str_hash H key)))" "hash_of H key = 0"
  shows "mmap_find H version age now key s = (Inl Mem_error, s)"
proof -
  have "shash (snd (hbs_str_hash H key)) = 0" "length (sval (snd (hbs_str_hash H key))) = length (sval key)"
    using assms(7) by (auto simp: hbs_str_hash_def split: if_splits)
  then show ?thesis
    using assms by (simp add: mmap_find_def run_state run_find run_read key_matches_def sbind_assoc) (simp add: sbind_def run_basic)
qed

theorem mmap_zero_hash_witness:
  "\<exists>s. layout_ok s \<and> mmap_find (\<lambda>_. 0) 1 (- 1) 0 (handlebars_string_ctor ''a'') s = (Inl Mem_error, s)"
proof -
  obtain s where s: "shm_ok (\<lambda>_. 0) s" "sh_data_size s = 8192" "sh_table_count s = 16" using sample_block by blast
  let ?key = "snd (hbs_str_hash (\<lambda>_. 0) (handlebars_string_ctor ''a''))"
  let ?t = "s\<lparr>sh_slots := (sh_slots s)[0 := sh_data s + 32], sh_data_length := 56,
    sh_mem := [0 \<mapsto> (32, Sh_key ?key), 32 \<mapsto> (24, Sh_entry (sh_data s) 0)]\<rparr>"
  have lay: "layout_ok s" using s(1) by (simp add: shm_ok_def core_ok_def)
  have hash: "hash_of (\<lambda>_. 0) (handlebars_string_ctor ''a'') = 0" by (simp add: hbs_str_hash_def str_defs)
  have "sh_slots ?t ! slot_of (\<lambda>_. 0) (handlebars_string_ctor ''a'') ?t = sh_data s + 32" "0 < sh_data s"
    using lay offset_less [OF lay, of 0] by (auto simp: hash layout_ok_def)
  moreover have "layout_ok ?t" using lay s(2) by (auto simp: layout_ok_def POINTER_SIZE_def)
  moreover have "holds ?t (sh_data s + 32) (Sh_entry (sh_data s) 0)" "holds ?t (sh_data s) (Sh_key ?key)"
    by (auto simp: holds_def)
  ultimately show ?thesis
    using mmap_zero_hash [of ?t "\<lambda>_. 0" "handlebars_string_ctor ''a''" "sh_data s" 0 1 "- 1" 0] s(1) hash
    by (auto simp: shm_ok_def)
qed

end
