(* ===== verification/CacheRace.thy ===== *)
theory CacheRace
  imports CacheMmapProofs
begin

text \<open>
  Several processes on one shared cache (src/handlebars_cache_mmap.c): each operation is cut into the steps between
  which another process can see or change the block. What is done under the lock is one step of its own, because the
  others only see the slot it writes; every look at \<open>in_reset\<close>, at a slot, at the entry behind it and at the count of
  the users is a step. Memory is sequentially consistent, and the protection of the pages belongs to a process.

  A process is a program counter with the values of its local variables. \<open>Using d\<close> is a caller between
  \<open>cache_find\<close> and \<open>cache_release\<close>, \<open>Uncounted d\<close> one that was given an expired module. A failed access is \<open>Crashed\<close>.
\<close>

section \<open>Steps of one process\<close>

datatype pc =
    Idle
  | Crashed
  | Find hstr
  | Find_slot hstr
  | Find_entry hstr int
  | Find_stale hstr int
  | Find_count int
  | Using int
  | Uncounted int
  | Add hstr int handlebars_module
  | Add_lock hstr int handlebars_module
  | Add_body hstr int handlebars_module
  | Add_unlock bool
  | Reset
  | Reset_wait nat
  | Reset_check
  | Reset_lock
  | Reset_wipe
  | Reset_unlock
  | Reset_end

definition enter_locked :: "pc \<Rightarrow> pc shop" where
  "enter_locked p = sbind lock (\<lambda>_. sbind (protect False) (\<lambda>_. ret p))"

definition leave_locked :: "pc \<Rightarrow> pc shop" where
  "leave_locked p = sbind (protect True) (\<lambda>_. sbind unlock (\<lambda>_. ret p))"

text \<open>The search from the entry on: the comparison of the keys, the age, the address.\<close>

definition look_entry :: "(string \<Rightarrow> u32) \<Rightarrow> int \<Rightarrow> int \<Rightarrow> int \<Rightarrow> hstr \<Rightarrow> int \<Rightarrow> pc shop" where
  "look_entry H version age now key e =
     sbind (read_entry e) (\<lambda>(k, d).
     sbind (key_matches H key k) (\<lambda>same.
       if \<not> same then sbind count_miss (\<lambda>_. ret Idle)
       else
         sbind (read_module d) (\<lambda>m.
           if stale version age now m then ret (Find_stale key d)
           else if d \<noteq> maddr m then raise (Throw HANDLEBARS_ERROR ''Shared memory pointer mismatch: %p != %p'')
           else ret (Find_count d))))"

fun move :: "(string \<Rightarrow> u32) \<Rightarrow> int \<Rightarrow> int \<Rightarrow> int \<Rightarrow> pc \<Rightarrow> pc shop" where
  "move H version age now (Find key) = sbind (gets sh_in_reset) (\<lambda>r. ret (if r then Idle else Find_slot key))"
| "move H version age now (Find_slot key) =
     sbind (table_find H key) (\<lambda>e. if e = 0 then sbind count_miss (\<lambda>_. ret Idle) else ret (Find_entry key e))"
| "move H version age now (Find_entry key e) = look_entry H version age now key e"
| "move H version age now (Find_stale key d) = sbind (drop_stale H key) (\<lambda>_. ret (Uncounted d))"
| "move H version age now (Find_count d) =
     sbind (put (\<lambda>s. s\<lparr>sh_hits := sh_hits s + 1, sh_refcount := sh_refcount s + 1\<rparr>)) (\<lambda>_. ret (Using d))"
| "move H version age now (Using d) = sbind mmap_release (\<lambda>_. ret Idle)"
| "move H version age now (Uncounted d) = sbind mmap_release (\<lambda>_. ret Idle)"
| "move H version age now (Add key a m) = sbind (gets sh_in_reset) (\<lambda>r. ret (if r then Idle else Add_lock key a m))"
| "move H version age now (Add_lock key a m) = enter_locked (Add_body key a m)"
| "move H version age now (Add_body key a m) = sbind (add_locked H key a m) (\<lambda>full. ret (Add_unlock full))"
| "move H version age now (Add_unlock full) = leave_locked (if full then Reset else Idle)"
| "move H version age now Reset = sbind (put (\<lambda>s. s\<lparr>sh_in_reset := True\<rparr>)) (\<lambda>_. ret (Reset_wait 0))"
| "move H version age now (Reset_wait c) =
     sbind (gets sh_refcount) (\<lambda>n. ret (if n > 0 \<and> c + 1 \<le> 100 then Reset_wait (c + 1) else Reset_check))"
| "move H version age now Reset_check = sbind (gets sh_refcount) (\<lambda>n. ret (if n > 0 then Reset_end else Reset_lock))"
| "move H version age now Reset_lock = enter_locked Reset_wipe"
| "move H version age now Reset_wipe = sbind wipe_table (\<lambda>_. ret Reset_unlock)"
| "move H version age now Reset_unlock = leave_locked Reset_end"
| "move H version age now Reset_end = sbind (put (\<lambda>s. s\<lparr>sh_in_reset := False\<rparr>)) (\<lambda>_. ret Idle)"
| "move H version age now Idle = ret Idle"
| "move H version age now Crashed = ret Crashed"

section \<open>Interleaving\<close>

fun in_lock :: "pc \<Rightarrow> bool" where
  "in_lock (Add_body _ _ _) = True"
| "in_lock (Add_unlock _) = True"
| "in_lock Reset_wipe = True"
| "in_lock Reset_unlock = True"
| "in_lock _ = False"

fun resetting :: "pc \<Rightarrow> bool" where
  "resetting (Reset_wait _) = True"
| "resetting Reset_check = True"
| "resetting Reset_lock = True"
| "resetting Reset_wipe = True"
| "resetting Reset_unlock = True"
| "resetting Reset_end = True"
| "resetting _ = False"

fun stopped :: "pc \<Rightarrow> bool" where
  "stopped Idle = True"
| "stopped Crashed = True"
| "stopped _ = False"

text \<open>What a process may call: a module to be added is complete, and made by this version of the library.\<close>

fun adding :: "pc \<Rightarrow> (hstr \<times> int \<times> handlebars_module) option" where
  "adding (Add key a m) = Some (key, a, m)"
| "adding (Add_lock key a m) = Some (key, a, m)"
| "adding (Add_body key a m) = Some (key, a, m)"
| "adding _ = None"

definition pc_ok :: "(string \<Rightarrow> u32) \<Rightarrow> int \<Rightarrow> pc \<Rightarrow> bool" where
  "pc_ok H version p \<longleftrightarrow>
     (case adding p of None \<Rightarrow> True | Some (key, a, m) \<Rightarrow> module_ok a m \<and> hash_of H key \<noteq> 0 \<and> mversion m = version)"

fun is_call :: "pc \<Rightarrow> bool" where
  "is_call (Find _) = True"
| "is_call (Add _ _ _) = True"
| "is_call Reset = True"
| "is_call _ = False"

type_synonym config = "shm \<times> pc list"

text \<open>The pages as the process that moves sees them.\<close>

abbreviation seen_by :: "pc \<Rightarrow> shm \<Rightarrow> shm" where
  "seen_by p s \<equiv> s\<lparr>sh_writable := in_lock p\<rparr>"

inductive run_move :: "(string \<Rightarrow> u32) \<Rightarrow> int \<Rightarrow> int \<Rightarrow> config \<Rightarrow> config \<Rightarrow> bool" for H version age where
  moves: "i < length ps \<Longrightarrow> \<not> stopped (ps ! i) \<Longrightarrow> move H version age now (ps ! i) (seen_by (ps ! i) s) = (Inr p, t) \<Longrightarrow>
     run_move H version age (s, ps) (t, ps[i := p])"
| crashes: "i < length ps \<Longrightarrow> move H version age now (ps ! i) (seen_by (ps ! i) s) = (Inl e, t) \<Longrightarrow> e \<noteq> Out_of_fuel \<Longrightarrow>
     run_move H version age (s, ps) (t, ps[i := Crashed])"

inductive race_step :: "(string \<Rightarrow> u32) \<Rightarrow> int \<Rightarrow> int \<Rightarrow> config \<Rightarrow> config \<Rightarrow> bool" for H version age where
  call: "i < length ps \<Longrightarrow> ps ! i = Idle \<Longrightarrow> is_call p \<Longrightarrow> pc_ok H version p \<Longrightarrow>
     race_step H version age (s, ps) (s, ps[i := p])"
| move: "run_move H version age c c' \<Longrightarrow> race_step H version age c c'"

text \<open>The start: a cache that holds modules of this version only, and \<open>n\<close> processes that do nothing.\<close>

definition versions_ok :: "int \<Rightarrow> shm \<Rightarrow> bool" where
  "versions_ok version s \<longleftrightarrow> (\<forall>off n m. sh_mem s off = Some (n, Sh_module m) \<longrightarrow> mversion m = version)"

inductive reachable :: "(string \<Rightarrow> u32) \<Rightarrow> int \<Rightarrow> int \<Rightarrow> config \<Rightarrow> bool" for H version age where
  start: "shm_ok H s \<Longrightarrow> sh_refcount s = 0 \<Longrightarrow> versions_ok version s \<Longrightarrow> reachable H version age (s, replicate n Idle)"
| step: "reachable H version age c \<Longrightarrow> race_step H version age c c' \<Longrightarrow> reachable H version age c'"

section \<open>What a move does\<close>

text \<open>
  The invariant: the core of the block, one process at most under the lock and the flag agrees with that, and a reset
  that is announced is under way.
\<close>

definition race_ok :: "(string \<Rightarrow> u32) \<Rightarrow> int \<Rightarrow> config \<Rightarrow> bool" where
  "race_ok H version c \<longleftrightarrow>
     core_ok H (fst c) \<and> versions_ok version (fst c) \<and>
     length (filter in_lock (snd c)) = (if sh_locked (fst c) then 1 else 0) \<and>
     (sh_in_reset (fst c) \<longrightarrow> (\<exists>p \<in> set (snd c). resetting p)) \<and> (\<forall>p \<in> set (snd c). pc_ok H version p)"

text \<open>The effect of a successful move on what the invariant talks about, on the count of the users and on the objects.\<close>

fun in_use :: "pc \<Rightarrow> bool" where
  "in_use (Using _) = True"
| "in_use _ = False"

fun expired :: "pc \<Rightarrow> bool" where
  "expired (Find_stale _ _) = True"
| "expired (Uncounted _) = True"
| "expired _ = False"

definition move_ok :: "(string \<Rightarrow> u32) \<Rightarrow> int \<Rightarrow> int \<Rightarrow> pc \<Rightarrow> shm \<Rightarrow> pc \<Rightarrow> shm \<Rightarrow> bool" where
  "move_ok H version age p s p' t \<longleftrightarrow>
     core_ok H t \<and> versions_ok version t \<and> pc_ok H version p' \<and>
     (if in_lock p = in_lock p' then sh_locked t = sh_locked s else sh_locked s = in_lock p \<and> sh_locked t = in_lock p') \<and>
     (sh_in_reset t = (if p = Reset then True else if p = Reset_end then False else sh_in_reset s)) \<and>
     (resetting p \<longrightarrow> p \<noteq> Reset_end \<longrightarrow> resetting p') \<and> (p = Reset \<longrightarrow> resetting p') \<and>
     (\<not> expired p \<longrightarrow> age < 0 \<longrightarrow> \<not> expired p' \<and> sh_refcount t = sh_refcount s + of_bool (in_use p') - of_bool (in_use p)) \<and>
     (p \<noteq> Reset_wipe \<longrightarrow> (\<forall>x obj. holds s x obj \<longrightarrow> holds t x obj))"

lemma holds_simps [simp]:
  "holds (s\<lparr>sh_locked := b\<rparr>) = holds s" "holds (s\<lparr>sh_writable := b\<rparr>) = holds s" "holds (s\<lparr>sh_in_reset := b\<rparr>) = holds s"
  "holds (s\<lparr>sh_misses := w\<rparr>) = holds s" "holds (s\<lparr>sh_refcount := r\<rparr>) = holds s" "holds (s\<lparr>sh_hits := w\<rparr>) = holds s"
  by (rule ext, rule ext, simp add: holds_def)+

text \<open>The versions of the modules in the memory.\<close>

lemma versions_simps [simp]:
  "versions_ok v (s\<lparr>sh_locked := b\<rparr>) = versions_ok v s" "versions_ok v (s\<lparr>sh_writable := b\<rparr>) = versions_ok v s"
  "versions_ok v (s\<lparr>sh_in_reset := b\<rparr>) = versions_ok v s" "versions_ok v (s\<lparr>sh_hits := w\<rparr>) = versions_ok v s"
  "versions_ok v (s\<lparr>sh_misses := w\<rparr>) = versions_ok v s" "versions_ok v (s\<lparr>sh_collisions := w\<rparr>) = versions_ok v s"
  "versions_ok v (s\<lparr>sh_refcount := r\<rparr>) = versions_ok v s" "versions_ok v (s\<lparr>sh_table_entries := n\<rparr>) = versions_ok v s"
  "versions_ok v (s\<lparr>sh_slots := xs\<rparr>) = versions_ok v s" "versions_ok v (s\<lparr>sh_data_length := n'\<rparr>) = versions_ok v s"
  by (simp_all add: versions_ok_def)

abbreviation keeps_versions :: "int \<Rightarrow> 'a shop \<Rightarrow> bool" where
  "keeps_versions v m \<equiv> triple (versions_ok v) m (\<lambda>_. versions_ok v)"

lemma keeps_gets: "keeps_versions v (gets f)"
  by (simp add: triple_gets)

lemma keeps_sbind: "keeps_versions v m \<Longrightarrow> (\<And>x. keeps_versions v (f x)) \<Longrightarrow> keeps_versions v (sbind m f)"
  by (rule triple_sbind)

lemma keeps_store: "(\<And>m. obj = Sh_module m \<Longrightarrow> mversion m = v) \<Longrightarrow> keeps_versions v (store off n obj)"
  unfolding store_def
  by (intro keeps_sbind keeps_gets triple_if triple_raise triple_put) (auto simp: versions_ok_def overwrite_def split: option.splits if_splits)

lemma keeps_append: "(\<And>m. obj = Sh_module m \<Longrightarrow> mversion m = v) \<Longrightarrow> keeps_versions v (mmap_append obj n)"
  unfolding mmap_append_def Let_def
  by (intro keeps_sbind keeps_gets triple_if triple_need triple_put triple_ret keeps_store) simp_all

lemma keeps_table_find: "keeps_versions v (table_find H key)"
  unfolding table_find_def table_offset_def by (intro keeps_sbind keeps_gets triple_if triple_raise triple_ret)

lemma keeps_read: "keeps_versions v (read_key a)" "keeps_versions v (read_module a)" "keeps_versions v (read_entry a)"
  unfolding read_key_def read_module_def read_entry_def
  by (intro keeps_sbind keeps_gets; simp split: option.split shobj.split add: triple_raise triple_ret)+

lemma keeps_matches: "keeps_versions v (key_matches H key a)"
  unfolding key_matches_def by (intro keeps_sbind keeps_gets triple_if triple_raise triple_ret keeps_read)

lemma keeps_table_set: "keeps_versions v (table_set H e)"
  unfolding table_set_def table_offset_def write_slot_def
  by (intro keeps_sbind keeps_gets triple_if triple_raise triple_ret triple_put keeps_read keeps_append) simp_all

lemma keeps_add_entry:
  assumes "module_ok a m" "mversion m = v"
  shows "keeps_versions v (add_entry H k d m)"
proof -
  obtain m' where m': "handlebars_module_patch_pointers d m = Inr m'" "mversion m' = v" using core_patched [OF assms(1), of d] assms(2) by auto
  have l: "lift (Inr m') = ret m'" by (rule ext) (simp add: run_basic)
  show ?thesis
    unfolding add_entry_def m'(1) l sbind_ret using m'(2) by (auto intro!: keeps_sbind keeps_gets keeps_store keeps_table_set triple_put)
qed

lemma keeps_add_locked: "module_ok a m \<Longrightarrow> mversion m = v \<Longrightarrow> keeps_versions v (add_locked H key a m)"
  unfolding add_locked_def
  by (auto intro!: keeps_sbind keeps_table_find keeps_read keeps_matches keeps_append keeps_add_entry triple_need triple_put triple_ret
      split: option.split)

section \<open>Every move keeps the invariant\<close>

lemma run_enter: "layout_ok s \<Longrightarrow> enter_locked p s = (if sh_locked s then (Inl Out_of_fuel, s) else (Inr p, opened s))"
  by (simp add: enter_locked_def run_lock run_protect run_basic) (simp add: lock_def sbind_def run_basic)

lemma run_leave: "layout_ok s \<Longrightarrow> leave_locked p s = (Inr p, closed_again s)"
  by (simp add: leave_locked_def run_protect run_unlock run_basic)

lemma pc_ok_simps [simp]: "adding p = None \<Longrightarrow> pc_ok H v p" "pc_ok H v (Add_lock key a m) = pc_ok H v (Add key a m)"
  "pc_ok H v (Add_body key a m) = pc_ok H v (Add key a m)"
  by (simp_all add: pc_ok_def)

text \<open>The moves that cannot fail: all but the look at an entry, which another process may have wiped. A process may have
  to wait for the lock.\<close>

fun takes_lock :: "pc \<Rightarrow> bool" where
  "takes_lock (Find_stale _ _) = True"
| "takes_lock (Add_lock _ _ _) = True"
| "takes_lock Reset_lock = True"
| "takes_lock _ = False"

fun looks :: "pc \<Rightarrow> bool" where
  "looks (Find_entry _ _) = True"
| "looks _ = False"

lemma move_runs:
  assumes core: "core_ok H s" "versions_ok v s" and p: "pc_ok H v p" and locked: "in_lock p \<longrightarrow> sh_locked s" "sh_writable s = in_lock p"
    and free: "\<not> looks p" "takes_lock p \<longrightarrow> \<not> sh_locked s"
  shows "\<exists>p' t. move H v age now p s = (Inr p', t) \<and> move_ok H v age p s p' t"
proof -
  have lay: "layout_ok s" using core(1) by (simp add: core_ok_def)
  show ?thesis
  proof (cases p)
    case (Find_stale key d)
    obtain t where t: "drop_stale H key s = (Inr (), t)" "core_ok H t" "same_flags s t" "sh_mem t = sh_mem s"
        "sh_data_length t = sh_data_length s"
      using drop_stale_ok [OF core(1), of key] locked(2) free(2) Find_stale by auto
    then have "versions_ok v t" using core(2) by (simp add: versions_ok_def)
    with t show ?thesis by (simp add: Find_stale sbind_def run_basic move_ok_def same_flags_def holds_def)
  next
    case (Add_body key a m)
    then have m: "module_ok a m" "hash_of H key \<noteq> 0" "mversion m = v" using p by (simp_all add: pc_ok_def)
    have "sh_writable s" using locked(2) Add_body by simp
    from add_locked_ok [OF core(1) this m(1,2)]
    obtain full t where t: "add_locked H key a m s = (Inr full, t)" "core_ok H t" "same_flags s t"
      "\<forall>x obj. holds s x obj \<longrightarrow> holds t x obj" by auto
    have "versions_ok v t" using tripleD [OF keeps_add_locked [OF m(1,3)] core(2) t(1)] .
    with t locked(1) show ?thesis by (simp add: Add_body sbind_def run_basic move_ok_def same_flags_def)
  next
    case Reset_wipe
    then have "sh_writable s" using locked(2) by simp
    moreover have "core_ok H (s\<lparr>sh_table_entries := 0, sh_data_length := 0, sh_slots := map (\<lambda>_. 0) (sh_slots s)\<rparr>)"
      using wiped_core [OF lay, of H] by (simp add: wiped_def)
    ultimately show ?thesis using core Reset_wipe locked by (simp add: sbind_def run_wipe_table run_basic move_ok_def)
  qed (use core p locked free lay in \<open>auto simp: run_find count_miss_def run_state run_basic run_enter run_leave mmap_release_def move_ok_def
      split: if_splits\<close>)
qed

text \<open>The look at an entry changes a counter at most; it can fail, but it never waits.\<close>

lemma read_result:
  "read_key a s = (case sh_object s a of Some (Sh_key k) \<Rightarrow> (Inr k, s) | _ \<Rightarrow> (Inl Mem_error, s))"
  "read_module a s = (case sh_object s a of Some (Sh_module m) \<Rightarrow> (Inr m, s) | _ \<Rightarrow> (Inl Mem_error, s))"
  "read_entry a s = (case sh_object s a of Some (Sh_entry x y) \<Rightarrow> (Inr (x, y), s) | _ \<Rightarrow> (Inl Mem_error, s))"
  by (simp_all add: read_key_def read_module_def read_entry_def run_state split: option.split shobj.split) (simp_all add: run_basic)

lemma matches_result:
  "key_matches H key a s = (r, t) \<Longrightarrow> t = s \<and> (r = Inl Mem_error \<or> (\<exists>b. r = Inr b))"
  by (auto simp: key_matches_def sbind_def [of "read_key _"] read_result run_state run_basic split: option.splits shobj.splits if_splits)

lemma module_version: "versions_ok v s \<Longrightarrow> sh_object s d = Some (Sh_module m) \<Longrightarrow> mversion m = v"
  by (auto simp: versions_ok_def sh_object_def split: option.splits)

lemma look_result:
  assumes "versions_ok v s" "look_entry H v age now key e s = (r, t)"
  shows "t = s \<and> (\<exists>x. r = Inl x \<and> x \<noteq> Out_of_fuel) \<or> t = s\<lparr>sh_misses := sh_misses s + 1\<rparr> \<and> r = Inr Idle \<or>
     t = s \<and> age \<ge> 0 \<and> (\<exists>d. r = Inr (Find_stale key d)) \<or>
     t = s \<and> (\<exists>d m. r = Inr (Find_count d) \<and> sh_object s d = Some (Sh_module m) \<and> maddr m = d)"
proof (cases "\<exists>k d. sh_object s e = Some (Sh_entry k d)")
  case False
  then have "look_entry H v age now key e s = (Inl Mem_error, s)"
    by (auto simp: look_entry_def sbind_def [of "read_entry _"] read_result split: option.splits shobj.splits)
  with assms(2) show ?thesis by auto
next
  case True
  then obtain k d where e: "sh_object s e = Some (Sh_entry k d)" by blast
  obtain b u where b: "key_matches H key k s = (b, u)" by fastforce
  have u: "u = s" "b = Inl Mem_error \<or> (\<exists>same. b = Inr same)" using matches_result [OF b] by simp_all
  define module where "module = (case sh_object s d of Some (Sh_module m) \<Rightarrow> Some m | _ \<Rightarrow> None)"
  have read: "read_module d s = (case module of Some m \<Rightarrow> (Inr m, s) | None \<Rightarrow> (Inl Mem_error, s))"
    by (auto simp: read_result module_def split: option.split shobj.split)
  have m: "sh_object s d = Some (Sh_module m) \<and> mversion m = v" if "module = Some m" for m
    using that module_version [OF assms(1), of d] by (auto simp: module_def split: option.splits shobj.splits)
  have step: "look_entry H v age now key e s =
      (case b of
         Inl x \<Rightarrow> (Inl x, s)
       | Inr False \<Rightarrow> (Inr Idle, s\<lparr>sh_misses := sh_misses s + 1\<rparr>)
       | Inr True \<Rightarrow>
           (case module of
              None \<Rightarrow> (Inl Mem_error, s)
            | Some m \<Rightarrow>
                if stale v age now m then (Inr (Find_stale key d), s)
                else if d \<noteq> maddr m then (Inl (Throw HANDLEBARS_ERROR ''Shared memory pointer mismatch: %p != %p''), s)
                else (Inr (Find_count d), s)))"
    using b u(1) by (simp add: look_entry_def sbind_def read_result(3) e read count_miss_def run_basic split: sum.split bool.split option.split)
  show ?thesis
    using assms(2) u(2) m unfolding step by (auto simp: stale_def split: sum.splits bool.splits option.splits if_splits)
qed

lemma look_ok:
  assumes "core_ok H s" "versions_ok v s" "pc_ok H v p" "looks p" "move H v age now p s = (Inr p', t)"
  shows "move_ok H v age p s p' t"
proof -
  obtain key e where p: "p = Find_entry key e" using assms(4) by (cases p) simp_all
  with look_result [OF assms(2), of H age now key e "Inr p'" t] assms show ?thesis by (auto simp: move_ok_def)
qed

section \<open>The invariant\<close>

lemma filter_update:
  "i < length xs \<Longrightarrow> int (length (filter P (xs[i := x]))) = int (length (filter P xs)) - of_bool (P (xs ! i)) + of_bool (P x)"
proof (induction xs arbitrary: i)
  case (Cons y ys)
  then show ?case by (cases i) auto
qed simp

lemma filter_nth: "i < length xs \<Longrightarrow> P (xs ! i) \<Longrightarrow> 0 < length (filter P xs)"
  by (metis filter_empty_conv length_greater_0_conv nth_mem)

lemma filter_once: "length (filter P xs) \<le> 1 \<Longrightarrow> i < length xs \<Longrightarrow> j < length xs \<Longrightarrow> P (xs ! i) \<Longrightarrow> P (xs ! j) \<Longrightarrow> i = j"
proof (induction xs arbitrary: i j)
  case (Cons y ys)
  have "\<not> P (ys ! k)" if "P y" "k < length ys" for k using Cons.prems(1) that filter_nth [of k ys P] by auto
  with Cons show ?case by (cases i; cases j) (auto split: if_splits)
qed simp

lemma set_update_ex: "i < length xs \<Longrightarrow> (\<exists>x \<in> set xs. P x) \<Longrightarrow> P (xs ! i) \<longrightarrow> P y \<Longrightarrow> \<exists>x \<in> set (xs[i := y]). P x"
  by (metis in_set_conv_nth length_list_update nth_list_update_eq nth_list_update_neq)

lemma update_race_ok:
  assumes ok: "race_ok H v (s, ps)" and i: "i < length ps" and m: "move_ok H v age (ps ! i) (s\<lparr>sh_writable := w\<rparr>) p t"
  shows "race_ok H v (t, ps[i := p])"
proof -
  have locks: "length (filter in_lock (ps[i := p])) = (if sh_locked t then 1 else 0)"
    using ok m filter_update [OF i, of in_lock p] by (auto simp: race_ok_def move_ok_def split: if_splits)
  have "\<exists>q \<in> set (ps[i := p]). resetting q" if "sh_in_reset t"
  proof (cases "ps ! i = Reset \<or> resetting (ps ! i)")
    case True
    then have "resetting p" using m that by (auto simp: move_ok_def split: if_splits)
    with i show ?thesis by (metis in_set_conv_nth length_list_update nth_list_update_eq)
  next
    case False
    then have "sh_in_reset s" using m that by (auto simp: move_ok_def split: if_splits)
    with ok False show ?thesis by (intro set_update_ex [OF i]) (auto simp: race_ok_def)
  qed
  moreover have "\<forall>q \<in> set (ps[i := p]). pc_ok H v q"
    using ok m set_update_subset_insert [of ps i p] by (auto simp: race_ok_def move_ok_def)
  ultimately show ?thesis using m locks by (simp add: race_ok_def move_ok_def)
qed

lemma race_seen:
  assumes "race_ok H v (s, ps)" "i < length ps"
  shows "core_ok H (seen_by (ps ! i) s)" "versions_ok v (seen_by (ps ! i) s)" "pc_ok H v (ps ! i)"
    "in_lock (ps ! i) \<longrightarrow> sh_locked (seen_by (ps ! i) s)"
  using assms filter_nth [OF assms(2), of in_lock] by (auto simp: race_ok_def split: if_splits)

text \<open>Only a look fails, and only a step under the lock that another process holds waits.\<close>

lemma move_fails:
  assumes "race_ok H v (s, ps)" "i < length ps" "move H v age now (ps ! i) (seen_by (ps ! i) s) = (Inl e, t)"
  shows "looks (ps ! i) \<and> t = seen_by (ps ! i) s \<and> e \<noteq> Out_of_fuel \<or> takes_lock (ps ! i) \<and> sh_locked s"
proof (cases "looks (ps ! i)")
  case True
  then obtain key e' where "ps ! i = Find_entry key e'" by (cases "ps ! i") simp_all
  with look_result [OF race_seen(2) [OF assms(1,2)]] assms(3) True show ?thesis by fastforce
next
  case False
  with move_runs [OF race_seen [OF assms(1,2)] _ False, of age now] assms(3) show ?thesis by fastforce
qed

lemma blocked: "core_ok H s \<Longrightarrow> takes_lock p \<Longrightarrow> sh_locked s \<Longrightarrow> move H v age now p s = (Inl Out_of_fuel, s)"
  by (cases p) (auto simp: run_enter core_ok_def drop_stale_def lock_def sbind_def run_basic)

lemma move_succeeds:
  assumes "race_ok H v (s, ps)" "i < length ps" "move H v age now (ps ! i) (seen_by (ps ! i) s) = (Inr p, t)"
  shows "move_ok H v age (ps ! i) (seen_by (ps ! i) s) p t"
proof (cases "looks (ps ! i)")
  case True
  from look_ok [OF race_seen(1-3) [OF assms(1,2)] True assms(3)] show ?thesis .
next
  case False
  have "takes_lock (ps ! i) \<longrightarrow> \<not> sh_locked s" using blocked [OF race_seen(1) [OF assms(1,2)], of "ps ! i"] assms(3) by auto
  with move_runs [OF race_seen [OF assms(1,2)] _ False, of age now] assms(3) show ?thesis by auto
qed

lemma crash_looks:
  assumes "race_ok H v (s, ps)" "i < length ps" "move H v age now (ps ! i) (seen_by (ps ! i) s) = (Inl e, t)" "e \<noteq> Out_of_fuel"
  shows "looks (ps ! i)" "t = seen_by (ps ! i) s"
  using move_fails [OF assms(1-3)] blocked [OF race_seen(1) [OF assms(1,2)], of "ps ! i"] assms(3,4) by auto

lemma run_move_ok: "run_move H v age c c' \<Longrightarrow> race_ok H v c \<Longrightarrow> race_ok H v c'"
proof (induction rule: run_move.induct)
  case (moves i ps now s p t)
  then show ?case using update_race_ok move_succeeds by blast
next
  case (crashes i ps now s e t)
  note look = crash_looks [OF crashes.prems crashes.hyps]
  then have "move_ok H v age (ps ! i) (seen_by (ps ! i) s) Crashed t"
    using race_seen(1,2) [OF crashes.prems crashes.hyps(1)] by (cases "ps ! i") (auto simp: move_ok_def)
  then show ?case by (rule update_race_ok [OF crashes.prems crashes.hyps(1)])
qed

lemma race_step_ok: "race_step H v age c c' \<Longrightarrow> race_ok H v c \<Longrightarrow> race_ok H v c'"
proof (induction rule: race_step.induct)
  case (call i ps p s)
  have "move_ok H v age (ps ! i) (s\<lparr>sh_writable := sh_writable s\<rparr>) p s"
    using call by (cases p) (auto simp: race_ok_def move_ok_def)
  then show ?case by (rule update_race_ok [OF call.prems call.hyps(1)])
qed (rule run_move_ok)

lemma reachable_ok: "reachable H v age c \<Longrightarrow> race_ok H v c"
proof (induction rule: reachable.induct)
  case (start s n)
  then show ?case by (auto simp: race_ok_def shm_ok_def)
next
  case (step c c')
  then show ?case by (blast intro: race_step_ok)
qed

text \<open>As long as nothing expires, the count is the number of the processes that use a module.\<close>

definition count_ok :: "config \<Rightarrow> bool" where
  "count_ok c \<longleftrightarrow> (\<forall>p \<in> set (snd c). \<not> expired p) \<and> sh_refcount (fst c) = int (length (filter in_use (snd c)))"

lemma update_count:
  assumes "count_ok (s, ps)" "i < length ps" "\<not> expired p" "sh_refcount t = sh_refcount s + of_bool (in_use p) - of_bool (in_use (ps ! i))"
  shows "count_ok (t, ps[i := p])"
  using assms filter_update [OF assms(2), of in_use p] set_update_subset_insert [of ps i p] by (auto simp: count_ok_def)

lemma reachable_count: "reachable H v age c \<Longrightarrow> age < 0 \<Longrightarrow> count_ok c"
proof (induction rule: reachable.induct)
  case (start s n)
  then show ?case by (simp add: count_ok_def)
next
  case (step c c')
  have ok: "race_ok H v c" "count_ok c" using step.IH [OF step.prems] reachable_ok [OF step.hyps(1)] by simp_all
  from step.hyps(2) show ?case
  proof cases
    case (call i ps p s)
    then show ?thesis using update_count [of s ps i p s] ok(2) by (cases p) simp_all
  next
    case move
    then show ?thesis
    proof cases
      case (moves i ps now s p t)
      have "\<not> expired (ps ! i)" using ok(2) moves by (simp add: count_ok_def)
      then show ?thesis
        using move_succeeds [of H v s ps i age now p t] ok moves step.prems unfolding moves(2)
        by (intro update_count) (simp_all add: move_ok_def)
    next
      case (crashes i ps now s e t)
      then show ?thesis
        using crash_looks [of H v s ps i age now e t] ok by (cases "ps ! i") (auto intro!: update_count)
    qed
  qed
qed

section \<open>Every call comes to its end\<close>

fun steps_left :: "pc \<Rightarrow> nat" where
  "steps_left Idle = 0"
| "steps_left Crashed = 0"
| "steps_left (Using _) = 1"
| "steps_left (Uncounted _) = 1"
| "steps_left (Find_count _) = 2"
| "steps_left (Find_stale _ _) = 2"
| "steps_left (Find_entry _ _) = 3"
| "steps_left (Find_slot _) = 4"
| "steps_left (Find _) = 5"
| "steps_left Reset_end = 1"
| "steps_left Reset_unlock = 2"
| "steps_left Reset_wipe = 3"
| "steps_left Reset_lock = 4"
| "steps_left Reset_check = 5"
| "steps_left (Reset_wait c) = 6 + (100 - c)"
| "steps_left Reset = 107"
| "steps_left (Add_unlock _) = 108"
| "steps_left (Add_body _ _ _) = 109"
| "steps_left (Add_lock _ _ _) = 110"
| "steps_left (Add _ _ _) = 111"

lemma move_steps:
  assumes "versions_ok v s" "\<not> stopped p" "move H v age now p s = (Inr p', t)"
  shows "steps_left p' < steps_left p"
proof (cases p)
  case (Find_entry key e)
  with look_result [OF assms(1), of H age now key e "Inr p'" t] assms(3) show ?thesis by auto
qed (use assms(2,3) in \<open>auto simp: enter_locked_def leave_locked_def run_basic elim!: sbind_Inr split: if_splits\<close>)

definition load :: "config \<Rightarrow> nat" where
  "load c = sum_list (map steps_left (snd c))"

lemma update_load: "i < length ps \<Longrightarrow> steps_left p < steps_left (ps ! i) \<Longrightarrow> load (t, ps[i := p]) < load (s, ps)"
  using elem_le_sum_list [of i "map steps_left ps"] by (simp add: load_def map_update sum_list_update)

lemma can_move:
  assumes ok: "race_ok H v (s, ps)" and i: "i < length ps" "\<not> stopped (ps ! i)" and free: "takes_lock (ps ! i) \<longrightarrow> \<not> sh_locked s"
  shows "\<exists>c. run_move H v age (s, ps) c \<and> load c < load (s, ps)"
proof -
  let ?p = "ps ! i"
  obtain r t where r: "move H v age 0 ?p (seen_by ?p s) = (r, t)" by fastforce
  show ?thesis
  proof (cases r)
    case (Inl e)
    have "e \<noteq> Out_of_fuel" using move_fails [OF ok i(1) r [unfolded Inl]] free by blast
    moreover have "steps_left Crashed < steps_left ?p" using i(2) by (cases ?p) simp_all
    ultimately show ?thesis using crashes [OF i(1) r [unfolded Inl]] update_load [OF i(1)] by blast
  next
    case (Inr p)
    from moves [OF i r [unfolded Inr]] update_load [OF i(1) move_steps [OF race_seen(2) [OF ok i(1)] i(2) r [unfolded Inr]]]
    show ?thesis by blast
  qed
qed

text \<open>The process under the lock can move; when there is none, every process can.\<close>

lemma someone_moves:
  assumes ok: "race_ok H v (s, ps)" and busy: "\<exists>p \<in> set ps. \<not> stopped p"
  shows "\<exists>c. run_move H v age (s, ps) c \<and> load c < load (s, ps)"
proof (cases "sh_locked s")
  case True
  then have "filter in_lock ps \<noteq> []" using ok by (auto simp: race_ok_def)
  then obtain i where i: "i < length ps" "in_lock (ps ! i)" by (auto simp: filter_empty_conv in_set_conv_nth)
  then have "\<not> stopped (ps ! i)" "\<not> takes_lock (ps ! i)" by (cases "ps ! i"; simp)+
  with can_move [OF ok i(1)] show ?thesis by blast
next
  case False
  obtain i where "i < length ps" "\<not> stopped (ps ! i)" using busy by (auto simp: in_set_conv_nth)
  with can_move [OF ok] False show ?thesis by blast
qed

lemma quiesces: "race_ok H v c \<Longrightarrow> \<exists>c'. (run_move H v age)\<^sup>*\<^sup>* c c' \<and> race_ok H v c' \<and> (\<forall>p \<in> set (snd c'). stopped p)"
proof (induction "load c" arbitrary: c rule: less_induct)
  case less
  show ?case
  proof (cases "\<forall>p \<in> set (snd c). stopped p")
    case True
    with less.prems show ?thesis by blast
  next
    case False
    then obtain d where d: "run_move H v age c d" "load d < load c"
      using someone_moves [of H v "fst c" "snd c" age] less.prems by auto
    from less.hyps [OF d(2) run_move_ok [OF d(1) less.prems]] show ?thesis
      using d(1) by (meson converse_rtranclp_into_rtranclp)
  qed
qed

lemma at_rest:
  assumes "race_ok H v c" "\<forall>p \<in> set (snd c). stopped p"
  shows "shm_ok H (seen_by Idle (fst c))"
proof -
  have "\<not> in_lock p \<and> \<not> resetting p" if "stopped p" for p using that by (cases p) simp_all
  with assms have "filter in_lock (snd c) = []" "\<not> sh_in_reset (fst c)" by (auto simp: race_ok_def filter_empty_conv)
  with assms(1) show ?thesis by (simp add: race_ok_def shm_ok_def split: if_splits)
qed

section \<open>What only a wipe ends\<close>

lemma step_holds:
  assumes "race_step H v age c c'" "race_ok H v c" "Reset_wipe \<notin> set (snd c)" "holds (fst c) x obj"
  shows "holds (fst c') x obj"
  using assms(1)
proof cases
  case (call i ps p s)
  with assms(4) show ?thesis by simp
next
  case move
  then show ?thesis
  proof cases
    case (moves i ps now s p t)
    then have "ps ! i \<noteq> Reset_wipe" using assms(3) nth_mem by fastforce
    with move_succeeds [of H v s ps i age now p t] moves assms(2,4) show ?thesis by (simp add: move_ok_def)
  next
    case (crashes i ps now s e t)
    with crash_looks [of H v s ps i age now e t] assms(2,4) show ?thesis by simp
  qed
qed

text \<open>Runs in which no process is about to wipe.\<close>

definition calm :: "(string \<Rightarrow> u32) \<Rightarrow> int \<Rightarrow> int \<Rightarrow> config \<Rightarrow> config \<Rightarrow> bool" where
  "calm H version age c c' \<longleftrightarrow> race_step H version age c c' \<and> Reset_wipe \<notin> set (snd c)"

lemma calm_holds: "(calm H v age)\<^sup>*\<^sup>* c c' \<Longrightarrow> race_ok H v c \<Longrightarrow> holds (fst c) x obj \<Longrightarrow> race_ok H v c' \<and> holds (fst c') x obj"
proof (induction rule: rtranclp_induct)
  case (step d e)
  then show ?case using race_step_ok step_holds by (simp add: calm_def) blast
qed simp

section \<open>A call that is not interleaved\<close>

lemma solo_step:
  assumes "i < length ps" "\<not> stopped p" "sh_writable s = in_lock p" "move H v age now p s = (Inr p', t)"
  shows "run_move H v age (s, ps[i := p]) (t, ps[i := p'])"
proof -
  have "seen_by p s = s" using assms(3) by simp
  with moves [of i "ps[i := p]" H v age now s p' t] assms show ?thesis by simp
qed

definition solo :: "(string \<Rightarrow> u32) \<Rightarrow> int \<Rightarrow> int \<Rightarrow> nat \<Rightarrow> pc list \<Rightarrow> shm \<times> pc \<Rightarrow> shm \<times> pc \<Rightarrow> bool" where
  "solo H version age i ps x y \<longleftrightarrow> (run_move H version age)\<^sup>*\<^sup>* (fst x, ps[i := snd x]) (fst y, ps[i := snd y])"

lemma solo_refl: "solo H v age i ps x x"
  by (simp add: solo_def)

lemma solo_first:
  assumes "i < length ps" "\<not> stopped p" "sh_writable s = in_lock p" "move H v age now p s = (Inr p', t)" "solo H v age i ps (t, p') y"
  shows "solo H v age i ps (s, p) y"
  using solo_step [OF assms(1-4)] assms(5) unfolding solo_def fst_conv snd_conv by (rule converse_rtranclp_into_rtranclp)

lemma solo_trans: "solo H v age i ps x y \<Longrightarrow> solo H v age i ps y z \<Longrightarrow> solo H v age i ps x z"
  unfolding solo_def by (rule rtranclp_trans)

lemma solo_wait:
  assumes i: "i < length ps" and s: "\<not> sh_writable s"
  shows "solo H v age i ps (s, Reset_wait c) (s, Reset_check)"
proof (induction "100 - c" arbitrary: c)
  case 0
  then have "move H v age 0 (Reset_wait c) s = (Inr Reset_check, s)" by (simp add: run_basic run_state)
  from solo_first [OF i _ _ this solo_refl] s show ?case by simp
next
  case (Suc n)
  show ?case
  proof (cases "sh_refcount s > 0 \<and> c + 1 \<le> 100")
    case True
    then have "move H v age 0 (Reset_wait c) s = (Inr (Reset_wait (c + 1)), s)" by (simp add: run_basic run_state)
    moreover have "solo H v age i ps (s, Reset_wait (c + 1)) (s, Reset_check)" using Suc by (intro Suc.hyps) simp
    ultimately show ?thesis using solo_first [OF i, of "Reset_wait c" s H v age 0 "Reset_wait (c + 1)" s] s by simp
  next
    case False
    then have "move H v age 0 (Reset_wait c) s = (Inr Reset_check, s)" by (simp add: run_basic run_state)
    from solo_first [OF i _ _ this solo_refl] s show ?thesis by simp
  qed
qed

lemma solo_reset:
  assumes i: "i < length ps" and s: "core_ok H s" "\<not> sh_locked s" "\<not> sh_writable s"
  shows "\<exists>t. mmap_reset s = (Inr (), t) \<and> solo H v age i ps (s, Reset) (t, Idle)"
proof -
  let ?s = "s\<lparr>sh_in_reset := True\<rparr>"
  have lay: "layout_ok ?s" "\<not> sh_locked ?s" using s by (simp_all add: core_ok_def)
  have start: "solo H v age i ps (s, Reset) (?s, Reset_check)"
    using solo_first [OF i _ _ _ solo_wait [OF i, of ?s], of Reset s H v age 0 0] s(3) by (simp add: run_state run_basic)
  show ?thesis
  proof (cases "sh_refcount s > 0")
    case True
    have "solo H v age i ps (?s, Reset_end) (s\<lparr>sh_in_reset := False\<rparr>, Idle)"
      using solo_first [OF i _ _ _ solo_refl, of Reset_end ?s H v age 0] s(3) by (simp add: run_state run_basic)
    then have "solo H v age i ps (?s, Reset_check) (s\<lparr>sh_in_reset := False\<rparr>, Idle)"
      using solo_first [OF i, of Reset_check ?s H v age 0 Reset_end ?s] s(3) True by (simp add: run_state run_basic)
    moreover have "mmap_reset s = (Inr (), s\<lparr>sh_in_reset := False\<rparr>)" using True by (simp add: mmap_reset_def run_state) (simp add: run_basic)
    ultimately show ?thesis using solo_trans [OF start] by blast
  next
    case False
    let ?u = "(opened ?s)\<lparr>sh_table_entries := 0, sh_data_length := 0, sh_slots := map (\<lambda>_. 0) (sh_slots s)\<rparr>"
    have u: "layout_ok ?u" using lay(1) by (auto simp: layout_ok_def)
    have "solo H v age i ps (closed_again ?u, Reset_end) ((closed_again ?u)\<lparr>sh_in_reset := False\<rparr>, Idle)"
      using solo_first [OF i _ _ _ solo_refl, of Reset_end "closed_again ?u" H v age 0] by (simp add: run_state run_basic)
    then have "solo H v age i ps (?u, Reset_unlock) ((closed_again ?u)\<lparr>sh_in_reset := False\<rparr>, Idle)"
      using solo_first [OF i, of Reset_unlock ?u H v age 0 Reset_end "closed_again ?u"] run_leave [OF u, of Reset_end] by simp
    then have "solo H v age i ps (opened ?s, Reset_wipe) ((closed_again ?u)\<lparr>sh_in_reset := False\<rparr>, Idle)"
      using solo_first [OF i, of Reset_wipe "opened ?s" H v age 0 Reset_unlock ?u] by (simp add: sbind_def run_wipe_table run_basic)
    then have "solo H v age i ps (?s, Reset_lock) ((closed_again ?u)\<lparr>sh_in_reset := False\<rparr>, Idle)"
      using solo_first [OF i, of Reset_lock ?s H v age 0 Reset_wipe "opened ?s"] run_enter [OF lay(1), of Reset_wipe] lay(2) s(3) by simp
    then have "solo H v age i ps (?s, Reset_check) ((closed_again ?u)\<lparr>sh_in_reset := False\<rparr>, Idle)"
      using solo_first [OF i, of Reset_check ?s H v age 0 Reset_lock ?s] s(3) False by (simp add: run_state run_basic)
    moreover have "mmap_reset s = (Inr (), (closed_again ?u)\<lparr>sh_in_reset := False\<rparr>)"
      using run_wipe [OF lay] False by (simp add: mmap_reset_def run_state sbind_def [of reset_wipe] wiped_def) (simp add: run_basic)
    ultimately show ?thesis using solo_trans [OF start] by blast
  qed
qed

lemma solo_add:
  assumes i: "i < length ps" and s: "shm_ok H s" and m: "module_ok a m" "hash_of H key \<noteq> 0"
  shows "\<exists>t. mmap_add H key a m s = (Inr (), t) \<and> solo H v age i ps (s, Add key a m) (t, Idle)"
proof -
  have core: "core_ok H (opened s)" "layout_ok s" "\<not> sh_locked s" "\<not> sh_writable s" "\<not> sh_in_reset s"
    using s by (simp_all add: shm_ok_def) (simp add: core_ok_def)
  obtain full t where t: "add_locked H key a m (opened s) = (Inr full, t)" "core_ok H t" "same_flags (opened s) t"
    using add_locked_ok [OF core(1) _ m] by auto
  have lay: "layout_ok t" and flags: "sh_writable t" "\<not> sh_in_reset t" using t(2,3) core(5) by (simp_all add: core_ok_def same_flags_def)
  let ?next = "if full then Reset else Idle"
  have "solo H v age i ps (t, Add_unlock full) (closed_again t, ?next)"
    using solo_first [OF i _ _ _ solo_refl, of "Add_unlock full" t H v age 0] run_leave [OF lay, of ?next] flags by simp
  then have "solo H v age i ps (opened s, Add_body key a m) (closed_again t, ?next)"
    using solo_first [OF i, of "Add_body key a m" "opened s" H v age 0 "Add_unlock full" t] t(1) by (simp add: sbind_def run_basic)
  then have "solo H v age i ps (s, Add_lock key a m) (closed_again t, ?next)"
    using solo_first [OF i, of "Add_lock key a m" s H v age 0 "Add_body key a m" "opened s"] run_enter [OF core(2), of "Add_body key a m"] core(3,4)
    by simp
  then have path: "solo H v age i ps (s, Add key a m) (closed_again t, ?next)"
    using solo_first [OF i, of "Add key a m" s H v age 0 "Add_lock key a m" s] core(4,5) by (simp add: run_state run_basic)
  have run: "mmap_add H key a m s = (if full then mmap_reset else ret ()) (closed_again t)" by (rule add_unfold [OF s t(1,2)])
  show ?thesis
  proof (cases full)
    case True
    have "core_ok H (closed_again t)" using t(2) by simp
    from solo_reset [OF i this, of v age] run path True show ?thesis by (auto intro: solo_trans)
  next
    case False
    with run path show ?thesis by (simp add: run_basic)
  qed
qed

text \<open>The search is the look at the entry and what follows from it.\<close>

lemma mmap_find_look:
  assumes "layout_ok s" "\<not> sh_in_reset s"
  shows "mmap_find H v age now key s =
     (let e = sh_slots s ! slot_of H key s in
       if e = 0 then (Inr None, s\<lparr>sh_misses := sh_misses s + 1\<rparr>)
       else
         (case look_entry H v age now key e s of
            (Inr (Find_stale k d), t) \<Rightarrow> sbind (drop_stale H key) (\<lambda>_. ret (Some d)) t
          | (Inr (Find_count d), t) \<Rightarrow> (Inr (Some d), t\<lparr>sh_hits := sh_hits t + 1, sh_refcount := sh_refcount t + 1\<rparr>)
          | (Inr _, t) \<Rightarrow> (Inr None, t)
          | (Inl x, t) \<Rightarrow> (Inl x, t)))"
  using assms
  by (simp add: mmap_find_def look_entry_def run_state run_find Let_def count_miss_def)
     (simp add: sbind_def run_basic split: sum.split prod.split)

text \<open>What the caller of a search holds.\<close>

definition returned :: "int option \<Rightarrow> pc \<Rightarrow> bool" where
  "returned r p \<longleftrightarrow> (case r of None \<Rightarrow> p = Idle | Some d \<Rightarrow> p = Using d \<or> p = Uncounted d)"

lemma solo_find:
  assumes i: "i < length ps" and s: "shm_ok H s" "versions_ok v s"
  shows "\<exists>r t p. mmap_find H v age now key s = (Inr r, t) \<and> returned r p \<and> solo H v age i ps (s, Find key) (t, p)"
proof -
  have core: "core_ok H s" "layout_ok s" "\<not> sh_locked s" "\<not> sh_writable s" "\<not> sh_in_reset s"
    using s(1) by (simp_all add: shm_ok_def core_ok_def)
  let ?e = "sh_slots s ! slot_of H key s"
  have first: "solo H v age i ps (s, Find key) y" if "solo H v age i ps (s, Find_slot key) y" for y
    using solo_first [OF i _ _ _ that, of "Find key" s 0] core(4,5) by (simp add: run_state run_basic)
  show ?thesis
  proof (cases "?e = 0")
    case True
    have "solo H v age i ps (s, Find_slot key) (s\<lparr>sh_misses := sh_misses s + 1\<rparr>, Idle)"
      using solo_first [OF i _ _ _ solo_refl, of "Find_slot key" s H v age 0] core(2,4) True
      by (simp add: run_find count_miss_def run_state run_basic)
    with first mmap_find_look [OF core(2,5), of H v age now key] True show ?thesis by (auto simp: returned_def)
  next
    case False
    obtain r t where r: "look_entry H v age now key ?e s = (r, t)" by fastforce
    note run = mmap_find_look [OF core(2,5), of H v age now key, unfolded Let_def if_not_P [OF False] r]
    have slot: "solo H v age i ps (s, Find key) y" if "solo H v age i ps (s, Find_entry key ?e) y" for y
      using first [OF solo_first [OF i _ _ _ that, of "Find_slot key" s 0]] core(2,4) False by (simp add: run_find run_basic)
    have look: "solo H v age i ps (s, Find key) y" if "r = Inr p" "solo H v age i ps (t, p) y" for p y
      using slot [OF solo_first [OF i _ _ _ that(2), of "Find_entry key ?e" s now]] core(4) r that(1) by simp
    obtain r' t' where total: "mmap_find H v age now key s = (Inr r', t')" using mmap_find_ok [OF s(1)] by blast
    from look_result [OF s(2) r] consider x where "r = Inl x" | "r = Inr Idle"
      | d where "t = s" "r = Inr (Find_stale key d)" | d where "t = s" "r = Inr (Find_count d)" by blast
    then show ?thesis
    proof cases
      case 1
      with run total show ?thesis by simp
    next
      case 2
      with run look [OF 2 solo_refl] show ?thesis by (auto simp: returned_def)
    next
      case (3 d)
      obtain u where u: "drop_stale H key s = (Inr (), u)" using drop_stale_ok [OF core(1,3,4)] by blast
      have "solo H v age i ps (t, Find_stale key d) (u, Uncounted d)"
        using solo_first [OF i _ _ _ solo_refl, of "Find_stale key d" s H v age 0] core(4) u 3(1) by (simp add: sbind_def run_basic)
      from look [OF 3(2) this] run 3 u show ?thesis by (auto simp: returned_def sbind_def run_basic)
    next
      case (4 d)
      let ?u = "s\<lparr>sh_hits := sh_hits s + 1, sh_refcount := sh_refcount s + 1\<rparr>"
      have "solo H v age i ps (t, Find_count d) (?u, Using d)"
        using solo_first [OF i _ _ _ solo_refl, of "Find_count d" s H v age 0] core(4) 4(1) by (simp add: run_state run_basic)
      from look [OF 4(2) this] run 4 show ?thesis by (auto simp: returned_def)
    qed
  qed
qed

section \<open>A reset overtakes a search\<close>

lemma run_unseen:
  assumes "run_move H v age (s\<lparr>sh_writable := w\<rparr>, ps) c"
  shows "run_move H v age (s, ps) c"
  using assms
proof cases
  case (moves i now p t)
  then show ?thesis using run_move.moves [of i ps H v age now s p t] by simp
next
  case (crashes i now e t)
  then show ?thesis using run_move.crashes [of i ps H v age now s e t] by simp
qed

lemma solo_unseen:
  assumes "solo H v age i ps (s\<lparr>sh_writable := w\<rparr>, p) (t, q)" "p \<noteq> q" "i < length ps"
  shows "(run_move H v age)\<^sup>*\<^sup>* (s, ps[i := p]) (t, ps[i := q])"
  using assms(1) unfolding solo_def fst_conv snd_conv
proof (cases rule: converse_rtranclpE)
  case base
  then have "ps[i := p] ! i = ps[i := q] ! i" by simp
  with assms(2,3) show ?thesis by simp
next
  case (step c)
  from run_unseen [OF step(1)] step(2) show ?thesis by (rule converse_rtranclp_into_rtranclp)
qed

lemma run_race: "(run_move H v age)\<^sup>*\<^sup>* c c' \<Longrightarrow> (race_step H v age)\<^sup>*\<^sup>* c c'"
  by (erule rtranclp_mono [THEN predicate2D, rotated]) (auto intro: race_step.move)

lemma reset_overtakes:
  assumes ok: "race_ok H v (s, ps)" and ij: "i < length ps" "j < length ps" "ps ! i = Find_count d" "ps ! j = Idle"
    and s: "sh_refcount s \<le> 0" "\<not> sh_locked s"
  shows "\<exists>t. (race_step H v age)\<^sup>*\<^sup>* (s, ps) (t, ps[i := Using d]) \<and> sh_data_length t = 0 \<and> (\<forall>k < length (sh_slots t). sh_slots t ! k = 0) \<and>
     \<not> sh_in_reset t \<and> sh_refcount t = sh_refcount s + 1"
proof -
  have "core_ok H (seen_by Idle s)" "\<not> sh_locked (seen_by Idle s)" "\<not> sh_writable (seen_by Idle s)" using ok s(2) by (simp_all add: race_ok_def)
  from solo_reset [OF ij(2) this, of v age] reset_ok [OF this] s(1)
  obtain t where t: "solo H v age j ps (seen_by Idle s, Reset) (t, Idle)" "shm_ok H t" "sh_refcount t = sh_refcount s"
      "sh_data_length t = 0" "\<forall>k < length (sh_slots t). sh_slots t ! k = 0"
    by auto
  have "ps[j := Idle] = ps" by (metis ij(4) list_update_id)
  then have "(run_move H v age)\<^sup>*\<^sup>* (s, ps[j := Reset]) (t, ps)"
    using solo_unseen [OF t(1) _ ij(2)] by (simp only: pc.distinct not_False_eq_True)
  moreover have "race_step H v age (s, ps) (s, ps[j := Reset])" using race_step.call [OF ij(2,4), of Reset H v age s] by simp
  ultimately have reset: "(race_step H v age)\<^sup>*\<^sup>* (s, ps) (t, ps)" by (intro converse_rtranclp_into_rtranclp [OF _ run_race])
  let ?u = "t\<lparr>sh_hits := sh_hits t + 1, sh_refcount := sh_refcount t + 1\<rparr>"
  have "ps[i := Find_count d] = ps" by (metis ij(3) list_update_id)
  then have "run_move H v age (t, ps) (?u, ps[i := Using d])"
    using solo_step [OF ij(1), of "Find_count d" t H v age 0 "Using d" ?u] t(2) by (simp add: run_state run_basic shm_ok_def)
  then have "(race_step H v age)\<^sup>*\<^sup>* (s, ps) (?u, ps[i := Using d])" 
    by (intro rtranclp.rtrancl_into_rtrancl [OF reset] race_step.move)
  with t show ?thesis by (intro exI [of _ ?u]) (simp add: shm_ok_def)
qed

section \<open>A sample\<close>

text \<open>Process 0 has added a module, has found it again and is about to count itself.\<close>

lemma sample_found:
  "\<exists>s d m. reachable (\<lambda>_. 7) 1 (- 1) (s, [Find_count d, Idle]) \<and> holds s d (Sh_module m) \<and> sh_refcount s = 0 \<and> \<not> sh_locked s \<and>
     shm_ok (\<lambda>_. 7) s \<and> versions_ok 1 s"
proof -
  let ?H = "\<lambda>_ :: string. 7 :: u32" and ?run = "race_step (\<lambda>_. 7) 1 (- 1)"
  obtain s m where m: "module_ok 4096 m" "mversion m = 1" "shm_ok ?H s" "sh_refcount s = 0" "sh_mem s = (\<lambda>_. None)"
      "sh_slots s ! slot_of ?H sample_key s = 0" "room_for sample_key m 24 s" using sample_block_room by blast
  have hash: "hash_of ?H sample_key = 7" by (simp add: hbs_str_hash_def str_defs)
  then have hash0: "hash_of ?H sample_key \<noteq> 0" by simp
  obtain u k d m' where u: "mmap_add ?H sample_key 4096 m s = (Inr (), u)" "shm_ok ?H u" "sh_refcount u = sh_refcount s" "sh_table_count u = sh_table_count s"
      "maddr m' = d" "mversion m' = mversion m" "holds u k (Sh_key (snd (hbs_str_hash ?H sample_key)))" "holds u d (Sh_module m')"
      "holds u (sh_slots u ! slot_of ?H sample_key s) (Sh_entry k d)" "sh_slots u ! slot_of ?H sample_key s \<noteq> 0"
    using mmap_add_stores [OF m(3,1) hash0 m(6,7)] by blast
  let ?e = "sh_slots u ! slot_of ?H sample_key u"
  have start: "reachable ?H 1 (- 1) (s, [Idle, Idle])"
    using reachable.start [OF m(3,4), of 1 "- 1" 2] m(5) by (simp add: versions_ok_def numeral_2_eq_2)
  have "pc_ok ?H 1 (Add sample_key 4096 m)" using m(1,2) hash by (simp add: pc_ok_def)
  from race_step.call [of 0 "[Idle, Idle]" "Add sample_key 4096 m" ?H 1 "- 1" s] this
  have call1: "?run (s, [Idle, Idle]) (s, [Add sample_key 4096 m, Idle])" by simp
  have "(?run)\<^sup>*\<^sup>* (s, [Add sample_key 4096 m, Idle]) (u, [Idle, Idle])"
    using solo_add [of 0 "[Idle, Idle]" ?H s 4096 m sample_key 1 "- 1"] m(1,3) hash u(1) by (auto simp: solo_def intro: run_race)
  note added = converse_rtranclp_into_rtranclp [OF call1 this]
  have core: "layout_ok u" "\<not> sh_writable u" "\<not> sh_in_reset u" "\<not> sh_locked u" using u(2) by (simp_all add: shm_ok_def core_ok_def)
  let ?key = "snd (hbs_str_hash ?H sample_key)"
  have key: "handlebars_string_eq ?H sample_key ?key" "shash ?key \<noteq> 0" "\<not> stale 1 (- 1) 0 m'"
    using hash u(6) m(2) by (auto simp: handlebars_string_eq_def hbs_str_hash_def stale_def)
  have e: "holds u ?e (Sh_entry k d)" using u(4,9) by simp
  have look: "look_entry ?H 1 (- 1) 0 sample_key ?e u = (Inr (Find_count d), u)"
    using u(5) key by (simp add: look_entry_def run_read(3) [OF e] run_matches [OF u(7)] run_read(2) [OF u(8)]) (simp add: run_basic)
  have "solo ?H 1 (- 1) 0 [Idle, Idle] (u, Find_entry sample_key ?e) (u, Find_count d)"
    using solo_first [OF _ _ _ _ solo_refl, of 0 "[Idle, Idle]" "Find_entry sample_key ?e" u ?H 1 "- 1" 0] core(2) look by simp
  then have "solo ?H 1 (- 1) 0 [Idle, Idle] (u, Find_slot sample_key) (u, Find_count d)"
    using solo_first [of 0 "[Idle, Idle]" "Find_slot sample_key" u ?H 1 "- 1" 0 "Find_entry sample_key ?e" u] core(1,2) u(4,10)
    by (simp add: run_find run_basic)
  then have "solo ?H 1 (- 1) 0 [Idle, Idle] (u, Find sample_key) (u, Find_count d)"
    using solo_first [of 0 "[Idle, Idle]" "Find sample_key" u ?H 1 "- 1" 0 "Find_slot sample_key" u] core(2,3) by (simp add: run_state run_basic)
  then have found: "(?run)\<^sup>*\<^sup>* (u, [Find sample_key, Idle]) (u, [Find_count d, Idle])" by (auto simp: solo_def intro: run_race)
  have "?run (u, [Idle, Idle]) (u, [Find sample_key, Idle])"
    using race_step.call [of 0 "[Idle, Idle]" "Find sample_key" ?H 1 "- 1" u] by simp
  from rtranclp_trans [OF added converse_rtranclp_into_rtranclp [OF this found]]
  have "reachable ?H 1 (- 1) (u, [Find_count d, Idle])" by (induction rule: rtranclp_induct) (auto intro: start reachable.step)
  moreover from reachable_ok [OF this] have "versions_ok 1 u" by (simp add: race_ok_def)
  ultimately show ?thesis using u(2,3,8) m(4) core(4) by auto
qed

section \<open>Properties\<close>

text \<open>C9. In every state that any number of processes can reach, whatever they call and however their steps interleave, each slot of
  the table is empty or leads to a complete entry at its place, and at most one process is under the lock, exactly when the
  lock is taken. Only the look at an entry can fail, when another process has wiped it in between; nothing is changed then.\<close>
theorem race_table_intact:
  assumes "reachable H version age (s, ps)"
  shows "core_ok H s \<and> (sh_locked s \<longleftrightarrow> (\<exists>p \<in> set ps. in_lock p)) \<and>
     (\<forall>i < length ps. \<forall>j < length ps. in_lock (ps ! i) \<and> in_lock (ps ! j) \<longrightarrow> i = j) \<and>
     (\<forall>i < length ps. \<forall>now e t. move H version age now (ps ! i) (seen_by (ps ! i) s) = (Inl e, t) \<longrightarrow>
        (case ps ! i of Find_entry _ _ \<Rightarrow> t = seen_by (ps ! i) s | _ \<Rightarrow> e = Out_of_fuel \<and> sh_locked s))"
proof (intro conjI)
  have ok: "race_ok H version (s, ps)" by (rule reachable_ok [OF assms])
  then show "core_ok H s" by (simp add: race_ok_def)
  have "sh_locked s \<longleftrightarrow> filter in_lock ps \<noteq> []" using ok by (auto simp: race_ok_def split: if_splits)
  then show "sh_locked s \<longleftrightarrow> (\<exists>p \<in> set ps. in_lock p)" by (simp add: filter_empty_conv)
  show "\<forall>i < length ps. \<forall>j < length ps. in_lock (ps ! i) \<and> in_lock (ps ! j) \<longrightarrow> i = j"
    using ok filter_once [of in_lock ps] by (auto simp: race_ok_def split: if_splits)
  show "\<forall>i < length ps. \<forall>now e t. move H version age now (ps ! i) (seen_by (ps ! i) s) = (Inl e, t) \<longrightarrow>
      (case ps ! i of Find_entry _ _ \<Rightarrow> t = seen_by (ps ! i) s | _ \<Rightarrow> e = Out_of_fuel \<and> sh_locked s)"
  proof (intro allI impI)
    fix i now e t
    assume i: "i < length ps" and move: "move H version age now (ps ! i) (seen_by (ps ! i) s) = (Inl e, t)"
    show "case ps ! i of Find_entry _ _ \<Rightarrow> t = seen_by (ps ! i) s | _ \<Rightarrow> e = Out_of_fuel \<and> sh_locked s"
      using move_fails [OF ok i move] blocked [OF race_seen(1) [OF ok i], of "ps ! i"] move by (cases "ps ! i") auto
  qed
qed

theorem race_table_intact_witness:
  "\<exists>s d. reachable (\<lambda>_. 7) 1 (- 1) (s, [Find_count d, Idle]) \<and> core_ok (\<lambda>_. 7) s \<and> \<not> sh_locked s"
  using sample_found race_table_intact by blast

text \<open>C20. As long as nothing expires, the count in the block is the number of the processes between a search and a release.\<close>
theorem race_refcount:
  assumes "reachable H version age c" "age < 0"
  shows "sh_refcount (fst c) = int (length (filter in_use (snd c)))"
  using reachable_count [OF assms] by (simp add: count_ok_def)

theorem race_refcount_witness:
  "\<exists>s d. reachable (\<lambda>_. 7) 1 (- 1) (s, [Find_count d, Idle]) \<and> sh_refcount s = int (length (filter in_use [Find_count d, Idle]))"
  using sample_found race_refcount [of "\<lambda>_. 7" 1 "- 1" "(_, _)"] by fastforce

text \<open>C21. What is in the data segment, a module that a process has found for example, stays as it is whatever the other processes do,
  as long as none of them is about to wipe the segment.\<close>
theorem race_found_stays:
  assumes "reachable H version age c" "(calm H version age)\<^sup>*\<^sup>* c c'" "holds (fst c) d (Sh_module m)"
  shows "holds (fst c') d (Sh_module m)"
  using calm_holds [OF assms(2) reachable_ok [OF assms(1)] assms(3)] by simp

theorem race_found_stays_witness:
  "\<exists>s d m. reachable (\<lambda>_. 7) 1 (- 1) (s, [Find_count d, Idle]) \<and>
     calm (\<lambda>_. 7) 1 (- 1) (s, [Find_count d, Idle]) (s, [Find_count d, Reset]) \<and> holds s d (Sh_module m)"
proof -
  obtain s d m where s: "reachable (\<lambda>_. 7) 1 (- 1) (s, [Find_count d, Idle])" "holds s d (Sh_module m)" using sample_found by blast
  have "calm (\<lambda>_. 7) 1 (- 1) (s, [Find_count d, Idle]) (s, [Find_count d, Reset])"
    using race_step.call [of 1 "[Find_count d, Idle]" Reset "\<lambda>_. 7" 1 "- 1" s] by (simp add: calm_def)
  moreover from this have "(calm (\<lambda>_. 7) 1 (- 1))\<^sup>*\<^sup>* (s, [Find_count d, Idle]) (s, [Find_count d, Reset])" by (rule r_into_rtranclp)
  ultimately show ?thesis using s race_found_stays [OF s(1), of "(s, [Find_count d, Reset])" d m] by auto
qed

text \<open>C10. No call blocks for ever: from every reachable state the calls that have begun can all come to their end, and then the lock
  is free, no reset is announced and the cache satisfies the invariant of the sequential operations.\<close>
theorem race_quiesces:
  assumes "reachable H version age c"
  shows "\<exists>t ps. (run_move H version age)\<^sup>*\<^sup>* c (t, ps) \<and> (\<forall>p \<in> set ps. p = Idle \<or> p = Crashed) \<and> shm_ok H (seen_by Idle t)"
proof -
  obtain c' where c': "(run_move H version age)\<^sup>*\<^sup>* c c'" "race_ok H version c'" "\<forall>p \<in> set (snd c'). stopped p"
    using quiesces [OF reachable_ok [OF assms]] by blast
  have "p = Idle \<or> p = Crashed" if "stopped p" for p using that by (cases p) simp_all
  with c'(1,3) at_rest [OF c'(2,3)] show ?thesis by (cases c') auto
qed

theorem race_quiesces_witness:
  "\<exists>s d t ps. reachable (\<lambda>_. 7) 1 (- 1) (s, [Find_count d, Idle]) \<and>
     (run_move (\<lambda>_. 7) 1 (- 1))\<^sup>*\<^sup>* (s, [Find_count d, Idle]) (t, ps) \<and> (\<forall>p \<in> set ps. p = Idle \<or> p = Crashed)"
  using sample_found race_quiesces by blast

text \<open>A process whose steps are not interleaved with others does what the operation does as a whole.\<close>
theorem race_solo:
  assumes "shm_ok H s" "versions_ok version s" "i < length ps" "is_call p" "pc_ok H version p"
  shows "\<exists>t p'. (run_move H version age)\<^sup>*\<^sup>* (s, ps[i := p]) (t, ps[i := p']) \<and>
     (case p of
        Find key \<Rightarrow> \<exists>r. mmap_find H version age now key s = (Inr r, t) \<and> returned r p'
      | Add key a m \<Rightarrow> mmap_add H key a m s = (Inr (), t) \<and> p' = Idle
      | _ \<Rightarrow> mmap_reset s = (Inr (), t) \<and> p' = Idle)"
proof (cases p)
  case (Find key)
  with solo_find [OF assms(3,1,2), of age now key] show ?thesis by (auto simp: solo_def)
next
  case (Add key a m)
  with solo_add [OF assms(3,1), of a m key version age] assms(5) show ?thesis by (auto simp: solo_def pc_ok_def)
next
  case Reset
  with solo_reset [OF assms(3), of H s version age] assms(1) show ?thesis by (auto simp: solo_def shm_ok_def)
qed (use assms(4) in simp_all)

theorem race_solo_witness:
  "\<exists>s t p' r. (run_move (\<lambda>_. 7) 1 (- 1))\<^sup>*\<^sup>* (s, [Find_count 0, Find sample_key]) (t, [Find_count 0, p']) \<and>
     mmap_find (\<lambda>_. 7) 1 (- 1) 5 sample_key s = (Inr r, t) \<and> returned r p'"
proof -
  obtain s where "shm_ok (\<lambda>_. 7) s" "versions_ok 1 s" using sample_found by blast
  from race_solo [OF this, of 1 "[Find_count 0, Idle]" "Find sample_key" "- 1" 5] show ?thesis by auto
qed

text \<open>C11. A module can be wiped while a process uses it: when a search has looked at an entry and not counted itself yet, another
  process can run a whole reset, because \<open>in_reset\<close> is only read before the search and the count is still 0. The search then
  returns a module in a segment that is empty and will be written over.\<close>
theorem race_reset_overtakes_find:
  assumes "reachable H version age (s, ps)" "i < length ps" "ps ! i = Find_count d" "j < length ps" "ps ! j = Idle"
    and "sh_refcount s = 0" "\<not> sh_locked s"
  shows "\<exists>t. (race_step H version age)\<^sup>*\<^sup>* (s, ps) (t, ps[i := Using d]) \<and> sh_data_length t = 0 \<and>
     (\<forall>k < length (sh_slots t). sh_slots t ! k = 0) \<and> \<not> holds t d (Sh_module m)"
proof -
  obtain t where t: "(race_step H version age)\<^sup>*\<^sup>* (s, ps) (t, ps[i := Using d])" "sh_data_length t = 0"
      "\<forall>k < length (sh_slots t). sh_slots t ! k = 0"
    using reset_overtakes [OF reachable_ok [OF assms(1)] assms(2,4,3,5)] assms(6,7) by auto
  then have "\<not> holds t d (Sh_module m)" by (auto simp: holds_def)
  with t show ?thesis by blast
qed

theorem race_reset_overtakes_find_witness:
  "\<exists>s d m t. reachable (\<lambda>_. 7) 1 (- 1) (s, [Find_count d, Idle]) \<and> holds s d (Sh_module m) \<and>
     (race_step (\<lambda>_. 7) 1 (- 1))\<^sup>*\<^sup>* (s, [Find_count d, Idle]) (t, [Using d, Idle]) \<and> \<not> holds t d (Sh_module m)"
proof -
  obtain s d m where s: "reachable (\<lambda>_. 7) 1 (- 1) (s, [Find_count d, Idle])" "holds s d (Sh_module m)" "sh_refcount s = 0" "\<not> sh_locked s"
    using sample_found by blast
  from race_reset_overtakes_find [OF s(1), of 0 d 1 m] s show ?thesis by auto
qed

text \<open>An expired module is returned all the same, and it is not counted: when its user releases it, the count falls below the
  number of the users, and a reset no longer waits for one of the others.\<close>
theorem mmap_expired_uncounted:
  assumes "shm_ok H s" "mmap_find H version age now key s = (Inr (Some d), t)" "sh_object t d = Some (Sh_module m)" "stale version age now m"
  shows "\<exists>u. mmap_release t = (Inr (), u) \<and> sh_refcount u = sh_refcount s - 1"
proof -
  obtain m' where "holds t d (Sh_module m')" "if stale version age now m' then sh_refcount t = sh_refcount s else True"
    using mmap_find_ok [OF assms(1), of version age now key] assms(2) by (auto simp: found_ok_def split: if_splits)
  then have "sh_refcount t = sh_refcount s" using assms(3,4) by (auto dest: holds_object)
  then show ?thesis by (simp add: mmap_release_def run_basic)
qed

theorem mmap_expired_uncounted_witness:
  "\<exists>s d t now u. shm_ok (\<lambda>_. 7) s \<and> mmap_find (\<lambda>_. 7) 1 0 now sample_key s = (Inr (Some d), t) \<and>
     mmap_release t = (Inr (), u) \<and> sh_refcount u = - 1"
proof -
  let ?H = "\<lambda>_ :: string. 7 :: u32"
  obtain s m where m: "module_ok 4096 m" "shm_ok ?H s" "sh_refcount s = 0"
      "sh_slots s ! slot_of ?H sample_key s = 0" "room_for sample_key m 24 s" using sample_block_room by blast
  have hash: "hash_of ?H sample_key = 7" by (simp add: hbs_str_hash_def str_defs)
  then have hash0: "hash_of ?H sample_key \<noteq> 0" by simp
  obtain u k d m' where u: "shm_ok ?H u" "sh_refcount u = sh_refcount s" "sh_table_count u = sh_table_count s"
      "holds u k (Sh_key (snd (hbs_str_hash ?H sample_key)))" "holds u d (Sh_module m')"
      "holds u (sh_slots u ! slot_of ?H sample_key s) (Sh_entry k d)" "sh_slots u ! slot_of ?H sample_key s \<noteq> 0"
    using mmap_add_stores [OF m(2,1) hash0 m(4,5)] by blast
  let ?e = "sh_slots u ! slot_of ?H sample_key u"
  have e: "holds u ?e (Sh_entry k d)" "?e \<noteq> 0" using u(3,6,7) by simp_all
  have key: "handlebars_string_eq ?H sample_key (snd (hbs_str_hash ?H sample_key))" "shash (snd (hbs_str_hash ?H sample_key)) \<noteq> 0"
      "stale 1 0 (mts m') m'"
    using hash by (auto simp: handlebars_string_eq_def hbs_str_hash_def stale_def)
  have look: "look_entry ?H 1 0 (mts m') sample_key ?e u = (Inr (Find_stale sample_key d), u)"
    using key by (simp add: look_entry_def run_read(3) [OF e(1)] run_matches [OF u(4)] run_read(2) [OF u(5)]) (simp add: run_basic)
  have core: "layout_ok u" "core_ok ?H u" "\<not> sh_in_reset u" "\<not> sh_locked u" "\<not> sh_writable u" using u(1) by (simp_all add: shm_ok_def core_ok_def)
  obtain t where t: "drop_stale ?H sample_key u = (Inr (), t)" "sh_mem t = sh_mem u" "sh_data t = sh_data u"
    using drop_stale_ok [OF core(2,4,5), of sample_key] by (auto simp: same_flags_def)
  have find: "mmap_find ?H 1 0 (mts m') sample_key u = (Inr (Some d), t)"
    using mmap_find_look [OF core(1,3), of ?H 1 0 "mts m'" sample_key] look t(1) e(2) by (simp add: sbind_def run_basic)
  have "sh_object t = sh_object u" by (rule ext) (simp add: sh_object_def sh_offset_def t(2,3))
  then have "sh_object t d = Some (Sh_module m')" using holds_object [OF u(5)] by simp
  from mmap_expired_uncounted [OF u(1) find this key(3)] find u(1,2) m(3) show ?thesis by auto
qed

end
