(* ===== verification/PartialLoader.thy ===== *)
theory PartialLoader
  imports HMapOps AstHelpers
begin

text \<open>
  The partial loader (src/handlebars_partial_loader.c): a value that behaves like a map from the names of partials to
  their texts and reads a text from its file when it is looked up first. It is a client of the hash map.

  The file system is the argument \<open>files\<close>: the content of the file that \<open>fopen\<close> opens under a path, which \<open>fread\<close>
  reads as a whole. The values of the map are strings.
\<close>

section \<open>The loader\<close>

record handlebars_partial_loader =
  base_path :: hstr
  extension :: "hstr option"
  lmap :: "hstr hmap"

text \<open>A NULL extension is dereferenced by its copy.\<close>

definition handlebars_value_partial_loader_init :: "hstr \<Rightarrow> hstr option \<Rightarrow> hbs_error + handlebars_partial_loader" where
  "handlebars_value_partial_loader_init base ext =
     (case ext of
        None \<Rightarrow> Inl Mem_error
      | Some e \<Rightarrow>
          ebind (handlebars_map_ctor 32) (\<lambda>m.
            Inr \<lparr>base_path = handlebars_string_copy_ctor base, extension = Some (handlebars_string_copy_ctor e), lmap = m\<rparr>))"

definition partial_filename :: "handlebars_partial_loader \<Rightarrow> hstr \<Rightarrow> hbs_error + hstr" where
  "partial_filename l key =
     ebind (handlebars_string_append (handlebars_string_copy_ctor (base_path l)) ''/'') (\<lambda>f.
     ebind (handlebars_string_append_str f key) (\<lambda>f.
       case extension l of None \<Rightarrow> Inr f | Some e \<Rightarrow> handlebars_string_append_str f e))"

text \<open>\<open>fread\<close> of one element of size 0 returns 0, which is taken for a failure.\<close>

definition hbs_partial_loader_map_find ::
    "(string \<Rightarrow> u32) \<Rightarrow> (string \<Rightarrow> string option) \<Rightarrow> handlebars_partial_loader \<Rightarrow> hstr \<Rightarrow> hbs_error + hstr \<times> handlebars_partial_loader" where
  "hbs_partial_loader_map_find H files l key =
     ebind (handlebars_map_find H (lmap l) key) (\<lambda>retval.
       case retval of
         Some v \<Rightarrow> Inr (v, l)
       | None \<Rightarrow>
           ebind (partial_filename l key) (\<lambda>filename.
             case files (c_string filename) of
               None \<Rightarrow> Inl (Throw HANDLEBARS_ERROR ''File to open partial: %.*s'')
             | Some buf \<Rightarrow>
                 if buf = [] then Inl (Throw HANDLEBARS_ERROR ''Failed to read partial: %.*s'')
                 else
                   let rv = handlebars_string_ctor buf in
                   ebind (handlebars_map_add H (lmap l) (handlebars_string_copy_ctor key) rv) (\<lambda>m. Inr (rv, l\<lparr>lmap := m\<rparr>))))"

definition hbs_partial_loader_count :: "handlebars_partial_loader \<Rightarrow> nat" where
  "hbs_partial_loader_count l = handlebars_map_count (lmap l)"

text \<open>The iterator: the index and what is at it. The result of a step is \<open>None\<close> at the end.\<close>

record loader_iterator =
  it_index :: nat
  it_item :: "(hstr \<times> hstr) option"

definition hbs_partial_loader_iterator_init ::
    "handlebars_partial_loader \<Rightarrow> hbs_error + loader_iterator option \<times> handlebars_partial_loader" where
  "hbs_partial_loader_iterator_init l =
     (if handlebars_map_count (lmap l) \<le> 0 then Inr (None, l)
      else
        let m = handlebars_map_sparse_array_compact (lmap l) in
        ebind (handlebars_map_get_kv_at_index m 0) (\<lambda>kv.
          let (old, m') = handlebars_map_set_is_in_iteration m True in
          if old then Inl Assert_fail else Inr (Some \<lparr>it_index = 0, it_item = kv\<rparr>, l\<lparr>lmap := m'\<rparr>)))"

definition hbs_partial_loader_iterator_next_map ::
    "loader_iterator \<Rightarrow> handlebars_partial_loader \<Rightarrow> hbs_error + loader_iterator option \<times> handlebars_partial_loader" where
  "hbs_partial_loader_iterator_next_map it l =
     (if it_index it \<ge> handlebars_map_count (lmap l) - 1
      then Inr (None, l\<lparr>lmap := snd (handlebars_map_set_is_in_iteration (lmap l) False)\<rparr>)
      else
        ebind (handlebars_map_get_kv_at_index (lmap l) (it_index it + 1)) (\<lambda>kv.
          Inr (Some \<lparr>it_index = it_index it + 1, it_item = kv\<rparr>, l)))"

section \<open>The contract\<close>

definition loader_ok :: "(string \<Rightarrow> u32) \<Rightarrow> handlebars_partial_loader \<Rightarrow> bool" where
  "loader_ok H l \<longleftrightarrow> hmap_ok H (lmap l)"

abbreviation loaded :: "handlebars_partial_loader \<Rightarrow> (hstr \<times> hstr) list" where
  "loaded l \<equiv> hm_items (lmap l)"

definition partial_path :: "handlebars_partial_loader \<Rightarrow> hstr \<Rightarrow> string" where
  "partial_path l key = sval (base_path l) @ ''/'' @ sval key @ (case extension l of None \<Rightarrow> [] | Some e \<Rightarrow> sval e)"

lemma filename_ok: "\<exists>f. partial_filename l key = Inr f \<and> sval f = partial_path l key"
proof -
  obtain f where f: "handlebars_string_append (handlebars_string_copy_ctor (base_path l)) ''/'' = Inr f" "sval f = sval (base_path l) @ ''/''"
    using append_total [of "handlebars_string_copy_ctor (base_path l)" "''/''"] by (auto simp: handlebars_string_copy_ctor_def)
  obtain g where g: "handlebars_string_append f (sval key) = Inr g" "sval g = sval f @ sval key"
    using append_total [of f "sval key"] by blast
  show ?thesis
  proof (cases "extension l")
    case None
    with f g show ?thesis by (simp add: partial_filename_def handlebars_string_append_str_def partial_path_def)
  next
    case (Some e)
    obtain h where "handlebars_string_append g (sval e) = Inr h" "sval h = sval g @ sval e"
      using append_total [of g "sval e"] by blast
    with f g Some show ?thesis by (simp add: partial_filename_def handlebars_string_append_str_def partial_path_def)
  qed
qed

lemma copied_key [simp]: "kid H (handlebars_string_copy_ctor key) = kid H key"
  by (simp add: kid_def handlebars_string_copy_ctor_def hbs_str_hash_def)

lemma copied_item: "item_is H (handlebars_string_copy_ctor key) kv = item_is H key kv"
  by (simp add: item_is_def string_eq_kid)

text \<open>A text that is read is kept.\<close>

lemma keeps_partial:
  assumes "loader_ok H l" "hm_room (lmap l)" "lookup_item H key (loaded l) = None"
  shows "\<exists>m. handlebars_map_add H (lmap l) (handlebars_string_copy_ctor key) v = Inr m \<and> hmap_ok H m \<and>
     hm_items m = loaded l @ [(handlebars_string_copy_ctor key, v)] \<and> handlebars_map_find H m key = Inr (Some v)"
proof -
  let ?k = "handlebars_string_copy_ctor key"
  have "lookup_item H ?k (loaded l) = None" using assms(3) by (simp add: lookup_item_None copied_item)
  then obtain m where m: "handlebars_map_add H (lmap l) ?k v = Inr m" "hmap_ok H m" "hm_items m = loaded l @ [(?k, v)]"
    using hmap.add_law [OF assms(1) [unfolded loader_ok_def] assms(2)] by blast
  have "handlebars_map_find H m key = Inr (Some v)"
    using hmap.find_after_add [OF assms(1) [unfolded loader_ok_def] assms(2) m(1), of key] by (simp add: string_eq_kid)
  with m show ?thesis by blast
qed

section \<open>Properties\<close>

text \<open>C27. A partial is read once: the first look up of a name reads the file under the base path, with the extension,
  and keeps its text behind the others; every later look up gives that text, whatever has become of the files. A
  file that is missing, or empty, is an error that leaves nothing behind.\<close>
theorem partial_read_once:
  assumes "loader_ok H l" "hm_room (lmap l)"
  shows "case lookup_item H key (loaded l) of
     Some v \<Rightarrow> hbs_partial_loader_map_find H files l key = Inr (v, l)
   | None \<Rightarrow>
       (case files (takeWhile (\<lambda>c. c \<noteq> NUL) (partial_path l key)) of
          None \<Rightarrow> hbs_partial_loader_map_find H files l key = Inl (Throw HANDLEBARS_ERROR ''File to open partial: %.*s'')
        | Some [] \<Rightarrow> hbs_partial_loader_map_find H files l key = Inl (Throw HANDLEBARS_ERROR ''Failed to read partial: %.*s'')
        | Some buf \<Rightarrow>
            \<exists>l' k. hbs_partial_loader_map_find H files l key = Inr (handlebars_string_ctor buf, l') \<and> loader_ok H l' \<and>
              loaded l' = loaded l @ [(k, handlebars_string_ctor buf)] \<and> sval k = sval key \<and>
              (\<forall>files'. hbs_partial_loader_map_find H files' l' key = Inr (handlebars_string_ctor buf, l')))"
proof (cases "lookup_item H key (loaded l)")
  case (Some v)
  then show ?thesis using assms(1) by (simp add: hbs_partial_loader_map_find_def hmap.find_law loader_ok_def)
next
  case None
  obtain f where f: "partial_filename l key = Inr f" "sval f = partial_path l key" using filename_ok by blast
  have find: "handlebars_map_find H (lmap l) key = Inr None" using None assms(1) by (simp add: hmap.find_law loader_ok_def)
  let ?path = "takeWhile (\<lambda>c. c \<noteq> NUL) (partial_path l key)"
  have path: "c_string f = ?path" by (simp add: c_string_def f(2))
  show ?thesis
  proof (cases "files ?path")
    case no_file: None
    then show ?thesis using None by (simp add: hbs_partial_loader_map_find_def find f(1) path)
  next
    case (Some buf)
    show ?thesis
    proof (cases buf)
      case Nil
      then show ?thesis using None Some by (simp add: hbs_partial_loader_map_find_def find f(1) path)
    next
      case (Cons c cs)
      let ?k = "handlebars_string_copy_ctor key" and ?v = "handlebars_string_ctor buf"
      obtain m where m: "handlebars_map_add H (lmap l) ?k ?v = Inr m" "hmap_ok H m" "hm_items m = loaded l @ [(?k, ?v)]"
          "handlebars_map_find H m key = Inr (Some ?v)"
        using keeps_partial [OF assms None] by blast
      from m(4) have again: "hbs_partial_loader_map_find H files' (l\<lparr>lmap := m\<rparr>) key = Inr (?v, l\<lparr>lmap := m\<rparr>)" for files'
        by (simp add: hbs_partial_loader_map_find_def)
      have "hbs_partial_loader_map_find H files l key = Inr (?v, l\<lparr>lmap := m\<rparr>)"
        using Cons Some m(1) by (simp add: hbs_partial_loader_map_find_def find f(1) path)
      with again m(2,3) None Some Cons show ?thesis
        by (intro exI [of _ "l\<lparr>lmap := m\<rparr>"] exI [of _ ?k] conjI | simp add: loader_ok_def handlebars_string_copy_ctor_def)+
    qed
  qed
qed

lemma init_ok:
  "\<exists>l. handlebars_value_partial_loader_init base (Some e) = Inr l \<and> loader_ok H l \<and> hm_room (lmap l) \<and> loaded l = [] \<and>
     sval (base_path l) = sval base \<and> (\<exists>x. extension l = Some x \<and> sval x = sval e)"
proof -
  obtain tc where "ht_choose_table_capacity 32 = Inr tc" using choose_total [of 32] by auto
  from ctor_ok [OF this, of H] obtain m :: "hstr hmap" where m: "handlebars_map_ctor 32 = Inr m" "hmap_ok H m" "hm_items m = []" "\<not> is_in_iteration m"
    by blast
  then have "hm_room m" by (simp add: hm_room_def hm_bounded_def hmap_ok_def)
  with m show ?thesis by (simp add: handlebars_value_partial_loader_init_def loader_ok_def handlebars_string_copy_ctor_def)
qed

theorem partial_read_once_witness:
  "\<exists>l l'. handlebars_value_partial_loader_init (handlebars_string_ctor ''/p'') (Some (handlebars_string_ctor ''.hbs'')) = Inr l \<and>
     hbs_partial_loader_map_find (\<lambda>_. 0) (\<lambda>p. if p = ''/p/a.hbs'' then Some ''hi'' else None) l (handlebars_string_ctor ''a'') =
       Inr (handlebars_string_ctor ''hi'', l') \<and>
     hbs_partial_loader_map_find (\<lambda>_. 0) (\<lambda>_. None) l' (handlebars_string_ctor ''a'') = Inr (handlebars_string_ctor ''hi'', l')"
proof -
  obtain l x where l: "handlebars_value_partial_loader_init (handlebars_string_ctor ''/p'') (Some (handlebars_string_ctor ''.hbs'')) = Inr l"
      "loader_ok (\<lambda>_. 0) l" "hm_room (lmap l)" "loaded l = []" "sval (base_path l) = ''/p''" "extension l = Some x" "sval x = ''.hbs''"
    using init_ok [of "handlebars_string_ctor ''/p''" "handlebars_string_ctor ''.hbs''" "\<lambda>_. 0"]
    by (auto simp: handlebars_string_ctor_def handlebars_string_ctor_ex_def handlebars_string_init_def)
  have "partial_path l (handlebars_string_ctor ''a'') = ''/p/a.hbs''"
    using l(5-7) by (simp add: partial_path_def handlebars_string_ctor_def handlebars_string_ctor_ex_def)
  then show ?thesis
    using partial_read_once [OF l(2,3), of "\<lambda>p. if p = ''/p/a.hbs'' then Some ''hi'' else None" "handlebars_string_ctor ''a''"] l(1,4)
    by (auto simp: lookup_item_def)
qed

end
