(* ===== verification/Spec2Isabelle.thy ===== *)
theory Spec2Isabelle
  imports HMapCompact HMapOps VStack AstList Scanners Delimiters StringEdit ModulePrinter CacheSimple
    AstPrinterProofs CompilerTotal WhitespaceLines ValuesProofs VmTop CacheRace PartialLoader
begin

text \<open>
  A model of handlebars.c, a Handlebars and Mustache engine: a template is tokenised and parsed into a tree, whitespace
  control edits the tree, the compiler turns it into opcodes, the serializer packs these into one relocatable block (a
  module), and the virtual machine runs the module on a context and returns a string. Modules are kept in a cache.

  \<^bold>\<open>Conventions.\<close> Definitions have the names of the C functions under src/. A function that can fail returns
  \<open>hbs_error + 'a\<close> (\<open>Prelude\<close>): \<open>Throw\<close> is \<open>handlebars_throw\<close>, \<open>Assert_fail\<close> an assertion, \<open>Mem_error\<close> a NULL or
  out of range access, \<open>Out_of_fuel\<close> a computation the given fuel was too small for. Where state survives an error the
  monad is that of \<open>StateError\<close>. Machine integers are words (\<open>u32\<close>, \<open>u64\<close>); sizes are \<open>nat\<close> with the wrap written out
  where one can happen. The hash function of strings is a parameter \<open>H\<close>, as its seed and variant are build options.

  \<^bold>\<open>Theories and sources.\<close>
  \<^item> Strings (handlebars_string.c): \<open>HString\<close> the buffers, \<open>StringEdit\<close> search and replace, \<open>StringEscape\<close> the escapes,
    \<open>CNumbers\<close> the conversions of the C library.
  \<^item> Containers: \<open>HMap\<close>, \<open>HMapProofs\<close>, \<open>HMapOps\<close>, \<open>HMapCompact\<close> (handlebars_map.c), \<open>VStack\<close> (handlebars_stack.c),
    \<open>AstList\<close> (handlebars_ast_list.c, on an explicit heap).
  \<^item> Front end: \<open>Delimiters\<close> (handlebars_delimiters.c), \<open>Token\<close> (handlebars_token.c), \<open>Scanners\<close>
    (handlebars_scanners.c), \<open>Ast\<close> and \<open>AstHelpers\<close> (handlebars_ast.c, handlebars_ast_helpers.c), \<open>AstPrinter\<close> and
    \<open>AstPrinterProofs\<close> (handlebars_ast_printer.c), \<open>Whitespace\<close>, \<open>WhitespaceProofs\<close>, \<open>WhitespaceLines\<close>
    (handlebars_whitespace.c).
  \<^item> Compiler: \<open>Opcodes\<close> (handlebars_opcodes.c), \<open>OpcodePrinter\<close> (handlebars_opcode_printer.c), \<open>Builtins\<close>
    (handlebars_helpers_ht.h), \<open>Compiler\<close>, \<open>CompilerProofs\<close>, \<open>CompilerTotal\<close> (handlebars_compiler.c).
  \<^item> Modules: \<open>Serializer\<close>, \<open>SerializerProofs\<close>, \<open>SerializerRep\<close>, \<open>SerializerMove\<close> (handlebars_opcode_serializer.c),
    \<open>ModulePrinter\<close> (handlebars_module_printer.c).
  \<^item> Caches: \<open>CacheSimple\<close> (handlebars_cache_simple.c); \<open>CacheMmap\<close>, \<open>CacheMmapProofs\<close>, \<open>CacheRace\<close>
    (handlebars_cache_mmap.c). \<open>PartialLoader\<close> (handlebars_partial_loader.c), with the file system as a parameter.
  \<^item> Execution: \<open>Values\<close>, \<open>ValuesProofs\<close> (handlebars_value.c), \<open>VmState\<close>, \<open>VmExec\<close>, \<open>VmHelpers\<close>, \<open>Vm\<close> (handlebars_vm.c,
    handlebars_helpers.c, handlebars_closure.c).
  \<^item> Rendering, end to end: \<open>Template\<close> states what a template of texts, values and the blocks of \<open>if\<close>, \<open>unless\<close>, \<open>with\<close>
    and \<open>each\<close> means; \<open>TemplateCompile\<close> what it compiles to; \<open>VmRun\<close>, \<open>VmPieces\<close>, \<open>VmBuiltins\<close>, \<open>VmBlocks\<close>, \<open>VmRender\<close>,
    \<open>VmProof\<close> and \<open>VmTop\<close> what the machine does with it.

  \<^bold>\<open>What is shown.\<close> The containers refine their abstract contracts (locales \<open>ordered_map\<close> and the others, interpreted on
  the model): the map is an association list in insertion order, the list on the heap a list. The compiler always ends
  and only emits opcodes whose children exist and whose operands are of the kinds the machine asserts, if a machine
  with mustache-style lambdas runs what was compiled with that flag (\<open>lambdas_need_their_flag\<close> shows the other case)
  (locale \<open>acceptor\<close>, interpreted on \<open>handlebars_compiler_accept\<close>); what it emits serializes, and the module represents
  the same programs at every address. \<open>render_correct\<close> joins these: compiling, serializing and executing agrees with
  \<open>render\<close>. Escaped output is inert. Whitespace control changes only whitespace, and fails on no tree in which no \<open>~\<close>
  faces a program without statements; on an empty block with such a \<open>~\<close>, which the parser does build, it crashes
  (\<open>whitespace_empty_block_crashes\<close>).
  The shared cache keeps its invariant, alone and under every interleaving of the steps of any number of processes, and
  every call can come to its end; the interleavings also show how a reset can overtake a search.

  \<^bold>\<open>Fuel and bounds.\<close> The compiler recurses at most 64 levels, the depth of its stacks, so \<open>ACCEPT_FUEL\<close> is enough for every
  tree; \<open>render_correct\<close> is for templates of \<open>list_height\<close> at most 63, which fits the compiler's stacks of 64 nodes and the
  machine's stacks of 96 values, and with less than 2^62 programs; \<open>list_fuel\<close> is a fuel that is enough for the machine. A machine in general may run for ever (a partial that includes itself), and then no fuel is enough. A reset of
  the shared cache reads the count of the users at most 102 times.

  \<^bold>\<open>Assumptions of the interleaving.\<close> \<open>CacheRace\<close> takes memory to be sequentially consistent and page protection to belong
  to a process; what is done under the lock is one step, because the others see only the slot it writes.

  \<^bold>\<open>Not modelled.\<close> The lexer and the parser are generated by flex and bison (the machine takes the parser as a
  parameter); JSON, YAML and LMDB are wrappers around libraries; memory management
  (talloc, reference counts) is absent, so the sharing it decides is an explicit flag or identity where it matters; the
  command line tool is option parsing and output; USER values are callbacks of the embedding program.
\<close>

section \<open>From the tree to the module\<close>

text \<open>C14. Every template that compiles can be cached: its program serializes without leaving the block, and the module,
  normalized, copied to another address and patched there, represents exactly the compiled program.\<close>
theorem compile_then_serialize:
  assumes "handlebars_compiler_compile_ex H (handlebars_compiler_set_flags handlebars_compiler_ctor fl) n = Inr p"
    and "small_program p"
  shows "\<exists>m m1 m2 t. handlebars_program_serialize H v ts loc p = Inr m \<and>
     handlebars_module_normalize_pointers loc base m = Inr m1 \<and>
     handlebars_module_patch_pointers new m1 = Inr m2 \<and> maddr m2 = new \<and> root t = 0 \<and> represents new m2 t p"
proof -
  have "wf_program p" by (rule refs_program_wf [OF compile_ex_refs [OF assms(1)] assms(2)])
  then obtain m t where m: "handlebars_program_serialize H v ts loc p = Inr m" "module_ok loc m" "root t = 0" "represents loc m t p"
    using program_serialize_ok by blast
  then show ?thesis using relocated [OF m(2,4), of base new] by blast
qed

theorem compile_then_serialize_witness:
  "\<exists>p m m1 m2 t. sample_compiled = Inr p \<and> handlebars_program_serialize (\<lambda>_. 0) 1000 0 4096 p = Inr m \<and>
     handlebars_module_normalize_pointers 4096 0 m = Inr m1 \<and>
     handlebars_module_patch_pointers 65536 m1 = Inr m2 \<and> maddr m2 = 65536 \<and> root t = 0 \<and> represents 65536 m2 t p"
proof -
  obtain p where p: "sample_compiled = Inr p" "small_program p"
    using sample_compiles by (auto split: sum.split_asm)
  then show ?thesis
    using compile_then_serialize [OF p(1) [unfolded sample_compiled_def] p(2), of 1000 0 4096 0 65536] by blast
qed

section \<open>What the machine asserts of its operands\<close>

text \<open>
  The readers that the handlers of the machine apply to the operands of an opcode, before they do anything else with
  them; \<open>lambdas\<close> is the machine's flag for mustache-style lambdas.
\<close>

definition reads :: "'a step \<Rightarrow> bool" where
  "reads m \<longleftrightarrow> (\<exists>x. m = ret x)"

definition operands_readable :: "bool \<Rightarrow> opcode \<Rightarrow> bool" where
  "operands_readable lambdas opc \<longleftrightarrow>
     (case otype opc of
        handlebars_opcode_type_append_content \<Rightarrow> reads (op_string (op1 opc))
      | handlebars_opcode_type_assign_to_hash \<Rightarrow> reads (op_string (op1 opc))
      | handlebars_opcode_type_block_value \<Rightarrow> reads (op_string (op1 opc))
      | handlebars_opcode_type_push_string \<Rightarrow> reads (op_string (op1 opc))
      | handlebars_opcode_type_push_literal \<Rightarrow> \<not> reads (op_array (op1 opc))
      | handlebars_opcode_type_get_context \<Rightarrow> reads (op_long (op1 opc))
      | handlebars_opcode_type_invoke_ambiguous \<Rightarrow> 
          reads (op_string (op1 opc)) \<and> reads (op_boolean (op2 opc)) \<and> (lambdas \<longrightarrow> reads (op_string (op3 opc)))
      | handlebars_opcode_type_invoke_helper \<Rightarrow> reads (op_long (op1 opc)) \<and> reads (op_string (op2 opc)) \<and> reads (op_boolean (op3 opc))
      | handlebars_opcode_type_invoke_known_helper \<Rightarrow> reads (op_long (op1 opc)) \<and> reads (op_string (op2 opc))
      | handlebars_opcode_type_invoke_partial \<Rightarrow>
          reads (op_boolean (op1 opc)) \<and> reads (op_string (op3 opc)) \<and>
          reads (need (case op2 opc of operand_string _ \<Rightarrow> True | operand_null _ \<Rightarrow> True | operand_long _ \<Rightarrow> True | _ \<Rightarrow> False))
      | handlebars_opcode_type_lookup_block_param \<Rightarrow> reads (op_array (op1 opc)) \<and> reads (op_array (op2 opc))
      | handlebars_opcode_type_lookup_data \<Rightarrow> reads (op_long (op1 opc)) \<and> reads (op_array (op2 opc)) \<and> reads (op_flag (op3 opc))
      | handlebars_opcode_type_lookup_on_context \<Rightarrow>
          reads (op_array (op1 opc)) \<and> reads (op_flag (op2 opc)) \<and> reads (op_flag (op3 opc)) \<and> reads (op_flag (op4 opc))
      | _ \<Rightarrow> True)"

fun program_readable :: "bool \<Rightarrow> handlebars_program \<Rightarrow> bool" where
  "program_readable lambdas (handlebars_program g fl rf bp opcs kids decs) \<longleftrightarrow>
     (\<forall>opc \<in> set opcs. operands_readable lambdas opc) \<and> (\<forall>k \<in> set kids. program_readable lambdas k)"

lemma reads_simps [simp]: "reads (ret x)" "\<not> reads (raise e :: 'a step)" "reads (need b :: unit step) = b"
proof -
  have r: "ret y \<noteq> (raise e :: 'a step)" for y :: 'a and e
    using run_basic(1,2) by (metis Inl_Inr_False prod.inject)
  have "ret y \<noteq> (raise e :: unit step)" for y e using run_basic(1,2) by (metis Inl_Inr_False prod.inject)
  with r show "reads (ret x)" "\<not> reads (raise e :: 'a step)" "reads (need b :: unit step) = b"
    by (auto simp: reads_def need_def) metis+
qed

lemma reads_operand:
  "reads (op_string p) = is_string p" "reads (op_long p) = is_long p" "reads (op_boolean p) = is_boolean p"
  "reads (op_array p) = is_array p" "reads (op_flag p) = is_flag p"
  by (simp_all add: op_string_def op_long_def op_boolean_def op_array_def op_flag_def split: handlebars_operand.split)

lemma fits_readable:
  "fits b (otype opc) (op1 opc) (op2 opc) (op3 opc) (op4 opc) \<Longrightarrow> (lambdas \<Longrightarrow> b) \<Longrightarrow> operands_readable lambdas opc"
  by (cases "op2 opc") (auto simp: fits_def operands_readable_def reads_operand split: handlebars_opcode_type.splits)

lemma refs_readable: "refs_program b p \<Longrightarrow> (lambdas \<Longrightarrow> b) \<Longrightarrow> program_readable lambdas p"
  by (induction p) (auto simp: refs_op_def intro: fits_readable)

text \<open>C26. The operands of everything that the compiler emits are of the kinds the machine asserts: no opcode of a compiled
  template, nor of the programs below it, ends the process because of the kind of an operand, on every machine
  that does not ask for mustache-style lambdas when the compiler was not asked for them.\<close>
theorem compiled_operands_readable:
  assumes "handlebars_compiler_compile_ex H (handlebars_compiler_set_flags handlebars_compiler_ctor fl) n = Inr p"
    and "lambdas \<longrightarrow> fl AND flag_mustache_style_lambdas \<noteq> 0"
  shows "program_readable lambdas p"
  by (rule refs_readable [OF compile_ex_refs [OF assms(1)]]) (use assms(2) in simp)

theorem compiled_operands_readable_witness:
  "\<exists>p. lambda_sample = Inr p \<and> program_readable True p \<and> program_readable False p \<and>
     list_ex (\<lambda>opc. otype opc = handlebars_opcode_type_invoke_ambiguous) (opcodes p)"
proof -
  obtain p where p: "lambda_sample = Inr p"
      "list_ex (\<lambda>opc. otype opc = handlebars_opcode_type_invoke_ambiguous) (opcodes p)"
    using lambda_samples_compile(1) by (auto split: sum.split_asm)
  have "flag_mustache_style_lambdas AND flag_mustache_style_lambdas \<noteq> 0" by (simp add: flag_mustache_style_lambdas_def)
  then show ?thesis
    using p compiled_operands_readable [OF p(1) [unfolded lambda_sample_def]] by blast
qed

text \<open>The hypothesis is needed: an ambiguous call compiled without the flag has no third operand, so a machine with the flag
  ends at its assertion when the value called is a function.\<close>
theorem lambdas_need_their_flag:
  "\<exists>p. handlebars_compiler_compile_ex (\<lambda>_. 0) (handlebars_compiler_set_flags handlebars_compiler_ctor 0) lambda_tree = Inr p \<and>
     \<not> program_readable True p"
proof -
  obtain p opc where p: "handlebars_compiler_compile_ex (\<lambda>_. 0) (handlebars_compiler_set_flags handlebars_compiler_ctor 0) lambda_tree = Inr p"
      "opc \<in> set (opcodes p)" "otype opc = handlebars_opcode_type_invoke_ambiguous" "op3 opc = operand_null False"
    using lambda_samples_compile(2) by (auto simp: list_ex_iff split: sum.split_asm)
  have "\<not> operands_readable True opc" using p(3,4) by (simp add: operands_readable_def reads_operand)
  then have "\<not> program_readable True p" using p(2) by (cases p) auto
  with p(1) show ?thesis by blast
qed

section \<open>From the template to the text\<close>

declare vm_runs.simps [simp del]

text \<open>C1. Rendering means what it should: a template of texts, values and the blocks \<open>if\<close>, \<open>unless\<close>, \<open>with\<close> and \<open>each\<close>,
  compiled, serialized and executed by a machine at rest, yields what \<open>render\<close> defines without opcodes and stacks, for
  every context for which that is defined; the fuel of \<open>list_fuel\<close> is enough, and the machine is left as it was.\<close>
theorem render_correct:
  assumes "list_all names_ok ps" "list_height ps \<le> 63" "list_programs ps < 2 ^ 62"
    and "rested N s" "list_fuel ps \<le> K" "seq (map (render E N) ps) {} c = Some tx"
  shows "\<exists>p m res t. handlebars_compiler_compile_ex (eH E) (handlebars_compiler_set_flags handlebars_compiler_ctor 0) (template ps) = Inr p \<and>
     handlebars_program_serialize (eH E) v ts (int a) p = Inr m \<and>
     vm_execute E K a c (s\<lparr>vmods := (vmods s)(a \<mapsto> m)\<rparr>) = (Inr (Some res), t) \<and> sval res = tx \<and>
     same_machine (s\<lparr>vmods := (vmods s)(a \<mapsto> m)\<rparr>) t"
proof -
  obtain p m where p: "handlebars_compiler_compile_ex (eH E) (handlebars_compiler_set_flags handlebars_compiler_ctor 0) (template ps) = Inr p"
      "handlebars_program_serialize (eH E) v ts (int a) p = Inr m" and m: "stored m a 0 ps" "full_module m" "mflags m = 0"
    using compiled_stored [OF assms(1-3)] by blast
  note stored = m(1,2) assms(1-3,5)
  have "rested N (s\<lparr>vmods := (vmods s)(a \<mapsto> m)\<rparr>)" using assms(4) by (simp add: rested_def)
  from execute_module [OF this _ m(3,2) stored_runs(2) [OF stored] stored_runs(1) [OF stored] assms(6)] p show ?thesis by auto
qed

text \<open>A greeting, a list and an empty list, with text that has to be escaped.\<close>

definition sample_env :: env where
  "sample_env = \<lparr>eH = (\<lambda>s. of_nat (length s)), eG = (\<lambda>_. []), eparse = (\<lambda>_ _. Inl Mem_error), eversion = 1, enow = 0,
     esort = (\<lambda>_ xs. xs), eregistered = (\<lambda>_ _ _. raise Mem_error), eclosure = (\<lambda>_ _ _ _. raise Mem_error)\<rparr>"

definition sample_templates :: "tpl list" where
  "sample_templates = [Text ''Hi '', Var False [''name''], Block B_each [''row''] [Var True [], Text ''; ''] (Some [Text ''none''])]"

definition sample_context :: "value" where
  "sample_context = handlebars_value 0 (V_MAP 5
     [(handlebars_string_ctor ''name'', string_value (handlebars_string_ctor ''<A>'')),
      (handlebars_string_ctor ''row'', handlebars_value 0 (V_ARRAY 6 [string_value (handlebars_string_ctor ''x''), string_value (handlebars_string_ctor ''y'')]))])"

lemma not_a_helper: "handlebars_builtins_find ''name'' = None"
  by code_simp

lemma sample_scope: "unscoped [''name'']" "unscoped [''row'']"
  by (simp_all add: unscoped_def path_node_def handlebars_ast_helper_scoped_id_def str_defs hbs_str_len_def byte_at_def c_string_def)

lemma sample_names: "list_all names_ok sample_templates"
proof -
  have "\<not> list_ex (hbs_str_eq_strl (handlebars_string_ctor ''name'')) handlebars_builtins_names"
    by (simp add: handlebars_builtins_names_def hbs_str_eq_strl_def str_defs hbs_str_len_def)
  then show ?thesis
    by (simp add: sample_templates_def sample_scope path_node_def not_a_helper
        handlebars_compiler_is_known_helper_def handlebars_compiler_ctor_def node_part_def)
qed

lemma sample_find:
  "find_path sample_env sample_context [''name''] = string_value (handlebars_string_ctor ''<A>'')"
  "find_path sample_env sample_context [''row''] = handlebars_value 0 (V_ARRAY 6 [string_value (handlebars_string_ctor ''x''), string_value (handlebars_string_ctor ''y'')])"
  by (simp_all add: find_path_def sample_context_def handlebars_value_map_find_def lookup_item_def sample_env_def str_defs
     handlebars_string_eq_def item_is_def)

lemma sample_string [simp]:
  "\<not> handlebars_value_is_callable (string_value w)" "enter sample_env sample_context (string_value w) = string_value w"
  "value_text G escape (string_value w) = (if escape then html_escape (sval w) else sval w)"
  by (simp_all add: string_value_def handlebars_value_str_def set_body_def handlebars_value_is_callable_def enter_def
      handlebars_value_eq_def sample_context_def)

lemma sample_text: "seq (map (render sample_env 7) sample_templates) {} sample_context = Some ''Hi &lt;A&gt;x; y; ''"
  by (simp add: seq_def sample_templates_def sample_find Let_def block_text_def value_items_def each_allowed_def
      handlebars_value_is_callable_def [of "handlebars_value 0 _"] html_escape_def html_escape_char_def htmlspecialchars_pair_def)

theorem render_correct_witness:
  "\<exists>p m res t. handlebars_compiler_compile_ex (eH sample_env) (handlebars_compiler_set_flags handlebars_compiler_ctor 0) (template sample_templates) = Inr p \<and>
     handlebars_program_serialize (eH sample_env) 1 0 (int 4096) p = Inr m \<and>
     vm_execute sample_env 50 4096 sample_context ((handlebars_vm_ctor (\<lambda>_. None))\<lparr>vnext := 7, vmods := [4096 \<mapsto> m]\<rparr>) = (Inr (Some res), t) \<and>
     sval res = ''Hi &lt;A&gt;x; y; ''"
proof -
  let ?s = "(handlebars_vm_ctor (\<lambda>_. None))\<lparr>vnext := 7\<rparr>"
  have "list_height sample_templates \<le> 63" "list_programs sample_templates < 2 ^ 62" "list_fuel sample_templates \<le> 50"
    by (simp_all add: sample_templates_def list_height_def list_programs_def list_fuel_def)
  moreover have "rested 7 ?s" by (simp add: rested_def handlebars_vm_ctor_def empty_map_def)
  moreover have "?s\<lparr>vmods := (vmods ?s)(4096 \<mapsto> m)\<rparr> = (handlebars_vm_ctor (\<lambda>_. None))\<lparr>vnext := 7, vmods := [4096 \<mapsto> m]\<rparr>" for m
    by (simp add: handlebars_vm_ctor_def)
  ultimately show ?thesis
    using render_correct [OF sample_names _ _ _ _ sample_text, of ?s 50 1 0 4096] by auto
qed

end
